(* ===== verification/Prelude.thy ===== *)
theory Prelude
  imports Main "HOL-Library.Word" "HOL-Library.Monad_Syntax"
begin

text \<open>
  Shared vocabulary of the development.

  \<^item> The error numbers and the C truth values that the library's functions return.
  \<^item> The collections into which the components declare their facts:
    \<open>heap_simps\<close> (what a field read returns after a field write) and
    \<open>const_defs\<close> (the numeric constants of the headers).
  \<^item> Generic lemmas on lists, words and options that several components use.

  Pointers are either natural numbers with \<open>0\<close> for NULL, or a datatype with one
  constructor for every place a structure of the given type is embedded in.
\<close>

named_theorems heap_simps \<open>reading a field after writing a field\<close>
named_theorems const_defs \<open>numeric constants of the C headers\<close>

type_synonym u32 = "32 word"
type_synonym s64 = "64 word"

text \<open>The error numbers that the modelled functions return (errno.h on Linux).\<close>

definition EPERM :: int where "EPERM = 1"
definition ESRCH :: int where "ESRCH = 3"
definition EINTR :: int where "EINTR = 4"
definition EAGAIN :: int where "EAGAIN = 11"
definition ENOMEM :: int where "ENOMEM = 12"
definition EBUSY :: int where "EBUSY = 16"
definition EINVAL :: int where "EINVAL = 22"
definition EDEADLK :: int where "EDEADLK = 35"
definition ENOSYS :: int where "ENOSYS = 38"
definition EINPROGRESS :: int where "EINPROGRESS = 115"

lemmas errno_defs [const_defs] =
  EPERM_def ESRCH_def EINTR_def EAGAIN_def ENOMEM_def EBUSY_def EINVAL_def EDEADLK_def ENOSYS_def EINPROGRESS_def

subsection \<open>Words that count\<close>

text \<open>
  The counters of the library (\<open>total\<close>, \<open>r_nodes\<close>, \<open>q_num\<close>) are machine
  words.  \<open>counts w n\<close> says that the word represents \<open>n\<close> without having wrapped.
\<close>

definition counts :: "u32 \<Rightarrow> nat \<Rightarrow> bool" where
  "counts w n \<longleftrightarrow> w = of_nat n \<and> n < 2 ^ 32"

lemma counts_Suc: "counts w n \<Longrightarrow> Suc n < 2 ^ 32 \<Longrightarrow> counts (w + 1) (Suc n)"
  by (simp add: counts_def add.commute)

lemma counts_pred: "counts w n \<Longrightarrow> 0 < n \<Longrightarrow> counts (w - 1) (n - 1)"
  by (auto simp: counts_def of_nat_diff)

lemma counts_unat: "counts w n \<Longrightarrow> unat w = n"
  by (simp add: counts_def unat_of_nat take_bit_nat_eq_self_iff)

lemma counts_zero_iff: "counts w n \<Longrightarrow> w = 0 \<longleftrightarrow> n = 0"
  by (drule counts_unat) (auto simp: unat_eq_zero)

lemma counts_zero [simp]: "counts 0 0"
  by (simp add: counts_def)

subsection \<open>Signed integers\<close>

text \<open>A C \<open>int\<close> after an operation that may have left its range.\<close>

definition wrap_int :: "int \<Rightarrow> int" where
  "wrap_int i = signed_take_bit 31 i"

lemma wrap_int_small: "- (2 ^ 31) \<le> i \<Longrightarrow> i < 2 ^ 31 \<Longrightarrow> wrap_int i = i"
  by (simp add: wrap_int_def signed_take_bit_int_eq_self)

subsection \<open>Lists\<close>

lemma distinct_split_unique:
  assumes "distinct (xs @ e # ys)" and "xs @ e # ys = us @ e # vs"
  shows "us = xs \<and> vs = ys"
proof -
  from assms(2) have "distinct (us @ e # vs)" using assms(1) by simp
  with assms show ?thesis
    by (auto simp: append_eq_append_conv2 append_eq_Cons_conv Cons_eq_append_conv)
qed

lemma remove1_split: "e \<notin> set xs \<Longrightarrow> remove1 e (xs @ e # ys) = xs @ ys"
  by (simp add: remove1_append)

lemma sum_list_upd_fun:
  fixes f :: "nat \<Rightarrow> nat"
  assumes "i < n"
  shows "(\<Sum>k<n. (f(i := v)) k) + f i = (\<Sum>k<n. f k) + v"
proof -
  have "(\<Sum>k<n. (f(i := v)) k) = v + (\<Sum>k\<in>{..<n} - {i}. f k)"
    using assms by (subst sum.remove[where x = i]) auto
  moreover have "(\<Sum>k<n. f k) = f i + (\<Sum>k\<in>{..<n} - {i}. f k)"
    using assms by (subst sum.remove[where x = i]) auto
  ultimately show ?thesis by simp
qed

end
