(* ===== verification/Cycles.thy ===== *)
theory Cycles
  imports Prelude
begin

text \<open>
  Circular doubly linked lists.  The library links almost everything it owns this way:
  \<open>struct lnode_st\<close> (list.h), \<open>pth_ring_t\<close> (pth\_ring.c), the thread queue of
  pth\_pqueue.c, the event rings of pth\_event.c and the wait lists of mutexes.  They differ
  only in the structure the two links sit in.

  \<open>dseg n p a xs b\<close>: from \<open>a\<close> the next links lead through \<open>xs\<close> to \<open>b\<close>, and
  the prev links lead back.  \<open>dcycle n p (a # xs)\<close>: the links close into a ring with
  the distinct members \<open>a # xs\<close>.  The locale \<open>dlinks\<close> is the interface of a heap
  with two link fields; every structure above interprets it.
\<close>

fun dseg :: "('p \<Rightarrow> 'p) \<Rightarrow> ('p \<Rightarrow> 'p) \<Rightarrow> 'p \<Rightarrow> 'p list \<Rightarrow> 'p \<Rightarrow> bool" where
  "dseg n p a [] b \<longleftrightarrow> n a = b \<and> p b = a"
| "dseg n p a (x # xs) b \<longleftrightarrow> n a = x \<and> p x = a \<and> dseg n p x xs b"

definition dcycle :: "('p \<Rightarrow> 'p) \<Rightarrow> ('p \<Rightarrow> 'p) \<Rightarrow> 'p list \<Rightarrow> bool" where
  "dcycle n p xs \<longleftrightarrow>
     (case xs of [] \<Rightarrow> False | a # ys \<Rightarrow> distinct (a # ys) \<and> dseg n p a ys a)"

lemma dcycle_Cons [simp]: "dcycle n p (a # xs) \<longleftrightarrow> distinct (a # xs) \<and> dseg n p a xs a"
  by (simp add: dcycle_def)

lemma dcycle_Nil [simp]: "\<not> dcycle n p []"
  by (simp add: dcycle_def)

lemma dseg_append:
  "dseg n p a (xs @ y # ys) b \<longleftrightarrow> dseg n p a xs y \<and> dseg n p y ys b"
  by (induction xs arbitrary: a) auto

lemma dseg_snoc: "dseg n p a (xs @ [y]) b \<longleftrightarrow> dseg n p a xs y \<and> n y = b \<and> p b = y"
  by (simp add: dseg_append)

lemma dseg_nxt_upd [simp]:
  "u \<noteq> a \<Longrightarrow> u \<notin> set xs \<Longrightarrow> dseg (n(u := v)) p a xs b = dseg n p a xs b"
  by (induction xs arbitrary: a) auto

lemma dseg_prv_upd [simp]:
  "u \<noteq> b \<Longrightarrow> u \<notin> set xs \<Longrightarrow> dseg n (p(u := v)) a xs b = dseg n p a xs b"
  by (induction xs arbitrary: a) auto

lemma dseg_cong:
  assumes "\<And>x. x \<in> insert a (set xs) \<Longrightarrow> n x = n' x"
    and "\<And>x. x \<in> insert b (set xs) \<Longrightarrow> p x = p' x"
  shows "dseg n p a xs b = dseg n' p' a xs b"
  using assms by (induction xs arbitrary: a) auto

lemma dcycle_cong:
  assumes "\<And>x. x \<in> set xs \<Longrightarrow> n x = n' x" and "\<And>x. x \<in> set xs \<Longrightarrow> p x = p' x"
  shows "dcycle n p xs = dcycle n' p' xs"
proof (cases xs)
  case (Cons a ys)
  have "dseg n p a ys a = dseg n' p' a ys a"
    by (rule dseg_cong) (use assms Cons in auto)
  with Cons show ?thesis by simp
qed simp

lemma dcycle_distinct: "dcycle n p xs \<Longrightarrow> distinct xs"
  by (cases xs) auto

lemma dseg_first: "dseg n p a xs b \<Longrightarrow> n a = (case xs of [] \<Rightarrow> b | x # _ \<Rightarrow> x)"
  by (cases xs) auto

lemma dseg_unique:
  assumes "dseg n p a xs b" and "dseg n p a ys b" and "b \<notin> set xs" "b \<notin> set ys"
  shows "xs = ys"
  using assms
proof (induction xs arbitrary: a ys)
  case Nil
  then show ?case by (cases ys) auto
next
  case (Cons x xs)
  then show ?case by (cases ys) auto
qed

lemma dseg_last: "dseg n p a xs b \<Longrightarrow> p b = last (a # xs)"
  by (induction xs arbitrary: a) auto

lemma dseg_nthI:
  "(\<And>j. j \<le> length xs \<Longrightarrow> n ((a # xs) ! j) = (xs @ [b]) ! j \<and> p ((xs @ [b]) ! j) = (a # xs) ! j) \<Longrightarrow> dseg n p a xs b"
proof (induction xs arbitrary: a)
  case (Cons x xs)
  have "dseg n p x xs b" by (rule Cons.IH) (use Cons.prems [of "Suc _"] in simp)
  with Cons.prems [of 0] show ?case by simp
qed force

lemma dcycle_next: "dcycle n p (a # xs) \<Longrightarrow> n a = hd (xs @ [a])"
  by (cases xs) auto

lemma dcycle_prev: "dcycle n p (a # xs) \<Longrightarrow> p a = last (a # xs)"
  by (auto dest: dseg_last)

lemma dcycle_rotate1: "dcycle n p (a # xs) = dcycle n p (xs @ [a])"
proof (cases xs)
  case (Cons b ys)
  then show ?thesis by (auto simp: dseg_snoc)
qed simp

lemma dcycle_rotate: "dcycle n p (xs @ ys) = dcycle n p (ys @ xs)"
proof (induction xs arbitrary: ys)
  case (Cons a xs)
  have "dcycle n p ((a # xs) @ ys) = dcycle n p (xs @ (ys @ [a]))"
    by (metis append_Cons append_assoc dcycle_rotate1)
  also have "\<dots> = dcycle n p ((ys @ [a]) @ xs)" by (rule Cons.IH)
  finally show ?case by simp
qed simp

lemma dcycle_at: "dcycle n p (xs @ e # ys) \<Longrightarrow> dcycle n p (e # ys @ xs)"
  by (metis append_Cons dcycle_rotate)

lemma dcycle_next_at: "dcycle n p (xs @ e # ys) \<Longrightarrow> n e = hd (ys @ xs @ [e])"
  by (drule dcycle_at, drule dcycle_next) simp

lemma dcycle_prev_at: "dcycle n p (xs @ e # ys) \<Longrightarrow> p e = last (e # ys @ xs)"
  by (drule dcycle_at, erule dcycle_prev)

lemma dcycle_next_mem:
  assumes "dcycle n p xs" and "e \<in> set xs"
  shows "n e \<in> set xs"
proof -
  from assms(2) obtain us vs where xs: "xs = us @ e # vs" by (auto simp: in_set_conv_decomp)
  with assms(1) have "n e = hd (vs @ us @ [e])" by (blast dest: dcycle_next_at)
  with hd_in_set [of "vs @ us @ [e]"] xs show ?thesis by auto
qed

lemma dcycle_singleton [simp]: "dcycle n p [a] \<longleftrightarrow> n a = a \<and> p a = a"
  by simp

text \<open>A ring has one member exactly when its first member points to itself.\<close>

lemma dcycle_next_self: "dcycle n p (a # xs) \<Longrightarrow> n a = a \<longleftrightarrow> xs = []"
  by (cases xs) auto

lemma dcycle_prev_self: "dcycle n p (a # xs) \<Longrightarrow> p a = a \<longleftrightarrow> xs = []"
  by (auto dest!: dseg_last split: if_splits simp del: dseg.simps)

subsection \<open>Linking and unlinking\<close>

lemma dcycle_insert_after:
  assumes c: "dcycle n p (a # xs)" and e: "e \<notin> set (a # xs)"
  shows "dcycle (n(e := n a, a := e)) (p(e := a, n a := e)) (a # e # xs)"
proof (cases xs)
  case Nil
  with c e show ?thesis by auto
next
  case (Cons x ys)
  with c e show ?thesis by auto
qed

lemma dcycle_insert_before:
  assumes c: "dcycle n p (a # xs)" and e: "e \<notin> set (a # xs)"
  shows "dcycle (n(e := a, p a := e)) (p(e := p a, a := e)) (a # xs @ [e])"
proof (cases xs rule: rev_cases)
  case Nil
  with c e show ?thesis by auto
next
  case (snoc ys y)
  with c have py: "p a = y" "n y = a" by (auto simp: dseg_snoc)
  from c snoc have "dcycle n p (y # a # ys)"
    using dcycle_at [of n p "a # ys" y "[]"] by simp
  from dcycle_insert_after [OF this, of e] e snoc py
  have "dcycle (n(e := a, y := e)) (p(e := y, a := e)) (y # e # a # ys)" by simp
  then have "dcycle (n(e := a, y := e)) (p(e := y, a := e)) ([y, e] @ a # ys)" by simp
  then have "dcycle (n(e := a, y := e)) (p(e := y, a := e)) ((a # ys) @ [y, e])"
    by (rule dcycle_rotate [THEN iffD1])
  with py snoc show ?thesis by simp
qed

lemma dcycle_remove:
  assumes c: "dcycle n p (a # xs @ e # ys)"
  shows "dcycle (n(p e := n e)) (p(n e := p e)) (a # xs @ ys)"
proof -
  have pe: "p e = last (a # xs)" using c by (auto simp: dseg_append dest: dseg_last)
  have ne: "n e = hd (ys @ [a])" using c by (cases ys) (auto simp: dseg_append)
  show ?thesis
  proof (cases xs rule: rev_cases)
    case Nil
    with c pe ne show ?thesis by (cases ys) auto
  next
    case (snoc zs z)
    with c pe ne show ?thesis by (cases ys) (auto simp: dseg_append dseg_snoc)
  qed
qed

text \<open>Splicing a whole ring \<open>l # ls\<close> in after \<open>a\<close>.\<close>

lemma dcycle_splice:
  assumes a: "dcycle n p (a # xs)" and l: "dcycle n p (l # ls)"
    and d: "set (a # xs) \<inter> set (l # ls) = {}"
  shows "dcycle (n(a := l, p l := n a)) (p(l := a, n a := p l)) (a # l # ls @ xs)"
proof -
  have pl: "p l = last (l # ls)" using l by (rule dcycle_prev)
  have na: "n a = hd (xs @ [a])" using a by (rule dcycle_next)
  show ?thesis
  proof (cases ls rule: rev_cases)
    case Nil
    with a l d pl na show ?thesis by (cases xs) auto
  next
    case (snoc ms m)
    have "dseg n p l ms m" using l snoc by (simp add: dseg_snoc)
    with a l d pl na snoc show ?thesis
      by (cases xs) (auto simp: dseg_append dseg_snoc)
  qed
qed

subsection \<open>The interface of a heap with two links\<close>

locale dlinks =
  fixes nxt :: "'h \<Rightarrow> 'p \<Rightarrow> 'p"
    and prv :: "'h \<Rightarrow> 'p \<Rightarrow> 'p"
    and set_nxt :: "'p \<Rightarrow> 'p \<Rightarrow> 'h \<Rightarrow> 'h"
    and set_prv :: "'p \<Rightarrow> 'p \<Rightarrow> 'h \<Rightarrow> 'h"
  assumes nxt_set_nxt: "nxt (set_nxt a b h) = (nxt h)(a := b)"
    and prv_set_nxt: "prv (set_nxt a b h) = prv h"
    and nxt_set_prv: "nxt (set_prv a b h) = nxt h"
    and prv_set_prv: "prv (set_prv a b h) = (prv h)(a := b)"
begin

lemmas links = nxt_set_nxt prv_set_nxt nxt_set_prv prv_set_prv

text \<open>The four stores that put \<open>e\<close> between \<open>a\<close> and its successor.\<close>

lemma link_after:
  assumes "dcycle (nxt h) (prv h) (a # xs)" and "e \<notin> set (a # xs)"
    and "h' = set_prv (nxt h a) e (set_nxt a e (set_prv e a (set_nxt e (nxt h a) h)))"
  shows "dcycle (nxt h') (prv h') (a # e # xs)"
  using dcycle_insert_after [OF assms(1,2)] assms(3) by (simp add: links)

text \<open>The four stores that put \<open>e\<close> between \<open>a\<close> and its predecessor.\<close>

lemma link_before:
  assumes "dcycle (nxt h) (prv h) (a # xs)" and "e \<notin> set (a # xs)"
    and "h' = set_prv a e (set_nxt (prv h a) e (set_prv e (prv h a) (set_nxt e a h)))"
  shows "dcycle (nxt h') (prv h') (a # xs @ [e])"
  using dcycle_insert_before [OF assms(1,2)] assms(3) by (simp add: links)

text \<open>The two stores that take \<open>e\<close> out.\<close>

lemma unlink:
  assumes "dcycle (nxt h) (prv h) (a # xs @ e # ys)"
    and "h' = set_prv (nxt h e) (prv h e) (set_nxt (prv h e) (nxt h e) h)"
  shows "dcycle (nxt h') (prv h') (a # xs @ ys)"
  using dcycle_remove [OF assms(1)] assms(2) by (simp add: links)

text \<open>A ring that shares no member with the stores stays as it is.\<close>

lemma frame_set_nxt:
  "a \<notin> set zs \<Longrightarrow> dcycle (nxt (set_nxt a b h)) (prv (set_nxt a b h)) zs
     = dcycle (nxt h) (prv h) zs"
  by (rule dcycle_cong) (auto simp: links)

lemma frame_set_prv:
  "a \<notin> set zs \<Longrightarrow> dcycle (nxt (set_prv a b h)) (prv (set_prv a b h)) zs
     = dcycle (nxt h) (prv h) zs"
  by (rule dcycle_cong) (auto simp: links)

end

end
