(* ===== verification/ListNode.thy ===== *)
theory ListNode
  imports Cycles
begin

text \<open>
  list.h and node.h: the embedded doubly linked list node and the queue node built on it.

  \<open>'p lnode_st\<close> is \<open>struct lnode_st\<close>; a heap maps the pointers of type \<open>'p\<close>
  to their nodes, so the list functions are independent of the structure a node is embedded
  in.  A queue node (\<open>struct node_st\<close>) has an embedded list node, a back pointer to
  the queue it is in, its priority and its list type.
\<close>

subsection \<open>list.h\<close>

record 'p lnode_st =
  lnext :: 'p
  lprev :: 'p

type_synonym 'p lheap = "'p \<Rightarrow> 'p lnode_st"

definition set_lnext :: "'p \<Rightarrow> 'p \<Rightarrow> 'p lheap \<Rightarrow> 'p lheap" where
  "set_lnext a b h = h(a := (h a)\<lparr>lnext := b\<rparr>)"

definition set_lprev :: "'p \<Rightarrow> 'p \<Rightarrow> 'p lheap \<Rightarrow> 'p lheap" where
  "set_lprev a b h = h(a := (h a)\<lparr>lprev := b\<rparr>)"

definition lnode_init :: "'p \<Rightarrow> 'p lheap \<Rightarrow> 'p lheap" where
  "lnode_init node h = set_lnext node node (set_lprev node node h)"

definition list_insert_between :: "'p \<Rightarrow> 'p \<Rightarrow> 'p \<Rightarrow> 'p lheap \<Rightarrow> 'p lheap" where
  "list_insert_between e p n h =
     set_lprev n e (set_lnext p e (set_lprev e p (set_lnext e n h)))"

definition list_insert :: "'p \<Rightarrow> 'p \<Rightarrow> 'p lheap \<Rightarrow> 'p lheap" where
  "list_insert e w h = list_insert_between e w (lnext (h w)) h"

definition list_insert_tail :: "'p \<Rightarrow> 'p \<Rightarrow> 'p lheap \<Rightarrow> 'p lheap" where
  "list_insert_tail e w h = list_insert_between e (lprev (h w)) w h"

definition list_insert_list :: "'p \<Rightarrow> 'p \<Rightarrow> 'p lheap \<Rightarrow> 'p lheap" where
  "list_insert_list l w h =
     (let ll = lprev (h l); wn = lnext (h w)
      in set_lprev wn ll (set_lnext ll wn (set_lprev l w (set_lnext w l h))))"

definition list_del_between :: "'p \<Rightarrow> 'p \<Rightarrow> 'p lheap \<Rightarrow> 'p lheap" where
  "list_del_between p n h = set_lnext p n (set_lprev n p h)"

definition list_del :: "'p \<Rightarrow> 'p lheap \<Rightarrow> 'p lheap" where
  "list_del e h = list_del_between (lprev (h e)) (lnext (h e)) h"

definition list_del_init :: "'p \<Rightarrow> 'p lheap \<Rightarrow> 'p lheap" where
  "list_del_init e h = lnode_init e (list_del_between (lprev (h e)) (lnext (h e)) h)"

definition list_empty :: "'p \<Rightarrow> 'p lheap \<Rightarrow> bool" where
  "list_empty e h \<longleftrightarrow> lnext (h e) = e"

definition list_node_is_tail :: "'p \<Rightarrow> 'p \<Rightarrow> 'p lheap \<Rightarrow> bool" where
  "list_node_is_tail n f h \<longleftrightarrow> lnext (h n) = f"

definition list_next :: "'p \<Rightarrow> 'p lheap \<Rightarrow> 'p" where
  "list_next n h = lnext (h n)"

text \<open>
  \<open>lring h xs\<close>: the list nodes \<open>xs\<close> form a ring.  For a list with a head,
  \<open>xs\<close> is the head followed by the entries.
\<close>

definition lring :: "'p lheap \<Rightarrow> 'p list \<Rightarrow> bool" where
  "lring h xs \<longleftrightarrow> dcycle (\<lambda>a. lnext (h a)) (\<lambda>a. lprev (h a)) xs"

lemma lnext_set_lnext [heap_simps]:
  "(\<lambda>x. lnext (set_lnext a b h x)) = (\<lambda>x. lnext (h x))(a := b)"
  by (auto simp: set_lnext_def)

lemma lprev_set_lnext [heap_simps]: "(\<lambda>x. lprev (set_lnext a b h x)) = (\<lambda>x. lprev (h x))"
  by (auto simp: set_lnext_def)

lemma lnext_set_lprev [heap_simps]: "(\<lambda>x. lnext (set_lprev a b h x)) = (\<lambda>x. lnext (h x))"
  by (auto simp: set_lprev_def)

lemma lprev_set_lprev [heap_simps]:
  "(\<lambda>x. lprev (set_lprev a b h x)) = (\<lambda>x. lprev (h x))(a := b)"
  by (auto simp: set_lprev_def)

interpretation ll: dlinks "\<lambda>h a. lnext (h a)" "\<lambda>h a. lprev (h a)" set_lnext set_lprev
  by unfold_locales (simp_all only: heap_simps)

lemma lring_distinct: "lring h xs \<Longrightarrow> distinct xs"
  unfolding lring_def by (rule dcycle_distinct)

lemma lring_unique:
  assumes "lring h (a # xs)" and "lring h (a # ys)"
  shows "xs = ys"
  using assms dseg_unique [of "\<lambda>x. lnext (h x)" "\<lambda>x. lprev (h x)" a xs a ys] by (simp add: lring_def)

lemma lring_rotate: "lring h (xs @ ys) = lring h (ys @ xs)"
  unfolding lring_def by (rule dcycle_rotate)

lemma lring_cong: "(\<And>x. x \<in> set xs \<Longrightarrow> h x = h' x) \<Longrightarrow> lring h xs = lring h' xs"
  unfolding lring_def by (rule dcycle_cong) auto

lemma lring_next: "lring h (a # xs) \<Longrightarrow> lnext (h a) = hd (xs @ [a])"
  unfolding lring_def by (rule dcycle_next)

lemma lring_prev: "lring h (a # xs) \<Longrightarrow> lprev (h a) = last (a # xs)"
  unfolding lring_def by (rule dcycle_prev)

lemma lring_next_at: "lring h (xs @ e # ys) \<Longrightarrow> lnext (h e) = hd (ys @ xs @ [e])"
  unfolding lring_def by (rule dcycle_next_at)

lemma lring_prev_at: "lring h (xs @ e # ys) \<Longrightarrow> lprev (h e) = last (e # ys @ xs)"
  unfolding lring_def by (rule dcycle_prev_at)

lemma list_empty_ring: "lring h (a # xs) \<Longrightarrow> list_empty a h \<longleftrightarrow> xs = []"
  unfolding lring_def list_empty_def by (rule dcycle_next_self)

lemma lnode_init_ring: "lring (lnode_init a h) [a]"
  by (auto simp: lring_def lnode_init_def set_lnext_def set_lprev_def)

lemma lnode_init_other: "x \<noteq> a \<Longrightarrow> lnode_init a h x = h x"
  by (simp add: lnode_init_def set_lnext_def set_lprev_def)

lemma list_insert_ring:
  assumes "lring h (a # xs)" and "e \<notin> set (a # xs)"
  shows "lring (list_insert e a h) (a # e # xs)"
  using ll.link_after [of h a xs e "list_insert e a h"] assms
  by (simp add: lring_def list_insert_def list_insert_between_def)

lemma list_insert_tail_ring:
  assumes "lring h (a # xs)" and "e \<notin> set (a # xs)"
  shows "lring (list_insert_tail e a h) (a # xs @ [e])"
  using ll.link_before [of h a xs e "list_insert_tail e a h"] assms
  by (simp add: lring_def list_insert_tail_def list_insert_between_def)

lemma list_insert_list_ring:
  assumes "lring h (a # xs)" and "lring h (l # ls)" and "set (a # xs) \<inter> set (l # ls) = {}"
  shows "lring (list_insert_list l a h) (a # l # ls @ xs)"
  using dcycle_splice [of "\<lambda>x. lnext (h x)" "\<lambda>x. lprev (h x)" a xs l ls] assms
  by (simp add: lring_def list_insert_list_def Let_def heap_simps)

lemma list_del_ring:
  assumes "lring h (a # xs @ e # ys)"
  shows "lring (list_del e h) (a # xs @ ys)"
  using dcycle_remove [of "\<lambda>x. lnext (h x)" "\<lambda>x. lprev (h x)" a xs e ys] assms
  by (simp add: lring_def list_del_def list_del_between_def heap_simps)

text \<open>Which cells the operations store to; every other cell keeps its contents.\<close>

lemma list_insert_frame:
  "x \<notin> {e, w, lnext (h w)} \<Longrightarrow> list_insert e w h x = h x"
  by (simp add: list_insert_def list_insert_between_def set_lnext_def set_lprev_def)

lemma list_insert_tail_frame:
  "x \<notin> {e, w, lprev (h w)} \<Longrightarrow> list_insert_tail e w h x = h x"
  by (simp add: list_insert_tail_def list_insert_between_def set_lnext_def set_lprev_def)

lemma list_del_frame:
  "x \<notin> {lnext (h e), lprev (h e)} \<Longrightarrow> list_del e h x = h x"
  by (simp add: list_del_def list_del_between_def set_lnext_def set_lprev_def)

text \<open>
  Hence an operation on one ring leaves every ring with no common member as it is.
\<close>

lemma list_insert_other:
  assumes "lring h (w # xs)" and "lring h zs" and "set zs \<inter> set (e # w # xs) = {}"
  shows "lring (list_insert e w h) zs"
proof -
  have "lnext (h w) \<in> set (w # xs)"
    using lring_next [OF assms(1)] by (cases xs) auto
  with assms(3) have "\<And>x. x \<in> set zs \<Longrightarrow> list_insert e w h x = h x"
    by (intro list_insert_frame) auto
  with assms(2) show ?thesis using lring_cong [of zs "list_insert e w h" h] by blast
qed

lemma list_insert_tail_other:
  assumes "lring h (w # xs)" and "lring h zs" and "set zs \<inter> set (e # w # xs) = {}"
  shows "lring (list_insert_tail e w h) zs"
proof -
  have "lprev (h w) \<in> set (w # xs)"
    using lring_prev [OF assms(1)] by (metis last_in_set list.distinct(1))
  with assms(3) have "\<And>x. x \<in> set zs \<Longrightarrow> list_insert_tail e w h x = h x"
    by (intro list_insert_tail_frame) auto
  with assms(2) show ?thesis using lring_cong [of zs "list_insert_tail e w h" h] by blast
qed

lemma list_insert_list_other:
  assumes "lring h (w # xs)" and "lring h (l # ls)" and "lring h zs" and "set zs \<inter> (set (w # xs) \<union> set (l # ls)) = {}"
  shows "lring (list_insert_list l w h) zs"
proof -
  have "lnext (h w) \<in> set (w # xs)" using lring_next [OF assms(1)] by (cases xs) auto
  moreover have "lprev (h l) \<in> set (l # ls)" using lring_prev [OF assms(2)] by (metis last_in_set list.distinct(1))
  ultimately have "\<And>x. x \<in> set zs \<Longrightarrow> list_insert_list l w h x = h x"
    using assms(4) by (auto simp: list_insert_list_def Let_def set_lnext_def set_lprev_def)
  with assms(3) show ?thesis using lring_cong [of zs "list_insert_list l w h" h] by blast
qed

lemma list_del_other:
  assumes "lring h (a # xs @ e # ys)" and "lring h zs" and "set zs \<inter> set (a # xs @ e # ys) = {}"
  shows "lring (list_del e h) zs"
proof -
  have r: "lring h ((a # xs) @ e # ys)" using assms(1) by simp
  have "lnext (h e) \<in> set (a # xs @ e # ys)"
    using lring_next_at [OF r] by (cases ys) auto
  moreover have "lprev (h e) \<in> set (a # xs @ e # ys)"
    using lring_prev_at [OF r] last_in_set [of "e # ys @ a # xs"] by auto
  ultimately have "\<And>x. x \<in> set zs \<Longrightarrow> list_del e h x = h x"
    using assms(3) by (intro list_del_frame) auto
  with assms(2) show ?thesis using lring_cong [of zs "list_del e h" h] by blast
qed

subsection \<open>node.h\<close>

text \<open>
  The places a list node of the queues sits in: the head of one priority of a priority
  queue, the head of a plain queue, and the \<open>lnode\<close> member of a queue node.
  \<open>list_entry\<close> (address arithmetic in C) is then the inverse of \<open>NodeLn\<close>.
\<close>

datatype lptr = LNull | PqHead nat nat | QHead nat | NodeLn nat

datatype backptr = NoQ | InPq nat | InQ nat

datatype node_lt_e = node_lt_nowhere | node_lt_queue | node_lt_pqueue

record node_st =
  bp :: backptr
  priority :: int
  node_lt :: node_lt_e

record pqueue_st =
  pq_total :: u32
  pq_bitmap :: "u32 list"
  pq_lock :: int

record queue_st =
  q_total :: u32
  q_lock :: int

record qworld =
  lnodes :: "lptr lheap"
  nodes :: "nat \<Rightarrow> node_st"
  pqueues :: "nat \<Rightarrow> pqueue_st"
  queues :: "nat \<Rightarrow> queue_st"

definition upd_lnodes :: "(lptr lheap \<Rightarrow> lptr lheap) \<Rightarrow> qworld \<Rightarrow> qworld" where
  "upd_lnodes f w = w\<lparr>lnodes := f (lnodes w)\<rparr>"

definition upd_node :: "nat \<Rightarrow> (node_st \<Rightarrow> node_st) \<Rightarrow> qworld \<Rightarrow> qworld" where
  "upd_node n f w = w\<lparr>nodes := (nodes w)(n := f (nodes w n))\<rparr>"

definition upd_pqueue :: "nat \<Rightarrow> (pqueue_st \<Rightarrow> pqueue_st) \<Rightarrow> qworld \<Rightarrow> qworld" where
  "upd_pqueue q f w = w\<lparr>pqueues := (pqueues w)(q := f (pqueues w q))\<rparr>"

definition upd_queue :: "nat \<Rightarrow> (queue_st \<Rightarrow> queue_st) \<Rightarrow> qworld \<Rightarrow> qworld" where
  "upd_queue q f w = w\<lparr>queues := (queues w)(q := f (queues w q))\<rparr>"

lemma upd_lnodes_sel [simp]:
  "lnodes (upd_lnodes f w) = f (lnodes w)" "nodes (upd_lnodes f w) = nodes w"
  "pqueues (upd_lnodes f w) = pqueues w" "queues (upd_lnodes f w) = queues w"
  by (simp_all add: upd_lnodes_def)

lemma upd_node_sel [simp]:
  "lnodes (upd_node n f w) = lnodes w" "nodes (upd_node n f w) = (nodes w)(n := f (nodes w n))"
  "pqueues (upd_node n f w) = pqueues w" "queues (upd_node n f w) = queues w"
  by (simp_all add: upd_node_def)

lemma upd_pqueue_sel [simp]:
  "lnodes (upd_pqueue q g w) = lnodes w" "nodes (upd_pqueue q g w) = nodes w"
  "pqueues (upd_pqueue q g w) = (pqueues w)(q := g (pqueues w q))"
  "queues (upd_pqueue q g w) = queues w"
  by (simp_all add: upd_pqueue_def)

lemma upd_queue_sel [simp]:
  "lnodes (upd_queue q g w) = lnodes w" "nodes (upd_queue q g w) = nodes w"
  "queues (upd_queue q g w) = (queues w)(q := g (queues w q))"
  "pqueues (upd_queue q g w) = pqueues w"
  by (simp_all add: upd_queue_def)

definition node_init :: "nat \<Rightarrow> qworld \<Rightarrow> qworld" where
  "node_init node w = upd_lnodes (lnode_init (NodeLn node)) w"

definition node_by_lnode :: "lptr \<Rightarrow> nat option" where
  "node_by_lnode lnode = (case lnode of NodeLn n \<Rightarrow> Some n | _ \<Rightarrow> None)"

definition node_pqueue_set :: "nat \<Rightarrow> nat option \<Rightarrow> qworld \<Rightarrow> qworld" where
  "node_pqueue_set node pqueue w = upd_node node (\<lambda>s.
     s\<lparr>bp := (case pqueue of Some q \<Rightarrow> InPq q | None \<Rightarrow> NoQ),
       node_lt := (if pqueue \<noteq> None then node_lt_pqueue else node_lt_nowhere)\<rparr>) w"

definition node_queue_set :: "nat \<Rightarrow> nat option \<Rightarrow> qworld \<Rightarrow> qworld" where
  "node_queue_set node queue w = upd_node node (\<lambda>s.
     s\<lparr>bp := (case queue of Some q \<Rightarrow> InQ q | None \<Rightarrow> NoQ),
       node_lt := (if queue \<noteq> None then node_lt_queue else node_lt_nowhere)\<rparr>) w"

text \<open>\<open>True\<close> stands for the return value 1: the node is in a list of another type.\<close>

definition node_lt_check :: "nat \<Rightarrow> node_lt_e \<Rightarrow> qworld \<Rightarrow> bool" where
  "node_lt_check node lt w \<longleftrightarrow> node_lt (nodes w node) \<noteq> lt"

end
