(* ===== verification/Bitmap.thy ===== *)
theory Bitmap
  imports Prelude
begin

text \<open>
  bitmap.h with the 32-bit bit operations of bitops.h: the accelerator that finds the highest
  non-empty priority of a run queue.

  \<open>find_first_ms_bit\<close> is the \<open>bsrl\<close> instruction; its result is undefined for the
  argument 0, which is the value \<open>None\<close> here.  \<open>bitmap_test\<close> is the reading of a
  bitmap as a set of bit numbers, the specification the operations are compared with.
\<close>

unbundle bit_operations_syntax

definition BITMAP_BITS :: nat where "BITMAP_BITS = 160"
definition BITMAP_BASE_BITSIZE :: nat where "BITMAP_BASE_BITSIZE = 8 * 4"
definition BITMAP_SLOTS :: nat where
  "BITMAP_SLOTS = ((BITMAP_BITS + 1 + 7) div 8 + 4 - 1) div 4"

lemmas bitmap_consts [const_defs] = BITMAP_BITS_def BITMAP_BASE_BITSIZE_def BITMAP_SLOTS_def

type_synonym bitmap_st = "u32 list"

definition find_first_ms_bit :: "u32 \<Rightarrow> nat option" where
  "find_first_ms_bit w = find (bit w) (rev [0..<32])"

definition bit_set :: "nat \<Rightarrow> bitmap_st \<Rightarrow> bitmap_st" where
  "bit_set b w = w[b div 32 := w ! (b div 32) OR push_bit (b mod 32) 1]"

definition bit_reset :: "nat \<Rightarrow> bitmap_st \<Rightarrow> bitmap_st" where
  "bit_reset b w = w[b div 32 := w ! (b div 32) AND NOT (push_bit (b mod 32) 1)]"

definition bitmap_zero :: "bitmap_st \<Rightarrow> bitmap_st" where
  "bitmap_zero bitmap = replicate BITMAP_SLOTS 0"

definition bitmap_init :: "bitmap_st \<Rightarrow> bitmap_st" where
  "bitmap_init bitmap = bitmap"

definition bitmap_reset :: "bitmap_st \<Rightarrow> bitmap_st" where
  "bitmap_reset bitmap = bitmap_zero bitmap"

definition bitmap_set_bit :: "bitmap_st \<Rightarrow> nat \<Rightarrow> bitmap_st" where
  "bitmap_set_bit bitmap b = bit_set b bitmap"

definition bitmap_reset_bit :: "bitmap_st \<Rightarrow> nat \<Rightarrow> bitmap_st" where
  "bitmap_reset_bit bitmap b = bit_reset b bitmap"

text \<open>The unrolled scan from slot 4 down to slot 0.\<close>

definition bitmap_scan :: "bitmap_st \<Rightarrow> nat \<Rightarrow> nat option" where
  "bitmap_scan bitmap r =
     map_option (\<lambda>i. i + r * BITMAP_BASE_BITSIZE) (find_first_ms_bit (bitmap ! r))"

definition bitmap_ffms_bit_set :: "bitmap_st \<Rightarrow> nat option" where
  "bitmap_ffms_bit_set bitmap =
     (if bitmap ! 4 \<noteq> 0 then bitmap_scan bitmap 4
      else if bitmap ! 3 \<noteq> 0 then bitmap_scan bitmap 3
      else if bitmap ! 2 \<noteq> 0 then bitmap_scan bitmap 2
      else if bitmap ! 1 \<noteq> 0 then bitmap_scan bitmap 1
      else find_first_ms_bit (bitmap ! 0))"

definition bitmap_test :: "bitmap_st \<Rightarrow> nat \<Rightarrow> bool" where
  "bitmap_test bitmap b \<longleftrightarrow> bit (bitmap ! (b div 32)) (b mod 32)"

subsection \<open>Lemmas\<close>

lemma bitmap_zero_test [simp]: "b < 160 \<Longrightarrow> \<not> bitmap_test (bitmap_zero bm) b"
  by (simp add: bitmap_test_def bitmap_zero_def const_defs less_mult_imp_div_less)

lemma bit_exp_u32: "bit ((2 :: u32) ^ j) i \<longleftrightarrow> i = j \<and> j < 32"
  by (auto simp: bit_exp_iff)

lemma bitmap_set_bit_length [simp]: "length (bitmap_set_bit bm b) = length bm"
  by (simp add: bitmap_set_bit_def bit_set_def)

lemma bitmap_reset_bit_length [simp]: "length (bitmap_reset_bit bm b) = length bm"
  by (simp add: bitmap_reset_bit_def bit_reset_def)

lemma div_mod_32_eq: "b div 32 = c div 32 \<Longrightarrow> b mod 32 = c mod (32 :: nat) \<Longrightarrow> b = c"
  by (metis div_mult_mod_eq)

lemma bitmap_test_set_bit:
  assumes "b div 32 < length bm" and "c div 32 < length bm"
  shows "bitmap_test (bitmap_set_bit bm b) c \<longleftrightarrow> c = b \<or> bitmap_test bm c"
proof (cases "c div 32 = b div 32")
  case True
  with assms show ?thesis
    using div_mod_32_eq [of c b]
    by (auto simp: bitmap_test_def bitmap_set_bit_def bit_set_def bit_or_iff bit_exp_u32)
next
  case False
  then have "c \<noteq> b" by auto
  with False show ?thesis
    by (simp add: bitmap_test_def bitmap_set_bit_def bit_set_def)
qed

lemma bitmap_test_reset_bit:
  assumes "b div 32 < length bm" and "c div 32 < length bm"
  shows "bitmap_test (bitmap_reset_bit bm b) c \<longleftrightarrow> c \<noteq> b \<and> bitmap_test bm c"
proof (cases "c div 32 = b div 32")
  case True
  with assms show ?thesis
    using div_mod_32_eq [of c b]
    by (auto simp: bitmap_test_def bitmap_reset_bit_def bit_reset_def bit_and_iff
        bit_not_iff bit_exp_u32)
next
  case False
  then have "c \<noteq> b" by auto
  with False show ?thesis
    by (simp add: bitmap_test_def bitmap_reset_bit_def bit_reset_def)
qed

lemma find_rev_upt_Some:
  "find P (rev [0..<n]) = Some i \<longleftrightarrow> i < n \<and> P i \<and> (\<forall>j<n. P j \<longrightarrow> j \<le> i)"
proof (induction n)
  case (Suc n)
  show ?case
  proof (cases "P n")
    case True
    then show ?thesis by (auto simp: less_Suc_eq_le intro: le_antisym)
  next
    case False
    with Suc show ?thesis by (auto simp: less_Suc_eq)
  qed
qed simp

lemma find_first_ms_bit_Some:
  "find_first_ms_bit w = Some i \<longleftrightarrow> bit w i \<and> (\<forall>j. bit w j \<longrightarrow> j \<le> i)"
proof -
  have "bit w j \<Longrightarrow> j < 32" for j using bit_imp_le_length [of w j] by simp
  then show ?thesis by (auto simp: find_first_ms_bit_def find_rev_upt_Some)
qed

lemma find_first_ms_bit_nonzero:
  assumes "w \<noteq> 0"
  obtains i where "find_first_ms_bit w = Some i" "i < 32"
proof -
  from assms obtain j where j: "bit w j" by (metis bit_eqI bit_0_eq bot_apply bot_bool_def)
  then have "j < 32" using bit_imp_le_length [of w j] by simp
  with j have "find (bit w) (rev [0..<32]) \<noteq> None" by (auto simp: find_None_iff)
  then obtain i where i: "find_first_ms_bit w = Some i" by (auto simp: find_first_ms_bit_def)
  then have "i < 32" by (simp add: find_first_ms_bit_def find_rev_upt_Some)
  with i that show ?thesis by blast
qed

text \<open>The scan of one slot finds the highest bit of that slot.\<close>

lemma bitmap_scan_highest:
  assumes nz: "bm ! r \<noteq> 0" and z: "\<And>s. r < s \<Longrightarrow> s < 5 \<Longrightarrow> bm ! s = 0" and r: "r < 5"
  shows "\<exists>m. bitmap_scan bm r = Some m \<and> m < 160 \<and> bitmap_test bm m
           \<and> (\<forall>j<160. bitmap_test bm j \<longrightarrow> j \<le> m)"
proof -
  obtain i where i: "find_first_ms_bit (bm ! r) = Some i" "i < 32"
    using find_first_ms_bit_nonzero [OF nz] by blast
  let ?m = "i + r * 32"
  have s: "bitmap_scan bm r = Some ?m"
    by (simp add: bitmap_scan_def i const_defs)
  have b: "bit (bm ! r) i" "\<And>j. bit (bm ! r) j \<Longrightarrow> j \<le> i"
    using i(1) by (auto simp: find_first_ms_bit_Some)
  have "bitmap_test bm ?m" using b i(2) by (simp add: bitmap_test_def)
  moreover have "?m < 160" using i(2) r by simp
  moreover have "j \<le> ?m" if j: "j < 160" "bitmap_test bm j" for j
  proof -
    have "j div 32 < 5" using j(1) by simp
    have "bm ! (j div 32) \<noteq> 0" using j(2) by (auto simp: bitmap_test_def)
    with z \<open>j div 32 < 5\<close> have le: "j div 32 \<le> r" by (meson not_le)
    show ?thesis
    proof (cases "j div 32 = r")
      case True
      with j(2) b(2) have "j mod 32 \<le> i" by (simp add: bitmap_test_def)
      moreover have "j = j mod 32 + r * 32" using True by (metis add.commute div_mult_mod_eq)
      ultimately show ?thesis by linarith
    next
      case False
      with le have "j div 32 < r" by simp
      then show ?thesis by linarith
    qed
  qed
  ultimately show ?thesis using s by blast
qed

lemma bitmap_ffms_highest:
  assumes "b < 160" and "bitmap_test bm b"
  shows "\<exists>m. bitmap_ffms_bit_set bm = Some m \<and> m < 160 \<and> bitmap_test bm m
           \<and> (\<forall>j<160. bitmap_test bm j \<longrightarrow> j \<le> m)"
proof -
  have nz: "bm ! (b div 32) \<noteq> 0" using assms(2) by (auto simp: bitmap_test_def)
  have s0: "bitmap_scan bm 0 = find_first_ms_bit (bm ! 0)"
    by (simp add: bitmap_scan_def option.map_ident)
  obtain r where r: "r < 5" "bm ! r \<noteq> 0" "\<And>s. r < s \<Longrightarrow> s < 5 \<Longrightarrow> bm ! s = 0"
  proof -
    define r where "r = (GREATEST r. r < 5 \<and> bm ! r \<noteq> 0)"
    have ex: "b div 32 < 5 \<and> bm ! (b div 32) \<noteq> 0" using nz assms(1) by simp
    have "r < 5 \<and> bm ! r \<noteq> 0"
      unfolding r_def using ex
      by (rule GreatestI_nat [where b = 5 and P = "\<lambda>r. r < 5 \<and> bm ! r \<noteq> 0"]) auto
    moreover have "s \<le> r" if "s < 5 \<and> bm ! s \<noteq> 0" for s
      unfolding r_def using that
      by (rule Greatest_le_nat [where b = 5 and P = "\<lambda>r. r < 5 \<and> bm ! r \<noteq> 0"]) auto
    ultimately show ?thesis using that by (meson not_le)
  qed
  have "bitmap_ffms_bit_set bm = bitmap_scan bm r"
  proof -
    consider "r = 0" | "r = 1" | "r = 2" | "r = 3" | "r = 4" using r(1) by linarith
    then show ?thesis by cases (use r(2) r(3)[of 1] r(3)[of 2] r(3)[of 3] r(3)[of 4] s0
          in \<open>auto simp: bitmap_ffms_bit_set_def\<close>)
  qed
  with bitmap_scan_highest [OF r(2,3) r(1)] show ?thesis by simp
qed

subsection \<open>Properties\<close>

text \<open>
  \<open>bitmap_ffms_bit_set\<close> returns the highest bit that is set among the 160 bits of a
  bitmap, if there is one.
\<close>

theorem ffms_is_highest:
  assumes "b < 160" and "bitmap_test bm b"
  shows "\<exists>m. bitmap_ffms_bit_set bm = Some m \<and> m < 160 \<and> bitmap_test bm m
           \<and> (\<forall>j<160. bitmap_test bm j \<longrightarrow> j \<le> m)"
  by (rule bitmap_ffms_highest [OF assms])

theorem ffms_is_highest_witness:
  "bitmap_test [0, 0, 5, 0, 0, 0] 64 \<and> (\<exists>m. bitmap_ffms_bit_set [0, 0, 5, 0, 0, 0] = Some m
     \<and> m < 160 \<and> 64 \<le> m)"
proof -
  have "bitmap_test [0, 0, 5, 0, 0, 0] 64" by (simp add: bitmap_test_def)
  then show ?thesis using ffms_is_highest [of 64 "[0, 0, 5, 0, 0, 0]"] by auto
qed

end
