(* ===== verification/Priorities.thy ===== *)
theory Priorities
  imports Prelude
begin

text \<open>
  priorities.h: the mapping between the priorities the user sees (per scheduling policy) and
  the flat internal priorities of the scheduler.  The functions set \<open>errno\<close>; it is
  passed through as the last argument and returned as the second component.
\<close>

definition SCHED_OTHER :: int where "SCHED_OTHER = 0"
definition SCHED_FIFO :: int where "SCHED_FIFO = 1"
definition SCHED_RR :: int where "SCHED_RR = 2"
definition SCHED_INTERNAL :: int where "SCHED_INTERNAL = 3"
definition IPRIO_MAX :: int where "IPRIO_MAX = 140"
definition IPRIO_MIN :: int where "IPRIO_MIN = 0"

lemmas sched_consts [const_defs] =
  SCHED_OTHER_def SCHED_FIFO_def SCHED_RR_def SCHED_INTERNAL_def IPRIO_MAX_def IPRIO_MIN_def

record priority_bounds_s =
  pb_min :: int
  pb_max :: int

definition priority_bounds :: "priority_bounds_s list" where
  "priority_bounds =
     [\<lparr>pb_min = 0, pb_max = 41\<rparr>, \<lparr>pb_min = 1, pb_max = 99\<rparr>, \<lparr>pb_min = 1, pb_max = 99\<rparr>,
      \<lparr>pb_min = IPRIO_MIN, pb_max = IPRIO_MAX\<rparr>]"

definition user_policy :: "int \<Rightarrow> bool" where
  "user_policy p \<longleftrightarrow> p = SCHED_OTHER \<or> p = SCHED_FIFO \<or> p = SCHED_RR"

definition xprio_get_min :: "int \<Rightarrow> int \<Rightarrow> int \<times> int" where
  "xprio_get_min sched_policy errno =
     (if user_policy sched_policy
      then (pb_min (priority_bounds ! nat sched_policy), errno)
      else (-1, EINVAL))"

definition xprio_get_max :: "int \<Rightarrow> int \<Rightarrow> int \<times> int" where
  "xprio_get_max sched_policy errno =
     (if user_policy sched_policy
      then (pb_max (priority_bounds ! nat sched_policy), errno)
      else (-1, EINVAL))"

definition iprio_to_xprio :: "int \<Rightarrow> int \<Rightarrow> int \<Rightarrow> int \<times> int" where
  "iprio_to_xprio sched_policy internal_prio errno =
     (if sched_policy = SCHED_OTHER then (internal_prio, errno)
      else if sched_policy = SCHED_FIFO \<or> sched_policy = SCHED_RR
      then (internal_prio - pb_max (priority_bounds ! nat SCHED_OTHER), errno)
      else (-1, EINVAL))"

definition xprio_to_iprio :: "int \<Rightarrow> int \<Rightarrow> int \<Rightarrow> int \<times> int" where
  "xprio_to_iprio sched_policy external_prio errno =
     (if sched_policy = SCHED_OTHER then (external_prio, errno)
      else if sched_policy = SCHED_FIFO \<or> sched_policy = SCHED_RR
      then (external_prio + pb_max (priority_bounds ! nat SCHED_OTHER), errno)
      else (-1, EINVAL))"

text \<open>The second call is made only when the first comparison fails (\<open>||\<close>).\<close>

definition prio_validate :: "int \<Rightarrow> int \<Rightarrow> int \<Rightarrow> int \<times> int" where
  "prio_validate sched_policy external_prio errno =
     (let (mn, e1) = xprio_get_min sched_policy errno
      in if external_prio < mn then (-1, EINVAL)
         else let (mx, e2) = xprio_get_max sched_policy e1
              in if external_prio > mx then (-1, EINVAL) else (0, e2))"

definition xprio_get_default :: "int \<Rightarrow> int \<Rightarrow> int \<times> int" where
  "xprio_get_default sched_policy errno =
     (if user_policy sched_policy
      then let b = priority_bounds ! nat sched_policy in ((pb_max b - pb_min b) div 2, errno)
      else (-1, EINVAL))"

definition iprio_get_default :: "int \<Rightarrow> int \<Rightarrow> int \<times> int" where
  "iprio_get_default sched_policy errno =
     (let (x, e1) = xprio_get_default sched_policy errno in xprio_to_iprio sched_policy x e1)"

lemmas prio_defs = user_policy_def xprio_get_min_def xprio_get_max_def iprio_to_xprio_def
  xprio_to_iprio_def prio_validate_def xprio_get_default_def iprio_get_default_def
  priority_bounds_def

lemma prio_validate_iff:
  "user_policy p \<Longrightarrow> fst (prio_validate p x e) = 0 \<longleftrightarrow>
     pb_min (priority_bounds ! nat p) \<le> x \<and> x \<le> pb_max (priority_bounds ! nat p)"
  by (auto simp: prio_validate_def xprio_get_min_def xprio_get_max_def)

text \<open>
  A user priority that \<open>prio_validate\<close> accepts is mapped into
  \<open>IPRIO_MIN .. IPRIO_MAX\<close>, both ends included.
\<close>

lemma iprio_range:
  assumes "user_policy p" and "fst (prio_validate p x e) = 0"
  shows "IPRIO_MIN \<le> fst (xprio_to_iprio p x e)" "fst (xprio_to_iprio p x e) \<le> IPRIO_MAX"
  using assms prio_validate_iff [OF assms(1), of x e]
  by (auto simp: user_policy_def xprio_to_iprio_def priority_bounds_def const_defs)

text \<open>The default priorities are accepted by the validation of their policy.\<close>

lemma xprio_default_valid:
  "user_policy p \<Longrightarrow> fst (prio_validate p (fst (xprio_get_default p e)) e') = 0"
  by (auto simp: prio_defs const_defs)

subsection \<open>Properties\<close>

text \<open>
  For a user policy the two conversions between external and internal priorities are
  inverse to each other, and a valid external priority has an internal priority between
  \<open>IPRIO_MIN\<close> and \<open>IPRIO_MAX\<close>.
\<close>

theorem priority_roundtrip:
  assumes "user_policy p" and "fst (prio_validate p x e) = 0"
  shows "iprio_to_xprio p (fst (xprio_to_iprio p x e)) e = (x, e)
     \<and> IPRIO_MIN \<le> fst (xprio_to_iprio p x e) \<and> fst (xprio_to_iprio p x e) \<le> IPRIO_MAX"
  using iprio_range [OF assms] assms(1)
  by (auto simp: user_policy_def xprio_to_iprio_def iprio_to_xprio_def)

theorem priority_roundtrip_witness:
  "user_policy SCHED_RR \<and> iprio_to_xprio SCHED_RR (fst (xprio_to_iprio SCHED_RR 10 0)) 0 = (10, 0)"
  using priority_roundtrip [of SCHED_RR 10 0] by (simp add: prio_defs const_defs)

text \<open>
  \<open>SCHED_INTERNAL\<close> is documented as the policy with which internal priorities are
  validated, but \<open>prio_validate\<close> rejects every internal priority with it.
\<close>

theorem internal_policy_rejected:
  assumes "IPRIO_MIN \<le> x"
  shows "prio_validate SCHED_INTERNAL x e = (-1, EINVAL)"
  using assms by (simp add: prio_defs const_defs)

theorem internal_policy_rejected_witness: "prio_validate SCHED_INTERNAL 70 0 = (-1, EINVAL)"
  using internal_policy_rejected [of 70 0] by (simp add: const_defs)

end
