(* ===== verification/Interfaces.thy ===== *)
theory Interfaces
  imports Prelude
begin

text \<open>
  The interfaces between the containers of the library and their clients.

  \<^item> \<open>container\<close>: a container whose operations implement abstract ones.  The laws
    are per operation; the consequence for every sequence of operations is proved once here.
  \<^item> \<open>walkable\<close>: a container with a first and a next operation, iterated by the client
    with \<open>for (n = first (c); n != NULL; n = next (c, n))\<close>.  The loop is shown to end and
    to visit every entry once, in the order of the container.

  The priority queues, the plain queues, the rings and the thread queues interpret them.
\<close>

subsection \<open>Running a sequence of operations\<close>

fun run_ops :: "('op \<Rightarrow> 'c \<Rightarrow> 'c option) \<Rightarrow> 'op list \<Rightarrow> 'c \<Rightarrow> 'c option" where
  "run_ops step [] c = Some c"
| "run_ops step (op # ops) c = do { c' \<leftarrow> step op c; run_ops step ops c' }"

fun run_spec :: "('op \<Rightarrow> 'a \<Rightarrow> 'a) \<Rightarrow> 'op list \<Rightarrow> 'a \<Rightarrow> 'a" where
  "run_spec spec [] a = a"
| "run_spec spec (op # ops) a = run_spec spec ops (spec op a)"

text \<open>Every operation of the sequence is allowed in the abstract state it is executed in.\<close>

fun ops_ok :: "('op \<Rightarrow> 'a \<Rightarrow> bool) \<Rightarrow> ('op \<Rightarrow> 'a \<Rightarrow> 'a) \<Rightarrow> 'op list \<Rightarrow> 'a \<Rightarrow> bool" where
  "ops_ok ok spec [] a \<longleftrightarrow> True"
| "ops_ok ok spec (op # ops) a \<longleftrightarrow> ok op a \<and> ops_ok ok spec ops (spec op a)"

locale container =
  fixes R :: "'c \<Rightarrow> 'a \<Rightarrow> bool"
    and step :: "'op \<Rightarrow> 'c \<Rightarrow> 'c option"
    and spec :: "'op \<Rightarrow> 'a \<Rightarrow> 'a"
    and ok :: "'op \<Rightarrow> 'a \<Rightarrow> bool"
  assumes implements: "R c a \<Longrightarrow> ok op a \<Longrightarrow> \<exists>c'. step op c = Some c' \<and> R c' (spec op a)"
begin

lemma run_implements:
  "R c a \<Longrightarrow> ops_ok ok spec ops a \<Longrightarrow>
     \<exists>c'. run_ops step ops c = Some c' \<and> R c' (run_spec spec ops a)"
proof (induction ops arbitrary: c a)
  case (Cons op ops)
  from Cons.prems implements [of c a op] obtain c' where
    "step op c = Some c'" "R c' (spec op a)" by auto
  with Cons show ?case by auto
qed simp

end

subsection \<open>Iteration\<close>

text \<open>
  The loop over a container, with the entries it visits as the result.  \<open>None\<close>: the loop
  has not ended after \<open>fuel\<close> entries.
\<close>

fun walk :: "nat \<Rightarrow> ('n \<Rightarrow> 'n option) \<Rightarrow> 'n option \<Rightarrow> 'n list option" where
  "walk fuel next_of None = Some []"
| "walk 0 next_of (Some n) = None"
| "walk (Suc fuel) next_of (Some n) = map_option ((#) n) (walk fuel next_of (next_of n))"

definition head_opt :: "'n list \<Rightarrow> 'n option" where
  "head_opt xs = (case xs of [] \<Rightarrow> None | x # _ \<Rightarrow> Some x)"

lemma head_opt_simps [simp]: "head_opt [] = None" "head_opt (x # xs) = Some x"
  by (simp_all add: head_opt_def)

lemma head_opt_None [simp]: "head_opt xs = None \<longleftrightarrow> xs = []"
  by (cases xs) auto

locale walkable =
  fixes holds :: "'c \<Rightarrow> 'n list \<Rightarrow> bool"
    and first_of :: "'c \<Rightarrow> 'n option"
    and next_of :: "'c \<Rightarrow> 'n \<Rightarrow> 'n option"
  assumes first_holds: "holds c xs \<Longrightarrow> first_of c = head_opt xs"
    and next_holds: "holds c (xs @ n # ys) \<Longrightarrow> next_of c n = head_opt ys"
begin

lemma walk_suffix:
  "holds c (xs @ ys) \<Longrightarrow> length ys \<le> fuel \<Longrightarrow> walk fuel (next_of c) (head_opt ys) = Some ys"
proof (induction ys arbitrary: xs fuel)
  case (Cons y ys)
  then obtain f where f: "fuel = Suc f" "length ys \<le> f" by (cases fuel) auto
  have "holds c ((xs @ [y]) @ ys)" using Cons.prems(1) by simp
  from Cons.IH [OF this f(2)] next_holds [OF Cons.prems(1)] f(1) show ?case by simp
qed simp

lemma walk_visits_all:
  "holds c xs \<Longrightarrow> length xs \<le> fuel \<Longrightarrow> walk fuel (next_of c) (first_of c) = Some xs"
  using walk_suffix [of c "[]" xs fuel] by (simp add: first_holds)

end

end
