(* ===== verification/Pqueue.thy ===== *)
theory Pqueue
  imports ListNode Bitmap Priorities Interfaces
begin

text \<open>
  pqueue.h: the O(1) priority queues of the scheduler (one list per priority and a bitmap of
  the non-empty ones).

  An operation returns \<open>None\<close> where the C code indexes \<open>queue[PRIO_TOTAL]\<close> out of
  range, and, for the locking variants, where \<open>spin_lock\<close> does not return because the
  lock is held.  The functions with the suffix \<open>_nolock\<close> are the ones whose C name starts
  with two underscores.

  \<open>pq_rep w q A\<close>: in the world \<open>w\<close> the priority queue \<open>q\<close> holds, at each priority
  \<open>i\<close>, the list of nodes \<open>A i\<close>.  \<open>pqs_rep\<close> says so of several queues at once.
  Every operation is shown to act on \<open>A\<close> as the list operation it stands for.
\<close>

definition PRIO_TOTAL :: nat where "PRIO_TOTAL = nat IPRIO_MAX"

lemma PRIO_TOTAL_eq [simp]: "PRIO_TOTAL = 140"
  by (simp add: PRIO_TOTAL_def const_defs)

text \<open>The address \<open>&pqueue->queue[prio]\<close>.\<close>

definition pqueue_queue :: "nat \<Rightarrow> int \<Rightarrow> lptr option" where
  "pqueue_queue q prio =
     (if 0 \<le> prio \<and> prio < int PRIO_TOTAL then Some (PqHead q (nat prio)) else None)"

definition spin_lock_pq :: "nat \<Rightarrow> qworld \<Rightarrow> qworld option" where
  "spin_lock_pq q w =
     (if pq_lock (pqueues w q) = 0 then Some (upd_pqueue q (\<lambda>p. p\<lparr>pq_lock := 1\<rparr>) w) else None)"

definition spin_unlock_pq :: "nat \<Rightarrow> qworld \<Rightarrow> qworld" where
  "spin_unlock_pq q w = upd_pqueue q (\<lambda>p. p\<lparr>pq_lock := 0\<rparr>) w"

subsection \<open>The internal list operations\<close>

definition pqueue_insert :: "nat \<Rightarrow> nat \<Rightarrow> qworld \<Rightarrow> qworld option" where
  "pqueue_insert node q w =
     do { hd \<leftarrow> pqueue_queue q (priority (nodes w node));
          Some (node_pqueue_set node (Some q)
                 (upd_lnodes (list_insert (NodeLn node) hd) w)) }"

definition pqueue_insert_second :: "nat \<Rightarrow> nat \<Rightarrow> qworld \<Rightarrow> qworld option" where
  "pqueue_insert_second node q w =
     do { hd \<leftarrow> pqueue_queue q (priority (nodes w node));
          Some (node_pqueue_set node (Some q)
                 (upd_lnodes (list_insert (NodeLn node) (lnext (lnodes w hd))) w)) }"

definition pqueue_insert_tail :: "nat \<Rightarrow> nat \<Rightarrow> qworld \<Rightarrow> qworld option" where
  "pqueue_insert_tail node q w =
     do { hd \<leftarrow> pqueue_queue q (priority (nodes w node));
          Some (node_pqueue_set node (Some q)
                 (upd_lnodes (list_insert_tail (NodeLn node) hd) w)) }"

definition pqueue_delete :: "nat \<Rightarrow> qworld \<Rightarrow> qworld" where
  "pqueue_delete node w = node_pqueue_set node None (upd_lnodes (list_del (NodeLn node)) w)"

subsection \<open>The operations\<close>

definition pqueue_init :: "nat \<Rightarrow> qworld \<Rightarrow> qworld" where
  "pqueue_init q w =
     (let w1 = upd_pqueue q (\<lambda>p. p\<lparr>pq_bitmap := bitmap_init (pq_bitmap p),
                                    pq_total := 0, pq_lock := 0\<rparr>) w
      in fold (\<lambda>cnt. upd_lnodes (lnode_init (PqHead q cnt))) [0..<PRIO_TOTAL] w1)"

text \<open>\<open>pqueue->total++\<close> and \<open>bitmap_set_bit\<close>, common to the three insertions.\<close>

definition pqueue_count_in :: "nat \<Rightarrow> nat \<Rightarrow> qworld \<Rightarrow> qworld" where
  "pqueue_count_in q node w = upd_pqueue q (\<lambda>p. p\<lparr>pq_total := pq_total p + 1,
     pq_bitmap := bitmap_set_bit (pq_bitmap p) (nat (priority (nodes w node)))\<rparr>) w"

definition pqueue_append_node_nolock :: "nat \<Rightarrow> nat \<Rightarrow> qworld \<Rightarrow> qworld option" where
  "pqueue_append_node_nolock q node w =
     (if node_lt_check node node_lt_nowhere w then Some w
      else pqueue_insert_tail node q (pqueue_count_in q node w))"

definition pqueue_append_node :: "nat \<Rightarrow> nat \<Rightarrow> qworld \<Rightarrow> qworld option" where
  "pqueue_append_node q node w =
     do { w1 \<leftarrow> spin_lock_pq q w; w2 \<leftarrow> pqueue_append_node_nolock q node w1;
          Some (spin_unlock_pq q w2) }"

definition pqueue_prepend_node_nolock :: "nat \<Rightarrow> nat \<Rightarrow> qworld \<Rightarrow> qworld option" where
  "pqueue_prepend_node_nolock q node w =
     (if node_lt_check node node_lt_nowhere w then Some w
      else pqueue_insert node q (pqueue_count_in q node w))"

definition pqueue_prepend_node :: "nat \<Rightarrow> nat \<Rightarrow> qworld \<Rightarrow> qworld option" where
  "pqueue_prepend_node q node w =
     do { w1 \<leftarrow> spin_lock_pq q w; w2 \<leftarrow> pqueue_prepend_node_nolock q node w1;
          Some (spin_unlock_pq q w2) }"

definition pqueue_prepend_second_node_nolock :: "nat \<Rightarrow> nat \<Rightarrow> qworld \<Rightarrow> qworld option" where
  "pqueue_prepend_second_node_nolock q node w =
     (if node_lt_check node node_lt_nowhere w then Some w
      else pqueue_insert_second node q (pqueue_count_in q node w))"

definition pqueue_prepend_second_node :: "nat \<Rightarrow> nat \<Rightarrow> qworld \<Rightarrow> qworld option" where
  "pqueue_prepend_second_node q node w =
     do { w1 \<leftarrow> spin_lock_pq q w; w2 \<leftarrow> pqueue_prepend_second_node_nolock q node w1;
          Some (spin_unlock_pq q w2) }"

text \<open>
  A node whose back pointer is NULL, or whose list type is not \<open>node_lt_pqueue\<close>, is left
  alone.  The union member cannot be a plain queue when the list type says priority queue:
  that case is \<open>None\<close>.
\<close>

definition pqueue_delete_node_nolock :: "nat \<Rightarrow> qworld \<Rightarrow> qworld option" where
  "pqueue_delete_node_nolock node w =
     (if node_lt_check node node_lt_pqueue w then Some w
      else case bp (nodes w node) of
        NoQ \<Rightarrow> Some w
      | InQ q \<Rightarrow> None
      | InPq q \<Rightarrow>
          (let w1 = upd_pqueue q (\<lambda>p. p\<lparr>pq_total := pq_total p - 1\<rparr>) w;
               w2 = pqueue_delete node w1
           in do { hd \<leftarrow> pqueue_queue q (priority (nodes w2 node));
                   Some (if list_empty hd (lnodes w2)
                         then upd_pqueue q (\<lambda>p. p\<lparr>pq_bitmap :=
                                bitmap_reset_bit (pq_bitmap p) (nat (priority (nodes w2 node)))\<rparr>) w2
                         else w2) }))"

definition pqueue_delete_node :: "nat \<Rightarrow> qworld \<Rightarrow> qworld option" where
  "pqueue_delete_node node w =
     (if node_lt_check node node_lt_pqueue w then Some w
      else case bp (nodes w node) of
        NoQ \<Rightarrow> Some w
      | InQ q \<Rightarrow> None
      | InPq q \<Rightarrow>
          do { w1 \<leftarrow> spin_lock_pq q w; w2 \<leftarrow> pqueue_delete_node_nolock node w1;
               Some (spin_unlock_pq q w2) })"

definition pqueue_first_node_nolock :: "nat \<Rightarrow> qworld \<Rightarrow> nat option" where
  "pqueue_first_node_nolock q w =
     (if pq_total (pqueues w q) \<noteq> 0 then
        (case bitmap_ffms_bit_set (pq_bitmap (pqueues w q)) of
           None \<Rightarrow> None
         | Some prio \<Rightarrow>
             (let lnode = lnext (lnodes w (PqHead q prio))
              in if lnode = PqHead q prio then None else node_by_lnode lnode))
      else None)"

definition pqueue_first_node :: "nat \<Rightarrow> qworld \<Rightarrow> (nat option \<times> qworld) option" where
  "pqueue_first_node q w =
     do { w1 \<leftarrow> spin_lock_pq q w;
          Some (pqueue_first_node_nolock q w1, spin_unlock_pq q w1) }"

definition pqueue_node_priority_set_nolock :: "nat \<Rightarrow> int \<Rightarrow> qworld \<Rightarrow> qworld option" where
  "pqueue_node_priority_set_nolock node new_priority w =
     (if priority (nodes w node) = new_priority then Some w
      else if bp (nodes w node) = NoQ
      then Some (upd_node node (\<lambda>s. s\<lparr>priority := new_priority\<rparr>) w)
      else if node_lt_check node node_lt_pqueue w then Some w
      else case bp (nodes w node) of
        InPq q \<Rightarrow>
          do { oh \<leftarrow> pqueue_queue q (priority (nodes w node));
               nh \<leftarrow> pqueue_queue q new_priority;
               let w1 = upd_lnodes (list_del (NodeLn node)) w;
               let w2 = (if list_empty oh (lnodes w1)
                         then upd_pqueue q (\<lambda>p. p\<lparr>pq_bitmap :=
                                bitmap_reset_bit (pq_bitmap p) (nat (priority (nodes w node)))\<rparr>) w1
                         else w1);
               let w3 = upd_lnodes (if priority (nodes w node) < new_priority
                                    then list_insert_tail (NodeLn node) nh
                                    else list_insert (NodeLn node) nh) w2;
               let w4 = upd_pqueue q (\<lambda>p. p\<lparr>pq_bitmap :=
                                bitmap_set_bit (pq_bitmap p) (nat new_priority)\<rparr>) w3;
               Some (upd_node node (\<lambda>s. s\<lparr>priority := new_priority\<rparr>) w4) }
      | _ \<Rightarrow> None)"

definition pqueue_node_priority_get_nolock :: "nat \<Rightarrow> qworld \<Rightarrow> int" where
  "pqueue_node_priority_get_nolock node w = priority (nodes w node)"

definition pqueue_total_nolock :: "nat \<Rightarrow> qworld \<Rightarrow> u32" where
  "pqueue_total_nolock q w = pq_total (pqueues w q)"

definition pqueue_total :: "nat \<Rightarrow> qworld \<Rightarrow> u32" where
  "pqueue_total q w = pqueue_total_nolock q w"

definition pqueue_contains_nolock :: "nat \<Rightarrow> nat \<Rightarrow> qworld \<Rightarrow> bool" where
  "pqueue_contains_nolock q node w \<longleftrightarrow>
     \<not> node_lt_check node node_lt_pqueue w \<and> bp (nodes w node) = InPq q"

definition pqueue_contains :: "nat \<Rightarrow> nat \<Rightarrow> qworld \<Rightarrow> (bool \<times> qworld) option" where
  "pqueue_contains q node w =
     (if node_lt_check node node_lt_pqueue w then Some (False, w)
      else do { w1 \<leftarrow> spin_lock_pq q w;
                Some (bp (nodes w1 node) = InPq q, spin_unlock_pq q w1) })"

definition pqueue_favor_nolock :: "nat \<Rightarrow> qworld \<Rightarrow> qworld option" where
  "pqueue_favor_nolock node w =
     (case bp (nodes w node) of
        NoQ \<Rightarrow> Some w
      | InQ q \<Rightarrow> (if node_lt_check node node_lt_pqueue w then Some w else None)
      | InPq q \<Rightarrow>
          if node_lt_check node node_lt_pqueue w then Some w
          else do { head \<leftarrow> pqueue_queue q (priority (nodes w node));
                    let h = lnodes w;
                    Some (if list_empty head h then w
                          else if lnext (h head) = NodeLn node then w
                          else if lnext (h (lnext (h head))) = NodeLn node then w
                          else upd_lnodes (\<lambda>h. let h1 = list_del (NodeLn node) h
                                 in list_insert (NodeLn node) (lnext (h1 head)) h1) w) })"

definition pqueue_favor :: "nat \<Rightarrow> qworld \<Rightarrow> qworld option" where
  "pqueue_favor node w =
     (case bp (nodes w node) of
        NoQ \<Rightarrow> Some w
      | InQ q \<Rightarrow> None
      | InPq q \<Rightarrow> do { w1 \<leftarrow> spin_lock_pq q w; w2 \<leftarrow> pqueue_favor_nolock node w1;
                       Some (spin_unlock_pq q w2) })"

definition pqueue_get_next_node_nolock :: "nat \<Rightarrow> qworld \<Rightarrow> nat option" where
  "pqueue_get_next_node_nolock node w =
     (case bp (nodes w node) of
        InPq q \<Rightarrow>
          (if node_lt_check node node_lt_pqueue w then None
           else let prio = nat (priority (nodes w node)); h = lnodes w
                in if lnext (h (NodeLn node)) \<noteq> PqHead q prio
                   then node_by_lnode (lnext (h (NodeLn node)))
                   else if priority (nodes w node) > 0
                   then (case find (\<lambda>c. \<not> list_empty (PqHead q c) h) (rev [0..<prio]) of
                           None \<Rightarrow> None
                         | Some c \<Rightarrow> node_by_lnode (lnext (h (PqHead q c))))
                   else None)
      | _ \<Rightarrow> None)"

lemmas pqueue_op_defs =
  pqueue_insert_def pqueue_insert_second_def pqueue_insert_tail_def pqueue_delete_def
  pqueue_count_in_def pqueue_append_node_nolock_def pqueue_prepend_node_nolock_def
  pqueue_prepend_second_node_nolock_def pqueue_delete_node_nolock_def
  pqueue_node_priority_set_nolock_def pqueue_favor_nolock_def

subsection \<open>What a priority queue holds\<close>

definition pq_rep :: "qworld \<Rightarrow> nat \<Rightarrow> (nat \<Rightarrow> nat list) \<Rightarrow> bool" where
  "pq_rep w q A \<longleftrightarrow>
     (\<forall>i<140. lring (lnodes w) (PqHead q i # map NodeLn (A i)))
   \<and> (\<forall>i<140. \<forall>n\<in>set (A i). bp (nodes w n) = InPq q \<and> priority (nodes w n) = int i
        \<and> node_lt (nodes w n) = node_lt_pqueue)
   \<and> counts (pq_total (pqueues w q)) (\<Sum>i<140. length (A i))
   \<and> length (pq_bitmap (pqueues w q)) = 6
   \<and> (\<forall>i<160. bitmap_test (pq_bitmap (pqueues w q)) i \<longleftrightarrow> i < 140 \<and> A i \<noteq> [])"

definition pqs_rep :: "qworld \<Rightarrow> nat set \<Rightarrow> (nat \<Rightarrow> nat \<Rightarrow> nat list) \<Rightarrow> bool" where
  "pqs_rep w S Q \<longleftrightarrow> (\<forall>q\<in>S. pq_rep w q (Q q))"

text \<open>The nodes of a queue in the order of the scheduler: highest priority first.\<close>

definition pq_order :: "(nat \<Rightarrow> nat list) \<Rightarrow> nat list" where
  "pq_order A = concat (map A (rev [0..<140]))"

lemma pq_rep_ring: "pq_rep w q A \<Longrightarrow> i < 140 \<Longrightarrow> lring (lnodes w) (PqHead q i # map NodeLn (A i))"
  by (simp add: pq_rep_def)

lemma pq_rep_node:
  "pq_rep w q A \<Longrightarrow> i < 140 \<Longrightarrow> n \<in> set (A i) \<Longrightarrow>
     bp (nodes w n) = InPq q \<and> priority (nodes w n) = int i \<and> node_lt (nodes w n) = node_lt_pqueue"
  by (simp add: pq_rep_def)

lemma pq_rep_nowhere:
  "pq_rep w q A \<Longrightarrow> node_lt (nodes w n) \<noteq> node_lt_pqueue \<Longrightarrow> i < 140 \<Longrightarrow> n \<notin> set (A i)"
  by (auto simp: pq_rep_def)

lemma pq_rep_total: "pq_rep w q A \<Longrightarrow> counts (pq_total (pqueues w q)) (\<Sum>i<140. length (A i))"
  by (simp add: pq_rep_def)

lemma pq_rep_total_zero: "pq_rep w q A \<Longrightarrow> pq_total (pqueues w q) = 0 \<longleftrightarrow> (\<forall>i<140. A i = [])"
  using counts_zero_iff [OF pq_rep_total] by (auto simp: lessThan_iff)

lemma length_pq_order: "length (pq_order A) = (\<Sum>i<140. length (A i))"
  by (simp add: pq_order_def length_concat rev_map comp_def sum_list_rev
      interv_sum_list_conv_sum_set_nat atLeast0LessThan flip: rev_map)

lemma set_pq_order: "set (pq_order A) = (\<Union>i<140. set (A i))"
  by (auto simp: pq_order_def)

lemma pq_rep_order_node:
  assumes "pq_rep w q A" and "n \<in> set (pq_order A)"
  obtains i where "i < 140" "n \<in> set (A i)" "priority (nodes w n) = int i"
    "bp (nodes w n) = InPq q" "node_lt (nodes w n) = node_lt_pqueue"
  using assms pq_rep_node [OF assms(1)] by (auto simp: set_pq_order)

lemma pq_order_distinct:
  assumes "pq_rep w q A"
  shows "distinct (pq_order A)"
proof -
  have d: "distinct (A i)" if "i < 140" for i
    using lring_distinct [OF pq_rep_ring [OF assms that]] by (auto simp: distinct_map)
  have x: "set (A i) \<inter> set (A j) = {}" if "i < 140" "j < 140" "i \<noteq> j" for i j
    using pq_rep_node [OF assms that(1)] pq_rep_node [OF assms that(2)] that(3) by fastforce
  have "distinct (concat (map A (rev [0..<k])))" if "k \<le> 140" for k
    using that
  proof (induction k)
    case (Suc k)
    then have "k < 140" "distinct (concat (map A (rev [0..<k])))" by auto
    moreover have "set (A k) \<inter> set (A i) = {}" if "i < k" for i
      using x [of k i] \<open>k < 140\<close> that by simp
    then have "set (A k) \<inter> (\<Union>i<k. set (A i)) = {}" by auto
    ultimately show ?case using d by (auto simp: atLeast0LessThan)
  qed simp
  then show ?thesis by (simp add: pq_order_def)
qed

subsection \<open>Insertion\<close>

text \<open>
  The common part of the three insertions: the list of one priority has become \<open>xs\<close>,
  the other rings are as before, and the counters have been updated.
\<close>

lemma pq_rep_inserted:
  assumes rep: "pq_rep w q A" and i: "i < 140"
    and new: "n \<notin> set (A i)" and pr: "priority (nodes w n) = int i"
    and nw: "node_lt (nodes w n) = node_lt_nowhere"
    and ring: "lring (f (lnodes w)) (PqHead q i # map NodeLn xs)"
    and other: "\<And>j. j < 140 \<Longrightarrow> j \<noteq> i \<Longrightarrow> lring (f (lnodes w)) (PqHead q j # map NodeLn (A j))"
    and len: "length xs = Suc (length (A i))" and st: "set xs = insert n (set (A i))"
    and fits: "Suc (\<Sum>i<140. length (A i)) < 2 ^ 32"
  shows "pq_rep (node_pqueue_set n (Some q) (upd_lnodes f (pqueue_count_in q n w))) q (A(i := xs))"
proof -
  have s: "(\<Sum>k<140. length ((A(i := xs)) k)) = Suc (\<Sum>k<140. length (A k))"
  proof -
    have "(\<Sum>k<140. length ((A(i := xs)) k)) = (\<Sum>k<140. ((\<lambda>k. length (A k))(i := length xs)) k)"
      by (rule sum.cong) auto
    with sum_list_upd_fun [OF i, of "\<lambda>k. length (A k)" "length xs"] len show ?thesis by simp
  qed
  have n: "n \<notin> set (A j)" if "j < 140" for j
    using pq_rep_nowhere [OF rep _ that] nw by simp
  have xs: "xs \<noteq> []" using len by auto
  have bm: "i div 32 < length (pq_bitmap (pqueues w q))" using rep i by (simp add: pq_rep_def)
  show ?thesis
    unfolding pq_rep_def
  proof (intro conjI allI impI ballI)
    fix j :: nat assume "j < 140"
    then show "lring (lnodes (node_pqueue_set n (Some q) (upd_lnodes f (pqueue_count_in q n w))))
        (PqHead q j # map NodeLn ((A(i := xs)) j))"
      using ring other by (simp add: node_pqueue_set_def pqueue_count_in_def)
  next
    fix j :: nat and m assume "j < 140" "m \<in> set ((A(i := xs)) j)"
    then have m: "m = n \<and> j = i \<or> m \<noteq> n \<and> m \<in> set (A j)"
      using st n by (auto split: if_splits)
    let ?w = "node_pqueue_set n (Some q) (upd_lnodes f (pqueue_count_in q n w))"
    from m \<open>j < 140\<close> pq_rep_node [OF rep \<open>j < 140\<close>, of m] pr
    show "bp (nodes ?w m) = InPq q" "priority (nodes ?w m) = int j"
      "node_lt (nodes ?w m) = node_lt_pqueue"
      by (auto simp: node_pqueue_set_def pqueue_count_in_def)
  next
    show "counts (pq_total (pqueues (node_pqueue_set n (Some q)
        (upd_lnodes f (pqueue_count_in q n w))) q)) (\<Sum>k<140. length ((A(i := xs)) k))"
      unfolding s using counts_Suc [OF pq_rep_total [OF rep] fits]
      by (simp add: node_pqueue_set_def pqueue_count_in_def)
  next
    show "length (pq_bitmap (pqueues (node_pqueue_set n (Some q)
        (upd_lnodes f (pqueue_count_in q n w))) q)) = 6"
      using rep by (simp add: pq_rep_def node_pqueue_set_def pqueue_count_in_def)
  next
    fix j :: nat assume "j < 160"
    with bm rep have "bitmap_test (bitmap_set_bit (pq_bitmap (pqueues w q)) i) j
        \<longleftrightarrow> j = i \<or> bitmap_test (pq_bitmap (pqueues w q)) j"
      by (intro bitmap_test_set_bit) (auto simp: pq_rep_def)
    then show "bitmap_test (pq_bitmap (pqueues (node_pqueue_set n (Some q)
        (upd_lnodes f (pqueue_count_in q n w))) q)) j \<longleftrightarrow> j < 140 \<and> (A(i := xs)) j \<noteq> []"
      using rep \<open>j < 160\<close> i xs pr by (auto simp: pq_rep_def node_pqueue_set_def pqueue_count_in_def)
  qed
qed

text \<open>A node that is in no queue is in no ring; the rings of a queue are disjoint.\<close>

lemma pq_rep_rings_disjoint:
  assumes "pq_rep w q A" "i < 140" "j < 140" "i \<noteq> j"
  shows "set (PqHead q i # map NodeLn (A i)) \<inter> set (PqHead q j # map NodeLn (A j)) = {}"
  using pq_rep_node [OF assms(1,2)] pq_rep_node [OF assms(1,3)] assms(4) by fastforce

lemma pq_rep_queues_disjoint:
  assumes "pq_rep w q A" "pq_rep w r B" "i < 140" "j < 140" "q \<noteq> r"
  shows "set (PqHead q i # map NodeLn (A i)) \<inter> set (PqHead r j # map NodeLn (B j)) = {}"
  using pq_rep_node [OF assms(1,3)] pq_rep_node [OF assms(2,4)] assms(5) by fastforce

text \<open>The three insertions on one ring.\<close>

definition insert_second :: "'a \<Rightarrow> 'a list \<Rightarrow> 'a list" where
  "insert_second n xs = (case xs of [] \<Rightarrow> [n] | x # ys \<Rightarrow> x # n # ys)"

lemma lring_insert_second:
  assumes r: "lring h (a # map f xs)" and e: "f n \<notin> set (a # map f xs)"
  shows "lring (list_insert (f n) (lnext (h a)) h) (a # map f (insert_second n xs))"
proof (cases xs)
  case Nil
  with lring_next [OF r] list_insert_ring [OF r e] show ?thesis by (simp add: insert_second_def)
next
  case (Cons x ys)
  with r have "lring h ((f x # map f ys) @ [a])" using lring_rotate [of h "[a]"] by simp
  then have "lring h (f x # map f ys @ [a])" by simp
  from list_insert_ring [OF this, of "f n"] e Cons
  have "lring (list_insert (f n) (f x) h) ((f x # f n # map f ys) @ [a])" by auto
  then have "lring (list_insert (f n) (f x) h) (a # f x # f n # map f ys)"
    using lring_rotate [of _ "[a]"] by simp
  with Cons lring_next [OF r] show ?thesis by (simp add: insert_second_def)
qed

lemma list_insert_second_other:
  assumes "lring h (a # xs)" and "lring h zs" and "set zs \<inter> set (e # a # xs) = {}"
  shows "lring (list_insert e (lnext (h a)) h) zs"
proof (cases xs)
  case Nil
  with lring_next [OF assms(1)] list_insert_other [OF assms] show ?thesis by simp
next
  case (Cons x ys)
  with assms(1) have "lring h (x # ys @ [a])" using lring_rotate [of h "[a]" "x # ys"] by simp
  from list_insert_other [OF this assms(2), of e] assms(3) Cons
  have "lring (list_insert e x h) zs" by auto
  with Cons lring_next [OF assms(1)] show ?thesis by simp
qed

lemma insert_second_facts [simp]:
  "length (insert_second n xs) = Suc (length xs)"
  "set (insert_second n xs) = insert n (set xs)"
  by (auto simp: insert_second_def split: list.splits)

text \<open>The same for every queue of \<open>S\<close>: the other queues keep what they hold.\<close>

lemma pq_rep_other:
  assumes rep: "pq_rep w r B"
    and rings: "\<And>j. j < 140 \<Longrightarrow> lring (lnodes w') (PqHead r j # map NodeLn (B j))"
    and nodes: "\<And>m j. j < 140 \<Longrightarrow> m \<in> set (B j) \<Longrightarrow> nodes w' m = nodes w m"
    and pqs: "pqueues w' r = pqueues w r"
  shows "pq_rep w' r B"
  using assms by (auto simp: pq_rep_def)

lemma pqs_rep_inserted:
  assumes rep: "pqs_rep w S Q" and q: "q \<in> S" and i: "i < 140"
    and pr: "priority (nodes w n) = int i" and nw: "node_lt (nodes w n) = node_lt_nowhere"
    and ring: "lring (f (lnodes w)) (PqHead q i # map NodeLn xs)"
    and frame: "\<And>zs. lring (lnodes w) zs \<Longrightarrow>
       set zs \<inter> set (NodeLn n # PqHead q i # map NodeLn (Q q i)) = {} \<Longrightarrow> lring (f (lnodes w)) zs"
    and len: "length xs = Suc (length (Q q i))" and st: "set xs = insert n (set (Q q i))"
    and fits: "Suc (\<Sum>i<140. length (Q q i)) < 2 ^ 32"
  shows "pqs_rep (node_pqueue_set n (Some q) (upd_lnodes f (pqueue_count_in q n w))) S
           (Q(q := (Q q)(i := xs)))"
  unfolding pqs_rep_def
proof
  fix r assume r: "r \<in> S"
  let ?w = "node_pqueue_set n (Some q) (upd_lnodes f (pqueue_count_in q n w))"
  have repq: "pq_rep w q (Q q)" and repr: "pq_rep w r (Q r)"
    using rep q r by (auto simp: pqs_rep_def)
  have n: "n \<notin> set (Q s j)" if "s \<in> S" "j < 140" for s j
    using pq_rep_nowhere [of w s "Q s" n j] rep that nw by (auto simp: pqs_rep_def)
  show "pq_rep ?w r ((Q(q := (Q q)(i := xs))) r)"
  proof (cases "r = q")
    case True
    have "lring (f (lnodes w)) (PqHead q j # map NodeLn (Q q j))" if "j < 140" "j \<noteq> i" for j
      using pq_rep_rings_disjoint [OF repq i that(1)] that n [OF q that(1)]
      by (intro frame pq_rep_ring [OF repq that(1)]) auto
    from pq_rep_inserted [where f = f, OF repq i n [OF q i] pr nw ring this len st fits] True
    show ?thesis by simp
  next
    case False
    have "pq_rep ?w r (Q r)"
    proof (rule pq_rep_other [OF repr])
      fix j :: nat assume "j < 140"
      then have "lring (f (lnodes w)) (PqHead r j # map NodeLn (Q r j))"
        using pq_rep_queues_disjoint [OF repq repr i _ False [symmetric], of j] n [OF r]
        by (intro frame pq_rep_ring [OF repr]) auto
      then show "lring (lnodes ?w) (PqHead r j # map NodeLn (Q r j))"
        by (simp add: node_pqueue_set_def pqueue_count_in_def)
    next
      fix m j assume "j < (140 :: nat)" "m \<in> set (Q r j)"
      then show "nodes ?w m = nodes w m"
        using n [OF r] by (auto simp: node_pqueue_set_def pqueue_count_in_def)
    qed (use False in \<open>simp add: node_pqueue_set_def pqueue_count_in_def\<close>)
    with False show ?thesis by simp
  qed
qed

text \<open>A node that may enter the queue \<open>q\<close> at priority \<open>i\<close>.\<close>

definition can_enter :: "qworld \<Rightarrow> (nat \<Rightarrow> nat \<Rightarrow> nat list) \<Rightarrow> nat \<Rightarrow> nat \<Rightarrow> nat \<Rightarrow> bool" where
  "can_enter w Q q n i \<longleftrightarrow> i < 140 \<and> priority (nodes w n) = int i
     \<and> node_lt (nodes w n) = node_lt_nowhere \<and> Suc (\<Sum>k<140. length (Q q k)) < 2 ^ 32"

text \<open>What an insertion of \<open>n\<close> leaves alone.\<close>

definition same_nodes :: "nat \<Rightarrow> qworld \<Rightarrow> qworld \<Rightarrow> bool" where
  "same_nodes n w w' \<longleftrightarrow> (\<forall>m. m \<noteq> n \<longrightarrow> nodes w' m = nodes w m)
     \<and> priority (nodes w' n) = priority (nodes w n)
     \<and> (\<forall>q. pq_lock (pqueues w' q) = pq_lock (pqueues w q)) \<and> queues w' = queues w"

lemma head_of_priority: "i < 140 \<Longrightarrow> pqueue_queue q (int i) = Some (PqHead q i)"
  by (simp add: pqueue_queue_def)

lemma pqueue_append_node_rep:
  assumes rep: "pqs_rep w S Q" and q: "q \<in> S" and e: "can_enter w Q q n i"
  shows "\<exists>w'. pqueue_append_node_nolock q n w = Some w'
     \<and> pqs_rep w' S (Q(q := (Q q)(i := Q q i @ [n]))) \<and> same_nodes n w w'"
proof -
  let ?f = "list_insert_tail (NodeLn n) (PqHead q i)"
  let ?w = "node_pqueue_set n (Some q) (upd_lnodes ?f (pqueue_count_in q n w))"
  have r: "lring (lnodes w) (PqHead q i # map NodeLn (Q q i))"
    and nin: "NodeLn n \<notin> set (PqHead q i # map NodeLn (Q q i))"
    using rep q e pq_rep_nowhere [of w q "Q q" n i]
    by (auto simp: pqs_rep_def can_enter_def intro: pq_rep_ring)
  have "pqs_rep ?w S (Q(q := (Q q)(i := Q q i @ [n])))"
    by (rule pqs_rep_inserted [OF rep q])
      (use e list_insert_tail_ring [OF r nin] list_insert_tail_other [OF r]
        in \<open>auto simp: can_enter_def\<close>)
  moreover have "pqueue_append_node_nolock q n w = Some ?w"
    using e by (simp add: can_enter_def pqueue_append_node_nolock_def node_lt_check_def
        pqueue_insert_tail_def pqueue_count_in_def head_of_priority)
  moreover have "same_nodes n w ?w"
    by (auto simp: same_nodes_def node_pqueue_set_def pqueue_count_in_def)
  ultimately show ?thesis by blast
qed

lemma pqueue_prepend_node_rep:
  assumes rep: "pqs_rep w S Q" and q: "q \<in> S" and e: "can_enter w Q q n i"
  shows "\<exists>w'. pqueue_prepend_node_nolock q n w = Some w'
     \<and> pqs_rep w' S (Q(q := (Q q)(i := n # Q q i))) \<and> same_nodes n w w'"
proof -
  let ?f = "list_insert (NodeLn n) (PqHead q i)"
  let ?w = "node_pqueue_set n (Some q) (upd_lnodes ?f (pqueue_count_in q n w))"
  have r: "lring (lnodes w) (PqHead q i # map NodeLn (Q q i))"
    and nin: "NodeLn n \<notin> set (PqHead q i # map NodeLn (Q q i))"
    using rep q e pq_rep_nowhere [of w q "Q q" n i]
    by (auto simp: pqs_rep_def can_enter_def intro: pq_rep_ring)
  have "pqs_rep ?w S (Q(q := (Q q)(i := n # Q q i)))"
    by (rule pqs_rep_inserted [OF rep q])
      (use e list_insert_ring [OF r nin] list_insert_other [OF r] in \<open>auto simp: can_enter_def\<close>)
  moreover have "pqueue_prepend_node_nolock q n w = Some ?w"
    using e by (simp add: can_enter_def pqueue_prepend_node_nolock_def node_lt_check_def
        pqueue_insert_def pqueue_count_in_def head_of_priority)
  moreover have "same_nodes n w ?w"
    by (auto simp: same_nodes_def node_pqueue_set_def pqueue_count_in_def)
  ultimately show ?thesis by blast
qed

lemma pqueue_prepend_second_node_rep:
  assumes rep: "pqs_rep w S Q" and q: "q \<in> S" and e: "can_enter w Q q n i"
  shows "\<exists>w'. pqueue_prepend_second_node_nolock q n w = Some w'
     \<and> pqs_rep w' S (Q(q := (Q q)(i := insert_second n (Q q i)))) \<and> same_nodes n w w'"
proof -
  let ?f = "list_insert (NodeLn n) (lnext (lnodes w (PqHead q i)))"
  let ?w = "node_pqueue_set n (Some q) (upd_lnodes ?f (pqueue_count_in q n w))"
  have r: "lring (lnodes w) (PqHead q i # map NodeLn (Q q i))"
    and nin: "NodeLn n \<notin> set (PqHead q i # map NodeLn (Q q i))"
    using rep q e pq_rep_nowhere [of w q "Q q" n i]
    by (auto simp: pqs_rep_def can_enter_def intro: pq_rep_ring)
  have "pqs_rep ?w S (Q(q := (Q q)(i := insert_second n (Q q i))))"
    by (rule pqs_rep_inserted [OF rep q])
      (use e lring_insert_second [OF r nin] list_insert_second_other [OF r]
        in \<open>auto simp: can_enter_def\<close>)
  moreover have "pqueue_prepend_second_node_nolock q n w = Some ?w"
    using e by (simp add: can_enter_def pqueue_prepend_second_node_nolock_def node_lt_check_def
        pqueue_insert_second_def pqueue_count_in_def head_of_priority)
  moreover have "same_nodes n w ?w"
    by (auto simp: same_nodes_def node_pqueue_set_def pqueue_count_in_def)
  ultimately show ?thesis by blast
qed

subsection \<open>Removal\<close>

lemma map_NodeLn_split:
  "n \<in> set xs \<Longrightarrow> \<exists>us vs. xs = us @ n # vs \<and> n \<notin> set us \<and> remove1 n xs = us @ vs"
  by (metis in_set_conv_decomp_first remove1_split)

lemma pq_rep_list_del:
  assumes "pq_rep w q A" and "i < 140" and "n \<in> set (A i)"
  shows "lring (list_del (NodeLn n) (lnodes w)) (PqHead q i # map NodeLn (remove1 n (A i)))"
    and "lring (lnodes w) zs \<Longrightarrow> set zs \<inter> set (PqHead q i # map NodeLn (A i)) = {} \<Longrightarrow>
      lring (list_del (NodeLn n) (lnodes w)) zs"
proof -
  obtain us vs where s: "A i = us @ n # vs" "remove1 n (A i) = us @ vs"
    using map_NodeLn_split [OF assms(3)] by blast
  have r: "lring (lnodes w) (PqHead q i # map NodeLn us @ NodeLn n # map NodeLn vs)"
    using pq_rep_ring [OF assms(1,2)] s(1) by simp
  show "lring (list_del (NodeLn n) (lnodes w)) (PqHead q i # map NodeLn (remove1 n (A i)))"
    using list_del_ring [OF r] s(2) by simp
  show "lring (list_del (NodeLn n) (lnodes w)) zs"
    if "lring (lnodes w) zs" "set zs \<inter> set (PqHead q i # map NodeLn (A i)) = {}"
    using list_del_other [OF r that(1)] that(2) s(1) by auto
qed

lemma pqueue_delete_node_eq:
  assumes rep: "pq_rep w q A" and i: "i < 140" and n: "n \<in> set (A i)"
  shows "pqueue_delete_node_nolock n w =
     (let w2 = pqueue_delete n (upd_pqueue q (\<lambda>p. p\<lparr>pq_total := pq_total p - 1\<rparr>) w)
      in Some (if remove1 n (A i) = []
               then upd_pqueue q (\<lambda>p. p\<lparr>pq_bitmap := bitmap_reset_bit (pq_bitmap p) i\<rparr>) w2
               else w2))"
proof -
  note f = pq_rep_node [OF rep i n]
  have "list_empty (PqHead q i) (list_del (NodeLn n) (lnodes w)) \<longleftrightarrow> remove1 n (A i) = []"
    using list_empty_ring [OF pq_rep_list_del(1) [OF rep i n]] by simp
  with f i show ?thesis
    by (simp add: pqueue_delete_node_nolock_def node_lt_check_def pqueue_delete_def
        node_pqueue_set_def head_of_priority Let_def)
qed

lemma pq_rep_removed:
  assumes rep: "pq_rep w q A" and i: "i < 140" and n: "n \<in> set (A i)"
    and w': "pqueue_delete_node_nolock n w = Some w'"
  shows "pq_rep w' q (A(i := remove1 n (A i)))"
proof -
  let ?xs = "remove1 n (A i)"
  let ?w2 = "pqueue_delete n (upd_pqueue q (\<lambda>p. p\<lparr>pq_total := pq_total p - 1\<rparr>) w)"
  have len: "length ?xs = length (A i) - 1" "0 < length (A i)"
    using n by (auto simp: length_remove1 length_pos_if_in_set)
  have s: "(\<Sum>k<140. length ((A(i := ?xs)) k)) = (\<Sum>k<140. length (A k)) - 1"
    and pos: "0 < (\<Sum>k<140. length (A k))"
  proof -
    have "(\<Sum>k<140. length ((A(i := ?xs)) k)) = (\<Sum>k<140. ((\<lambda>k. length (A k))(i := length ?xs)) k)"
      by (rule sum.cong) auto
    with sum_list_upd_fun [OF i, of "\<lambda>k. length (A k)" "length ?xs"] len
    show "(\<Sum>k<140. length ((A(i := ?xs)) k)) = (\<Sum>k<140. length (A k)) - 1" by simp
    have "length (A i) \<le> (\<Sum>k<140. length (A k))" using i by (intro member_le_sum) auto
    with len(2) show "0 < (\<Sum>k<140. length (A k))" by linarith
  qed
  have d: "distinct (A i)"
    using lring_distinct [OF pq_rep_ring [OF rep i]] by (auto simp: distinct_map)
  have mem: "m \<in> set ((A(i := ?xs)) j) \<Longrightarrow> j < 140 \<Longrightarrow> m \<in> set (A j) \<and> m \<noteq> n" for m j
    using d pq_rep_node [OF rep i n] pq_rep_node [OF rep, of j m]
    by (auto split: if_splits)
  have w'_eq: "w' = (if ?xs = [] then upd_pqueue q (\<lambda>p. p\<lparr>pq_bitmap :=
      bitmap_reset_bit (pq_bitmap p) i\<rparr>) ?w2 else ?w2)"
    using w' pqueue_delete_node_eq [OF rep i n] by (simp add: Let_def)
  have fields: "lnodes w' = list_del (NodeLn n) (lnodes w)"
    "\<And>m. m \<noteq> n \<Longrightarrow> nodes w' m = nodes w m"
    "pq_total (pqueues w' q) = pq_total (pqueues w q) - 1"
    "pq_bitmap (pqueues w' q) = (if ?xs = [] then bitmap_reset_bit (pq_bitmap (pqueues w q)) i
       else pq_bitmap (pqueues w q))"
    by (auto simp: w'_eq pqueue_delete_def node_pqueue_set_def)
  show ?thesis
    unfolding pq_rep_def
  proof (intro conjI allI impI ballI)
    fix j :: nat assume j: "j < 140"
    show "lring (lnodes w') (PqHead q j # map NodeLn ((A(i := ?xs)) j))"
      using pq_rep_list_del [OF rep i n] pq_rep_ring [OF rep j]
        pq_rep_rings_disjoint [OF rep j i] by (simp add: fields)
  next
    fix j :: nat and m assume j: "j < 140" and m: "m \<in> set ((A(i := ?xs)) j)"
    from mem [OF m j] pq_rep_node [OF rep j, of m] fields(2) [of m]
    show "bp (nodes w' m) = InPq q" "priority (nodes w' m) = int j"
      "node_lt (nodes w' m) = node_lt_pqueue" by auto
  next
    show "counts (pq_total (pqueues w' q)) (\<Sum>k<140. length ((A(i := ?xs)) k))"
      unfolding s fields by (rule counts_pred [OF pq_rep_total [OF rep] pos])
  next
    show "length (pq_bitmap (pqueues w' q)) = 6"
      using rep by (simp add: fields pq_rep_def)
  next
    fix j :: nat assume "j < 160"
    with rep i have "bitmap_test (bitmap_reset_bit (pq_bitmap (pqueues w q)) i) j
        \<longleftrightarrow> j \<noteq> i \<and> bitmap_test (pq_bitmap (pqueues w q)) j"
      by (intro bitmap_test_reset_bit) (auto simp: pq_rep_def)
    with rep \<open>j < 160\<close> n show "bitmap_test (pq_bitmap (pqueues w' q)) j
        \<longleftrightarrow> j < 140 \<and> (A(i := ?xs)) j \<noteq> []"
      by (auto simp: fields pq_rep_def)
  qed
qed

lemma pqueue_delete_node_rep:
  assumes rep: "pqs_rep w S Q" and q: "q \<in> S" and i: "i < 140" and n: "n \<in> set (Q q i)"
  shows "\<exists>w'. pqueue_delete_node_nolock n w = Some w'
     \<and> pqs_rep w' S (Q(q := (Q q)(i := remove1 n (Q q i))))
     \<and> same_nodes n w w' \<and> node_lt (nodes w' n) = node_lt_nowhere \<and> bp (nodes w' n) = NoQ"
proof -
  have repq: "pq_rep w q (Q q)" using rep q by (simp add: pqs_rep_def)
  note del = pqueue_delete_node_eq [OF repq i n]
  obtain w' where w': "pqueue_delete_node_nolock n w = Some w'"
    using del by (simp add: Let_def)
  have fields: "lnodes w' = list_del (NodeLn n) (lnodes w)" "\<And>m. m \<noteq> n \<Longrightarrow> nodes w' m = nodes w m"
    "\<And>r. r \<noteq> q \<Longrightarrow> pqueues w' r = pqueues w r"
    "same_nodes n w w' \<and> node_lt (nodes w' n) = node_lt_nowhere \<and> bp (nodes w' n) = NoQ"
    using w' del by (auto simp: Let_def pqueue_delete_def node_pqueue_set_def same_nodes_def)
  have "pq_rep w' r ((Q(q := (Q q)(i := remove1 n (Q q i)))) r)" if r: "r \<in> S" for r
  proof (cases "r = q")
    case True
    with pq_rep_removed [OF repq i n w'] show ?thesis by simp
  next
    case False
    have repr: "pq_rep w r (Q r)" using rep r by (simp add: pqs_rep_def)
    have "pq_rep w' r (Q r)"
    proof (rule pq_rep_other [OF repr])
      fix j :: nat assume j: "j < 140"
      show "lring (lnodes w') (PqHead r j # map NodeLn (Q r j))"
        using pq_rep_list_del(2) [OF repq i n pq_rep_ring [OF repr j]]
          pq_rep_queues_disjoint [OF repr repq j i False] by (simp add: fields)
    next
      fix m j assume "j < (140 :: nat)" "m \<in> set (Q r j)"
      then show "nodes w' m = nodes w m"
        using pq_rep_node [OF repr, of j m] pq_rep_node [OF repq i n] False fields(2) [of m] by force
    qed (use False fields in simp)
    with False show ?thesis by simp
  qed
  with w' fields show ?thesis by (auto simp: pqs_rep_def)
qed

subsection \<open>Selection and iteration\<close>

lemma pq_order_split:
  assumes "i < 140"
  shows "pq_order A = concat (map A (rev [Suc i..<140])) @ A i @ concat (map A (rev [0..<i]))"
proof -
  have "[0..<140] = [0..<i] @ i # [Suc i..<140]"
    using assms upt_add_eq_append [of 0 i "140 - i"] upt_rec [of i 140] by simp
  then show ?thesis by (simp add: pq_order_def)
qed

lemma node_first:
  assumes "pq_rep w q A" and "i < 140"
  shows "lnext (lnodes w (PqHead q i)) = (case A i of [] \<Rightarrow> PqHead q i | n # _ \<Rightarrow> NodeLn n)"
  using lring_next [OF pq_rep_ring [OF assms]] by (cases "A i") auto

lemma concat_map_Nil: "(\<And>x. x \<in> set xs \<Longrightarrow> f x = []) \<Longrightarrow> concat (map f xs) = []"
  by (induction xs) auto

lemma pqueue_first_node_hd:
  assumes rep: "pq_rep w q A"
  shows "pqueue_first_node_nolock q w = (case pq_order A of [] \<Rightarrow> None | n # _ \<Rightarrow> Some n)"
proof (cases "pq_total (pqueues w q) = 0")
  case True
  then have "pq_order A = []"
    using pq_rep_total_zero [OF rep] unfolding pq_order_def by (intro concat_map_Nil) auto
  with True show ?thesis by (simp add: pqueue_first_node_nolock_def)
next
  case False
  then obtain i where i: "i < 140" "A i \<noteq> []" using pq_rep_total_zero [OF rep] by auto
  let ?bm = "pq_bitmap (pqueues w q)"
  have "bitmap_test ?bm i" "i < 160" using rep i by (auto simp: pq_rep_def)
  then obtain m where m: "bitmap_ffms_bit_set ?bm = Some m" "m < 160" "bitmap_test ?bm m"
    "\<And>j. j < 160 \<Longrightarrow> bitmap_test ?bm j \<Longrightarrow> j \<le> m"
    using bitmap_ffms_highest [of i ?bm] by blast
  have m140: "m < 140" "A m \<noteq> []" using rep m(2,3) by (auto simp: pq_rep_def)
  have "A j = []" if "m < j" "j < 140" for j
    using rep that m(4) [of j] by (auto simp: pq_rep_def)
  then have "concat (map A (rev [Suc m..<140])) = []" by (intro concat_map_Nil) auto
  then have ord: "pq_order A = A m @ concat (map A (rev [0..<m]))"
    using pq_order_split [OF m140(1)] by simp
  obtain n ns where n: "A m = n # ns" using m140(2) by (cases "A m") auto
  have "lnext (lnodes w (PqHead q m)) = NodeLn n" using node_first [OF rep m140(1)] n by simp
  with m(1) False n ord show ?thesis
    by (simp add: pqueue_first_node_nolock_def node_by_lnode_def)
qed

lemma find_split_concat:
  "concat (map A (rev [0..<k])) =
     (case find (\<lambda>c. A c \<noteq> []) (rev [0..<k]) of None \<Rightarrow> [] | Some c \<Rightarrow> A c @ concat (map A (rev [0..<c])))"
  by (induction k) auto

lemma pqueue_get_next_node_order:
  assumes rep: "pq_rep w q A" and ord: "pq_order A = xs @ n # ys"
  shows "pqueue_get_next_node_nolock n w = (case ys of [] \<Rightarrow> None | m # _ \<Rightarrow> Some m)"
proof -
  have "n \<in> set (pq_order A)" using ord by simp
  then obtain i where i: "i < 140" "n \<in> set (A i)" "priority (nodes w n) = int i"
    "bp (nodes w n) = InPq q" "node_lt (nodes w n) = node_lt_pqueue"
    using pq_rep_order_node [OF rep] by blast
  obtain us vs where uv: "A i = us @ n # vs" using i(2) by (auto simp: in_set_conv_decomp)
  let ?lo = "concat (map A (rev [0..<i]))"
  have "pq_order A = (concat (map A (rev [Suc i..<140])) @ us) @ n # vs @ ?lo"
    using pq_order_split [OF i(1)] uv by simp
  with ord pq_order_distinct [OF rep] have ys: "ys = vs @ ?lo"
    by (metis distinct_split_unique)
  have r: "lring (lnodes w) ((PqHead q i # map NodeLn us) @ NodeLn n # map NodeLn vs)"
    using pq_rep_ring [OF rep i(1)] uv by simp
  have nx: "lnext (lnodes w (NodeLn n)) = (case vs of [] \<Rightarrow> PqHead q i | m # _ \<Rightarrow> NodeLn m)"
    using lring_next_at [OF r] by (cases vs) auto
  have em: "list_empty (PqHead q c) (lnodes w) \<longleftrightarrow> A c = []" if "c < 140" for c
    using list_empty_ring [OF pq_rep_ring [OF rep that]] by simp
  have fd: "find (\<lambda>c. \<not> list_empty (PqHead q c) (lnodes w)) (rev [0..<i])
      = find (\<lambda>c. A c \<noteq> []) (rev [0..<i])"
    by (rule find_cong) (use em i(1) in auto)
  show ?thesis
  proof (cases vs)
    case Nil
    have "(case find (\<lambda>c. A c \<noteq> []) (rev [0..<i]) of None \<Rightarrow> None
        | Some c \<Rightarrow> node_by_lnode (lnext (lnodes w (PqHead q c))))
      = (case ?lo of [] \<Rightarrow> None | m # _ \<Rightarrow> Some m)"
    proof (cases "find (\<lambda>c. A c \<noteq> []) (rev [0..<i])")
      case None
      then have "?lo = []" using find_split_concat [of A i] by (simp only: option.case)
      with None show ?thesis by (simp only: option.case list.case)
    next
      case (Some c)
      then have c: "c < i" "A c \<noteq> []" by (auto simp: find_rev_upt_Some)
      with i(1) node_first [OF rep, of c] obtain m ms
        where "A c = m # ms" "lnext (lnodes w (PqHead q c)) = NodeLn m"
        by (cases "A c") auto
      with Some find_split_concat [of A i] show ?thesis by (simp add: node_by_lnode_def)
    qed
    then show ?thesis
      using Nil i nx ys fd
      by (cases "i = 0") (auto simp: pqueue_get_next_node_nolock_def node_lt_check_def Let_def)
  next
    case (Cons m ms)
    with i nx ys show ?thesis
      by (simp add: pqueue_get_next_node_nolock_def node_lt_check_def node_by_lnode_def Let_def)
  qed
qed

subsection \<open>Initialisation\<close>

lemma fold_lnode_init:
  "fold (\<lambda>cnt. upd_lnodes (lnode_init (PqHead q cnt))) [0..<k] w =
     upd_lnodes (\<lambda>h. fold (\<lambda>cnt. lnode_init (PqHead q cnt)) [0..<k] h) w"
  by (induction k) (auto simp: upd_lnodes_def)

lemma fold_lnode_init_at:
  "fold (\<lambda>cnt. lnode_init (PqHead q cnt)) [0..<k] h x =
     (if \<exists>i<k. x = PqHead q i then \<lparr>lnext = x, lprev = x\<rparr> else h x)"
  by (induction k)
    (auto simp: lnode_init_def set_lnext_def set_lprev_def less_Suc_eq intro: lnode_st.equality)

lemma pqueue_init_rep:
  assumes "pq_bitmap (pqueues w q) = bitmap_zero bm"
  shows "pq_rep (pqueue_init q w) q (\<lambda>_. [])"
proof -
  have "lring (lnodes (pqueue_init q w)) [PqHead q i]" if "i < 140" for i
    using that by (simp add: pqueue_init_def fold_lnode_init fold_lnode_init_at lring_def)
  then show ?thesis
    using assms by (simp add: pq_rep_def pqueue_init_def fold_lnode_init bitmap_init_def
        bitmap_zero_def [of bm, symmetric] del: upt_Suc)
      (simp add: bitmap_zero_def const_defs)
qed

subsection \<open>Changing a priority, favouring a node\<close>

text \<open>A node leaves the list of one priority and enters the list of another one.\<close>

definition requeue :: "nat \<Rightarrow> nat \<Rightarrow> nat \<Rightarrow> (nat \<Rightarrow> nat list) \<Rightarrow> nat \<Rightarrow> nat list" where
  "requeue n i j A = (if i = j then A
     else A(i := remove1 n (A i), j := if i < j then A j @ [n] else n # A j))"

definition favor_list :: "nat \<Rightarrow> nat list \<Rightarrow> nat list" where
  "favor_list n xs = (if hd xs = n then xs else insert_second n (remove1 n xs))"

lemma pq_ring_reinsert:
  assumes rep: "pq_rep w q A" and i: "i < 140" and j: "j < 140" and ij: "i \<noteq> j"
    and n: "n \<in> set (A i)"
  defines "h \<equiv> list_del (NodeLn n) (lnodes w)"
  defines "h' \<equiv> (if i < j then list_insert_tail (NodeLn n) (PqHead q j) h
                 else list_insert (NodeLn n) (PqHead q j) h)"
  shows "k < 140 \<Longrightarrow> lring h' (PqHead q k # map NodeLn (requeue n i j A k))"
    and "lring (lnodes w) zs \<Longrightarrow> NodeLn n \<notin> set zs \<Longrightarrow>
      set zs \<inter> set (PqHead q i # map NodeLn (A i)) = {} \<Longrightarrow>
      set zs \<inter> set (PqHead q j # map NodeLn (A j)) = {} \<Longrightarrow> lring h' zs"
proof -
  note del = pq_rep_list_del [OF rep i n, folded h_def]
  have nj: "NodeLn n \<notin> set (PqHead q j # map NodeLn (A j))"
    using pq_rep_node [OF rep i n] pq_rep_node [OF rep j, of n] ij by auto
  have d: "distinct (A i)"
    using lring_distinct [OF pq_rep_ring [OF rep i]] by (auto simp: distinct_map)
  have rj: "lring h (PqHead q j # map NodeLn (A j))"
    using del(2) [OF pq_rep_ring [OF rep j]] pq_rep_rings_disjoint [OF rep j i] ij by blast
  have other: "lring h' zs" if "lring h zs" "set zs \<inter> set (NodeLn n # PqHead q j # map NodeLn (A j)) = {}" for zs
    using that list_insert_other [OF rj that] list_insert_tail_other [OF rj that]
    by (simp add: h'_def)
  show "lring h' zs" if "lring (lnodes w) zs" "NodeLn n \<notin> set zs"
      "set zs \<inter> set (PqHead q i # map NodeLn (A i)) = {}"
      "set zs \<inter> set (PqHead q j # map NodeLn (A j)) = {}"
    using other [OF del(2) [OF that(1,3)]] that(2,4) by auto
  show "lring h' (PqHead q k # map NodeLn (requeue n i j A k))" if k: "k < 140"
  proof -
    consider "k = j" | "k = i" | "k \<noteq> i" "k \<noteq> j" by blast
    then show ?thesis
    proof cases
      case 1
      with ij list_insert_ring [OF rj nj] list_insert_tail_ring [OF rj nj]
      show ?thesis by (simp add: requeue_def h'_def)
    next
      case 2
      have "set (PqHead q i # map NodeLn (remove1 n (A i)))
          \<inter> set (NodeLn n # PqHead q j # map NodeLn (A j)) = {}"
        using pq_rep_rings_disjoint [OF rep i j ij] d by (auto simp: set_remove1_eq)
      with other [OF del(1)] 2 ij show ?thesis by (simp add: requeue_def)
    next
      case 3
      have "NodeLn n \<notin> set (PqHead q k # map NodeLn (A k))"
        using pq_rep_node [OF rep i n] pq_rep_node [OF rep k, of n] 3 by auto
      moreover have "lring h (PqHead q k # map NodeLn (A k))"
        using del(2) [OF pq_rep_ring [OF rep k]] pq_rep_rings_disjoint [OF rep k i] 3 by blast
      ultimately show ?thesis
        using other [of "PqHead q k # map NodeLn (A k)"] pq_rep_rings_disjoint [OF rep k j] 3
        by (simp add: requeue_def)
    qed
  qed
qed

lemma requeue_sum:
  assumes "i < 140" and "j < 140" and "n \<in> set (A i)"
  shows "(\<Sum>k<140. length (requeue n i j A k)) = (\<Sum>k<140. length (A k))"
proof (cases "i = j")
  case False
  let ?f = "\<lambda>k. length (A k)"
  have "(\<Sum>k<140. length (requeue n i j A k)) = (\<Sum>k<140. (?f(i := ?f i - 1, j := Suc (?f j))) k)"
    using assms(3) False by (intro sum.cong) (auto simp: requeue_def length_remove1)
  moreover obtain p where "length (A i) = Suc p" using assms(3) by (cases "A i") auto
  ultimately show ?thesis
    using sum_list_upd_fun [OF assms(2), of "?f(i := ?f i - 1)" "Suc (?f j)"]
      sum_list_upd_fun [OF assms(1), of ?f "?f i - 1"] False by simp
qed (simp add: requeue_def)

lemma requeue_mem:
  assumes "distinct (A i)" and "n \<in> set (A i)" and "i \<noteq> j" and "m \<in> set (requeue n i j A k)"
  shows "m = n \<and> k = j \<or> (m \<noteq> n \<or> k \<noteq> i) \<and> m \<in> set (A k)"
  using assms by (auto simp: requeue_def split: if_splits)

lemma pq_rep_priority_set:
  assumes rep: "pq_rep w q A" and i: "i < 140" and j: "j < 140" and n: "n \<in> set (A i)"
    and w': "pqueue_node_priority_set_nolock n (int j) w = Some w'"
  shows "pq_rep w' q (requeue n i j A)"
proof (cases "i = j")
  case True
  with w' pq_rep_node [OF rep i n] rep show ?thesis
    by (simp add: pqueue_node_priority_set_nolock_def requeue_def)
next
  case False
  note f = pq_rep_node [OF rep i n]
  let ?bm = "pq_bitmap (pqueues w q)"
  let ?bm1 = "if remove1 n (A i) = [] then bitmap_reset_bit ?bm i else ?bm"
  let ?h = "list_del (NodeLn n) (lnodes w)"
  have em: "list_empty (PqHead q i) ?h \<longleftrightarrow> remove1 n (A i) = []"
    using list_empty_ring [OF pq_rep_list_del(1) [OF rep i n]] by simp
  have fields: "lnodes w' = (if i < j then list_insert_tail (NodeLn n) (PqHead q j) ?h
                 else list_insert (NodeLn n) (PqHead q j) ?h)"
    "nodes w' = (nodes w)(n := (nodes w n)\<lparr>priority := int j\<rparr>)"
    "pq_total (pqueues w' q) = pq_total (pqueues w q)"
    "pq_bitmap (pqueues w' q) = bitmap_set_bit ?bm1 j"
    using w' f i j False em
    by (auto simp: pqueue_node_priority_set_nolock_def node_lt_check_def head_of_priority Let_def)
  have d: "distinct (A i)"
    using lring_distinct [OF pq_rep_ring [OF rep i]] by (auto simp: distinct_map)
  show ?thesis
    unfolding pq_rep_def
  proof (intro conjI allI impI ballI)
    fix k :: nat assume k: "k < 140"
    show "lring (lnodes w') (PqHead q k # map NodeLn (requeue n i j A k))"
      using pq_ring_reinsert(1) [OF rep i j False n k] by (simp add: fields)
  next
    fix k :: nat and m assume k: "k < 140" and m: "m \<in> set (requeue n i j A k)"
    from requeue_mem [OF d n False m] pq_rep_node [OF rep k, of m] f
    show "bp (nodes w' m) = InPq q" "priority (nodes w' m) = int k"
      "node_lt (nodes w' m) = node_lt_pqueue" by (auto simp: fields)
  next
    show "counts (pq_total (pqueues w' q)) (\<Sum>k<140. length (requeue n i j A k))"
      using pq_rep_total [OF rep] requeue_sum [where A = A, OF i j n] by (simp add: fields)
  next
    show "length (pq_bitmap (pqueues w' q)) = 6" using rep by (simp add: fields pq_rep_def)
  next
    fix k :: nat assume k: "k < 160"
    have len: "length ?bm = 6" and bits: "bitmap_test ?bm k \<longleftrightarrow> k < 140 \<and> A k \<noteq> []"
      using rep k by (auto simp: pq_rep_def)
    have "bitmap_test (bitmap_set_bit ?bm1 j) k \<longleftrightarrow> k = j \<or> bitmap_test ?bm1 k"
      using len j k by (intro bitmap_test_set_bit) auto
    moreover have "bitmap_test (bitmap_reset_bit ?bm i) k \<longleftrightarrow> k \<noteq> i \<and> bitmap_test ?bm k"
      using len i k by (intro bitmap_test_reset_bit) auto
    ultimately show "bitmap_test (pq_bitmap (pqueues w' q)) k \<longleftrightarrow> k < 140 \<and> requeue n i j A k \<noteq> []"
      using bits n j False by (auto simp: fields requeue_def)
  qed
qed

lemma pqueue_node_priority_set_rep:
  assumes rep: "pqs_rep w S Q" and q: "q \<in> S" and i: "i < 140" and j: "j < 140"
    and n: "n \<in> set (Q q i)"
  shows "\<exists>w'. pqueue_node_priority_set_nolock n (int j) w = Some w'
     \<and> pqs_rep w' S (Q(q := requeue n i j (Q q)))
     \<and> nodes w' = (nodes w)(n := (nodes w n)\<lparr>priority := int j\<rparr>)"
proof (cases "i = j")
  case True
  moreover have "priority (nodes w n) = int i"
    using rep q i n pq_rep_node [of w q "Q q" i n] by (simp add: pqs_rep_def)
  ultimately show ?thesis using rep
    by (simp add: pqueue_node_priority_set_nolock_def requeue_def fun_upd_idem)
next
  case False
  have repq: "pq_rep w q (Q q)" using rep q by (simp add: pqs_rep_def)
  note f = pq_rep_node [OF repq i n]
  let ?h = "list_del (NodeLn n) (lnodes w)"
  obtain w' where w': "pqueue_node_priority_set_nolock n (int j) w = Some w'"
    using f i j False
    by (simp add: pqueue_node_priority_set_nolock_def node_lt_check_def head_of_priority Let_def)
  have fields: "lnodes w' = (if i < j then list_insert_tail (NodeLn n) (PqHead q j) ?h
                 else list_insert (NodeLn n) (PqHead q j) ?h)"
    "nodes w' = (nodes w)(n := (nodes w n)\<lparr>priority := int j\<rparr>)"
    "\<And>r. r \<noteq> q \<Longrightarrow> pqueues w' r = pqueues w r"
    using w' f i j False
    by (auto simp: pqueue_node_priority_set_nolock_def node_lt_check_def head_of_priority Let_def)
  have "pq_rep w' r ((Q(q := requeue n i j (Q q))) r)" if r: "r \<in> S" for r
  proof (cases "r = q")
    case True
    with pq_rep_priority_set [OF repq i j n w'] show ?thesis by simp
  next
    case rq: False
    have repr: "pq_rep w r (Q r)" using rep r by (simp add: pqs_rep_def)
    have nr: "n \<notin> set (Q r k)" if "k < 140" for k
      using pq_rep_node [OF repr that, of n] f rq by auto
    have "pq_rep w' r (Q r)"
    proof (rule pq_rep_other [OF repr])
      fix k :: nat assume k: "k < 140"
      show "lring (lnodes w') (PqHead r k # map NodeLn (Q r k))"
        using pq_ring_reinsert(2) [OF repq i j False n pq_rep_ring [OF repr k]]
          pq_rep_queues_disjoint [OF repr repq k i rq] pq_rep_queues_disjoint [OF repr repq k j rq]
          nr [OF k] by (simp add: fields image_iff)
    next
      fix m k assume "k < (140 :: nat)" "m \<in> set (Q r k)"
      then show "nodes w' m = nodes w m" using nr [of k] by (auto simp: fields)
    qed (use rq fields in simp)
    with rq show ?thesis by simp
  qed
  with w' fields show ?thesis by (auto simp: pqs_rep_def)
qed

lemma favor_list_facts:
  assumes "distinct xs" and "n \<in> set xs"
  shows "length (favor_list n xs) = length xs" "set (favor_list n xs) = set xs"
  using assms by (auto simp: favor_list_def length_remove1 split: if_splits)
    (cases xs; simp)+

lemma favor_ring:
  assumes r: "lring h (a # map f xs)" and n: "n \<in> set xs" and inj: "inj f"
  defines "h' \<equiv> (if list_empty a h then h else if lnext (h a) = f n then h
     else if lnext (h (lnext (h a))) = f n then h
     else list_insert (f n) (lnext (list_del (f n) h a)) (list_del (f n) h))"
  shows "lring h' (a # map f (favor_list n xs))"
    and "lring h zs \<Longrightarrow> set zs \<inter> set (a # map f xs) = {} \<Longrightarrow> lring h' zs"
proof -
  obtain x ys where xs: "xs = x # ys" using n by (cases xs) auto
  have d: "distinct xs" and an: "a \<notin> f ` set xs"
    using lring_distinct [OF r] by (auto simp: distinct_map)
  have ne: "\<not> list_empty a h" and nx: "lnext (h a) = f x"
    using list_empty_ring [OF r] lring_next [OF r] xs by auto
  have nnx: "lnext (h (f x)) = (case ys of [] \<Rightarrow> a | y # _ \<Rightarrow> f y)"
    using lring_next_at [of h "[a]" "f x" "map f ys"] r xs by (cases ys) auto
  have "lring h' (a # map f (favor_list n xs)) \<and>
      (lring h zs \<longrightarrow> set zs \<inter> set (a # map f xs) = {} \<longrightarrow> lring h' zs)" for zs
  proof (cases "n = x \<or> (\<exists>zs. ys = n # zs)")
    case True
    then have "h' = h" using ne nx nnx by (auto simp: h'_def)
    moreover have "favor_list n xs = xs"
      using True xs d by (auto simp: favor_list_def insert_second_def)
    ultimately show ?thesis using r by simp
  next
    case False
    obtain us vs where uv: "xs = us @ n # vs" "remove1 n xs = us @ vs"
      using map_NodeLn_split [OF n] by blast
    have "lnext (h a) \<noteq> f n" using nx False inj by (auto dest: injD)
    moreover have "lnext (h (f x)) \<noteq> f n"
      using nnx False inj an n by (auto dest: injD split: list.splits)
    ultimately have h': "h' = list_insert (f n) (lnext (list_del (f n) h a)) (list_del (f n) h)"
      using ne nx by (simp add: h'_def)
    have r': "lring h (a # map f us @ f n # map f vs)" using r uv by simp
    have del: "lring (list_del (f n) h) (a # map f (remove1 n xs))"
      using list_del_ring [OF r'] uv(2) by simp
    have e: "f n \<notin> set (a # map f (remove1 n xs))" using d an n inj by (auto dest: injD)
    have "lring h' (a # map f (favor_list n xs))"
      using lring_insert_second [OF del e] False xs by (simp add: h' favor_list_def)
    moreover have "lring h' zs" if z: "lring h zs" "set zs \<inter> set (a # map f xs) = {}"
    proof -
      have "lring (list_del (f n) h) zs" using list_del_other [OF r' z(1)] z(2) uv(1) by auto
      moreover have "set (remove1 n xs) \<subseteq> set xs" by (rule set_remove1_subset)
      ultimately show ?thesis
        unfolding h' using z(2) n by (intro list_insert_second_other [OF del]) auto
    qed
    ultimately show ?thesis by blast
  qed
  then show "lring h' (a # map f (favor_list n xs))"
    and "lring h zs \<Longrightarrow> set zs \<inter> set (a # map f xs) = {} \<Longrightarrow> lring h' zs" by auto
qed

lemma pqueue_favor_rep:
  assumes rep: "pqs_rep w S Q" and q: "q \<in> S" and i: "i < 140" and n: "n \<in> set (Q q i)"
  shows "\<exists>w'. pqueue_favor_nolock n w = Some w'
     \<and> pqs_rep w' S (Q(q := (Q q)(i := favor_list n (Q q i))))
     \<and> nodes w' = nodes w \<and> pqueues w' = pqueues w"
proof -
  have repq: "pq_rep w q (Q q)" using rep q by (simp add: pqs_rep_def)
  note f = pq_rep_node [OF repq i n]
  let ?h = "lnodes w" and ?a = "PqHead q i"
  let ?h' = "if list_empty ?a ?h then ?h else if lnext (?h ?a) = NodeLn n then ?h
     else if lnext (?h (lnext (?h ?a))) = NodeLn n then ?h
     else list_insert (NodeLn n) (lnext (list_del (NodeLn n) ?h ?a)) (list_del (NodeLn n) ?h)"
  have inj: "inj NodeLn" by (rule injI) simp
  note fav = favor_ring [OF pq_rep_ring [OF repq i] n inj]
  obtain w' where w': "pqueue_favor_nolock n w = Some w'" and fields:
    "lnodes w' = ?h'" "nodes w' = nodes w" "pqueues w' = pqueues w"
    using f i by (auto simp: pqueue_favor_nolock_def node_lt_check_def head_of_priority Let_def)
  have facts: "length (favor_list n (Q q i)) = length (Q q i)"
      "set (favor_list n (Q q i)) = set (Q q i)"
    using favor_list_facts [OF _ n] lring_distinct [OF pq_rep_ring [OF repq i]]
    by (auto simp: distinct_map)
  have ne: "favor_list n (Q q i) \<noteq> []" "Q q i \<noteq> []" using facts n by (metis empty_iff empty_set)+
  have "pq_rep w' r ((Q(q := (Q q)(i := favor_list n (Q q i)))) r)" if r: "r \<in> S" for r
  proof -
    have repr: "pq_rep w r (Q r)" using rep r by (simp add: pqs_rep_def)
    let ?B = "(Q(q := (Q q)(i := favor_list n (Q q i)))) r"
    have "lring (lnodes w') (PqHead r k # map NodeLn (?B k))" if k: "k < 140" for k
    proof (cases "r = q \<and> k = i")
      case True
      with fav(1) show ?thesis by (simp add: fields)
    next
      case False
      then have "set (PqHead r k # map NodeLn (Q r k)) \<inter> set (?a # map NodeLn (Q q i)) = {}"
        using pq_rep_rings_disjoint [OF repq k i] pq_rep_queues_disjoint [OF repr repq k i] by metis
      from fav(2) [OF pq_rep_ring [OF repr k] this]
      have "lring (lnodes w') (PqHead r k # map NodeLn (Q r k))" by (simp only: fields(1))
      moreover have "?B k = Q r k" using False by auto
      ultimately show ?thesis by simp
    qed
    moreover have "set (?B k) = set (Q r k)" "length (?B k) = length (Q r k)"
        "?B k = [] \<longleftrightarrow> Q r k = []" for k
      using facts ne by auto
    ultimately show ?thesis
      using repr unfolding pq_rep_def by (simp add: fields(2,3))
  qed
  with w' fields show ?thesis by (auto simp: pqs_rep_def)
qed

subsection \<open>The contract of the priority queues\<close>

text \<open>
  The abstract state: what each queue holds at each priority, where each node is, and the
  priority of each node.
\<close>

record pq_abs =
  held :: "nat \<Rightarrow> nat \<Rightarrow> nat list"
  loc :: "nat \<Rightarrow> nat option"
  prio :: "nat \<Rightarrow> nat"

datatype pq_op =
    Append nat nat
  | Prepend nat nat
  | PrependSecond nat nat
  | Delete nat
  | SetPriority nat nat
  | Favor nat

definition upd_held :: "nat \<Rightarrow> nat \<Rightarrow> (nat list \<Rightarrow> nat list) \<Rightarrow> pq_abs \<Rightarrow> pq_abs" where
  "upd_held q i f a = a\<lparr>held := (held a)(q := (held a q)(i := f (held a q i)))\<rparr>"

definition pq_enter :: "nat \<Rightarrow> nat \<Rightarrow> (nat list \<Rightarrow> nat list) \<Rightarrow> pq_abs \<Rightarrow> pq_abs" where
  "pq_enter q n f a = (case loc a n of
      Some _ \<Rightarrow> a | None \<Rightarrow> (upd_held q (prio a n) f a)\<lparr>loc := (loc a)(n \<mapsto> q)\<rparr>)"

fun pq_spec :: "pq_op \<Rightarrow> pq_abs \<Rightarrow> pq_abs" where
  "pq_spec (Append q n) a = pq_enter q n (\<lambda>xs. xs @ [n]) a"
| "pq_spec (Prepend q n) a = pq_enter q n (\<lambda>xs. n # xs) a"
| "pq_spec (PrependSecond q n) a = pq_enter q n (insert_second n) a"
| "pq_spec (Delete n) a = (case loc a n of
      None \<Rightarrow> a
    | Some q \<Rightarrow> (upd_held q (prio a n) (remove1 n) a)\<lparr>loc := (loc a)(n := None)\<rparr>)"
| "pq_spec (SetPriority n j) a = (case loc a n of
      None \<Rightarrow> a\<lparr>prio := (prio a)(n := j)\<rparr>
    | Some q \<Rightarrow> a\<lparr>held := (held a)(q := requeue n (prio a n) j (held a q)),
                  prio := (prio a)(n := j)\<rparr>)"
| "pq_spec (Favor n) a = (case loc a n of
      None \<Rightarrow> a | Some q \<Rightarrow> upd_held q (prio a n) (favor_list n) a)"

fun pq_step :: "pq_op \<Rightarrow> qworld \<Rightarrow> qworld option" where
  "pq_step (Append q n) w = pqueue_append_node_nolock q n w"
| "pq_step (Prepend q n) w = pqueue_prepend_node_nolock q n w"
| "pq_step (PrependSecond q n) w = pqueue_prepend_second_node_nolock q n w"
| "pq_step (Delete n) w = pqueue_delete_node_nolock n w"
| "pq_step (SetPriority n j) w = pqueue_node_priority_set_nolock n (int j) w"
| "pq_step (Favor n) w = pqueue_favor_nolock n w"

text \<open>
  An insertion is allowed into a queue of \<open>S\<close> that has room for one more in its 32-bit
  counter; priorities are indices of the array of lists.
\<close>

fun pq_ok :: "nat set \<Rightarrow> pq_op \<Rightarrow> pq_abs \<Rightarrow> bool" where
  "pq_ok S (Append q n) a \<longleftrightarrow> q \<in> S \<and> Suc (length (pq_order (held a q))) < 2 ^ 32"
| "pq_ok S (Prepend q n) a \<longleftrightarrow> q \<in> S \<and> Suc (length (pq_order (held a q))) < 2 ^ 32"
| "pq_ok S (PrependSecond q n) a \<longleftrightarrow> q \<in> S \<and> Suc (length (pq_order (held a q))) < 2 ^ 32"
| "pq_ok S (SetPriority n j) a \<longleftrightarrow> j < 140"
| "pq_ok S _ a \<longleftrightarrow> True"

definition pq_node_ok :: "nat set \<Rightarrow> qworld \<Rightarrow> pq_abs \<Rightarrow> nat \<Rightarrow> bool" where
  "pq_node_ok S w a n \<longleftrightarrow> prio a n < 140 \<and> priority (nodes w n) = int (prio a n)
     \<and> (case loc a n of
          None \<Rightarrow> node_lt (nodes w n) = node_lt_nowhere \<and> bp (nodes w n) = NoQ
        | Some q \<Rightarrow> q \<in> S \<and> n \<in> set (held a q (prio a n)))"

definition pq_R :: "nat set \<Rightarrow> qworld \<Rightarrow> pq_abs \<Rightarrow> bool" where
  "pq_R S w a \<longleftrightarrow> pqs_rep w S (held a) \<and> (\<forall>n. pq_node_ok S w a n)"

lemma pq_R_node:
  assumes "pq_R S w a"
  shows "prio a n < 140" "priority (nodes w n) = int (prio a n)"
    and "loc a n = None \<Longrightarrow> node_lt (nodes w n) = node_lt_nowhere \<and> bp (nodes w n) = NoQ"
    and "loc a n = Some q \<Longrightarrow> q \<in> S \<and> n \<in> set (held a q (prio a n))
           \<and> node_lt (nodes w n) = node_lt_pqueue \<and> bp (nodes w n) = InPq q"
proof -
  have k: "pq_node_ok S w a n" and rep: "pqs_rep w S (held a)" using assms by (auto simp: pq_R_def)
  then show p: "prio a n < 140" "priority (nodes w n) = int (prio a n)"
    "loc a n = None \<Longrightarrow> node_lt (nodes w n) = node_lt_nowhere \<and> bp (nodes w n) = NoQ"
    by (auto simp: pq_node_ok_def)
  show "q \<in> S \<and> n \<in> set (held a q (prio a n))
      \<and> node_lt (nodes w n) = node_lt_pqueue \<and> bp (nodes w n) = InPq q" if "loc a n = Some q"
    using k rep that p(1) pq_rep_node [of w q "held a q" "prio a n" n]
    by (auto simp: pq_node_ok_def pqs_rep_def)
qed

text \<open>A node is in at most one list, the one its location and priority say.\<close>

lemma pq_R_unique:
  assumes "pq_R S w a" and "q \<in> S" and "i < 140" and "n \<in> set (held a q i)"
  shows "loc a n = Some q \<and> prio a n = i"
proof -
  have "pq_rep w q (held a q)" using assms(1,2) by (simp add: pq_R_def pqs_rep_def)
  from pq_rep_node [OF this assms(3,4)] pq_R_node [OF assms(1), of n] show ?thesis
    by (cases "loc a n") auto
qed

lemma pq_node_ok_other:
  assumes "pq_R S w a" and "nodes w' m = nodes w m" and "loc a' m = loc a m"
    and "prio a' m = prio a m"
    and "\<And>q. m \<in> set (held a q (prio a m)) \<Longrightarrow> m \<in> set (held a' q (prio a m))"
  shows "pq_node_ok S w' a' m"
proof -
  have "pq_node_ok S w a m" using assms(1) by (simp add: pq_R_def)
  with assms(2-5) show ?thesis by (auto simp: pq_node_ok_def split: option.splits)
qed

lemma pq_enter_R:
  assumes R: "pq_R S w a" and free: "loc a n = None" and q: "q \<in> S"
    and rep: "pqs_rep w' S ((held a)(q := (held a q)(prio a n := f (held a q (prio a n)))))"
    and same: "same_nodes n w w'" and st: "\<And>xs. set (f xs) = insert n (set xs)"
  shows "pq_R S w' (pq_enter q n f a)"
proof -
  let ?a = "pq_enter q n f a"
  have a: "held ?a = (held a)(q := (held a q)(prio a n := f (held a q (prio a n))))"
    "loc ?a = (loc a)(n \<mapsto> q)" "prio ?a = prio a"
    using free by (simp_all add: pq_enter_def upd_held_def)
  have "pq_node_ok S w' ?a m" for m
  proof (cases "m = n")
    case True
    with same q st pq_R_node(1,2) [OF R, of n] show ?thesis
      by (simp add: pq_node_ok_def a same_nodes_def)
  next
    case False
    then show ?thesis
      using same st by (intro pq_node_ok_other [OF R]) (auto simp: same_nodes_def a)
  qed
  with rep show ?thesis by (simp add: pq_R_def a)
qed

lemma pq_can_enter:
  assumes "pq_R S w a" and "loc a n = None" and "Suc (length (pq_order (held a q))) < 2 ^ 32"
  shows "can_enter w (held a) q n (prio a n)"
  using assms(2,3) pq_R_node(1-3) [OF assms(1), of n] by (simp add: can_enter_def length_pq_order)

lemma pq_not_enter:
  assumes "pq_R S w a" and "loc a n \<noteq> None"
  shows "node_lt_check n node_lt_nowhere w"
  using assms(2) pq_R_node(4) [OF assms(1), of n] by (auto simp: node_lt_check_def)

lemma pq_enter_implements:
  assumes R: "pq_R S w a" and q: "q \<in> S" and fits: "Suc (length (pq_order (held a q))) < 2 ^ 32"
    and st: "\<And>xs. set (f xs) = insert n (set xs)"
    and ins: "\<And>i. can_enter w (held a) q n i \<Longrightarrow> \<exists>w'. step w = Some w'
       \<and> pqs_rep w' S ((held a)(q := (held a q)(i := f (held a q i)))) \<and> same_nodes n w w'"
    and skip: "node_lt_check n node_lt_nowhere w \<Longrightarrow> step w = Some w"
  shows "\<exists>w'. step w = Some w' \<and> pq_R S w' (pq_enter q n f a)"
proof (cases "loc a n")
  case None
  from ins [OF pq_can_enter [OF R None fits]] pq_enter_R [OF R None q _ _ st] show ?thesis by blast
next
  case (Some r)
  with skip pq_not_enter [OF R, of n] R show ?thesis by (simp add: pq_enter_def)
qed

lemma pq_delete_implements:
  assumes R: "pq_R S w a"
  shows "\<exists>w'. pqueue_delete_node_nolock n w = Some w' \<and> pq_R S w' (pq_spec (Delete n) a)"
proof (cases "loc a n")
  case None
  with R pq_R_node(3) [OF R None] show ?thesis
    by (simp add: pqueue_delete_node_nolock_def node_lt_check_def)
next
  case (Some q)
  note f = pq_R_node(1,2) [OF R, of n] pq_R_node(4) [OF R Some]
  define a' where "a' = pq_spec (Delete n) a"
  have a: "held a' = (held a)(q := (held a q)(prio a n := remove1 n (held a q (prio a n))))"
    "loc a' = (loc a)(n := None)" "prio a' = prio a"
    using Some by (simp_all add: upd_held_def a'_def)
  from f R pqueue_delete_node_rep [of w S "held a" q "prio a n" n] obtain w' where
    w': "pqueue_delete_node_nolock n w = Some w'" "pqs_rep w' S (held a')" "same_nodes n w w'"
    "node_lt (nodes w' n) = node_lt_nowhere" "bp (nodes w' n) = NoQ"
    unfolding a by (auto simp: pq_R_def)
  have "pq_node_ok S w' a' m" for m
  proof (cases "m = n")
    case True
    with w'(3-5) f show ?thesis by (simp add: pq_node_ok_def a same_nodes_def)
  next
    case False
    with w'(3) show ?thesis
      by (intro pq_node_ok_other [OF R]) (auto simp: same_nodes_def a)
  qed
  with w'(1,2) show ?thesis unfolding a'_def [symmetric] by (auto simp: pq_R_def)
qed

lemma requeue_self: "n \<in> set (A i) \<Longrightarrow> n \<in> set (requeue n i j A j)"
  by (auto simp: requeue_def)

lemma requeue_keeps: "m \<in> set (A k) \<Longrightarrow> m \<noteq> n \<Longrightarrow> m \<in> set (requeue n i j A k)"
  by (auto simp: requeue_def)

lemma pq_set_priority_implements:
  assumes R: "pq_R S w a" and j: "j < 140"
  shows "\<exists>w'. pqueue_node_priority_set_nolock n (int j) w = Some w'
           \<and> pq_R S w' (pq_spec (SetPriority n j) a)"
proof (cases "loc a n")
  case None
  let ?w = "upd_node n (\<lambda>s. s\<lparr>priority := int j\<rparr>) w"
  note f = pq_R_node(1,2) [OF R, of n] pq_R_node(3) [OF R None]
  have "pqueue_node_priority_set_nolock n (int j) w = Some ?w"
    using f by (simp add: pqueue_node_priority_set_nolock_def upd_node_def fun_upd_idem)
  moreover have "pq_rep ?w q (held a q)" if q: "q \<in> S" for q
  proof -
    have rep: "pq_rep w q (held a q)" using R q by (simp add: pq_R_def pqs_rep_def)
    show ?thesis
    proof (rule pq_rep_other [OF rep])
      fix m i assume "i < (140 :: nat)" "m \<in> set (held a q i)"
      with pq_R_unique [OF R q] None show "nodes ?w m = nodes w m" by auto
    qed (use pq_rep_ring [OF rep] in simp_all)
  qed
  then have "pqs_rep ?w S (held a)" by (simp add: pqs_rep_def)
  moreover have "pq_node_ok S ?w (pq_spec (SetPriority n j) a) m" for m
    using None j f pq_node_ok_other [OF R, of ?w m "pq_spec (SetPriority n j) a"]
    by (cases "m = n") (auto simp: pq_node_ok_def)
  ultimately show ?thesis using None by (auto simp: pq_R_def)
next
  case (Some q)
  note f = pq_R_node(1,2) [OF R, of n] pq_R_node(4) [OF R Some]
  define a' where "a' = pq_spec (SetPriority n j) a"
  let ?i = "prio a n"
  have a: "held a' = (held a)(q := requeue n ?i j (held a q))" "loc a' = loc a"
    "prio a' = (prio a)(n := j)" using Some by (simp_all add: a'_def)
  from f R j pqueue_node_priority_set_rep [of w S "held a" q ?i j n] obtain w' where
    w': "pqueue_node_priority_set_nolock n (int j) w = Some w'" "pqs_rep w' S (held a')"
    "nodes w' = (nodes w)(n := (nodes w n)\<lparr>priority := int j\<rparr>)"
    unfolding a by (auto simp: pq_R_def)
  have "pq_node_ok S w' a' m" for m
  proof (cases "m = n")
    case True
    with w'(3) f j Some show ?thesis by (simp add: pq_node_ok_def a requeue_self)
  next
    case False
    with w'(3) show ?thesis
      by (intro pq_node_ok_other [OF R]) (auto simp: a intro: requeue_keeps)
  qed
  with w'(1,2) show ?thesis unfolding a'_def [symmetric] by (auto simp: pq_R_def)
qed

lemma pq_favor_implements:
  assumes R: "pq_R S w a"
  shows "\<exists>w'. pqueue_favor_nolock n w = Some w' \<and> pq_R S w' (pq_spec (Favor n) a)"
proof (cases "loc a n")
  case None
  with R pq_R_node(3) [OF R None] show ?thesis by (simp add: pqueue_favor_nolock_def)
next
  case (Some q)
  note f = pq_R_node(1,2) [OF R, of n] pq_R_node(4) [OF R Some]
  define a' where "a' = pq_spec (Favor n) a"
  let ?i = "prio a n"
  have a: "held a' = (held a)(q := (held a q)(?i := favor_list n (held a q ?i)))"
    "loc a' = loc a" "prio a' = prio a" using Some by (simp_all add: upd_held_def a'_def)
  from f R pqueue_favor_rep [of w S "held a" q ?i n] obtain w' where
    w': "pqueue_favor_nolock n w = Some w'" "pqs_rep w' S (held a')" "nodes w' = nodes w"
    unfolding a by (auto simp: pq_R_def)
  have "distinct (held a q ?i)"
    using f R lring_distinct [OF pq_rep_ring [of w q "held a q" ?i]]
    by (auto simp: pq_R_def pqs_rep_def distinct_map)
  then have "set (favor_list n (held a q ?i)) = set (held a q ?i)"
    using favor_list_facts(2) f by blast
  then have "m \<in> set (held a' r k) \<longleftrightarrow> m \<in> set (held a r k)" for m r k by (simp add: a)
  then have "pq_node_ok S w' a' m" for m
    using w'(3) by (intro pq_node_ok_other [OF R]) (simp_all add: a(2,3))
  with w'(1,2) show ?thesis unfolding a'_def [symmetric] by (auto simp: pq_R_def)
qed

lemma pq_insert_implements:
  assumes R: "pq_R S w a" and q: "q \<in> S" and fits: "Suc (length (pq_order (held a q))) < 2 ^ 32"
  shows "\<exists>w'. pqueue_append_node_nolock q n w = Some w' \<and> pq_R S w' (pq_spec (Append q n) a)"
    and "\<exists>w'. pqueue_prepend_node_nolock q n w = Some w' \<and> pq_R S w' (pq_spec (Prepend q n) a)"
    and "\<exists>w'. pqueue_prepend_second_node_nolock q n w = Some w'
           \<and> pq_R S w' (pq_spec (PrependSecond q n) a)"
proof -
  have rep: "pqs_rep w S (held a)" using R by (simp add: pq_R_def)
  note enter = pq_enter_implements [OF R q fits]
  show "\<exists>w'. pqueue_append_node_nolock q n w = Some w' \<and> pq_R S w' (pq_spec (Append q n) a)"
    unfolding pq_spec.simps
    by (rule enter [where f = "\<lambda>xs. xs @ [n]" and n = n];
        (erule pqueue_append_node_rep [OF rep q] | simp add: pqueue_append_node_nolock_def))
  show "\<exists>w'. pqueue_prepend_node_nolock q n w = Some w' \<and> pq_R S w' (pq_spec (Prepend q n) a)"
    unfolding pq_spec.simps
    by (rule enter [where f = "\<lambda>xs. n # xs" and n = n];
        (erule pqueue_prepend_node_rep [OF rep q] | simp add: pqueue_prepend_node_nolock_def))
  show "\<exists>w'. pqueue_prepend_second_node_nolock q n w = Some w'
      \<and> pq_R S w' (pq_spec (PrependSecond q n) a)"
    unfolding pq_spec.simps
    by (rule enter [where f = "insert_second n" and n = n];
        (erule pqueue_prepend_second_node_rep [OF rep q] | simp add: pqueue_prepend_second_node_nolock_def))
qed

interpretation pqs: container "pq_R S" pq_step pq_spec "pq_ok S" for S
proof
  fix c a op assume R: "pq_R S c a" and ok: "pq_ok S op a"
  show "\<exists>c'. pq_step op c = Some c' \<and> pq_R S c' (pq_spec op a)"
  proof (cases op)
    case (Append q n)
    with ok pq_insert_implements(1) [OF R, of q n] show ?thesis by (simp del: pq_spec.simps)
  next
    case (Prepend q n)
    with ok pq_insert_implements(2) [OF R, of q n] show ?thesis by (simp del: pq_spec.simps)
  next
    case (PrependSecond q n)
    with ok pq_insert_implements(3) [OF R, of q n] show ?thesis by (simp del: pq_spec.simps)
  next
    case (Delete n)
    with ok pq_delete_implements [OF R, of n] show ?thesis by (simp del: pq_spec.simps)
  next
    case (SetPriority n j)
    with ok pq_set_priority_implements [OF R, of j n] show ?thesis by (simp del: pq_spec.simps)
  next
    case (Favor n)
    with ok pq_favor_implements [OF R, of n] show ?thesis by (simp del: pq_spec.simps)
  qed
qed

text \<open>The iteration with \<open>__pqueue_first_node\<close> and \<open>__pqueue_get_next_node\<close>.\<close>

definition pq_holds :: "nat \<Rightarrow> qworld \<Rightarrow> nat list \<Rightarrow> bool" where
  "pq_holds q w xs \<longleftrightarrow> (\<exists>A. pq_rep w q A \<and> xs = pq_order A)"

interpretation pqw: walkable "pq_holds q" "pqueue_first_node_nolock q" "\<lambda>w n. pqueue_get_next_node_nolock n w"
  for q
proof
  fix c xs assume "pq_holds q c xs"
  then obtain A where "pq_rep c q A" "xs = pq_order A" by (auto simp: pq_holds_def)
  with pqueue_first_node_hd [of c q A] show "pqueue_first_node_nolock q c = head_opt xs"
    by (simp add: head_opt_def)
next
  fix c xs n ys assume "pq_holds q c (xs @ n # ys)"
  then obtain A where "pq_rep c q A" "pq_order A = xs @ n # ys" by (auto simp: pq_holds_def)
  from pqueue_get_next_node_order [OF this] show "pqueue_get_next_node_nolock n c = head_opt ys"
    by (simp add: head_opt_def)
qed

lemma pq_R_holds: "pq_R S w a \<Longrightarrow> q \<in> S \<Longrightarrow> pq_holds q w (pq_order (held a q))"
  by (auto simp: pq_R_def pqs_rep_def pq_holds_def)

subsection \<open>A freshly initialised queue\<close>

definition empty_abs :: "qworld \<Rightarrow> pq_abs" where
  "empty_abs w = \<lparr>held = \<lambda>_ _. [], loc = \<lambda>_. None, prio = \<lambda>n. nat (priority (nodes w n))\<rparr>"

lemma pq_R_init:
  assumes "pq_bitmap (pqueues w q) = bitmap_zero bm"
    and "\<And>n. 0 \<le> priority (nodes w n) \<and> priority (nodes w n) < 140
           \<and> bp (nodes w n) = NoQ \<and> node_lt (nodes w n) = node_lt_nowhere"
  shows "pq_R {q} (pqueue_init q w) (empty_abs w)"
proof -
  have "nodes (pqueue_init q w) = nodes w" by (simp add: pqueue_init_def fold_lnode_init)
  with assms(2) show ?thesis
    using pqueue_init_rep [OF assms(1)]
    by (auto simp: pq_R_def pqs_rep_def pq_node_ok_def empty_abs_def nat_less_iff)
qed

text \<open>Zeroed memory, with node \<open>n\<close> at priority \<open>n mod 10\<close>.\<close>

definition zero_qworld :: qworld where
  "zero_qworld = \<lparr>lnodes = \<lambda>_. \<lparr>lnext = LNull, lprev = LNull\<rparr>,
     nodes = \<lambda>n. \<lparr>bp = NoQ, priority = int (n mod 10), node_lt = node_lt_nowhere\<rparr>,
     pqueues = \<lambda>_. \<lparr>pq_total = 0, pq_bitmap = replicate BITMAP_SLOTS 0, pq_lock = 0\<rparr>,
     queues = \<lambda>_. \<lparr>q_total = 0, q_lock = 0\<rparr>\<rparr>"

lemma zero_qworld_R: "pq_R {q} (pqueue_init q zero_qworld) (empty_abs zero_qworld)"
  by (rule pq_R_init [of _ _ "[]"])
    (auto simp: zero_qworld_def bitmap_zero_def intro: less_le_trans [of _ 10])

lemma pq_order_example:
  "pq_order (\<lambda>_. []) = []" "pq_order ((\<lambda>_. [])(3 := [13])) = [13]"
  "pq_order ((\<lambda>_. [])(3 := [13], 7 := [7])) = [7, 13]"
  by code_simp+

subsection \<open>Properties\<close>

text \<open>
  C1.  The priority queues implement their contract: any allowed sequence of appending,
  prepending (first or second), deleting, changing priority and favouring nodes, on any number
  of queues, runs without an out-of-range access, has the effect of the list operations on the
  per-priority lists, and leaves every queue returning as its first node the first node of its
  highest non-empty priority.
\<close>

theorem pqueue_refines:
  assumes "pq_R S w a" and "ops_ok (pq_ok S) pq_spec ops a"
  shows "\<exists>w'. run_ops pq_step ops w = Some w' \<and> pq_R S w' (run_spec pq_spec ops a)
     \<and> (\<forall>q\<in>S. pqueue_first_node_nolock q w' = head_opt (pq_order (held (run_spec pq_spec ops a) q)))"
proof -
  from pqs.run_implements [OF assms] obtain w' where
    w': "run_ops pq_step ops w = Some w'" "pq_R S w' (run_spec pq_spec ops a)" by blast
  with pq_R_holds pqw.first_holds show ?thesis by blast
qed

theorem pqueue_refines_witness:
  "\<exists>w'. run_ops pq_step [Append 0 13, Append 0 7] (pqueue_init 0 zero_qworld) = Some w'
     \<and> pqueue_first_node_nolock 0 w' = Some 7"
proof -
  let ?ops = "[Append 0 13, Append 0 7]"
  have p: "prio (empty_abs zero_qworld) n = n mod 10" for n
    by (simp add: empty_abs_def zero_qworld_def)
  have e: "held (empty_abs zero_qworld) = (\<lambda>_ _. [])" "loc (empty_abs zero_qworld) = (\<lambda>_. None)"
    by (simp_all add: empty_abs_def)
  have "ops_ok (pq_ok {0}) pq_spec ?ops (empty_abs zero_qworld)"
    by (simp add: pq_enter_def upd_held_def e p pq_order_example)
  moreover have "held (run_spec pq_spec ?ops (empty_abs zero_qworld)) 0 = (\<lambda>_. [])(3 := [13], 7 := [7])"
    by (simp add: pq_enter_def upd_held_def e p)
  ultimately show ?thesis
    using pqueue_refines [OF zero_qworld_R [of 0], of ?ops] by (auto simp: pq_order_example)
qed

text \<open>
  C18.  The iteration over a priority queue, from \<open>__pqueue_first_node\<close> on with
  \<open>__pqueue_get_next_node\<close>, ends after as many steps as the queue has nodes, and visits
  every node once, from the highest priority to the lowest and in list order within one.
\<close>

theorem pqueue_iteration:
  assumes "pq_R S w a" and "q \<in> S" and "length (pq_order (held a q)) \<le> fuel"
  shows "walk fuel (\<lambda>n. pqueue_get_next_node_nolock n w) (pqueue_first_node_nolock q w)
           = Some (pq_order (held a q))"
  by (rule pqw.walk_visits_all [OF pq_R_holds [OF assms(1,2)] assms(3)])

theorem pqueue_iteration_witness:
  "\<exists>w'. run_ops pq_step [Append 0 13, Append 0 7] (pqueue_init 0 zero_qworld) = Some w'
     \<and> walk 2 (\<lambda>n. pqueue_get_next_node_nolock n w') (pqueue_first_node_nolock 0 w') = Some [7, 13]"
proof -
  let ?ops = "[Append 0 13, Append 0 7]"
  have p: "prio (empty_abs zero_qworld) n = n mod 10" for n
    by (simp add: empty_abs_def zero_qworld_def)
  have e: "held (empty_abs zero_qworld) = (\<lambda>_ _. [])" "loc (empty_abs zero_qworld) = (\<lambda>_. None)"
    by (simp_all add: empty_abs_def)
  have ok: "ops_ok (pq_ok {0}) pq_spec ?ops (empty_abs zero_qworld)"
    by (simp add: pq_enter_def upd_held_def e p pq_order_example)
  have h: "held (run_spec pq_spec ?ops (empty_abs zero_qworld)) 0 = (\<lambda>_. [])(3 := [13], 7 := [7])"
    by (simp add: pq_enter_def upd_held_def e p)
  from pqs.run_implements [OF zero_qworld_R ok] obtain w' where
    "run_ops pq_step ?ops (pqueue_init 0 zero_qworld) = Some w'"
    "pq_R {0} w' (run_spec pq_spec ?ops (empty_abs zero_qworld))" by blast
  with pqueue_iteration [of "{0}" w' _ 0 2] h show ?thesis by (auto simp: pq_order_example)
qed

text \<open>
  The priority 99 of the policies \<open>SCHED_FIFO\<close> and \<open>SCHED_RR\<close> is valid, but
  its internal priority indexes one past the last list of a priority queue: a node with it can
  be put in no queue.
\<close>

theorem top_priority_out_of_range:
  "prio_validate SCHED_FIFO 99 0 = (0, 0) \<and> prio_validate SCHED_RR 99 0 = (0, 0)
   \<and> fst (xprio_to_iprio SCHED_FIFO 99 0) = int PRIO_TOTAL
   \<and> pqueue_append_node_nolock q n (upd_node n (\<lambda>_. \<lparr>bp = NoQ,
        priority = fst (xprio_to_iprio SCHED_FIFO 99 0), node_lt = node_lt_nowhere\<rparr>) w) = None"
  by (simp add: prio_defs const_defs pqueue_queue_def pqueue_append_node_nolock_def
      pqueue_insert_tail_def pqueue_count_in_def node_lt_check_def)

end
