(* ===== verification/Fifo.thy ===== *)
theory Fifo
  imports ListNode Interfaces
begin

text \<open>
  queue.h: the plain FIFO queues (the new queue and the dead queue of the scheduler), on the
  same nodes and list heap as the priority queues.

  \<open>q_rep w q xs\<close>: the queue \<open>q\<close> holds the nodes \<open>xs\<close>.  The operations are shown
  to implement list operations for any sequence of calls, and the first-in node is the one
  \<open>__queue_first_node\<close> returns.
\<close>

definition spin_lock_q :: "nat \<Rightarrow> qworld \<Rightarrow> qworld option" where
  "spin_lock_q q w =
     (if q_lock (queues w q) = 0 then Some (upd_queue q (\<lambda>p. p\<lparr>q_lock := 1\<rparr>) w) else None)"

definition spin_unlock_q :: "nat \<Rightarrow> qworld \<Rightarrow> qworld" where
  "spin_unlock_q q w = upd_queue q (\<lambda>p. p\<lparr>q_lock := 0\<rparr>) w"

definition queue_insert :: "nat \<Rightarrow> nat \<Rightarrow> qworld \<Rightarrow> qworld" where
  "queue_insert node q w =
     node_queue_set node (Some q) (upd_lnodes (list_insert (NodeLn node) (QHead q)) w)"

definition queue_insert_tail :: "nat \<Rightarrow> nat \<Rightarrow> qworld \<Rightarrow> qworld" where
  "queue_insert_tail node q w =
     node_queue_set node (Some q) (upd_lnodes (list_insert_tail (NodeLn node) (QHead q)) w)"

definition queue_delete :: "nat \<Rightarrow> qworld \<Rightarrow> qworld" where
  "queue_delete node w = node_queue_set node None (upd_lnodes (list_del (NodeLn node)) w)"

text \<open>\<open>queue_init\<close> relies on zeroed memory for \<open>total\<close>.\<close>

definition queue_init :: "nat \<Rightarrow> qworld \<Rightarrow> qworld" where
  "queue_init q w = upd_lnodes (lnode_init (QHead q)) (upd_queue q (\<lambda>p. p\<lparr>q_lock := 0\<rparr>) w)"

definition queue_append_node_nolock :: "nat \<Rightarrow> nat \<Rightarrow> qworld \<Rightarrow> qworld" where
  "queue_append_node_nolock q node w =
     (if node_lt_check node node_lt_nowhere w then w
      else queue_insert_tail node q (upd_queue q (\<lambda>p. p\<lparr>q_total := q_total p + 1\<rparr>) w))"

definition queue_append_node :: "nat \<Rightarrow> nat \<Rightarrow> qworld \<Rightarrow> qworld option" where
  "queue_append_node q node w =
     do { w1 \<leftarrow> spin_lock_q q w;
          Some (spin_unlock_q q (queue_append_node_nolock q node w1)) }"

definition queue_total_nolock :: "nat \<Rightarrow> qworld \<Rightarrow> u32" where
  "queue_total_nolock q w = q_total (queues w q)"

definition queue_total :: "nat \<Rightarrow> qworld \<Rightarrow> u32" where
  "queue_total q w = queue_total_nolock q w"

text \<open>
  The consistency check of \<open>__queue_first_node\<close> only reports; \<open>list_entry\<close> of the
  head itself is no node, the value \<open>None\<close>.
\<close>

definition queue_first_node_nolock :: "nat \<Rightarrow> qworld \<Rightarrow> nat option" where
  "queue_first_node_nolock q w =
     (if q_total (queues w q) \<noteq> 0 then node_by_lnode (lnext (lnodes w (QHead q))) else None)"

definition queue_first_node :: "nat \<Rightarrow> qworld \<Rightarrow> (nat option \<times> qworld) option" where
  "queue_first_node q w =
     do { w1 \<leftarrow> spin_lock_q q w; Some (queue_first_node_nolock q w1, spin_unlock_q q w1) }"

definition queue_contains_nolock :: "nat \<Rightarrow> nat \<Rightarrow> qworld \<Rightarrow> bool" where
  "queue_contains_nolock q node w \<longleftrightarrow>
     \<not> node_lt_check node node_lt_queue w \<and> bp (nodes w node) = InQ q"

definition queue_contains :: "nat \<Rightarrow> nat \<Rightarrow> qworld \<Rightarrow> (bool \<times> qworld) option" where
  "queue_contains q node w =
     (if node_lt_check node node_lt_queue w then Some (False, w)
      else do { w1 \<leftarrow> spin_lock_q q w; Some (bp (nodes w1 node) = InQ q, spin_unlock_q q w1) })"

definition queue_delete_node_nolock :: "nat \<Rightarrow> qworld \<Rightarrow> qworld option" where
  "queue_delete_node_nolock node w =
     (if node_lt_check node node_lt_queue w then Some w
      else case bp (nodes w node) of
        NoQ \<Rightarrow> Some w
      | InPq q \<Rightarrow> None
      | InQ q \<Rightarrow> Some (queue_delete node (upd_queue q (\<lambda>p. p\<lparr>q_total := q_total p - 1\<rparr>) w)))"

definition queue_delete_node :: "nat \<Rightarrow> qworld \<Rightarrow> qworld option" where
  "queue_delete_node node w =
     (if node_lt_check node node_lt_queue w then Some w
      else case bp (nodes w node) of
        NoQ \<Rightarrow> Some w
      | InPq q \<Rightarrow> None
      | InQ q \<Rightarrow> do { w1 \<leftarrow> spin_lock_q q w; w2 \<leftarrow> queue_delete_node_nolock node w1;
                      Some (spin_unlock_q q w2) })"

subsection \<open>What a queue holds\<close>

definition q_rep :: "qworld \<Rightarrow> nat \<Rightarrow> nat list \<Rightarrow> bool" where
  "q_rep w q xs \<longleftrightarrow> lring (lnodes w) (QHead q # map NodeLn xs)
     \<and> (\<forall>n\<in>set xs. bp (nodes w n) = InQ q \<and> node_lt (nodes w n) = node_lt_queue)
     \<and> counts (q_total (queues w q)) (length xs)"

definition qs_rep :: "qworld \<Rightarrow> nat set \<Rightarrow> (nat \<Rightarrow> nat list) \<Rightarrow> bool" where
  "qs_rep w S Q \<longleftrightarrow> (\<forall>q\<in>S. q_rep w q (Q q))"

lemma q_rep_init:
  "q_total (queues w q) = 0 \<Longrightarrow> q_rep (queue_init q w) q []"
  using lnode_init_ring [of "QHead q" "lnodes w"] by (simp add: q_rep_def queue_init_def)

lemma q_rep_disjoint:
  assumes "q_rep w q xs" "q_rep w r ys" "q \<noteq> r"
  shows "set (QHead q # map NodeLn xs) \<inter> set (QHead r # map NodeLn ys) = {}"
  using assms by (fastforce simp: q_rep_def)

lemma queue_append_rep:
  assumes rep: "qs_rep w S Q" and q: "q \<in> S" and nw: "node_lt (nodes w n) = node_lt_nowhere"
    and fits: "Suc (length (Q q)) < 2 ^ 32"
  shows "qs_rep (queue_append_node_nolock q n w) S (Q(q := Q q @ [n]))"
  unfolding qs_rep_def
proof
  fix r assume r: "r \<in> S"
  let ?w = "queue_append_node_nolock q n w"
  have repq: "q_rep w q (Q q)" and repr: "q_rep w r (Q r)" using rep q r by (auto simp: qs_rep_def)
  have n: "n \<notin> set (Q s)" if "s \<in> S" for s using rep that nw by (force simp: qs_rep_def q_rep_def)
  have ring: "lring (lnodes w) (QHead q # map NodeLn (Q q))"
    and nin: "NodeLn n \<notin> set (QHead q # map NodeLn (Q q))"
    using repq n [OF q] by (auto simp: q_rep_def)
  have fields: "lnodes ?w = list_insert_tail (NodeLn n) (QHead q) (lnodes w)"
    "nodes ?w = (nodes w)(n := (nodes w n)\<lparr>bp := InQ q, node_lt := node_lt_queue\<rparr>)"
    "queues ?w = (queues w)(q := (queues w q)\<lparr>q_total := q_total (queues w q) + 1\<rparr>)"
    using nw by (simp_all add: queue_append_node_nolock_def node_lt_check_def queue_insert_tail_def
        node_queue_set_def)
  show "q_rep ?w r ((Q(q := Q q @ [n])) r)"
  proof (cases "r = q")
    case True
    with list_insert_tail_ring [OF ring nin] repq fits n [OF q] show ?thesis
      by (auto simp: q_rep_def fields intro: counts_Suc)
  next
    case False
    have "lring (lnodes w) (QHead r # map NodeLn (Q r))" using repr by (simp add: q_rep_def)
    then have "lring (lnodes ?w) (QHead r # map NodeLn (Q r))"
      unfolding fields using q_rep_disjoint [OF repr repq False] n [OF r]
      by (intro list_insert_tail_other [OF ring]) auto
    with False repr n [OF r] show ?thesis by (auto simp: q_rep_def fields)
  qed
qed

lemma queue_delete_rep:
  assumes rep: "qs_rep w S Q" and q: "q \<in> S" and n: "n \<in> set (Q q)"
  shows "\<exists>w'. queue_delete_node_nolock n w = Some w' \<and> qs_rep w' S (Q(q := remove1 n (Q q)))
     \<and> nodes w' = (nodes w)(n := (nodes w n)\<lparr>bp := NoQ, node_lt := node_lt_nowhere\<rparr>)"
proof -
  have repq: "q_rep w q (Q q)" using rep q by (simp add: qs_rep_def)
  then have f: "bp (nodes w n) = InQ q" "node_lt (nodes w n) = node_lt_queue"
    and ring: "lring (lnodes w) (QHead q # map NodeLn (Q q))"
    and c: "counts (q_total (queues w q)) (length (Q q))" using n by (auto simp: q_rep_def)
  have d: "distinct (Q q)" using lring_distinct [OF ring] by (auto simp: distinct_map)
  obtain us vs where s: "Q q = us @ n # vs" "remove1 n (Q q) = us @ vs"
    using n by (metis in_set_conv_decomp_first remove1_split)
  have ring': "lring (lnodes w) (QHead q # map NodeLn us @ NodeLn n # map NodeLn vs)"
    using ring s(1) by simp
  obtain w' where w': "queue_delete_node_nolock n w = Some w'" and fields:
    "lnodes w' = list_del (NodeLn n) (lnodes w)"
    "nodes w' = (nodes w)(n := (nodes w n)\<lparr>bp := NoQ, node_lt := node_lt_nowhere\<rparr>)"
    "queues w' = (queues w)(q := (queues w q)\<lparr>q_total := q_total (queues w q) - 1\<rparr>)"
    using f by (auto simp: queue_delete_node_nolock_def node_lt_check_def queue_delete_def
        node_queue_set_def)
  have len: "length (Q q) - 1 = length us + length vs" "0 < length (Q q)" using s(1) by auto
  have "q_rep w' r ((Q(q := remove1 n (Q q))) r)" if r: "r \<in> S" for r
  proof (cases "r = q")
    case True
    with list_del_ring [OF ring'] repq s d counts_pred [OF c len(2)] len(1) show ?thesis
      by (auto simp: q_rep_def fields)
  next
    case False
    have repr: "q_rep w r (Q r)" using rep r by (simp add: qs_rep_def)
    then have nr: "n \<notin> set (Q r)" using f False by (auto simp: q_rep_def)
    have "lring (lnodes w) (QHead r # map NodeLn (Q r))" using repr by (simp add: q_rep_def)
    then have "lring (lnodes w') (QHead r # map NodeLn (Q r))"
      unfolding fields using q_rep_disjoint [OF repr repq False] s(1)
      by (intro list_del_other [OF ring']) auto
    with False repr nr show ?thesis by (auto simp: q_rep_def fields)
  qed
  with w' fields(2) show ?thesis by (auto simp: qs_rep_def)
qed

lemma queue_first_node_hd: "q_rep w q xs \<Longrightarrow> queue_first_node_nolock q w = head_opt xs"
  using counts_zero_iff [of "q_total (queues w q)" "length xs"]
    lring_next [of "lnodes w" "QHead q" "map NodeLn xs"]
  by (cases xs) (auto simp: q_rep_def queue_first_node_nolock_def node_by_lnode_def)

subsection \<open>The contract of the plain queues\<close>

datatype q_op = QAppend nat nat | QDelete nat

record q_abs =
  q_held :: "nat \<Rightarrow> nat list"
  q_loc :: "nat \<Rightarrow> nat option"

fun q_spec :: "q_op \<Rightarrow> q_abs \<Rightarrow> q_abs" where
  "q_spec (QAppend q n) a = (case q_loc a n of
      Some _ \<Rightarrow> a
    | None \<Rightarrow> a\<lparr>q_held := (q_held a)(q := q_held a q @ [n]), q_loc := (q_loc a)(n \<mapsto> q)\<rparr>)"
| "q_spec (QDelete n) a = (case q_loc a n of
      None \<Rightarrow> a
    | Some q \<Rightarrow> a\<lparr>q_held := (q_held a)(q := remove1 n (q_held a q)),
                  q_loc := (q_loc a)(n := None)\<rparr>)"

fun q_step :: "q_op \<Rightarrow> qworld \<Rightarrow> qworld option" where
  "q_step (QAppend q n) w = Some (queue_append_node_nolock q n w)"
| "q_step (QDelete n) w = queue_delete_node_nolock n w"

fun q_ok :: "nat set \<Rightarrow> q_op \<Rightarrow> q_abs \<Rightarrow> bool" where
  "q_ok S (QAppend q n) a \<longleftrightarrow> q \<in> S \<and> Suc (length (q_held a q)) < 2 ^ 32"
| "q_ok S (QDelete n) a \<longleftrightarrow> True"

definition q_R :: "nat set \<Rightarrow> qworld \<Rightarrow> q_abs \<Rightarrow> bool" where
  "q_R S w a \<longleftrightarrow> qs_rep w S (q_held a) \<and> (\<forall>n. case q_loc a n of
      None \<Rightarrow> node_lt (nodes w n) = node_lt_nowhere
    | Some q \<Rightarrow> q \<in> S \<and> n \<in> set (q_held a q))"

lemma q_R_loc:
  assumes "q_R S w a"
  shows "q_loc a n = None \<Longrightarrow> node_lt (nodes w n) = node_lt_nowhere"
    and "q_loc a n = Some q \<Longrightarrow> q \<in> S \<and> n \<in> set (q_held a q)
           \<and> bp (nodes w n) = InQ q \<and> node_lt (nodes w n) = node_lt_queue"
proof -
  have k: "case q_loc a n of None \<Rightarrow> node_lt (nodes w n) = node_lt_nowhere
    | Some q \<Rightarrow> q \<in> S \<and> n \<in> set (q_held a q)" using assms by (simp add: q_R_def)
  show "q_loc a n = None \<Longrightarrow> node_lt (nodes w n) = node_lt_nowhere" using k by simp
  show "q \<in> S \<and> n \<in> set (q_held a q) \<and> bp (nodes w n) = InQ q
      \<and> node_lt (nodes w n) = node_lt_queue" if "q_loc a n = Some q"
    using k that assms by (auto simp: q_R_def qs_rep_def q_rep_def)
qed

interpretation fq: container "q_R S" q_step q_spec "q_ok S" for S
proof
  fix w a op assume R: "q_R S w a" and ok: "q_ok S op a"
  have rep: "qs_rep w S (q_held a)" using R by (simp add: q_R_def)
  show "\<exists>w'. q_step op w = Some w' \<and> q_R S w' (q_spec op a)"
  proof (cases op)
    case (QAppend q n)
    show ?thesis
    proof (cases "q_loc a n")
      case None
      from queue_append_rep [OF rep _ q_R_loc(1) [OF R None], of q] ok QAppend
      have "qs_rep (queue_append_node_nolock q n w) S ((q_held a)(q := q_held a q @ [n]))" by simp
      with None QAppend ok R show ?thesis
        by (auto simp: q_R_loc [OF R] q_R_def queue_append_node_nolock_def node_lt_check_def
            queue_insert_tail_def node_queue_set_def split: option.splits)
    next
      case (Some r)
      with QAppend R q_R_loc(2) [OF R Some] show ?thesis
        by (simp add: queue_append_node_nolock_def node_lt_check_def)
    qed
  next
    case (QDelete n)
    show ?thesis
    proof (cases "q_loc a n")
      case None
      with QDelete R q_R_loc(1) [OF R None] show ?thesis
        by (simp add: queue_delete_node_nolock_def node_lt_check_def)
    next
      case (Some q)
      have qn: "q \<in> S" "n \<in> set (q_held a q)" using q_R_loc(2) [OF R Some] by auto
      from queue_delete_rep [OF rep qn] obtain w' where
        w': "queue_delete_node_nolock n w = Some w'"
          "qs_rep w' S ((q_held a)(q := remove1 n (q_held a q)))"
          "nodes w' = (nodes w)(n := (nodes w n)\<lparr>bp := NoQ, node_lt := node_lt_nowhere\<rparr>)" by blast
      with QDelete Some show ?thesis by (auto simp: q_R_loc [OF R] q_R_def split: option.splits)
    qed
  qed
qed

subsection \<open>Properties\<close>

lemma zero_q_R:
  assumes "q_total (queues w q) = 0" and "\<And>n. node_lt (nodes w n) = node_lt_nowhere"
  shows "q_R {q} (queue_init q w) \<lparr>q_held = \<lambda>_. [], q_loc = \<lambda>_. None\<rparr>"
  using q_rep_init [OF assms(1)] assms(2) by (simp add: q_R_def qs_rep_def queue_init_def)

text \<open>
  C28.  The plain queues are FIFO queues: any allowed sequence of appends and deletes has the
  effect of the list operations, and the first node of each queue is the head of its list.
\<close>

theorem queue_refines:
  assumes "q_R S w a" and "ops_ok (q_ok S) q_spec ops a"
  shows "\<exists>w'. run_ops q_step ops w = Some w' \<and> q_R S w' (run_spec q_spec ops a)
     \<and> (\<forall>q\<in>S. queue_first_node_nolock q w' = head_opt (q_held (run_spec q_spec ops a) q))"
proof -
  from fq.run_implements [OF assms] obtain w' where
    w': "run_ops q_step ops w = Some w'" "q_R S w' (run_spec q_spec ops a)" by blast
  moreover have "queue_first_node_nolock q w' = head_opt (q_held (run_spec q_spec ops a) q)"
    if "q \<in> S" for q
    using w'(2) that by (intro queue_first_node_hd) (simp add: q_R_def qs_rep_def)
  ultimately show ?thesis by blast
qed

definition fresh_qworld :: qworld where
  "fresh_qworld = \<lparr>lnodes = \<lambda>_. \<lparr>lnext = LNull, lprev = LNull\<rparr>,
     nodes = \<lambda>n. \<lparr>bp = NoQ, priority = 0, node_lt = node_lt_nowhere\<rparr>,
     pqueues = \<lambda>_. \<lparr>pq_total = 0, pq_bitmap = [], pq_lock = 0\<rparr>,
     queues = \<lambda>_. \<lparr>q_total = 0, q_lock = 0\<rparr>\<rparr>"

theorem queue_refines_witness:
  "\<exists>w'. run_ops q_step [QAppend 0 4, QAppend 0 5, QDelete 4] (queue_init 0 fresh_qworld) = Some w'
     \<and> queue_first_node_nolock 0 w' = Some 5"
proof -
  have "q_R {0} (queue_init 0 fresh_qworld) \<lparr>q_held = \<lambda>_. [], q_loc = \<lambda>_. None\<rparr>"
    by (rule zero_q_R) (simp_all add: fresh_qworld_def)
  from queue_refines [OF this, of "[QAppend 0 4, QAppend 0 5, QDelete 4]"] show ?thesis by auto
qed

end
