(* ===== verification/Ring.thy ===== *)
theory Ring
  imports Cycles Interfaces
begin

text \<open>
  pth_ring.c: rings of nodes hooked at their first node.  They hold the message ports, the
  messages of a port and the mutexes a thread owns.

  A pointer is a natural number, \<open>0\<close> is NULL.  A ring node lives in the heap
  \<open>rheap\<close>; an operation maps the ring header and the heap to the new ones, with the
  loads and stores in the order of the C code.

  \<open>ring_rep (r, h) xs\<close>: the ring holds \<open>xs\<close>, from the hook on.  The operations are
  shown to be list operations for any sequence of calls, and the walk with
  \<open>pth_ring_first\<close> and \<open>pth_ring_next\<close> visits all nodes.  \<open>pth_ring_prepend\<close>
  is not among them: it overwrites the hook before it links the node (\<open>ring_prepend_result\<close>).
\<close>

record pth_ringnode_st =
  rn_next :: nat
  rn_prev :: nat

record pth_ring_st =
  r_hook :: nat
  r_nodes :: u32

type_synonym rheap = "nat \<Rightarrow> pth_ringnode_st"
type_synonym ring = "pth_ring_st \<times> rheap"

definition set_rn_next :: "nat \<Rightarrow> nat \<Rightarrow> rheap \<Rightarrow> rheap" where
  "set_rn_next a b h = h(a := (h a)\<lparr>rn_next := b\<rparr>)"

definition set_rn_prev :: "nat \<Rightarrow> nat \<Rightarrow> rheap \<Rightarrow> rheap" where
  "set_rn_prev a b h = h(a := (h a)\<lparr>rn_prev := b\<rparr>)"

definition rnext :: "rheap \<Rightarrow> nat \<Rightarrow> nat" where "rnext h a = rn_next (h a)"
definition rprev :: "rheap \<Rightarrow> nat \<Rightarrow> nat" where "rprev h a = rn_prev (h a)"

interpretation rl: dlinks rnext rprev set_rn_next set_rn_prev
  by unfold_locales (auto simp: rnext_def rprev_def set_rn_next_def set_rn_prev_def)

lemmas ring_links [heap_simps] = rl.links

subsection \<open>The operations\<close>

definition pth_ring_init :: "pth_ring_st" where
  "pth_ring_init = \<lparr>r_hook = 0, r_nodes = 0\<rparr>"

definition pth_ring_elements :: "pth_ring_st \<Rightarrow> u32" where
  "pth_ring_elements r = r_nodes r"

definition pth_ring_first :: "pth_ring_st \<Rightarrow> nat" where
  "pth_ring_first r = r_hook r"

definition pth_ring_last :: "ring \<Rightarrow> nat" where
  "pth_ring_last s = (case s of (r, h) \<Rightarrow> if r_hook r = 0 then 0 else rprev h (r_hook r))"

definition pth_ring_next :: "ring \<Rightarrow> nat \<Rightarrow> nat" where
  "pth_ring_next s rn = (case s of (r, h) \<Rightarrow> if rnext h rn = r_hook r then 0 else rnext h rn)"

definition pth_ring_prev :: "ring \<Rightarrow> nat \<Rightarrow> nat" where
  "pth_ring_prev s rn =
     (case s of (r, h) \<Rightarrow> if rprev h rn = rprev h (r_hook r) then 0 else rprev h rn)"

definition pth_ring_insert_after :: "nat \<Rightarrow> nat \<Rightarrow> ring \<Rightarrow> ring" where
  "pth_ring_insert_after rn1 rn2 s = (case s of (r, h) \<Rightarrow>
     let h1 = set_rn_prev rn2 rn1 h;
         h2 = set_rn_next rn2 (rnext h1 rn1) h1;
         h3 = set_rn_next (rprev h2 rn2) rn2 h2;
         h4 = set_rn_prev (rnext h3 rn2) rn2 h3
     in (r\<lparr>r_nodes := r_nodes r + 1\<rparr>, h4))"

definition pth_ring_insert_before :: "nat \<Rightarrow> nat \<Rightarrow> ring \<Rightarrow> ring" where
  "pth_ring_insert_before rn1 rn2 s = (case s of (r, h) \<Rightarrow>
     let h1 = set_rn_next rn2 rn1 h;
         h2 = set_rn_prev rn2 (rprev h1 rn1) h1;
         h3 = set_rn_next (rprev h2 rn2) rn2 h2;
         h4 = set_rn_prev (rnext h3 rn2) rn2 h3
     in (r\<lparr>r_nodes := r_nodes r + 1\<rparr>, h4))"

definition pth_ring_delete :: "nat \<Rightarrow> ring \<Rightarrow> ring" where
  "pth_ring_delete rn s = (case s of (r, h) \<Rightarrow>
     let (r1, h1) =
       (if r_hook r = rn \<and> rprev h rn = rn \<and> rnext h rn = rn
        then (r\<lparr>r_hook := 0\<rparr>, h)
        else let r' = (if r_hook r = rn then r\<lparr>r_hook := rnext h rn\<rparr> else r);
                 ha = set_rn_next (rprev h rn) (rnext h rn) h;
                 hb = set_rn_prev (rnext ha rn) (rprev ha rn) ha
             in (r', hb))
     in (r1\<lparr>r_nodes := r_nodes r1 - 1\<rparr>, h1))"

definition pth_ring_prepend :: "nat \<Rightarrow> ring \<Rightarrow> ring" where
  "pth_ring_prepend rn s = (case s of (r, h) \<Rightarrow>
     let r1 = r\<lparr>r_hook := rn\<rparr>;
         h1 =
           (if r_hook r1 = 0 then set_rn_prev rn rn (set_rn_next rn rn h)
            else let ha = set_rn_next rn (r_hook r1) h;
                     hb = set_rn_prev rn (rprev ha (r_hook r1)) ha;
                     hc = set_rn_prev (rnext hb rn) rn hb
                 in set_rn_next (rprev hc rn) rn hc)
     in (r1\<lparr>r_nodes := r_nodes r1 + 1\<rparr>, h1))"

definition pth_ring_append :: "nat \<Rightarrow> ring \<Rightarrow> ring" where
  "pth_ring_append rn s = (case s of (r, h) \<Rightarrow>
     let (r1, h1) =
       (if r_hook r = 0 then (r\<lparr>r_hook := rn\<rparr>, set_rn_prev rn rn (set_rn_next rn rn h))
        else let ha = set_rn_next rn (r_hook r) h;
                 hb = set_rn_prev rn (rprev ha (r_hook r)) ha;
                 hc = set_rn_prev (rnext hb rn) rn hb
             in (r, set_rn_next (rprev hc rn) rn hc))
     in (r1\<lparr>r_nodes := r_nodes r1 + 1\<rparr>, h1))"

definition pth_ring_insert :: "nat \<Rightarrow> ring \<Rightarrow> ring" where
  "pth_ring_insert rn s = pth_ring_append rn s"

definition pth_ring_push :: "nat \<Rightarrow> ring \<Rightarrow> ring" where
  "pth_ring_push rn s = pth_ring_prepend rn s"

definition pth_ring_pop :: "ring \<Rightarrow> nat \<times> ring" where
  "pth_ring_pop s =
     (let rn = pth_ring_first (fst s) in (rn, if rn \<noteq> 0 then pth_ring_delete rn s else s))"

definition pth_ring_favorite :: "nat \<Rightarrow> ring \<Rightarrow> bool \<times> ring" where
  "pth_ring_favorite rn s =
     (if r_hook (fst s) = 0 then (False, s)
      else if r_hook (fst s) = rn then (True, s)
      else (True, pth_ring_prepend rn (pth_ring_delete rn s)))"

definition pth_ring_enqueue :: "nat \<Rightarrow> ring \<Rightarrow> ring" where
  "pth_ring_enqueue rn s = pth_ring_prepend rn s"

definition pth_ring_dequeue :: "ring \<Rightarrow> nat \<times> ring" where
  "pth_ring_dequeue s =
     (let rn = pth_ring_last s in (rn, if rn \<noteq> 0 then pth_ring_delete rn s else s))"

text \<open>The loop of \<open>pth_ring_contains\<close>; \<open>None\<close> if it does not end.\<close>

partial_function (option) ring_search :: "rheap \<Rightarrow> nat \<Rightarrow> nat \<Rightarrow> nat \<Rightarrow> bool option" where
  "ring_search h hook rns rn =
     (if rn = rns then Some True
      else if rnext h rn \<noteq> hook then ring_search h hook rns (rnext h rn)
      else Some False)"

definition pth_ring_contains :: "nat \<Rightarrow> ring \<Rightarrow> bool option" where
  "pth_ring_contains rns s =
     (if r_hook (fst s) \<noteq> 0 then ring_search (snd s) (r_hook (fst s)) rns (r_hook (fst s))
      else Some False)"

subsection \<open>What a ring holds\<close>

definition ring_rep :: "ring \<Rightarrow> nat list \<Rightarrow> bool" where
  "ring_rep s xs \<longleftrightarrow> (case s of (r, h) \<Rightarrow>
     (case xs of [] \<Rightarrow> r_hook r = 0 | a # _ \<Rightarrow> r_hook r = a \<and> dcycle (rnext h) (rprev h) xs)
     \<and> 0 \<notin> set xs \<and> counts (r_nodes r) (length xs))"

lemma ring_rep_init: "ring_rep (pth_ring_init, h) []"
  by (simp add: ring_rep_def pth_ring_init_def)

lemma ring_rep_Nil: "ring_rep s xs \<Longrightarrow> r_hook (fst s) = 0 \<longleftrightarrow> xs = []"
  by (cases xs) (auto simp: ring_rep_def split: prod.splits)

lemma ring_rep_cycle: "ring_rep s xs \<Longrightarrow> xs \<noteq> [] \<Longrightarrow> dcycle (rnext (snd s)) (rprev (snd s)) xs"
  by (cases xs) (auto simp: ring_rep_def split: prod.splits)

lemma ring_rep_hook: "ring_rep s (a # xs) \<Longrightarrow> r_hook (fst s) = a \<and> a \<noteq> 0"
  by (auto simp: ring_rep_def split: prod.splits)

lemma ring_rep_distinct: "ring_rep s xs \<Longrightarrow> distinct xs"
  using dcycle_distinct [OF ring_rep_cycle, of s xs] by (cases "xs = []") auto

lemma ring_rep_count: "ring_rep s xs \<Longrightarrow> counts (r_nodes (fst s)) (length xs)"
  by (auto simp: ring_rep_def split: prod.splits)

lemma ring_append_rep:
  assumes rep: "ring_rep s xs" and n: "n \<noteq> 0" "n \<notin> set xs" and fits: "Suc (length xs) < 2 ^ 32"
  shows "ring_rep (pth_ring_append n s) (xs @ [n])"
proof (cases xs)
  case Nil
  with rep n fits show ?thesis
    by (auto simp: ring_rep_def pth_ring_append_def heap_simps intro!: counts_Suc [of _ 0, simplified]
        split: prod.splits)
next
  case (Cons a ys)
  obtain r h where s: "s = (r, h)" by (cases s)
  have c: "dcycle (rnext h) (rprev h) (a # ys)" using ring_rep_cycle [OF rep] Cons s by simp
  have hook: "r_hook r = a" "a \<noteq> 0" using ring_rep_hook rep Cons s by fastforce+
  have an: "a \<noteq> n" using n Cons by auto
  let ?h = "snd (pth_ring_append n s)"
  have "rnext ?h = (rnext h)(n := a, rprev h a := n)" "rprev ?h = (rprev h)(n := rprev h a, a := n)"
    using hook an by (simp_all add: s pth_ring_append_def heap_simps Let_def)
  with dcycle_insert_before [OF c, of n] n Cons
  have "dcycle (rnext ?h) (rprev ?h) (a # ys @ [n])" by simp
  moreover have "r_hook (fst (pth_ring_append n s)) = a"
    "r_nodes (fst (pth_ring_append n s)) = r_nodes r + 1"
    using hook by (simp_all add: s pth_ring_append_def Let_def)
  moreover have "counts (r_nodes r + 1) (length (xs @ [n]))"
    using counts_Suc [OF ring_rep_count [OF rep] fits] by (simp add: s)
  moreover have "0 \<notin> set xs" using rep s by (simp add: ring_rep_def)
  ultimately show ?thesis using Cons n by (auto simp: ring_rep_def split: prod.splits)
qed

lemma ring_delete_cells:
  assumes "\<not> (r_hook r = n \<and> rprev h n = n \<and> rnext h n = n)" and "rprev h n \<noteq> n"
  shows "rnext (snd (pth_ring_delete n (r, h))) = (rnext h)(rprev h n := rnext h n)"
    and "rprev (snd (pth_ring_delete n (r, h))) = (rprev h)(rnext h n := rprev h n)"
    and "fst (pth_ring_delete n (r, h)) =
      r\<lparr>r_hook := if r_hook r = n then rnext h n else r_hook r, r_nodes := r_nodes r - 1\<rparr>"
  using assms by (auto simp: pth_ring_delete_def heap_simps Let_def)

lemma ring_delete_rep:
  assumes rep: "ring_rep s xs" and n: "n \<in> set xs"
  shows "ring_rep (pth_ring_delete n s) (remove1 n xs)"
proof -
  obtain r h where s: "s = (r, h)" by (cases s)
  have c: "dcycle (rnext h) (rprev h) xs" using ring_rep_cycle [OF rep] n s by (cases xs) auto
  have z: "0 \<notin> set xs" using rep s by (simp add: ring_rep_def)
  have pos: "0 < length xs" using n by (cases xs) auto
  have cnt: "counts (r_nodes r - 1) (length (remove1 n xs))"
    using counts_pred [OF ring_rep_count [OF rep] pos] n by (simp add: s length_remove1)
  obtain us ws where sp: "xs = us @ n # ws" using n by (auto simp: in_set_conv_decomp)
  have "distinct xs" by (rule ring_rep_distinct [OF rep])
  with sp consider "xs = [n]" | v vs where "xs = n # v # vs"
    | a us vs where "xs = a # us @ n # vs" "a \<noteq> n"
    by (cases us; cases ws) auto
  then show ?thesis
  proof cases
    case 1
    with c have "rnext h n = n" "rprev h n = n" by auto
    with 1 rep cnt show ?thesis by (simp add: s ring_rep_def pth_ring_delete_def)
  next
    case 2
    have c': "dcycle (rnext h) (rprev h) (v # vs @ n # [])"
      using c dcycle_rotate [of "rnext h" "rprev h" "[n]" "v # vs"] 2 by simp
    have d: "n \<noteq> last (v # vs)" "rprev h n = last (v # vs)" "rnext h n = v"
      using ring_rep_distinct [OF rep] dcycle_prev [of _ _ n "v # vs"] dcycle_next [of _ _ n "v # vs"]
        c 2 last_in_set [of "v # vs"] by force+
    have hook: "r_hook r = n" using ring_rep_hook rep 2 s by fastforce
    note cells = ring_delete_cells [of r n h]
    have "dcycle ((rnext h)(rprev h n := rnext h n)) ((rprev h)(rnext h n := rprev h n)) (v # vs)"
      using dcycle_remove [OF c'] by simp
    with cells d hook cnt z 2 show ?thesis
      by (auto simp: s ring_rep_def split: prod.splits)
  next
    case 3
    have d: "distinct xs" by (rule ring_rep_distinct [OF rep])
    have p: "rprev h n = last (a # us)"
      using dcycle_prev_at [of "rnext h" "rprev h" "a # us" n vs] c 3 by (auto split: if_splits)
    then have "rprev h n \<noteq> n" using d 3 last_in_set [of "a # us"] by (auto split: if_splits)
    note cells = ring_delete_cells [of r n h, OF _ this]
    have hook: "r_hook r = a" using ring_rep_hook rep 3 s by fastforce
    have "dcycle ((rnext h)(rprev h n := rnext h n)) ((rprev h)(rnext h n := rprev h n)) (a # us @ vs)"
      using dcycle_remove [of "rnext h" "rprev h" a us n vs] c 3 by simp
    moreover have "remove1 n xs = a # us @ vs" using 3 d by (simp add: remove1_append)
    ultimately show ?thesis
      using cells hook cnt z 3 \<open>rprev h n \<noteq> n\<close> by (auto simp: s ring_rep_def split: prod.splits)
  qed
qed

lemma ring_insert_after_rep:
  assumes rep: "ring_rep s (us @ a # vs)" and n: "n \<noteq> 0" "n \<notin> set (us @ a # vs)"
    and fits: "Suc (length (us @ a # vs)) < 2 ^ 32"
  shows "ring_rep (pth_ring_insert_after a n s) (us @ a # n # vs)"
proof -
  obtain r h where s: "s = (r, h)" by (cases s)
  have c: "dcycle (rnext h) (rprev h) (us @ a # vs)" using ring_rep_cycle [OF rep] s by simp
  let ?h = "snd (pth_ring_insert_after a n s)"
  have "rnext ?h = (rnext h)(n := rnext h a, a := n)" "rprev ?h = (rprev h)(n := a, rnext h a := n)"
    using n by (auto simp: s pth_ring_insert_after_def heap_simps Let_def)
  with dcycle_insert_after [OF dcycle_at [OF c], of n] n
  have "dcycle (rnext ?h) (rprev ?h) ((a # n # vs) @ us)" by simp
  then have "dcycle (rnext ?h) (rprev ?h) (us @ a # n # vs)" by (subst dcycle_rotate) simp
  moreover have "counts (r_nodes r + 1) (Suc (length (us @ a # vs)))"
    using counts_Suc [OF ring_rep_count [OF rep] fits] by (simp add: s)
  ultimately show ?thesis using rep n
    by (cases us) (auto simp: s ring_rep_def pth_ring_insert_after_def Let_def)
qed

text \<open>Before the hook is at the end: the hook does not move.\<close>

lemma ring_insert_before_rep:
  assumes rep: "ring_rep s (us @ a # vs)" and n: "n \<noteq> 0" "n \<notin> set (us @ a # vs)"
    and fits: "Suc (length (us @ a # vs)) < 2 ^ 32"
  shows "ring_rep (pth_ring_insert_before a n s)
           (if us = [] then a # vs @ [n] else us @ n # a # vs)"
proof -
  obtain r h where s: "s = (r, h)" by (cases s)
  have c: "dcycle (rnext h) (rprev h) (us @ a # vs)" using ring_rep_cycle [OF rep] s by simp
  let ?h = "snd (pth_ring_insert_before a n s)"
  have "rnext ?h = (rnext h)(n := a, rprev h a := n)" "rprev ?h = (rprev h)(n := rprev h a, a := n)"
    using n by (auto simp: s pth_ring_insert_before_def heap_simps Let_def)
  with dcycle_insert_before [OF dcycle_at [OF c], of n] n
  have d: "dcycle (rnext ?h) (rprev ?h) ((a # vs) @ (us @ [n]))" by simp
  then have "dcycle (rnext ?h) (rprev ?h) (us @ n # a # vs)" by (subst (asm) dcycle_rotate) simp
  moreover have "counts (r_nodes r + 1) (Suc (length (us @ a # vs)))"
    using counts_Suc [OF ring_rep_count [OF rep] fits] by (simp add: s)
  ultimately show ?thesis using rep n d
    by (cases us) (auto simp: s ring_rep_def pth_ring_insert_before_def Let_def)
qed

lemma ring_pop_rep:
  assumes "ring_rep s xs"
  shows "fst (pth_ring_pop s) = (case xs of [] \<Rightarrow> 0 | a # _ \<Rightarrow> a)"
    and "ring_rep (snd (pth_ring_pop s)) (tl xs)"
proof -
  show "fst (pth_ring_pop s) = (case xs of [] \<Rightarrow> 0 | a # _ \<Rightarrow> a)"
    using assms by (cases xs) (auto simp: pth_ring_pop_def pth_ring_first_def Let_def
        dest: ring_rep_hook ring_rep_Nil)
  show "ring_rep (snd (pth_ring_pop s)) (tl xs)"
  proof (cases xs)
    case Nil
    with assms ring_rep_Nil [OF assms] show ?thesis
      by (simp add: pth_ring_pop_def pth_ring_first_def)
  next
    case (Cons a ys)
    with ring_delete_rep [OF assms, of a] ring_rep_hook [of s a ys] assms show ?thesis
      by (simp add: pth_ring_pop_def pth_ring_first_def)
  qed
qed

lemma ring_last_rep:
  assumes "ring_rep s xs"
  shows "pth_ring_last s = (if xs = [] then 0 else last xs)"
proof (cases xs)
  case Nil
  with ring_rep_Nil [OF assms] show ?thesis by (cases s) (simp add: pth_ring_last_def)
next
  case (Cons a ys)
  with dcycle_prev [of _ _ a ys] ring_rep_cycle [OF assms] ring_rep_hook [of s a ys] assms
  show ?thesis by (auto simp: pth_ring_last_def split: prod.splits)
qed

lemma remove1_last: "distinct xs \<Longrightarrow> xs \<noteq> [] \<Longrightarrow> remove1 (last xs) xs = butlast xs"
  by (metis append_butlast_last_id append_Nil2 distinct_append disjoint_iff in_set_conv_decomp
      remove1_split list.set_intros(1))

lemma ring_dequeue_rep:
  assumes "ring_rep s xs"
  shows "fst (pth_ring_dequeue s) = (if xs = [] then 0 else last xs)"
    and "ring_rep (snd (pth_ring_dequeue s)) (butlast xs)"
proof -
  have "0 \<notin> set xs" using assms by (auto simp: ring_rep_def)
  then have nz: "xs \<noteq> [] \<Longrightarrow> last xs \<noteq> 0" "xs \<noteq> [] \<Longrightarrow> last xs \<in> set xs"
    using last_in_set [of xs] by metis+
  show "fst (pth_ring_dequeue s) = (if xs = [] then 0 else last xs)"
    using ring_last_rep [OF assms] by (simp add: pth_ring_dequeue_def Let_def)
  show "ring_rep (snd (pth_ring_dequeue s)) (butlast xs)"
    using ring_last_rep [OF assms] ring_delete_rep [OF assms nz(2)] nz assms
      remove1_last [OF ring_rep_distinct [OF assms]]
    by (auto simp: pth_ring_dequeue_def Let_def)
qed

subsection \<open>Searching and walking\<close>

lemma ring_search_suffix:
  "dcycle (rnext h) (rprev h) (a # us @ x # vs) \<Longrightarrow> ring_search h a n x = Some (n \<in> set (x # vs))"
proof (induction vs arbitrary: us x)
  case Nil
  from dcycle_next_at [of "rnext h" "rprev h" "a # us" x "[]"] Nil show ?case
    by (subst ring_search.simps) auto
next
  case (Cons y vs)
  have nx: "rnext h x = y"
    using dcycle_next_at [of "rnext h" "rprev h" "a # us" x "y # vs"] Cons.prems by simp
  have "y \<noteq> a" using dcycle_distinct [OF Cons.prems] by auto
  with Cons.IH [of "us @ [x]" y] Cons.prems nx show ?case
    by (subst ring_search.simps) auto
qed

lemma ring_contains_iff:
  assumes "ring_rep s xs"
  shows "pth_ring_contains n s = Some (n \<in> set xs)"
proof (cases xs)
  case Nil
  with ring_rep_Nil [OF assms] show ?thesis by (simp add: pth_ring_contains_def)
next
  case (Cons a ys)
  have c: "dcycle (rnext (snd s)) (rprev (snd s)) (a # ys)" using ring_rep_cycle [OF assms] Cons by simp
  have hook: "r_hook (fst s) = a" "a \<noteq> 0" using ring_rep_hook assms Cons by blast+
  show ?thesis
  proof (cases ys)
    case Nil
    with c hook Cons show ?thesis by (auto simp: pth_ring_contains_def ring_search.simps [of _ _ _ a])
  next
    case (Cons y zs)
    have "rnext (snd s) a = y" "y \<noteq> a" using c Cons by auto
    with ring_search_suffix [of "snd s" a "[]" y zs n] c hook Cons \<open>xs = a # ys\<close> show ?thesis
      by (auto simp: pth_ring_contains_def ring_search.simps [of _ _ _ a])
  qed
qed

definition ptr_opt :: "nat \<Rightarrow> nat option" where
  "ptr_opt p = (if p = 0 then None else Some p)"

interpretation rw: walkable ring_rep "\<lambda>s. ptr_opt (pth_ring_first (fst s))"
  "\<lambda>s n. ptr_opt (pth_ring_next s n)"
proof
  fix s xs assume rep: "ring_rep s xs"
  then show "ptr_opt (pth_ring_first (fst s)) = head_opt xs"
    using ring_rep_Nil [OF rep] ring_rep_hook [of s]
    by (cases xs) (auto simp: ptr_opt_def pth_ring_first_def)
next
  fix s xs n ys assume rep: "ring_rep s (xs @ n # ys)"
  have c: "dcycle (rnext (snd s)) (rprev (snd s)) (xs @ n # ys)" using ring_rep_cycle [OF rep] by simp
  have d: "distinct (xs @ n # ys)" and z: "0 \<notin> set (xs @ n # ys)"
    using ring_rep_distinct [OF rep] rep by (auto simp: ring_rep_def split: prod.splits)
  have hook: "r_hook (fst s) = hd (xs @ [n])"
    using ring_rep_hook [of s] rep by (cases xs) auto
  show "ptr_opt (pth_ring_next s n) = head_opt ys"
    using dcycle_next_at [OF c] hook d z
    by (cases ys; cases xs) (auto simp: ptr_opt_def pth_ring_next_def split: prod.splits)
qed

subsection \<open>The contract of the rings\<close>

datatype ring_op =
    RAppend nat | RDelete nat | RPop | RDequeue | RInsertAfter nat nat | RInsertBefore nat nat

fun ring_step :: "ring_op \<Rightarrow> ring \<Rightarrow> ring option" where
  "ring_step (RAppend n) s = Some (pth_ring_append n s)"
| "ring_step (RDelete n) s = Some (pth_ring_delete n s)"
| "ring_step RPop s = Some (snd (pth_ring_pop s))"
| "ring_step RDequeue s = Some (snd (pth_ring_dequeue s))"
| "ring_step (RInsertAfter a n) s = Some (pth_ring_insert_after a n s)"
| "ring_step (RInsertBefore a n) s = Some (pth_ring_insert_before a n s)"

fun insert_next_to :: "bool \<Rightarrow> nat \<Rightarrow> nat \<Rightarrow> nat list \<Rightarrow> nat list" where
  "insert_next_to after a n [] = []"
| "insert_next_to after a n (x # xs) =
     (if x = a then (if after then a # n # xs else n # a # xs) else x # insert_next_to after a n xs)"

lemma insert_next_to_split:
  "a \<notin> set us \<Longrightarrow> insert_next_to after a n (us @ a # vs) =
     us @ (if after then a # n # vs else n # a # vs)"
  by (induction us) auto

fun ring_spec :: "ring_op \<Rightarrow> nat list \<Rightarrow> nat list" where
  "ring_spec (RAppend n) xs = xs @ [n]"
| "ring_spec (RDelete n) xs = remove1 n xs"
| "ring_spec RPop xs = tl xs"
| "ring_spec RDequeue xs = butlast xs"
| "ring_spec (RInsertAfter a n) xs = insert_next_to True a n xs"
| "ring_spec (RInsertBefore a n) xs =
     (if hd xs = a then xs @ [n] else insert_next_to False a n xs)"

fun ring_ok :: "ring_op \<Rightarrow> nat list \<Rightarrow> bool" where
  "ring_ok (RAppend n) xs \<longleftrightarrow> n \<noteq> 0 \<and> n \<notin> set xs \<and> Suc (length xs) < 2 ^ 32"
| "ring_ok (RDelete n) xs \<longleftrightarrow> n \<in> set xs"
| "ring_ok RPop xs \<longleftrightarrow> True"
| "ring_ok RDequeue xs \<longleftrightarrow> True"
| "ring_ok (RInsertAfter a n) xs \<longleftrightarrow> a \<in> set xs \<and> n \<noteq> 0 \<and> n \<notin> set xs \<and> Suc (length xs) < 2 ^ 32"
| "ring_ok (RInsertBefore a n) xs \<longleftrightarrow> a \<in> set xs \<and> n \<noteq> 0 \<and> n \<notin> set xs \<and> Suc (length xs) < 2 ^ 32"

interpretation rc: container ring_rep ring_step ring_spec ring_ok
proof
  fix s xs op assume rep: "ring_rep s xs" and ok: "ring_ok op xs"
  have d: "distinct xs" by (rule ring_rep_distinct [OF rep])
  show "\<exists>s'. ring_step op s = Some s' \<and> ring_rep s' (ring_spec op xs)"
  proof (cases op)
    case (RInsertAfter a n)
    with ok obtain us vs where xs: "xs = us @ a # vs" "a \<notin> set us"
      by (metis ring_ok.simps(5) split_list_first)
    with ring_insert_after_rep [of s us a vs n] rep ok RInsertAfter show ?thesis
      by (simp add: insert_next_to_split)
  next
    case (RInsertBefore a n)
    with ok obtain us vs where xs: "xs = us @ a # vs" "a \<notin> set us"
      by (metis ring_ok.simps(6) split_list_first)
    with ring_insert_before_rep [of s us a vs n] rep ok RInsertBefore d show ?thesis
      by (cases us) (auto simp: insert_next_to_split)
  qed (use rep ok ring_append_rep ring_delete_rep ring_pop_rep(2) ring_dequeue_rep(2) in auto)
qed

subsection \<open>What the operations leave alone\<close>

lemma ring_append_frame:
  assumes "ring_rep s xs" and "x \<notin> insert n (set xs)"
  shows "snd (pth_ring_append n s) x = snd s x"
proof (cases xs)
  case Nil
  with assms ring_rep_Nil [OF assms(1)] show ?thesis
    by (cases s) (simp add: pth_ring_append_def set_rn_next_def set_rn_prev_def)
next
  case (Cons a ys)
  obtain r h where s: "s = (r, h)" by (cases s)
  have hook: "r_hook r = a" "a \<noteq> 0" using ring_rep_hook [of s a ys] assms Cons s by auto
  have "rprev h a = last (a # ys)"
    using dcycle_prev [of _ _ a ys] ring_rep_cycle [OF assms(1)] Cons s by auto
  then have "rprev h a \<in> set xs" using Cons last_in_set [of "a # ys"] by (simp del: last.simps)
  with hook assms(2) Cons show ?thesis
    by (auto simp: s pth_ring_append_def set_rn_next_def set_rn_prev_def rnext_def rprev_def Let_def)
qed

lemma ring_delete_frame:
  assumes "ring_rep s xs" and "n \<in> set xs" and "x \<notin> set xs"
  shows "snd (pth_ring_delete n s) x = snd s x"
proof -
  obtain r h where s: "s = (r, h)" by (cases s)
  have c: "dcycle (rnext h) (rprev h) xs" using ring_rep_cycle [OF assms(1)] assms(2) s by (cases xs) auto
  obtain us vs where xs: "xs = us @ n # vs" using assms(2) by (auto simp: in_set_conv_decomp)
  have "rnext h n \<in> set xs" by (rule dcycle_next_mem [OF c assms(2)])
  moreover have "rprev h n \<in> set xs"
    using dcycle_prev_at [of "rnext h" "rprev h" us n vs] c xs last_in_set [of "n # vs @ us"] by auto
  ultimately show ?thesis using assms(2,3)
    by (auto simp: s pth_ring_delete_def set_rn_next_def set_rn_prev_def rnext_def rprev_def Let_def
        split: if_splits)
qed

lemma ring_rep_frame:
  "ring_rep (r, h) xs \<Longrightarrow> (\<And>x. x \<in> set xs \<Longrightarrow> h' x = h x) \<Longrightarrow> ring_rep (r, h') xs"
  using dcycle_cong [of xs "rnext h'" "rnext h" "rprev h'" "rprev h"]
  by (cases xs) (auto simp: ring_rep_def rnext_def rprev_def)

subsection \<open>Prepending\<close>

text \<open>
  \<open>pth_ring_prepend\<close> sets the hook first, so the node is linked to itself: whatever the
  ring held is no longer reached from the hook, while the node count has grown.
\<close>

lemma ring_prepend_result:
  assumes "n \<noteq> 0"
  shows "pth_ring_prepend n (r, h) = (r\<lparr>r_hook := n, r_nodes := r_nodes r + 1\<rparr>,
           h(n := \<lparr>rn_next = n, rn_prev = n, \<dots> = pth_ringnode_st.more (h n)\<rparr>))"
  using assms
  by (auto simp: pth_ring_prepend_def set_rn_next_def set_rn_prev_def rnext_def rprev_def Let_def
      fun_eq_iff intro!: pth_ringnode_st.equality)

subsection \<open>Properties\<close>

text \<open>
  C16.  The rings implement lists: any allowed sequence of appending, deleting, popping,
  dequeueing and inserting next to a node has the effect of the list operations, afterwards
  \<open>pth_ring_contains\<close> ends and answers membership, and the walk with
  \<open>pth_ring_first\<close> and \<open>pth_ring_next\<close> visits the nodes in order.
\<close>

theorem ring_refines:
  assumes "ring_rep s xs" and "ops_ok ring_ok ring_spec ops xs"
  shows "\<exists>s'. run_ops ring_step ops s = Some s' \<and> ring_rep s' (run_spec ring_spec ops xs)
     \<and> pth_ring_contains n s' = Some (n \<in> set (run_spec ring_spec ops xs))
     \<and> walk (length (run_spec ring_spec ops xs)) (\<lambda>n. ptr_opt (pth_ring_next s' n))
          (ptr_opt (pth_ring_first (fst s'))) = Some (run_spec ring_spec ops xs)"
proof -
  from rc.run_implements [OF assms] obtain s' where
    s': "run_ops ring_step ops s = Some s'" "ring_rep s' (run_spec ring_spec ops xs)" by blast
  with ring_contains_iff [OF s'(2)] rw.walk_visits_all [OF s'(2) order_refl] show ?thesis by blast
qed

theorem ring_refines_witness:
  "\<exists>s'. run_ops ring_step [RAppend 3, RAppend 5, RInsertAfter 3 4, RPop]
      (pth_ring_init, \<lambda>_. \<lparr>rn_next = 0, rn_prev = 0\<rparr>) = Some s'
   \<and> pth_ring_contains 4 s' = Some True"
  using ring_refines [OF ring_rep_init, of "[RAppend 3, RAppend 5, RInsertAfter 3 4, RPop]"
      "\<lambda>_. \<lparr>rn_next = 0, rn_prev = 0\<rparr>" 4] by auto

text \<open>
  \<open>pth_ring_prepend\<close>, and with it \<open>pth_ring_push\<close>, \<open>pth_ring_enqueue\<close> and
  \<open>pth_ring_favorite\<close>, loses the ring: after prepending to a ring of any number of nodes
  the walk visits the new node only, although the count is one larger than before.
\<close>

theorem ring_prepend_loses_ring:
  assumes "ring_rep s xs" and "n \<noteq> 0" and "n \<notin> set xs" and "Suc (length xs) < 2 ^ 32"
  shows "unat (pth_ring_elements (fst (pth_ring_prepend n s))) = Suc (length xs)
     \<and> walk 1 (\<lambda>m. ptr_opt (pth_ring_next (pth_ring_prepend n s) m))
          (ptr_opt (pth_ring_first (fst (pth_ring_prepend n s)))) = Some [n]"
proof -
  obtain r h where s: "s = (r, h)" by (cases s)
  have "unat (r_nodes r + 1) = Suc (length xs)"
    using counts_unat [OF counts_Suc [OF ring_rep_count [OF assms(1)] assms(4)]] by (simp add: s)
  then show ?thesis
    using assms(2) by (simp add: s ring_prepend_result pth_ring_elements_def pth_ring_first_def
        pth_ring_next_def rnext_def ptr_opt_def)
qed

theorem ring_prepend_loses_ring_witness:
  "walk 1 (\<lambda>m. ptr_opt (pth_ring_next (pth_ring_prepend 5
        (pth_ring_append 3 (pth_ring_init, \<lambda>_. \<lparr>rn_next = 0, rn_prev = 0\<rparr>))) m))
      (ptr_opt (pth_ring_first (fst (pth_ring_prepend 5
        (pth_ring_append 3 (pth_ring_init, \<lambda>_. \<lparr>rn_next = 0, rn_prev = 0\<rparr>)))))) = Some [5]"
proof -
  have "ring_rep (pth_ring_append 3 (pth_ring_init, \<lambda>_. \<lparr>rn_next = 0, rn_prev = 0\<rparr>)) [3]"
    using ring_append_rep [OF ring_rep_init, of 3] by simp
  from ring_prepend_loses_ring [OF this, of 5] show ?thesis by simp
qed

end
