(* ===== verification/Msgport.thy ===== *)
theory Msgport
  imports Ring
begin

text \<open>
  pth_msg.c: message ports.  The ring of all ports and the ring of pending messages of each
  port share one heap of ring nodes: \<open>mp_node\<close> and \<open>m_head\<close> are the first members
  of their structures, so the address of a port or message is the address of its ring node.

  \<open>mp_rep w ps M\<close>: the ports \<open>ps\<close> exist, and \<open>M p\<close> are the messages pending on
  \<open>p\<close>.  Shown: a port is a FIFO, \<open>pth_msgport_find\<close> returns the first port with the
  name, and \<open>pth_msgport_destroy\<close> returns every pending message to its reply port,
  unless one of them is to be replied to the very port that is destroyed.
\<close>

record pth_msgport_st =
  mp_name :: string
  mp_tid :: nat
  mp_queue :: pth_ring_st

record mpworld =
  rnodes :: rheap
  ports :: "nat \<Rightarrow> pth_msgport_st"
  m_replyport :: "nat \<Rightarrow> nat"
  pth_msgport :: pth_ring_st

definition set_queue :: "nat \<Rightarrow> ring \<Rightarrow> mpworld \<Rightarrow> mpworld" where
  "set_queue mp s w =
     w\<lparr>rnodes := snd s, ports := (ports w)(mp := (ports w mp)\<lparr>mp_queue := fst s\<rparr>)\<rparr>"

definition queue_of :: "nat \<Rightarrow> mpworld \<Rightarrow> ring" where
  "queue_of mp w = (mp_queue (ports w mp), rnodes w)"

text \<open>
  \<open>fresh\<close> is what \<open>pth_malloc\<close> returns, \<open>0\<close> when it fails; \<open>current\<close> the
  running thread.
\<close>

definition pth_msgport_create :: "string option \<Rightarrow> nat \<Rightarrow> nat \<Rightarrow> mpworld \<Rightarrow> nat \<times> mpworld" where
  "pth_msgport_create name fresh current w = (case name of
      None \<Rightarrow> (0, w)
    | Some s \<Rightarrow>
        if fresh = 0 then (0, w)
        else let w1 = w\<lparr>ports := (ports w)(fresh :=
                          \<lparr>mp_name = s, mp_tid = current, mp_queue = pth_ring_init\<rparr>)\<rparr>;
                 s1 = pth_ring_append fresh (pth_msgport w1, rnodes w1)
             in (fresh, w1\<lparr>pth_msgport := fst s1, rnodes := snd s1\<rparr>))"

definition pth_msgport_pending :: "nat \<Rightarrow> mpworld \<Rightarrow> int" where
  "pth_msgport_pending mp w =
     (if mp = 0 then -1 else sint (pth_ring_elements (mp_queue (ports w mp))))"

definition pth_msgport_put :: "nat \<Rightarrow> nat \<Rightarrow> mpworld \<Rightarrow> bool \<times> mpworld" where
  "pth_msgport_put mp m w =
     (if mp = 0 then (False, w)
      else (True, set_queue mp (pth_ring_append m (queue_of mp w)) w))"

definition pth_msgport_get :: "nat \<Rightarrow> mpworld \<Rightarrow> nat \<times> mpworld" where
  "pth_msgport_get mp w =
     (if mp = 0 then (0, w)
      else let (m, s) = pth_ring_pop (queue_of mp w) in (m, set_queue mp s w))"

definition pth_msgport_reply :: "nat \<Rightarrow> mpworld \<Rightarrow> bool \<times> mpworld" where
  "pth_msgport_reply m w =
     (if m = 0 then (False, w) else pth_msgport_put (m_replyport w m) m w)"

text \<open>The loop that replies to all pending messages; \<open>None\<close> if it does not end.\<close>

partial_function (option) msgport_drain :: "nat \<Rightarrow> mpworld \<Rightarrow> mpworld option" where
  "msgport_drain mp w =
     (let (m, w1) = pth_msgport_get mp w
      in if m \<noteq> 0 then msgport_drain mp (snd (pth_msgport_reply m w1)) else Some w1)"

definition pth_msgport_destroy :: "nat \<Rightarrow> mpworld \<Rightarrow> mpworld option" where
  "pth_msgport_destroy mp w =
     (if mp = 0 then Some w
      else do { w1 \<leftarrow> msgport_drain mp w;
                let s = pth_ring_delete mp (pth_msgport w1, rnodes w1);
                Some (w1\<lparr>pth_msgport := fst s, rnodes := snd s\<rparr>) })"

partial_function (option) msgport_search :: "string \<Rightarrow> mpworld \<Rightarrow> nat \<Rightarrow> nat \<Rightarrow> nat option" where
  "msgport_search name w mpf mp =
     (if mp \<noteq> 0 then
        if mp_name (ports w mp) = name then Some mp
        else let mp' = pth_ring_next (pth_msgport w, rnodes w) mp
             in if mp' = mpf then Some 0 else msgport_search name w mpf mp'
      else Some 0)"

definition pth_msgport_find :: "string option \<Rightarrow> mpworld \<Rightarrow> nat option" where
  "pth_msgport_find name w = (case name of
      None \<Rightarrow> Some 0
    | Some s \<Rightarrow> let mp = pth_ring_first (pth_msgport w) in msgport_search s w mp mp)"

subsection \<open>What the ports hold\<close>

definition mp_rep :: "mpworld \<Rightarrow> nat list \<Rightarrow> (nat \<Rightarrow> nat list) \<Rightarrow> bool" where
  "mp_rep w ps M \<longleftrightarrow> ring_rep (pth_msgport w, rnodes w) ps
     \<and> (\<forall>p\<in>set ps. ring_rep (queue_of p w) (M p) \<and> set (M p) \<inter> set ps = {})
     \<and> (\<forall>p\<in>set ps. \<forall>q\<in>set ps. p \<noteq> q \<longrightarrow> set (M p) \<inter> set (M q) = {})"

lemma mp_rep_port: "mp_rep w ps M \<Longrightarrow> p \<in> set ps \<Longrightarrow> ring_rep (queue_of p w) (M p)"
  by (simp add: mp_rep_def)

lemma mp_rep_nonzero: "mp_rep w ps M \<Longrightarrow> p \<in> set ps \<Longrightarrow> p \<noteq> 0"
  by (auto simp: mp_rep_def ring_rep_def)

text \<open>
  An operation on the queue of \<open>p\<close> that changes no ring node outside \<open>X\<close>, a set
  disjoint from the other rings, leaves those rings as they are.
\<close>

lemma mp_rep_queue_changed:
  assumes rep: "mp_rep w ps M" and p: "p \<in> set ps" and new: "ring_rep s ys"
    and frame: "\<And>x. x \<notin> X \<Longrightarrow> snd s x = rnodes w x"
    and X: "set ys \<subseteq> X" "X \<inter> set ps = {}" "\<And>q. q \<in> set ps \<Longrightarrow> q \<noteq> p \<Longrightarrow> X \<inter> set (M q) = {}"
  shows "mp_rep (set_queue p s w) ps (M(p := ys))"
proof -
  have "ring_rep (pth_msgport w, snd s) ps"
    by (rule ring_rep_frame [of _ "rnodes w"]) (use rep X(2) frame in \<open>auto simp: mp_rep_def\<close>)
  moreover have "ring_rep (queue_of q (set_queue p s w)) ((M(p := ys)) q)" if q: "q \<in> set ps" for q
  proof (cases "q = p")
    case True
    with new show ?thesis by (simp add: queue_of_def set_queue_def)
  next
    case False
    have "ring_rep (mp_queue (ports w q), snd s) (M q)"
      by (rule ring_rep_frame [of _ "rnodes w"])
        (use rep q X(3) [OF q False] frame in \<open>auto simp: mp_rep_def queue_of_def\<close>)
    with False show ?thesis by (simp add: queue_of_def set_queue_def)
  qed
  moreover have "set ys \<inter> set ps = {}" "\<And>q. q \<in> set ps \<Longrightarrow> q \<noteq> p \<Longrightarrow> set ys \<inter> set (M q) = {}"
    using X by blast+
  ultimately show ?thesis
    using rep by (auto simp: mp_rep_def set_queue_def)
qed

text \<open>A message that is on no port and whose address is no port's.\<close>

definition free_msg :: "nat list \<Rightarrow> (nat \<Rightarrow> nat list) \<Rightarrow> nat \<Rightarrow> bool" where
  "free_msg ps M m \<longleftrightarrow> m \<noteq> 0 \<and> m \<notin> set ps \<and> (\<forall>p\<in>set ps. m \<notin> set (M p))"

lemma msgport_put_rep:
  assumes rep: "mp_rep w ps M" and p: "p \<in> set ps" and m: "free_msg ps M m"
    and fits: "Suc (length (M p)) < 2 ^ 32"
  shows "fst (pth_msgport_put p m w)"
    and "mp_rep (snd (pth_msgport_put p m w)) ps (M(p := M p @ [m]))"
    and "m_replyport (snd (pth_msgport_put p m w)) = m_replyport w"
proof -
  have nz: "p \<noteq> 0" by (rule mp_rep_nonzero [OF rep p])
  have r: "ring_rep (queue_of p w) (M p)" by (rule mp_rep_port [OF rep p])
  have mm: "m \<noteq> 0" "m \<notin> set (M p)" using m p by (auto simp: free_msg_def)
  have "mp_rep (set_queue p (pth_ring_append m (queue_of p w)) w) ps (M(p := M p @ [m]))"
  proof (rule mp_rep_queue_changed [OF rep p ring_append_rep [OF r mm fits]])
    show "snd (pth_ring_append m (queue_of p w)) x = rnodes w x" if "x \<notin> insert m (set (M p))" for x
      using ring_append_frame [OF r that] by (simp add: queue_of_def)
    show "insert m (set (M p)) \<inter> set ps = {}" using rep p m by (auto simp: mp_rep_def free_msg_def)
    show "insert m (set (M p)) \<inter> set (M q) = {}" if "q \<in> set ps" "q \<noteq> p" for q
      using rep p m that unfolding mp_rep_def free_msg_def by blast
  qed auto
  with nz show "fst (pth_msgport_put p m w)"
    "mp_rep (snd (pth_msgport_put p m w)) ps (M(p := M p @ [m]))"
    "m_replyport (snd (pth_msgport_put p m w)) = m_replyport w"
    by (simp_all add: pth_msgport_put_def set_queue_def)
qed

lemma msgport_get_rep:
  assumes rep: "mp_rep w ps M" and p: "p \<in> set ps"
  shows "fst (pth_msgport_get p w) = (case M p of [] \<Rightarrow> 0 | m # _ \<Rightarrow> m)"
    and "mp_rep (snd (pth_msgport_get p w)) ps (M(p := tl (M p)))"
    and "m_replyport (snd (pth_msgport_get p w)) = m_replyport w"
    and "M p = m # ms \<Longrightarrow> free_msg ps (M(p := tl (M p))) m"
proof -
  have nz: "p \<noteq> 0" by (rule mp_rep_nonzero [OF rep p])
  have r: "ring_rep (queue_of p w) (M p)" by (rule mp_rep_port [OF rep p])
  note pop = ring_pop_rep [OF r]
  have frame: "snd (snd (pth_ring_pop (queue_of p w))) x = rnodes w x" if "x \<notin> set (M p)" for x
  proof (cases "M p")
    case Nil
    with ring_rep_Nil [OF r] show ?thesis
      by (simp add: pth_ring_pop_def pth_ring_first_def queue_of_def)
  next
    case (Cons a ys)
    with ring_delete_frame [OF r _ that, of a] ring_rep_hook [of "queue_of p w" a ys] r
    show ?thesis by (simp add: pth_ring_pop_def pth_ring_first_def queue_of_def)
  qed
  have "mp_rep (set_queue p (snd (pth_ring_pop (queue_of p w))) w) ps (M(p := tl (M p)))"
  proof (rule mp_rep_queue_changed [OF rep p pop(2) frame])
    show "set (tl (M p)) \<subseteq> set (M p)" by (cases "M p") auto
    show "set (M p) \<inter> set ps = {}" using rep p by (simp add: mp_rep_def)
    show "set (M p) \<inter> set (M q) = {}" if "q \<in> set ps" "q \<noteq> p" for q
      using rep p that unfolding mp_rep_def by blast
  qed
  with pop(1) nz show "fst (pth_msgport_get p w) = (case M p of [] \<Rightarrow> 0 | m # _ \<Rightarrow> m)"
    "mp_rep (snd (pth_msgport_get p w)) ps (M(p := tl (M p)))"
    "m_replyport (snd (pth_msgport_get p w)) = m_replyport w"
    by (simp_all add: pth_msgport_get_def set_queue_def case_prod_beta Let_def)
  show "free_msg ps (M(p := tl (M p))) m" if "M p = m # ms"
  proof -
    have "m \<in> set (M p)" "m \<noteq> 0" "m \<notin> set ms"
      using that r ring_rep_distinct [OF r] by (auto simp: ring_rep_def split: prod.splits)
    with rep p that show ?thesis unfolding mp_rep_def free_msg_def by auto
  qed
qed

subsection \<open>Destroying a port\<close>

lemma msgport_drain_unfold:
  "msgport_drain p w = (let m = fst (pth_msgport_get p w); w1 = snd (pth_msgport_get p w)
     in if m \<noteq> 0 then msgport_drain p (snd (pth_msgport_reply m w1)) else Some w1)"
  by (subst msgport_drain.simps) (simp add: case_prod_beta Let_def)

text \<open>The messages \<open>ms\<close>, replied to one after the other.\<close>

definition replied :: "(nat \<Rightarrow> nat) \<Rightarrow> nat list \<Rightarrow> (nat \<Rightarrow> nat list) \<Rightarrow> nat \<Rightarrow> nat list" where
  "replied rp ms M q = M q @ filter (\<lambda>m. rp m = q) ms"

lemma msgport_reply_rep:
  assumes rep: "mp_rep w ps M" and m: "free_msg ps M m"
    and rp: "m_replyport w m = 0 \<or> m_replyport w m \<in> set ps"
    and fits: "\<And>q. q \<in> set ps \<Longrightarrow> Suc (length (M q)) < 2 ^ 32"
  shows "mp_rep (snd (pth_msgport_reply m w)) ps (\<lambda>q. if q \<in> set ps then replied (m_replyport w) [m] M q else M q)"
    and "m_replyport (snd (pth_msgport_reply m w)) = m_replyport w"
proof -
  let ?r = "m_replyport w m"
  have m0: "m \<noteq> 0" using m by (simp add: free_msg_def)
  have z: "0 \<notin> set ps" using mp_rep_nonzero [OF rep] by blast
  have "mp_rep (snd (pth_msgport_reply m w)) ps (\<lambda>q. if q \<in> set ps then replied (m_replyport w) [m] M q else M q)
      \<and> m_replyport (snd (pth_msgport_reply m w)) = m_replyport w"
  proof (cases "?r = 0")
    case True
    with z have "(\<lambda>q. if q \<in> set ps then replied (m_replyport w) [m] M q else M q) = M"
      by (auto simp: replied_def)
    with True m0 rep show ?thesis by (simp add: pth_msgport_reply_def pth_msgport_put_def)
  next
    case False
    with rp have r: "?r \<in> set ps" by simp
    then have "(\<lambda>q. if q \<in> set ps then replied (m_replyport w) [m] M q else M q) = M(?r := M ?r @ [m])"
      by (auto simp: replied_def)
    with msgport_put_rep [OF rep r m fits [OF r]] m0 show ?thesis
      by (simp add: pth_msgport_reply_def)
  qed
  then show "mp_rep (snd (pth_msgport_reply m w)) ps (\<lambda>q. if q \<in> set ps then replied (m_replyport w) [m] M q else M q)"
    "m_replyport (snd (pth_msgport_reply m w)) = m_replyport w" by auto
qed

lemma mp_rep_cong:
  assumes "mp_rep w ps M" and "\<And>q. q \<in> set ps \<Longrightarrow> M q = M' q"
  shows "mp_rep w ps M'"
  using assms by (auto simp: mp_rep_def)

lemma free_msg_cong:
  "free_msg ps M m \<Longrightarrow> (\<And>q. q \<in> set ps \<Longrightarrow> M q = M' q) \<Longrightarrow> free_msg ps M' m"
  by (auto simp: free_msg_def)

lemma msgport_drain_rep:
  assumes "mp_rep w ps M" and "p \<in> set ps"
    and "\<And>m. m \<in> set (M p) \<Longrightarrow> m_replyport w m \<noteq> p \<and> (m_replyport w m = 0 \<or> m_replyport w m \<in> set ps)"
    and "\<And>q. q \<in> set ps \<Longrightarrow> length (M q) + length (M p) < 2 ^ 32"
  shows "\<exists>w'. msgport_drain p w = Some w'
     \<and> mp_rep w' ps (\<lambda>q. if q = p then [] else replied (m_replyport w) (M p) M q)
     \<and> m_replyport w' = m_replyport w"
  using assms
proof (induction "M p" arbitrary: w M)
  case Nil
  have Mp: "M p = []" using Nil.hyps by simp
  from msgport_get_rep(1-3) [OF Nil.prems(1,2)] Mp
  have g: "fst (pth_msgport_get p w) = 0" "mp_rep (snd (pth_msgport_get p w)) ps (M(p := []))"
    "m_replyport (snd (pth_msgport_get p w)) = m_replyport w" by simp_all
  then have "msgport_drain p w = Some (snd (pth_msgport_get p w))"
    by (subst msgport_drain_unfold) simp
  moreover have "mp_rep (snd (pth_msgport_get p w)) ps
      (\<lambda>q. if q = p then [] else replied (m_replyport w) (M p) M q)"
    by (rule mp_rep_cong [OF g(2)]) (simp add: Mp replied_def)
  ultimately show ?case using g(3) by blast
next
  case (Cons m ms)
  have Mp: "M p = m # ms" using Cons.hyps(2) by simp
  let ?w1 = "snd (pth_msgport_get p w)" and ?M1 = "M(p := ms)"
  from msgport_get_rep [OF Cons.prems(1,2)] Mp
  have g: "fst (pth_msgport_get p w) = m" "mp_rep ?w1 ps ?M1"
    "m_replyport ?w1 = m_replyport w" "free_msg ps ?M1 m" by auto
  have m0: "m \<noteq> 0" using g(4) by (simp add: free_msg_def)
  have rp: "m_replyport w m \<noteq> p" "m_replyport w m = 0 \<or> m_replyport w m \<in> set ps"
    using Cons.prems(3) [of m] Mp by auto
  let ?w2 = "snd (pth_msgport_reply m ?w1)"
  let ?M2 = "\<lambda>q. if q \<in> set ps then replied (m_replyport w) [m] ?M1 q else ?M1 q"
  have fits: "Suc (length (?M1 q)) < 2 ^ 32" if "q \<in> set ps" for q
    using Cons.prems(4) [OF that] Mp by (auto split: if_splits)
  have r: "mp_rep ?w2 ps ?M2" "m_replyport ?w2 = m_replyport w"
    using msgport_reply_rep [OF g(2,4), unfolded g(3), OF rp(2) fits] by auto
  have M2p: "?M2 p = ms" using rp(1) Cons.prems(2) by (simp add: replied_def)
  have "\<exists>w'. msgport_drain p ?w2 = Some w'
      \<and> mp_rep w' ps (\<lambda>q. if q = p then [] else replied (m_replyport ?w2) (?M2 p) ?M2 q)
      \<and> m_replyport w' = m_replyport ?w2"
  proof (rule Cons.hyps(1) [OF _ r(1) Cons.prems(2)])
    show "ms = ?M2 p" using M2p by simp
    show "m_replyport ?w2 a \<noteq> p \<and> (m_replyport ?w2 a = 0 \<or> m_replyport ?w2 a \<in> set ps)"
      if "a \<in> set (?M2 p)" for a
      using Cons.prems(3) [of a] that M2p Mp r(2) by simp
    show "length (?M2 q) + length (?M2 p) < 2 ^ 32" if "q \<in> set ps" for q
      using Cons.prems(4) [OF that] Cons.prems(4) [OF Cons.prems(2)] M2p Mp that
      by (auto simp: replied_def split: if_splits)
  qed
  then obtain w' where w': "msgport_drain p ?w2 = Some w'"
    "mp_rep w' ps (\<lambda>q. if q = p then [] else replied (m_replyport ?w2) (?M2 p) ?M2 q)"
    "m_replyport w' = m_replyport ?w2" by blast
  have "msgport_drain p w = Some w'"
    using w'(1) g(1) m0 by (subst msgport_drain_unfold) simp
  moreover have "mp_rep w' ps (\<lambda>q. if q = p then [] else replied (m_replyport w) (M p) M q)"
    by (rule mp_rep_cong [OF w'(2)]) (simp add: M2p Mp r(2) replied_def)
  ultimately show ?case using w'(3) r(2) by auto
qed

text \<open>
  If every pending message is to be replied to the port itself, the loop goes round for ever.
\<close>

definition self_reply :: "nat \<Rightarrow> mpworld \<Rightarrow> bool" where
  "self_reply p w \<longleftrightarrow> (\<exists>ps M. mp_rep w ps M \<and> p \<in> set ps \<and> M p \<noteq> []
     \<and> Suc (length (M p)) < 2 ^ 32 \<and> (\<forall>m\<in>set (M p). m_replyport w m = p))"

lemma self_reply_step:
  assumes "self_reply p w"
  shows "fst (pth_msgport_get p w) \<noteq> 0"
    and "self_reply p (snd (pth_msgport_reply (fst (pth_msgport_get p w)) (snd (pth_msgport_get p w))))"
proof -
  from assms obtain ps M m ms where rep: "mp_rep w ps M" and p: "p \<in> set ps" and Mp: "M p = m # ms"
    and fits: "Suc (length (M p)) < 2 ^ 32" and rp: "\<forall>m\<in>set (M p). m_replyport w m = p"
    unfolding self_reply_def by (metis list.exhaust)
  let ?w1 = "snd (pth_msgport_get p w)" and ?M1 = "M(p := ms)"
  from msgport_get_rep [OF rep p] Mp
  have g: "fst (pth_msgport_get p w) = m" "mp_rep ?w1 ps ?M1"
    "m_replyport ?w1 = m_replyport w" "free_msg ps ?M1 m" by auto
  then show nz: "fst (pth_msgport_get p w) \<noteq> 0" by (simp add: free_msg_def)
  let ?w2 = "snd (pth_msgport_put p m ?w1)"
  from msgport_put_rep [OF g(2) p g(4)] fits Mp
  have r: "mp_rep ?w2 ps (M(p := ms @ [m]))" "m_replyport ?w2 = m_replyport w"
    by (simp_all add: g(3))
  have "pth_msgport_reply m ?w1 = pth_msgport_put p m ?w1"
    using nz g(1,3) rp Mp by (simp add: pth_msgport_reply_def)
  moreover have "self_reply p ?w2"
    unfolding self_reply_def using r p fits Mp rp
    by (intro exI [of _ ps] exI [of _ "M(p := ms @ [m])"]) auto
  ultimately show "self_reply p (snd (pth_msgport_reply (fst (pth_msgport_get p w)) ?w1))"
    using g(1) by simp
qed

lemma msgport_drain_stuck: "msgport_drain p w = Some w' \<Longrightarrow> \<not> self_reply p w"
proof (rule msgport_drain.raw_induct [where P = "\<lambda>p w w'. \<not> self_reply p w"])
  fix drain mp v w'
  assume IH: "\<And>mp v w'. drain mp v = Some w' \<Longrightarrow> \<not> self_reply mp v"
    and body: "(let (m, w1) = pth_msgport_get mp v
      in if m \<noteq> 0 then drain mp (snd (pth_msgport_reply m w1)) else Some w1) = Some w'"
  show "\<not> self_reply mp v"
  proof
    assume st: "self_reply mp v"
    from body self_reply_step(1) [OF st]
    have "drain mp (snd (pth_msgport_reply (fst (pth_msgport_get mp v)) (snd (pth_msgport_get mp v)))) = Some w'"
      by (simp add: case_prod_beta Let_def)
    from IH [OF this] self_reply_step(2) [OF st] show False by blast
  qed
qed

lemma mp_rep_fewer:
  assumes rep: "mp_rep w ps M" and ring: "ring_rep (pth_msgport w', rnodes w') qs"
    and sub: "set qs \<subseteq> set ps" and queues: "\<And>q. q \<in> set ps \<Longrightarrow> ring_rep (queue_of q w') (M q)"
  shows "mp_rep w' qs M"
proof -
  have "set (M q) \<inter> set qs = {}" if "q \<in> set qs" for q
    using rep sub that unfolding mp_rep_def by blast
  moreover have "set (M p) \<inter> set (M q) = {}" if "p \<in> set qs" "q \<in> set qs" "p \<noteq> q" for p q
    using rep sub that unfolding mp_rep_def by blast
  ultimately show ?thesis using ring queues sub unfolding mp_rep_def by blast
qed

lemma msgport_destroy_rep:
  assumes rep: "mp_rep w ps M" and p: "p \<in> set ps"
    and rp: "\<And>m. m \<in> set (M p) \<Longrightarrow> m_replyport w m \<noteq> p \<and> (m_replyport w m = 0 \<or> m_replyport w m \<in> set ps)"
    and fits: "\<And>q. q \<in> set ps \<Longrightarrow> length (M q) + length (M p) < 2 ^ 32"
  shows "\<exists>w'. pth_msgport_destroy p w = Some w'
     \<and> mp_rep w' (remove1 p ps) (replied (m_replyport w) (M p) M)"
proof -
  from msgport_drain_rep [OF rep p rp fits] obtain w1 where
    w1: "msgport_drain p w = Some w1"
    "mp_rep w1 ps (\<lambda>q. if q = p then [] else replied (m_replyport w) (M p) M q)" by blast
  let ?M = "\<lambda>q. if q = p then [] else replied (m_replyport w) (M p) M q"
  have r: "ring_rep (pth_msgport w1, rnodes w1) ps" using w1(2) by (simp add: mp_rep_def)
  let ?s = "pth_ring_delete p (pth_msgport w1, rnodes w1)"
  let ?w = "w1\<lparr>pth_msgport := fst ?s, rnodes := snd ?s\<rparr>"
  have d: "distinct ps" by (rule ring_rep_distinct [OF r])
  have ring: "ring_rep (pth_msgport ?w, rnodes ?w) (remove1 p ps)"
    using ring_delete_rep [OF r p] by simp
  have queues: "ring_rep (queue_of q ?w) (?M q)" if q: "q \<in> set ps" for q
  proof -
    have old: "ring_rep (mp_queue (ports w1 q), rnodes w1) (?M q)" "set (?M q) \<inter> set ps = {}"
      using w1(2) q unfolding mp_rep_def queue_of_def by blast+
    have "snd ?s x = rnodes w1 x" if "x \<in> set (?M q)" for x
      using ring_delete_frame [OF r p, of x] old(2) that by auto
    with old(1) have "ring_rep (mp_queue (ports w1 q), snd ?s) (?M q)" by (rule ring_rep_frame)
    then show ?thesis by (simp add: queue_of_def)
  qed
  have "mp_rep ?w (remove1 p ps) ?M"
    by (rule mp_rep_fewer [OF w1(2) ring set_remove1_subset queues])
  then have "mp_rep ?w (remove1 p ps) (replied (m_replyport w) (M p) M)"
    by (rule mp_rep_cong) (use d in auto)
  with w1(1) mp_rep_nonzero [OF rep p] show ?thesis
    by (simp add: pth_msgport_destroy_def Let_def)
qed

subsection \<open>Creating and finding a port\<close>

lemma msgport_create_rep:
  assumes rep: "mp_rep w ps M" and f: "free_msg ps M p" and fits: "Suc (length ps) < 2 ^ 32"
  shows "fst (pth_msgport_create (Some name) p t w) = p"
    and "mp_rep (snd (pth_msgport_create (Some name) p t w)) (ps @ [p]) (M(p := []))"
    and "ports (snd (pth_msgport_create (Some name) p t w)) =
           (ports w)(p := \<lparr>mp_name = name, mp_tid = t, mp_queue = pth_ring_init\<rparr>)"
proof -
  have p: "p \<noteq> 0" "p \<notin> set ps" "\<And>q. q \<in> set ps \<Longrightarrow> p \<notin> set (M q)" using f by (auto simp: free_msg_def)
  let ?w = "snd (pth_msgport_create (Some name) p t w)"
  let ?s = "pth_ring_append p (pth_msgport w, rnodes w)"
  have w': "pth_msgport ?w = fst ?s" "rnodes ?w = snd ?s"
    "ports ?w = (ports w)(p := \<lparr>mp_name = name, mp_tid = t, mp_queue = pth_ring_init\<rparr>)"
    using p(1) by (simp_all add: pth_msgport_create_def Let_def)
  then show "ports ?w = (ports w)(p := \<lparr>mp_name = name, mp_tid = t, mp_queue = pth_ring_init\<rparr>)"
    "fst (pth_msgport_create (Some name) p t w) = p"
    using p(1) by (simp_all add: pth_msgport_create_def Let_def)
  have r: "ring_rep (pth_msgport w, rnodes w) ps" using rep by (simp add: mp_rep_def)
  have "ring_rep (queue_of q ?w) (M q)" if q: "q \<in> set ps" for q
  proof -
    have old: "ring_rep (mp_queue (ports w q), rnodes w) (M q)" "set (M q) \<inter> set ps = {}"
      using rep q unfolding mp_rep_def queue_of_def by blast+
    have "snd ?s x = rnodes w x" if "x \<in> set (M q)" for x
      using p(3) [OF q] ring_append_frame [OF r, of x p] old(2) that by auto
    with old(1) have "ring_rep (mp_queue (ports w q), snd ?s) (M q)" by (rule ring_rep_frame)
    with q p(2) show ?thesis by (auto simp: queue_of_def w')
  qed
  moreover have "queue_of p ?w = (pth_ring_init, snd ?s)" unfolding queue_of_def w' by simp
  then have "ring_rep (queue_of p ?w) []" using ring_rep_init by simp
  moreover have "ring_rep (pth_msgport ?w, rnodes ?w) (ps @ [p])"
    using ring_append_rep [OF r p(1,2) fits] by (simp add: w')
  ultimately show "mp_rep ?w (ps @ [p]) (M(p := []))"
    using rep p unfolding mp_rep_def by auto
qed

lemma msgport_search_suffix:
  assumes "ring_rep (pth_msgport w, rnodes w) (us @ x # vs)"
    and "us \<noteq> [] \<longrightarrow> hd us = f" "us = [] \<longrightarrow> x = f"
  shows "msgport_search name w f x =
           Some (case find (\<lambda>p. mp_name (ports w p) = name) (x # vs) of None \<Rightarrow> 0 | Some p \<Rightarrow> p)"
  using assms
proof (induction vs arbitrary: us x)
  case Nil
  have nx: "pth_ring_next (pth_msgport w, rnodes w) x = 0"
    using rw.next_holds [OF Nil.prems(1)] by (simp add: ptr_opt_def split: if_splits)
  have "x \<noteq> 0" using Nil.prems(1) by (auto simp: ring_rep_def)
  then show ?case
    using nx by (subst msgport_search.simps) (auto simp: Let_def msgport_search.simps [of _ _ _ 0])
next
  case (Cons y vs)
  have nx: "pth_ring_next (pth_msgport w, rnodes w) x = y"
    using rw.next_holds [OF Cons.prems(1)] by (simp add: ptr_opt_def split: if_splits)
  have "x \<noteq> 0" "y \<noteq> f"
    using Cons.prems ring_rep_distinct [OF Cons.prems(1)]
    by (auto simp: ring_rep_def)
  with nx Cons.IH [of "us @ [x]" y] Cons.prems show ?case
    by (subst msgport_search.simps) (auto simp: Let_def hd_append split: if_splits)
qed

lemma msgport_find_rep:
  assumes "ring_rep (pth_msgport w, rnodes w) ps"
  shows "pth_msgport_find (Some name) w =
           Some (case find (\<lambda>p. mp_name (ports w p) = name) ps of None \<Rightarrow> 0 | Some p \<Rightarrow> p)"
proof (cases ps)
  case Nil
  with ring_rep_Nil [OF assms] show ?thesis
    by (simp add: pth_msgport_find_def pth_ring_first_def msgport_search.simps)
next
  case (Cons a as)
  with msgport_search_suffix [of w "[]" a as a name] ring_rep_hook [of "(pth_msgport w, rnodes w)" a as]
    assms show ?thesis by (simp add: pth_msgport_find_def pth_ring_first_def)
qed

subsection \<open>Properties\<close>

definition empty_mpworld :: "mpworld" where
  "empty_mpworld = \<lparr>rnodes = \<lambda>_. \<lparr>rn_next = 0, rn_prev = 0\<rparr>,
     ports = \<lambda>_. \<lparr>mp_name = '''', mp_tid = 0, mp_queue = pth_ring_init\<rparr>,
     m_replyport = \<lambda>m. if m = 10 then 2 else 0, pth_msgport = pth_ring_init\<rparr>"

text \<open>Two ports 1 and 2; message 10 is pending on port 1 and is to be replied to port 2.\<close>

definition two_ports :: mpworld where
  "two_ports = snd (pth_msgport_put 1 10 (snd (pth_msgport_create (Some ''b'') 2 7
     (snd (pth_msgport_create (Some ''a'') 1 7 empty_mpworld)))))"

lemma two_ports_rep: "mp_rep two_ports [1, 2] ((\<lambda>_. [])(1 := [10]))"
proof -
  have e: "mp_rep empty_mpworld [] (\<lambda>_. [])"
    using ring_rep_init by (simp add: mp_rep_def empty_mpworld_def)
  have "mp_rep (snd (pth_msgport_create (Some ''a'') 1 7 empty_mpworld)) [1] (\<lambda>_. [])"
    using msgport_create_rep(2) [OF e, of 1 "''a''" 7] by (simp add: free_msg_def fun_upd_idem)
  from msgport_create_rep(2) [OF this, of 2 "''b''" 7]
  have "mp_rep (snd (pth_msgport_create (Some ''b'') 2 7
      (snd (pth_msgport_create (Some ''a'') 1 7 empty_mpworld)))) [1, 2] (\<lambda>_. [])"
    by (simp add: free_msg_def fun_upd_idem)
  from msgport_put_rep(2) [OF this, of 1 10] show ?thesis
    by (simp add: two_ports_def free_msg_def)
qed

lemma two_ports_reply: "m_replyport two_ports = (\<lambda>m. if m = 10 then 2 else 0)"
  by (simp add: two_ports_def pth_msgport_put_def pth_msgport_create_def set_queue_def
      empty_mpworld_def Let_def)

text \<open>
  A message port is a FIFO of messages: a message that is put on a port is appended to
  the pending ones, and \<open>pth_msgport_get\<close> returns the oldest one and leaves the others;
  the other ports are not affected.
\<close>

theorem msgport_fifo:
  assumes "mp_rep w ps M" and "p \<in> set ps" and "free_msg ps M m" and "Suc (length (M p)) < 2 ^ 32"
  shows "mp_rep (snd (pth_msgport_put p m w)) ps (M(p := M p @ [m]))
     \<and> fst (pth_msgport_get p (snd (pth_msgport_put p m w))) = hd (M p @ [m])
     \<and> mp_rep (snd (pth_msgport_get p (snd (pth_msgport_put p m w)))) ps (M(p := tl (M p @ [m])))"
proof -
  have put: "mp_rep (snd (pth_msgport_put p m w)) ps (M(p := M p @ [m]))"
    by (rule msgport_put_rep(2) [OF assms])
  from msgport_get_rep(1,2) [OF put assms(2)] put show ?thesis
    by (cases "M p") simp_all
qed

theorem msgport_fifo_witness:
  "fst (pth_msgport_get 1 (snd (pth_msgport_put 1 11 two_ports))) = 10"
  using msgport_fifo [OF two_ports_rep, of 1 11] by (simp add: free_msg_def)

text \<open>
  C27.  If the reply port of every pending message is NULL or another port that exists,
  \<open>pth_msgport_destroy\<close> ends and appends every pending message to its reply port (one
  without a reply port is dropped), in order, and the port is no longer found.
\<close>

theorem msgport_destroy_replies:
  assumes "mp_rep w ps M" and "p \<in> set ps"
    and "\<And>m. m \<in> set (M p) \<Longrightarrow> m_replyport w m \<noteq> p \<and> (m_replyport w m = 0 \<or> m_replyport w m \<in> set ps)"
    and "\<And>q. q \<in> set ps \<Longrightarrow> length (M q) + length (M p) < 2 ^ 32"
  shows "\<exists>w'. pth_msgport_destroy p w = Some w'
     \<and> mp_rep w' (remove1 p ps) (replied (m_replyport w) (M p) M)
     \<and> pth_msgport_find (Some name) w'
         = Some (case find (\<lambda>q. mp_name (ports w' q) = name) (remove1 p ps) of None \<Rightarrow> 0 | Some q \<Rightarrow> q)"
proof -
  from msgport_destroy_rep [OF assms] obtain w' where
    w': "pth_msgport_destroy p w = Some w'"
    "mp_rep w' (remove1 p ps) (replied (m_replyport w) (M p) M)" by blast
  then have "ring_rep (pth_msgport w', rnodes w') (remove1 p ps)" by (simp add: mp_rep_def)
  from msgport_find_rep [OF this] w' show ?thesis by blast
qed

theorem msgport_destroy_replies_witness:
  "\<exists>w'. pth_msgport_destroy 1 two_ports = Some w' \<and> mp_rep w' [2] (replied (\<lambda>m. if m = 10 then 2 else 0) [10] ((\<lambda>_. [])(1 := [10])))"
proof -
  let ?M = "(\<lambda>_. [])(1 := [10]) :: nat \<Rightarrow> nat list"
  have "\<exists>w'. pth_msgport_destroy 1 two_ports = Some w'
      \<and> mp_rep w' (remove1 1 [1, 2]) (replied (m_replyport two_ports) (?M 1) ?M)
      \<and> pth_msgport_find (Some ''a'') w' = Some (case find (\<lambda>q. mp_name (ports w' q) = ''a'') (remove1 1 [1, 2])
           of None \<Rightarrow> 0 | Some q \<Rightarrow> q)"
    by (rule msgport_destroy_replies [OF two_ports_rep]) (auto simp: two_ports_reply split: if_splits)
  then show ?thesis by (auto simp: two_ports_reply)
qed

text \<open>
  If every pending message of a port is to be replied to the port itself,
  \<open>pth_msgport_destroy\<close> does not return.
\<close>

theorem msgport_destroy_diverges:
  assumes "mp_rep w ps M" and "p \<in> set ps" and "M p \<noteq> []" and "Suc (length (M p)) < 2 ^ 32"
    and "\<forall>m\<in>set (M p). m_replyport w m = p"
  shows "pth_msgport_destroy p w = None"
proof -
  have "self_reply p w" using assms unfolding self_reply_def by blast
  then have "msgport_drain p w = None" using msgport_drain_stuck by (cases "msgport_drain p w") auto
  with mp_rep_nonzero [OF assms(1,2)] show ?thesis by (simp add: pth_msgport_destroy_def)
qed

theorem msgport_destroy_diverges_witness:
  "pth_msgport_destroy 2 (snd (pth_msgport_put 2 10 (snd (pth_msgport_get 1 two_ports)))) = None"
proof -
  let ?w1 = "snd (pth_msgport_get 1 two_ports)" and ?M = "(\<lambda>_. [])(1 := [10])"
  from msgport_get_rep(2-4) [OF two_ports_rep, of 1]
  have g: "mp_rep ?w1 [1, 2] (\<lambda>_. [])" "m_replyport ?w1 = m_replyport two_ports"
    by (simp_all add: fun_upd_idem)
  from msgport_put_rep(2,3) [OF g(1), of 2 10] g(2)
  have "mp_rep (snd (pth_msgport_put 2 10 ?w1)) [1, 2] ((\<lambda>_. [])(2 := [10]))"
    "m_replyport (snd (pth_msgport_put 2 10 ?w1)) 10 = 2"
    by (simp_all add: free_msg_def two_ports_reply)
  from msgport_destroy_diverges [OF this(1), of 2] this(2) show ?thesis by simp
qed

end
