(* ===== verification/Locks.thy ===== *)
theory Locks
  imports Prelude
begin

text \<open>
  spinlock.h (the \<open>SPINLOCK_NON_FUTEX\<close> configuration) and the recursive queue locks
  \<open>pth_qlock_t\<close> of pth_p.h.in.

  The functions are modelled twice.  As functions on the lock state, for use in the sequential
  components: \<open>None\<close> is a \<open>spin_lock\<close> that goes on spinning.  And as an interleaving
  of the native threads, one step per access to shared memory, for the property that makes
  them locks: at most one native thread holds one.  \<open>acquire_alone\<close> and
  \<open>release_alone\<close> relate the two.
\<close>

subsection \<open>The lock operations\<close>

record spinlock_st =
  lock :: int

record pth_qlock_st =
  spinlock :: spinlock_st
  owner :: nat
  qcount :: int

definition test_and_set :: "int \<Rightarrow> int \<times> int" where
  "test_and_set v = (v, 1)"

definition spinlock_init :: "spinlock_st \<Rightarrow> spinlock_st" where
  "spinlock_init s = s\<lparr>lock := 0\<rparr>"

definition spin_lock :: "spinlock_st \<Rightarrow> spinlock_st option" where
  "spin_lock s = (let (old, new) = test_and_set (lock s)
                  in if old = 0 then Some (s\<lparr>lock := new\<rparr>) else None)"

definition spin_trylock :: "spinlock_st \<Rightarrow> int \<times> spinlock_st" where
  "spin_trylock s = (let (old, new) = test_and_set (lock s)
                     in (if old \<noteq> 0 then 1 else 0, s\<lparr>lock := new\<rparr>))"

definition spin_unlock :: "spinlock_st \<Rightarrow> spinlock_st" where
  "spin_unlock s = s\<lparr>lock := 0\<rparr>"

definition pth_qlock_init :: "pth_qlock_st \<Rightarrow> pth_qlock_st" where
  "pth_qlock_init l = (let l1 = \<lparr>spinlock = \<lparr>lock = 0\<rparr>, owner = 0, qcount = 0\<rparr>
                       in l1\<lparr>spinlock := spinlock_init (spinlock l1)\<rparr>)"

text \<open>\<open>tid\<close> is the caller's native thread id: \<open>ptid\<close>, or that of the current one.\<close>

definition pth_acquire_lock :: "nat \<Rightarrow> pth_qlock_st \<Rightarrow> pth_qlock_st option" where
  "pth_acquire_lock tid l =
     (if tid = owner l then Some (l\<lparr>qcount := qcount l + 1\<rparr>)
      else do { s \<leftarrow> spin_lock (spinlock l);
                Some (l\<lparr>spinlock := s, qcount := 1, owner := tid\<rparr>) })"

definition pth_try_lock :: "nat \<Rightarrow> pth_qlock_st \<Rightarrow> int \<times> pth_qlock_st" where
  "pth_try_lock tid l =
     (if tid = owner l then (0, l\<lparr>qcount := qcount l + 1\<rparr>)
      else let (r, s) = spin_trylock (spinlock l)
           in if r \<noteq> 0 then (EAGAIN, l\<lparr>spinlock := s\<rparr>)
              else (0, l\<lparr>spinlock := s, qcount := 1, owner := tid\<rparr>))"

definition pth_release_lock :: "nat \<Rightarrow> pth_qlock_st \<Rightarrow> int \<times> pth_qlock_st" where
  "pth_release_lock tid l =
     (if owner l \<noteq> tid then (-1, l)
      else let l1 = l\<lparr>qcount := qcount l - 1\<rparr>
           in (0, if qcount l1 = 0
                  then l1\<lparr>owner := 0, spinlock := spin_unlock (spinlock l1)\<rparr> else l1))"

subsection \<open>Sequential behaviour\<close>

text \<open>A free lock, and a lock that \<open>t\<close> has acquired \<open>n\<close> times.\<close>

definition qfree :: "pth_qlock_st \<Rightarrow> bool" where
  "qfree l \<longleftrightarrow> lock (spinlock l) = 0 \<and> owner l = 0"

definition qheld :: "nat \<Rightarrow> nat \<Rightarrow> pth_qlock_st \<Rightarrow> bool" where
  "qheld t n l \<longleftrightarrow> lock (spinlock l) = 1 \<and> owner l = t \<and> t \<noteq> 0 \<and> n > 0 \<and> qcount l = int n"

lemma qlock_init_free: "qfree (pth_qlock_init l)"
  by (simp add: qfree_def pth_qlock_init_def spinlock_init_def)

lemma acquire_free:
  assumes "qfree l" and "t \<noteq> 0"
  shows "\<exists>l'. pth_acquire_lock t l = Some l' \<and> qheld t 1 l'"
  using assms by (auto simp: qfree_def qheld_def pth_acquire_lock_def spin_lock_def test_and_set_def)

lemma acquire_again:
  assumes "qheld t n l"
  shows "\<exists>l'. pth_acquire_lock t l = Some l' \<and> qheld t (Suc n) l'"
  using assms by (auto simp: qheld_def pth_acquire_lock_def)

lemma acquire_other: "qheld t n l \<Longrightarrow> u \<noteq> t \<Longrightarrow> pth_acquire_lock u l = None"
  by (auto simp: qheld_def pth_acquire_lock_def spin_lock_def test_and_set_def)

lemma try_other: "qheld t n l \<Longrightarrow> u \<noteq> t \<Longrightarrow> pth_try_lock u l = (EAGAIN, l)"
  by (auto simp: qheld_def pth_try_lock_def spin_trylock_def test_and_set_def Let_def)

lemma release_last: "qheld t (Suc 0) l \<Longrightarrow> fst (pth_release_lock t l) = 0 \<and> qfree (snd (pth_release_lock t l))"
  by (auto simp: qheld_def qfree_def pth_release_lock_def spin_unlock_def Let_def)

lemma release_inner:
  "qheld t (Suc n) l \<Longrightarrow> n > 0 \<Longrightarrow> fst (pth_release_lock t l) = 0 \<and> qheld t n (snd (pth_release_lock t l))"
  by (auto simp: qheld_def pth_release_lock_def Let_def)

lemma release_other: "qheld t n l \<Longrightarrow> u \<noteq> t \<Longrightarrow> pth_release_lock u l = (-1, l)"
  by (auto simp: qheld_def pth_release_lock_def)

subsection \<open>Interleaving of the native threads\<close>

text \<open>
  Where a native thread is in \<open>_pth_acquire_lock\<close> or \<open>_pth_release_lock\<close>: outside,
  before \<open>count++\<close>, in the spin loop, before \<open>count = 1\<close>, before
  \<open>owner = tid\<close>, before \<open>count--\<close>, before the test of \<open>count\<close>, before
  \<open>owner = 0\<close>, and before \<open>spin_unlock\<close>.
\<close>

datatype pc = Out | AInc | ASpin | ACnt | AOwn | RDec | RTest | ROwn | RUnl

text \<open>\<open>depth\<close> counts the completed acquisitions of a thread that it has not begun to release.\<close>

record lockworld =
  ql :: pth_qlock_st
  pcs :: "nat \<Rightarrow> pc"
  depth :: "nat \<Rightarrow> nat"

definition goto :: "nat \<Rightarrow> pc \<Rightarrow> lockworld \<Rightarrow> lockworld" where
  "goto t p s = s\<lparr>pcs := (pcs s)(t := p)\<rparr>"

definition set_depth :: "nat \<Rightarrow> nat \<Rightarrow> lockworld \<Rightarrow> lockworld" where
  "set_depth t n s = s\<lparr>depth := (depth s)(t := n)\<rparr>"

definition upd_ql :: "(pth_qlock_st \<Rightarrow> pth_qlock_st) \<Rightarrow> lockworld \<Rightarrow> lockworld" where
  "upd_ql f s = s\<lparr>ql := f (ql s)\<rparr>"

inductive lstep :: "nat \<Rightarrow> lockworld \<Rightarrow> lockworld \<Rightarrow> bool" for t where
  acq_mine: "pcs s t = Out \<Longrightarrow> owner (ql s) = t \<Longrightarrow> lstep t s (goto t AInc s)"
| acq_inc: "pcs s t = AInc \<Longrightarrow>
    lstep t s (goto t Out (set_depth t (Suc (depth s t)) (upd_ql (\<lambda>l. l\<lparr>qcount := qcount l + 1\<rparr>) s)))"
| acq_other: "pcs s t = Out \<Longrightarrow> owner (ql s) \<noteq> t \<Longrightarrow> lstep t s (goto t ASpin s)"
| acq_spin: "pcs s t = ASpin \<Longrightarrow> lock (spinlock (ql s)) \<noteq> 0 \<Longrightarrow> lstep t s s"
| acq_got: "pcs s t = ASpin \<Longrightarrow> spin_lock (spinlock (ql s)) = Some sp \<Longrightarrow>
    lstep t s (goto t ACnt (upd_ql (\<lambda>l. l\<lparr>spinlock := sp\<rparr>) s))"
| acq_cnt: "pcs s t = ACnt \<Longrightarrow> lstep t s (goto t AOwn (upd_ql (\<lambda>l. l\<lparr>qcount := 1\<rparr>) s))"
| acq_own: "pcs s t = AOwn \<Longrightarrow>
    lstep t s (goto t Out (set_depth t 1 (upd_ql (\<lambda>l. l\<lparr>owner := t\<rparr>) s)))"
| rel_other: "pcs s t = Out \<Longrightarrow> owner (ql s) \<noteq> t \<Longrightarrow> lstep t s s"
| rel_mine: "pcs s t = Out \<Longrightarrow> owner (ql s) = t \<Longrightarrow>
    lstep t s (goto t RDec (set_depth t (depth s t - 1) s))"
| rel_dec: "pcs s t = RDec \<Longrightarrow> lstep t s (goto t RTest (upd_ql (\<lambda>l. l\<lparr>qcount := qcount l - 1\<rparr>) s))"
| rel_more: "pcs s t = RTest \<Longrightarrow> qcount (ql s) \<noteq> 0 \<Longrightarrow> lstep t s (goto t Out s)"
| rel_zero: "pcs s t = RTest \<Longrightarrow> qcount (ql s) = 0 \<Longrightarrow> lstep t s (goto t ROwn s)"
| rel_own: "pcs s t = ROwn \<Longrightarrow> lstep t s (goto t RUnl (upd_ql (\<lambda>l. l\<lparr>owner := 0\<rparr>) s))"
| rel_unl: "pcs s t = RUnl \<Longrightarrow>
    lstep t s (goto t Out (upd_ql (\<lambda>l. l\<lparr>spinlock := spin_unlock (spinlock l)\<rparr>) s))"

inductive lreach :: "lockworld \<Rightarrow> lockworld \<Rightarrow> bool" for s0 where
  start: "lreach s0 s0"
| step: "lreach s0 s \<Longrightarrow> t \<noteq> 0 \<Longrightarrow> lstep t s s' \<Longrightarrow> lreach s0 s'"

definition linit :: "lockworld \<Rightarrow> bool" where
  "linit s \<longleftrightarrow> qfree (ql s) \<and> (\<forall>t. pcs s t = Out \<and> depth s t = 0)"

text \<open>A thread is inside the lock from the successful \<open>test_and_set\<close> to \<open>spin_unlock\<close>.\<close>

definition inside :: "lockworld \<Rightarrow> nat \<Rightarrow> bool" where
  "inside s t \<longleftrightarrow> owner (ql s) = t \<or> pcs s t \<in> {ACnt, AOwn, RUnl}"

text \<open>What the owner field and the count are, by the place of the thread.\<close>

definition pc_inv :: "lockworld \<Rightarrow> nat \<Rightarrow> bool" where
  "pc_inv s t \<longleftrightarrow> (case pcs s t of
      Out \<Rightarrow> if owner (ql s) = t then qcount (ql s) = int (depth s t) \<and> depth s t > 0 else depth s t = 0
    | AInc \<Rightarrow> owner (ql s) = t \<and> qcount (ql s) = int (depth s t) \<and> depth s t > 0
    | ASpin \<Rightarrow> owner (ql s) \<noteq> t \<and> depth s t = 0
    | ACnt \<Rightarrow> owner (ql s) = 0 \<and> depth s t = 0
    | AOwn \<Rightarrow> owner (ql s) = 0 \<and> depth s t = 0 \<and> qcount (ql s) = 1
    | RDec \<Rightarrow> owner (ql s) = t \<and> qcount (ql s) = int (depth s t) + 1
    | RTest \<Rightarrow> owner (ql s) = t \<and> qcount (ql s) = int (depth s t)
    | ROwn \<Rightarrow> owner (ql s) = t \<and> depth s t = 0
    | RUnl \<Rightarrow> owner (ql s) = 0 \<and> depth s t = 0)"

definition linv :: "lockworld \<Rightarrow> bool" where
  "linv s \<longleftrightarrow> (\<forall>t. t \<noteq> 0 \<longrightarrow> pc_inv s t)
     \<and> (lock (spinlock (ql s)) = 0 \<longrightarrow> (\<forall>t. t \<noteq> 0 \<longrightarrow> \<not> inside s t))
     \<and> (\<forall>t u. t \<noteq> 0 \<longrightarrow> u \<noteq> 0 \<longrightarrow> inside s t \<longrightarrow> inside s u \<longrightarrow> t = u)"

lemma linit_linv: "linit s \<Longrightarrow> linv s"
  by (auto simp: linit_def linv_def qfree_def pc_inv_def inside_def)

lemmas lock_upd_defs = goto_def set_depth_def upd_ql_def spin_unlock_def

lemma pc_inv_other:
  assumes "pc_inv s u" and "pcs s' u = pcs s u" and "depth s' u = depth s u"
    and "owner (ql s') = u \<longleftrightarrow> owner (ql s) = u"
    and "inside s u \<Longrightarrow> ql s' = ql s"
  shows "pc_inv s' u"
  using assms by (auto simp: pc_inv_def inside_def split: pc.splits)

text \<open>
  A step of a thread that is inside afterwards only if it was before, or the lock was free:
  the other threads are as they were.
\<close>

lemma linv_step_aux:
  assumes inv: "linv s" and t: "t \<noteq> 0"
    and own: "pc_inv s' t"
    and rest: "\<And>u. u \<noteq> t \<Longrightarrow> pcs s' u = pcs s u \<and> depth s' u = depth s u"
    and owner: "\<And>u. u \<noteq> 0 \<Longrightarrow> u \<noteq> t \<Longrightarrow> owner (ql s') = u \<longleftrightarrow> owner (ql s) = u"
    and ql: "inside s t \<or> lock (spinlock (ql s)) = 0 \<or> ql s' = ql s"
    and ins: "inside s' t \<Longrightarrow> inside s t \<or> lock (spinlock (ql s)) = 0"
    and lck: "lock (spinlock (ql s')) = 0 \<Longrightarrow>
       \<not> inside s' t \<and> (inside s t \<or> lock (spinlock (ql s)) = 0)"
  shows "linv s'"
proof -
  have ins_other: "inside s' u \<longleftrightarrow> inside s u" if "u \<noteq> 0" "u \<noteq> t" for u
    using rest [OF that(2)] owner [OF that] by (simp add: inside_def)
  have excl: "inside s u \<Longrightarrow> inside s v \<Longrightarrow> u \<noteq> 0 \<Longrightarrow> v \<noteq> 0 \<Longrightarrow> u = v" for u v
    using inv by (simp add: linv_def)
  have free: "lock (spinlock (ql s)) = 0 \<Longrightarrow> u \<noteq> 0 \<Longrightarrow> \<not> inside s u" for u
    using inv by (simp add: linv_def)
  have "pc_inv s' u" if u: "u \<noteq> 0" for u
  proof (cases "u = t")
    case False
    have "pc_inv s u" using inv u by (simp add: linv_def)
    moreover have "inside s u \<Longrightarrow> ql s' = ql s" using ql excl free u t False by blast
    ultimately show ?thesis
      using pc_inv_other [of s u s'] rest [OF False] owner [OF u False] by blast
  qed (use own in simp)
  moreover have "\<not> inside s' u" if "lock (spinlock (ql s')) = 0" "u \<noteq> 0" for u
    using lck [OF that(1)] ins_other [of u] excl free that(2) t by (cases "u = t") blast+
  moreover have "u = v" if "inside s' u" "inside s' v" "u \<noteq> 0" "v \<noteq> 0" for u v
    using that ins ins_other excl free t by (metis (full_types))
  ultimately show ?thesis by (auto simp: linv_def)
qed

lemma linv_free_owner: "linv s \<Longrightarrow> lock (spinlock (ql s)) = 0 \<Longrightarrow> owner (ql s) = 0"
  by (auto simp: linv_def inside_def)

lemma linv_step:
  assumes "lstep t s s'" and inv: "linv s" and t: "t \<noteq> 0"
  shows "linv s'"
proof -
  have p: "pc_inv s t" using inv t by (simp add: linv_def)
  have f: "lock (spinlock (ql s)) = 0 \<longrightarrow> owner (ql s) \<noteq> t \<and> pcs s t \<notin> {ACnt, AOwn, RUnl}"
    using inv t unfolding linv_def inside_def by blast
  from assms(1) show ?thesis
  proof cases
    case (acq_got sp)
    then have "lock (spinlock (ql s)) = 0" "sp = (spinlock (ql s))\<lparr>lock := 1\<rparr>"
      by (auto simp: spin_lock_def test_and_set_def split: if_splits)
    with acq_got p t linv_free_owner [OF inv] show ?thesis
      by (intro linv_step_aux [OF inv t]) (auto simp: lock_upd_defs pc_inv_def inside_def)
  qed (use p t inv f in \<open>auto simp: lock_upd_defs pc_inv_def inside_def
      intro!: linv_step_aux [OF inv t] split: if_splits\<close>)
qed

lemma lreach_linv: "lreach s0 s \<Longrightarrow> linit s0 \<Longrightarrow> linv s"
  by (induction rule: lreach.induct) (auto intro: linit_linv linv_step)

text \<open>A thread that has acquired the lock, and not begun to release it for the last time, is inside.\<close>

lemma depth_inside: "linv s \<Longrightarrow> t \<noteq> 0 \<Longrightarrow> depth s t > 0 \<Longrightarrow> inside s t"
proof -
  assume "linv s" "t \<noteq> 0" and d: "depth s t > 0"
  then have "pc_inv s t" by (simp add: linv_def)
  with d show ?thesis by (auto simp: pc_inv_def inside_def split: pc.splits if_splits)
qed

lemma lock_exclusion:
  "lreach s0 s \<Longrightarrow> linit s0 \<Longrightarrow> t \<noteq> 0 \<Longrightarrow> u \<noteq> 0 \<Longrightarrow> depth s t > 0 \<Longrightarrow> depth s u > 0 \<Longrightarrow> t = u"
  using lreach_linv [of s0 s] depth_inside [of s t] depth_inside [of s u] by (auto simp: linv_def)

subsection \<open>The two models agree\<close>

inductive lsteps :: "nat \<Rightarrow> lockworld \<Rightarrow> lockworld \<Rightarrow> bool" for t where
  none: "lsteps t s s"
| more: "lstep t s s1 \<Longrightarrow> lsteps t s1 s2 \<Longrightarrow> lsteps t s s2"

text \<open>A thread that runs alone through the acquisition or the release has the effect of the function.\<close>

lemma acquire_alone:
  assumes out: "pcs s t = Out" and a: "pth_acquire_lock t (ql s) = Some l"
  shows "\<exists>s'. lsteps t s s' \<and> ql s' = l \<and> pcs s' = pcs s"
proof (cases "owner (ql s) = t")
  case True
  let ?s1 = "goto t AInc s"
  let ?s2 = "goto t Out (set_depth t (Suc (depth ?s1 t)) (upd_ql (\<lambda>l. l\<lparr>qcount := qcount l + 1\<rparr>) ?s1))"
  have "lstep t s ?s1" using out True by (rule lstep.acq_mine)
  moreover have "lstep t ?s1 ?s2" by (rule lstep.acq_inc) (simp add: goto_def)
  ultimately have "lsteps t s ?s2" by (meson lsteps.intros)
  moreover have "ql ?s2 = l" "pcs ?s2 = pcs s"
    using a True out by (auto simp: pth_acquire_lock_def lock_upd_defs)
  ultimately show ?thesis by blast
next
  case False
  from a False obtain sp where sp: "spin_lock (spinlock (ql s)) = Some sp"
    and l: "l = (ql s)\<lparr>spinlock := sp, qcount := 1, owner := t\<rparr>"
    by (auto simp: pth_acquire_lock_def split: bind_splits)
  let ?s1 = "goto t ASpin s"
  let ?s2 = "goto t ACnt (upd_ql (\<lambda>l. l\<lparr>spinlock := sp\<rparr>) ?s1)"
  let ?s3 = "goto t AOwn (upd_ql (\<lambda>l. l\<lparr>qcount := 1\<rparr>) ?s2)"
  let ?s4 = "goto t Out (set_depth t 1 (upd_ql (\<lambda>l. l\<lparr>owner := t\<rparr>) ?s3))"
  have "lstep t s ?s1" using out False by (rule lstep.acq_other)
  moreover have "lstep t ?s1 ?s2" by (rule lstep.acq_got) (simp_all add: goto_def sp)
  moreover have "lstep t ?s2 ?s3" by (rule lstep.acq_cnt) (simp add: goto_def)
  moreover have "lstep t ?s3 ?s4" by (rule lstep.acq_own) (simp add: goto_def)
  ultimately have "lsteps t s ?s4" by (meson lsteps.intros)
  moreover have "ql ?s4 = l" "pcs ?s4 = pcs s" using l out by (auto simp: lock_upd_defs)
  ultimately show ?thesis by blast
qed

lemma release_alone:
  assumes out: "pcs s t = Out"
  shows "\<exists>s'. lsteps t s s' \<and> ql s' = snd (pth_release_lock t (ql s)) \<and> pcs s' = pcs s"
proof (cases "owner (ql s) = t")
  case False
  have "lsteps t s s" by (rule lsteps.none)
  with False show ?thesis by (auto simp: pth_release_lock_def)
next
  case True
  let ?s1 = "goto t RDec (set_depth t (depth s t - 1) s)"
  let ?s2 = "goto t RTest (upd_ql (\<lambda>l. l\<lparr>qcount := qcount l - 1\<rparr>) ?s1)"
  have s12: "lstep t s ?s1" "lstep t ?s1 ?s2"
    using lstep.rel_mine [OF out True] lstep.rel_dec [of ?s1 t] by (simp_all add: goto_def)
  show ?thesis
  proof (cases "qcount (ql s) - 1 = 0")
    case False
    let ?s3 = "goto t Out ?s2"
    have "lstep t ?s2 ?s3" using False by (intro lstep.rel_more) (simp_all add: lock_upd_defs)
    with s12 have "lsteps t s ?s3" by (meson lsteps.intros)
    moreover have "ql ?s3 = snd (pth_release_lock t (ql s))" "pcs ?s3 = pcs s"
      using True False out by (auto simp: lock_upd_defs pth_release_lock_def Let_def)
    ultimately show ?thesis by blast
  next
    case zero: True
    let ?s3 = "goto t ROwn ?s2"
    let ?s4 = "goto t RUnl (upd_ql (\<lambda>l. l\<lparr>owner := 0\<rparr>) ?s3)"
    let ?s5 = "goto t Out (upd_ql (\<lambda>l. l\<lparr>spinlock := spin_unlock (spinlock l)\<rparr>) ?s4)"
    have "lstep t ?s2 ?s3" using zero by (intro lstep.rel_zero) (simp_all add: lock_upd_defs)
    moreover have "lstep t ?s3 ?s4" by (rule lstep.rel_own) (simp add: goto_def)
    moreover have "lstep t ?s4 ?s5" by (rule lstep.rel_unl) (simp add: goto_def)
    ultimately have "lsteps t s ?s5" using s12 by (meson lsteps.intros)
    moreover have "ql ?s5 = snd (pth_release_lock t (ql s))" "pcs ?s5 = pcs s"
      using True zero out by (auto simp: lock_upd_defs pth_release_lock_def Let_def)
    ultimately show ?thesis by blast
  qed
qed

subsection \<open>Properties\<close>

text \<open>
  C3.  The recursive queue locks give mutual exclusion: from an initialised lock, under every
  interleaving of any number of native threads in the acquire and release functions, two threads
  that have both acquired the lock (and not yet begun to release it as often) are the same.
\<close>

theorem qlock_mutual_exclusion:
  assumes "linit s0" and "lreach s0 s" and "t \<noteq> 0" and "u \<noteq> 0"
    and "depth s t > 0" and "depth s u > 0"
  shows "t = u"
  using lock_exclusion [OF assms(2,1,3-6)] .

definition idle_world :: lockworld where
  "idle_world = \<lparr>ql = \<lparr>spinlock = \<lparr>lock = 0\<rparr>, owner = 0, qcount = 0\<rparr>, pcs = \<lambda>_. Out, depth = \<lambda>_. 0\<rparr>"

definition spin_world :: lockworld where
  "spin_world = goto 1 ASpin idle_world"

definition cnt_world :: lockworld where
  "cnt_world = goto 1 ACnt (upd_ql (\<lambda>l. l\<lparr>spinlock := \<lparr>lock = 1\<rparr>\<rparr>) spin_world)"

definition own_world :: lockworld where
  "own_world = goto 1 AOwn (upd_ql (\<lambda>l. l\<lparr>qcount := 1\<rparr>) cnt_world)"

definition held_world :: lockworld where
  "held_world = goto 1 Out (set_depth 1 1 (upd_ql (\<lambda>l. l\<lparr>owner := 1\<rparr>) own_world))"

lemmas world_defs = idle_world_def spin_world_def cnt_world_def own_world_def held_world_def
  lock_upd_defs

lemma held_world_reached: "lreach idle_world held_world"
proof -
  have "lstep 1 idle_world spin_world"
    unfolding spin_world_def by (rule lstep.acq_other) (simp_all add: world_defs)
  moreover have "lstep 1 spin_world cnt_world"
    unfolding cnt_world_def by (rule lstep.acq_got) (simp_all add: world_defs spin_lock_def test_and_set_def)
  moreover have "lstep 1 cnt_world own_world"
    unfolding own_world_def by (rule lstep.acq_cnt) (simp add: world_defs)
  moreover have "lstep 1 own_world held_world"
    unfolding held_world_def by (rule lstep.acq_own) (simp add: world_defs)
  ultimately show ?thesis by (meson lreach.intros one_neq_zero)
qed

theorem qlock_mutual_exclusion_witness:
  "lreach idle_world held_world \<and> depth held_world 1 > 0 \<and> \<not> depth held_world 2 > 0"
proof -
  have i: "linit idle_world" by (simp add: linit_def qfree_def idle_world_def)
  have d: "depth held_world 1 > 0" by (simp add: world_defs)
  from qlock_mutual_exclusion [OF i held_world_reached, of 1 2] d held_world_reached
  show ?thesis by auto
qed

end
