(* ===== verification/Tqueue.thy ===== *)
theory Tqueue
  imports Cycles Interfaces Locks
begin

text \<open>
  pth_pqueue.c: the thread queues that pqueue.h replaced.  A queue is a ring of threads in
  falling order of priority; the head stores its priority, every other thread the difference
  to the one before it, so that one store raises the priority of all of them.

  A thread is a natural number, \<open>0\<close> is NULL.  Priorities and counts are C ints:
  every store and every difference is taken to 32 bits with \<open>wrap_int\<close>, as the two's
  complement arithmetic of the machine does.
  \<open>tq_rep (q, h) ps\<close>: the queue holds the threads of \<open>ps\<close> with the absolute
  priorities next to them, which lie between \<open>-2^30\<close> and \<open>2^30\<close>, so that the
  difference of two of them is an int.  The operations are shown to be the list operations on
  \<open>ps\<close>, and to keep \<open>ps\<close> sorted.  \<open>PTH_PRIO_MAX\<close>, which no header
  defines, is the parameter \<open>prio_max\<close>.
\<close>

record tnode_st =
  q_next :: nat
  q_prev :: nat
  q_prio :: int

record pth_pqueue_st =
  q_head :: nat
  q_num :: int
  q_lock :: pth_qlock_st

type_synonym theap = "nat \<Rightarrow> tnode_st"
type_synonym tqueue = "pth_pqueue_st \<times> theap"

definition set_q_next :: "nat \<Rightarrow> nat \<Rightarrow> theap \<Rightarrow> theap" where
  "set_q_next a b h = h(a := (h a)\<lparr>q_next := b\<rparr>)"
definition set_q_prev :: "nat \<Rightarrow> nat \<Rightarrow> theap \<Rightarrow> theap" where
  "set_q_prev a b h = h(a := (h a)\<lparr>q_prev := b\<rparr>)"
definition set_q_prio :: "nat \<Rightarrow> int \<Rightarrow> theap \<Rightarrow> theap" where
  "set_q_prio a p h = h(a := (h a)\<lparr>q_prio := wrap_int p\<rparr>)"

definition qnext :: "theap \<Rightarrow> nat \<Rightarrow> nat" where "qnext h a = q_next (h a)"
definition qprev :: "theap \<Rightarrow> nat \<Rightarrow> nat" where "qprev h a = q_prev (h a)"
definition qprio :: "theap \<Rightarrow> nat \<Rightarrow> int" where "qprio h a = q_prio (h a)"

interpretation tlk: dlinks qnext qprev set_q_next set_q_prev
  by unfold_locales (auto simp: qnext_def qprev_def set_q_next_def set_q_prev_def)

lemma prio_links [heap_simps]:
  "qnext (set_q_prio a p h) = qnext h" "qprev (set_q_prio a p h) = qprev h"
  "qprio (set_q_prio a p h) = (qprio h)(a := wrap_int p)"
  "qprio (set_q_next a b h) = qprio h" "qprio (set_q_prev a b h) = qprio h"
  by (auto simp: qnext_def qprev_def qprio_def set_q_prio_def set_q_next_def set_q_prev_def)

lemmas tq_links [heap_simps] = tlk.links

subsection \<open>The operations\<close>

definition pth_pqueue_init :: "pth_pqueue_st \<Rightarrow> pth_pqueue_st" where
  "pth_pqueue_init q = q\<lparr>q_head := 0, q_num := 0, q_lock := pth_qlock_init (q_lock q)\<rparr>"

text \<open>The loop that looks for the last thread with a greater or equal priority.\<close>

partial_function (option) insert_pos :: "theap \<Rightarrow> nat \<Rightarrow> int \<Rightarrow> nat \<Rightarrow> int \<Rightarrow> (nat \<times> int) option" where
  "insert_pos h head prio c p =
     (if wrap_int (p - qprio h (qnext h c)) \<ge> prio \<and> qnext h c \<noteq> head
      then insert_pos h head prio (qnext h c) (wrap_int (p - qprio h (qnext h c)))
      else Some (c, p))"

definition pth_pqueue_insert :: "int \<Rightarrow> nat \<Rightarrow> tqueue \<Rightarrow> tqueue option" where
  "pth_pqueue_insert prio t s = (case s of (q, h) \<Rightarrow>
     do { (q1, h1) \<leftarrow>
            (if q_head q = 0 \<or> q_num q = 0 then
               Some (q\<lparr>q_head := t\<rparr>, set_q_prio t prio (set_q_next t t (set_q_prev t t h)))
             else if qprio h (q_head q) < prio then
               (let ha = set_q_prev t (qprev h (q_head q)) h;
                    hb = set_q_next t (q_head q) ha;
                    hc = set_q_next (qprev hb t) t hb;
                    hd = set_q_prev (qnext hc t) t hc;
                    he = set_q_prio t prio hd;
                    hf = set_q_prio (qnext he t) (prio - qprio he (qnext he t)) he
                in Some (q\<lparr>q_head := t\<rparr>, hf))
             else
               do { (c, p) \<leftarrow> insert_pos h (q_head q) prio (q_head q) (qprio h (q_head q));
                    let ha = set_q_prev t c h;
                    let hb = set_q_next t (qnext ha c) ha;
                    let hc = set_q_next (qprev hb t) t hb;
                    let hd = set_q_prev (qnext hc t) t hc;
                    let he = set_q_prio t (p - prio) hd;
                    Some (q, if qnext he t \<noteq> q_head q
                             then set_q_prio (qnext he t) (qprio he (qnext he t) - qprio he t) he
                             else he) });
          Some (q1\<lparr>q_num := wrap_int (q_num q1 + 1)\<rparr>, h1) })"

definition pth_pqueue_Qinsert :: "int \<Rightarrow> nat \<Rightarrow> tqueue \<Rightarrow> tqueue option" where
  "pth_pqueue_Qinsert prio t s = (case s of (q, h) \<Rightarrow>
     if q_head q = 0 \<or> q_num q = 0 then
       Some (q\<lparr>q_head := t, q_num := wrap_int (q_num q + 1)\<rparr>,
             set_q_prio t prio (set_q_next t t (set_q_prev t t h)))
     else if prio = 0 then
       (let c = qprev h (q_head q);
            ha = set_q_prev t c h;
            hb = set_q_next t (qnext ha c) ha;
            hc = set_q_next (qprev hb t) t hb;
            hd = set_q_prev (qnext hc t) t hc;
            he = set_q_prio t prio hd
        in Some (q\<lparr>q_num := wrap_int (q_num q + 1)\<rparr>, he))
     else pth_pqueue_insert prio t s)"

definition pth_pqueue_delmax :: "tqueue \<Rightarrow> nat \<times> tqueue" where
  "pth_pqueue_delmax s = (case s of (q, h) \<Rightarrow>
     if q_head q = 0 then (0, s)
     else let t = q_head q
          in if qnext h t = t then
               (t, q\<lparr>q_head := 0, q_num := 0\<rparr>, set_q_prio t 0 (set_q_prev t 0 (set_q_next t 0 h)))
             else
               (let ha = set_q_next (qprev h t) (qnext h t) h;
                    hb = set_q_prev (qnext ha t) (qprev ha t) ha;
                    hc = set_q_prio (qnext hb t) (qprio hb t - qprio hb (qnext hb t)) hb;
                    hd = set_q_prio t 0 hc
                in (t, q\<lparr>q_head := qnext hd t, q_num := wrap_int (q_num q - 1)\<rparr>, hd)))"

definition pth_pqueue_delete :: "nat \<Rightarrow> tqueue \<Rightarrow> tqueue" where
  "pth_pqueue_delete t s = (case s of (q, h) \<Rightarrow>
     if q_head q = 0 then s
     else if q_head q = t then
       if qnext h t = t then
         (q\<lparr>q_head := 0, q_num := 0\<rparr>, set_q_prio t 0 (set_q_prev t 0 (set_q_next t 0 h)))
       else
         (let ha = set_q_next (qprev h t) (qnext h t) h;
              hb = set_q_prev (qnext ha t) (qprev ha t) ha;
              hc = set_q_prio (qnext hb t) (qprio hb t - qprio hb (qnext hb t)) hb;
              hd = set_q_prio t 0 hc
          in (q\<lparr>q_head := qnext hd t, q_num := wrap_int (q_num q - 1)\<rparr>, hd))
     else
       (let ha = set_q_next (qprev h t) (qnext h t) h;
            hb = set_q_prev (qnext ha t) (qprev ha t) ha;
            hc = (if qnext hb t \<noteq> q_head q
                  then set_q_prio (qnext hb t) (qprio hb (qnext hb t) + qprio hb t) hb else hb);
            hd = set_q_prio t 0 hc
        in (q\<lparr>q_num := wrap_int (q_num q - 1)\<rparr>, hd)))"

definition pth_pqueue_favorite_prio :: "int \<Rightarrow> tqueue \<Rightarrow> int" where
  "pth_pqueue_favorite_prio prio_max s = (case s of (q, h) \<Rightarrow>
     if q_head q \<noteq> 0 then wrap_int (qprio h (q_head q) + 1) else prio_max)"

definition pth_pqueue_favorite :: "int \<Rightarrow> nat \<Rightarrow> tqueue \<Rightarrow> (bool \<times> tqueue) option" where
  "pth_pqueue_favorite prio_max t s =
     (if q_head (fst s) = 0 \<or> q_num (fst s) = 0 then Some (False, s)
      else if q_num (fst s) = 1 then Some (True, s)
      else let s1 = pth_pqueue_delete t s
           in map_option (Pair True) (pth_pqueue_insert (pth_pqueue_favorite_prio prio_max s1) t s1))"

definition pth_pqueue_increase :: "tqueue \<Rightarrow> tqueue" where
  "pth_pqueue_increase s = (case s of (q, h) \<Rightarrow>
     if q_head q = 0 then s else (q, set_q_prio (q_head q) (qprio h (q_head q) + 1) h))"

definition pth_pqueue_elements :: "tqueue \<Rightarrow> int" where
  "pth_pqueue_elements s = q_num (fst s)"

definition pth_pqueue_head :: "tqueue \<Rightarrow> nat" where
  "pth_pqueue_head s = q_head (fst s)"

definition pth_pqueue_tail :: "tqueue \<Rightarrow> nat" where
  "pth_pqueue_tail s = (if q_head (fst s) = 0 then 0 else qprev (snd s) (q_head (fst s)))"

datatype walk_dir = WALK_PREV | WALK_NEXT

definition pth_pqueue_walk :: "tqueue \<Rightarrow> nat \<Rightarrow> walk_dir \<Rightarrow> nat" where
  "pth_pqueue_walk s t direction =
     (if t = 0 then 0
      else case direction of
        WALK_PREV \<Rightarrow> if t \<noteq> q_head (fst s) then qprev (snd s) t else 0
      | WALK_NEXT \<Rightarrow> let tn = qnext (snd s) t in if tn = q_head (fst s) then 0 else tn)"

partial_function (option) tq_search :: "tqueue \<Rightarrow> nat \<Rightarrow> nat \<Rightarrow> bool option" where
  "tq_search s t tc =
     (if tc = 0 then Some False
      else if tc = t then Some True
      else tq_search s t (pth_pqueue_walk s tc WALK_NEXT))"

definition pth_pqueue_contains :: "nat \<Rightarrow> tqueue \<Rightarrow> bool option" where
  "pth_pqueue_contains t s = tq_search s t (pth_pqueue_head s)"

subsection \<open>What a thread queue holds\<close>

fun deltas :: "(nat \<Rightarrow> int) \<Rightarrow> int \<Rightarrow> (nat \<times> int) list \<Rightarrow> bool" where
  "deltas \<pi> p [] \<longleftrightarrow> True"
| "deltas \<pi> p ((t, p') # ps) \<longleftrightarrow> \<pi> t = p - p' \<and> deltas \<pi> p' ps"

fun prios :: "(nat \<Rightarrow> int) \<Rightarrow> (nat \<times> int) list \<Rightarrow> bool" where
  "prios \<pi> [] \<longleftrightarrow> True"
| "prios \<pi> ((t, p) # ps) \<longleftrightarrow> \<pi> t = p \<and> deltas \<pi> p ps"

definition prio_range :: "int \<Rightarrow> bool" where
  "prio_range p \<longleftrightarrow> - (2 ^ 30) \<le> p \<and> p < 2 ^ 30"

definition tq_range :: "(nat \<times> int) list \<Rightarrow> bool" where
  "tq_range ps \<longleftrightarrow> int (length ps) < 2 ^ 31 \<and> (\<forall>x\<in>set ps. prio_range (snd x))"

definition tq_rep :: "tqueue \<Rightarrow> (nat \<times> int) list \<Rightarrow> bool" where
  "tq_rep s ps \<longleftrightarrow> (case s of (q, h) \<Rightarrow>
     (case ps of [] \<Rightarrow> q_head q = 0
      | (a, _) # _ \<Rightarrow> q_head q = a \<and> dcycle (qnext h) (qprev h) (map fst ps))
     \<and> 0 \<notin> set (map fst ps) \<and> q_num q = int (length ps) \<and> prios (qprio h) ps
     \<and> tq_range ps)"

definition falling :: "(nat \<times> int) list \<Rightarrow> bool" where
  "falling ps \<longleftrightarrow> sorted_wrt (\<lambda>x y. snd y \<le> snd x) ps"

lemma deltas_append:
  "deltas \<pi> p (xs @ (t, r) # ys) \<longleftrightarrow> deltas \<pi> p xs \<and> \<pi> t = (if xs = [] then p else snd (last xs)) - r
     \<and> deltas \<pi> r ys"
  by (induction \<pi> p xs rule: deltas.induct) auto

lemma deltas_cong: "(\<And>x. x \<in> fst ` set ps \<Longrightarrow> \<pi> x = \<pi>' x) \<Longrightarrow> deltas \<pi> p ps = deltas \<pi>' p ps"
  by (induction \<pi> p ps rule: deltas.induct) auto

lemma deltas_upd [simp]: "t \<notin> fst ` set ps \<Longrightarrow> deltas (\<pi>(t := v)) p ps = deltas \<pi> p ps"
  by (rule deltas_cong) auto

lemma wrap_prio:
  assumes "prio_range p" shows "wrap_int p = p"
  using assms by (auto simp: prio_range_def intro!: wrap_int_small)

lemma wrap_diff:
  assumes "prio_range p" and "prio_range q" shows "wrap_int (p - q) = p - q"
  using assms by (auto simp: prio_range_def intro!: wrap_int_small)

lemma wrap_zero [simp]: "wrap_int 0 = 0"
  by (simp add: wrap_int_def)

lemma wrap_num: "int n < 2 ^ 31 \<Longrightarrow> wrap_int (int n) = int n"
  by (rule wrap_int_small) auto

lemma tq_range_Nil [simp]: "tq_range []"
  by (simp add: tq_range_def)

lemma tq_range_mono: "set ps' \<subseteq> set ps \<Longrightarrow> length ps' \<le> length ps \<Longrightarrow> tq_range ps \<Longrightarrow> tq_range ps'"
  by (auto simp: tq_range_def)

lemma tq_range_add:
  "tq_range (us @ vs) \<Longrightarrow> prio_range p \<Longrightarrow> int (length (us @ vs)) < 2 ^ 31 - 1
    \<Longrightarrow> tq_range (us @ (t, p) # vs)"
  by (auto simp: tq_range_def)

lemma tq_rep_range: "tq_rep s ps \<Longrightarrow> tq_range ps"
  by (auto simp: tq_rep_def)

lemma tq_rep_init: "tq_rep (pth_pqueue_init q, h) []"
  by (simp add: tq_rep_def pth_pqueue_init_def)

lemma tq_rep_ne:
  "ps \<noteq> [] \<Longrightarrow> tq_rep (q, h) ps \<longleftrightarrow> q_head q = fst (hd ps)
     \<and> dcycle (qnext h) (qprev h) (map fst ps) \<and> 0 \<notin> set (map fst ps)
     \<and> q_num q = int (length ps) \<and> prios (qprio h) ps \<and> tq_range ps"
  by (cases ps) (auto simp: tq_rep_def)

lemma tq_rep_Nil: "tq_rep s ps \<Longrightarrow> q_head (fst s) = 0 \<longleftrightarrow> ps = []"
  by (cases s; cases ps) (auto simp: tq_rep_def)

lemma tq_rep_nonzero: "tq_rep s ps \<Longrightarrow> 0 \<notin> set (map fst ps)"
  by (auto simp: tq_rep_def)

lemma tq_rep_distinct: "tq_rep s ps \<Longrightarrow> distinct (map fst ps)"
  using dcycle_distinct by (cases s; cases "ps = []") (auto simp: tq_rep_ne)

lemma prios_append:
  "xs \<noteq> [] \<Longrightarrow> prios \<pi> (xs @ (t, r) # ys) \<longleftrightarrow> prios \<pi> xs \<and> \<pi> t = snd (last xs) - r \<and> deltas \<pi> r ys"
  by (cases xs) (auto simp: deltas_append)

lemma prios_cong: "(\<And>x. x \<in> fst ` set ps \<Longrightarrow> \<pi> x = \<pi>' x) \<Longrightarrow> prios \<pi> ps = prios \<pi>' ps"
  using deltas_cong [of "tl ps" \<pi> \<pi>' "snd (hd ps)"] by (cases ps) auto

lemma prios_upd [simp]: "t \<notin> fst ` set ps \<Longrightarrow> prios (\<pi>(t := v)) ps = prios \<pi> ps"
  by (rule prios_cong) auto

lemma prios_deltas: "prios \<pi> (xs @ (c, p) # ys) \<Longrightarrow> deltas \<pi> p ys"
  by (cases xs) (auto simp: deltas_append)

subsection \<open>Insertion\<close>

definition tq_ins :: "int \<Rightarrow> nat \<Rightarrow> (nat \<times> int) list \<Rightarrow> (nat \<times> int) list" where
  "tq_ins prio t ps = takeWhile (\<lambda>x. prio \<le> snd x) ps @ (t, prio) # dropWhile (\<lambda>x. prio \<le> snd x) ps"

lemma insert_pos_result:
  fixes us :: "(nat \<times> int) list"
  assumes "dcycle (qnext h) (qprev h) (map fst us @ c # map fst vs)"
    and "head = hd (map fst us @ [c])" and "deltas (qprio h) p vs"
    and "prio_range p" and "\<forall>x\<in>set vs. prio_range (snd x)"
  shows "insert_pos h head prio c p = Some (last ((c, p) # takeWhile (\<lambda>x. prio \<le> snd x) vs))"
  using assms
proof (induction vs arbitrary: us c p)
  case Nil
  have "qnext h c = head" using dcycle_next_at [OF Nil.prems(1)] Nil.prems(2) by simp
  then show ?case by (subst insert_pos.simps) simp
next
  case (Cons x vs)
  obtain v pv where x: "x = (v, pv)" by (cases x)
  have nx: "qnext h c = v" using dcycle_next_at [OF Cons.prems(1)] x by simp
  have pr: "wrap_int (p - qprio h v) = pv" using Cons.prems(3,5) x by (simp add: wrap_prio)
  have "v \<noteq> head"
    using dcycle_distinct [OF Cons.prems(1)] Cons.prems(2) x by (cases us) auto
  moreover have "insert_pos h head prio v pv = Some (last ((v, pv) # takeWhile (\<lambda>x. prio \<le> snd x) vs))"
  proof (rule Cons.IH [of "us @ [(c, p)]"])
    show "dcycle (qnext h) (qprev h) (map fst (us @ [(c, p)]) @ v # map fst vs)"
      using Cons.prems(1) x by simp
    show "head = hd (map fst (us @ [(c, p)]) @ [v])" using Cons.prems(2) by (cases us) auto
    show "deltas (qprio h) pv vs" using Cons.prems(3) x by simp
    show "prio_range pv" "\<forall>x\<in>set vs. prio_range (snd x)" using Cons.prems(5) x by simp_all
  qed
  ultimately show ?case using nx pr x by (subst insert_pos.simps) auto
qed

lemma tq_insert_first:
  assumes "tq_rep s []" and "t \<noteq> 0" and "prio_range prio"
  shows "\<exists>s'. pth_pqueue_insert prio t s = Some s' \<and> tq_rep s' [(t, prio)]"
  using assms wrap_num [of 1]
  by (cases s) (auto simp: tq_rep_def pth_pqueue_insert_def heap_simps wrap_prio tq_range_def)

lemma tq_insert_head:
  assumes rep: "tq_rep s ((a, pa) # ps)" and t: "t \<noteq> 0" "t \<notin> set (map fst ((a, pa) # ps))"
    and lt: "pa < prio" and pr: "prio_range prio" and len: "int (Suc (length ps)) < 2 ^ 31 - 1"
  shows "\<exists>s'. pth_pqueue_insert prio t s = Some s' \<and> tq_rep s' ((t, prio) # (a, pa) # ps)"
proof -
  obtain q h where s: "s = (q, h)" by (cases s)
  let ?as = "map fst ps"
  have r: "q_head q = a" "dcycle (qnext h) (qprev h) (a # ?as)" "a \<noteq> 0" "0 \<notin> set ?as"
    "q_num q = int (Suc (length ps))" "qprio h a = pa" "deltas (qprio h) pa ps"
    using rep by (auto simp: s tq_rep_def)
  have g: "tq_range ((a, pa) # ps)" "prio_range pa" using tq_rep_range [OF rep] by (auto simp: tq_range_def)
  have num: "wrap_int (q_num q + 1) = q_num q + 1"
    using wrap_num [of "Suc (Suc (length ps))"] len r(5) by (simp add: add.commute)
  have d: "a \<notin> set ?as" "t \<noteq> a" "t \<notin> set ?as" using dcycle_distinct [OF r(2)] t by auto
  have pt: "qprev h a \<noteq> t"
    using dcycle_prev [OF r(2)] last_in_set [of "a # ?as"] d by (metis list.distinct(1) set_ConsD)
  obtain q' h' where res: "pth_pqueue_insert prio t s = Some (q', h')" by (cases "pth_pqueue_insert prio t s")
      (use r lt in \<open>auto simp: s pth_pqueue_insert_def Let_def\<close>)
  then have f: "q_head q' = t" "q_num q' = q_num q + 1"
    "qnext h' = (qnext h)(t := a, qprev h a := t)" "qprev h' = (qprev h)(t := qprev h a, a := t)"
    "qprio h' = (qprio h)(t := prio, a := prio - pa)"
    using r(1,3,6) num lt d(2) pt r(5) wrap_diff [OF pr g(2)]
    by (auto simp: s pth_pqueue_insert_def Let_def heap_simps wrap_prio [OF pr] simp del: of_nat_Suc)
  have "dcycle (qnext h') (qprev h') (a # ?as @ [t])"
    unfolding f using dcycle_insert_before [OF r(2), of t] d by simp
  then have "dcycle (qnext h') (qprev h') (t # a # ?as)"
    using dcycle_rotate [of _ _ "[t]" "a # ?as"] by simp
  moreover have "deltas (qprio h') pa ps" using r(7) d by (simp add: f)
  ultimately have "tq_rep (q', h') ((t, prio) # (a, pa) # ps)"
    using r t d tq_range_add [of "[]", simplified, OF g(1) pr] len by (auto simp: tq_rep_ne f)
  with res show ?thesis by blast
qed

lemma tq_insert_mid:
  assumes rep: "tq_rep s ps" and t: "t \<noteq> 0" "t \<notin> set (map fst ps)"
    and tw: "takeWhile (\<lambda>x. prio \<le> snd x) ps = us @ [(c, p)]"
    and dw: "dropWhile (\<lambda>x. prio \<le> snd x) ps = ds"
    and pr: "prio_range prio" and len: "int (length ps) < 2 ^ 31 - 1"
  shows "\<exists>s'. pth_pqueue_insert prio t s = Some s' \<and> tq_rep s' (us @ (c, p) # (t, prio) # ds)"
proof -
  obtain q h where s: "s = (q, h)" by (cases s)
  have ps: "ps = us @ (c, p) # ds" using takeWhile_dropWhile_id [of "\<lambda>x. prio \<le> snd x" ps] tw dw by simp
  let ?us = "map fst us" and ?ds = "map fst ds"
  have r: "q_head q = hd (?us @ [c])" "dcycle (qnext h) (qprev h) (?us @ c # ?ds)"
    "0 \<notin> set (?us @ c # ?ds)" "q_num q = int (length ps)" "prios (qprio h) ps"
    using rep ps by (cases us; auto simp: s tq_rep_ne)+
  have g: "tq_range (us @ (c, p) # ds)" using tq_rep_range [OF rep] ps by simp
  then have gp: "prio_range p" "\<forall>x\<in>set ds. prio_range (snd x)" by (auto simp: tq_range_def)
  have num: "wrap_int (q_num q + 1) = q_num q + 1"
    using wrap_num [of "Suc (length ps)"] len r(4) by (simp add: add.commute)
  have d: "distinct (?us @ c # ?ds)" by (rule dcycle_distinct [OF r(2)])
  have t': "t \<noteq> c" "t \<notin> set ?us" "t \<notin> set ?ds" using t ps by auto
  obtain a pa rest where head: "ps = (a, pa) # rest" by (cases ps) (use ps in auto)
  have a: "q_head q = a" "a \<noteq> 0" "qprio h a = pa" "prio \<le> pa"
    using r head ps tw by (auto simp: s takeWhile.simps split: if_splits) (cases us; simp)+
  have "insert_pos h a prio a pa = Some (last ((a, pa) # takeWhile (\<lambda>x. prio \<le> snd x) rest))"
  proof (rule insert_pos_result [of h "[]"])
    have "map fst ps = ?us @ c # ?ds" using ps by simp
    with r(2) head show "dcycle (qnext h) (qprev h) (map fst [] @ a # map fst rest)" by (metis append_Nil fst_conv list.simps(8,9))
    show "deltas (qprio h) pa rest" using r(5) head by simp
    show "prio_range pa" "\<forall>x\<in>set rest. prio_range (snd x)"
      using tq_rep_range [OF rep] head by (auto simp: tq_range_def)
  qed simp
  moreover have "(a, pa) # takeWhile (\<lambda>x. prio \<le> snd x) rest = us @ [(c, p)]" using tw head a by simp
  ultimately have pos: "insert_pos h a prio a pa = Some (c, p)" by simp
  have nc: "qnext h c = hd (?ds @ ?us @ [c])" using dcycle_next_at [OF r(2)] by simp
  have ntc: "qnext h c \<noteq> t" using nc t' by (cases ds; cases us) auto
  have nh: "qnext h c = a \<longleftrightarrow> ds = []"
  proof (cases ds)
    case Nil
    with nc r(1) a show ?thesis by (cases us) auto
  next
    case (Cons x xs)
    with nc d head ps show ?thesis by (cases us) auto
  qed
  have old: "prios (qprio h) (us @ [(c, p)])" "deltas (qprio h) p ds"
    using r(5) prios_append [of us "qprio h" c p "[]"] prios_append [of us "qprio h" c p ds]
      prios_deltas [of "qprio h" us c p ds] ps by (cases us; auto)+
  have wd: "wrap_int (p - prio) = p - prio" by (rule wrap_diff [OF gp(1) pr])
  have nd: "wrap_int (qprio h (qnext h c) - (p - prio)) = qprio h (qnext h c) - (p - prio)" if "ds \<noteq> []"
    using that nc old(2) gp(2) wrap_diff [OF pr, of "snd (hd ds)"] by (cases ds) auto
  obtain q' h' where res: "pth_pqueue_insert prio t s = Some (q', h')"
    by (cases "pth_pqueue_insert prio t s")
      (use a pos r(4) head in \<open>auto simp: s pth_pqueue_insert_def Let_def\<close>)
  then have f: "q_head q' = a" "q_num q' = q_num q + 1"
    "qnext h' = (qnext h)(t := qnext h c, c := t)" "qprev h' = (qprev h)(t := c, qnext h c := t)"
    "qprio h' = (if ds = [] then (qprio h)(t := p - prio)
       else (qprio h)(t := p - prio, qnext h c := qprio h (qnext h c) - (p - prio)))"
    using a pos num r(4) head t' ntc nh wd nd
    by (auto simp: s pth_pqueue_insert_def Let_def heap_simps fun_upd_twist split: if_splits)
  have "dcycle (qnext h') (qprev h') (c # t # ?ds @ ?us)"
    unfolding f using dcycle_insert_after [OF dcycle_at [OF r(2)], of t] t' by simp
  then have cyc: "dcycle (qnext h') (qprev h') (?us @ c # t # ?ds)"
    using dcycle_rotate [of _ _ ?us "c # t # ?ds"] by simp
  have "prios (qprio h') (us @ (c, p) # (t, prio) # ds)"
  proof (cases ds)
    case Nil
    with old t' show ?thesis using prios_append [of "us @ [(c, p)]" "qprio h'" t prio "[]"] by (simp add: f)
  next
    case (Cons x xs)
    obtain v pv where x: "x = (v, pv)" by (cases x)
    have v: "qnext h c = v" "v \<noteq> c" "v \<notin> set ?us" "v \<notin> fst ` set xs" "t \<noteq> v"
      using nc Cons x d t' by auto
    have "deltas (qprio h') prio ds" using old(2) Cons x v t' by (simp add: f)
    moreover have "prios (qprio h') (us @ [(c, p)])" using old(1) Cons v t' by (simp add: f)
    moreover have "qprio h' t = p - prio" using Cons v by (simp add: f)
    ultimately show ?thesis using prios_append [of "us @ [(c, p)]" "qprio h'" t prio ds] by simp
  qed
  then have "tq_rep (q', h') (us @ (c, p) # (t, prio) # ds)"
    using cyc r t a tq_range_add [of "us @ [(c, p)]" ds prio t] g pr len
    by (cases us) (auto simp: tq_rep_ne f ps simp del: dcycle_Cons)
  with res show ?thesis by blast
qed

lemma tq_insert_rep:
  assumes rep: "tq_rep s ps" and t: "t \<noteq> 0" "t \<notin> set (map fst ps)"
    and g: "prio_range prio" "int (length ps) < 2 ^ 31 - 1"
  shows "\<exists>s'. pth_pqueue_insert prio t s = Some s' \<and> tq_rep s' (tq_ins prio t ps)"
proof (cases "takeWhile (\<lambda>x. prio \<le> snd x) ps" rule: rev_cases)
  case Nil
  then show ?thesis
  proof (cases ps)
    case Nil
    with tq_insert_first [of s t prio] rep t g show ?thesis by (simp add: tq_ins_def)
  next
    case (Cons x xs)
    with \<open>takeWhile _ ps = []\<close> have "\<not> prio \<le> snd x" by (auto split: if_splits)
    with tq_insert_head [of s "fst x" "snd x" xs t prio] rep t g Cons show ?thesis
      by (simp add: tq_ins_def)
  qed
next
  case (snoc us x)
  with tq_insert_mid [OF rep t, of prio us "fst x" "snd x"] g show ?thesis by (simp add: tq_ins_def)
qed

subsection \<open>Removal\<close>

definition tq_del :: "nat \<Rightarrow> (nat \<times> int) list \<Rightarrow> (nat \<times> int) list" where
  "tq_del t ps = filter (\<lambda>x. fst x \<noteq> t) ps"

lemma filter_not_fst: "t \<notin> fst ` set us \<Longrightarrow> filter (\<lambda>x. fst x \<noteq> t) us = us"
  by (induction us) auto

lemma tq_del_split:
  "distinct (map fst (us @ (t, p) # vs)) \<Longrightarrow> tq_del t (us @ (t, p) # vs) = us @ vs"
  by (auto simp: tq_del_def filter_not_fst)

lemma tq_delete_single:
  assumes "tq_rep s [(t, p)]"
  shows "tq_rep (pth_pqueue_delete t s) []"
  using assms by (cases s) (auto simp: tq_rep_def pth_pqueue_delete_def)

lemma tq_delete_head:
  assumes rep: "tq_rep s ((t, p) # (v, pv) # vs)"
  shows "tq_rep (pth_pqueue_delete t s) ((v, pv) # vs)"
proof -
  obtain q h where s: "s = (q, h)" by (cases s)
  let ?vs = "map fst vs"
  have r: "q_head q = t" "dcycle (qnext h) (qprev h) (t # v # ?vs)" "t \<noteq> 0" "0 \<notin> set (v # ?vs)"
    "q_num q = 2 + int (length vs)" "qprio h t = p" "qprio h v = p - pv" "deltas (qprio h) pv vs"
    using rep by (auto simp: s tq_rep_def)
  have g: "tq_range ((t, p) # (v, pv) # vs)" by (rule tq_rep_range [OF rep])
  have num: "wrap_int (q_num q - 1) = q_num q - 1"
    using wrap_num [of "Suc (length vs)"] g r(5) by (simp add: tq_range_def)
  have pv: "wrap_int (p - qprio h v) = p - qprio h v" using g r(7) by (simp add: tq_range_def wrap_prio)
  have d: "t \<noteq> v" "t \<notin> set ?vs" "v \<notin> set ?vs" using dcycle_distinct [OF r(2)] by auto
  have nt: "qnext h t = v" using r(2) by simp
  have pt: "qprev h t \<noteq> t"
    using dcycle_prev [OF r(2)] d last_in_set [of "v # ?vs"] by (metis last_ConsR list.distinct(1) set_ConsD)
  obtain q' h' where res: "pth_pqueue_delete t s = (q', h')" by (cases "pth_pqueue_delete t s")
  then have f: "q_head q' = v" "q_num q' = q_num q - 1"
    "qnext h' = (qnext h)(qprev h t := v)" "qprev h' = (qprev h)(v := qprev h t)"
    "qprio h' = (qprio h)(v := p - qprio h v, t := 0)"
    using r(1,3,6) num pv nt pt d(1) by (auto simp: s pth_pqueue_delete_def Let_def heap_simps)
  have "dcycle (qnext h) (qprev h) (v # ?vs @ t # [])"
    using r(2) dcycle_rotate [of "qnext h" "qprev h" "[t]" "v # ?vs"] by simp
  from dcycle_remove [OF this] have "dcycle (qnext h') (qprev h') (v # ?vs)" by (simp add: f nt)
  moreover have "deltas (qprio h') pv vs" using r(8) d by (simp add: f)
  moreover have "tq_range ((v, pv) # vs)" by (rule tq_range_mono [OF _ _ g]) auto
  ultimately show ?thesis using r d by (auto simp: res tq_rep_ne f)
qed

lemma tq_delete_inner:
  assumes rep: "tq_rep s (us @ (t, p) # vs)" and us: "us \<noteq> []"
  shows "tq_rep (pth_pqueue_delete t s) (us @ vs)"
proof -
  obtain q h where s: "s = (q, h)" by (cases s)
  obtain a us' where us': "map fst us = a # us'" using us by (cases us) auto
  let ?us = "map fst us" and ?vs = "map fst vs"
  have r: "q_head q = a" "dcycle (qnext h) (qprev h) (a # us' @ t # ?vs)"
    "0 \<notin> set (a # us' @ t # ?vs)" "q_num q = int (Suc (length us + length vs))"
    "prios (qprio h) (us @ (t, p) # vs)"
    using rep us us' by (cases us; auto simp: s tq_rep_ne)+
  have d: "distinct (a # us' @ t # ?vs)" by (rule dcycle_distinct [OF r(2)])
  have r2: "dcycle (qnext h) (qprev h) ((a # us') @ t # ?vs)" using r(2) by simp
  have nt: "qnext h t = hd (?vs @ [a])" using dcycle_next_at [OF r2] by (cases vs) auto
  have pt: "qprev h t = last (a # us')" using dcycle_prev_at [OF r2] by (auto split: if_splits)
  then have ptt: "qprev h t \<noteq> t" using d last_in_set [of "a # us'"] by (auto split: if_splits)
  obtain q' h' where res: "pth_pqueue_delete t s = (q', h')" by (cases "pth_pqueue_delete t s")
  have ta: "t \<noteq> a" "a \<noteq> 0" using d r(3) by auto
  have na: "qnext h t = a \<longleftrightarrow> vs = []" using nt d by (cases vs) auto
  have g: "tq_range (us @ (t, p) # vs)" by (rule tq_rep_range [OF rep])
  have num: "wrap_int (q_num q - 1) = q_num q - 1"
    using wrap_num [of "length us + length vs"] g r(4) by (simp add: tq_range_def)
  have old: "prios (qprio h) us" "qprio h t = snd (last us) - p" "deltas (qprio h) p vs"
    using r(5) prios_append [OF us] by auto
  have nd: "wrap_int (qprio h (qnext h t) + qprio h t) = qprio h (qnext h t) + qprio h t" if "vs \<noteq> []"
    using that nt old(2,3) g us wrap_diff [of "snd (last us)" "snd (hd vs)"] last_in_set [OF us]
    by (cases vs) (auto simp: tq_range_def)
  from res have f: "q_head q' = a" "q_num q' = q_num q - 1"
    "qnext h' = (qnext h)(qprev h t := qnext h t)" "qprev h' = (qprev h)(qnext h t := qprev h t)"
    "qprio h' = (if vs = [] then (qprio h)(t := 0)
       else (qprio h)(qnext h t := qprio h (qnext h t) + qprio h t, t := 0))"
    using r(1) ta na ptt num nd by (auto simp: s pth_pqueue_delete_def Let_def heap_simps)
  have cyc: "dcycle (qnext h') (qprev h') (a # us' @ ?vs)" unfolding f by (rule dcycle_remove [OF r(2)])
  have tu: "t \<notin> fst ` set us" "t \<notin> fst ` set vs" using d us' by (auto simp flip: set_map)
  have "prios (qprio h') (us @ vs)"
  proof (cases vs)
    case Nil
    with old tu show ?thesis by (simp add: f)
  next
    case (Cons x xs)
    obtain v pv where x: "x = (v, pv)" by (cases x)
    have v: "qnext h t = v" "v \<notin> fst ` set us" "v \<notin> fst ` set xs" "t \<noteq> v"
      using nt Cons x d us' by (auto simp flip: set_map)
    have "prios (qprio h') us" "deltas (qprio h') pv xs" "qprio h' v = snd (last us) - pv"
      using old Cons x v tu by (simp_all add: f)
    with prios_append [OF us] Cons x show ?thesis by simp
  qed
  moreover have "map fst (us @ vs) = a # us' @ ?vs" using us' by simp
  moreover have "fst (hd (us @ vs)) = a" using us us' by (cases us) auto
  moreover have "tq_range (us @ vs)" by (rule tq_range_mono [OF _ _ g]) auto
  ultimately show ?thesis using us cyc r by (auto simp: res tq_rep_ne f simp del: map_append dcycle_Cons)
qed

lemma tq_delete_rep:
  assumes rep: "tq_rep s ps" and t: "t \<in> set (map fst ps)"
  shows "tq_rep (pth_pqueue_delete t s) (tq_del t ps)"
proof -
  from t obtain p where "(t, p) \<in> set ps" by auto
  then obtain us vs where ps: "ps = us @ (t, p) # vs" by (auto simp: in_set_conv_decomp)
  have del: "tq_del t ps = us @ vs"
    using tq_del_split tq_rep_distinct [OF rep] unfolding ps by blast
  show ?thesis
  proof (cases us)
    case Nil
    show ?thesis
    proof (cases vs)
      case Nil
      with \<open>us = []\<close> tq_delete_single rep ps del show ?thesis by auto
    next
      case (Cons x xs)
      with \<open>us = []\<close> tq_delete_head [of s t p "fst x" "snd x" xs] rep ps del show ?thesis by simp
    qed
  next
    case (Cons x xs)
    with tq_delete_inner [of s us t p vs] rep ps del show ?thesis by simp
  qed
qed

lemma tq_delmax_delete:
  "q_head (fst s) \<noteq> 0 \<Longrightarrow> pth_pqueue_delmax s = (q_head (fst s), pth_pqueue_delete (q_head (fst s)) s)"
  by (cases s) (auto simp: pth_pqueue_delmax_def pth_pqueue_delete_def Let_def)

lemma tq_delmax_rep:
  assumes rep: "tq_rep s ps"
  shows "fst (pth_pqueue_delmax s) = (case ps of [] \<Rightarrow> 0 | x # _ \<Rightarrow> fst x)"
    and "tq_rep (snd (pth_pqueue_delmax s)) (tl ps)"
proof -
  have "fst (pth_pqueue_delmax s) = (case ps of [] \<Rightarrow> 0 | x # _ \<Rightarrow> fst x)
      \<and> tq_rep (snd (pth_pqueue_delmax s)) (tl ps)"
  proof (cases ps)
    case Nil
    with rep show ?thesis by (cases s) (auto simp: tq_rep_def pth_pqueue_delmax_def)
  next
    case (Cons x xs)
    then have hd: "q_head (fst s) = fst x" "fst x \<noteq> 0" using rep by (cases s; auto simp: tq_rep_ne)+
    have "tq_del (fst x) ps = xs"
      using tq_del_split [of "[]" "fst x" "snd x" xs] tq_rep_distinct [OF rep] Cons by simp
    with tq_delete_rep [OF rep, of "fst x"] tq_delmax_delete [of s] hd Cons show ?thesis by simp
  qed
  then show "fst (pth_pqueue_delmax s) = (case ps of [] \<Rightarrow> 0 | x # _ \<Rightarrow> fst x)"
    "tq_rep (snd (pth_pqueue_delmax s)) (tl ps)" by auto
qed

subsection \<open>Raising priorities\<close>

text \<open>One store raises every priority of the queue.\<close>

definition tq_inc :: "(nat \<times> int) list \<Rightarrow> (nat \<times> int) list" where
  "tq_inc ps = map (\<lambda>(t, p). (t, p + 1)) ps"

lemma deltas_inc: "deltas \<pi> (p + 1) (tq_inc ps) = deltas \<pi> p ps"
  by (induction \<pi> p ps rule: deltas.induct) (auto simp: tq_inc_def)

lemma fst_tq_inc [simp]: "map fst (tq_inc ps) = map fst ps" "fst ` set (tq_inc ps) = fst ` set ps"
  "length (tq_inc ps) = length ps" "tq_inc ps = [] \<longleftrightarrow> ps = []"
  by (auto simp: tq_inc_def case_prod_beta image_image)

lemma tq_range_inc:
  "tq_range ps \<Longrightarrow> \<forall>x\<in>set ps. prio_range (snd x + 1) \<Longrightarrow> tq_range (tq_inc ps)"
  by (auto simp: tq_range_def tq_inc_def)

lemma tq_increase_rep:
  assumes "tq_rep s ps" and g: "\<forall>x\<in>set ps. prio_range (snd x + 1)"
  shows "tq_rep (pth_pqueue_increase s) (tq_inc ps)"
proof (cases ps)
  case Nil
  with assms show ?thesis by (cases s) (auto simp: tq_rep_def pth_pqueue_increase_def tq_inc_def tq_range_def)
next
  case (Cons x xs)
  obtain q h where s: "s = (q, h)" by (cases s)
  obtain a p where x: "x = (a, p)" by (cases x)
  have inc: "tq_inc ps = (a, p + 1) # tq_inc xs" by (simp add: tq_inc_def Cons x)
  have r: "q_head q = a" "dcycle (qnext h) (qprev h) (a # map fst xs)" "a \<noteq> 0" "0 \<notin> fst ` set xs"
    "q_num q = int (Suc (length xs))" "qprio h a = p" "deltas (qprio h) p xs"
    using assms(1) by (auto simp: s Cons x tq_rep_def)
  have "a \<notin> fst ` set xs" using dcycle_distinct [OF r(2)] by (simp flip: set_map)
  then have "deltas ((qprio h)(a := p + 1)) (p + 1) (tq_inc xs)" using r(7) by (simp add: deltas_inc)
  moreover have "wrap_int (p + 1) = p + 1" using g by (simp add: Cons x wrap_prio)
  moreover have "tq_range ((a, p + 1) # tq_inc xs)"
    using tq_range_inc [OF tq_rep_range [OF assms(1)] g] by (simp add: inc)
  ultimately show ?thesis using r
    by (auto simp: s inc pth_pqueue_increase_def tq_rep_ne heap_simps simp del: fst_tq_inc(2))
qed

definition tq_fav :: "nat \<Rightarrow> (nat \<times> int) list \<Rightarrow> (nat \<times> int) list" where
  "tq_fav t ps = (if length ps \<le> 1 then ps else (t, snd (hd (tq_del t ps)) + 1) # tq_del t ps)"

lemma tq_favorite_rep:
  assumes rep: "tq_rep s ps" and t: "t \<in> set (map fst ps)"
    and g: "\<forall>x\<in>set ps. prio_range (snd x + 1)"
  shows "\<exists>s'. pth_pqueue_favorite prio_max t s = Some (True, s') \<and> tq_rep s' (tq_fav t ps)"
proof -
  have ne: "ps \<noteq> []" using t by auto
  then have hd: "q_head (fst s) \<noteq> 0" using tq_rep_Nil [OF rep] by simp
  have num: "q_num (fst s) = int (length ps)" using rep by (cases s) (auto simp: tq_rep_def)
  have t0: "t \<noteq> 0" using tq_rep_nonzero [OF rep] t by metis
  show ?thesis
  proof (cases "length ps \<le> 1")
    case True
    with ne have "length ps = 1" by (cases ps) auto
    with hd num True rep show ?thesis by (simp add: pth_pqueue_favorite_def tq_fav_def)
  next
    case False
    let ?s = "pth_pqueue_delete t s" and ?ps = "tq_del t ps"
    have rep': "tq_rep ?s ?ps" by (rule tq_delete_rep [OF rep t])
    have len: "length ?ps = length ps - 1"
    proof -
      from t obtain p where "(t, p) \<in> set ps" by auto
      then obtain us vs where "ps = us @ (t, p) # vs" by (auto simp: in_set_conv_decomp)
      with tq_del_split [of us t p vs] tq_rep_distinct [OF rep] show ?thesis by simp
    qed
    then obtain x xs where x: "?ps = x # xs" using False by (cases ?ps) auto
    have "x \<in> set ?ps" using x by simp
    then have gx: "prio_range (snd x + 1)" using g by (simp add: tq_del_def)
    have fp: "pth_pqueue_favorite_prio prio_max ?s = snd x + 1"
      using rep' x tq_rep_Nil [OF rep'] wrap_prio [OF gx]
      by (cases ?s; cases x) (auto simp: pth_pqueue_favorite_prio_def tq_rep_def)
    have "t \<notin> set (map fst ?ps)" by (auto simp: tq_del_def)
    moreover have "int (length ?ps) < 2 ^ 31 - 1"
      using len tq_rep_range [OF rep] False by (simp add: tq_range_def of_nat_diff)
    ultimately obtain s' where
      "pth_pqueue_insert (snd x + 1) t ?s = Some s'" "tq_rep s' (tq_ins (snd x + 1) t ?ps)"
      using tq_insert_rep [OF rep' t0 _ gx] by blast
    moreover have "tq_ins (snd x + 1) t ?ps = tq_fav t ps" using False x by (simp add: tq_ins_def tq_fav_def)
    ultimately show ?thesis using hd num False fp
      by (cases s') (auto simp: pth_pqueue_favorite_def Let_def)
  qed
qed

subsection \<open>Order\<close>

lemma falling_ins: "falling ps \<Longrightarrow> falling (tq_ins prio t ps)"
proof (induction ps)
  case (Cons x ps)
  show ?case
  proof (cases "prio \<le> snd x")
    case True
    then have eq: "tq_ins prio t (x # ps) = x # tq_ins prio t ps" by (simp add: tq_ins_def)
    have "set (tq_ins prio t ps) \<subseteq> insert (t, prio) (set ps)"
      by (auto simp: tq_ins_def dest: set_takeWhileD set_dropWhileD)
    with Cons True show ?thesis unfolding eq by (auto simp: falling_def)
  next
    case False
    with Cons.prems show ?thesis by (force simp: tq_ins_def falling_def)
  qed
qed (simp add: tq_ins_def falling_def)

lemma falling_del: "falling ps \<Longrightarrow> falling (tq_del t ps)"
  by (simp add: falling_def tq_del_def sorted_wrt_filter)

lemma falling_tl: "falling ps \<Longrightarrow> falling (tl ps)"
  by (cases ps) (auto simp: falling_def)

lemma falling_inc: "falling ps \<Longrightarrow> falling (tq_inc ps)"
  by (simp add: falling_def tq_inc_def sorted_wrt_map case_prod_beta)

lemma falling_fav: "falling ps \<Longrightarrow> falling (tq_fav t ps)"
proof -
  assume f: "falling ps"
  then have d: "falling (tq_del t ps)" by (rule falling_del)
  then have "\<forall>x\<in>set (tq_del t ps). snd x \<le> snd (hd (tq_del t ps))"
    by (cases "tq_del t ps") (auto simp: falling_def)
  with f d show ?thesis by (auto simp: tq_fav_def falling_def)
qed

subsection \<open>The contract of the thread queues\<close>

datatype tq_op = TInsert int nat | TDelete nat | TDelmax | TIncrease | TFavorite nat

fun tq_step :: "int \<Rightarrow> tq_op \<Rightarrow> tqueue \<Rightarrow> tqueue option" where
  "tq_step prio_max (TInsert prio t) s = pth_pqueue_insert prio t s"
| "tq_step prio_max (TDelete t) s = Some (pth_pqueue_delete t s)"
| "tq_step prio_max TDelmax s = Some (snd (pth_pqueue_delmax s))"
| "tq_step prio_max TIncrease s = Some (pth_pqueue_increase s)"
| "tq_step prio_max (TFavorite t) s = map_option snd (pth_pqueue_favorite prio_max t s)"

fun tq_spec :: "tq_op \<Rightarrow> (nat \<times> int) list \<Rightarrow> (nat \<times> int) list" where
  "tq_spec (TInsert prio t) ps = tq_ins prio t ps"
| "tq_spec (TDelete t) ps = tq_del t ps"
| "tq_spec TDelmax ps = tl ps"
| "tq_spec TIncrease ps = tq_inc ps"
| "tq_spec (TFavorite t) ps = tq_fav t ps"

fun tq_ok :: "tq_op \<Rightarrow> (nat \<times> int) list \<Rightarrow> bool" where
  "tq_ok (TInsert prio t) ps \<longleftrightarrow> t \<noteq> 0 \<and> t \<notin> set (map fst ps) \<and> prio_range prio
     \<and> int (length ps) < 2 ^ 31 - 1"
| "tq_ok (TDelete t) ps \<longleftrightarrow> t \<in> set (map fst ps)"
| "tq_ok TDelmax ps \<longleftrightarrow> True"
| "tq_ok TIncrease ps \<longleftrightarrow> (\<forall>x\<in>set ps. prio_range (snd x + 1))"
| "tq_ok (TFavorite t) ps \<longleftrightarrow> t \<in> set (map fst ps) \<and> (\<forall>x\<in>set ps. prio_range (snd x + 1))"

definition tq_R :: "tqueue \<Rightarrow> (nat \<times> int) list \<Rightarrow> bool" where
  "tq_R s ps \<longleftrightarrow> tq_rep s ps \<and> falling ps"

interpretation tc: container tq_R "tq_step prio_max" tq_spec tq_ok for prio_max
proof
  fix s ps op assume "tq_R s ps" and ok: "tq_ok op ps"
  then have rep: "tq_rep s ps" and f: "falling ps" by (auto simp: tq_R_def)
  show "\<exists>s'. tq_step prio_max op s = Some s' \<and> tq_R s' (tq_spec op ps)"
  proof (cases op)
    case (TInsert prio t)
    with tq_insert_rep [OF rep, of t prio] ok falling_ins [OF f] show ?thesis by (auto simp: tq_R_def)
  next
    case (TFavorite t)
    with tq_favorite_rep [OF rep, of t prio_max] ok falling_fav [OF f] show ?thesis
      by (auto simp: tq_R_def)
  qed (use ok tq_delete_rep [OF rep] tq_delmax_rep(2) [OF rep] tq_increase_rep [OF rep]
      falling_del [OF f] falling_tl [OF f] falling_inc [OF f] in \<open>auto simp: tq_R_def\<close>)
qed

definition tq_holds :: "tqueue \<Rightarrow> nat list \<Rightarrow> bool" where
  "tq_holds s ts \<longleftrightarrow> (\<exists>ps. tq_rep s ps \<and> ts = map fst ps)"

definition thread_opt :: "nat \<Rightarrow> nat option" where
  "thread_opt t = (if t = 0 then None else Some t)"

interpretation tqw: walkable tq_holds "\<lambda>s. thread_opt (pth_pqueue_head s)"
  "\<lambda>s t. thread_opt (pth_pqueue_walk s t WALK_NEXT)"
proof
  fix s ts assume "tq_holds s ts"
  then obtain ps where rep: "tq_rep s ps" "ts = map fst ps" by (auto simp: tq_holds_def)
  then show "thread_opt (pth_pqueue_head s) = head_opt ts"
    by (cases s; cases ps) (auto simp: thread_opt_def pth_pqueue_head_def tq_rep_def)
next
  fix s xs t ys assume "tq_holds s (xs @ t # ys)"
  then obtain ps where rep: "tq_rep s ps" and eq: "map fst ps = xs @ t # ys" by (auto simp: tq_holds_def)
  obtain q h where s: "s = (q, h)" by (cases s)
  have ne: "ps \<noteq> []" using eq by auto
  have c: "dcycle (qnext h) (qprev h) (xs @ t # ys)" and z: "0 \<notin> set (xs @ t # ys)"
    using rep ne by (auto simp: s tq_rep_ne eq simp flip: set_map)
  have "q_head q = fst (hd ps)" using rep ne by (auto simp: s tq_rep_ne)
  then have hd: "q_head q = hd (xs @ [t])" using eq ne by (cases ps; cases xs) auto
  show "thread_opt (pth_pqueue_walk s t WALK_NEXT) = head_opt ys"
    using dcycle_next_at [OF c] hd z dcycle_distinct [OF c]
    by (cases ys; cases xs) (auto simp: s thread_opt_def pth_pqueue_walk_def)
qed

lemma tq_search_suffix:
  assumes "tq_holds s (us @ vs)"
  shows "tq_search s t (case vs of [] \<Rightarrow> 0 | v # _ \<Rightarrow> v) = Some (t \<in> set vs)"
  using assms
proof (induction vs arbitrary: us)
  case Nil
  then show ?case by (simp add: tq_search.simps)
next
  case (Cons v vs)
  from Cons.prems obtain ps where "tq_rep s ps" "us @ v # vs = map fst ps" by (auto simp: tq_holds_def)
  with tq_rep_nonzero [of s ps] have "0 \<notin> set (us @ v # vs)" by metis
  then have "v \<noteq> 0" by auto
  moreover have "pth_pqueue_walk s v WALK_NEXT = (case vs of [] \<Rightarrow> 0 | v # _ \<Rightarrow> v)"
    using tqw.next_holds [OF Cons.prems] by (cases vs) (auto simp: thread_opt_def split: if_splits)
  ultimately show ?case using Cons.IH [of "us @ [v]"] Cons.prems
    by (simp add: tq_search.simps [of s t v])
qed

lemma tq_contains_iff:
  assumes "tq_holds s ts"
  shows "pth_pqueue_contains t s = Some (t \<in> set ts)"
proof -
  have "pth_pqueue_head s = (case ts of [] \<Rightarrow> 0 | v # _ \<Rightarrow> v)"
    using tqw.first_holds [OF assms] by (cases ts) (auto simp: thread_opt_def split: if_splits)
  with tq_search_suffix [of s "[]" ts t] assms show ?thesis by (simp add: pth_pqueue_contains_def)
qed

subsection \<open>Quick insertion\<close>

text \<open>
  \<open>pth_pqueue_Qinsert\<close> with priority 0 stores 0 as the difference to the last thread, which
  gives the new one the priority of the last thread instead of 0.
\<close>

lemma tq_Qinsert_zero:
  assumes rep: "tq_rep s ps" and t: "t \<noteq> 0" "t \<notin> set (map fst ps)" and ne: "ps \<noteq> []"
    and len: "int (length ps) < 2 ^ 31 - 1"
  shows "\<exists>s'. pth_pqueue_Qinsert 0 t s = Some s' \<and> tq_rep s' (ps @ [(t, snd (last ps))])"
proof -
  obtain q h where s: "s = (q, h)" by (cases s)
  obtain a as where as: "map fst ps = a # as" using ne by (cases ps) auto
  have r: "q_head q = a" "dcycle (qnext h) (qprev h) (a # as)" "0 \<notin> set (a # as)"
    "q_num q = int (length ps)" "prios (qprio h) ps"
    using rep ne as by (cases ps; auto simp: s tq_rep_ne)+
  have num: "wrap_int (int (length ps) + 1) = int (length ps) + 1"
    using wrap_num [of "Suc (length ps)"] len by (simp add: add.commute)
  have g: "tq_range (ps @ [(t, snd (last ps))])"
    using tq_range_add [of ps "[]" "snd (last ps)" t] tq_rep_range [OF rep] len last_in_set [OF ne]
    by (simp add: tq_range_def)
  have t': "t \<noteq> a" "t \<notin> set as" using t as by auto
  let ?c = "qprev h a"
  have c: "?c = last (a # as)" by (rule dcycle_prev [OF r(2)])
  have c': "?c \<in> set (a # as)" unfolding c by (rule last_in_set) simp
  have nc: "qnext h ?c = a"
  proof -
    have sp: "butlast (a # as) @ ?c # [] = a # as" unfolding c by (rule append_butlast_last_id) simp
    then have "dcycle (qnext h) (qprev h) (butlast (a # as) @ ?c # [])" using r(2) by simp
    from dcycle_next_at [OF this] sp show ?thesis by (metis append_Nil hd_append2 list.sel(1) snoc_eq_iff_butlast)
  qed
  have tc: "t \<noteq> ?c" using c' t' by auto
  obtain q' h' where res: "pth_pqueue_Qinsert 0 t s = Some (q', h')"
    using r ne by (auto simp: s pth_pqueue_Qinsert_def Let_def)
  then have f: "q_head q' = a" "q_num q' = q_num q + 1"
    "qnext h' = (qnext h)(t := a, ?c := t)" "qprev h' = (qprev h)(t := ?c, a := t)"
    "qprio h' = (qprio h)(t := 0)"
    using r(1,3,4) ne nc t'(1) tc num by (auto simp: s pth_pqueue_Qinsert_def Let_def heap_simps)
  have "dcycle (qnext h') (qprev h') (a # as @ [t])"
    unfolding f using dcycle_insert_before [OF r(2), of t] t' by simp
  moreover have "prios (qprio h') (ps @ [(t, snd (last ps))])"
    using prios_append [OF ne] r(5) t(2) by (simp add: f)
  moreover have "map fst (ps @ [(t, snd (last ps))]) = a # as @ [t]" using as by simp
  moreover have "fst (hd (ps @ [(t, snd (last ps))])) = a" using as ne by (cases ps) auto
  ultimately have "tq_rep (q', h') (ps @ [(t, snd (last ps))])"
    using r t ne g by (auto simp: tq_rep_ne f simp del: map_append dcycle_Cons)
  with res show ?thesis by blast
qed

subsection \<open>Properties\<close>

text \<open>
  C17.  The thread queues with relative priorities implement lists of threads with absolute
  priorities: any allowed sequence of insertions, deletions, removals of the maximum, favouring
  and priority increases has the effect of the list operations and keeps the list in falling
  order, so the thread that \<open>pth_pqueue_delmax\<close> returns has a maximal priority.  A
  sequence is allowed if every priority stays between \<open>-2^30\<close> and \<open>2^30\<close> and the
  queue never holds \<open>2^31\<close> threads: then no difference of two priorities leaves the
  range of an int.
\<close>

theorem tqueue_refines:
  assumes "tq_R s ps" and "ops_ok tq_ok tq_spec ops ps"
  shows "\<exists>s'. run_ops (tq_step prio_max) ops s = Some s' \<and> tq_rep s' (run_spec tq_spec ops ps)
     \<and> falling (run_spec tq_spec ops ps)
     \<and> fst (pth_pqueue_delmax s') = (case run_spec tq_spec ops ps of [] \<Rightarrow> 0 | x # _ \<Rightarrow> fst x)
     \<and> (\<forall>x\<in>set (run_spec tq_spec ops ps). snd x \<le> snd (hd (run_spec tq_spec ops ps)))"
proof -
  from tc.run_implements [OF assms] obtain s' where
    s': "run_ops (tq_step prio_max) ops s = Some s'" "tq_R s' (run_spec tq_spec ops ps)" by blast
  then have "tq_rep s' (run_spec tq_spec ops ps)" and f: "falling (run_spec tq_spec ops ps)"
    by (auto simp: tq_R_def)
  moreover have "\<forall>x\<in>set (run_spec tq_spec ops ps). snd x \<le> snd (hd (run_spec tq_spec ops ps))"
    using f by (cases "run_spec tq_spec ops ps") (auto simp: falling_def)
  ultimately show ?thesis using s'(1) tq_delmax_rep(1) by blast
qed

definition empty_tqueue :: tqueue where
  "empty_tqueue = (pth_pqueue_init \<lparr>q_head = 0, q_num = 0, q_lock = \<lparr>spinlock = \<lparr>lock = 0\<rparr>, owner = 0,
     qcount = 0\<rparr>\<rparr>, \<lambda>_. \<lparr>q_next = 0, q_prev = 0, q_prio = 0\<rparr>)"

theorem tqueue_refines_witness:
  "\<exists>s'. run_ops (tq_step 5) [TInsert 2 10, TInsert 4 11, TInsert 4 12, TIncrease] empty_tqueue = Some s'
     \<and> fst (pth_pqueue_delmax s') = 11"
proof -
  have "tq_R empty_tqueue []" by (simp add: tq_R_def empty_tqueue_def tq_rep_init falling_def)
  from tqueue_refines [OF this, of "[TInsert 2 10, TInsert 4 11, TInsert 4 12, TIncrease]" 5]
  show ?thesis by (auto simp: tq_ins_def tq_inc_def prio_range_def)
qed

text \<open>
  \<open>pth_pqueue_Qinsert\<close> with priority 0 is not \<open>pth_pqueue_insert\<close> with priority
  0: on a non-empty queue the thread is appended with the priority of the last thread.
\<close>

theorem tqueue_Qinsert_wrong_priority:
  assumes "tq_rep s ps" and "t \<noteq> 0" and "t \<notin> set (map fst ps)" and "ps \<noteq> []"
    and "int (length ps) < 2 ^ 31 - 1"
  shows "\<exists>s'. pth_pqueue_Qinsert 0 t s = Some s' \<and> tq_rep s' (ps @ [(t, snd (last ps))])"
  by (rule tq_Qinsert_zero [OF assms])

theorem tqueue_Qinsert_wrong_priority_witness:
  "\<exists>s s'. pth_pqueue_insert 4 11 empty_tqueue = Some s \<and> pth_pqueue_Qinsert 0 12 s = Some s'
     \<and> tq_rep s' [(11, 4), (12, 4)]"
proof -
  have "tq_rep empty_tqueue []" by (simp add: empty_tqueue_def tq_rep_init)
  from tq_insert_rep [OF this, of 11 4] obtain s where
    "pth_pqueue_insert 4 11 empty_tqueue = Some s" "tq_rep s [(11, 4)]" by (auto simp: tq_ins_def prio_range_def)
  with tqueue_Qinsert_wrong_priority [of s "[(11, 4)]" 12] show ?thesis by auto
qed

end
