(* ===== verification/Time.thy ===== *)
theory Time
  imports Prelude "HOL-Library.Signed_Division"
begin

text \<open>
  pth_time.c: time values.  \<open>pth_time_t\<close> is a \<open>long long\<close>, a \<open>64 word\<close> read
  as signed; \<open>long\<close> has 32 bits (i386).  Both configurations are modelled: microseconds
  (no \<open>HP_TIMING_AVAIL\<close>) and ticks of the time stamp counter, whose frequency and base
  line are the record \<open>tsc\<close>.  In the expressions with an unsigned operand
  (\<open>1000000ull\<close>, \<open>hp_timing_t\<close>) division and remainder are the unsigned ones.
\<close>

type_synonym clong = "32 word"
type_synonym pth_time_t = "64 word"

record timeval =
  tv_sec :: clong
  tv_usec :: clong

record timespec =
  ts_sec :: clong
  ts_nsec :: clong

record tsc =
  tsc_counts_sec :: "64 word"
  tsc_counts_usec :: "64 word"
  tsc_baseline :: "64 word"
  tsc_baseline_timeval :: timeval

definition pth_time_zero :: pth_time_t where "pth_time_zero = 0"

text \<open>\<open>PTH_TIME\<close> in microseconds and in ticks.\<close>

definition PTH_TIME :: "clong \<Rightarrow> clong \<Rightarrow> pth_time_t" where
  "PTH_TIME sec usec = scast sec * 1000000 + scast usec"

definition PTH_TIME_hp :: "tsc \<Rightarrow> clong \<Rightarrow> clong \<Rightarrow> pth_time_t" where
  "PTH_TIME_hp c sec usec = scast sec * tsc_counts_sec c + scast usec * tsc_counts_usec c"

text \<open>
  \<open>freq\<close> is what \<open>__get_clockfreq\<close> returns, \<open>tod\<close> and \<open>now\<close> the time of day
  and the counter; the second component is \<open>pth_loadtickgap\<close>.
\<close>

definition pth_time_init :: "64 word \<Rightarrow> timeval \<Rightarrow> 64 word \<Rightarrow> tsc \<times> pth_time_t" where
  "pth_time_init freq tod now =
     (let c = \<lparr>tsc_counts_sec = freq, tsc_counts_usec = freq div 1000000,
               tsc_baseline = now, tsc_baseline_timeval = tod\<rparr>
      in (c, PTH_TIME_hp c 1 0))"

definition pth_time_to_timeval :: "pth_time_t \<Rightarrow> timeval" where
  "pth_time_to_timeval tval =
     \<lparr>tv_sec = ucast (tval div 1000000), tv_usec = ucast (tval mod 1000000)\<rparr>"

definition pth_time_to_timeval_hp :: "tsc \<Rightarrow> pth_time_t \<Rightarrow> timeval" where
  "pth_time_to_timeval_hp c tval =
     (let r = \<lparr>tv_sec = ucast (tval div tsc_counts_sec c),
               tv_usec = ucast (tval mod tsc_counts_sec c div tsc_counts_usec c)\<rparr>
      in if sint (tv_usec r) > 1000000
         then \<lparr>tv_sec = tv_sec r + 1, tv_usec = tv_usec r - 1000000\<rparr> else r)"

definition timeval_to_timespec :: "timeval \<Rightarrow> timespec" where
  "timeval_to_timespec tv = \<lparr>ts_sec = tv_sec tv, ts_nsec = tv_usec tv * 1000\<rparr>"

definition pth_time_to_timespec :: "pth_time_t \<Rightarrow> timespec" where
  "pth_time_to_timespec t = timeval_to_timespec (pth_time_to_timeval t)"

definition pth_time_cmp :: "pth_time_t \<Rightarrow> pth_time_t \<Rightarrow> pth_time_t" where
  "pth_time_cmp t1 t2 = t1 - t2"

definition pth_time_add :: "pth_time_t \<Rightarrow> pth_time_t \<Rightarrow> pth_time_t" where
  "pth_time_add t1 t2 = t1 + t2"

definition pth_time_sub :: "pth_time_t \<Rightarrow> pth_time_t \<Rightarrow> pth_time_t" where
  "pth_time_sub t1 t2 = t1 - t2"

definition pth_time_div :: "pth_time_t \<Rightarrow> pth_time_t \<Rightarrow> pth_time_t" where
  "pth_time_div t1 n = word_of_int (sint t1 sdiv sint n)"

definition pth_time_mul :: "pth_time_t \<Rightarrow> pth_time_t \<Rightarrow> pth_time_t" where
  "pth_time_mul t1 n = t1 * n"

definition pth_time_t2i :: "pth_time_t \<Rightarrow> 32 word" where
  "pth_time_t2i t = ucast (t div 1000000)"

definition pth_time_pos :: "pth_time_t \<Rightarrow> bool" where
  "pth_time_pos t \<longleftrightarrow> sint t > 0"

definition pth_TOD_time :: "clong \<Rightarrow> clong \<Rightarrow> pth_time_t" where
  "pth_TOD_time sec usec = PTH_TIME sec usec"

definition pth_TOD_time_hp :: "tsc \<Rightarrow> clong \<Rightarrow> clong \<Rightarrow> pth_time_t" where
  "pth_TOD_time_hp c sec usec =
     (let s = sec - tv_sec (tsc_baseline_timeval c);
          u = usec - tv_usec (tsc_baseline_timeval c);
          (s1, u1) = (if sint u < 0 then (s - 1, u + 1000000) else (s, u))
      in pth_time_add (tsc_baseline c) (PTH_TIME_hp c s1 u1))"

definition pth_time :: "clong \<Rightarrow> clong \<Rightarrow> pth_time_t" where
  "pth_time sec usec = PTH_TIME sec usec"

text \<open>\<open>now\<close> is the value of \<open>pth_time_set_now\<close>.\<close>

definition PTH_TIMEOUT :: "pth_time_t \<Rightarrow> clong \<Rightarrow> clong \<Rightarrow> pth_time_t" where
  "PTH_TIMEOUT now sec usec = pth_time_add now (PTH_TIME sec usec)"

definition pth_timeout :: "pth_time_t \<Rightarrow> clong \<Rightarrow> clong \<Rightarrow> pth_time_t" where
  "pth_timeout now sec usec = PTH_TIMEOUT now sec usec"

subsection \<open>Lemmas\<close>

text \<open>A normalised, non-negative time value.\<close>

definition tv_ok :: "timeval \<Rightarrow> bool" where
  "tv_ok tv \<longleftrightarrow> 0 \<le> sint (tv_sec tv) \<and> 0 \<le> sint (tv_usec tv) \<and> sint (tv_usec tv) < 1000000"

lemma sint_nonneg:
  assumes "0 \<le> sint (a :: clong)"
  shows "sint a = uint a"
proof -
  have "\<not> bit (uint a) 31" using assms by (simp add: sint_uint)
  moreover have "take_bit (Suc 31) (uint a) = uint a"
    using uint_lt2p [of a] by (simp add: take_bit_int_eq_self)
  moreover have "take_bit (Suc 31) (uint a) = 2 ^ 31 * of_bool (bit (uint a) 31) + take_bit 31 (uint a)"
    by (rule take_bit_Suc_from_most)
  ultimately have "take_bit 31 (uint a) = uint a" by simp
  with \<open>\<not> bit (uint a) 31\<close> show ?thesis by (simp add: sint_uint signed_take_bit_eq_if_positive)
qed

lemma PTH_TIME_int: "PTH_TIME s u = word_of_int (sint s * 1000000 + sint u)"
  by (simp add: PTH_TIME_def)

lemma clong_range: "- (2 ^ 31) \<le> sint (a :: clong)" "sint (a :: clong) < 2 ^ 31"
  using sint_greater_eq [of a] sint_less [of a] by simp_all

lemma uint_PTH_TIME:
  assumes "0 \<le> sint s" and "0 \<le> sint u"
  shows "uint (PTH_TIME s u) = sint s * 1000000 + sint u"
proof -
  have "sint s * 1000000 + sint u < 2 ^ 64" using clong_range(2) [of s] clong_range(2) [of u] by simp
  with assms have "take_bit 64 (sint s * 1000000 + sint u) = sint s * 1000000 + sint u"
    by (intro take_bit_int_eq_self) auto
  then show ?thesis unfolding PTH_TIME_int uint_word_of_int_eq by simp
qed

lemma time_to_timeval_PTH_TIME:
  assumes "0 \<le> sint s" and "0 \<le> sint u" and "sint u < 1000000"
  shows "pth_time_to_timeval (PTH_TIME s u) = \<lparr>tv_sec = s, tv_usec = u\<rparr>"
  using assms uint_PTH_TIME [OF assms(1,2)]
  by (simp add: pth_time_to_timeval_def ucast_eq uint_div_distrib uint_mod_distrib)

text \<open>The difference of two non-negative time values has the right sign.\<close>

lemma sint_word_of_int_small:
  "- (2 ^ 63) \<le> k \<Longrightarrow> k < 2 ^ 63 \<Longrightarrow> sint (word_of_int k :: 64 word) = k"
  by (subst sint_sbintrunc') (simp add: signed_take_bit_int_eq_self)

lemma time_cmp_PTH_TIME:
  "sint (pth_time_cmp (PTH_TIME s u) (PTH_TIME s' u')) =
     (sint s * 1000000 + sint u) - (sint s' * 1000000 + sint u')"
proof -
  have "pth_time_cmp (PTH_TIME s u) (PTH_TIME s' u') =
      word_of_int ((sint s * 1000000 + sint u) - (sint s' * 1000000 + sint u'))"
    by (simp add: pth_time_cmp_def PTH_TIME_int)
  moreover have "- (2 ^ 63) \<le> (sint s * 1000000 + sint u) - (sint s' * 1000000 + sint u')"
    "(sint s * 1000000 + sint u) - (sint s' * 1000000 + sint u') < 2 ^ 63"
    using clong_range [of s] clong_range [of u] clong_range [of s'] clong_range [of u'] by simp_all
  ultimately show ?thesis by (simp only: sint_word_of_int_small)
qed

subsection \<open>Properties\<close>

text \<open>
  Converting a normalised, non-negative time value to the internal type and back returns
  it.
\<close>

theorem time_roundtrip:
  assumes "tv_ok tv"
  shows "pth_time_to_timeval (pth_time (tv_sec tv) (tv_usec tv)) = tv"
  using assms time_to_timeval_PTH_TIME [of "tv_sec tv" "tv_usec tv"]
  by (simp add: tv_ok_def pth_time_def)

theorem time_roundtrip_witness:
  "pth_time_to_timeval (pth_time 5 250000) = \<lparr>tv_sec = 5, tv_usec = 250000\<rparr>"
proof -
  have "tv_ok \<lparr>tv_sec = 5, tv_usec = 250000\<rparr>" by (simp add: tv_ok_def)
  from time_roundtrip [OF this] show ?thesis by simp
qed

text \<open>
  The comparison of two internal time values made from seconds and microseconds never
  overflows: its sign is that of the difference of the times.
\<close>

theorem time_cmp_exact:
  "sint (pth_time_cmp (pth_time s u) (pth_time s' u')) =
     (sint s * 1000000 + sint u) - (sint s' * 1000000 + sint u')"
  unfolding pth_time_def by (rule time_cmp_PTH_TIME)

text \<open>
  With the time stamp counter the normalisation of \<open>pth_time_to_timeval\<close> is off by
  one: at a frequency of 1000001 ticks per second, 1000000 ticks are converted to 0 seconds
  and 1000000 microseconds, which is not a normalised time value.
\<close>

theorem hp_timeval_not_normalised:
  "pth_time_to_timeval_hp (fst (pth_time_init 1000001 tod now)) 1000000
     = \<lparr>tv_sec = 0, tv_usec = 1000000\<rparr>"
  by (simp add: pth_time_to_timeval_hp_def pth_time_init_def Let_def)

end
