(* ===== verification/Keys.thy ===== *)
theory Keys
  imports Locks
begin

text \<open>
  pth_data.c: thread specific data.  The table of keys is a list of \<open>PTH_KEY_MAX\<close>
  entries; a thread has no values (\<open>None\<close>, the pointer is NULL) or a list of
  \<open>PTH_KEY_MAX\<close> of them.  Values and destructors are addresses, \<open>0\<close> is NULL.
  A key is a C \<open>int\<close>; \<open>None\<close> as a result is an access outside the table, or a lock
  that is not obtained.  The destructors are user code: the parameter \<open>call\<close> is their
  effect on the state, and \<open>dcalls\<close> records the calls.

  \<open>key_inv\<close>: the table has its length, and the count of a thread is the number of its
  values that are not NULL.  It is kept by every operation.
\<close>

definition PTH_KEY_MAX :: nat where "PTH_KEY_MAX = 256"
definition PTH_DESTRUCTOR_ITERATIONS :: nat where "PTH_DESTRUCTOR_ITERATIONS = 4"

lemmas key_consts [const_defs] = PTH_KEY_MAX_def PTH_DESTRUCTOR_ITERATIONS_def

record pth_keytab_st =
  used :: bool
  destructor :: nat

record keyworld =
  keytab :: "pth_keytab_st list"
  key_lock :: pth_qlock_st
  data_value :: "nat \<Rightarrow> nat list option"
  data_count :: "nat \<Rightarrow> int"
  dcalls :: "(nat \<times> nat) list"

definition lock_keys :: "nat \<Rightarrow> keyworld \<Rightarrow> keyworld option" where
  "lock_keys tid w = map_option (\<lambda>l. w\<lparr>key_lock := l\<rparr>) (pth_acquire_lock tid (key_lock w))"

definition unlock_keys :: "nat \<Rightarrow> keyworld \<Rightarrow> keyworld" where
  "unlock_keys tid w = w\<lparr>key_lock := snd (pth_release_lock tid (key_lock w))\<rparr>"

text \<open>The loop over the table; the result is \<open>*key\<close>, the return value and the state.\<close>

definition pth_key_create_nolock :: "nat \<Rightarrow> keyworld \<Rightarrow> nat \<times> bool \<times> keyworld" where
  "pth_key_create_nolock func w =
     (case find (\<lambda>k. \<not> used (keytab w ! k)) [0..<PTH_KEY_MAX] of
        Some k \<Rightarrow> (k, True, w\<lparr>keytab := (keytab w)[k := \<lparr>used = True, destructor = func\<rparr>]\<rparr>)
      | None \<Rightarrow> (PTH_KEY_MAX, False, w))"

definition pth_key_create :: "nat \<Rightarrow> nat \<Rightarrow> keyworld \<Rightarrow> (nat \<times> bool \<times> keyworld) option" where
  "pth_key_create tid func w =
     do { w1 \<leftarrow> lock_keys tid w;
          let (k, ok, w2) = pth_key_create_nolock func w1;
          Some (k, ok, unlock_keys tid w2) }"

definition pth_key_delete :: "nat \<Rightarrow> int \<Rightarrow> keyworld \<Rightarrow> (bool \<times> keyworld) option" where
  "pth_key_delete tid key w =
     (if key \<ge> int PTH_KEY_MAX then Some (False, w)
      else if key < 0 then None
      else if \<not> used (keytab w ! nat key) then Some (False, w)
      else do { w1 \<leftarrow> lock_keys tid w;
                let w2 = w1\<lparr>keytab := (keytab w1)[nat key := (keytab w1 ! nat key)\<lparr>used := False\<rparr>]\<rparr>;
                Some (True, unlock_keys tid w2) })"

text \<open>
  \<open>mem\<close>: whether \<open>pth_malloc\<close> succeeds.  It returns zeroed memory.
\<close>

definition pth_key_setdata :: "bool \<Rightarrow> nat \<Rightarrow> int \<Rightarrow> nat \<Rightarrow> keyworld \<Rightarrow> (int \<times> keyworld) option" where
  "pth_key_setdata mem current key value w =
     (if key \<ge> int PTH_KEY_MAX then Some (EINVAL, w)
      else if key < 0 then None
      else if \<not> used (keytab w ! nat key) then Some (EINVAL, w)
      else if data_value w current = None \<and> \<not> mem then Some (ENOMEM, w)
      else let vs = (case data_value w current of None \<Rightarrow> replicate PTH_KEY_MAX 0 | Some vs \<Rightarrow> vs);
               old = vs ! nat key;
               c = (if old = 0 then (if value \<noteq> 0 then data_count w current + 1 else data_count w current)
                    else (if value = 0 then data_count w current - 1 else data_count w current))
           in Some (0, w\<lparr>data_value := (data_value w)(current \<mapsto> vs[nat key := value]),
                         data_count := (data_count w)(current := c)\<rparr>))"

text \<open>\<open>current = 0\<close>: there is no current thread.\<close>

definition pth_key_getdata :: "nat \<Rightarrow> int \<Rightarrow> keyworld \<Rightarrow> nat option" where
  "pth_key_getdata current key w =
     (if current = 0 \<or> key \<ge> int PTH_KEY_MAX then Some 0
      else if key < 0 then None
      else if \<not> used (keytab w ! nat key) then Some 0
      else Some (case data_value w current of None \<Rightarrow> 0 | Some vs \<Rightarrow> vs ! nat key))"

text \<open>
  One key of the loop in \<open>pth_key_destroydata\<close>.  \<open>self\<close> is the native thread the
  function runs on, which a destructor may change.
\<close>

definition destroy_key :: "(nat \<Rightarrow> nat \<Rightarrow> keyworld \<Rightarrow> keyworld) \<Rightarrow> (keyworld \<Rightarrow> nat) \<Rightarrow> nat \<Rightarrow> nat \<Rightarrow>
    keyworld \<Rightarrow> keyworld option" where
  "destroy_key call self t key w =
     (if data_count w t > 0 \<and> used (keytab w ! key) then
        do { vs \<leftarrow> data_value w t;
             (if vs ! key \<noteq> 0 then
                let data = vs ! key;
                    w1 = w\<lparr>data_value := (data_value w)(t \<mapsto> vs[key := 0]),
                           data_count := (data_count w)(t := data_count w t - 1)\<rparr>;
                    d = destructor (keytab w1 ! key)
                in if d \<noteq> 0 then
                     (let w2 = unlock_keys (self w1) w1;
                          w3 = call d data (w2\<lparr>dcalls := dcalls w2 @ [(d, data)]\<rparr>)
                      in lock_keys (self w3) w3)
                   else Some w1
              else Some w) }
      else Some w)"

fun destroy_keys :: "(nat \<Rightarrow> nat \<Rightarrow> keyworld \<Rightarrow> keyworld) \<Rightarrow> (keyworld \<Rightarrow> nat) \<Rightarrow> nat \<Rightarrow> nat list \<Rightarrow>
    keyworld \<Rightarrow> keyworld option" where
  "destroy_keys call self t [] w = Some w"
| "destroy_keys call self t (key # keys) w =
     do { w1 \<leftarrow> destroy_key call self t key w;
          (if data_count w1 t = 0 then Some w1 else destroy_keys call self t keys w1) }"

fun destroy_rounds :: "(nat \<Rightarrow> nat \<Rightarrow> keyworld \<Rightarrow> keyworld) \<Rightarrow> (keyworld \<Rightarrow> nat) \<Rightarrow> nat \<Rightarrow> nat \<Rightarrow>
    keyworld \<Rightarrow> keyworld option" where
  "destroy_rounds call self t 0 w = Some w"
| "destroy_rounds call self t (Suc itr) w =
     do { w1 \<leftarrow> destroy_keys call self t [0..<PTH_KEY_MAX] w;
          (if data_count w1 t = 0 then Some w1 else destroy_rounds call self t itr w1) }"

definition pth_key_destroydata :: "(nat \<Rightarrow> nat \<Rightarrow> keyworld \<Rightarrow> keyworld) \<Rightarrow> (keyworld \<Rightarrow> nat) \<Rightarrow> nat \<Rightarrow>
    keyworld \<Rightarrow> keyworld option" where
  "pth_key_destroydata call self t w =
     do { w1 \<leftarrow> lock_keys (self w) w;
          w2 \<leftarrow> destroy_rounds call self t PTH_DESTRUCTOR_ITERATIONS w1;
          Some (unlock_keys (self w2) (w2\<lparr>data_value := (data_value w2)(t := None)\<rparr>)) }"

subsection \<open>The invariant\<close>

definition nonnull :: "nat list \<Rightarrow> nat" where
  "nonnull vs = length (filter (\<lambda>v. v \<noteq> 0) vs)"

definition values_ok :: "nat list option \<Rightarrow> int \<Rightarrow> bool" where
  "values_ok vs c = (case vs of None \<Rightarrow> c = 0
     | Some l \<Rightarrow> length l = PTH_KEY_MAX \<and> c = int (nonnull l))"

definition key_inv :: "keyworld \<Rightarrow> bool" where
  "key_inv w \<longleftrightarrow> length (keytab w) = PTH_KEY_MAX \<and> (\<forall>t. values_ok (data_value w t) (data_count w t))"

lemma nonnull_upd:
  "k < length vs \<Longrightarrow> int (nonnull (vs[k := v])) =
     int (nonnull vs) + (if v \<noteq> 0 then 1 else 0) - (if vs ! k \<noteq> 0 then 1 else 0)"
proof -
  assume k: "k < length vs"
  have vs: "vs = take k vs @ vs ! k # drop (Suc k) vs" by (rule id_take_nth_drop [OF k])
  have "vs[k := v] = take k vs @ v # drop (Suc k) vs" by (rule upd_conv_take_nth_drop [OF k])
  moreover have "nonnull vs = nonnull (take k vs @ vs ! k # drop (Suc k) vs)" using vs by simp
  ultimately show ?thesis by (simp add: nonnull_def)
qed

lemma nonnull_replicate [simp]: "nonnull (replicate n 0) = 0"
  by (simp add: nonnull_def)

lemma values_ok_Some [simp]: "values_ok (Some l) c \<longleftrightarrow> length l = PTH_KEY_MAX \<and> c = int (nonnull l)"
  by (simp add: values_ok_def)

lemma values_ok_None [simp]: "values_ok None c \<longleftrightarrow> c = 0"
  by (simp add: values_ok_def)

lemma key_inv_thread: "key_inv w \<Longrightarrow> values_ok (data_value w t) (data_count w t)"
  by (simp add: key_inv_def)

lemma lock_keys_sel:
  "lock_keys tid w = Some w1 \<Longrightarrow> keytab w1 = keytab w \<and> data_value w1 = data_value w
     \<and> data_count w1 = data_count w \<and> dcalls w1 = dcalls w"
  by (auto simp: lock_keys_def)

lemma unlock_keys_sel [simp]:
  "keytab (unlock_keys tid w) = keytab w" "data_value (unlock_keys tid w) = data_value w"
  "data_count (unlock_keys tid w) = data_count w" "dcalls (unlock_keys tid w) = dcalls w"
  by (simp_all add: unlock_keys_def)

lemma lock_keys_free: "qfree (key_lock w) \<Longrightarrow> tid \<noteq> 0 \<Longrightarrow>
    \<exists>w1. lock_keys tid w = Some w1 \<and> qheld tid 1 (key_lock w1)"
  using acquire_free [of "key_lock w" tid] by (auto simp: lock_keys_def)

lemma unlock_keys_held: "qheld tid 1 (key_lock w) \<Longrightarrow> qfree (key_lock (unlock_keys tid w))"
  using release_last [of tid "key_lock w"] by (simp add: unlock_keys_def)

lemma key_inv_upd:
  assumes "key_inv w" and "keytab w' = keytab w"
    and "\<And>u. u \<noteq> t \<Longrightarrow> data_value w' u = data_value w u \<and> data_count w' u = data_count w u"
    and "data_value w' t = Some vs" and "length vs = PTH_KEY_MAX" and "data_count w' t = int (nonnull vs)"
  shows "key_inv w'"
proof -
  have "values_ok (data_value w' u) (data_count w' u)" for u
    using key_inv_thread [OF assms(1), of u] assms(3) [of u] assms(4-6) by (cases "u = t") auto
  with assms(1,2) show ?thesis by (simp add: key_inv_def)
qed

lemma key_setdata_inv:
  assumes inv: "key_inv w" and r: "pth_key_setdata mem t key v w = Some (r, w')"
  shows "key_inv w'"
proof (cases "w' = w")
  case False
  let ?vs = "case data_value w t of None \<Rightarrow> replicate PTH_KEY_MAX 0 | Some vs \<Rightarrow> vs"
  have k: "0 \<le> key" "nat key < PTH_KEY_MAX" using r False
    by (auto simp: pth_key_setdata_def Let_def split: if_splits)
  have vs: "length ?vs = PTH_KEY_MAX" "data_count w t = int (nonnull ?vs)"
    using key_inv_thread [OF inv, of t] by (auto simp: values_ok_def split: option.splits)
  have w': "data_value w' = (data_value w)(t \<mapsto> ?vs[nat key := v])" "keytab w' = keytab w"
    "data_count w' = (data_count w)(t := data_count w t + (if v \<noteq> 0 then 1 else 0)
        - (if ?vs ! nat key \<noteq> 0 then 1 else 0))"
    using r False by (auto simp: pth_key_setdata_def Let_def split: if_splits)
  have "data_count w' t = int (nonnull (?vs[nat key := v]))"
    using nonnull_upd [of "nat key" ?vs v] k vs by (simp add: w')
  with vs show ?thesis by (intro key_inv_upd [OF inv, of w' t "?vs[nat key := v]"]) (simp_all add: w')
qed (use inv in simp)

lemma key_getdata_setdata:
  assumes inv: "key_inv w" and r: "pth_key_setdata mem t key v w = Some (0, w')" and t: "t \<noteq> 0"
  shows "pth_key_getdata t key w' = Some v"
    and "u \<noteq> t \<or> k \<noteq> key \<Longrightarrow> pth_key_getdata u k w' = pth_key_getdata u k w"
proof -
  let ?vs = "case data_value w t of None \<Rightarrow> replicate PTH_KEY_MAX 0 | Some vs \<Rightarrow> vs"
  have k: "0 \<le> key" "nat key < PTH_KEY_MAX" "used (keytab w ! nat key)"
    and w': "data_value w' = (data_value w)(t \<mapsto> ?vs[nat key := v])" "keytab w' = keytab w"
    using r by (auto simp: pth_key_setdata_def Let_def const_defs split: if_splits)
  have k': "\<not> key \<ge> int PTH_KEY_MAX" using k(1,2) by linarith
  have len: "length ?vs = PTH_KEY_MAX" using key_inv_thread [OF inv, of t] by (auto simp: values_ok_def split: option.splits)
  show "pth_key_getdata t key w' = Some v" using k k' t len by (simp add: pth_key_getdata_def w')
  show "pth_key_getdata u k w' = pth_key_getdata u k w" if "u \<noteq> t \<or> k \<noteq> key"
    using that k len by (cases "data_value w t") (auto simp: pth_key_getdata_def w' nat_eq_iff)
qed

lemma key_create_result:
  assumes "pth_key_create_nolock func w = (k, ok, w')"
  shows "ok \<longleftrightarrow> (\<exists>j<PTH_KEY_MAX. \<not> used (keytab w ! j))"
    and "ok \<Longrightarrow> k < PTH_KEY_MAX \<and> \<not> used (keytab w ! k) \<and> (\<forall>j<k. used (keytab w ! j))
           \<and> w' = w\<lparr>keytab := (keytab w)[k := \<lparr>used = True, destructor = func\<rparr>]\<rparr>"
    and "\<not> ok \<Longrightarrow> w' = w"
proof -
  let ?f = "find (\<lambda>k. \<not> used (keytab w ! k)) [0..<PTH_KEY_MAX]"
  have none: "?f = None \<longleftrightarrow> (\<forall>j<PTH_KEY_MAX. used (keytab w ! j))" by (auto simp: find_None_iff)
  have some: "?f = Some j \<Longrightarrow> j < PTH_KEY_MAX \<and> \<not> used (keytab w ! j) \<and> (\<forall>i<j. used (keytab w ! i))" for j
    by (auto simp: find_Some_iff)
  have "(ok \<longleftrightarrow> (\<exists>j<PTH_KEY_MAX. \<not> used (keytab w ! j)))
      \<and> (ok \<longrightarrow> k < PTH_KEY_MAX \<and> \<not> used (keytab w ! k) \<and> (\<forall>j<k. used (keytab w ! j))
           \<and> w' = w\<lparr>keytab := (keytab w)[k := \<lparr>used = True, destructor = func\<rparr>]\<rparr>)
      \<and> (\<not> ok \<longrightarrow> w' = w)"
  proof (cases ?f)
    case None
    with assms none show ?thesis by (auto simp: pth_key_create_nolock_def)
  next
    case (Some j)
    with assms some [OF Some] show ?thesis by (auto simp: pth_key_create_nolock_def)
  qed
  then show "ok \<longleftrightarrow> (\<exists>j<PTH_KEY_MAX. \<not> used (keytab w ! j))"
    "ok \<Longrightarrow> k < PTH_KEY_MAX \<and> \<not> used (keytab w ! k) \<and> (\<forall>j<k. used (keytab w ! j))
      \<and> w' = w\<lparr>keytab := (keytab w)[k := \<lparr>used = True, destructor = func\<rparr>]\<rparr>"
    "\<not> ok \<Longrightarrow> w' = w" by auto
qed

subsection \<open>Destroying the values of a thread\<close>

text \<open>The destructor calls for the keys \<open>ks\<close>, in order.\<close>

definition due_calls :: "pth_keytab_st list \<Rightarrow> nat list \<Rightarrow> nat list \<Rightarrow> (nat \<times> nat) list" where
  "due_calls tab vs ks = map (\<lambda>k. (destructor (tab ! k), vs ! k))
     (filter (\<lambda>k. used (tab ! k) \<and> vs ! k \<noteq> 0 \<and> destructor (tab ! k) \<noteq> 0) ks)"

lemma nonnull_zero: "nonnull vs = 0 \<Longrightarrow> k < length vs \<Longrightarrow> vs ! k = 0"
  by (auto simp: nonnull_def filter_empty_conv)

text \<open>What the loop keeps, for destructors that do not touch the thread's data or the lock.\<close>

definition destroying :: "nat \<Rightarrow> nat \<Rightarrow> keyworld \<Rightarrow> nat list \<Rightarrow> bool" where
  "destroying tid t w vs \<longleftrightarrow> key_inv w \<and> qheld tid 1 (key_lock w) \<and> data_value w t = Some vs"

lemma destroy_key_pure:
  assumes d: "destroying tid t w vs" and k: "k < PTH_KEY_MAX" and tid: "tid \<noteq> 0"
  defines "vs' \<equiv> if used (keytab w ! k) then vs[k := 0] else vs"
  shows "\<exists>w'. destroy_key (\<lambda>_ _ w. w) (\<lambda>_. tid) t k w = Some w' \<and> destroying tid t w' vs'
     \<and> keytab w' = keytab w \<and> dcalls w' = dcalls w @ due_calls (keytab w) vs [k]"
proof -
  have vs: "data_value w t = Some vs" "length vs = PTH_KEY_MAX" "data_count w t = int (nonnull vs)"
    and inv: "key_inv w" and held: "qheld tid 1 (key_lock w)"
    using d key_inv_thread [of w t] by (auto simp: destroying_def)
  show ?thesis
  proof (cases "used (keytab w ! k) \<and> vs ! k \<noteq> 0")
    case False
    then have "vs' = vs" by (auto simp: vs'_def list_update_same_conv k vs(2))
    with False d vs show ?thesis by (auto simp: destroy_key_def due_calls_def)
  next
    case True
    have pos: "data_count w t > 0" using vs(2,3) True k nonnull_zero [of vs k] by auto
    let ?w1 = "w\<lparr>data_value := (data_value w)(t \<mapsto> vs[k := 0]),
        data_count := (data_count w)(t := data_count w t - 1)\<rparr>"
    have inv1: "key_inv ?w1"
      using nonnull_upd [of k vs 0] k vs True
      by (intro key_inv_upd [OF inv, of _ t "vs[k := 0]"]) simp_all
    have vs': "vs' = vs[k := 0]" using True by (simp add: vs'_def)
    show ?thesis
    proof (cases "destructor (keytab w ! k) = 0")
      case zero: True
      with True pos vs inv1 held vs' show ?thesis
        by (simp add: destroy_key_def destroying_def due_calls_def Let_def)
    next
      case False
      let ?w2 = "(unlock_keys tid ?w1)\<lparr>dcalls := dcalls w @ [(destructor (keytab w ! k), vs ! k)]\<rparr>"
      have "qfree (key_lock ?w2)" using unlock_keys_held [of tid ?w1] held by simp
      from lock_keys_free [OF this tid] obtain w3 where
        w3: "lock_keys tid ?w2 = Some w3" "qheld tid 1 (key_lock w3)" by blast
      note sel = lock_keys_sel [OF w3(1)]
      have "key_inv w3" using inv1 unfolding key_inv_def by (simp add: sel)
      with w3 sel True False pos vs vs' show ?thesis
        by (simp add: destroy_key_def destroying_def due_calls_def Let_def)
    qed
  qed
qed

lemma due_calls_Cons: "due_calls tab vs (k # ks) = due_calls tab vs [k] @ due_calls tab vs ks"
  by (simp add: due_calls_def)

lemma due_calls_cong:
  "(\<And>j. j \<in> set ks \<Longrightarrow> vs ! j = vs' ! j) \<Longrightarrow> due_calls tab vs ks = due_calls tab vs' ks"
  by (induction ks) (auto simp: due_calls_def)

lemma destroy_keys_pure:
  assumes "destroying tid t w vs" and "\<forall>k\<in>set ks. k < PTH_KEY_MAX" and "distinct ks" and "tid \<noteq> 0"
  shows "\<exists>w' vs'. destroy_keys (\<lambda>_ _ w. w) (\<lambda>_. tid) t ks w = Some w' \<and> destroying tid t w' vs'
     \<and> keytab w' = keytab w \<and> dcalls w' = dcalls w @ due_calls (keytab w) vs ks
     \<and> (data_count w' t \<noteq> 0 \<longrightarrow> (\<forall>k\<in>set ks. used (keytab w ! k) \<longrightarrow> vs' ! k = 0))
     \<and> (\<forall>j<PTH_KEY_MAX. j \<notin> set ks \<longrightarrow> vs' ! j = vs ! j)"
  using assms
proof (induction ks arbitrary: w vs)
  case (Cons k ks)
  have k: "k < PTH_KEY_MAX" "k \<notin> set ks" using Cons.prems(2,3) by auto
  let ?vs1 = "if used (keytab w ! k) then vs[k := 0] else vs"
  from destroy_key_pure [OF Cons.prems(1) k(1) Cons.prems(4)] obtain w1 where
    w1: "destroy_key (\<lambda>_ _ w. w) (\<lambda>_. tid) t k w = Some w1" "destroying tid t w1 ?vs1"
    "keytab w1 = keytab w" "dcalls w1 = dcalls w @ due_calls (keytab w) vs [k]" by blast
  have len: "length vs = PTH_KEY_MAX" using Cons.prems(1) key_inv_thread [of w t] by (auto simp: destroying_def)
  have same: "?vs1 ! j = vs ! j" if "j \<noteq> k" for j using that by simp
  have c1: "data_count w1 t = int (nonnull ?vs1)" "length ?vs1 = PTH_KEY_MAX"
    using w1(2) key_inv_thread [of w1 t] by (auto simp: destroying_def)
  show ?case
  proof (cases "data_count w1 t = 0")
    case True
    have z: "?vs1 ! j = 0" if "j < PTH_KEY_MAX" for j
      using nonnull_zero [of ?vs1 j] c1 True that by simp
    have "due_calls (keytab w) vs ks = []"
      using Cons.prems(2) k(2) z same by (auto simp: due_calls_def filter_empty_conv) metis
    with True w1 same show ?thesis
      by (subst due_calls_Cons) (auto intro!: exI [of _ w1] exI [of _ ?vs1])
  next
    case False
    from Cons.IH [OF w1(2)] Cons.prems(2-4) obtain w' vs' where
      w': "destroy_keys (\<lambda>_ _ w. w) (\<lambda>_. tid) t ks w1 = Some w'" "destroying tid t w' vs'"
      "keytab w' = keytab w1" "dcalls w' = dcalls w1 @ due_calls (keytab w1) ?vs1 ks"
      "data_count w' t \<noteq> 0 \<longrightarrow> (\<forall>k\<in>set ks. used (keytab w1 ! k) \<longrightarrow> vs' ! k = 0)"
      "\<forall>j<PTH_KEY_MAX. j \<notin> set ks \<longrightarrow> vs' ! j = ?vs1 ! j" by auto
    have "due_calls (keytab w) ?vs1 ks = due_calls (keytab w) vs ks"
      using k(2) same by (intro due_calls_cong) metis
    moreover have "used (keytab w ! k) \<longrightarrow> vs' ! k = 0" using w'(6) k len by auto
    ultimately show ?thesis using w' w1 False same
      by (subst due_calls_Cons) (auto intro!: exI [of _ w'] exI [of _ vs'])
  qed
qed (auto intro: exI simp: due_calls_def)

text \<open>After the first round nothing is left that a further round would call a destructor for.\<close>

lemma destroy_rounds_pure:
  assumes "destroying tid t w vs" and "tid \<noteq> 0"
  shows "\<exists>w' vs'. destroy_rounds (\<lambda>_ _ w. w) (\<lambda>_. tid) t (Suc n) w = Some w' \<and> destroying tid t w' vs'
     \<and> keytab w' = keytab w \<and> dcalls w' = dcalls w @ due_calls (keytab w) vs [0..<PTH_KEY_MAX]"
  using assms
proof (induction n arbitrary: w vs)
  case 0
  from destroy_keys_pure [OF 0(1) _ _ 0(2), of "[0..<PTH_KEY_MAX]"] show ?case by auto
next
  case (Suc n)
  from destroy_keys_pure [OF Suc.prems(1) _ _ Suc.prems(2), of "[0..<PTH_KEY_MAX]"] obtain w1 vs1 where
    w1: "destroy_keys (\<lambda>_ _ w. w) (\<lambda>_. tid) t [0..<PTH_KEY_MAX] w = Some w1" "destroying tid t w1 vs1"
    "keytab w1 = keytab w" "dcalls w1 = dcalls w @ due_calls (keytab w) vs [0..<PTH_KEY_MAX]"
    "data_count w1 t \<noteq> 0 \<longrightarrow> (\<forall>k<PTH_KEY_MAX. used (keytab w ! k) \<longrightarrow> vs1 ! k = 0)" by auto
  show ?case
  proof (cases "data_count w1 t = 0")
    case True
    with w1 show ?thesis by (auto simp del: upt_Suc)
  next
    case False
    with w1(3,5) have "due_calls (keytab w1) vs1 [0..<PTH_KEY_MAX] = []"
      by (auto simp: due_calls_def filter_empty_conv)
    with Suc.IH [OF w1(2) Suc.prems(2)] w1 False show ?thesis
      unfolding destroy_rounds.simps(2) [of _ _ _ "Suc n"] by auto
  qed
qed

lemma destroydata_pure:
  assumes inv: "key_inv w" and free: "qfree (key_lock w)" and vs: "data_value w t = Some vs"
    and tid: "tid \<noteq> 0"
  shows "\<exists>w'. pth_key_destroydata (\<lambda>_ _ w. w) (\<lambda>_. tid) t w = Some w' \<and> data_value w' t = None
     \<and> qfree (key_lock w') \<and> dcalls w' = dcalls w @ due_calls (keytab w) vs [0..<PTH_KEY_MAX]"
proof -
  from lock_keys_free [OF free tid] obtain w1 where
    w1: "lock_keys tid w = Some w1" "qheld tid 1 (key_lock w1)" by blast
  note sel = lock_keys_sel [OF w1(1)]
  have "destroying tid t w1 vs" using inv vs w1(2) unfolding destroying_def key_inv_def by (simp add: sel)
  from destroy_rounds_pure [OF this tid, of 3] obtain w2 vs2 where
    w2: "destroy_rounds (\<lambda>_ _ w. w) (\<lambda>_. tid) t 4 w1 = Some w2" "destroying tid t w2 vs2"
    "dcalls w2 = dcalls w1 @ due_calls (keytab w1) vs [0..<PTH_KEY_MAX]" by (auto simp: numeral_eq_Suc)
  have "qheld tid 1 (key_lock (w2\<lparr>data_value := (data_value w2)(t := None)\<rparr>))"
    using w2(2) by (simp add: destroying_def)
  from unlock_keys_held [OF this] w1 w2 sel show ?thesis
    by (simp add: pth_key_destroydata_def PTH_DESTRUCTOR_ITERATIONS_def)
qed

subsection \<open>Properties\<close>

definition key_world :: keyworld where
  "key_world = \<lparr>keytab = replicate PTH_KEY_MAX \<lparr>used = False, destructor = 0\<rparr>,
     key_lock = \<lparr>spinlock = \<lparr>lock = 0\<rparr>, owner = 0, qcount = 0\<rparr>,
     data_value = \<lambda>_. None, data_count = \<lambda>_. 0, dcalls = []\<rparr>"

text \<open>A world in which key 0 exists with destructor 77.\<close>

definition one_key :: keyworld where
  "one_key = key_world\<lparr>keytab := (keytab key_world)[0 := \<lparr>used = True, destructor = 77\<rparr>]\<rparr>"

definition one_value :: keyworld where
  "one_value = one_key\<lparr>data_value := (\<lambda>_. None)(9 \<mapsto> (replicate PTH_KEY_MAX 0)[0 := 5]),
     data_count := (\<lambda>_. 0)(9 := 1)\<rparr>"

lemma one_key_inv: "key_inv one_key"
  by (simp add: key_inv_def one_key_def key_world_def)

lemma one_key_set: "pth_key_setdata True 9 0 5 one_key = Some (0, one_value)"
  by (simp add: pth_key_setdata_def one_value_def one_key_def key_world_def const_defs)

text \<open>
  C33.  Storing and reading a thread specific value: after a successful
  \<open>pth_key_setdata\<close> the thread reads the value back, every other thread and every other
  key reads what it read before, and the count of values stays exact.
\<close>

theorem key_set_get:
  assumes "key_inv w" and "pth_key_setdata mem t key v w = Some (0, w')" and "t \<noteq> 0"
  shows "pth_key_getdata t key w' = Some v \<and> key_inv w'
     \<and> (u \<noteq> t \<or> k \<noteq> key \<longrightarrow> pth_key_getdata u k w' = pth_key_getdata u k w)"
  using key_getdata_setdata [OF assms] key_setdata_inv [OF assms(1,2)] by blast

theorem key_set_get_witness: "pth_key_getdata 9 0 one_value = Some 5"
  using key_set_get [OF one_key_inv one_key_set, of 1 0] by simp

text \<open>
  \<open>pth_key_create\<close> succeeds exactly when a key is free, and then returns the smallest
  free key, which it marks as used, and leaves the lock free.
\<close>

theorem key_create_smallest:
  assumes "qfree (key_lock w)" and "tid \<noteq> 0"
  shows "\<exists>k ok w'. pth_key_create tid func w = Some (k, ok, w') \<and> qfree (key_lock w')
     \<and> (ok \<longleftrightarrow> (\<exists>j<PTH_KEY_MAX. \<not> used (keytab w ! j)))
     \<and> (ok \<longrightarrow> k < PTH_KEY_MAX \<and> \<not> used (keytab w ! k) \<and> (\<forall>j<k. used (keytab w ! j))
          \<and> keytab w' = (keytab w)[k := \<lparr>used = True, destructor = func\<rparr>])"
proof -
  from lock_keys_free [OF assms] obtain w1 where
    w1: "lock_keys tid w = Some w1" "qheld tid 1 (key_lock w1)" by blast
  note sel = lock_keys_sel [OF w1(1)]
  obtain k ok w2 where c: "pth_key_create_nolock func w1 = (k, ok, w2)" by (cases "pth_key_create_nolock func w1")
  note res = key_create_result [OF c]
  have "key_lock w2 = key_lock w1" using res(2,3) by (cases ok) auto
  then have "qfree (key_lock (unlock_keys tid w2))" using unlock_keys_held [of tid w2] w1(2) by simp
  with w1(1) c res sel show ?thesis by (auto simp: pth_key_create_def)
qed

theorem key_create_smallest_witness:
  "\<exists>k ok w'. pth_key_create 3 50 one_key = Some (k, ok, w') \<and> ok \<and> k = 1"
proof -
  have "qfree (key_lock one_key)" by (simp add: one_key_def key_world_def qfree_def)
  from key_create_smallest [OF this, of 3 50] obtain k ok w' where
    r: "pth_key_create 3 50 one_key = Some (k, ok, w')"
      "ok \<longleftrightarrow> (\<exists>j<PTH_KEY_MAX. \<not> used (keytab one_key ! j))"
      "ok \<longrightarrow> k < PTH_KEY_MAX \<and> \<not> used (keytab one_key ! k) \<and> (\<forall>j<k. used (keytab one_key ! j))" by auto
  have u: "used (keytab one_key ! j) \<longleftrightarrow> j = 0" if "j < PTH_KEY_MAX" for j
    using that by (cases "j = 0") (simp_all add: one_key_def key_world_def const_defs)
  have ok: "ok" using r(2) u [of 1] by (auto simp: const_defs)
  with r(3) u [of k] have "k \<noteq> 0" "k < PTH_KEY_MAX" "\<forall>j<k. used (keytab one_key ! j)" by auto
  with u [of 1] have "k = 1" by (metis One_nat_def less_one linorder_neqE_nat less_trans zero_neq_one)
  with r(1) ok show ?thesis by blast
qed

text \<open>
  C32.  With destructors that leave the thread's data alone, \<open>pth_key_destroydata\<close> calls, for
  every live key with a destructor and a value that is not NULL, the destructor once with the
  value, in the order of the keys; it frees the values and leaves the lock free.
\<close>

theorem destroydata_calls_once:
  assumes "key_inv w" and "qfree (key_lock w)" and "data_value w t = Some vs" and "tid \<noteq> 0"
  shows "\<exists>w'. pth_key_destroydata (\<lambda>_ _ w. w) (\<lambda>_. tid) t w = Some w' \<and> data_value w' t = None
     \<and> qfree (key_lock w') \<and> dcalls w' = dcalls w @ map (\<lambda>k. (destructor (keytab w ! k), vs ! k))
        (filter (\<lambda>k. used (keytab w ! k) \<and> vs ! k \<noteq> 0 \<and> destructor (keytab w ! k) \<noteq> 0) [0..<PTH_KEY_MAX])"
  using destroydata_pure [OF assms] by (simp add: due_calls_def)

theorem destroydata_calls_once_witness:
  "\<exists>w'. pth_key_destroydata (\<lambda>_ _ w. w) (\<lambda>_. 3) 9 one_value = Some w' \<and> data_value w' 9 = None
     \<and> (77, 5) \<in> set (dcalls w')"
proof -
  have inv: "key_inv one_value" by (rule key_setdata_inv [OF one_key_inv one_key_set])
  have free: "qfree (key_lock one_value)" by (simp add: one_value_def one_key_def key_world_def qfree_def)
  have dv: "data_value one_value 9 = Some ((replicate PTH_KEY_MAX 0)[0 := 5])" by (simp add: one_value_def)
  have "0 \<in> set [0..<PTH_KEY_MAX]" "destructor (keytab one_value ! 0) = 77" "used (keytab one_value ! 0)"
    "(replicate PTH_KEY_MAX (0::nat))[0 := 5] ! 0 = 5"
    by (simp_all add: one_value_def one_key_def key_world_def const_defs)
  with destroydata_calls_once [OF inv free dv, of 3] show ?thesis by force
qed

text \<open>
  A deleted key leaves its values behind: after a key has been deleted and created again,
  a thread that had a value for the old key reads it under the new one.
\<close>

theorem key_delete_leaves_values:
  assumes "key_inv w" and "qfree (key_lock w)" and "tid \<noteq> 0" and "t \<noteq> 0" and "k < PTH_KEY_MAX"
    and "\<forall>j\<le>k. used (keytab w ! j)"
  shows "\<exists>w1 w2. pth_key_delete tid (int k) w = Some (True, w1)
     \<and> pth_key_create tid func w1 = Some (k, True, w2)
     \<and> pth_key_getdata t (int k) w2 = pth_key_getdata t (int k) w"
proof -
  from lock_keys_free [OF assms(2,3)] obtain wa where
    wa: "lock_keys tid w = Some wa" "qheld tid 1 (key_lock wa)" by blast
  note sa = lock_keys_sel [OF wa(1)]
  let ?wb = "wa\<lparr>keytab := (keytab wa)[k := (keytab wa ! k)\<lparr>used := False\<rparr>]\<rparr>"
  let ?w1 = "unlock_keys tid ?wb"
  have del: "pth_key_delete tid (int k) w = Some (True, ?w1)"
    using wa(1) assms(5,6) by (simp add: pth_key_delete_def)
  have free: "qfree (key_lock ?w1)" using unlock_keys_held [of tid ?wb] wa(2) by simp
  from lock_keys_free [OF free assms(3)] obtain wc where
    wc: "lock_keys tid ?w1 = Some wc" by blast
  note sc = lock_keys_sel [OF wc]
  have len: "length (keytab w) = PTH_KEY_MAX" using assms(1) by (simp add: key_inv_def)
  obtain j ok w2 where c: "pth_key_create_nolock func wc = (j, ok, w2)" by (cases "pth_key_create_nolock func wc")
  note res = key_create_result [OF c]
  have tab: "keytab wc ! i = (if i = k then (keytab w ! k)\<lparr>used := False\<rparr> else keytab w ! i)" for i
    using sa sc len assms(5) by simp
  have ok: "ok" using res(1) assms(5) tab [of k] by auto
  with res(2) have j: "\<not> used (keytab wc ! j)" "\<forall>i<j. used (keytab wc ! i)"
    "w2 = wc\<lparr>keytab := (keytab wc)[j := \<lparr>used = True, destructor = func\<rparr>]\<rparr>" by auto
  have "j = k"
  proof (rule linorder_cases [of j k])
    assume "j < k" then show ?thesis using j(1) tab [of j] assms(6) by auto
  next
    assume "k < j" then show ?thesis using j(2) tab [of k] by auto
  qed
  with wc c ok have "pth_key_create tid func ?w1 = Some (k, True, unlock_keys tid w2)"
    by (simp add: pth_key_create_def)
  moreover have "pth_key_getdata t (int k) (unlock_keys tid w2) = pth_key_getdata t (int k) w"
    using j(3) sa sc len assms(4-6) \<open>j = k\<close> by (simp add: pth_key_getdata_def)
  ultimately show ?thesis using del by blast
qed

theorem key_delete_leaves_values_witness:
  "\<exists>w1 w2. pth_key_delete 3 (int 0) one_value = Some (True, w1)
     \<and> pth_key_create 3 50 w1 = Some (0, True, w2) \<and> pth_key_getdata 9 (int 0) w2 = Some 5"
proof -
  have inv: "key_inv one_value" by (rule key_setdata_inv [OF one_key_inv one_key_set])
  have free: "qfree (key_lock one_value)" by (simp add: one_value_def one_key_def key_world_def qfree_def)
  have "used (keytab one_value ! 0)" "pth_key_getdata 9 (int 0) one_value = Some 5"
    by (simp_all add: one_value_def one_key_def key_world_def const_defs pth_key_getdata_def)
  with key_delete_leaves_values [OF inv free, of 3 9 0 50] show ?thesis by (simp add: const_defs)
qed

end
