(* ===== verification/Cleanup.thy ===== *)
theory Cleanup
  imports Interfaces
begin

text \<open>
  pth_clean.c: the stack of cleanup handlers of a thread.  The first \<open>PTH_CLEANUP_COUNT\<close>
  records of a thread lie in its control block (\<open>Buf t i\<close>, the array \<open>cleanup_buf\<close>),
  the others are allocated (\<open>Dyn a\<close>).  Functions and arguments are addresses, \<open>0\<close> is
  NULL.  The handlers are user code: the parameter \<open>call\<close> is their effect, and
  \<open>hcalls\<close> records the calls; \<open>hfreed\<close> records what was given back to the
  allocator.  \<open>None\<close> as a result is an access outside \<open>cleanup_buf\<close>, or a loop
  that does not end because the handlers go on pushing.

  \<open>cstack\<close> relates the records to the list of handlers.  A thread that works on its own
  stack frees the allocated records and only these; \<open>pth_cleanup_popall\<close> for another
  thread uses the wrong thread's count.
\<close>

definition PTH_CLEANUP_COUNT :: nat where "PTH_CLEANUP_COUNT = 5"

declare PTH_CLEANUP_COUNT_def [const_defs]

datatype cleanup_ptr = Buf nat nat | Dyn nat

record pth_cleanup_st =
  func :: nat
  arg :: nat
  canceltype :: int
  cnext :: "cleanup_ptr option"

record cleanworld =
  cleanup_at :: "cleanup_ptr \<Rightarrow> pth_cleanup_st"
  cleanups :: "nat \<Rightarrow> cleanup_ptr option"
  cleanup_count :: "nat \<Rightarrow> int"
  hcalls :: "(nat \<times> nat) list"
  hfreed :: "cleanup_ptr list"

text \<open>
  \<open>mem\<close> is what \<open>pth_malloc\<close> returns if it is called.  The record to use: a slot of
  the buffer, or the allocated one; the outer \<open>None\<close> is an index below 0.
\<close>

definition cleanup_slot :: "nat \<Rightarrow> nat \<Rightarrow> cleanworld \<Rightarrow> cleanup_ptr option option" where
  "cleanup_slot current mem w =
     (let n = cleanup_count w current
      in if n < int PTH_CLEANUP_COUNT
         then if n < 0 then None else Some (Some (Buf current (nat n)))
         else Some (if mem = 0 then None else Some (Dyn mem)))"

definition pth_cleanup_push :: "nat \<Rightarrow> nat \<Rightarrow> nat \<Rightarrow> nat \<Rightarrow> cleanworld \<Rightarrow> (bool \<times> cleanworld) option" where
  "pth_cleanup_push current f a mem w =
     (if f = 0 then Some (False, w)
      else do { slot \<leftarrow> cleanup_slot current mem w;
                case slot of
                  None \<Rightarrow> Some (False, w)
                | Some c \<Rightarrow>
                    let w1 = w\<lparr>cleanup_count := (cleanup_count w)(current := cleanup_count w current + 1)\<rparr>;
                        w2 = w1\<lparr>cleanup_at := (cleanup_at w1)(c := (cleanup_at w1 c)
                               \<lparr>func := f, arg := a, cnext := cleanups w1 current\<rparr>)\<rparr>
                    in Some (True, w2\<lparr>cleanups := (cleanups w2)(current := Some c)\<rparr>) })"

text \<open>What \<open>pth_cleanup_pop\<close> and the loop of \<open>pth_cleanup_popall\<close> do with a record.\<close>

definition run_handler :: "(nat \<Rightarrow> nat \<Rightarrow> cleanworld \<Rightarrow> cleanworld) \<Rightarrow> bool \<Rightarrow> cleanup_ptr \<Rightarrow> cleanworld \<Rightarrow> cleanworld" where
  "run_handler call execute c w =
     (let f = func (cleanup_at w c); a = arg (cleanup_at w c)
      in if execute then call f a (w\<lparr>hcalls := hcalls w @ [(f, a)]\<rparr>) else w)"

definition pop_record ::
  "(nat \<Rightarrow> nat \<Rightarrow> cleanworld \<Rightarrow> cleanworld) \<Rightarrow> nat \<Rightarrow> nat \<Rightarrow> bool \<Rightarrow> cleanup_ptr \<Rightarrow> cleanworld \<Rightarrow> cleanworld" where
  "pop_record call current t execute c w =
     (let w1 = w\<lparr>cleanups := (cleanups w)(t := cnext (cleanup_at w c))\<rparr>;
          w2 = run_handler call execute c w1;
          w3 = (if cleanup_count w2 current > int PTH_CLEANUP_COUNT
                then w2\<lparr>hfreed := hfreed w2 @ [c]\<rparr> else w2)
      in w3\<lparr>cleanup_count := (cleanup_count w3)(current := cleanup_count w3 current - 1)\<rparr>)"

definition pth_cleanup_pop :: "(nat \<Rightarrow> nat \<Rightarrow> cleanworld \<Rightarrow> cleanworld) \<Rightarrow> nat \<Rightarrow> bool \<Rightarrow> cleanworld \<Rightarrow> bool \<times> cleanworld" where
  "pth_cleanup_pop call current execute w =
     (case cleanups w current of
        None \<Rightarrow> (False, w)
      | Some c \<Rightarrow> (True, pop_record call current current execute c w))"

partial_function (option) pth_cleanup_popall ::
  "(nat \<Rightarrow> nat \<Rightarrow> cleanworld \<Rightarrow> cleanworld) \<Rightarrow> nat \<Rightarrow> nat \<Rightarrow> bool \<Rightarrow> cleanworld \<Rightarrow> cleanworld option" where
  [code]: "pth_cleanup_popall call current t execute w =
     (case cleanups w t of
        None \<Rightarrow> Some w
      | Some c \<Rightarrow> pth_cleanup_popall call current t execute (pop_record call current t execute c w))"

subsection \<open>The stack of handlers\<close>

fun chain :: "(cleanup_ptr \<Rightarrow> pth_cleanup_st) \<Rightarrow> cleanup_ptr option \<Rightarrow> cleanup_ptr list \<Rightarrow> bool" where
  "chain m p [] \<longleftrightarrow> p = None"
| "chain m p (c # cs) \<longleftrightarrow> p = Some c \<and> chain m (cnext (m c)) cs"

text \<open>The place of every record follows from its depth.\<close>

fun slots :: "nat \<Rightarrow> cleanup_ptr list \<Rightarrow> bool" where
  "slots t [] \<longleftrightarrow> True"
| "slots t (c # cs) \<longleftrightarrow> slots t cs \<and>
     (if length cs < PTH_CLEANUP_COUNT then c = Buf t (length cs) else \<exists>a. c = Dyn a)"

definition cstack :: "cleanworld \<Rightarrow> nat \<Rightarrow> cleanup_ptr list \<Rightarrow> bool" where
  "cstack w t cs \<longleftrightarrow> chain (cleanup_at w) (cleanups w t) cs \<and> distinct cs \<and> slots t cs
     \<and> cleanup_count w t = int (length cs)"

abbreviation handler :: "cleanworld \<Rightarrow> cleanup_ptr \<Rightarrow> nat \<times> nat" where
  "handler w c \<equiv> (func (cleanup_at w c), arg (cleanup_at w c))"

abbreviation is_Dyn :: "cleanup_ptr \<Rightarrow> bool" where
  "is_Dyn c \<equiv> (case c of Dyn a \<Rightarrow> True | Buf t i \<Rightarrow> False)"

lemma chain_update: "c \<notin> set cs \<Longrightarrow> chain (m(c := r)) p cs = chain m p cs"
  by (induction cs arbitrary: p) auto

lemma slots_Buf_less: "slots t cs \<Longrightarrow> Buf u i \<in> set cs \<Longrightarrow> u = t \<and> i < length cs"
proof (induction cs)
  case (Cons c cs)
  then show ?case by (cases "Buf u i \<in> set cs") (auto split: if_splits)
qed simp

lemma slots_top: "slots t (c # cs) \<Longrightarrow> is_Dyn c \<longleftrightarrow> length cs \<ge> PTH_CLEANUP_COUNT"
  by (auto split: if_splits)

lemma cleanup_push_stack:
  assumes st: "cstack w t cs" and f: "f \<noteq> 0"
    and mem: "length cs \<ge> PTH_CLEANUP_COUNT \<Longrightarrow> mem \<noteq> 0 \<and> Dyn mem \<notin> set cs"
  shows "\<exists>c w'. pth_cleanup_push t f a mem w = Some (True, w') \<and> cstack w' t (c # cs)
     \<and> handler w' c = (f, a) \<and> (\<forall>d\<in>set cs. cleanup_at w' d = cleanup_at w d)
     \<and> hcalls w' = hcalls w \<and> hfreed w' = hfreed w \<and> c \<notin> set cs"
proof -
  define c where "c = (if length cs < PTH_CLEANUP_COUNT then Buf t (length cs) else Dyn mem)"
  have slot: "cleanup_slot t mem w = Some (Some c)"
    using st mem by (cases "length cs < PTH_CLEANUP_COUNT") (auto simp: cleanup_slot_def c_def cstack_def)
  have new: "c \<notin> set cs"
    using st mem slots_Buf_less [of t cs t "length cs"] by (auto simp: c_def cstack_def)
  have "slots t (c # cs)" using st by (auto simp: c_def cstack_def)
  with st new f show ?thesis
    by (auto simp: pth_cleanup_push_def slot Let_def cstack_def chain_update)
qed

lemma cleanup_push_fails:
  assumes "cstack w t cs" and "f = 0 \<or> length cs \<ge> PTH_CLEANUP_COUNT \<and> mem = 0"
  shows "pth_cleanup_push t f a mem w = Some (False, w)"
  using assms by (auto simp: pth_cleanup_push_def cleanup_slot_def cstack_def)

text \<open>A thread takes a record off its own stack; the handler leaves the state alone.\<close>

abbreviation quiet :: "nat \<Rightarrow> nat \<Rightarrow> cleanworld \<Rightarrow> cleanworld" where
  "quiet \<equiv> \<lambda>_ _ w. w"

lemma pop_record_sel:
  "cleanup_at (pop_record quiet u t ex c w) = cleanup_at w"
  "cleanups (pop_record quiet u t ex c w) = (cleanups w)(t := cnext (cleanup_at w c))"
  "cleanup_count (pop_record quiet u t ex c w) = (cleanup_count w)(u := cleanup_count w u - 1)"
  "hcalls (pop_record quiet u t ex c w) = hcalls w @ (if ex then [handler w c] else [])"
  "hfreed (pop_record quiet u t ex c w) = hfreed w @ (if cleanup_count w u > int PTH_CLEANUP_COUNT then [c] else [])"
  by (simp_all add: pop_record_def run_handler_def Let_def)

lemma pop_record_stack:
  fixes ex :: bool
  assumes "cstack w t (c # cs)"
  defines "w' \<equiv> pop_record quiet t t ex c w"
  shows "cstack w' t cs" and "cleanup_at w' = cleanup_at w"
    and "hcalls w' = hcalls w @ (if ex then [handler w c] else [])"
    and "hfreed w' = hfreed w @ (if is_Dyn c then [c] else [])"
proof -
  have "is_Dyn c \<longleftrightarrow> cleanup_count w t > int PTH_CLEANUP_COUNT"
    using assms(1) slots_top [of t c cs] by (auto simp: cstack_def)
  then show "hfreed w' = hfreed w @ (if is_Dyn c then [c] else [])"
    by (simp add: w'_def pop_record_sel)
qed (use assms in \<open>auto simp: w'_def pop_record_sel cstack_def\<close>)

lemma popall_own:
  "cstack w t cs \<Longrightarrow> \<exists>w'. pth_cleanup_popall quiet t t ex w = Some w' \<and> cstack w' t []
     \<and> hcalls w' = hcalls w @ (if ex then map (handler w) cs else []) \<and> hfreed w' = hfreed w @ filter is_Dyn cs"
proof (induction cs arbitrary: w)
  case Nil
  then have "cleanups w t = None" by (simp add: cstack_def)
  with Nil show ?case by (subst pth_cleanup_popall.simps) simp
next
  case (Cons c cs)
  note p = pop_record_stack [OF Cons.prems, of ex]
  have "cleanups w t = Some c" using Cons.prems by (simp add: cstack_def)
  with Cons.IH [OF p(1)] p(2-) show ?case
    by (subst pth_cleanup_popall.simps) auto
qed

text \<open>Another thread \<open>u\<close> runs the loop for \<open>t\<close>.\<close>

lemma popall_other:
  "chain (cleanup_at w) (cleanups w t) cs \<Longrightarrow> \<exists>w'. pth_cleanup_popall quiet u t ex w = Some w'
     \<and> cleanups w' = (cleanups w)(t := None)
     \<and> cleanup_count w' = (cleanup_count w)(u := cleanup_count w u - int (length cs))
     \<and> hcalls w' = hcalls w @ (if ex then map (handler w) cs else [])
     \<and> hfreed w' = hfreed w @ take (nat (cleanup_count w u - int PTH_CLEANUP_COUNT)) cs"
proof (induction cs arbitrary: w)
  case Nil
  then show ?case by (subst pth_cleanup_popall.simps) auto
next
  case (Cons c cs)
  let ?w1 = "pop_record quiet u t ex c w"
  have "chain (cleanup_at ?w1) (cleanups ?w1 t) cs" using Cons.prems by (simp add: pop_record_sel)
  from Cons.IH [OF this] obtain w' where w': "pth_cleanup_popall quiet u t ex ?w1 = Some w'"
    "cleanups w' = (cleanups ?w1)(t := None)"
    "cleanup_count w' = (cleanup_count ?w1)(u := cleanup_count ?w1 u - int (length cs))"
    "hcalls w' = hcalls ?w1 @ (if ex then map (handler ?w1) cs else [])"
    "hfreed w' = hfreed ?w1 @ take (nat (cleanup_count ?w1 u - int PTH_CLEANUP_COUNT)) cs" by blast
  have "pth_cleanup_popall quiet u t ex w = Some w'"
    using Cons.prems w'(1) by (subst pth_cleanup_popall.simps) simp
  moreover have "(if cleanup_count w u > int PTH_CLEANUP_COUNT then [c] else [])
        @ take (nat (cleanup_count w u - 1 - int PTH_CLEANUP_COUNT)) cs
      = take (nat (cleanup_count w u - int PTH_CLEANUP_COUNT)) (c # cs)"
    by (simp add: take_Cons' nat_diff_distrib' diff_commute)
  ultimately show ?case using w'(2-) by (auto simp: pop_record_sel fun_eq_iff)
qed

subsection \<open>The stack as a container\<close>

text \<open>
  The abstract state: the handlers, the last one first, each with the address of its record (0
  if it lies in the control block); the calls so far; and the addresses freed.
  \<open>CPush f a mem\<close> has the answer of the allocator, which is NULL or memory not in use.
\<close>

datatype clean_op = CPush nat nat nat | CPop bool

record clean_abs =
  handlers :: "((nat \<times> nat) \<times> nat) list"
  called :: "(nat \<times> nat) list"
  given_back :: "nat list"

fun clean_step :: "nat \<Rightarrow> clean_op \<Rightarrow> cleanworld \<Rightarrow> cleanworld option" where
  "clean_step t (CPush f a mem) w = map_option snd (pth_cleanup_push t f a mem w)"
| "clean_step t (CPop ex) w = Some (snd (pth_cleanup_pop quiet t ex w))"

fun clean_spec :: "clean_op \<Rightarrow> clean_abs \<Rightarrow> clean_abs" where
  "clean_spec (CPush f a mem) s =
     (if f = 0 \<or> length (handlers s) \<ge> PTH_CLEANUP_COUNT \<and> mem = 0 then s
      else s\<lparr>handlers := ((f, a), if length (handlers s) < PTH_CLEANUP_COUNT then 0 else mem) # handlers s\<rparr>)"
| "clean_spec (CPop ex) s =
     (case handlers s of
        [] \<Rightarrow> s
      | (h, m) # hs \<Rightarrow> \<lparr>handlers = hs, called = called s @ (if ex then [h] else []),
                       given_back = given_back s @ (if m = 0 then [] else [m])\<rparr>)"

fun clean_ok :: "clean_op \<Rightarrow> clean_abs \<Rightarrow> bool" where
  "clean_ok (CPush f a mem) s \<longleftrightarrow> mem = 0 \<or> mem \<notin> snd ` set (handlers s)"
| "clean_ok (CPop ex) s \<longleftrightarrow> True"

fun tag :: "cleanup_ptr \<Rightarrow> nat" where
  "tag (Dyn a) = a"
| "tag (Buf t i) = 0"

definition clean_R :: "nat \<Rightarrow> cleanworld \<Rightarrow> clean_abs \<Rightarrow> bool" where
  "clean_R t w s \<longleftrightarrow> (\<exists>cs. cstack w t cs \<and> handlers s = map (\<lambda>c. (handler w c, tag c)) cs \<and> Dyn 0 \<notin> set cs)
     \<and> called s = hcalls w \<and> map Dyn (given_back s) = hfreed w"

lemma tag_image: "m \<noteq> 0 \<Longrightarrow> m \<in> tag ` set cs \<longleftrightarrow> Dyn m \<in> set cs"
proof -
  assume "m \<noteq> 0"
  then have eq: "(m = tag c) = (c = Dyn m)" for c by (cases c) auto
  show ?thesis unfolding image_iff eq by blast
qed

lemma clean_push_implements:
  assumes "clean_R t w s" and "clean_ok (CPush f a mem) s"
  shows "\<exists>w'. clean_step t (CPush f a mem) w = Some w' \<and> clean_R t w' (clean_spec (CPush f a mem) s)"
proof -
  from assms(1) obtain cs where cs: "cstack w t cs" "handlers s = map (\<lambda>c. (handler w c, tag c)) cs"
    "Dyn 0 \<notin> set cs" "called s = hcalls w" "map Dyn (given_back s) = hfreed w" by (auto simp: clean_R_def)
  show ?thesis
  proof (cases "f = 0 \<or> length cs \<ge> PTH_CLEANUP_COUNT \<and> mem = 0")
    case True
    with cleanup_push_fails [OF cs(1) True] assms(1) cs(2) show ?thesis by simp
  next
    case False
    have fresh: "mem = 0 \<or> Dyn mem \<notin> set cs"
      using assms(2) cs(2) tag_image [of mem cs] by (auto simp: image_image)
    from cleanup_push_stack [OF cs(1), of f mem a] False fresh obtain c w' where
      w': "pth_cleanup_push t f a mem w = Some (True, w')" "cstack w' t (c # cs)" "handler w' c = (f, a)"
      "\<forall>d\<in>set cs. cleanup_at w' d = cleanup_at w d" "hcalls w' = hcalls w" "hfreed w' = hfreed w" by auto
    have "tag c = (if length cs < PTH_CLEANUP_COUNT then 0 else mem) \<and> c \<noteq> Dyn 0"
      using w'(1) False cs(1) w'(2)
      by (auto simp: pth_cleanup_push_def cleanup_slot_def cstack_def Let_def split: if_splits)
    then have "handlers (clean_spec (CPush f a mem) s) = map (\<lambda>c. (handler w' c, tag c)) (c # cs)"
      and "Dyn 0 \<notin> set (c # cs)" using w'(3,4) False cs(2,3) by auto
    with w' cs(4,5) False cs(2) show ?thesis unfolding clean_R_def by auto
  qed
qed

lemma clean_pop_implements:
  assumes "clean_R t w s"
  shows "\<exists>w'. clean_step t (CPop ex) w = Some w' \<and> clean_R t w' (clean_spec (CPop ex) s)"
proof -
  from assms obtain cs where cs: "cstack w t cs" "handlers s = map (\<lambda>c. (handler w c, tag c)) cs"
    "Dyn 0 \<notin> set cs" "called s = hcalls w" "map Dyn (given_back s) = hfreed w" by (auto simp: clean_R_def)
  show ?thesis
  proof (cases cs)
    case Nil
    with cs assms show ?thesis by (simp add: pth_cleanup_pop_def cstack_def)
  next
    case (Cons c cs')
    note p = pop_record_stack [OF cs(1) [unfolded Cons], of ex]
    have "cleanups w t = Some c" using cs(1) Cons by (simp add: cstack_def)
    moreover have "(if is_Dyn c then [c] else []) = map Dyn (if tag c = 0 then [] else [tag c])"
      using cs(3) Cons by (cases c) auto
    ultimately show ?thesis using p cs Cons
      by (auto simp: pth_cleanup_pop_def clean_R_def)
  qed
qed

interpretation cst: container "clean_R t" "clean_step t" clean_spec clean_ok for t
proof
  fix w s op assume R: "clean_R t w s" and ok: "clean_ok op s"
  show "\<exists>w'. clean_step t op w = Some w' \<and> clean_R t w' (clean_spec op s)"
  proof (cases op)
    case (CPush f a mem)
    with clean_push_implements [OF R] ok show ?thesis by blast
  next
    case (CPop ex)
    with clean_pop_implements [OF R] show ?thesis by blast
  qed
qed

subsection \<open>Properties\<close>

definition clean_start :: cleanworld where
  "clean_start = \<lparr>cleanup_at = \<lambda>_. \<lparr>func = 0, arg = 0, canceltype = 0, cnext = None\<rparr>,
     cleanups = \<lambda>_. None, cleanup_count = \<lambda>_. 0, hcalls = [], hfreed = []\<rparr>"

text \<open>Two handlers of thread 1, none of the others.\<close>

definition clean_two :: cleanworld where
  "clean_two = clean_start\<lparr>cleanup_at := (cleanup_at clean_start)
       (Buf 1 0 := \<lparr>func = 10, arg = 20, canceltype = 0, cnext = None\<rparr>,
        Buf 1 1 := \<lparr>func = 11, arg = 21, canceltype = 0, cnext = Some (Buf 1 0)\<rparr>),
     cleanups := (\<lambda>_. None)(1 := Some (Buf 1 1)), cleanup_count := (\<lambda>_. 0)(1 := 2)\<rparr>"

lemma clean_two_stack: "cstack clean_two 1 [Buf 1 1, Buf 1 0]"
  by (simp add: cstack_def clean_two_def clean_start_def const_defs)

text \<open>
  C34.  The cleanup handlers of a thread are a stack: any sequence of pushes and pops by the
  thread, with an allocator that does not hand out a record in use, has the effect of the list
  operations.  The handlers are called last one first, the records beyond the fifth are
  allocated, and exactly these are freed when popped.
\<close>

theorem cleanup_refines:
  assumes "clean_R t w s" and "ops_ok clean_ok clean_spec ops s"
  shows "\<exists>w'. run_ops (clean_step t) ops w = Some w' \<and> clean_R t w' (run_spec clean_spec ops s)"
  using assms by (rule cst.run_implements)

theorem cleanup_refines_witness:
  "\<exists>w'. run_ops (clean_step 1) [CPush 3 4 0, CPush 0 0 0, CPush 5 6 0, CPop False, CPop True, CPop True] clean_start = Some w'
     \<and> clean_R 1 w' \<lparr>handlers = [], called = [(3, 4)], given_back = []\<rparr>"
proof -
  have "clean_R 1 clean_start \<lparr>handlers = [], called = [], given_back = []\<rparr>"
    by (simp add: clean_R_def cstack_def clean_start_def exI [of _ "[]"])
  from cleanup_refines [OF this, of "[CPush 3 4 0, CPush 0 0 0, CPush 5 6 0, CPop False, CPop True, CPop True]"]
  show ?thesis by (simp add: const_defs)
qed

text \<open>
  C35.  At the end of a thread, \<open>pth_cleanup_popall\<close> for the running thread itself ends,
  calls every handler once, last one first, and frees exactly the allocated records.
\<close>

theorem popall_runs_all:
  assumes "cstack w t cs"
  shows "\<exists>w'. pth_cleanup_popall quiet t t ex w = Some w' \<and> cleanups w' t = None \<and> cleanup_count w' t = 0
     \<and> hcalls w' = hcalls w @ (if ex then map (handler w) cs else [])
     \<and> hfreed w' = hfreed w @ filter is_Dyn cs"
  using popall_own [OF assms] by (auto simp: cstack_def)

theorem popall_runs_all_witness:
  "\<exists>w'. pth_cleanup_popall quiet 1 1 True clean_two = Some w' \<and> hcalls w' = [(11, 21), (10, 20)] \<and> hfreed w' = []"
  using popall_runs_all [OF clean_two_stack, of True] by (auto simp: clean_two_def clean_start_def)

text \<open>
  \<open>pth_cleanup_popall\<close> for another thread counts down the caller's counter instead of
  that of the thread it works for.  If the caller has no handlers of its own, its counter
  becomes negative and its next \<open>pth_cleanup_push\<close> writes in front of \<open>cleanup_buf\<close>.
\<close>

theorem popall_other_corrupts:
  assumes "cstack w t cs" and "cs \<noteq> []" and "cstack w u []" and "u \<noteq> t" and "f \<noteq> 0"
  shows "\<exists>w'. pth_cleanup_popall quiet u t ex w = Some w' \<and> cleanup_count w' u < 0
     \<and> cleanup_count w' t = int (length cs) \<and> pth_cleanup_push u f a mem w' = None"
  using popall_other [of w t cs u ex] assms
  by (auto simp: cstack_def pth_cleanup_push_def cleanup_slot_def Let_def)

theorem popall_other_corrupts_witness:
  "\<exists>w'. pth_cleanup_popall quiet 2 1 True clean_two = Some w' \<and> pth_cleanup_push 2 7 8 0 w' = None"
proof -
  have "cstack clean_two 2 []" by (simp add: cstack_def clean_two_def clean_start_def)
  from popall_other_corrupts [OF clean_two_stack _ this, of 7 True 8 0] show ?thesis by auto
qed

text \<open>
  If the caller has more than five handlers, \<open>pth_cleanup_popall\<close> for another thread
  frees records that lie in the other thread's control block.
\<close>

theorem popall_other_frees_buffer:
  assumes "cstack w t [Buf t 0]" and "cleanup_count w u > int PTH_CLEANUP_COUNT"
  shows "\<exists>w'. pth_cleanup_popall quiet u t ex w = Some w' \<and> hfreed w' = hfreed w @ [Buf t 0]"
  using popall_other [of w t "[Buf t 0]" u ex] assms by (auto simp: cstack_def take_Cons')

theorem popall_other_frees_buffer_witness:
  "\<exists>w'. pth_cleanup_popall quiet 2 1 True
      (clean_two\<lparr>cleanups := (\<lambda>_. None)(1 := Some (Buf 1 0)), cleanup_count := (\<lambda>_. 0)(1 := 1, 2 := 6)\<rparr>) = Some w'
     \<and> hfreed w' = [Buf 1 0]"
  using popall_other_frees_buffer [of "clean_two\<lparr>cleanups := (\<lambda>_. None)(1 := Some (Buf 1 0)),
      cleanup_count := (\<lambda>_. 0)(1 := 1, 2 := 6)\<rparr>" 1 2 True]
  by (simp add: cstack_def clean_two_def clean_start_def const_defs)

end
