(* ===== verification/Flags.thy ===== *)
theory Flags
  imports Prelude
begin

text \<open>
  Sets of flags in a machine word: \<open>_BIT(n)\<close>, testing (\<open>s & f\<close>), setting
  (\<open>s |= f\<close>) and clearing (\<open>s &= ~f\<close>) a flag, and what a test returns after them.
\<close>

unbundle bit_operations_syntax

definition BIT :: "nat \<Rightarrow> 'a::len word" where
  "BIT n = push_bit n 1"

definition has :: "'a::len word \<Rightarrow> 'a word \<Rightarrow> bool" where
  "has s f \<longleftrightarrow> s AND f \<noteq> 0"

definition set_flag :: "'a::len word \<Rightarrow> 'a word \<Rightarrow> 'a word" where
  "set_flag f s = s OR f"

definition clear_flag :: "'a::len word \<Rightarrow> 'a word \<Rightarrow> 'a word" where
  "clear_flag f s = s AND NOT f"

lemma has_BIT: "has s (BIT n) \<longleftrightarrow> bit s n"
  by (simp add: has_def BIT_def bit_iff_and_push_bit_not_eq_0)

lemma bit_BIT: "bit (BIT n :: 'a::len word) m \<longleftrightarrow> m = n \<and> n < LENGTH('a)"
  by (auto simp: BIT_def bit_exp_iff)

lemma has_set_flag [simp]:
  "has (set_flag (BIT m) s :: 'a::len word) (BIT n) \<longleftrightarrow> has s (BIT n) \<or> n = m \<and> m < LENGTH('a)"
  by (simp add: has_BIT set_flag_def bit_or_iff bit_BIT)

lemma has_clear_flag [simp]:
  "has (clear_flag (BIT m) s :: 'a::len word) (BIT n) \<longleftrightarrow> has s (BIT n) \<and> n \<noteq> m"
  using bit_imp_le_length [of s n] by (auto simp: has_BIT clear_flag_def bit_and_iff bit_not_iff bit_BIT)

lemma has_BIT_BIT [simp]: "has (BIT m :: 'a::len word) (BIT n) \<longleftrightarrow> m = n \<and> n < LENGTH('a)"
  by (auto simp: has_BIT bit_BIT)

lemma has_zero [simp]: "\<not> has 0 f"
  by (simp add: has_def)

end
