(* ===== verification/World.thy ===== *)
theory World
  imports Pqueue Ring Locks Flags Time
begin

text \<open>
  The state the synchronisation objects work on: threads (\<open>struct pth_st\<close> of pth_tcb.c,
  the members used here), native threads (\<open>struct pth_descr_st\<close> of pth_native.c), the
  lists of waiting threads (\<open>pth_list_t\<close>), the scheduler queues, and what was written to
  the wake-up pipes of the natives.  Also the thread functions of schedule.h.

  A thread is a number, \<open>0\<close> is NULL; the queue node of thread \<open>t\<close> is node \<open>t\<close>.
  A pointer to native descriptor number \<open>i\<close> of \<open>pth_native_list\<close> is \<open>i + 1\<close>.
\<close>

datatype pth_state =
  PTH_STATE_SCHEDULER | PTH_STATE_NEW | PTH_STATE_READY | PTH_STATE_WAITING
  | PTH_STATE_MUTEX_WAITING | PTH_STATE_DEAD | PTH_STATE_EXIT

text \<open>The places a \<open>pth_list_t\<close> sits in: member \<open>mutex_cond_wait\<close> of a thread,
  \<open>mx_waitlist\<close> of a mutex, \<open>cn_waitlist\<close> of a condition variable.\<close>

datatype elem = ENull | Elem nat | MxWait nat | CnWait nat

record pth_list_st =
  th_next :: elem
  th_prev :: elem

record pth_st =
  mctx_sigs :: "64 word"
  magic :: bool
  boundnative :: nat
  lastrannative :: nat
  t_stack :: nat
  true_stack :: nat
  t_sp :: nat
  stackbottom :: nat
  stacksize :: u32
  stackguard :: nat
  start_func :: nat
  start_arg :: nat
  sprio :: int
  schedpolicy :: int
  scope :: int
  inheritsched :: int
  t_name :: string
  tstate :: pth_state
  stackloan :: bool
  should_suspend :: bool
  cancelreq :: bool
  ptrfixed :: bool
  t_spawned :: pth_time_t
  t_lastran :: pth_time_t
  t_running :: pth_time_t
  t_events :: nat
  t_sigpending :: "64 word"
  sigpendcnt :: int
  sigthread :: nat
  joinable :: int
  join_arg :: nat
  cancelstate :: u32
  mutexring :: pth_ring_st
  tlock :: pth_qlock_st
  sigactionmask :: "64 word"
  joined_count :: int
  joined_native :: nat
  joined_thread :: nat
  waited_native :: nat
  mutex_owned :: nat
  event_data :: "nat list option"
  event_count :: int

record pth_descr_st =
  is_used :: bool
  native_errno :: int
  pid :: int
  tid :: nat
  d_stacksize :: u32
  d_true_stack :: nat
  d_stack :: nat
  stack_top :: nat
  sched :: nat
  current :: nat
  nexttimer_thread :: nat
  sched_index :: nat
  is_bound :: bool
  d_sigpending :: "64 word"
  sigraised :: "64 word"
  sched_lock :: pth_qlock_st
  is_running :: bool
  is_bounded :: bool
  do_yield :: bool
  bounded_thread :: nat

datatype tqptr = TqHead | TqNode nat

record world =
  threads :: "nat \<Rightarrow> pth_st"
  natives :: "nat \<Rightarrow> pth_descr_st"
  pth_number_of_natives :: nat
  elems :: "elem \<Rightarrow> pth_list_st"
  qw :: qworld
  mx_nodes :: rheap
  thread_queue :: "tqptr lheap"
  sigpipe :: "nat list"

definition upd_thread :: "nat \<Rightarrow> (pth_st \<Rightarrow> pth_st) \<Rightarrow> ('a world_scheme) \<Rightarrow> ('a world_scheme)" where
  "upd_thread t f w = w\<lparr>threads := (threads w)(t := f (threads w t))\<rparr>"

definition upd_native :: "nat \<Rightarrow> (pth_descr_st \<Rightarrow> pth_descr_st) \<Rightarrow> ('a world_scheme) \<Rightarrow> ('a world_scheme)" where
  "upd_native d f w = w\<lparr>natives := (natives w)(d := f (natives w d))\<rparr>"

text \<open>A byte written to the wake-up pipe of a native.\<close>

definition write_sigpipe :: "nat \<Rightarrow> ('a world_scheme) \<Rightarrow> ('a world_scheme)" where
  "write_sigpipe d w = w\<lparr>sigpipe := sigpipe w @ [d]\<rparr>"

lemma upd_thread_sel [simp]:
  "threads (upd_thread t f w) = (threads w)(t := f (threads w t))" "natives (upd_thread t f w) = natives w"
  "pth_number_of_natives (upd_thread t f w) = pth_number_of_natives w" "elems (upd_thread t f w) = elems w"
  "qw (upd_thread t f w) = qw w" "mx_nodes (upd_thread t f w) = mx_nodes w"
  "thread_queue (upd_thread t f w) = thread_queue w" "sigpipe (upd_thread t f w) = sigpipe w"
  "world.more (upd_thread t f w) = world.more w"
  by (simp_all add: upd_thread_def)

lemma upd_native_sel [simp]:
  "threads (upd_native t g w) = threads w" "natives (upd_native t g w) = (natives w)(t := g (natives w t))"
  "pth_number_of_natives (upd_native t g w) = pth_number_of_natives w" "elems (upd_native t g w) = elems w"
  "qw (upd_native t g w) = qw w" "mx_nodes (upd_native t g w) = mx_nodes w"
  "thread_queue (upd_native t g w) = thread_queue w" "sigpipe (upd_native t g w) = sigpipe w"
  "world.more (upd_native t g w) = world.more w"
  by (simp_all add: upd_native_def)

lemma write_sigpipe_sel [simp]:
  "threads (write_sigpipe d w) = threads w" "natives (write_sigpipe d w) = natives w"
  "pth_number_of_natives (write_sigpipe d w) = pth_number_of_natives w" "elems (write_sigpipe d w) = elems w"
  "qw (write_sigpipe d w) = qw w" "mx_nodes (write_sigpipe d w) = mx_nodes w"
  "thread_queue (write_sigpipe d w) = thread_queue w" "sigpipe (write_sigpipe d w) = sigpipe w @ [d]"
  "world.more (write_sigpipe d w) = world.more w"
  by (simp_all add: write_sigpipe_def)

subsection \<open>Lists of waiting threads\<close>

type_synonym eheap = "elem \<Rightarrow> pth_list_st"

definition set_th_next :: "elem \<Rightarrow> elem \<Rightarrow> eheap \<Rightarrow> eheap" where
  "set_th_next a b h = h(a := (h a)\<lparr>th_next := b\<rparr>)"

definition set_th_prev :: "elem \<Rightarrow> elem \<Rightarrow> eheap \<Rightarrow> eheap" where
  "set_th_prev a b h = h(a := (h a)\<lparr>th_prev := b\<rparr>)"

definition enext :: "eheap \<Rightarrow> elem \<Rightarrow> elem" where "enext h a = th_next (h a)"
definition eprev :: "eheap \<Rightarrow> elem \<Rightarrow> elem" where "eprev h a = th_prev (h a)"

interpretation el: dlinks enext eprev set_th_next set_th_prev
  by unfold_locales (auto simp: enext_def eprev_def set_th_next_def set_th_prev_def)

definition pth_element_insert :: "elem \<Rightarrow> elem \<Rightarrow> eheap \<Rightarrow> eheap" where
  "pth_element_insert tq all_tq h =
     (let h1 = set_th_next tq (enext h all_tq) h;
          h2 = set_th_prev tq all_tq h1;
          h3 = set_th_prev (enext h2 all_tq) tq h2
      in set_th_next all_tq tq h3)"

definition pth_element_delete :: "elem \<Rightarrow> eheap \<Rightarrow> eheap" where
  "pth_element_delete tq h =
     (let h1 = set_th_next (eprev h tq) (enext h tq) h;
          h2 = set_th_prev (enext h1 tq) (eprev h1 tq) h1
      in set_th_next tq ENull h2)"

definition element_init :: "elem \<Rightarrow> eheap \<Rightarrow> eheap" where
  "element_init a h = set_th_prev a a (set_th_next a a h)"

text \<open>The list with head \<open>a\<close> has the threads \<open>ts\<close>, the last one to enter first.\<close>

definition waits :: "eheap \<Rightarrow> elem \<Rightarrow> nat list \<Rightarrow> bool" where
  "waits h a ts \<longleftrightarrow> dcycle (enext h) (eprev h) (a # map Elem ts)"

lemma waits_init: "waits (element_init a h) a []"
  by (simp add: waits_def element_init_def el.links)

lemma waits_distinct: "waits h a ts \<Longrightarrow> distinct ts"
  unfolding waits_def using dcycle_distinct [of "enext h" "eprev h" "a # map Elem ts"] by (simp add: distinct_map)

lemma waits_last: "waits h a ts \<Longrightarrow> eprev h a = (if ts = [] then a else Elem (last ts))"
  unfolding waits_def by (drule dcycle_prev) (simp add: last_map)

lemma element_insert_links:
  assumes "tq \<noteq> all_tq"
  shows "enext (pth_element_insert tq all_tq h) = (enext h)(tq := enext h all_tq, all_tq := tq)"
    and "eprev (pth_element_insert tq all_tq h) = (eprev h)(tq := all_tq, enext h all_tq := tq)"
  using assms by (simp_all add: pth_element_insert_def Let_def el.links)

lemma element_delete_links:
  assumes "eprev h tq \<noteq> tq" and "enext h tq \<noteq> tq"
  shows "enext (pth_element_delete tq h) = (enext h)(eprev h tq := enext h tq, tq := ENull)"
    and "eprev (pth_element_delete tq h) = (eprev h)(enext h tq := eprev h tq)"
  using assms by (simp_all add: pth_element_delete_def Let_def el.links)

lemma waits_insert:
  assumes "waits h a ts" and "t \<notin> set ts" and "a \<noteq> Elem t"
  shows "waits (pth_element_insert (Elem t) a h) a (t # ts)"
proof -
  have "Elem t \<notin> set (a # map Elem ts)" using assms(2,3) by auto
  from dcycle_insert_after [OF assms(1) [unfolded waits_def] this] show ?thesis
    unfolding waits_def using element_insert_links [of "Elem t" a h] assms(3) by simp
qed

lemma waits_delete:
  assumes w: "waits h a (us @ t # vs)" and a: "a \<noteq> Elem t"
  shows "waits (pth_element_delete (Elem t) h) a (us @ vs)"
    and "enext (pth_element_delete (Elem t) h) (Elem t) = ENull"
proof -
  let ?c = "a # map Elem us @ Elem t # map Elem vs"
  have c: "dcycle (enext h) (eprev h) ?c" using w by (simp add: waits_def)
  have c': "dcycle (enext h) (eprev h) ((a # map Elem us) @ Elem t # map Elem vs)" using c by simp
  have d: "distinct (us @ t # vs)" by (rule waits_distinct [OF w])
  have n: "enext h (Elem t) \<noteq> Elem t" using dcycle_next_at [OF c'] d a by (cases vs) auto
  have p: "eprev h (Elem t) \<noteq> Elem t"
    using dcycle_prev_at [OF c'] d a by (cases us rule: rev_cases) auto
  note links = element_delete_links [OF p n]
  show "enext (pth_element_delete (Elem t) h) (Elem t) = ENull" by (simp add: links)
  have out: "Elem t \<notin> set (a # map Elem us @ map Elem vs)" using d a by auto
  have "dcycle ((enext h)(eprev h (Elem t) := enext h (Elem t))) ((eprev h)(enext h (Elem t) := eprev h (Elem t)))
      (a # map Elem us @ map Elem vs)" by (rule dcycle_remove [OF c])
  then have "dcycle ((enext h)(eprev h (Elem t) := enext h (Elem t), Elem t := ENull))
      ((eprev h)(enext h (Elem t) := eprev h (Elem t))) (a # map Elem us @ map Elem vs)"
    using out by simp
  then show "waits (pth_element_delete (Elem t) h) a (us @ vs)" by (simp add: waits_def links)
qed

text \<open>A list with no common member is left as it is.\<close>

lemma waits_cong: "(\<And>x. x \<in> set (a # map Elem ts) \<Longrightarrow> h x = h' x) \<Longrightarrow> waits h a ts = waits h' a ts"
  unfolding waits_def by (rule dcycle_cong) (auto simp: enext_def eprev_def)
subsection \<open>Threads and the scheduler queues (schedule.h)\<close>

text \<open>The queues of the scheduler and of the natives (whose numbers are positive), as numbers of
  priority queues.\<close>

definition pth_RQ :: nat where "pth_RQ = 0"
definition pth_NQ :: nat where "pth_NQ = 1"
definition pth_WQ :: nat where "pth_WQ = 2"
definition pth_SQ :: nat where "pth_SQ = 3"
definition pth_DQ :: nat where "pth_DQ = 4"
definition wait_queue :: "nat \<Rightarrow> nat" where "wait_queue d = 8 * d"
definition new_queue :: "nat \<Rightarrow> nat" where "new_queue d = 8 * d + 1"
definition ready_queue :: "nat \<Rightarrow> nat" where "ready_queue d = 8 * d + 2"

lemmas queue_numbers = pth_RQ_def pth_NQ_def pth_WQ_def pth_SQ_def pth_DQ_def wait_queue_def new_queue_def ready_queue_def

definition upd_qw :: "(qworld \<Rightarrow> qworld option) \<Rightarrow> ('a world_scheme) \<Rightarrow> ('a world_scheme) option" where
  "upd_qw f w = map_option (\<lambda>q. w\<lparr>qw := q\<rparr>) (f (qw w))"

definition lock_thread :: "nat \<Rightarrow> nat \<Rightarrow> ('a world_scheme) \<Rightarrow> ('a world_scheme) option" where
  "lock_thread t lk w = map_option (\<lambda>l. upd_thread t (\<lambda>x. x\<lparr>tlock := l\<rparr>) w) (pth_acquire_lock lk (tlock (threads w t)))"

definition unlock_thread :: "nat \<Rightarrow> nat \<Rightarrow> ('a world_scheme) \<Rightarrow> ('a world_scheme)" where
  "unlock_thread t lk w = upd_thread t (\<lambda>x. x\<lparr>tlock := snd (pth_release_lock lk (tlock (threads w t)))\<rparr>) w"

definition thread_by_node :: "nat option \<Rightarrow> nat" where
  "thread_by_node n = (case n of None \<Rightarrow> 0 | Some n \<Rightarrow> n)"

definition thread_prio_get_nolock :: "nat \<Rightarrow> ('a world_scheme) \<Rightarrow> int" where
  "thread_prio_get_nolock t w = sprio (threads w t)"

definition thread_prio_get :: "nat \<Rightarrow> nat \<Rightarrow> ('a world_scheme) \<Rightarrow> (int \<times> ('a world_scheme)) option" where
  "thread_prio_get t lk w = do { w1 \<leftarrow> lock_thread t lk w; Some (thread_prio_get_nolock t w1, unlock_thread t lk w1) }"

text \<open>\<open>priority\<close> is an unsigned bit field of 8 bits.\<close>

definition thread_prio_set_nolock :: "nat \<Rightarrow> int \<Rightarrow> ('a world_scheme) \<Rightarrow> ('a world_scheme)" where
  "thread_prio_set_nolock t p w = upd_thread t (\<lambda>x. x\<lparr>sprio := take_bit 8 p\<rparr>) w"

definition thread_prio_set :: "nat \<Rightarrow> int \<Rightarrow> nat \<Rightarrow> ('a world_scheme) \<Rightarrow> ('a world_scheme) option" where
  "thread_prio_set t p lk w = do { w1 \<leftarrow> lock_thread t lk w; Some (unlock_thread t lk (thread_prio_set_nolock t p w1)) }"

definition thread_eprio_get_nolock :: "nat \<Rightarrow> ('a world_scheme) \<Rightarrow> int" where
  "thread_eprio_get_nolock t w = pqueue_node_priority_get_nolock t (qw w)"

definition thread_eprio_get :: "nat \<Rightarrow> nat \<Rightarrow> ('a world_scheme) \<Rightarrow> (int \<times> ('a world_scheme)) option" where
  "thread_eprio_get t lk w = do { w1 \<leftarrow> lock_thread t lk w; Some (thread_eprio_get_nolock t w1, unlock_thread t lk w1) }"

definition thread_eprio_set_nolock :: "nat \<Rightarrow> int \<Rightarrow> ('a world_scheme) \<Rightarrow> ('a world_scheme) option" where
  "thread_eprio_set_nolock t p w = upd_qw (pqueue_node_priority_set_nolock t p) w"

definition thread_eprio_set :: "nat \<Rightarrow> int \<Rightarrow> nat \<Rightarrow> ('a world_scheme) \<Rightarrow> ('a world_scheme) option" where
  "thread_eprio_set t p lk w =
     do { w1 \<leftarrow> lock_thread t lk w; w2 \<leftarrow> thread_eprio_set_nolock t p w1; Some (unlock_thread t lk w2) }"

definition thread_eprio_recalculate_nolock :: "nat \<Rightarrow> ('a world_scheme) \<Rightarrow> ('a world_scheme) option" where
  "thread_eprio_recalculate_nolock t w = thread_eprio_set_nolock t (thread_prio_get_nolock t w) w"

definition thread_eprio_recalculate :: "nat \<Rightarrow> nat \<Rightarrow> ('a world_scheme) \<Rightarrow> ('a world_scheme) option" where
  "thread_eprio_recalculate t lk w =
     do { w1 \<leftarrow> lock_thread t lk w; w2 \<leftarrow> thread_eprio_recalculate_nolock t w1; Some (unlock_thread t lk w2) }"

definition thread_queue_add :: "nat \<Rightarrow> ('a world_scheme) \<Rightarrow> ('a world_scheme)" where
  "thread_queue_add t w = upd_thread t (\<lambda>x. x\<lparr>magic := True\<rparr>)
     (w\<lparr>thread_queue := list_insert (TqNode t) TqHead (thread_queue w)\<rparr>)"

definition thread_queue_remove :: "nat \<Rightarrow> ('a world_scheme) \<Rightarrow> ('a world_scheme)" where
  "thread_queue_remove t w = upd_thread t (\<lambda>x. x\<lparr>magic := False\<rparr>)
     (w\<lparr>thread_queue := list_del (TqNode t) (thread_queue w)\<rparr>)"

subsection \<open>Waking\<close>

definition PTH_MAX_NATIVE_THREADS :: nat where "PTH_MAX_NATIVE_THREADS = 128"

declare PTH_MAX_NATIVE_THREADS_def [const_defs]

fun wakeup_natives :: "nat list \<Rightarrow> ('a world_scheme) \<Rightarrow> (int \<times> ('a world_scheme)) option" where
  "wakeup_natives [] w = None"
| "wakeup_natives (d # ds) w =
     (if \<not> is_used (natives w d) then Some (0, w)
      else if \<not> is_bound (natives w d) \<and> \<not> is_bounded (natives w d) then Some (1, write_sigpipe d w)
      else wakeup_natives ds w)"

definition pth_wakeup_anative :: "('a world_scheme) \<Rightarrow> (int \<times> ('a world_scheme)) option" where
  "pth_wakeup_anative w = wakeup_natives [2..<Suc PTH_MAX_NATIVE_THREADS] w"

text \<open>
  A waiting thread \<open>t\<close> goes from the wait queue of its native \<open>ds\<close> to the ready queue,
  as in the release of a mutex and the notification of a condition variable.
\<close>

definition make_ready :: "nat \<Rightarrow> nat \<Rightarrow> ('a world_scheme) \<Rightarrow> ('a world_scheme) option" where
  "make_ready ds t w =
     do { w1 \<leftarrow> upd_qw (spin_lock_pq (wait_queue ds)) w;
          if waited_native (threads w1 t) \<noteq> 0 then
            do { w2 \<leftarrow> upd_qw (pqueue_delete_node_nolock t) w1;
                 let w3 = upd_thread t (\<lambda>x. x\<lparr>waited_native := 0\<rparr>) w2;
                 let w4 = w3\<lparr>qw := spin_unlock_pq (wait_queue ds) (qw w3)\<rparr>;
                 w5 \<leftarrow> upd_qw (spin_lock_pq pth_RQ) w4;
                 let w6 = upd_thread t (\<lambda>x. x\<lparr>tstate := PTH_STATE_READY\<rparr>) w5;
                 w7 \<leftarrow> thread_eprio_recalculate_nolock t w6;
                 w8 \<leftarrow> upd_qw (pqueue_append_node_nolock pth_RQ t) w7;
                 Some (w8\<lparr>qw := spin_unlock_pq pth_RQ (qw w8)\<rparr>) }
          else Some (w1\<lparr>qw := spin_unlock_pq (wait_queue ds) (qw w1)\<rparr>) }"

lemma upd_qw_Some [simp]: "upd_qw f w = Some w' \<longleftrightarrow> (\<exists>q. f (qw w) = Some q \<and> w' = w\<lparr>qw := q\<rparr>)"
  by (auto simp: upd_qw_def)

text \<open>What waking leaves alone.\<close>

definition same_but_queues :: "nat \<Rightarrow> ('a world_scheme) \<Rightarrow> ('a world_scheme) \<Rightarrow> bool" where
  "same_but_queues t w w' \<longleftrightarrow> elems w' = elems w \<and> mx_nodes w' = mx_nodes w \<and> natives w' = natives w
     \<and> pth_number_of_natives w' = pth_number_of_natives w \<and> world.more w' = world.more w
     \<and> (\<exists>x. threads w' = (threads w)(t := x) \<and> mutex_owned x = mutex_owned (threads w t)
          \<and> mutexring x = mutexring (threads w t) \<and> boundnative x = boundnative (threads w t))"

lemma make_ready_same: "make_ready ds t w = Some w' \<Longrightarrow> same_but_queues t w w'"
  unfolding make_ready_def same_but_queues_def thread_eprio_recalculate_nolock_def thread_eprio_set_nolock_def
  by (auto simp: Let_def split: bind_splits if_splits intro: exI [of _ "threads w t"])

lemma wakeup_natives_same:
  "wakeup_natives ds w = Some (r, w') \<Longrightarrow> \<exists>l. w' = w\<lparr>sigpipe := sigpipe w @ l\<rparr>"
proof (induction ds)
  case (Cons d ds)
  then show ?case by (auto simp: write_sigpipe_def split: if_splits intro: exI [of _ "[]"])
qed simp

lemma wakeup_anative_same:
  "pth_wakeup_anative w = Some (r, w') \<Longrightarrow> \<exists>l. w' = w\<lparr>sigpipe := sigpipe w @ l\<rparr>"
  unfolding pth_wakeup_anative_def by (rule wakeup_natives_same)

lemma pq_rep_lock: "pq_rep (upd_pqueue q (\<lambda>p. p\<lparr>pq_lock := v\<rparr>) w) r A = pq_rep w r A"
  by (cases "r = q") (simp_all add: pq_rep_def)

lemma pqs_rep_lock [simp]: "pqs_rep (upd_pqueue q (\<lambda>p. p\<lparr>pq_lock := v\<rparr>) w) S Q = pqs_rep w S Q"
  by (simp add: pqs_rep_def pq_rep_lock)

lemma pqs_rep_priority:
  assumes "pqs_rep w S Q" and "node_lt (nodes w n) = node_lt_nowhere"
  shows "pqs_rep (upd_node n (\<lambda>s. s\<lparr>priority := p\<rparr>) w) S Q"
  unfolding pqs_rep_def
proof
  fix q assume "q \<in> S"
  with assms(1) have rep: "pq_rep w q (Q q)" by (simp add: pqs_rep_def)
  show "pq_rep (upd_node n (\<lambda>s. s\<lparr>priority := p\<rparr>) w) q (Q q)"
    by (rule pq_rep_other [OF rep])
      (use pq_rep_ring [OF rep] pq_rep_node [OF rep] assms(2) in fastforce)+
qed

lemma priority_set_nowhere:
  assumes "pqs_rep w S Q" and "node_lt (nodes w n) = node_lt_nowhere" and "bp (nodes w n) = NoQ"
  obtains w' where "pqueue_node_priority_set_nolock n p w = Some w'" "pqs_rep w' S Q" "pqueues w' = pqueues w"
    "priority (nodes w' n) = p" "node_lt (nodes w' n) = node_lt_nowhere"
  using that pqs_rep_priority [OF assms(1,2), of p] assms
  by (cases "priority (nodes w n) = p") (auto simp: pqueue_node_priority_set_nolock_def)

text \<open>The thread leaves the wait queue and is the last one of its priority in the ready queue.\<close>

lemma make_ready_rep:
  assumes rep: "pqs_rep (qw w) S Q" and wq: "wq = wait_queue ds"
    and S: "wq \<in> S" "pth_RQ \<in> S" "wq \<noteq> pth_RQ"
    and t: "t \<in> set (Q wq i)" "i < 140" and free: "\<And>q. pq_lock (pqueues (qw w) q) = 0"
    and wn: "waited_native (threads w t) \<noteq> 0" and p: "sprio (threads w t) = int p" "p < 140"
    and fits: "Suc (\<Sum>k<140. length (Q pth_RQ k)) < 2 ^ 32"
  shows "\<exists>w'. make_ready ds t w = Some w'
     \<and> pqs_rep (qw w') S (Q(wq := (Q wq)(i := remove1 t (Q wq i)), pth_RQ := (Q pth_RQ)(p := Q pth_RQ p @ [t])))
     \<and> tstate (threads w' t) = PTH_STATE_READY \<and> waited_native (threads w' t) = 0
     \<and> (\<forall>q. pq_lock (pqueues (qw w') q) = 0)"
proof -
  let ?q1 = "upd_pqueue wq (\<lambda>p. p\<lparr>pq_lock := 1\<rparr>) (qw w)"
  let ?Q1 = "Q(wq := (Q wq)(i := remove1 t (Q wq i)))"
  have "pqs_rep ?q1 S Q" using rep by simp
  from pqueue_delete_node_rep [OF this S(1) t(2,1)] obtain q2 where
    q2: "pqueue_delete_node_nolock t ?q1 = Some q2" "pqs_rep q2 S ?Q1" "same_nodes t ?q1 q2"
      "node_lt (nodes q2 t) = node_lt_nowhere" "bp (nodes q2 t) = NoQ" by blast
  let ?q4 = "upd_pqueue pth_RQ (\<lambda>p. p\<lparr>pq_lock := 1\<rparr>) (spin_unlock_pq wq q2)"
  have r4: "pqs_rep ?q4 S ?Q1" using q2(2) by (simp add: spin_unlock_pq_def)
  have n4: "node_lt (nodes ?q4 t) = node_lt_nowhere" "bp (nodes ?q4 t) = NoQ"
    using q2(4,5) by (simp_all add: spin_unlock_pq_def)
  from priority_set_nowhere [OF r4 n4, of "int p"] obtain q5 where
    q5: "pqueue_node_priority_set_nolock t (int p) ?q4 = Some q5" "pqs_rep q5 S ?Q1"
      "priority (nodes q5 t) = int p" "node_lt (nodes q5 t) = node_lt_nowhere" "pqueues q5 = pqueues ?q4" by metis
  have "can_enter q5 ?Q1 pth_RQ t p" using q5 p fits S(3) by (simp add: can_enter_def)
  from pqueue_append_node_rep [OF q5(2) S(2) this] obtain q6 where
    q6: "pqueue_append_node_nolock pth_RQ t q5 = Some q6"
      "pqs_rep q6 S (?Q1(pth_RQ := (?Q1 pth_RQ)(p := ?Q1 pth_RQ p @ [t])))" "same_nodes t q5 q6" by blast
  have l1: "spin_lock_pq wq (qw w) = Some ?q1" using free by (simp add: spin_lock_pq_def)
  have l4: "spin_lock_pq pth_RQ (spin_unlock_pq wq q2) = Some ?q4"
    using free q2(3) S(3) by (simp add: spin_lock_pq_def spin_unlock_pq_def same_nodes_def)
  have "pq_lock (pqueues (spin_unlock_pq pth_RQ q6) q) = 0" for q
    using q6(3) q5(5) q2(3) free S(3) by (simp add: same_nodes_def spin_unlock_pq_def)
  then show ?thesis
    using q2(1) q5(1) q6(1,2) l1 l4 wn p(1) S(3)
    by (simp add: make_ready_def wq [symmetric] upd_qw_def thread_eprio_recalculate_nolock_def
        thread_eprio_set_nolock_def thread_prio_get_nolock_def Let_def spin_unlock_pq_def)
qed

text \<open>
  A thread that waits in the wait queue of its native and can be moved to the ready queue.  Moving
  one such thread leaves the others so, and adds one to the ready queue.
\<close>

definition wakeable :: "nat set \<Rightarrow> (nat \<Rightarrow> nat \<Rightarrow> nat list) \<Rightarrow> ('a world_scheme) \<Rightarrow> nat \<Rightarrow> bool" where
  "wakeable S Q w u \<longleftrightarrow> boundnative (threads w u) = 0 \<and> waited_native (threads w u) \<noteq> 0
     \<and> wait_queue (waited_native (threads w u)) \<in> S \<and> (\<exists>i<140. u \<in> set (Q (wait_queue (waited_native (threads w u))) i))
     \<and> (\<exists>p<140. sprio (threads w u) = int p)"

lemma wait_queue_not_RQ: "d \<noteq> 0 \<Longrightarrow> wait_queue d \<noteq> pth_RQ"
  by (simp add: queue_numbers)

lemma make_ready_wakeable:
  assumes rep: "pqs_rep (qw w) S Q" "pth_RQ \<in> S" and u: "wakeable S Q w u"
    and free: "\<forall>q. pq_lock (pqueues (qw w) q) = 0" and fits: "Suc (\<Sum>k<140. length (Q pth_RQ k)) < 2 ^ 32"
  obtains w' Q' where "make_ready (waited_native (threads w u)) u w = Some w'" "pqs_rep (qw w') S Q'"
    "tstate (threads w' u) = PTH_STATE_READY" "waited_native (threads w' u) = 0" "\<forall>q. pq_lock (pqueues (qw w') q) = 0"
    "same_but_queues u w w'" "\<And>v. v \<noteq> u \<Longrightarrow> wakeable S Q w v \<Longrightarrow> wakeable S Q' w' v"
    "(\<Sum>k<140. length (Q' pth_RQ k)) = Suc (\<Sum>k<140. length (Q pth_RQ k))" "\<exists>i<140. u \<in> set (Q' pth_RQ i)"
    "\<And>i. set (Q pth_RQ i) \<subseteq> set (Q' pth_RQ i)"
proof -
  let ?ds = "waited_native (threads w u)"
  let ?wq = "wait_queue ?ds"
  from u obtain i p where i: "i < 140" "u \<in> set (Q ?wq i)" and p: "p < 140" "sprio (threads w u) = int p"
    and ds: "?ds \<noteq> 0" "?wq \<in> S" by (auto simp: wakeable_def)
  let ?Q = "Q(?wq := (Q ?wq)(i := remove1 u (Q ?wq i)), pth_RQ := (Q pth_RQ)(p := Q pth_RQ p @ [u]))"
  have ne: "?wq \<noteq> pth_RQ" using ds(1) by (rule wait_queue_not_RQ)
  have "\<exists>w'. make_ready ?ds u w = Some w' \<and> pqs_rep (qw w') S ?Q
     \<and> tstate (threads w' u) = PTH_STATE_READY \<and> waited_native (threads w' u) = 0
     \<and> (\<forall>q. pq_lock (pqueues (qw w') q) = 0)"
    using rep ds ne i p free fits by (intro make_ready_rep) auto
  then obtain w' where w': "make_ready ?ds u w = Some w'" "pqs_rep (qw w') S ?Q"
    "tstate (threads w' u) = PTH_STATE_READY" "waited_native (threads w' u) = 0" "\<forall>q. pq_lock (pqueues (qw w') q) = 0" by blast
  note same = make_ready_same [OF w'(1)]
  have th: "threads w' v = threads w v" if "v \<noteq> u" for v using same that by (auto simp: same_but_queues_def)
  have mem: "v \<in> set (?Q (wait_queue d) j)" if "v \<noteq> u" "d \<noteq> 0" "v \<in> set (Q (wait_queue d) j)" for v d j
    using that wait_queue_not_RQ [OF that(2)] by (auto simp: in_set_remove1)
  have "wakeable S ?Q w' v" if "v \<noteq> u" "wakeable S Q w v" for v
    using that mem [OF that(1)] unfolding wakeable_def th [OF that(1)] by blast
  moreover have "(\<Sum>k<140. length (?Q pth_RQ k)) = Suc (\<Sum>k<140. length (Q pth_RQ k))"
  proof -
    have "(\<Sum>k<140. length (?Q pth_RQ k)) = (\<Sum>k<140. ((\<lambda>k. length (Q pth_RQ k))(p := Suc (length (Q pth_RQ p)))) k)"
      by (rule sum.cong) auto
    with sum_list_upd_fun [OF p(1), of "\<lambda>k. length (Q pth_RQ k)" "Suc (length (Q pth_RQ p))"] show ?thesis by simp
  qed
  moreover have "\<exists>i<140. u \<in> set (?Q pth_RQ i)" using p(1) by (intro exI [of _ p]) simp
  moreover have "set (Q pth_RQ j) \<subseteq> set (?Q pth_RQ j)" for j by auto
  ultimately show thesis using that [of w' ?Q] w' same by blast
qed

end
