(* ===== verification/Futex.thy ===== *)
theory Futex
  imports Prelude
begin

text \<open>
  futex.h, rfutex.h and the i386 counter operations of sysdeps/i386/futex.h: the locks that
  processes share.  The count is 1 for a free futex, 0 for one that is held, and negative if
  there may be waiters.

  The functions are modelled twice.  As functions on the futex: the kernel is the parameter
  \<open>K\<close>, a function of the operation, its value argument, the futex and the state of the
  rest of the system, which gives the result and the futex as it is when the call returns
  (another process may have changed it meanwhile).  A loop that does not end is \<open>None\<close>.
  And as an interleaving of the threads, one step per access to the count, in which the kernel
  may answer anything: the property that makes the futex a lock is shown there.
\<close>

subsection \<open>The functions\<close>

datatype futex_op = FUTEX_WAIT | FUTEX_WAKE | FUTEX_FD

definition FUTEX_PASSED :: int where "FUTEX_PASSED = - (1024 * 1024 * 1024)"
definition INT_MAX :: int where "INT_MAX = 2147483647"
definition EWOULDBLOCK :: int where "EWOULDBLOCK = EAGAIN"

declare FUTEX_PASSED_def [const_defs] INT_MAX_def [const_defs] EWOULDBLOCK_def [const_defs]

record futex_st =
  fcount :: int

type_synonym 'k fstate = "futex_st \<times> 'k"
type_synonym 'k fkernel = "futex_op \<Rightarrow> int \<Rightarrow> 'k fstate \<Rightarrow> int \<times> 'k fstate"

text \<open>\<open>__futex_down\<close> and \<open>__futex_up\<close>, alone: the result and the new count.\<close>

definition futex_down_i386 :: "int \<Rightarrow> int \<times> int" where
  "futex_down_i386 c =
     (if c < 0 then (c, c)
      else let c' = wrap_int (c - 1) in (if c' = 0 then 0 else -1, c'))"

definition futex_up_i386 :: "int \<Rightarrow> int \<times> int" where
  "futex_up_i386 c = (if c + 1 > 0 then 1 else 0, wrap_int (c + 1))"

definition futex_count :: "futex_st \<Rightarrow> int" where
  "futex_count f = fcount f"

definition futex_down_slow :: "'k fkernel \<Rightarrow> int \<Rightarrow> 'k fstate \<Rightarrow> int \<times> 'k fstate" where
  "futex_down_slow K val s =
     (let (result, (f, k)) = K FUTEX_WAIT val s
      in if result = 0
         then if fcount f \<le> FUTEX_PASSED then (1, (f\<lparr>fcount := -1\<rparr>, k)) else (0, (f, k))
         else if result = - EWOULDBLOCK then (2, (f, k)) else (result, (f, k)))"

definition futex_up_slow :: "'k fkernel \<Rightarrow> int \<Rightarrow> 'k fstate \<Rightarrow> int \<times> 'k fstate" where
  "futex_up_slow K howmany s = (let (f, k) = s in K FUTEX_WAKE howmany (f\<lparr>fcount := 1\<rparr>, k))"

partial_function (option) futex_down_loop :: "'k fkernel \<Rightarrow> bool \<Rightarrow> 'k fstate \<Rightarrow> (int \<times> 'k fstate) option" where
  [code]: "futex_down_loop K woken s =
     (let (f, k) = s; (val, c) = futex_down_i386 (fcount f); f1 = f\<lparr>fcount := c\<rparr>
      in if val \<noteq> 0
         then let (result, s2) = futex_down_slow K val (f1, k)
              in if result < 0 then Some (result, s2)
                 else if result = 1 then Some (0, s2)
                 else futex_down_loop K (if result = 0 then True else woken) s2
         else Some (0, (if woken then f1\<lparr>fcount := -1\<rparr> else f1, k)))"

definition futex_down_timeout :: "'k fkernel \<Rightarrow> 'k fstate \<Rightarrow> (int \<times> 'k fstate) option" where
  "futex_down_timeout K s = futex_down_loop K False s"

definition futex_down :: "'k fkernel \<Rightarrow> 'k fstate \<Rightarrow> (int \<times> 'k fstate) option" where
  "futex_down K s = futex_down_timeout K s"

definition futex_trydown :: "futex_st \<Rightarrow> int \<times> futex_st" where
  "futex_trydown f = (let (v, c) = futex_down_i386 (fcount f)
                      in (if v = 0 then 0 else - EWOULDBLOCK, f\<lparr>fcount := c\<rparr>))"

definition futex_up :: "'k fkernel \<Rightarrow> int \<Rightarrow> 'k fstate \<Rightarrow> int \<times> 'k fstate" where
  "futex_up K howmany s =
     (let (f, k) = s; (v, c) = futex_up_i386 (fcount f); s1 = (f\<lparr>fcount := c\<rparr>, k)
      in if v = 0 then futex_up_slow K howmany s1 else (0, s1))"

definition futex_up_fair :: "'k fkernel \<Rightarrow> 'k fstate \<Rightarrow> int \<times> 'k fstate" where
  "futex_up_fair K s =
     (let (f, k) = s; (v, c) = futex_up_i386 (fcount f); f1 = f\<lparr>fcount := c\<rparr>
      in if v = 0
         then let (result, s2) = K FUTEX_WAKE 1 (f1\<lparr>fcount := FUTEX_PASSED\<rparr>, k)
              in if result = 1 then (0, s2) else futex_up_slow K INT_MAX s2
         else (0, (f1, k)))"

definition futex_await :: "'k fkernel \<Rightarrow> 'k fstate \<Rightarrow> int \<times> 'k fstate" where
  "futex_await K s = K FUTEX_FD 0 s"

definition futex_init :: "futex_st \<Rightarrow> futex_st" where
  "futex_init f = f\<lparr>fcount := 1\<rparr>"

text \<open>The second component of the result: the file descriptor that is closed, if any.\<close>

definition futex_acquire :: "'k fkernel \<Rightarrow> bool \<Rightarrow> 'k fstate \<Rightarrow> int \<times> int option \<times> 'k fstate" where
  "futex_acquire K tryonly s =
     (let (f, k) = s; (r, f1) = futex_trydown f
      in if r \<noteq> 0 then
           if tryonly then (0, None, (f1, k))
           else let (fd, (f2, k2)) = futex_await K (f1, k)
                in if fd < 0 then (fd, None, (f2, k2))
                   else let (r2, f3) = futex_trydown f2
                        in if r2 = 0 then (0, Some fd, (f3, k2))
                           else if fcount f3 \<le> FUTEX_PASSED then (0, None, (f3\<lparr>fcount := -1\<rparr>, k2))
                           else (fd, None, (f3, k2))
         else (0, None, (f1, k)))"

definition futex_release :: "'k fkernel \<Rightarrow> 'k fstate \<Rightarrow> int \<times> 'k fstate" where
  "futex_release K s = futex_up K INT_MAX s"

definition futex_add_waiter :: "'k fkernel \<Rightarrow> 'k fstate \<Rightarrow> int \<times> 'k fstate" where
  "futex_add_waiter K s = futex_await K s"

definition futex_notify :: "'k fkernel \<Rightarrow> 'k fstate \<Rightarrow> 'k fstate" where
  "futex_notify K s = snd (futex_up_slow K 1 s)"

definition futex_notify_all :: "'k fkernel \<Rightarrow> 'k fstate \<Rightarrow> 'k fstate" where
  "futex_notify_all K s = snd (futex_up_slow K INT_MAX s)"

definition futex_destroy :: "futex_st \<Rightarrow> futex_st" where
  "futex_destroy f = f\<lparr>fcount := 0\<rparr>"

text \<open>The page that an area starts in and the number of bytes of the pages it covers.\<close>

definition futex_region :: "nat \<Rightarrow> (nat \<Rightarrow> nat \<Rightarrow> int) \<Rightarrow> nat \<Rightarrow> nat \<Rightarrow> int" where
  "futex_region page_size sys_mprotect area size' =
     (let area1 = (area div page_size) * page_size;
          size1 = ((size' + page_size - 1) div page_size) * page_size;
          retval = sys_mprotect area1 size1
      in if retval < 0 then retval else 0)"

record rfutex_st =
  futex :: futex_st
  pshared :: bool
  rtype :: "8 word"
  parent :: nat

definition rfutex_init :: "nat \<Rightarrow> bool \<Rightarrow> rfutex_st \<Rightarrow> rfutex_st" where
  "rfutex_init p sh r = (let r1 = r\<lparr>pshared := sh, parent := p\<rparr> in r1\<lparr>futex := futex_init (futex r1)\<rparr>)"

definition rfutex_destroy :: "rfutex_st \<Rightarrow> rfutex_st" where
  "rfutex_destroy r = (let r1 = r\<lparr>pshared := False, parent := 0\<rparr> in r1\<lparr>futex := futex_destroy (futex r1)\<rparr>)"

subsection \<open>The interleaving\<close>

text \<open>
  The caller of \<open>__futex_down\<close>: \<open>futex_down\<close> with its variable \<open>woken\<close>,
  \<open>futex_trydown\<close>, or \<open>futex_acquire\<close> at its first or its second attempt.
\<close>

datatype fmode = MDown bool | MTry | MAcq1 | MAcq2

text \<open>
  \<open>FRead\<close> is about to read the count, \<open>FDec\<close> about to decrement it, \<open>FSlow\<close>
  in the system call of \<open>futex_down_slow\<close>, \<open>FAwait\<close> in that of \<open>futex_await\<close>,
  \<open>FPassed\<close> about to compare the count with \<open>FUTEX_PASSED\<close>, \<open>FSetNeg\<close> about to
  store -1, \<open>FHeld\<close> has acquired the futex, \<open>FUp\<close> is in \<open>futex_up_slow\<close>.
\<close>

datatype fpc = FOut | FRead fmode | FDec fmode | FSlow bool | FAwait | FPassed fmode | FSetNeg | FHeld | FUp

record futexworld =
  fx :: futex_st
  fpcs :: "nat \<Rightarrow> fpc"

fun fail_pc :: "fmode \<Rightarrow> fpc" where
  "fail_pc (MDown w) = FSlow w"
| "fail_pc MTry = FOut"
| "fail_pc MAcq1 = FAwait"
| "fail_pc MAcq2 = FPassed MAcq2"

definition got_pc :: "fmode \<Rightarrow> fpc" where
  "got_pc m = (if m = MDown True then FSetNeg else FHeld)"

definition not_passed_pc :: "fmode \<Rightarrow> fpc" where
  "not_passed_pc m = (case m of MDown w \<Rightarrow> FRead (MDown True) | _ \<Rightarrow> FOut)"

definition fgo :: "nat \<Rightarrow> fpc \<Rightarrow> int \<Rightarrow> futexworld \<Rightarrow> futexworld" where
  "fgo t p c s = s\<lparr>fpcs := (fpcs s)(t := p), fx := (fx s)\<lparr>fcount := c\<rparr>\<rparr>"

abbreviation cnt :: "futexworld \<Rightarrow> int" where "cnt s \<equiv> fcount (fx s)"

inductive fstep :: "nat \<Rightarrow> futexworld \<Rightarrow> futexworld \<Rightarrow> bool" for t where
  call: "fpcs s t = FOut \<Longrightarrow> m \<in> {MDown False, MTry, MAcq1} \<Longrightarrow> fstep t s (fgo t (FRead m) (cnt s) s)"
| read_neg: "fpcs s t = FRead m \<Longrightarrow> cnt s < 0 \<Longrightarrow> fstep t s (fgo t (fail_pc m) (cnt s) s)"
| read_ok: "fpcs s t = FRead m \<Longrightarrow> cnt s \<ge> 0 \<Longrightarrow> fstep t s (fgo t (FDec m) (cnt s) s)"
| dec_got: "fpcs s t = FDec m \<Longrightarrow> wrap_int (cnt s - 1) = 0 \<Longrightarrow>
    fstep t s (fgo t (got_pc m) (wrap_int (cnt s - 1)) s)"
| dec_fail: "fpcs s t = FDec m \<Longrightarrow> wrap_int (cnt s - 1) \<noteq> 0 \<Longrightarrow>
    fstep t s (fgo t (fail_pc m) (wrap_int (cnt s - 1)) s)"
| slow_woken: "fpcs s t = FSlow w \<Longrightarrow> fstep t s (fgo t (FPassed (MDown w)) (cnt s) s)"
| slow_again: "fpcs s t = FSlow w \<Longrightarrow> fstep t s (fgo t (FRead (MDown w)) (cnt s) s)"
| slow_error: "fpcs s t = FSlow w \<Longrightarrow> fstep t s (fgo t FOut (cnt s) s)"
| await_try: "fpcs s t = FAwait \<Longrightarrow> fstep t s (fgo t FOut (cnt s) s)"
| await_fd: "fpcs s t = FAwait \<Longrightarrow> fstep t s (fgo t (FRead MAcq2) (cnt s) s)"
| passed: "fpcs s t = FPassed m \<Longrightarrow> cnt s \<le> FUTEX_PASSED \<Longrightarrow> fstep t s (fgo t FSetNeg (cnt s) s)"
| not_passed: "fpcs s t = FPassed m \<Longrightarrow> cnt s > FUTEX_PASSED \<Longrightarrow>
    fstep t s (fgo t (not_passed_pc m) (cnt s) s)"
| set_neg: "fpcs s t = FSetNeg \<Longrightarrow> fstep t s (fgo t FHeld (-1) s)"
| up_fast: "fpcs s t = FHeld \<Longrightarrow> cnt s + 1 > 0 \<Longrightarrow> fstep t s (fgo t FOut (wrap_int (cnt s + 1)) s)"
| up_wait: "fpcs s t = FHeld \<Longrightarrow> cnt s + 1 \<le> 0 \<Longrightarrow> fstep t s (fgo t FUp (wrap_int (cnt s + 1)) s)"
| up_slow: "fpcs s t = FUp \<Longrightarrow> fstep t s (fgo t FOut 1 s)"

text \<open>The threads are \<open>0, ..., n - 1\<close>.\<close>

inductive freach :: "nat \<Rightarrow> futexworld \<Rightarrow> futexworld \<Rightarrow> bool" for n s0 where
  start: "freach n s0 s0"
| step: "freach n s0 s \<Longrightarrow> t < n \<Longrightarrow> fstep t s s' \<Longrightarrow> freach n s0 s'"

definition finit :: "futexworld \<Rightarrow> bool" where
  "finit s \<longleftrightarrow> cnt s = 1 \<and> (\<forall>t. fpcs s t = FOut)"

text \<open>A thread has the futex from the decrement to 0 to the moment the count is 1 again.\<close>

definition fowns :: "futexworld \<Rightarrow> nat \<Rightarrow> bool" where
  "fowns s t \<longleftrightarrow> fpcs s t \<in> {FSetNeg, FHeld, FUp}"

definition fdecs :: "nat \<Rightarrow> futexworld \<Rightarrow> nat set" where
  "fdecs n s = {t. t < n \<and> (\<exists>m. fpcs s t = FDec m)}"

text \<open>
  The threads that are about to decrement have seen a count that was not negative, so the
  count never falls below minus the number of threads.
\<close>

definition finv :: "nat \<Rightarrow> futexworld \<Rightarrow> bool" where
  "finv n s \<longleftrightarrow> cnt s \<le> 1 \<and> cnt s - int (card (fdecs n s)) \<ge> - int n
     \<and> (\<forall>t\<ge>n. fpcs s t = FOut)
     \<and> (cnt s > 0 \<longrightarrow> (\<forall>t. \<not> fowns s t))
     \<and> (\<forall>t u. fowns s t \<longrightarrow> fowns s u \<longrightarrow> t = u)"

lemma finit_finv: "finit s \<Longrightarrow> finv n s"
  by (simp add: finit_def finv_def fdecs_def fowns_def)

lemma fdecs_finite [simp]: "finite (fdecs n s)"
  by (simp add: fdecs_def)

lemma fdecs_card: "card (fdecs n s) \<le> n"
proof -
  have "fdecs n s \<subseteq> {..<n}" by (auto simp: fdecs_def)
  from card_mono [OF _ this] show ?thesis by simp
qed

lemma fgo_sel [simp]:
  "cnt (fgo t p c s) = c" "fpcs (fgo t p c s) = (fpcs s)(t := p)"
  by (simp_all add: fgo_def)

lemma fdecs_fgo:
  "fdecs n (fgo t p c s) = (if t < n \<and> (\<exists>m. p = FDec m) then insert t (fdecs n s) else fdecs n s - {t})"
  by (auto simp: fdecs_def)

lemma fdecs_card_other:
  assumes "t < n" and "t \<notin> fdecs n s"
  shows "card (fdecs n s) < n"
proof -
  have "fdecs n s \<subseteq> {..<n} - {t}" using assms by (auto simp: fdecs_def)
  from card_mono [OF _ this] assms show ?thesis by (simp add: card_Diff_singleton)
qed
lemma fowns_fgo: "fowns (fgo t p c s) u = (if u = t then p \<in> {FSetNeg, FHeld, FUp} else fowns s u)"
  by (simp add: fowns_def)

lemma finv_fgo:
  assumes inv: "finv n s" and t: "t < n" and c: "c \<le> 1"
    and low: "c - int (card (fdecs n (fgo t p c s))) \<ge> - int n"
    and own: "p \<in> {FSetNeg, FHeld, FUp} \<Longrightarrow> c \<le> 0 \<and> (fowns s t \<or> cnt s > 0)"
    and free: "c > 0 \<Longrightarrow> cnt s > 0 \<or> fowns s t"
  shows "finv n (fgo t p c s)"
proof -
  have excl: "u = v" if "fowns (fgo t p c s) u" "fowns (fgo t p c s) v" for u v
    using that inv own unfolding fowns_fgo finv_def by (metis (full_types))
  have "\<not> fowns (fgo t p c s) u" if "c > 0" for u
    using that inv own free unfolding fowns_fgo finv_def by (metis (full_types) not_less)
  moreover have "\<forall>u\<ge>n. fpcs (fgo t p c s) u = FOut" using inv t by (simp add: finv_def)
  ultimately show ?thesis using excl c low unfolding finv_def fgo_sel by blast
qed

text \<open>The lower bound after a step: a thread that was not and is not about to decrement, ...\<close>

lemma low_same:
  assumes "finv n s" and "t \<notin> fdecs n s" and "\<nexists>m. p = FDec m"
  shows "cnt s - int (card (fdecs n (fgo t p c s))) \<ge> - int n"
  using assms by (simp add: finv_def fdecs_fgo)

lemma low_store:
  assumes "t < n" and "t \<notin> fdecs n s" and "\<nexists>m. p = FDec m" and "c \<ge> -1"
  shows "c - int (card (fdecs n (fgo t p d s))) \<ge> - int n"
  using fdecs_card_other [OF assms(1,2)] assms by (simp add: fdecs_fgo)

lemma low_read:
  assumes "cnt s \<ge> 0"
  shows "cnt s - int (card (fdecs n s')) \<ge> - int n"
  using fdecs_card [of n s'] assms by simp

lemma low_dec:
  assumes inv: "finv n s" and t: "t \<in> fdecs n s" and "\<nexists>m. p = FDec m"
  shows "cnt s - 1 - int (card (fdecs n (fgo t p c s))) \<ge> - int n"
proof -
  have "card (fdecs n s) = Suc (card (fdecs n s - {t}))" using t by (simp only: card_Suc_Diff1 fdecs_finite)
  with inv assms(3) show ?thesis by (simp add: finv_def fdecs_fgo)
qed

lemma pc_targets [simp]:
  "fail_pc m \<noteq> FDec d" "got_pc m \<noteq> FDec d" "not_passed_pc m \<noteq> FDec d"
  "fail_pc m \<noteq> FSetNeg" "fail_pc m \<noteq> FHeld" "fail_pc m \<noteq> FUp"
  "not_passed_pc m \<noteq> FSetNeg" "not_passed_pc m \<noteq> FHeld" "not_passed_pc m \<noteq> FUp"
  by (cases m; simp add: got_pc_def not_passed_pc_def)+

lemma fstep_finv:
  assumes "fstep t s s'" and inv: "finv n s" and t: "t < n" and n: "n < 2 ^ 30"
  shows "finv n s'"
proof -
  have le: "cnt s \<le> 1" and ge: "cnt s \<ge> - int n"
    using inv by (auto simp: finv_def)
  have dec: "wrap_int (cnt s - 1) = cnt s - 1" and inc: "wrap_int (cnt s + 1) = cnt s + 1"
    using le ge n by (auto intro!: wrap_int_small)
  have nonneg: "cnt s \<le> 0" if "fowns s t" using inv that by (auto simp: finv_def not_less [symmetric])
  have at: "t \<in> fdecs n s \<longleftrightarrow> (\<exists>m. fpcs s t = FDec m)" using t by (simp add: fdecs_def)
  have stay: "finv n (fgo t p (cnt s) s)"
    if "\<nexists>m. fpcs s t = FDec m" "\<nexists>m. p = FDec m" "p \<notin> {FSetNeg, FHeld, FUp}" for p
    using that at low_same [OF inv] by (intro finv_fgo [OF inv t le]) auto
  from assms(1) show ?thesis
  proof cases
    case (read_ok m)
    show ?thesis unfolding read_ok(1)
      by (rule finv_fgo [OF inv t le]) (use read_ok low_read [of s n] in auto)
  next
    case (dec_got m)
    have "cnt s = 1" using dec_got dec by simp
    then show ?thesis unfolding dec_got(1) dec
      using dec_got(2) at low_dec [OF inv, of t "got_pc m" "cnt s - 1"]
      by (intro finv_fgo [OF inv t]) auto
  next
    case (dec_fail m)
    show ?thesis unfolding dec_fail(1) dec
      using dec_fail(2) at low_dec [OF inv, of t "fail_pc m" "cnt s - 1"] le
      by (intro finv_fgo [OF inv t]) auto
  next
    case (passed m)
    with ge n show ?thesis by (simp add: const_defs)
  next
    case set_neg
    show ?thesis unfolding set_neg(1)
      by (rule finv_fgo [OF inv t]) (use set_neg at low_store [OF t, of s FHeld "-1" "-1"] in \<open>auto simp: fowns_def\<close>)
  next
    case up_fast
    have own: "fowns s t" using up_fast by (simp add: fowns_def)
    show ?thesis unfolding up_fast(1) inc
      by (rule finv_fgo [OF inv t])
        (use up_fast own nonneg [OF own] at low_store [OF t, of s FOut "cnt s + 1" "cnt s + 1"] in auto)
  next
    case up_wait
    have own: "fowns s t" using up_wait by (simp add: fowns_def)
    have "cnt s + 1 - int (card (fdecs n (fgo t FUp (cnt s + 1) s))) \<ge> - int n"
      using low_same [OF inv, of t FUp "cnt s + 1"] up_wait(2) at by simp
    then show ?thesis unfolding up_wait(1) inc
      by (intro finv_fgo [OF inv t]) (use up_wait own in auto)
  next
    case up_slow
    show ?thesis unfolding up_slow(1)
      by (rule finv_fgo [OF inv t]) (use up_slow at low_store [OF t, of s FOut 1 1] in \<open>auto simp: fowns_def\<close>)
  qed (auto intro!: stay)
qed

lemma freach_finv: "freach n s0 s \<Longrightarrow> finit s0 \<Longrightarrow> n < 2 ^ 30 \<Longrightarrow> finv n s"
  by (induction rule: freach.induct) (auto intro: finit_finv fstep_finv)

subsection \<open>Results of the functions\<close>

text \<open>A futex that was just initialised is acquired and released without the kernel.\<close>

lemma futex_down_free: "fcount f = 1 \<Longrightarrow> futex_down K (f, k) = Some (0, (f\<lparr>fcount := 0\<rparr>, k))"
  unfolding futex_down_def futex_down_timeout_def
  by (subst futex_down_loop.simps) (simp add: futex_down_i386_def wrap_int_def)

lemma futex_up_uncontended: "fcount f = 0 \<Longrightarrow> futex_up K h (f, k) = (0, (f\<lparr>fcount := 1\<rparr>, k))"
  by (simp add: futex_up_def futex_up_i386_def wrap_int_def Let_def)

text \<open>Whatever the kernel does: \<open>futex_down\<close> has the futex when it returns 0.\<close>

text \<open>\<open>FUTEX_WAIT\<close> returns 0 or an error, never a positive number.\<close>

definition wait_result_ok :: "'k fkernel \<Rightarrow> bool" where
  "wait_result_ok K \<longleftrightarrow> (\<forall>v s. fst (K FUTEX_WAIT v s) \<le> 0)"

lemma futex_down_slow_result:
  assumes "wait_result_ok K"
  shows "fst (futex_down_slow K v s) = 1 \<Longrightarrow> fcount (fst (snd (futex_down_slow K v s))) = -1"
  using assms [unfolded wait_result_ok_def, rule_format, of v s]
  by (auto simp: futex_down_slow_def const_defs split: prod.splits if_splits)

lemma futex_down_loop_result:
  assumes ok: "wait_result_ok K" and r: "futex_down_loop K woken s = Some y"
  shows "fst y \<le> 0 \<and> (fst y = 0 \<longrightarrow> fcount (fst (snd y)) \<in> {0, -1})"
proof (rule futex_down_loop.raw_induct [where P = "\<lambda>K w s y. wait_result_ok K \<longrightarrow>
    fst y \<le> 0 \<and> (fst y = 0 \<longrightarrow> fcount (fst (snd y)) \<in> {0, -1})", OF _ r, THEN mp, OF _ ok], rule impI)
  fix rec :: "_ \<Rightarrow> _ \<Rightarrow> 'a fstate \<Rightarrow> _" and K w s y
  assume IH: "\<And>K w s y. rec K w s = Some y \<Longrightarrow> wait_result_ok K \<longrightarrow>
      fst y \<le> 0 \<and> (fst y = 0 \<longrightarrow> fcount (fst (snd y)) \<in> {0, -1})"
    and ok: "wait_result_ok K"
    and body: "(let (f, k) = s; (val, c) = futex_down_i386 (fcount f); f1 = f\<lparr>fcount := c\<rparr>
      in if val \<noteq> 0
         then let (result, s2) = futex_down_slow K val (f1, k)
              in if result < 0 then Some (result, s2) else if result = 1 then Some (0, s2)
                 else rec K (if result = 0 then True else w) s2
         else Some (0, (if w then f1\<lparr>fcount := -1\<rparr> else f1, k))) = Some y"
  obtain f k where s: "s = (f, k)" by (cases s)
  obtain v c where vc: "futex_down_i386 (fcount f) = (v, c)" by (cases "futex_down_i386 (fcount f)")
  obtain r s2 where rs: "futex_down_slow K v (f\<lparr>fcount := c\<rparr>, k) = (r, s2)" by (cases "futex_down_slow K v (f\<lparr>fcount := c\<rparr>, k)")
  have one: "fcount (fst s2) = -1" if "r = 1"
    using futex_down_slow_result [OF ok, of v "(f\<lparr>fcount := c\<rparr>, k)"] rs that by simp
  have zero: "c = 0" if "v = 0" using vc that by (auto simp: futex_down_i386_def Let_def split: if_splits)
  have b: "(if v \<noteq> 0 then if r < 0 then Some (r, s2) else if r = 1 then Some (0, s2)
        else rec K (if r = 0 then True else w) s2
      else Some (0, (f\<lparr>fcount := if w then -1 else c\<rparr>, k))) = Some y"
    using body s vc rs by (cases w) (auto simp: Let_def split: if_splits)
  show "fst y \<le> 0 \<and> (fst y = 0 \<longrightarrow> fcount (fst (snd y)) \<in> {0, -1})"
  proof (cases "v = 0 \<or> r < 0 \<or> r = 1")
    case True
    with b one zero show ?thesis by (auto split: if_splits)
  next
    case False
    with b have "rec K (if r = 0 then True else w) s2 = Some y" by simp
    from IH [OF this] ok show ?thesis by blast
  qed
qed

subsection \<open>Properties\<close>

text \<open>
  C8.  The futex is a lock: whatever the kernel answers, with fewer than \<open>2 ^ 30\<close>
  threads no two of them have it at the same time, and the count of a futex that somebody has
  is not positive.
\<close>

theorem futex_mutual_exclusion:
  assumes "finit s0" and "freach n s0 s" and "n < 2 ^ 30" and "fowns s t" and "fowns s u"
  shows "t = u \<and> fcount (fx s) \<le> 0"
  using freach_finv [OF assms(2,1,3)] assms(4,5) by (auto simp: finv_def not_less [symmetric])

definition fstart :: futexworld where
  "fstart = \<lparr>fx = \<lparr>fcount = 1\<rparr>, fpcs = \<lambda>_. FOut\<rparr>"

theorem futex_mutual_exclusion_witness:
  "\<exists>s. freach 2 fstart s \<and> fpcs s 0 = FHeld \<and> fpcs s 1 = FSlow False \<and> fcount (fx s) \<le> 0"
proof -
  let ?s1 = "fgo 0 (FRead MTry) 1 fstart" let ?s2 = "fgo 0 (FDec MTry) 1 ?s1" let ?s3 = "fgo 0 FHeld 0 ?s2"
  let ?s4 = "fgo 1 (FRead (MDown False)) 0 ?s3" let ?s5 = "fgo 1 (FDec (MDown False)) 0 ?s4"
  let ?s6 = "fgo 1 (FSlow False) (-1) ?s5"
  have steps: "fstep 0 fstart ?s1" "fstep 0 ?s1 ?s2" "fstep 0 ?s2 ?s3" "fstep 1 ?s3 ?s4" "fstep 1 ?s4 ?s5" "fstep 1 ?s5 ?s6"
    using fstep.call [of fstart 0 MTry] fstep.read_ok [of ?s1 0 MTry] fstep.dec_got [of ?s2 0 MTry]
      fstep.call [of ?s3 1 "MDown False"] fstep.read_ok [of ?s4 1 "MDown False"] fstep.dec_fail [of ?s5 1 "MDown False"]
    by (simp_all add: fstart_def got_pc_def wrap_int_def)
  have r: "freach 2 fstart ?s6"
    by (rule freach.step [OF freach.step [OF freach.step [OF freach.step [OF freach.step [OF freach.step
        [OF freach.start _ steps(1)] _ steps(2)] _ steps(3)] _ steps(4)] _ steps(5)] _ steps(6)]) simp_all
  have "finit fstart" by (simp add: finit_def fstart_def)
  from futex_mutual_exclusion [OF this r, of 0 0] r show ?thesis by (intro exI [of _ ?s6]) (simp add: fowns_def)
qed

text \<open>
  When \<open>futex_down\<close> returns, its result is 0 or negative, and with result 0 the futex is
  marked as held; a free futex is acquired at once and without the kernel, and released again
  by \<open>futex_up\<close>.
\<close>

theorem futex_down_result:
  assumes "wait_result_ok K"
  shows "(futex_down K s = Some (r, s') \<longrightarrow> r \<le> 0 \<and> (r = 0 \<longrightarrow> fcount (fst s') \<in> {0, -1}))
     \<and> futex_down K (futex_init f, k) = Some (0, (f\<lparr>fcount := 0\<rparr>, k))
     \<and> futex_release K (f\<lparr>fcount := 0\<rparr>, k) = (0, (futex_init f, k))"
  using futex_down_loop_result [OF assms, of False s "(r, s')"] futex_down_free [of "futex_init f" K k]
    futex_up_uncontended [of "f\<lparr>fcount := 0\<rparr>" K INT_MAX k]
  by (auto simp: futex_down_def futex_down_timeout_def futex_init_def futex_release_def)

text \<open>A kernel that wakes the caller when the holder has released the futex.\<close>

definition waking :: "unit fkernel" where
  "waking op v s = (case op of FUTEX_WAIT \<Rightarrow> (0, ((fst s)\<lparr>fcount := 1\<rparr>, ())) | _ \<Rightarrow> (0, s))"

theorem futex_down_result_witness:
  "futex_down waking (\<lparr>fcount = 0\<rparr>, ()) = Some (0, (\<lparr>fcount = -1\<rparr>, ()))
   \<and> futex_release waking (\<lparr>fcount = 0\<rparr>, ()) = (0, (futex_init \<lparr>fcount = 0\<rparr>, ()))"
proof -
  have "wait_result_ok waking" by (simp add: wait_result_ok_def waking_def)
  from futex_down_result [OF this, of _ _ _ "\<lparr>fcount = 0\<rparr>" "()"]
  have "futex_release waking (\<lparr>fcount = 0\<rparr>, ()) = (0, (futex_init \<lparr>fcount = 0\<rparr>, ()))" by simp
  moreover have "futex_down waking (\<lparr>fcount = 0\<rparr>, ()) = Some (0, (\<lparr>fcount = -1\<rparr>, ()))"
    unfolding futex_down_def futex_down_timeout_def
    by (simp add: futex_down_loop.simps futex_down_i386_def wrap_int_def futex_down_slow_def waking_def
        const_defs Let_def)
  ultimately show ?thesis by blast
qed

text \<open>
  \<open>futex_acquire\<close> with \<open>tryonly\<close> returns 0 also for a futex that is held: the
  result does not tell the caller that it has not acquired it.
\<close>

theorem futex_tryonly_fails_silently:
  assumes "- (2 ^ 31) \<le> fcount f" and "fcount f \<le> 0"
  shows "fst (futex_acquire K True (f, k)) = 0 \<and> fst (futex_trydown f) = - EWOULDBLOCK
     \<and> fst (futex_acquire K True (futex_init f, k)) = 0 \<and> fst (futex_trydown (futex_init f)) = 0"
proof -
  have "fcount f = 0 \<or> fcount f < 0" using assms(2) by auto
  then show ?thesis
    by (elim disjE) (simp_all add: futex_acquire_def futex_trydown_def futex_down_i386_def futex_init_def
        wrap_int_def Let_def const_defs)
qed

theorem futex_tryonly_fails_silently_witness:
  "fst (futex_acquire waking True (\<lparr>fcount = 0\<rparr>, ())) = 0 \<and> fst (futex_trydown \<lparr>fcount = 0\<rparr>) = - 11"
  using futex_tryonly_fails_silently [of "\<lparr>fcount = 0\<rparr>" waking "()"] by (simp add: const_defs)
end
