(* ===== verification/Mutex.thy ===== *)
theory Mutex
  imports World Futex
begin

text \<open>
  pth_sync.c, the mutexes: initialisation, acquisition (private and shared), release, release
  of all mutexes of a thread, destruction.

  A mutex is a number, \<open>0\<close> is NULL; \<open>d\<close> is the native descriptor that executes the
  call.  The ring node of mutex \<open>m\<close> is cell \<open>m\<close> of \<open>mx_nodes\<close>.  What happens
  while a thread waits is the environment: \<open>e_wait\<close> for \<open>pth_wait\<close> (it tells
  whether the event occurred and which native resumes the thread), \<open>e_select\<close> for a bound
  thread that sleeps in \<open>select\<close>, \<open>e_futex\<close> for the futex system call, and
  \<open>e_kill\<close> for \<open>kill (pid, 0) == -1\<close>.  \<open>None\<close> is a spin lock that is not
  obtained, or a wait that never ends.

  \<open>owns\<close> is the invariant that ties the mutexes to their owners: the mutexes that a thread
  has locked are \<open>mutex_owned\<close> and those in its ring.  It is kept by every step, and it gives
  mutual exclusion for any interleaving of the critical sections.
\<close>

definition PTH_MUTEX_INITIALIZED :: "8 word" where "PTH_MUTEX_INITIALIZED = BIT 0"
definition PTH_MUTEX_LOCKED :: "8 word" where "PTH_MUTEX_LOCKED = BIT 1"
definition PTH_MUTEX_INTERNAL_LOCKED :: "8 word" where "PTH_MUTEX_INTERNAL_LOCKED = BIT 2"
definition PTH_MUTEX_NOT_CONSISTENT :: "8 word" where "PTH_MUTEX_NOT_CONSISTENT = BIT 3"
definition PTH_MUTEX_ROBUST_NP :: "8 word" where "PTH_MUTEX_ROBUST_NP = BIT 6"
definition PTH_MUTEX_NORMAL :: int where "PTH_MUTEX_NORMAL = 0"
definition PTH_MUTEX_RECURSIVE_NP :: int where "PTH_MUTEX_RECURSIVE_NP = 1"
definition EOWNERDEAD :: int where "EOWNERDEAD = 131"
definition ENOTRECOVERABLE :: int where "ENOTRECOVERABLE = 132"

lemmas mutex_flags = PTH_MUTEX_INITIALIZED_def PTH_MUTEX_LOCKED_def PTH_MUTEX_INTERNAL_LOCKED_def
  PTH_MUTEX_NOT_CONSISTENT_def PTH_MUTEX_ROBUST_NP_def

lemmas mutex_consts [const_defs] = PTH_MUTEX_NORMAL_def PTH_MUTEX_RECURSIVE_NP_def EOWNERDEAD_def ENOTRECOVERABLE_def

record pth_mutexattr_st =
  at_type :: int
  at_pshared :: bool
  at_robustness :: "8 word"

record pth_mutex_st =
  mx_state :: "8 word"
  mx_index :: int
  mx_type :: int
  mx_owner :: nat
  mx_owner_pid :: int
  mx_lock :: pth_qlock_st
  mx_shared :: rfutex_st
  mx_count :: u32
  mx_waitcount :: u32

record mworld = world +
  mutexes :: "nat \<Rightarrow> pth_mutex_st"
  shared_used :: "int \<Rightarrow> bool"

record ('w, 'k) sysenv =
  e_wait :: "'w \<Rightarrow> 'k \<Rightarrow> bool \<times> nat \<times> 'w \<times> 'k"
  e_select :: "'w \<Rightarrow> 'k \<Rightarrow> 'w \<times> 'k"
  e_futex :: "('w \<times> 'k) fkernel"
  e_kill :: "int \<Rightarrow> 'k \<Rightarrow> bool"

definition upd_mutex :: "nat \<Rightarrow> (pth_mutex_st \<Rightarrow> pth_mutex_st) \<Rightarrow> ('a mworld_scheme) \<Rightarrow> ('a mworld_scheme)" where
  "upd_mutex m f w = w\<lparr>mutexes := (mutexes w)(m := f (mutexes w m))\<rparr>"

abbreviation locked :: "('a mworld_scheme) \<Rightarrow> nat \<Rightarrow> bool" where
  "locked w m \<equiv> has (mx_state (mutexes w m)) PTH_MUTEX_LOCKED"

subsection \<open>Initialisation and destruction\<close>

definition pth_mutex_init :: "nat \<Rightarrow> nat \<Rightarrow> pth_mutexattr_st option \<Rightarrow> ('a mworld_scheme) \<Rightarrow> bool \<times> ('a mworld_scheme)" where
  "pth_mutex_init cur m pattr w =
     (let psh = (case pattr of Some a \<Rightarrow> at_pshared a | None \<Rightarrow> False)
      in if m = 0 then (False, w)
         else let w1 = upd_mutex m (\<lambda>x. x\<lparr>mx_shared := rfutex_init m psh (mx_shared x)\<rparr>) w;
                  x1 = mutexes w1 m
              in if psh \<and> mx_count x1 > 0 \<and> mx_owner x1 \<noteq> cur then (False, w1)
                 else let w2 = (if \<not> psh then upd_mutex m (\<lambda>x. x\<lparr>mx_index := -1\<rparr>) w1
                                else case pattr of
                                  Some a \<Rightarrow> if at_robustness a = PTH_MUTEX_ROBUST_NP
                                            then upd_mutex m (\<lambda>x. x\<lparr>mx_shared := (mx_shared x)\<lparr>rtype :=
                                                   set_flag PTH_MUTEX_ROBUST_NP (rtype (mx_shared x))\<rparr>\<rparr>) w1
                                            else w1
                                | None \<Rightarrow> w1);
                          w3 = upd_mutex m (\<lambda>x. x\<lparr>mx_type := (case pattr of Some a \<Rightarrow> at_type a | None \<Rightarrow> PTH_MUTEX_NORMAL),
                                 mx_state := PTH_MUTEX_INITIALIZED, mx_owner := 0, mx_count := 0, mx_owner_pid := 0,
                                 mx_lock := pth_qlock_init (mx_lock x), mx_waitcount := 0\<rparr>) w2
                      in (True, w3\<lparr>mx_nodes := (mx_nodes w3)(m := \<lparr>rn_next = 0, rn_prev = 0\<rparr>),
                                   elems := element_init (MxWait m) (elems w3)\<rparr>))"

definition pth_mutex_destroy :: "nat \<Rightarrow> ('a mworld_scheme) \<Rightarrow> int \<times> ('a mworld_scheme)" where
  "pth_mutex_destroy m w =
     (if \<not> pshared (mx_shared (mutexes w m)) then (EINVAL, w)
      else let w1 = w\<lparr>shared_used := (shared_used w)(mx_index (mutexes w m) := False)\<rparr>
           in (0, upd_mutex m (\<lambda>x. x\<lparr>mx_state := 0, mx_index := 0, mx_owner := 0, mx_owner_pid := 0, mx_count := 0,
                 mx_waitcount := 0, mx_lock := pth_qlock_init (mx_lock x),
                 mx_shared := (mx_shared x)\<lparr>futex := futex_destroy (futex (mx_shared x))\<rparr>\<rparr>) w1))"

subsection \<open>Acquisition\<close>

text \<open>\<open>_pth_acquire\<close> and \<open>_pth_release\<close> on the lock of a mutex.\<close>

definition mx_acquire :: "nat \<Rightarrow> ('a mworld_scheme) \<Rightarrow> ('a mworld_scheme) option" where
  "mx_acquire m w = map_option (\<lambda>s. upd_mutex m (\<lambda>x. x\<lparr>mx_lock := (mx_lock x)\<lparr>spinlock := s\<rparr>\<rparr>) w)
                      (spin_lock (spinlock (mx_lock (mutexes w m))))"

definition mx_release :: "nat \<Rightarrow> ('a mworld_scheme) \<Rightarrow> ('a mworld_scheme)" where
  "mx_release m w = upd_mutex m (\<lambda>x. x\<lparr>mx_lock := (mx_lock x)\<lparr>spinlock := spin_unlock (spinlock (mx_lock x))\<rparr>\<rparr>) w"

text \<open>The thread records that it has a mutex: in \<open>mutex_owned\<close> if that is free, else in the ring.\<close>

definition own_add :: "nat \<Rightarrow> nat \<Rightarrow> ('a mworld_scheme) \<Rightarrow> ('a mworld_scheme)" where
  "own_add t m w =
     (if mutex_owned (threads w t) = 0 then upd_thread t (\<lambda>x. x\<lparr>mutex_owned := m\<rparr>) w
      else let (r, h) = pth_ring_append m (mutexring (threads w t), mx_nodes w)
           in upd_thread t (\<lambda>x. x\<lparr>mutexring := r\<rparr>) (w\<lparr>mx_nodes := h\<rparr>))"

definition own_remove :: "nat \<Rightarrow> nat \<Rightarrow> ('a mworld_scheme) \<Rightarrow> ('a mworld_scheme)" where
  "own_remove t m w =
     (if mutex_owned (threads w t) = m then upd_thread t (\<lambda>x. x\<lparr>mutex_owned := 0\<rparr>) w
      else let (r, h) = pth_ring_delete m (mutexring (threads w t), mx_nodes w)
           in upd_thread t (\<lambda>x. x\<lparr>mutexring := r\<rparr>) (w\<lparr>mx_nodes := h\<rparr>))"

definition mutex_take :: "nat \<Rightarrow> nat \<Rightarrow> nat \<Rightarrow> ('a mworld_scheme) \<Rightarrow> ('a mworld_scheme)" where
  "mutex_take d t m w =
     own_add t m (upd_mutex m (\<lambda>x. x\<lparr>mx_state := set_flag PTH_MUTEX_LOCKED (mx_state x), mx_owner := t,
                                      mx_owner_pid := pid (natives w d), mx_count := 1\<rparr>) w)"

datatype acquired = Done int | Blocked

text \<open>From the first \<open>_pth_acquire\<close> to the return or to the wait, with the lock still held.\<close>

definition mutex_enter :: "nat \<Rightarrow> nat \<Rightarrow> nat \<Rightarrow> bool \<Rightarrow> ('a mworld_scheme) \<Rightarrow> (acquired \<times> ('a mworld_scheme)) option" where
  "mutex_enter d t m tryonly w =
     do { w1 \<leftarrow> mx_acquire m w;
          let x = mutexes w1 m;
          if \<not> has (mx_state x) PTH_MUTEX_LOCKED \<and> mx_waitcount x = 0
          then Some (Done 0, mx_release m (mutex_take d t m w1))
          else if mx_owner x = t \<and> mx_count x \<ge> 1
          then if mx_type x = PTH_MUTEX_RECURSIVE_NP
               then Some (Done 0, mx_release m (upd_mutex m (\<lambda>x. x\<lparr>mx_count := mx_count x + 1\<rparr>) w1))
               else Some (Done (if tryonly then EBUSY else EDEADLK), mx_release m w1)
          else if tryonly then Some (Done EBUSY, mx_release m w1)
          else Some (Blocked, if pth_number_of_natives w1 > 1
                              then w1\<lparr>elems := pth_element_insert (Elem t) (MxWait m) (elems w1)\<rparr> else w1) }"

text \<open>After a wait: take the mutex if it is free.\<close>

definition mutex_retry :: "nat \<Rightarrow> nat \<Rightarrow> nat \<Rightarrow> ('a mworld_scheme) \<Rightarrow> acquired \<times> ('a mworld_scheme)" where
  "mutex_retry d t m w1 =
     (if \<not> locked w1 m
      then let w2 = (if pth_number_of_natives w1 > 1
                     then w1\<lparr>elems := pth_element_delete (Elem t) (elems w1)\<rparr> else w1)
           in (Done 0, mx_release m (mutex_take d t m w2))
      else (Blocked, w1))"

partial_function (option) mutex_wait ::
  "('a mworld_scheme, 'k) sysenv \<Rightarrow> nat \<Rightarrow> nat \<Rightarrow> bool \<Rightarrow> ('a mworld_scheme) \<times> 'k \<Rightarrow> (int \<times> ('a mworld_scheme) \<times> 'k) option" where
  [code]: "mutex_wait E t m ev_extra s =
     (let (w, k) = s; (occurred, d, w1, k1) = e_wait E (mx_release m w) k
      in if ev_extra \<and> \<not> occurred then Some (EINTR, w1, k1)
         else do { w2 \<leftarrow> mx_acquire m w1;
                   case mutex_retry d t m w2 of
                     (Done r, w3) \<Rightarrow> Some (r, w3, k1)
                   | (Blocked, w3) \<Rightarrow> mutex_wait E t m ev_extra (w3, k1) })"

text \<open>A thread bound to its native sleeps there, and counts as a waiter meanwhile.\<close>

definition sleep_begin :: "nat \<Rightarrow> nat \<Rightarrow> nat \<Rightarrow> ('a mworld_scheme) \<Rightarrow> ('a mworld_scheme)" where
  "sleep_begin d t m w = mx_release m (upd_thread t (\<lambda>x. x\<lparr>tstate := PTH_STATE_WAITING\<rparr>)
     (upd_native d (\<lambda>x. x\<lparr>is_bound := False\<rparr>) (upd_mutex m (\<lambda>x. x\<lparr>mx_waitcount := mx_waitcount x + 1\<rparr>) w)))"

definition sleep_end :: "nat \<Rightarrow> nat \<Rightarrow> nat \<Rightarrow> ('a mworld_scheme) \<Rightarrow> ('a mworld_scheme)" where
  "sleep_end d t m w = upd_thread t (\<lambda>x. x\<lparr>tstate := PTH_STATE_READY\<rparr>)
     (upd_native d (\<lambda>x. x\<lparr>is_bound := True\<rparr>) (upd_mutex m (\<lambda>x. x\<lparr>mx_waitcount := mx_waitcount x - 1\<rparr>) w))"

partial_function (option) mutex_wait_bounded ::
  "('a mworld_scheme, 'k) sysenv \<Rightarrow> nat \<Rightarrow> nat \<Rightarrow> nat \<Rightarrow> ('a mworld_scheme) \<times> 'k \<Rightarrow> (int \<times> ('a mworld_scheme) \<times> 'k) option" where
  [code]: "mutex_wait_bounded E d t m s =
     (let (w, k) = s; w1 = sleep_begin d t m w;
          (w2, k2) = (if locked w1 m then e_select E w1 k else (w1, k))
      in do { w3 \<leftarrow> mx_acquire m w2;
              case mutex_retry d t m (sleep_end d t m w3) of
                (Done r, w4) \<Rightarrow> Some (r, w4, k2)
              | (Blocked, w4) \<Rightarrow> mutex_wait_bounded E d t m (w4, k2) })"

subsection \<open>Acquisition of a shared mutex\<close>

definition mutex_futex :: "nat \<Rightarrow> ('a mworld_scheme) \<Rightarrow> futex_st" where
  "mutex_futex m w = futex (mx_shared (mutexes w m))"

definition set_mutex_futex :: "nat \<Rightarrow> futex_st \<Rightarrow> ('a mworld_scheme) \<Rightarrow> ('a mworld_scheme)" where
  "set_mutex_futex m f w = upd_mutex m (\<lambda>x. x\<lparr>mx_shared := (mx_shared x)\<lparr>futex := f\<rparr>\<rparr>) w"

definition mutex_futex_acquire ::
  "('a mworld_scheme, 'k) sysenv \<Rightarrow> nat \<Rightarrow> ('a mworld_scheme) \<Rightarrow> 'k \<Rightarrow> int \<times> ('a mworld_scheme) \<times> 'k" where
  "mutex_futex_acquire E m w k =
     (let (r, _, (f, (w1, k1))) = futex_acquire (e_futex E) False (mutex_futex m w, (w, k))
      in (r, set_mutex_futex m f w1, k1))"

text \<open>From label \<open>done\<close> on.\<close>

definition shared_done :: "nat \<Rightarrow> nat \<Rightarrow> nat \<Rightarrow> int \<Rightarrow> ('a mworld_scheme) \<Rightarrow> 'k \<Rightarrow> int \<times> ('a mworld_scheme) \<times> 'k" where
  "shared_done d t m rc w k = (rc, mx_release m (mutex_take d t m w), k)"

text \<open>After a wait, with the lock: an inconsistent mutex is an error.\<close>

definition shared_inconsistent :: "nat \<Rightarrow> ('a mworld_scheme) \<Rightarrow> bool" where
  "shared_inconsistent m w \<longleftrightarrow> has (mx_state (mutexes w m)) PTH_MUTEX_NOT_CONSISTENT"

partial_function (option) shared_wait ::
  "('a mworld_scheme, 'k) sysenv \<Rightarrow> nat \<Rightarrow> nat \<Rightarrow> nat \<Rightarrow> bool \<Rightarrow> bool \<Rightarrow> ('a mworld_scheme) \<times> 'k
     \<Rightarrow> (int \<times> ('a mworld_scheme) \<times> 'k) option" where
  [code]: "shared_wait E d t m ev_extra need_futex s =
     (let (w, k) = s; w1 = mx_release m w;
          (fd, w2, k2) = (if need_futex then mutex_futex_acquire E m w1 k else (1, w1, k))
      in if need_futex \<and> fd = 0 then map_option (\<lambda>w3. shared_done d t m 0 w3 k2) (mx_acquire m w2)
         else if need_futex \<and> fd = -1 then Some (EINVAL, w2, k2)
         else let (occurred, d', w3, k3) = e_wait E w2 k2
              in if ev_extra \<and> \<not> occurred then Some (EINTR, w3, k3)
                 else do { w4 \<leftarrow> mx_acquire m w3;
                           if shared_inconsistent m w4 then Some (ENOTRECOVERABLE, mx_release m w4, k3)
                           else shared_wait E d' t m ev_extra True (w4, k3) })"

text \<open>\<open>fd\<close> is \<open>futx_fd\<close>, which the loop tests again before it sleeps.\<close>

partial_function (option) shared_wait_bounded ::
  "('a mworld_scheme, 'k) sysenv \<Rightarrow> nat \<Rightarrow> nat \<Rightarrow> nat \<Rightarrow> bool \<Rightarrow> int \<Rightarrow> ('a mworld_scheme) \<times> 'k
     \<Rightarrow> (int \<times> ('a mworld_scheme) \<times> 'k) option" where
  [code]: "shared_wait_bounded E d t m need_futex fd0 s =
     (let (w, k) = s; (fd, w1, k1) = (if need_futex then mutex_futex_acquire E m (mx_release m w) k else (fd0, w, k))
      in do { w2 \<leftarrow> if need_futex then mx_acquire m w1 else Some w1;
              if need_futex \<and> fd = 0 then Some (shared_done d t m 0 w2 k1)
              else if need_futex \<and> fd = -1 then Some (EINVAL, mx_release m w2, k1)
              else let w3 = sleep_begin d t m w2;
                       (w4, k4) = (if fd > 0 \<or> locked w3 m then e_select E w3 k1 else (w3, k1))
                   in do { w5 \<leftarrow> mx_acquire m w4;
                           let w6 = sleep_end d t m w5;
                           if shared_inconsistent m w6 then Some (ENOTRECOVERABLE, mx_release m w6, k4)
                           else shared_wait_bounded E d t m True fd (w6, k4) } })"

text \<open>From label \<open>wait\<close> on; \<open>need_futex\<close> and \<open>fd\<close> as they are there.\<close>

definition shared_wait_label ::
  "('a mworld_scheme, 'k) sysenv \<Rightarrow> nat \<Rightarrow> nat \<Rightarrow> nat \<Rightarrow> bool \<Rightarrow> bool \<Rightarrow> bool \<Rightarrow> int \<Rightarrow> ('a mworld_scheme) \<times> 'k
     \<Rightarrow> (int \<times> ('a mworld_scheme) \<times> 'k) option" where
  "shared_wait_label E d t m tryonly ev_extra need_futex fd s =
     (let (w, k) = s; x = mutexes w m
      in if mx_owner x = t \<and> mx_count x \<ge> 1 \<and> mx_owner_pid x = pid (natives w d)
         then if mx_type x = PTH_MUTEX_RECURSIVE_NP
              then Some (0, mx_release m (upd_mutex m (\<lambda>x. x\<lparr>mx_count := mx_count x + 1\<rparr>) w), k)
              else Some (if tryonly then EBUSY else EDEADLK, mx_release m w, k)
         else if tryonly then Some (EBUSY, mx_release m w, k)
         else if has (rtype (mx_shared x)) PTH_MUTEX_ROBUST_NP \<and> e_kill E (mx_owner_pid x) k
         then let w1 = w\<lparr>mx_nodes := (mx_nodes w)(m := \<lparr>rn_next = 0, rn_prev = 0\<rparr>)\<rparr>;
                  w2 = upd_mutex m (\<lambda>x. x\<lparr>mx_state := set_flag PTH_MUTEX_NOT_CONSISTENT (mx_state x)\<rparr>) w1
              in Some (shared_done d t m EOWNERDEAD w2 k)
         else if \<not> is_bounded (natives w d) then shared_wait E d t m ev_extra need_futex (w, k)
         else shared_wait_bounded E d t m need_futex fd (w, k))"

definition pth_shared_mutex_acquire ::
  "('a mworld_scheme, 'k) sysenv \<Rightarrow> nat \<Rightarrow> nat \<Rightarrow> bool \<Rightarrow> bool \<Rightarrow> ('a mworld_scheme) \<times> 'k
     \<Rightarrow> (int \<times> ('a mworld_scheme) \<times> 'k) option" where
  "pth_shared_mutex_acquire E d m tryonly ev_extra s =
     (let (w, k) = s; t = current (natives w d)
      in do { w1 \<leftarrow> mx_acquire m w;
              if \<not> locked w1 m \<and> mx_waitcount (mutexes w1 m) = 0
              then let (fd, w2, k2) = mutex_futex_acquire E m (mx_release m w1) k
                   in do { w3 \<leftarrow> mx_acquire m w2;
                           if fd > 0 then shared_wait_label E d t m tryonly ev_extra False fd (w3, k2)
                           else if fd = -1 then Some (EINVAL, mx_release m w3, k2)
                           else Some (0, mx_release m (mutex_take d t m w3), k2) }
              else shared_wait_label E d t m tryonly ev_extra True 0 (w1, k) })"

text \<open>The whole function; \<open>tid0\<close> is the caller's native thread id.\<close>

definition pth_mutex_acquire ::
  "('a mworld_scheme, 'k) sysenv \<Rightarrow> nat \<Rightarrow> nat \<Rightarrow> nat \<Rightarrow> bool \<Rightarrow> bool \<Rightarrow> ('a mworld_scheme) \<times> 'k
     \<Rightarrow> (int \<times> ('a mworld_scheme) \<times> 'k) option" where
  "pth_mutex_acquire E tid0 d m tryonly ev_extra s =
     (let (w, k) = s; x = mutexes w m
      in if has (mx_state x) PTH_MUTEX_INTERNAL_LOCKED
         then map_option (\<lambda>l. (0, upd_mutex m (\<lambda>x. x\<lparr>mx_lock := l\<rparr>) w, k)) (pth_acquire_lock tid0 (mx_lock x))
         else if d = 0 then Some (EINVAL, w, k)
         else if pshared (mx_shared x) then pth_shared_mutex_acquire E d m tryonly ev_extra (w, k)
         else let t = current (natives w d)
              in do { (a, w1) \<leftarrow> mutex_enter d t m tryonly w;
                      case a of
                        Done r \<Rightarrow> Some (r, w1, k)
                      | Blocked \<Rightarrow> if \<not> is_bounded (natives w1 d) then mutex_wait E t m ev_extra (w1, k)
                                  else mutex_wait_bounded E d t m (w1, k) })"
subsection \<open>Release\<close>

text \<open>The end of the release of a private mutex: wake the thread that waits longest.\<close>

definition mutex_handoff :: "nat \<Rightarrow> nat \<Rightarrow> ('a mworld_scheme) \<Rightarrow> ('a mworld_scheme) option" where
  "mutex_handoff d m w =
     (if pth_number_of_natives w > 1 \<and> eprev (elems w) (MxWait m) \<noteq> MxWait m then
        (case eprev (elems w) (MxWait m) of
           Elem tmp \<Rightarrow>
             if boundnative (threads w tmp) \<noteq> 0
             then Some (write_sigpipe (boundnative (threads w tmp)) (mx_release m w))
             else do { w1 \<leftarrow> (let ds = waited_native (threads w tmp)
                              in if ds \<noteq> 0 then make_ready ds tmp w else Some w);
                       let w2 = mx_release m w1;
                       if boundnative (threads w2 (current (natives w2 d))) \<noteq> 0
                       then map_option snd (pth_wakeup_anative w2) else Some w2 }
         | _ \<Rightarrow> None)
      else Some (mx_release m w))"

definition mutex_drop :: "nat \<Rightarrow> nat \<Rightarrow> ('a mworld_scheme) \<Rightarrow> ('a mworld_scheme)" where
  "mutex_drop t m w =
     own_remove t m (upd_mutex m (\<lambda>x. x\<lparr>mx_state := clear_flag PTH_MUTEX_LOCKED (mx_state x), mx_owner := 0,
                                         mx_owner_pid := 0, mx_count := 0\<rparr>) w)"

definition mutex_futex_release ::
  "('a mworld_scheme, 'k) sysenv \<Rightarrow> nat \<Rightarrow> ('a mworld_scheme) \<Rightarrow> 'k \<Rightarrow> ('a mworld_scheme) \<times> 'k" where
  "mutex_futex_release E m w k =
     (let (_, (f, (w1, k1))) = futex_release (e_futex E) (mutex_futex m w, (w, k))
      in (set_mutex_futex m f w1, k1))"

definition pth_mutex_release ::
  "('a mworld_scheme, 'k) sysenv \<Rightarrow> nat \<Rightarrow> nat \<Rightarrow> nat \<Rightarrow> ('a mworld_scheme) \<times> 'k
     \<Rightarrow> (int \<times> ('a mworld_scheme) \<times> 'k) option" where
  "pth_mutex_release E tid0 d m s =
     (let (w, k) = s; x = mutexes w m; t = current (natives w d)
      in if \<not> locked w m
         then if has (mx_state x) PTH_MUTEX_INTERNAL_LOCKED
              then Some (0, upd_mutex m (\<lambda>x. x\<lparr>mx_lock := snd (pth_release_lock tid0 (mx_lock x))\<rparr>) w, k)
              else Some (EPERM, w, k)
         else if t \<noteq> mx_owner x then Some (EPERM, w, k)
         else do { w1 \<leftarrow> mx_acquire m w;
                   let w2 = upd_mutex m (\<lambda>x. x\<lparr>mx_count := mx_count x - 1\<rparr>) w1;
                   if mx_count (mutexes w2 m) = 0
                   then let w3 = mutex_drop t m w2
                        in if \<not> pshared (mx_shared (mutexes w3 m))
                           then map_option (\<lambda>w4. (0, w4, k)) (mutex_handoff d m w3)
                           else let (w4, k4) = mutex_futex_release E m (mx_release m w3) k in Some (0, w4, k4)
                   else Some (0, mx_release m w2, k) })"

text \<open>The loop over the ring: \<open>rn\<close> is the current node, \<open>rnf\<close> the first one.\<close>

partial_function (option) releaseall_loop ::
  "('a mworld_scheme, 'k) sysenv \<Rightarrow> nat \<Rightarrow> nat \<Rightarrow> nat \<Rightarrow> nat \<Rightarrow> nat \<Rightarrow> ('a mworld_scheme) \<times> 'k
     \<Rightarrow> (('a mworld_scheme) \<times> 'k) option" where
  [code]: "releaseall_loop E tid0 d t rnf rn s =
     (if rn = 0 then Some s
      else do { (_, w1, k1) \<leftarrow> pth_mutex_release E tid0 d rn s;
                if mx_count (mutexes w1 rn) > 0 then releaseall_loop E tid0 d t rnf rn (w1, k1)
                else let rn1 = pth_ring_next (mutexring (threads w1 t), mx_nodes w1) rn
                     in if rn1 = rnf then Some (w1, k1) else releaseall_loop E tid0 d t rnf rn1 (w1, k1) })"

definition pth_mutex_releaseall ::
  "('a mworld_scheme, 'k) sysenv \<Rightarrow> nat \<Rightarrow> nat \<Rightarrow> nat \<Rightarrow> ('a mworld_scheme) \<times> 'k
     \<Rightarrow> (('a mworld_scheme) \<times> 'k) option" where
  "pth_mutex_releaseall E tid0 d t s =
     (if t = 0 then Some s
      else do { let (w, k) = s;
                w1 \<leftarrow> lock_thread t tid0 w;
                (w2, k2) \<leftarrow> (if mutex_owned (threads w1 t) \<noteq> 0
                            then map_option snd (pth_mutex_release E tid0 d (mutex_owned (threads w1 t)) (w1, k))
                            else Some (w1, k));
                let rnf = pth_ring_first (mutexring (threads w2 t));
                (w3, k3) \<leftarrow> releaseall_loop E tid0 d t rnf rnf (w2, k2);
                Some (unlock_thread t tid0 w3, k3) })"

subsection \<open>Mutexes and their owners\<close>

lemma upd_mutex_sel [simp]:
  "mutexes (upd_mutex m f w) = (mutexes w)(m := f (mutexes w m))" "threads (upd_mutex m f w) = threads w"
  "natives (upd_mutex m f w) = natives w" "pth_number_of_natives (upd_mutex m f w) = pth_number_of_natives w"
  "elems (upd_mutex m f w) = elems w" "qw (upd_mutex m f w) = qw w" "mx_nodes (upd_mutex m f w) = mx_nodes w"
  "mworld.more (upd_mutex m f w) = mworld.more w" "sigpipe (upd_mutex m f w) = sigpipe w" "shared_used (upd_mutex m f w) = shared_used w"
  by (simp_all add: upd_mutex_def)

lemma mutexes_upd [simp]:
  "mutexes (upd_thread t g w) = mutexes w" "mutexes (upd_native d h w) = mutexes w" "mutexes (write_sigpipe d w) = mutexes w"
  "mworld.more (upd_thread t g w) = mworld.more w" "mworld.more (upd_native d h w) = mworld.more w"
  "mworld.more (write_sigpipe d w) = mworld.more w"
  by (simp_all add: upd_thread_def upd_native_def write_sigpipe_def)

text \<open>\<open>R t\<close> are the mutexes in the ring of thread \<open>t\<close>.\<close>

definition owns :: "('a mworld_scheme) \<Rightarrow> (nat \<Rightarrow> nat list) \<Rightarrow> bool" where
  "owns w R \<longleftrightarrow> (\<forall>t. t \<noteq> 0 \<longrightarrow>
       ring_rep (mutexring (threads w t), mx_nodes w) (R t) \<and> mutex_owned (threads w t) \<notin> set (R t)
     \<and> (\<forall>m. m \<noteq> 0 \<longrightarrow> m = mutex_owned (threads w t) \<or> m \<in> set (R t) \<longleftrightarrow> locked w m \<and> mx_owner (mutexes w m) = t))"

lemma ownsD:
  assumes "owns w R" and "t \<noteq> 0"
  shows "ring_rep (mutexring (threads w t), mx_nodes w) (R t)" "mutex_owned (threads w t) \<notin> set (R t)"
    and "m \<noteq> 0 \<Longrightarrow> m = mutex_owned (threads w t) \<or> m \<in> set (R t) \<longleftrightarrow> locked w m \<and> mx_owner (mutexes w m) = t"
  using assms by (auto simp: owns_def)

lemma ownsI:
  assumes "\<And>t. t \<noteq> 0 \<Longrightarrow> ring_rep (mutexring (threads w t), mx_nodes w) (R t)"
    and "\<And>t. t \<noteq> 0 \<Longrightarrow> mutex_owned (threads w t) \<notin> set (R t)"
    and "\<And>t m. t \<noteq> 0 \<Longrightarrow> m \<noteq> 0 \<Longrightarrow>
      m = mutex_owned (threads w t) \<or> m \<in> set (R t) \<longleftrightarrow> locked w m \<and> mx_owner (mutexes w m) = t"
  shows "owns w R"
  using assms unfolding owns_def by blast

lemma owns_ring_nonzero: "owns w R \<Longrightarrow> t \<noteq> 0 \<Longrightarrow> 0 \<notin> set (R t)"
  using ownsD(1) [of w R t] by (simp add: ring_rep_def)

lemma owns_disjoint:
  assumes "owns w R" and "t \<noteq> 0" and "u \<noteq> 0" and "t \<noteq> u" and "m \<in> set (R t)"
  shows "m \<notin> set (R u)"
proof -
  have "m \<noteq> 0" using owns_ring_nonzero [OF assms(1,2)] assms(5) by metis
  with ownsD(3) [OF assms(1,2), of m] ownsD(3) [OF assms(1,3), of m] assms(4,5) show ?thesis by metis
qed

text \<open>A step that changes neither the owners nor their records.\<close>

lemma owns_same:
  assumes "owns w R" and "mx_nodes w' = mx_nodes w"
    and "\<And>t. mutexring (threads w' t) = mutexring (threads w t) \<and> mutex_owned (threads w' t) = mutex_owned (threads w t)"
    and "\<And>m. locked w' m = locked w m \<and> mx_owner (mutexes w' m) = mx_owner (mutexes w m)"
  shows "owns w' R"
  using assms unfolding owns_def by simp

text \<open>The number of mutexes of a thread fits its counter, because addresses have 32 bits.\<close>

definition addr_ok :: "('a mworld_scheme) \<Rightarrow> bool" where
  "addr_ok w \<longleftrightarrow> (\<forall>m. locked w m \<longrightarrow> m < 2 ^ 32)"

lemma ring_fits:
  assumes "owns w R" and "addr_ok w" and t: "t \<noteq> 0" and "m \<noteq> 0" and "m < 2 ^ 32" and "\<not> locked w m"
    and o: "mutex_owned (threads w t) \<noteq> 0"
  shows "Suc (length (R t)) < 2 ^ 32"
proof -
  let ?o = "mutex_owned (threads w t)"
  have mem: "x \<noteq> 0 \<and> locked w x" if "x \<in> insert ?o (set (R t))" for x
    using that ownsD(3) [OF assms(1) t, of x] owns_ring_nonzero [OF assms(1) t] o by (cases "x = 0") auto
  have sub: "set (R t) \<union> {0, ?o, m} \<subseteq> {..<2 ^ 32}"
    using mem assms(2,5) by (auto simp: addr_ok_def)
  have d: "distinct (R t)" by (rule ring_rep_distinct [OF ownsD(1) [OF assms(1) t]])
  have "?o \<notin> set (R t)" by (rule ownsD(2) [OF assms(1) t])
  moreover have "0 \<notin> set (R t)" by (rule owns_ring_nonzero [OF assms(1) t])
  moreover have "m \<notin> set (R t)" "m \<noteq> ?o" using mem [of m] assms(6) by auto
  ultimately have "card (set (R t) \<union> {0, ?o, m}) = length (R t) + 3"
    using d o assms(4) by (simp add: distinct_card)
  with card_mono [OF _ sub] show ?thesis by simp
qed

lemma own_add_sel [simp]:
  "mutexes (own_add t m w) = mutexes w" "natives (own_add t m w) = natives w" "elems (own_add t m w) = elems w"
  "pth_number_of_natives (own_add t m w) = pth_number_of_natives w" "qw (own_add t m w) = qw w"
  "mworld.more (own_add t m w) = mworld.more w"
  by (simp_all add: own_add_def split: prod.splits)

lemma own_remove_sel [simp]:
  "mutexes (own_remove t m w) = mutexes w" "natives (own_remove t m w) = natives w" "elems (own_remove t m w) = elems w"
  "pth_number_of_natives (own_remove t m w) = pth_number_of_natives w" "qw (own_remove t m w) = qw w"
  "mworld.more (own_remove t m w) = mworld.more w"
  by (simp_all add: own_remove_def split: prod.splits)

lemma mutex_take_owns:
  assumes o: "owns w R" and a: "addr_ok w" and t: "t \<noteq> 0" and m: "m \<noteq> 0" "m < 2 ^ 32" and free: "\<not> locked w m"
  shows "owns (mutex_take d t m w) (R(t := if mutex_owned (threads w t) = 0 then R t else R t @ [m]))"
proof -
  let ?w = "mutex_take d t m w"
  let ?R = "R(t := if mutex_owned (threads w t) = 0 then R t else R t @ [m])"
  have lo: "locked ?w x \<and> mx_owner (mutexes ?w x) = u \<longleftrightarrow> (if x = m then u = t else locked w x \<and> mx_owner (mutexes w x) = u)"
    for x u by (auto simp: mutex_take_def mutex_flags)
  have notin: "m \<notin> set (R u)" "m \<noteq> mutex_owned (threads w u)" if "u \<noteq> 0" for u
    using ownsD(3) [OF o that, of m] free m(1) by auto
  show ?thesis
  proof (cases "mutex_owned (threads w t) = 0")
    case True
    then have th: "threads ?w = (threads w)(t := (threads w t)\<lparr>mutex_owned := m\<rparr>)" "mx_nodes ?w = mx_nodes w"
      by (simp_all add: mutex_take_def own_add_def)
    show ?thesis
    proof (rule ownsI)
      fix u :: nat assume u: "u \<noteq> 0"
      note D = ownsD [OF o u]
      show "ring_rep (mutexring (threads ?w u), mx_nodes ?w) (?R u)"
        using D(1) True by (cases "u = t") (simp_all add: th)
      show "mutex_owned (threads ?w u) \<notin> set (?R u)"
        using D(2) True notin(1) [OF u] by (cases "u = t") (simp_all add: th)
      show "x = mutex_owned (threads ?w u) \<or> x \<in> set (?R u)
          \<longleftrightarrow> locked ?w x \<and> mx_owner (mutexes ?w x) = u" if "x \<noteq> 0" for x
        unfolding lo using D(3) [OF that] True notin [OF u] that by (cases "u = t") (auto simp: th)
    qed
  next
    case False
    obtain r h where rh: "pth_ring_append m (mutexring (threads w t), mx_nodes w) = (r, h)" by fastforce
    with False have th: "threads ?w = (threads w)(t := (threads w t)\<lparr>mutexring := r\<rparr>)" "mx_nodes ?w = h"
      by (simp_all add: mutex_take_def own_add_def)
    have fits: "Suc (length (R t)) < 2 ^ 32" by (rule ring_fits [OF o a t m free False])
    have rt: "ring_rep (r, h) (R t @ [m])"
      using ring_append_rep [OF ownsD(1) [OF o t] m(1) notin(1) [OF t] fits] rh by simp
    have ru: "ring_rep (mutexring (threads w u), h) (R u)" if "u \<noteq> 0" "u \<noteq> t" for u
    proof (rule ring_rep_frame [OF ownsD(1) [OF o that(1)]])
      fix x assume x: "x \<in> set (R u)"
      then have "x \<notin> insert m (set (R t))" using notin(1) [OF that(1)] owns_disjoint [OF o that(1) t that(2) x] by auto
      from ring_append_frame [OF ownsD(1) [OF o t] this] rh show "h x = mx_nodes w x" by simp
    qed
    show ?thesis
    proof (rule ownsI)
      fix u :: nat assume u: "u \<noteq> 0"
      note D = ownsD [OF o u]
      show "ring_rep (mutexring (threads ?w u), mx_nodes ?w) (?R u)"
        using rt ru [OF u] False by (cases "u = t") (simp_all add: th)
      show "mutex_owned (threads ?w u) \<notin> set (?R u)"
        using D(2) False notin(2) [OF u] by (cases "u = t") (simp_all add: th)
      show "x = mutex_owned (threads ?w u) \<or> x \<in> set (?R u)
          \<longleftrightarrow> locked ?w x \<and> mx_owner (mutexes ?w x) = u" if "x \<noteq> 0" for x
        unfolding lo using D(3) [OF that] False notin [OF u] by (cases "u = t") (auto simp: th)
    qed
  qed
qed

lemma mutex_drop_owns:
  assumes o: "owns w R" and t: "t \<noteq> 0" and m: "m \<noteq> 0" and held: "locked w m" "mx_owner (mutexes w m) = t"
  shows "owns (mutex_drop t m w) (R(t := remove1 m (R t)))"
proof -
  let ?w = "mutex_drop t m w"
  let ?R = "R(t := remove1 m (R t))"
  have lo: "locked ?w x \<and> mx_owner (mutexes ?w x) = u \<longleftrightarrow> x \<noteq> m \<and> locked w x \<and> mx_owner (mutexes w x) = u"
    for x u by (auto simp: mutex_drop_def mutex_flags)
  have mine: "m = mutex_owned (threads w t) \<or> m \<in> set (R t)" using ownsD(3) [OF o t m] held by simp
  have other: "m \<notin> set (R u)" "m \<noteq> mutex_owned (threads w u)" if "u \<noteq> 0" "u \<noteq> t" for u
    using ownsD(3) [OF o that(1) m] held that(2) by auto
  have d: "distinct (R t)" by (rule ring_rep_distinct [OF ownsD(1) [OF o t]])
  obtain r h where rh: "pth_ring_delete m (mutexring (threads w t), mx_nodes w) = (r, h)" by fastforce
  show ?thesis
  proof (cases "mutex_owned (threads w t) = m")
    case True
    then have th: "threads ?w = (threads w)(t := (threads w t)\<lparr>mutex_owned := 0\<rparr>)" "mx_nodes ?w = mx_nodes w"
      by (simp_all add: mutex_drop_def own_remove_def)
    have rm: "remove1 m (R t) = R t" using ownsD(2) [OF o t] True by (simp add: remove1_idem)
    show ?thesis
    proof (rule ownsI)
      fix u :: nat assume u: "u \<noteq> 0"
      note D = ownsD [OF o u]
      show "ring_rep (mutexring (threads ?w u), mx_nodes ?w) (?R u)" using D(1) rm by (cases "u = t") (simp_all add: th)
      show "mutex_owned (threads ?w u) \<notin> set (?R u)"
        using D(2) rm owns_ring_nonzero [OF o t] by (cases "u = t") (simp_all add: th)
      show "x = mutex_owned (threads ?w u) \<or> x \<in> set (?R u) \<longleftrightarrow> locked ?w x \<and> mx_owner (mutexes ?w x) = u"
        if "x \<noteq> 0" for x
        unfolding lo using D(2) D(3) [OF that] rm True other [OF u] that by (cases "u = t") (auto simp: th)
    qed
  next
    case False
    with mine have mem: "m \<in> set (R t)" by simp
    have th: "threads ?w = (threads w)(t := (threads w t)\<lparr>mutexring := r\<rparr>)" "mx_nodes ?w = h"
      using False rh by (simp_all add: mutex_drop_def own_remove_def)
    have rt: "ring_rep (r, h) (remove1 m (R t))" using ring_delete_rep [OF ownsD(1) [OF o t] mem] rh by simp
    have ru: "ring_rep (mutexring (threads w u), h) (R u)" if "u \<noteq> 0" "u \<noteq> t" for u
    proof (rule ring_rep_frame [OF ownsD(1) [OF o that(1)]])
      fix x assume "x \<in> set (R u)"
      then have "x \<notin> set (R t)" by (rule owns_disjoint [OF o that(1) t that(2)])
      from ring_delete_frame [OF ownsD(1) [OF o t] mem this] rh show "h x = mx_nodes w x" by simp
    qed
    show ?thesis
    proof (rule ownsI)
      fix u :: nat assume u: "u \<noteq> 0"
      note D = ownsD [OF o u]
      show "ring_rep (mutexring (threads ?w u), mx_nodes ?w) (?R u)" using rt ru [OF u] by (cases "u = t") (simp_all add: th)
      show "mutex_owned (threads ?w u) \<notin> set (?R u)"
        using D(2) by (cases "u = t") (auto simp: th dest: notin_set_remove1)
      show "x = mutex_owned (threads ?w u) \<or> x \<in> set (?R u) \<longleftrightarrow> locked ?w x \<and> mx_owner (mutexes ?w x) = u"
        if "x \<noteq> 0" for x
        unfolding lo using D(3) [OF that] False other [OF u] d by (cases "u = t") (auto simp: th)
    qed
  qed
qed

subsection \<open>Interleaving\<close>

text \<open>
  The threads of all natives execute the critical sections in any order; between two of
  them a native may be given any thread.  \<open>hc t m\<close> counts the acquisitions of mutex
  \<open>m\<close> that returned 0 to thread \<open>t\<close> and were not yet released.  The steps are for
  private mutexes with addresses of 32 bits, and a recursion depth that fits the counter.
\<close>

type_synonym 'a mstate = "('a mworld_scheme) \<times> (nat \<Rightarrow> nat \<Rightarrow> nat)"

definition count_up :: "nat \<Rightarrow> nat \<Rightarrow> int \<Rightarrow> (nat \<Rightarrow> nat \<Rightarrow> nat) \<Rightarrow> nat \<Rightarrow> nat \<Rightarrow> nat" where
  "count_up t m r hc = (if r = 0 then hc(t := (hc t)(m := Suc (hc t m))) else hc)"

definition count_down :: "nat \<Rightarrow> nat \<Rightarrow> int \<Rightarrow> (nat \<Rightarrow> nat \<Rightarrow> nat) \<Rightarrow> nat \<Rightarrow> nat \<Rightarrow> nat" where
  "count_down t m r hc = (if r = 0 then hc(t := (hc t)(m := hc t m - 1)) else hc)"

definition private_mutex :: "('a mworld_scheme) \<Rightarrow> nat \<Rightarrow> bool" where
  "private_mutex w m \<longleftrightarrow> m \<noteq> 0 \<and> m < 2 ^ 32 \<and> \<not> pshared (mx_shared (mutexes w m))
     \<and> \<not> has (mx_state (mutexes w m)) PTH_MUTEX_INTERNAL_LOCKED"

text \<open>A thread that is bound to its native sleeps there; the others give the native away.\<close>

definition go_wait :: "nat \<Rightarrow> nat \<Rightarrow> nat \<Rightarrow> ('a mworld_scheme) \<Rightarrow> ('a mworld_scheme)" where
  "go_wait d t m w = (if is_bounded (natives w d) then sleep_begin d t m w else mx_release m w)"

definition come_back :: "nat \<Rightarrow> nat \<Rightarrow> nat \<Rightarrow> ('a mworld_scheme) \<Rightarrow> ('a mworld_scheme)" where
  "come_back d t m w = (if is_bounded (natives w d) then sleep_end d t m w else w)"

inductive mstep :: "'a mstate \<Rightarrow> 'a mstate \<Rightarrow> bool" where
  enter: "private_mutex w m \<Longrightarrow> t = current (natives w d) \<Longrightarrow> t \<noteq> 0 \<Longrightarrow> Suc (hc t m) < 2 ^ 32 \<Longrightarrow>
    mutex_enter d t m tryonly w = Some (Done r, w') \<Longrightarrow> mstep (w, hc) (w', count_up t m r hc)"
| block: "private_mutex w m \<Longrightarrow> t = current (natives w d) \<Longrightarrow> t \<noteq> 0 \<Longrightarrow>
    mutex_enter d t m tryonly w = Some (Blocked, w') \<Longrightarrow> mstep (w, hc) (go_wait d t m w', hc)"
| retry: "private_mutex w m \<Longrightarrow> t = current (natives w d) \<Longrightarrow> t \<noteq> 0 \<Longrightarrow>
    mx_acquire m w = Some w1 \<Longrightarrow> mutex_retry d t m (come_back d t m w1) = (Done r, w') \<Longrightarrow>
    mstep (w, hc) (w', count_up t m r hc)"
| retry_block: "private_mutex w m \<Longrightarrow> t = current (natives w d) \<Longrightarrow> t \<noteq> 0 \<Longrightarrow>
    mx_acquire m w = Some w1 \<Longrightarrow> mutex_retry d t m (come_back d t m w1) = (Blocked, w') \<Longrightarrow>
    mstep (w, hc) (go_wait d t m w', hc)"
| release: "private_mutex w m \<Longrightarrow> t = current (natives w d) \<Longrightarrow> t \<noteq> 0 \<Longrightarrow>
    pth_mutex_release E tid0 d m (w, ()) = Some (r, w', ()) \<Longrightarrow> mstep (w, hc) (w', count_down t m r hc)"
| dispatch: "mstep (w, hc) (upd_native d (\<lambda>x. x\<lparr>current := t\<rparr>) w, hc)"

inductive mreach :: "'a mstate \<Rightarrow> 'a mstate \<Rightarrow> bool" for s0 where
  start: "mreach s0 s0"
| step: "mreach s0 s \<Longrightarrow> mstep s s' \<Longrightarrow> mreach s0 s'"

text \<open>Nobody has a mutex.\<close>

definition minit :: "'a mstate \<Rightarrow> bool" where
  "minit s \<longleftrightarrow> (\<forall>m. \<not> locked (fst s) m \<and> mx_owner (mutexes (fst s) m) = 0) \<and> (\<forall>t m. snd s t m = 0)
     \<and> (\<forall>t. mutex_owned (threads (fst s) t) = 0 \<and> mutexring (threads (fst s) t) = pth_ring_init)"

text \<open>How often thread \<open>t\<close> has locked \<open>m\<close>, according to the mutex.\<close>

definition mdepth :: "('a mworld_scheme) \<Rightarrow> nat \<Rightarrow> nat \<Rightarrow> u32" where
  "mdepth w t m = (if locked w m \<and> mx_owner (mutexes w m) = t then mx_count (mutexes w m) else 0)"

definition minv :: "('a mworld_scheme) \<Rightarrow> (nat \<Rightarrow> nat \<Rightarrow> nat) \<Rightarrow> bool" where
  "minv w hc \<longleftrightarrow> (\<exists>R. owns w R) \<and> addr_ok w
     \<and> (\<forall>t m. t \<noteq> 0 \<longrightarrow> m \<noteq> 0 \<longrightarrow> counts (mdepth w t m) (hc t m))
     \<and> (\<forall>m. m \<noteq> 0 \<longrightarrow> (locked w m \<longleftrightarrow> mx_owner (mutexes w m) \<noteq> 0) \<and> (locked w m \<longrightarrow> mx_count (mutexes w m) \<noteq> 0))"

lemma minit_minv: "minit s \<Longrightarrow> minv (fst s) (snd s)"
proof -
  assume i: "minit s"
  have "owns (fst s) (\<lambda>_. [])" by (rule ownsI) (use i in \<open>auto simp: minit_def ring_rep_init\<close>)
  with i show ?thesis by (auto simp: minv_def addr_ok_def minit_def mdepth_def)
qed

text \<open>A step that leaves the mutexes and their owners alone.\<close>

definition msame :: "('a mworld_scheme) \<Rightarrow> ('a mworld_scheme) \<Rightarrow> bool" where
  "msame w w' \<longleftrightarrow> mx_nodes w' = mx_nodes w
     \<and> (\<forall>t. mutexring (threads w' t) = mutexring (threads w t) \<and> mutex_owned (threads w' t) = mutex_owned (threads w t))
     \<and> (\<forall>m. mx_state (mutexes w' m) = mx_state (mutexes w m) \<and> mx_owner (mutexes w' m) = mx_owner (mutexes w m)
          \<and> mx_count (mutexes w' m) = mx_count (mutexes w m) \<and> mx_type (mutexes w' m) = mx_type (mutexes w m)
          \<and> mx_shared (mutexes w' m) = mx_shared (mutexes w m))"

lemma msame_trans: "msame w w1 \<Longrightarrow> msame w1 w2 \<Longrightarrow> msame w w2"
  by (simp add: msame_def)

lemma msame_refl [simp]: "msame w w"
  by (simp add: msame_def)

lemma msame_acquire: "mx_acquire m w = Some w' \<Longrightarrow> msame w w'"
  by (auto simp: mx_acquire_def msame_def)

lemma msame_simps [simp]:
  "msame w (mx_release m w)" "msame w (sleep_begin d t m w)" "msame w (sleep_end d t m w)"
  "msame w (w\<lparr>elems := e\<rparr>)" "msame w (write_sigpipe d w)" "msame w (upd_native d f w)"
  "msame w (go_wait d t m w)" "msame w (come_back d t m w)" "msame w (w\<lparr>sigpipe := l\<rparr>)"
  by (simp_all add: mx_release_def sleep_begin_def sleep_end_def go_wait_def come_back_def msame_def)

lemma msame_make_ready: "make_ready ds t w = Some w' \<Longrightarrow> msame w w'"
  for w :: "('a mworld_scheme)"
proof -
  assume "make_ready ds t w = Some w'"
  then have s: "same_but_queues t w w'" by (rule make_ready_same)
  have "mutexes w' = mutexes w" using s by (cases w, cases w') (simp add: same_but_queues_def)
  with s show ?thesis by (auto simp: same_but_queues_def msame_def)
qed

lemma minv_msame:
  assumes "minv w hc" and s: "msame w w'"
  shows "minv w' hc"
proof -
  have "mdepth w' = mdepth w" using s by (simp add: mdepth_def msame_def fun_eq_iff)
  moreover have "owns w' R" if "owns w R" for R
    by (rule owns_same [OF that]) (use s in \<open>simp_all add: msame_def\<close>)
  ultimately show ?thesis using assms by (auto simp: minv_def msame_def addr_ok_def)
qed

lemma msame_handoff: "mutex_handoff d m w = Some w' \<Longrightarrow> msame w w'"
proof -
  assume h: "mutex_handoff d m w = Some w'"
  show ?thesis
  proof (cases "\<exists>tmp. eprev (elems w) (MxWait m) = Elem tmp \<and> pth_number_of_natives w > 1 \<and> boundnative (threads w tmp) = 0")
    case False
    with h msame_trans [OF msame_simps(1) msame_simps(5)] show ?thesis
      by (auto simp: mutex_handoff_def split: elem.splits if_splits)
  next
    case True
    then obtain tmp where tmp: "eprev (elems w) (MxWait m) = Elem tmp" "pth_number_of_natives w > 1"
      "boundnative (threads w tmp) = 0" by blast
    from h tmp obtain w1 where w1: "(if waited_native (threads w tmp) \<noteq> 0 then make_ready (waited_native (threads w tmp)) tmp w
        else Some w) = Some w1"
      and w': "(if boundnative (threads (mx_release m w1) (current (natives (mx_release m w1) d))) \<noteq> 0
        then map_option snd (pth_wakeup_anative (mx_release m w1)) else Some (mx_release m w1)) = Some w'"
      by (auto simp: mutex_handoff_def Let_def split: bind_splits)
    have "msame w w1" using w1 by (auto split: if_splits intro: msame_make_ready)
    moreover have "msame (mx_release m w1) w'" using w' by (auto split: if_splits dest!: wakeup_anative_same)
    ultimately show ?thesis using msame_simps(1) msame_trans by blast
  qed
qed

lemma minv_depth: "minv w hc \<Longrightarrow> t \<noteq> 0 \<Longrightarrow> m \<noteq> 0 \<Longrightarrow> counts (mdepth w t m) (hc t m)"
  by (simp add: minv_def)

lemma minv_zero:
  assumes "minv w hc" and "t \<noteq> 0" and "m \<noteq> 0" and "\<not> (locked w m \<and> mx_owner (mutexes w m) = t)"
  shows "hc t m = 0"
  using minv_depth [OF assms(1-3)] assms(4) counts_zero_iff [of 0 "hc t m"] by (simp add: mdepth_def)

lemma minv_take:
  assumes i: "minv w hc" and t: "t \<noteq> 0" and m: "m \<noteq> 0" "m < 2 ^ 32" and free: "\<not> locked w m"
  shows "minv (mutex_take d t m w) (count_up t m 0 hc)"
proof -
  let ?w = "mutex_take d t m w"
  from i obtain R where R: "owns w R" "addr_ok w" by (auto simp: minv_def)
  have z: "hc u m = 0" if "u \<noteq> 0" for u
    using minv_zero [OF i that m(1)] free by simp
  have "mdepth ?w u x = (if x = m then if u = t then 1 else 0 else mdepth w u x)" for u x
    by (auto simp: mdepth_def mutex_take_def mutex_flags)
  then have "counts (mdepth ?w u x) (count_up t m 0 hc u x)" if "u \<noteq> 0" "x \<noteq> 0" for u x
    using i that z t by (auto simp: minv_def count_up_def counts_def)
  moreover have "addr_ok ?w" using R(2) m(2) by (auto simp: addr_ok_def mutex_take_def)
  moreover have "(locked ?w x \<longleftrightarrow> mx_owner (mutexes ?w x) \<noteq> 0) \<and> (locked ?w x \<longrightarrow> mx_count (mutexes ?w x) \<noteq> 0)"
    if "x \<noteq> 0" for x
    using i t that by (simp add: minv_def mutex_take_def mutex_flags)
  moreover have "\<exists>R. owns ?w R" using mutex_take_owns [OF R t m free, of d] by blast
  ultimately show ?thesis by (simp add: minv_def)
qed

lemma minv_count:
  assumes i: "minv w hc" and m: "m \<noteq> 0" and own: "locked w m" "mx_owner (mutexes w m) = t"
    and c: "c \<noteq> 0" "counts c n"
  shows "minv (upd_mutex m (\<lambda>x. x\<lparr>mx_count := c\<rparr>) w) (hc(t := (hc t)(m := n)))"
proof -
  let ?w = "upd_mutex m (\<lambda>x. x\<lparr>mx_count := c\<rparr>) w"
  have lo: "locked ?w x = locked w x" "mx_owner (mutexes ?w x) = mx_owner (mutexes w x)" for x by auto
  from i obtain R where "owns w R" by (auto simp: minv_def)
  then have "owns ?w R" by (rule owns_same) (simp_all add: lo)
  moreover have "mdepth ?w u x = (if x = m \<and> u = t then c else mdepth w u x)" for u x
    using own by (auto simp: mdepth_def)
  ultimately show ?thesis using i c m by (auto simp: minv_def addr_ok_def)
qed

lemma minv_drop:
  assumes i: "minv w hc" and t: "t \<noteq> 0" and m: "m \<noteq> 0" and own: "locked w m" "mx_owner (mutexes w m) = t"
  shows "minv (mutex_drop t m w) (hc(t := (hc t)(m := 0)))"
proof -
  let ?w = "mutex_drop t m w"
  from i obtain R where R: "owns w R" by (auto simp: minv_def)
  have "mdepth ?w u x = (if x = m then 0 else mdepth w u x)" for u x
    by (auto simp: mdepth_def mutex_drop_def mutex_flags)
  moreover have "hc u m = 0" if "u \<noteq> 0" "u \<noteq> t" for u
    using minv_zero [OF i that(1) m] own that(2) by simp
  moreover have "locked ?w x \<longleftrightarrow> x \<noteq> m \<and> locked w x" for x by (auto simp: mutex_drop_def mutex_flags)
  moreover have "mx_owner (mutexes ?w x) = (if x = m then 0 else mx_owner (mutexes w x))"
    "mx_count (mutexes ?w x) = (if x = m then 0 else mx_count (mutexes w x))" for x by (simp_all add: mutex_drop_def)
  ultimately show ?thesis using i m mutex_drop_owns [OF R t m own] by (auto simp: minv_def addr_ok_def)
qed

text \<open>Each critical section keeps the invariant.\<close>

lemma minv_enter:
  assumes i: "minv w hc" and t: "t \<noteq> 0" and p: "private_mutex w m" and fits: "Suc (hc t m) < 2 ^ 32"
    and e: "mutex_enter d t m tryonly w = Some (Done r, w')"
  shows "minv w' (count_up t m r hc)"
proof -
  have m: "m \<noteq> 0" "m < 2 ^ 32" using p by (auto simp: private_mutex_def)
  from e obtain w1 where w1: "mx_acquire m w = Some w1" by (auto simp: mutex_enter_def split: bind_splits)
  have i1: "minv w1 hc" by (rule minv_msame [OF i msame_acquire [OF w1]])
  let ?x = "mutexes w1 m"
  consider (free) "\<not> locked w1 m" "r = 0" "w' = mx_release m (mutex_take d t m w1)"
    | (rec) "locked w1 m" "mx_owner ?x = t" "r = 0" "w' = mx_release m (upd_mutex m (\<lambda>x. x\<lparr>mx_count := mx_count ?x + 1\<rparr>) w1)"
    | (odd) "\<not> locked w1 m" "mx_owner ?x = t" "r = 0" "w' = mx_release m (upd_mutex m (\<lambda>x. x\<lparr>mx_count := mx_count ?x + 1\<rparr>) w1)"
    | (fail) "r \<noteq> 0" "w' = mx_release m w1"
    using e w1 unfolding mutex_enter_def
    by (auto simp: Let_def upd_mutex_def const_defs split: if_splits)
  then show ?thesis
  proof cases
    case free
    from minv_take [OF i1 t m free(1), of d] free show ?thesis using minv_msame [OF _ msame_simps(1)] by blast
  next
    case rec
    have c: "counts (mx_count ?x) (hc t m)" using minv_depth [OF i1 t m(1)] rec by (simp add: mdepth_def)
    from counts_Suc [OF c fits] have c': "counts (mx_count ?x + 1) (Suc (hc t m))" .
    then have "mx_count ?x + 1 \<noteq> 0" using counts_zero_iff by blast
    from minv_count [OF i1 m(1) rec(1,2) this c'] rec(3,4) show ?thesis
      using minv_msame [OF _ msame_simps(1)] by (simp add: count_up_def)
  next
    case odd
    with i1 m(1) t show ?thesis by (simp add: minv_def)
  next
    case fail
    with minv_msame [OF i1 msame_simps(1)] show ?thesis by (simp add: count_up_def)
  qed
qed

lemma minv_retry:
  assumes i: "minv w hc" and t: "t \<noteq> 0" and m: "m \<noteq> 0" "m < 2 ^ 32" and e: "mutex_retry d t m w = (a, w')"
  shows "case a of Done r \<Rightarrow> minv w' (count_up t m r hc) | Blocked \<Rightarrow> minv w' hc"
proof (cases "locked w m")
  case False
  let ?w2 = "if pth_number_of_natives w > 1 then w\<lparr>elems := pth_element_delete (Elem t) (elems w)\<rparr> else w"
  have "minv ?w2 hc" by (rule minv_msame [OF i]) simp
  moreover have "\<not> locked ?w2 m" using False by simp
  ultimately have "minv (mutex_take d t m ?w2) (count_up t m 0 hc)" using t m by (intro minv_take)
  then have "minv (mx_release m (mutex_take d t m ?w2)) (count_up t m 0 hc)" by (rule minv_msame) simp
  with False e show ?thesis by (auto simp: mutex_retry_def Let_def)
next
  case True
  with e i show ?thesis by (auto simp: mutex_retry_def)
qed

lemma minv_release:
  assumes i: "minv w hc" and t: "t = current (natives w d)" "t \<noteq> 0" and p: "private_mutex w m"
    and e: "pth_mutex_release E tid0 d m (w, k) = Some (r, w', k')"
  shows "minv w' (count_down t m r hc) \<and> (r = 0 \<longrightarrow> locked w m \<and> mx_owner (mutexes w m) = t)"
proof (cases "locked w m \<and> mx_owner (mutexes w m) = t")
  case False
  with e p t i show ?thesis
    by (auto simp: pth_mutex_release_def private_mutex_def count_down_def const_defs Let_def split: if_splits)
next
  case True
  have m: "m \<noteq> 0" using p by (simp add: private_mutex_def)
  from e True t obtain w1 where w1: "mx_acquire m w = Some w1" by (auto simp: pth_mutex_release_def Let_def split: bind_splits)
  note s1 = msame_acquire [OF w1]
  have i1: "minv w1 hc" by (rule minv_msame [OF i s1])
  have own: "locked w1 m" "mx_owner (mutexes w1 m) = t" and priv: "\<not> pshared (mx_shared (mutexes w1 m))"
    using True s1 p by (auto simp: msame_def private_mutex_def)
  let ?c = "mx_count (mutexes w1 m)"
  have c: "counts ?c (hc t m)" using minv_depth [OF i1 t(2) m] own by (simp add: mdepth_def)
  have "?c \<noteq> 0" using i1 own m by (simp add: minv_def)
  with c have pos: "0 < hc t m" using counts_zero_iff by blast
  from counts_pred [OF c pos] have c': "counts (?c - 1) (hc t m - 1)" .
  let ?w2 = "upd_mutex m (\<lambda>x. x\<lparr>mx_count := mx_count x - 1\<rparr>) w1"
  show ?thesis
  proof (cases "?c - 1 = 0")
    case False
    have w2: "?w2 = upd_mutex m (\<lambda>x. x\<lparr>mx_count := ?c - 1\<rparr>) w1" by (simp add: upd_mutex_def)
    from minv_count [OF i1 m own False c'] have "minv (mx_release m ?w2) (count_down t m 0 hc)"
      unfolding w2 count_down_def by (auto intro: minv_msame [OF _ msame_simps(1)])
    with e True t False w1 show ?thesis by (auto simp: pth_mutex_release_def Let_def split: if_splits)
  next
    case zero: True
    have one: "hc t m = 1" using c' pos zero counts_zero_iff [OF c'] by simp
    let ?w3 = "mutex_drop t m ?w2"
    have "mutex_drop t m ?w2 = mutex_drop t m w1"
      by (simp add: mutex_drop_def upd_mutex_def)
    then have i3: "minv ?w3 (count_down t m 0 hc)" using minv_drop [OF i1 t(2) m own] one by (simp add: count_down_def)
    have "\<not> pshared (mx_shared (mutexes ?w3 m))" using priv by (simp add: mutex_drop_def)
    with e True t zero w1 obtain w4 where "mutex_handoff d m ?w3 = Some w4" "w' = w4" "r = 0"
      by (auto simp: pth_mutex_release_def Let_def)
    with minv_msame [OF i3 msame_handoff] True show ?thesis by blast
  qed
qed

lemma mstep_minv: "mstep s s' \<Longrightarrow> minv (fst s) (snd s) \<Longrightarrow> minv (fst s') (snd s')"
proof (induction rule: mstep.induct)
  case (enter w m t d hc tryonly r w')
  then show ?case using minv_enter [of w hc t m d tryonly r w'] by simp
next
  case (block w m t d tryonly w' hc)
  from block(4) have "msame w w'"
    by (auto simp: mutex_enter_def Let_def split: bind_splits if_splits
        intro: msame_acquire msame_trans [OF msame_acquire msame_simps(4)])
  with minv_msame [of w hc w'] minv_msame [of w' hc "go_wait d t m w'"] block show ?case by simp
next
  case (retry w m t d w1 r w' hc)
  have "minv (come_back d t m w1) hc"
    using minv_msame [OF minv_msame [OF _ msame_acquire [OF retry(4)]] msame_simps(8)] retry by simp
  with minv_retry [of "come_back d t m w1" hc t m d "Done r" w'] retry show ?case by (simp add: private_mutex_def)
next
  case (retry_block w m t d w1 w' hc)
  have "minv (come_back d t m w1) hc"
    using minv_msame [OF minv_msame [OF _ msame_acquire [OF retry_block(4)]] msame_simps(8)] retry_block by simp
  with minv_retry [of "come_back d t m w1" hc t m d Blocked w'] retry_block
  have "minv w' hc" by (simp add: private_mutex_def)
  from minv_msame [OF this msame_simps(7)] show ?case by simp
next
  case (release w m t d E tid0 r w' hc)
  then show ?case using minv_release [of w hc t d m E tid0 "()" r w' "()"] by simp
next
  case (dispatch w hc d t)
  with minv_msame [OF _ msame_simps(6)] show ?case by simp
qed

lemma mreach_minv: "mreach s0 s \<Longrightarrow> minit s0 \<Longrightarrow> minv (fst s) (snd s)"
  by (induction rule: mreach.induct) (auto intro: minit_minv mstep_minv)

subsection \<open>Behaviour of the whole functions\<close>

definition spin_free :: "('a mworld_scheme) \<Rightarrow> nat \<Rightarrow> bool" where
  "spin_free w m \<longleftrightarrow> lock (spinlock (mx_lock (mutexes w m))) = 0"

text \<open>Taking the lock of a mutex and giving it restored.\<close>

lemma mx_acquire_free:
  "spin_free w m \<Longrightarrow> mx_acquire m w = Some (upd_mutex m (\<lambda>x. x\<lparr>mx_lock := (mx_lock x)\<lparr>spinlock := (spinlock (mx_lock x))\<lparr>lock := 1\<rparr>\<rparr>\<rparr>) w)"
  by (simp add: spin_free_def mx_acquire_def spin_lock_def test_and_set_def upd_mutex_def)

lemma mx_release_acquire: "spin_free w m \<Longrightarrow> mx_acquire m w = Some w1 \<Longrightarrow> mx_release m w1 = w"
  by (auto simp: mx_acquire_free mx_release_def upd_mutex_def spin_unlock_def spin_free_def fun_upd_idem)

lemma mx_release_free [simp]: "spin_free (mx_release m w) m"
  by (simp add: spin_free_def mx_release_def spin_unlock_def)

text \<open>The acquisition that does not wait, by the state of the mutex.\<close>

lemma mutex_enter_cases:
  assumes f: "spin_free w m"
  shows "\<not> locked w m \<Longrightarrow> mx_waitcount (mutexes w m) = 0 \<Longrightarrow>
      \<exists>w'. mutex_enter d t m tryonly w = Some (Done 0, w') \<and> spin_free w' m \<and> locked w' m \<and> mx_owner (mutexes w' m) = t
        \<and> mx_count (mutexes w' m) = 1"
    and "locked w m \<Longrightarrow> mx_owner (mutexes w m) = t \<Longrightarrow> mx_count (mutexes w m) \<noteq> 0 \<Longrightarrow> mx_type (mutexes w m) = PTH_MUTEX_RECURSIVE_NP \<Longrightarrow>
      mutex_enter d t m tryonly w = Some (Done 0, upd_mutex m (\<lambda>x. x\<lparr>mx_count := mx_count x + 1\<rparr>) w)"
    and "locked w m \<Longrightarrow> mx_owner (mutexes w m) = t \<Longrightarrow> mx_count (mutexes w m) \<noteq> 0 \<Longrightarrow> mx_type (mutexes w m) \<noteq> PTH_MUTEX_RECURSIVE_NP \<Longrightarrow>
      mutex_enter d t m tryonly w = Some (Done (if tryonly then EBUSY else EDEADLK), w)"
    and "locked w m \<Longrightarrow> mx_owner (mutexes w m) \<noteq> t \<Longrightarrow> mutex_enter d t m True w = Some (Done EBUSY, w)"
proof -
  obtain w1 where w1: "mx_acquire m w = Some w1" using mx_acquire_free [OF f] by blast
  note s = msame_acquire [OF w1]
  have st: "mx_state (mutexes w1 m) = mx_state (mutexes w m)" "mx_owner (mutexes w1 m) = mx_owner (mutexes w m)"
    "mx_count (mutexes w1 m) = mx_count (mutexes w m)" "mx_type (mutexes w1 m) = mx_type (mutexes w m)"
    using s by (simp_all add: msame_def)
  have wc: "mx_waitcount (mutexes w1 m) = mx_waitcount (mutexes w m)" using w1 by (auto simp: mx_acquire_def)
  have restored: "mx_release m w1 = w" by (rule mx_release_acquire [OF f w1])
  have ge: "1 \<le> c \<longleftrightarrow> c \<noteq> 0" for c :: u32 by (simp add: word_le_nat_alt Suc_le_eq unat_gt_0)
  show "\<not> locked w m \<Longrightarrow> mx_waitcount (mutexes w m) = 0 \<Longrightarrow>
      \<exists>w'. mutex_enter d t m tryonly w = Some (Done 0, w') \<and> spin_free w' m \<and> locked w' m \<and> mx_owner (mutexes w' m) = t
        \<and> mx_count (mutexes w' m) = 1"
    using w1 st wc by (simp add: mutex_enter_def Let_def) (simp add: mx_release_def mutex_take_def mutex_flags)
  have inc: "mx_release m (upd_mutex m (\<lambda>x. x\<lparr>mx_count := mx_count x + 1\<rparr>) w1) = upd_mutex m (\<lambda>x. x\<lparr>mx_count := mx_count x + 1\<rparr>) w"
    unfolding restored [symmetric] by (cases "mutexes w1 m") (simp add: mx_release_def upd_mutex_def)
  show "locked w m \<Longrightarrow> mx_owner (mutexes w m) = t \<Longrightarrow> mx_count (mutexes w m) \<noteq> 0 \<Longrightarrow> mx_type (mutexes w m) = PTH_MUTEX_RECURSIVE_NP \<Longrightarrow>
      mutex_enter d t m tryonly w = Some (Done 0, upd_mutex m (\<lambda>x. x\<lparr>mx_count := mx_count x + 1\<rparr>) w)"
    using w1 st inc ge by (simp add: mutex_enter_def Let_def)
  show "locked w m \<Longrightarrow> mx_owner (mutexes w m) = t \<Longrightarrow> mx_count (mutexes w m) \<noteq> 0 \<Longrightarrow> mx_type (mutexes w m) \<noteq> PTH_MUTEX_RECURSIVE_NP \<Longrightarrow>
      mutex_enter d t m tryonly w = Some (Done (if tryonly then EBUSY else EDEADLK), w)"
    using w1 st restored ge by (simp add: mutex_enter_def Let_def)
  show "locked w m \<Longrightarrow> mx_owner (mutexes w m) \<noteq> t \<Longrightarrow> mutex_enter d t m True w = Some (Done EBUSY, w)"
    using w1 st restored by (simp add: mutex_enter_def Let_def)
qed

lemma acquire_private:
  assumes "private_mutex w m" and "d \<noteq> 0" and "mutex_enter d (current (natives w d)) m tryonly w = Some (Done r, w')"
  shows "pth_mutex_acquire E tid0 d m tryonly ev (w, k) = Some (r, w', k)"
  using assms by (simp add: pth_mutex_acquire_def private_mutex_def Let_def)

text \<open>The last release of a private mutex when there is one native or nobody waits, so nobody is woken.\<close>

lemma mutex_release_last:
  assumes f: "spin_free w m" and p: "private_mutex w m" and t: "t = current (natives w d)"
    and own: "locked w m" "mx_owner (mutexes w m) = t" and one: "mx_count (mutexes w m) = 1"
    and n: "pth_number_of_natives w \<le> 1 \<or> eprev (elems w) (MxWait m) = MxWait m"
  shows "\<exists>w'. pth_mutex_release E tid0 d m (w, k) = Some (0, w', k) \<and> msame (mutex_drop t m w) w'
     \<and> natives w' = natives w \<and> pth_number_of_natives w' = pth_number_of_natives w
     \<and> (\<forall>x. x \<noteq> m \<longrightarrow> mutexes w' x = mutexes w x) \<and> elems w' = elems w \<and> spin_free w' m
     \<and> mx_waitcount (mutexes w' m) = mx_waitcount (mutexes w m) \<and> mworld.more w' = mworld.more w"
proof -
  obtain w1 where w1: "mx_acquire m w = Some w1" using mx_acquire_free [OF f] by blast
  let ?w2 = "upd_mutex m (\<lambda>x. x\<lparr>mx_count := mx_count x - 1\<rparr>) w1"
  have f1: "mx_state (mutexes w1 m) = mx_state (mutexes w m)" "natives w1 = natives w"
    "\<And>x. x \<noteq> m \<Longrightarrow> mutexes w1 x = mutexes w x" "pth_number_of_natives w1 = pth_number_of_natives w"
    "threads w1 = threads w" "mx_nodes w1 = mx_nodes w" "mx_type (mutexes w1 m) = mx_type (mutexes w m)"
    "mx_shared (mutexes w1 m) = mx_shared (mutexes w m)" "mx_count (mutexes w1 m) = mx_count (mutexes w m)"
    "elems w1 = elems w" "mx_waitcount (mutexes w1 m) = mx_waitcount (mutexes w m)" "mworld.more w1 = mworld.more w"
    using w1 by (auto simp: mx_acquire_def)
  have c1: "mx_count (mutexes w1 m) = 1" "\<not> pshared (mx_shared (mutexes w1 m))"
    using one p f1 by (simp_all add: private_mutex_def)
  let ?w3 = "mutex_drop t m ?w2"
  have h: "mutex_handoff d m ?w3 = Some (mx_release m ?w3)" using n f1(4,10) by (auto simp: mutex_handoff_def mutex_drop_def)
  have priv: "\<not> pshared (mx_shared (mutexes ?w3 m))" using c1(2) by (simp add: mutex_drop_def)
  have "pth_mutex_release E tid0 d m (w, k) = Some (0, mx_release m ?w3, k)"
    using own t w1 c1(1) h priv by (simp add: pth_mutex_release_def Let_def)
  moreover have "threads ?w3 = threads (mutex_drop t m w)" "mx_nodes ?w3 = mx_nodes (mutex_drop t m w)"
    using f1(5,6) by (simp_all add: mutex_drop_def own_remove_def split: prod.splits)
  ultimately show ?thesis using f1
    by (intro exI [of _ "mx_release m ?w3"])
      (auto simp: msame_def mx_release_def mutex_drop_def spin_free_def spin_unlock_def)
qed

lemma releaseall_loop_end [simp]: "releaseall_loop E tid0 d t rnf 0 s = Some s"
  by (subst releaseall_loop.simps) simp

text \<open>The release of a mutex of another thread fails and changes nothing, so the loop does not end.\<close>

lemma releaseall_loop_stuck:
  assumes c: "\<not> has (mx_state (mutexes w rn)) PTH_MUTEX_INTERNAL_LOCKED" "mx_owner (mutexes w rn) \<noteq> current (natives w d)"
    "mx_count (mutexes w rn) > 0" "rn \<noteq> 0"
  shows "releaseall_loop E tid0 d t rnf rn (w, k) = None"
proof (cases "releaseall_loop E tid0 d t rnf rn (w, k)")
  case (Some y)
  have rel: "pth_mutex_release E tid0 d rn (w, k) = Some (EPERM, w, k)"
    using c by (simp add: pth_mutex_release_def Let_def)
  have "(E', tid', d', t', rnf', rn', s') = (E, tid0, d, t, rnf, rn, (w, k)) \<longrightarrow> False"
    if "releaseall_loop E' tid' d' t' rnf' rn' s' = Some y" for E' tid' d' t' rnf' rn' s'
  proof (rule releaseall_loop.raw_induct [where P = "\<lambda>E' tid' d' t' rnf' rn' s' y.
      (E', tid', d', t', rnf', rn', s') = (E, tid0, d, t, rnf, rn, (w, k)) \<longrightarrow> False", OF _ that], rule impI)
    fix rec E' tid' d' t' rnf' rn' s' y
    assume IH: "\<And>E' tid' d' t' rnf' rn' s' y. rec E' tid' d' t' rnf' rn' s' = Some y \<Longrightarrow>
        (E', tid', d', t', rnf', rn', s') = (E, tid0, d, t, rnf, rn, (w, k)) \<longrightarrow> False"
      and eq: "(E', tid', d', t', rnf', rn', s') = (E, tid0, d, t, rnf, rn, (w, k))"
      and body: "(if rn' = 0 then Some s'
        else do { (_, w1, k1) \<leftarrow> pth_mutex_release E' tid' d' rn' s';
                if mx_count (mutexes w1 rn') > 0 then rec E' tid' d' t' rnf' rn' (w1, k1)
                else let rn1 = pth_ring_next (mutexring (threads w1 t'), mx_nodes w1) rn'
                     in if rn1 = rnf' then Some (w1, k1) else rec E' tid' d' t' rnf' rn1 (w1, k1) }) = Some y"
    from body eq rel c(3,4) have "rec E tid0 d t rnf rn (w, k) = Some y" by simp
    from IH [OF this] show False by simp
  qed
  with Some show ?thesis by blast
qed simp

end
