(* ===== verification/MutexProps.thy ===== *)
theory MutexProps
  imports Mutex
begin

text \<open>
  The properties of the mutexes of pth_sync.c, with the concrete states that witness them.
  In the states below thread \<open>d\<close> runs on native \<open>d\<close>.
\<close>

definition free_lock :: pth_qlock_st where
  "free_lock = \<lparr>spinlock = \<lparr>lock = 0\<rparr>, owner = 0, qcount = 0\<rparr>"

definition a_thread :: pth_st where
  "a_thread = \<lparr>mctx_sigs = 0, magic = True, boundnative = 0, lastrannative = 0, t_stack = 0, true_stack = 0, t_sp = 0, stackbottom = 0,
     stacksize = 0, stackguard = 0, start_func = 0, start_arg = 0, sprio = 4, schedpolicy = 0, scope = 0,
     inheritsched = 0, t_name = [], tstate = PTH_STATE_READY, stackloan = False, should_suspend = False,
     cancelreq = False, ptrfixed = False, t_spawned = 0, t_lastran = 0, t_running = 0, t_events = 0, t_sigpending = 0, sigpendcnt = 0,
     sigthread = 0, joinable = 1, join_arg = 0, cancelstate = 0, mutexring = pth_ring_init, tlock = free_lock,
     sigactionmask = 0, joined_count = 0, joined_native = 0, joined_thread = 0, waited_native = 0, mutex_owned = 0,
     event_data = None, event_count = 0\<rparr>"

definition a_native :: "nat \<Rightarrow> pth_descr_st" where
  "a_native d = \<lparr>is_used = True, native_errno = 0, pid = 7, tid = d, d_stacksize = 0, d_true_stack = 0, d_stack = 0, stack_top = 0, sched = 0, current = d, nexttimer_thread = 0,
     sched_index = d - 1, is_bound = True, d_sigpending = 0, sigraised = 0, sched_lock = free_lock, is_running = True,
     is_bounded = False, do_yield = False, bounded_thread = 0\<rparr>"

definition a_mutex :: pth_mutex_st where
  "a_mutex = \<lparr>mx_state = PTH_MUTEX_INITIALIZED, mx_index = -1, mx_type = PTH_MUTEX_NORMAL, mx_owner = 0,
     mx_owner_pid = 0, mx_lock = free_lock,
     mx_shared = \<lparr>futex = \<lparr>fcount = 1\<rparr>, pshared = False, rtype = 0, parent = 0\<rparr>, mx_count = 0, mx_waitcount = 0\<rparr>"

definition mw0 :: mworld where
  "mw0 = \<lparr>threads = \<lambda>_. a_thread,
     natives = a_native,
     pth_number_of_natives = 1, elems = \<lambda>e. \<lparr>th_next = e, th_prev = e\<rparr>, qw = zero_qworld,
     mx_nodes = \<lambda>_. \<lparr>rn_next = 0, rn_prev = 0\<rparr>, thread_queue = \<lambda>p. \<lparr>lnext = p, lprev = p\<rparr>, sigpipe = [],
     mutexes = \<lambda>_. a_mutex, shared_used = \<lambda>_. False\<rparr>"

text \<open>Nothing happens while somebody waits, and the event does not occur.\<close>

definition idle_env :: "(mworld, unit) sysenv" where
  "idle_env = \<lparr>e_wait = \<lambda>w k. (False, 1, w, k), e_select = \<lambda>w k. (w, k), e_futex = \<lambda>op v s. (-38, s), e_kill = \<lambda>_ _. False\<rparr>"

lemmas mw_defs = mw0_def a_mutex_def a_thread_def a_native_def free_lock_def

lemma mw0_private: "m \<noteq> 0 \<Longrightarrow> m < 2 ^ 32 \<Longrightarrow> private_mutex mw0 m"
  by (simp add: private_mutex_def mw_defs mutex_flags)

lemma mw0_init: "minit (mw0, \<lambda>_ _. 0)"
  by (simp add: minit_def mw_defs mutex_flags)

text \<open>Thread 1 has taken mutex 5.\<close>

definition mw1 :: mworld where
  "mw1 = mw0\<lparr>threads := (\<lambda>_. a_thread)(1 := a_thread\<lparr>mutex_owned := 5\<rparr>),
     mutexes := (\<lambda>_. a_mutex)(5 := a_mutex\<lparr>mx_state := set_flag PTH_MUTEX_LOCKED PTH_MUTEX_INITIALIZED, mx_owner := 1,
       mx_owner_pid := 7, mx_count := 1\<rparr>)\<rparr>"

lemma mw1_enter: "mutex_enter 1 1 5 False mw0 = Some (Done 0, mw1)"
  by (simp add: mutex_enter_def mx_acquire_def spin_lock_def test_and_set_def mw1_def mw_defs mutex_flags mutex_take_def
      own_add_def mx_release_def upd_mutex_def upd_thread_def spin_unlock_def)

lemma mw1_facts:
  "private_mutex mw1 5" "spin_free mw1 5" "locked mw1 5" "mx_owner (mutexes mw1 5) = 1" "mx_count (mutexes mw1 5) = 1"
  "mx_type (mutexes mw1 5) = PTH_MUTEX_NORMAL" "current (natives mw1 d) = d"
  by (simp_all add: mw1_def mw_defs mutex_flags private_mutex_def spin_free_def)

text \<open>
  C4.  Mutual exclusion: whatever the order in which the threads of all natives execute the
  critical sections of \<open>pth_mutex_acquire\<close> and \<open>pth_mutex_release\<close>, at most one thread
  has a private mutex, it is the owner the mutex records, and the count of the mutex is the
  number of its acquisitions that it has not released.
\<close>

theorem mutex_mutual_exclusion:
  assumes "minit s0" and "mreach s0 s" and "m \<noteq> 0" and "t \<noteq> 0" and "u \<noteq> 0"
    and "snd s t m > 0" and "snd s u m > 0"
  shows "t = u \<and> mx_owner (mutexes (fst s) m) = t \<and> unat (mx_count (mutexes (fst s) m)) = snd s t m"
proof -
  have i: "minv (fst s) (snd s)" by (rule mreach_minv [OF assms(2,1)])
  have own: "locked (fst s) m \<and> mx_owner (mutexes (fst s) m) = x" if "x \<noteq> 0" "snd s x m > 0" for x
    using minv_zero [OF i that(1) assms(3)] that(2) by fastforce
  from own [OF assms(4,6)] own [OF assms(5,7)] minv_depth [OF i assms(4,3)] counts_unat show ?thesis
    by (auto simp: mdepth_def)
qed

theorem mutex_mutual_exclusion_witness:
  "\<exists>s. mreach (mw0, \<lambda>_ _. 0) s \<and> snd s 1 5 = 1 \<and> mx_owner (mutexes (fst s) 5) = 1"
proof -
  let ?s = "(mw1, count_up 1 5 0 (\<lambda>_ _. 0))"
  have "mstep (mw0, \<lambda>_ _. 0) ?s"
    by (rule mstep.enter [OF mw0_private _ _ _ mw1_enter]) (simp_all add: mw0_def a_native_def)
  then have r: "mreach (mw0, \<lambda>_ _. 0) ?s" by (rule mreach.step [OF mreach.start])
  from mutex_mutual_exclusion [OF mw0_init r, of 5 1 1] r show ?thesis
    by (intro exI [of _ ?s]) (simp add: count_up_def)
qed

text \<open>
  The result of \<open>pth_mutex_acquire\<close> when it does not have to wait: a free mutex is
  taken; the owner of a recursive one locks it once more; the owner of another one gets
  EDEADLK, or EBUSY if it only tries; somebody else who only tries gets EBUSY.  An error
  leaves everything as it was.  The manual promises that any mutex can be locked again by its
  owner, and FALSE with EBUSY in errno for a try that is refused.
\<close>

theorem mutex_acquire_results:
  assumes "private_mutex w m" and "spin_free w m" and "d \<noteq> 0" and t: "t = current (natives w d)"
  shows "(\<not> locked w m \<and> mx_waitcount (mutexes w m) = 0 \<longrightarrow>
            (\<exists>w'. pth_mutex_acquire E tid0 d m tryonly ev (w, k) = Some (0, w', k) \<and> locked w' m
               \<and> mx_owner (mutexes w' m) = t \<and> mx_count (mutexes w' m) = 1))
     \<and> (locked w m \<and> mx_owner (mutexes w m) = t \<and> mx_count (mutexes w m) \<noteq> 0 \<longrightarrow>
            pth_mutex_acquire E tid0 d m tryonly ev (w, k) =
              (if mx_type (mutexes w m) = PTH_MUTEX_RECURSIVE_NP
               then Some (0, upd_mutex m (\<lambda>x. x\<lparr>mx_count := mx_count x + 1\<rparr>) w, k)
               else Some (if tryonly then EBUSY else EDEADLK, w, k)))
     \<and> (locked w m \<and> mx_owner (mutexes w m) \<noteq> t \<longrightarrow>
            pth_mutex_acquire E tid0 d m True ev (w, k) = Some (EBUSY, w, k))"
proof -
  have acq: "pth_mutex_acquire E tid0 d m ty ev (w, k) = Some (r, w', k)"
    if "mutex_enter d t m ty w = Some (Done r, w')" for ty r w'
    by (rule acquire_private [OF assms(1,3) that [unfolded t]])
  note enter = mutex_enter_cases [OF assms(2), where d = d and t = t]
  have "\<exists>w'. pth_mutex_acquire E tid0 d m tryonly ev (w, k) = Some (0, w', k) \<and> locked w' m
      \<and> mx_owner (mutexes w' m) = t \<and> mx_count (mutexes w' m) = 1"
    if "\<not> locked w m" "mx_waitcount (mutexes w m) = 0" using enter(1) [OF that, of tryonly] acq by blast
  moreover have "pth_mutex_acquire E tid0 d m True ev (w, k) = Some (EBUSY, w, k)"
    if "locked w m" "mx_owner (mutexes w m) \<noteq> t" by (rule acq [OF enter(4) [OF that]])
  ultimately show ?thesis using acq [OF enter(2), of tryonly] acq [OF enter(3), of tryonly] by auto
qed

theorem mutex_acquire_results_witness:
  "pth_mutex_acquire idle_env 0 2 5 True False (mw1, ()) = Some (EBUSY, mw1, ())
   \<and> pth_mutex_acquire idle_env 0 1 5 False False (mw1, ()) = Some (EDEADLK, mw1, ())"
proof -
  from mutex_acquire_results [OF mw1_facts(1,2), of 2 2 idle_env 0 True False "()"]
    mutex_acquire_results [OF mw1_facts(1,2), of 1 1 idle_env 0 False False "()"] mw1_facts(3-)
  show ?thesis by (simp add: const_defs)
qed

subsection \<open>Recursive locking\<close>

text \<open>\<open>n\<close> calls in a row, each of which returns 0.\<close>

primrec repeated :: "nat \<Rightarrow> ('s \<Rightarrow> (int \<times> 's) option) \<Rightarrow> 's \<Rightarrow> 's option" where
  "repeated 0 f s = Some s"
| "repeated (Suc n) f s = do { (r, s1) \<leftarrow> f s; if r = 0 then repeated n f s1 else None }"

text \<open>A recursive mutex that nobody waits for and that the thread of native \<open>d\<close> has locked \<open>n\<close> times.\<close>

definition nested :: "('a mworld_scheme) \<Rightarrow> nat \<Rightarrow> nat \<Rightarrow> nat \<Rightarrow> bool" where
  "nested w d m n \<longleftrightarrow> spin_free w m \<and> private_mutex w m \<and> mx_type (mutexes w m) = PTH_MUTEX_RECURSIVE_NP
     \<and> mx_waitcount (mutexes w m) = 0 \<and> (pth_number_of_natives w \<le> 1 \<or> eprev (elems w) (MxWait m) = MxWait m)
     \<and> (if n = 0 then \<not> locked w m
        else locked w m \<and> mx_owner (mutexes w m) = current (natives w d) \<and> counts (mx_count (mutexes w m)) n)"

lemma nested_acquire:
  assumes "nested w d m n" and "d \<noteq> 0" and "Suc n < 2 ^ 32"
  shows "\<exists>w'. pth_mutex_acquire E tid0 d m tryonly ev (w, k) = Some (0, w', k) \<and> nested w' d m (Suc n) \<and> natives w' = natives w"
proof -
  let ?t = "current (natives w d)"
  have sf: "spin_free w m" and p: "private_mutex w m" and wc: "mx_waitcount (mutexes w m) = 0" using assms(1) by (auto simp: nested_def)
  show ?thesis
  proof (cases n)
    case 0
    obtain w1 where w1: "mx_acquire m w = Some w1" using mx_acquire_free [OF sf] by blast
    let ?w' = "mx_release m (mutex_take d ?t m w1)"
    have f1: "mx_state (mutexes w1 m) = mx_state (mutexes w m)" "mx_waitcount (mutexes w1 m) = 0" "natives w1 = natives w"
      "elems w1 = elems w" "pth_number_of_natives w1 = pth_number_of_natives w" "mx_type (mutexes w1 m) = mx_type (mutexes w m)"
      "mx_shared (mutexes w1 m) = mx_shared (mutexes w m)"
      using w1 wc by (auto simp: mx_acquire_def)
    have "mutex_enter d ?t m tryonly w = Some (Done 0, ?w')" using w1 f1 assms(1) 0 by (simp add: mutex_enter_def Let_def nested_def)
    then have "pth_mutex_acquire E tid0 d m tryonly ev (w, k) = Some (0, ?w', k)" by (rule acquire_private [OF p assms(2)])
    moreover have "nested ?w' d m (Suc n)"
      using assms(1) f1 0 by (auto simp: nested_def spin_free_def private_mutex_def mx_release_def mutex_take_def mutex_flags
          spin_unlock_def counts_def)
    ultimately show ?thesis using f1(3) by (auto simp: mutex_take_def mx_release_def)
  next
    case (Suc j)
    then have own: "locked w m" "mx_owner (mutexes w m) = ?t" "counts (mx_count (mutexes w m)) n" "mx_type (mutexes w m) = PTH_MUTEX_RECURSIVE_NP"
      using assms(1) by (auto simp: nested_def)
    have "mx_count (mutexes w m) \<noteq> 0" using counts_zero_iff [OF own(3)] Suc by simp
    from mutex_enter_cases(2) [OF sf own(1,2) this own(4), of d tryonly]
    have "pth_mutex_acquire E tid0 d m tryonly ev (w, k) = Some (0, upd_mutex m (\<lambda>x. x\<lparr>mx_count := mx_count x + 1\<rparr>) w, k)"
      by (rule acquire_private [OF p assms(2)])
    moreover have "nested (upd_mutex m (\<lambda>x. x\<lparr>mx_count := mx_count x + 1\<rparr>) w) d m (Suc n)"
      using assms(1) own counts_Suc [OF own(3) assms(3)] Suc by (simp add: nested_def spin_free_def private_mutex_def)
    ultimately show ?thesis by simp
  qed
qed

lemma nested_release:
  assumes "nested w d m (Suc n)"
  shows "\<exists>w'. pth_mutex_release E tid0 d m (w, k) = Some (0, w', k) \<and> nested w' d m n \<and> natives w' = natives w"
proof -
  let ?t = "current (natives w d)"
  have a: "spin_free w m" "private_mutex w m" "locked w m" "mx_owner (mutexes w m) = ?t" "counts (mx_count (mutexes w m)) (Suc n)"
    "pth_number_of_natives w \<le> 1 \<or> eprev (elems w) (MxWait m) = MxWait m"
    using assms by (auto simp: nested_def)
  show ?thesis
  proof (cases n)
    case 0
    then have "mx_count (mutexes w m) = 1" using a(5) by (simp add: counts_def)
    from mutex_release_last [OF a(1,2) refl a(3,4) this a(6), of E tid0 k] obtain w' where
      w': "pth_mutex_release E tid0 d m (w, k) = Some (0, w', k)" "msame (mutex_drop ?t m w) w'" "natives w' = natives w"
      "pth_number_of_natives w' = pth_number_of_natives w" "elems w' = elems w" "spin_free w' m"
      "mx_waitcount (mutexes w' m) = mx_waitcount (mutexes w m)" by blast
    have "nested w' d m n"
      using assms w'(2-) 0 by (auto simp: nested_def msame_def mutex_drop_def private_mutex_def mutex_flags)
    with w'(1,3) show ?thesis by blast
  next
    case (Suc j)
    obtain w1 where w1: "mx_acquire m w = Some w1" using mx_acquire_free [OF a(1)] by blast
    let ?w2 = "upd_mutex m (\<lambda>x. x\<lparr>mx_count := mx_count x - 1\<rparr>) w1"
    have f1: "mx_state (mutexes w1 m) = mx_state (mutexes w m)" "mx_waitcount (mutexes w1 m) = mx_waitcount (mutexes w m)"
      "natives w1 = natives w" "elems w1 = elems w" "pth_number_of_natives w1 = pth_number_of_natives w"
      "mx_type (mutexes w1 m) = mx_type (mutexes w m)" "mx_shared (mutexes w1 m) = mx_shared (mutexes w m)"
      "mx_count (mutexes w1 m) = mx_count (mutexes w m)" "mx_owner (mutexes w1 m) = mx_owner (mutexes w m)"
      using w1 by (auto simp: mx_acquire_def)
    have c: "counts (mx_count (mutexes w m) - 1) n" using counts_pred [OF a(5)] by simp
    then have "mx_count (mutexes w m) - 1 \<noteq> 0" using counts_zero_iff [OF c] Suc by simp
    then have "pth_mutex_release E tid0 d m (w, k) = Some (0, mx_release m ?w2, k)"
      using a(3,4) w1 f1(8) by (simp add: pth_mutex_release_def Let_def)
    moreover have "nested (mx_release m ?w2) d m n"
      using assms f1 c Suc by (auto simp: nested_def spin_free_def private_mutex_def mx_release_def spin_unlock_def)
    ultimately show ?thesis using f1(3) by (auto simp: mx_release_def)
  qed
qed

lemma nested_acquires:
  assumes "nested w d m j" and "d \<noteq> 0" and "j + n < 2 ^ 32"
  shows "\<exists>w'. repeated n (pth_mutex_acquire E tid0 d m tryonly ev) (w, k) = Some (w', k) \<and> nested w' d m (j + n) \<and> natives w' = natives w"
  using assms
proof (induction n arbitrary: w j)
  case (Suc n)
  then obtain w1 where w1: "pth_mutex_acquire E tid0 d m tryonly ev (w, k) = Some (0, w1, k)" "nested w1 d m (Suc j)" "natives w1 = natives w"
    using nested_acquire [of w d m j E tid0 tryonly ev k] by auto
  from Suc.IH [OF w1(2)] Suc.prems w1 show ?case by simp
qed simp

lemma nested_releases:
  assumes "nested w d m (n + j)"
  shows "\<exists>w'. repeated j (pth_mutex_release E tid0 d m) (w, k) = Some (w', k) \<and> nested w' d m n \<and> natives w' = natives w"
  using assms
proof (induction j arbitrary: w)
  case (Suc j)
  then obtain w1 where w1: "pth_mutex_release E tid0 d m (w, k) = Some (0, w1, k)" "nested w1 d m (n + j)" "natives w1 = natives w"
    using nested_release [of w d m "n + j" E tid0 k] by auto
  from Suc.IH [OF w1(2)] w1 show ?case by simp
qed simp

text \<open>Another thread that tries gets the mutex exactly if it is not locked.\<close>

lemma nested_other:
  assumes "nested w d m n" and "e \<noteq> 0" and "current (natives w e) \<noteq> current (natives w d)"
  shows "\<exists>w'. pth_mutex_acquire E tid0 e m True ev (w, k) = Some (if n = 0 then 0 else EBUSY, w', k)"
proof (cases n)
  case 0
  with assms(1) have "spin_free w m" "private_mutex w m" "\<not> locked w m" "mx_waitcount (mutexes w m) = 0" by (auto simp: nested_def)
  with mutex_acquire_results [of w m e _ E tid0 True ev k] assms(2) 0 show ?thesis by auto
next
  case (Suc j)
  with assms(1,3) have "spin_free w m" "private_mutex w m" "locked w m" "mx_owner (mutexes w m) \<noteq> current (natives w e)" by (auto simp: nested_def)
  with mutex_acquire_results [of w m e _ E tid0 True ev k] assms(2) Suc show ?thesis by auto
qed

text \<open>
  C29.  Recursive locking: a recursive process-private mutex that is free and that nobody waits for
  can be locked any number of times by one thread, and has to be released as often.  After
  fewer releases it is still locked and another thread that tries to lock it is refused with
  EBUSY, after the last one it is free and the other thread gets it.
\<close>

theorem mutex_nested:
  assumes "private_mutex w m" and "spin_free w m" and "mx_type (mutexes w m) = PTH_MUTEX_RECURSIVE_NP" and "\<not> locked w m"
    and "mx_waitcount (mutexes w m) = 0" and "pth_number_of_natives w \<le> 1 \<or> eprev (elems w) (MxWait m) = MxWait m"
    and "d \<noteq> 0" and "n < 2 ^ 32" and "j \<le> n" and "e \<noteq> 0" and "current (natives w e) \<noteq> current (natives w d)"
  shows "\<exists>s s' w''. repeated n (pth_mutex_acquire E tid0 d m tryonly ev) (w, k) = Some s
     \<and> repeated j (pth_mutex_release E tid0 d m) s = Some s' \<and> (locked (fst s') m \<longleftrightarrow> j < n)
     \<and> pth_mutex_acquire E tid1 e m True ev' s' = Some (if j < n then EBUSY else 0, w'', k)"
proof -
  have "nested w d m 0" using assms(1-6) by (simp add: nested_def)
  from nested_acquires [OF this assms(7), of n E tid0 tryonly ev k] assms(8) obtain w1 where
    w1: "repeated n (pth_mutex_acquire E tid0 d m tryonly ev) (w, k) = Some (w1, k)" "nested w1 d m n" "natives w1 = natives w" by auto
  from nested_releases [of w1 d m "n - j" j E tid0 k] w1(2) assms(9) obtain w2 where
    w2: "repeated j (pth_mutex_release E tid0 d m) (w1, k) = Some (w2, k)" "nested w2 d m (n - j)" "natives w2 = natives w1" by auto
  have "locked w2 m \<longleftrightarrow> j < n" using w2(2) by (auto simp: nested_def split: if_splits)
  moreover from nested_other [OF w2(2) assms(10), of E tid1 ev' k] assms(11) w1(3) w2(3) obtain w3 where
    "pth_mutex_acquire E tid1 e m True ev' (w2, k) = Some (if n - j = 0 then 0 else EBUSY, w3, k)" by auto
  ultimately show ?thesis using w1(1) w2(1) assms(9) by (cases "j < n") auto
qed

theorem mutex_nested_witness:
  "\<exists>s s' w''. repeated 3 (pth_mutex_acquire idle_env 0 1 5 False False) (mw0\<lparr>mutexes := (\<lambda>_. a_mutex\<lparr>mx_type := PTH_MUTEX_RECURSIVE_NP\<rparr>)\<rparr>, ()) = Some s
     \<and> repeated 2 (pth_mutex_release idle_env 0 1 5) s = Some s' \<and> locked (fst s') 5
     \<and> pth_mutex_acquire idle_env 0 2 5 True False s' = Some (EBUSY, w'', ())"
  using mutex_nested [of "mw0\<lparr>mutexes := (\<lambda>_. a_mutex\<lparr>mx_type := PTH_MUTEX_RECURSIVE_NP\<rparr>)\<rparr>" 5 1 3 2 2 idle_env 0 False False "()" 0 False]
  by (simp add: private_mutex_def spin_free_def mw_defs mutex_flags)

subsection \<open>Release\<close>

lemma own_remove_thread [simp]:
  "boundnative (threads (own_remove t m w) u) = boundnative (threads w u)"
  "waited_native (threads (own_remove t m w) u) = waited_native (threads w u)"
  "sprio (threads (own_remove t m w) u) = sprio (threads w u)"
  by (simp_all add: own_remove_def split: prod.splits)

lemma mutex_drop_sel [simp]:
  "natives (mutex_drop t m w) = natives w" "elems (mutex_drop t m w) = elems w" "qw (mutex_drop t m w) = qw w"
  "pth_number_of_natives (mutex_drop t m w) = pth_number_of_natives w"
  "boundnative (threads (mutex_drop t m w) u) = boundnative (threads w u)"
  "waited_native (threads (mutex_drop t m w) u) = waited_native (threads w u)"
  "sprio (threads (mutex_drop t m w) u) = sprio (threads w u)"
  by (simp_all add: mutex_drop_def)

lemma mutex_drop_unlocked [simp]: "\<not> locked (mutex_drop t m w) m"
  by (simp add: mutex_drop_def mutex_flags)

lemma mx_release_sel [simp]:
  "natives (mx_release m w) = natives w" "elems (mx_release m w) = elems w" "qw (mx_release m w) = qw w"
  "threads (mx_release m w) = threads w" "locked (mx_release m w) x = locked w x" "sigpipe (mx_release m w) = sigpipe w"
  by (simp_all add: mx_release_def)

text \<open>
  The last release up to the hand-over: what \<open>mutex_handoff\<close> starts from.
\<close>

lemma release_to_handoff:
  assumes f: "spin_free w m" and p: "private_mutex w m" and t: "t = current (natives w d)"
    and own: "locked w m" "mx_owner (mutexes w m) = t" and one: "mx_count (mutexes w m) = 1"
  obtains w2 where "pth_mutex_release E tid0 d m (w, k) = map_option (\<lambda>w'. (0, w', k)) (mutex_handoff d m (mutex_drop t m w2))"
    "natives w2 = natives w" "elems w2 = elems w" "qw w2 = qw w" "threads w2 = threads w"
    "pth_number_of_natives w2 = pth_number_of_natives w"
proof -
  obtain w1 where w1: "mx_acquire m w = Some w1" using mx_acquire_free [OF f] by blast
  let ?w2 = "upd_mutex m (\<lambda>x. x\<lparr>mx_count := mx_count x - 1\<rparr>) w1"
  have f1: "natives w1 = natives w" "elems w1 = elems w" "qw w1 = qw w" "threads w1 = threads w"
    "pth_number_of_natives w1 = pth_number_of_natives w" "mx_count (mutexes w1 m) = 1"
    "\<not> pshared (mx_shared (mutexes w1 m))"
    using w1 one p by (auto simp: mx_acquire_def private_mutex_def)
  have "\<not> pshared (mx_shared (mutexes (mutex_drop t m ?w2) m))" using f1(7) by (simp add: mutex_drop_def)
  then have "pth_mutex_release E tid0 d m (w, k) = map_option (\<lambda>w'. (0, w', k)) (mutex_handoff d m (mutex_drop t m ?w2))"
    using own t w1 f1(6) by (simp add: pth_mutex_release_def Let_def)
  then show thesis using that [of ?w2] f1 by simp
qed

text \<open>
  C20.  When the owner releases a mutex for which threads wait on several natives, the thread
  that waits longest is moved from the wait queue of its native to the end of its priority in
  the ready queue, and the mutex is free.
\<close>

theorem release_wakes_longest:
  assumes "spin_free w m" and "private_mutex w m" and t: "t = current (natives w d)"
    and "locked w m" and "mx_owner (mutexes w m) = t" and "mx_count (mutexes w m) = 1"
    and n: "pth_number_of_natives w > 1" and wl: "waits (elems w) (MxWait m) (ts @ [u])"
    and u: "boundnative (threads w u) = 0" "waited_native (threads w u) = ds" "sprio (threads w u) = int p" "p < 140"
    and cur: "boundnative (threads w t) = 0"
    and q: "pqs_rep (qw w) S Q" "wq = wait_queue ds" "ds \<noteq> 0" "wq \<in> S" "pth_RQ \<in> S" "u \<in> set (Q wq i)" "i < 140"
    and free: "\<forall>q. pq_lock (pqueues (qw w) q) = 0" and fits: "Suc (\<Sum>k<140. length (Q pth_RQ k)) < 2 ^ 32"
  shows "\<exists>w'. pth_mutex_release E tid0 d m (w, k) = Some (0, w', k) \<and> \<not> locked w' m
     \<and> pqs_rep (qw w') S (Q(wq := (Q wq)(i := remove1 u (Q wq i)), pth_RQ := (Q pth_RQ)(p := Q pth_RQ p @ [u])))
     \<and> tstate (threads w' u) = PTH_STATE_READY"
proof -
  obtain w2 where w2: "pth_mutex_release E tid0 d m (w, k) = map_option (\<lambda>w'. (0, w', k)) (mutex_handoff d m (mutex_drop t m w2))"
    "natives w2 = natives w" "elems w2 = elems w" "qw w2 = qw w" "threads w2 = threads w"
    "pth_number_of_natives w2 = pth_number_of_natives w"
    using release_to_handoff [OF assms(1-6), of E tid0 k] by metis
  let ?w3 = "mutex_drop t m w2"
  have "wq \<noteq> pth_RQ" using q(2,3) by (simp add: queue_numbers)
  then have "\<exists>w4. make_ready ds u ?w3 = Some w4
     \<and> pqs_rep (qw w4) S (Q(wq := (Q wq)(i := remove1 u (Q wq i)), pth_RQ := (Q pth_RQ)(p := Q pth_RQ p @ [u])))
     \<and> tstate (threads w4 u) = PTH_STATE_READY \<and> waited_native (threads w4 u) = 0
     \<and> (\<forall>q. pq_lock (pqueues (qw w4) q) = 0)"
    using q u w2 free fits by (intro make_ready_rep) auto
  then obtain w4 where w4: "make_ready ds u ?w3 = Some w4"
    "pqs_rep (qw w4) S (Q(wq := (Q wq)(i := remove1 u (Q wq i)), pth_RQ := (Q pth_RQ)(p := Q pth_RQ p @ [u])))"
    "tstate (threads w4 u) = PTH_STATE_READY" by blast
  note same = make_ready_same [OF w4(1)]
  have b: "boundnative (threads w4 (current (natives w4 d))) = 0"
    using same w2 t cur by (auto simp: same_but_queues_def)
  have l: "\<not> locked w4 m" using msame_make_ready [OF w4(1)] mutex_drop_unlocked [of m t w2] by (simp add: msame_def)
  have "eprev (elems ?w3) (MxWait m) = Elem u" using waits_last [OF wl] w2 by simp
  then have "mutex_handoff d m ?w3 = Some (mx_release m w4)"
    using n w2 u w4(1) b q(3) by (simp add: mutex_handoff_def Let_def)
  with w2(1) w4(2,3) l show ?thesis by simp
qed

text \<open>Thread 2 waits for mutex 5 in the wait queue of native 2, at priority 4.\<close>

definition waiting_queues :: qworld where
  "waiting_queues = zero_qworld\<lparr>
     lnodes := (\<lambda>p. \<lparr>lnext = p, lprev = p\<rparr>)(PqHead 16 4 := \<lparr>lnext = NodeLn 2, lprev = NodeLn 2\<rparr>,
       NodeLn 2 := \<lparr>lnext = PqHead 16 4, lprev = PqHead 16 4\<rparr>),
     nodes := (nodes zero_qworld)(2 := \<lparr>bp = InPq 16, priority = 4, node_lt = node_lt_pqueue\<rparr>),
     pqueues := (pqueues zero_qworld)(16 := \<lparr>pq_total = 1, pq_bitmap = bitmap_set_bit (replicate BITMAP_SLOTS 0) 4, pq_lock = 0\<rparr>)\<rparr>"

definition waiting_in :: "nat \<Rightarrow> nat \<Rightarrow> nat list" where
  "waiting_in q i = (if q = 16 \<and> i = 4 then [2] else [])"

lemma waiting_queues_rep: "pqs_rep waiting_queues {0, 16} waiting_in"
proof -
  have s: "(\<Sum>i<140. length (waiting_in 16 i)) = 1"
  proof -
    have "(\<Sum>i<140. length (waiting_in 16 i)) = (\<Sum>i\<in>{4}. length (waiting_in 16 i))"
      by (rule sum.mono_neutral_right) (auto simp: waiting_in_def)
    then show ?thesis by (simp add: waiting_in_def)
  qed
  have z: "\<not> bitmap_test (replicate BITMAP_SLOTS 0) b" if "b < 160" for b
    using bitmap_zero_test [OF that, of "[]"] by (simp add: bitmap_zero_def)
  have "pq_rep waiting_queues 0 (waiting_in 0)"
    using z by (auto simp: pq_rep_def waiting_queues_def zero_qworld_def waiting_in_def lring_def const_defs)
  moreover have "pq_rep waiting_queues 16 (waiting_in 16)"
  proof -
    have "bitmap_test (bitmap_set_bit (replicate BITMAP_SLOTS 0) 4) i \<longleftrightarrow> i = 4" if "i < 160" for i
      using bitmap_test_set_bit [of 4 "replicate BITMAP_SLOTS 0" i] z [OF that] that by (auto simp: const_defs)
    then show ?thesis unfolding pq_rep_def s
      by (auto simp: waiting_queues_def zero_qworld_def waiting_in_def lring_def const_defs counts_def)
  qed
  ultimately show ?thesis by (simp add: pqs_rep_def)
qed

definition mw2 :: mworld where
  "mw2 = mw1\<lparr>threads := (threads mw1)(2 := a_thread\<lparr>waited_native := 2\<rparr>), pth_number_of_natives := 2,
     qw := waiting_queues, elems := pth_element_insert (Elem 2) (MxWait 5) (elems mw1)\<rparr>"

theorem release_wakes_longest_witness:
  "\<exists>w'. pth_mutex_release idle_env 1 1 5 (mw2, ()) = Some (0, w', ()) \<and> \<not> locked w' 5
     \<and> tstate (threads w' 2) = PTH_STATE_READY"
proof -
  have "waits (elems mw1) (MxWait 5) []" by (simp add: waits_def mw1_def mw0_def enext_def eprev_def)
  from waits_insert [OF this, of 2] have wl: "waits (elems mw2) (MxWait 5) ([] @ [2])" by (simp add: mw2_def)
  have "\<exists>w'. pth_mutex_release idle_env 1 1 5 (mw2, ()) = Some (0, w', ()) \<and> \<not> locked w' 5
     \<and> pqs_rep (qw w') {0, 16} (waiting_in(16 := (waiting_in 16)(4 := remove1 2 (waiting_in 16 4)),
          pth_RQ := (waiting_in pth_RQ)(4 := waiting_in pth_RQ 4 @ [2])))
     \<and> tstate (threads w' 2) = PTH_STATE_READY"
  proof (rule release_wakes_longest [where ds = 2 and wq = 16, OF _ _ _ _ _ _ _ wl])
    show "pqs_rep (qw mw2) {0, 16} waiting_in" using waiting_queues_rep by (simp add: mw2_def)
  qed (simp_all add: mw2_def mw1_def mw_defs mutex_flags spin_free_def private_mutex_def waiting_in_def queue_numbers
      waiting_queues_def zero_qworld_def)
  then show ?thesis by blast
qed

lemma ring_next_after_delete:
  assumes "ring_rep (r, h) (b # c # cs)" and "pth_ring_delete b (r, h) = (r', h')"
  shows "pth_ring_next (r', h') b = 0"
proof -
  have cy: "dcycle (rnext h) (rprev h) (b # c # cs)" and hook: "r_hook r = b"
    using assms(1) by (auto simp: ring_rep_def)
  have n: "rnext h b = c" using cy by simp
  have p: "rprev h b \<noteq> b" using dcycle_prev_self [OF cy] by simp
  have "rnext h' = (rnext h)(rprev h b := rnext h b)" "r_hook r' = c"
    using ring_delete_cells [of r b h] p assms(2) n hook by auto
  with n p show ?thesis by (simp add: pth_ring_next_def)
qed

definition simple_held :: "('a mworld_scheme) \<Rightarrow> nat \<Rightarrow> bool" where
  "simple_held w m \<longleftrightarrow> spin_free w m \<and> private_mutex w m \<and> mx_count (mutexes w m) = 1"

lemma release_simple:
  assumes "simple_held w m" and "t = current (natives w d)" and "locked w m \<and> mx_owner (mutexes w m) = t"
    and "pth_number_of_natives w \<le> 1"
  obtains w' where "pth_mutex_release E tid0 d m (w, k) = Some (0, w', k)" "msame (mutex_drop t m w) w'"
    "natives w' = natives w" "pth_number_of_natives w' = pth_number_of_natives w"
    "\<And>x. x \<noteq> m \<Longrightarrow> mutexes w' x = mutexes w x"
  using mutex_release_last [of w m t d E tid0 k] assms that by (auto simp: simple_held_def)

text \<open>
  \<open>pth_mutex_releaseall\<close> for the running thread releases \<open>mutex_owned\<close> and the
  first mutex of the ring only: a thread that has more than two mutexes keeps the others
  when it ends.
\<close>

theorem releaseall_keeps_mutexes:
  assumes o: "owns w R" and t: "t = current (natives w d)" "t \<noteq> 0" and n: "pth_number_of_natives w \<le> 1"
    and lk: "lock_thread t tid0 w = Some w1"
    and a: "mutex_owned (threads w t) = a" "a \<noteq> 0" and R: "R t = b # c # cs"
    and s: "\<forall>m\<in>set (a # R t). simple_held w m"
  shows "\<exists>w'. pth_mutex_releaseall E tid0 d t (w, k) = Some (w', k)
     \<and> \<not> locked w' a \<and> \<not> locked w' b \<and> locked w' c \<and> mx_owner (mutexes w' c) = t"
proof -
  note D = ownsD [OF o t(2)]
  have held: "locked w m \<and> mx_owner (mutexes w m) = t" if "m \<in> set (a # R t)" for m
    using D(3) [of m] that a owns_ring_nonzero [OF o t(2)] by (cases "m = 0") auto
  have d: "distinct (R t)" by (rule ring_rep_distinct [OF D(1)])
  have ab: "a \<noteq> b" "a \<noteq> c" "b \<noteq> c" using D(2) a(1) R d by auto
  have w1: "mutexes w1 = mutexes w" "natives w1 = natives w" "pth_number_of_natives w1 = pth_number_of_natives w"
    "mx_nodes w1 = mx_nodes w" "\<And>u. mutexring (threads w1 u) = mutexring (threads w u) \<and> mutex_owned (threads w1 u) = mutex_owned (threads w u)"
    using lk by (auto simp: lock_thread_def)
  have sa: "simple_held w1 a" using s w1 by (auto simp: simple_held_def spin_free_def private_mutex_def)
  obtain w2 where w2: "pth_mutex_release E tid0 d a (w1, k) = Some (0, w2, k)" "msame (mutex_drop t a w1) w2"
    "natives w2 = natives w1" "pth_number_of_natives w2 = pth_number_of_natives w1"
    "\<And>x. x \<noteq> a \<Longrightarrow> mutexes w2 x = mutexes w1 x"
    by (rule release_simple [OF sa, of t d E tid0 k]) (use held [of a] w1 t n in auto)
  have t2: "mutexring (threads w2 t) = mutexring (threads w t)" "mx_nodes w2 = mx_nodes w" "mutex_owned (threads w2 t) = 0"
    using w2(2) w1 a by (auto simp: msame_def mutex_drop_def own_remove_def)
  have sb: "simple_held w2 b" "locked w2 b \<and> mx_owner (mutexes w2 b) = t"
    using s held [of b] w1 w2(5) [of b] ab R by (auto simp: simple_held_def spin_free_def private_mutex_def)
  obtain w3 where w3: "pth_mutex_release E tid0 d b (w2, k) = Some (0, w3, k)" "msame (mutex_drop t b w2) w3"
    "\<And>x. x \<noteq> b \<Longrightarrow> mutexes w3 x = mutexes w2 x"
    by (rule release_simple [OF sb(1), of t d E tid0 k]) (use sb(2) w1 w2 t n in auto)
  obtain r h where rh: "pth_ring_delete b (mutexring (threads w t), mx_nodes w) = (r, h)" by fastforce
  have b0: "b \<noteq> 0" using owns_ring_nonzero [OF o t(2)] R by auto
  have t3: "mutexring (threads w3 t) = r" "mx_nodes w3 = h" "mx_count (mutexes w3 b) = 0"
    using w3(2) t2 rh b0 by (auto simp: msame_def mutex_drop_def own_remove_def)
  have "pth_ring_next (r, h) b = 0" using ring_next_after_delete [OF D(1) [unfolded R] rh] .
  then have "releaseall_loop E tid0 d t b b (w2, k) = Some (w3, k)"
    using w3(1) t3 b0 by (subst releaseall_loop.simps) simp
  moreover have "pth_ring_first (mutexring (threads w2 t)) = b"
    using t2(1) D(1) R by (auto simp: ring_rep_def pth_ring_first_def)
  ultimately have "pth_mutex_releaseall E tid0 d t (w, k) = Some (unlock_thread t tid0 w3, k)"
    using lk w2(1) w1(5) a t(2) by (simp add: pth_mutex_releaseall_def)
  moreover have "\<not> locked w3 a" "\<not> locked w3 b"
    using w3(2,3) w2(2) ab mutex_drop_unlocked [of a t w1] mutex_drop_unlocked [of b t w2] by (simp_all add: msame_def)
  moreover have "locked w3 c" "mx_owner (mutexes w3 c) = t" using held [of c] w1 w2(5) w3(3) ab R by auto
  ultimately show ?thesis by (simp add: unlock_thread_def)
qed

text \<open>Thread 1 has the mutexes 5, 6 and 7.\<close>

definition mw3 :: mworld where
  "mw3 = mutex_take 1 1 7 (mutex_take 1 1 6 (mutex_take 1 1 5 mw0))"

lemma mw3_owns: "owns mw3 ((\<lambda>_. [])(1 := [6, 7]))"
proof -
  let ?w1 = "mutex_take 1 1 5 mw0" and ?w2 = "mutex_take 1 1 6 (mutex_take 1 1 5 mw0)"
  have o0: "owns mw0 (\<lambda>_. [])" by (rule ownsI) (auto simp: mw_defs ring_rep_init mutex_flags)
  have a: "addr_ok mw0" "addr_ok ?w1" "addr_ok ?w2"
    by (auto simp: addr_ok_def mw_defs mutex_flags mutex_take_def split: if_splits)
  have o: "mutex_owned (threads mw0 1) = 0" "mutex_owned (threads ?w1 1) = 5" "mutex_owned (threads ?w2 1) = 5"
    by (simp_all add: mw_defs mutex_take_def own_add_def split: prod.splits)
  have l: "\<not> locked mw0 5" "\<not> locked ?w1 6" "\<not> locked ?w2 7"
    by (simp_all add: mw_defs mutex_take_def mutex_flags)
  have o1: "owns ?w1 (\<lambda>_. [])" using mutex_take_owns [OF o0 a(1), of 1 5 1] l(1) o(1) by (simp add: fun_upd_idem)
  have o2: "owns ?w2 ((\<lambda>_. [])(1 := [6]))" using mutex_take_owns [OF o1 a(2), of 1 6 1] l(2) o(2) by simp
  show ?thesis using mutex_take_owns [OF o2 a(3), of 1 7 1] l(3) o(3) by (simp add: mw3_def)
qed

theorem releaseall_keeps_mutexes_witness:
  "\<exists>w'. pth_mutex_releaseall idle_env 1 1 1 (mw3, ()) = Some (w', ()) \<and> \<not> locked w' 5 \<and> \<not> locked w' 6 \<and> locked w' 7"
proof -
  have f: "mutex_owned (threads mw3 1) = 5" "tlock (threads mw3 1) = free_lock" "natives mw3 = natives mw0"
    "pth_number_of_natives mw3 = 1"
    by (simp_all add: mw3_def mw_defs mutex_take_def own_add_def split: prod.splits)
  have m: "simple_held mw3 x" if "x \<in> {5, 6, 7}" for x
    using that by (auto simp: simple_held_def spin_free_def private_mutex_def mw3_def mw_defs mutex_take_def mutex_flags)
  have "\<exists>w1. lock_thread 1 1 mw3 = Some w1"
    by (simp add: lock_thread_def f pth_acquire_lock_def free_lock_def spin_lock_def test_and_set_def del: One_nat_def)
  then obtain w1 where "lock_thread 1 1 mw3 = Some w1" ..
  from releaseall_keeps_mutexes [OF mw3_owns _ _ _ this, of 1 5 6 7 "[]" idle_env "()"] f m show ?thesis
    by (auto simp: mw0_def a_native_def)
qed

text \<open>
  \<open>pth_mutex_releaseall\<close> for another thread (\<open>pth_abort\<close> calls it so) does not
  return if that thread has two mutexes: the release fails with EPERM, and the loop tries
  the same mutex again because its count is not 0.
\<close>

theorem releaseall_other_diverges:
  assumes o: "owns w R" and t: "t \<noteq> current (natives w d)" "t \<noteq> 0"
    and lk: "lock_thread t tid0 w = Some w1"
    and a: "mutex_owned (threads w t) = a" "a \<noteq> 0" and R: "R t = b # cs"
    and s: "\<forall>m\<in>set (a # R t). simple_held w m"
  shows "pth_mutex_releaseall E tid0 d t (w, k) = None"
proof -
  note D = ownsD [OF o t(2)]
  have held: "locked w m \<and> mx_owner (mutexes w m) = t" if "m \<in> set (a # R t)" for m
    using D(3) [of m] that a owns_ring_nonzero [OF o t(2)] by (cases "m = 0") auto
  have w1: "mutexes w1 = mutexes w" "natives w1 = natives w" "mutex_owned (threads w1 t) = a"
    "mutexring (threads w1 t) = mutexring (threads w t)"
    using lk a(1) by (auto simp: lock_thread_def)
  have hook: "pth_ring_first (mutexring (threads w1 t)) = b" "b \<noteq> 0"
    using w1(4) D(1) R by (auto simp: ring_rep_def pth_ring_first_def)
  have "pth_mutex_release E tid0 d a (w1, k) = Some (EPERM, w1, k)"
    using held [of a] w1 t(1) by (simp add: pth_mutex_release_def Let_def)
  moreover have "releaseall_loop E tid0 d t b b (w1, k) = None"
    by (rule releaseall_loop_stuck)
      (use held [of b] s R w1 t(1) hook(2) in \<open>auto simp: simple_held_def private_mutex_def\<close>)
  ultimately show ?thesis using lk w1(3) a(2) t(2) hook by (simp add: pth_mutex_releaseall_def)
qed

theorem releaseall_other_diverges_witness:
  "pth_mutex_releaseall idle_env 2 2 1 (mw3, ()) = None"
proof -
  have f: "mutex_owned (threads mw3 1) = 5" "tlock (threads mw3 1) = free_lock" "natives mw3 = natives mw0"
    by (simp_all add: mw3_def mw_defs mutex_take_def own_add_def split: prod.splits)
  have m: "simple_held mw3 x" if "x \<in> {5, 6, 7}" for x
    using that by (auto simp: simple_held_def spin_free_def private_mutex_def mw3_def mw_defs mutex_take_def mutex_flags)
  have "\<exists>w1. lock_thread 1 2 mw3 = Some w1"
    by (simp add: lock_thread_def f pth_acquire_lock_def free_lock_def spin_lock_def test_and_set_def del: One_nat_def)
  then obtain w1 where "lock_thread 1 2 mw3 = Some w1" ..
  from releaseall_other_diverges [OF mw3_owns _ _ this, of 2 5 6 "[7]" idle_env "()"] f m show ?thesis
    by (auto simp: mw0_def a_native_def)
qed

text \<open>
  The acquisition of a shared mutex compares the result of \<open>futex_acquire\<close> with -1
  only, but the errors are negative error numbers: if the kernel refuses the futex call with
  another error, the caller is told that it has the mutex, while the futex belongs to
  another process.
\<close>

theorem shared_acquire_ignores_error:
  assumes "spin_free w m" and "\<not> locked w m" and "mx_waitcount (mutexes w m) = 0"
    and "fcount (mutex_futex m w) < 0"
    and "e_futex E = (\<lambda>op v s. (- e, s))" and "e > 1"
  shows "\<exists>w'. pth_shared_mutex_acquire E d m tryonly ev (w, k) = Some (0, w', k) \<and> locked w' m
     \<and> mx_owner (mutexes w' m) = current (natives w d) \<and> mutex_futex m w' = mutex_futex m w"
proof -
  obtain w1 where w1: "mx_acquire m w = Some w1" using mx_acquire_free [OF assms(1)] by blast
  have rel: "mx_release m w1 = w" by (rule mx_release_acquire [OF assms(1) w1])
  have fut: "mutex_futex_acquire E m w k = (- e, w, k)"
    using assms(4-6) by (simp add: mutex_futex_acquire_def futex_acquire_def futex_trydown_def futex_down_i386_def
        futex_await_def Let_def const_defs set_mutex_futex_def mutex_futex_def upd_mutex_def)
  have st: "\<not> locked w1 m" "mx_waitcount (mutexes w1 m) = 0" "mx_shared (mutexes w1 m) = mx_shared (mutexes w m)"
    "natives w1 = natives w" using w1 assms(2,3) by (auto simp: mx_acquire_def)
  show ?thesis using w1 rel fut st assms(6)
    by (simp add: pth_shared_mutex_acquire_def Let_def) (simp add: mx_release_def mutex_take_def mutex_flags mutex_futex_def)
qed

theorem shared_acquire_ignores_error_witness:
  "\<exists>w'. pth_shared_mutex_acquire idle_env 1 5 False False (set_mutex_futex 5 \<lparr>fcount = -1\<rparr> mw0, ()) = Some (0, w', ())
     \<and> locked w' 5"
  using shared_acquire_ignores_error [of "set_mutex_futex 5 \<lparr>fcount = -1\<rparr> mw0" 5 idle_env 38 1 False False "()"]
  by (auto simp: spin_free_def set_mutex_futex_def mutex_futex_def mw_defs mutex_flags idle_env_def)

text \<open>
  A thread that gives up waiting for a mutex because its other event came first stays in
  the list of waiting threads; when the mutex is released, the waiting list still hands it
  over to this thread, which does not wait any more: no thread is woken.
\<close>

theorem timed_wait_stays_in_list:
  assumes "waits (elems w) (MxWait m) (ts @ [t])" and "e_wait E (mx_release m w) k = (False, d', w', k')"
    and "elems w' = elems w"
  shows "mutex_wait E t m True (w, k) = Some (EINTR, w', k') \<and> waits (elems w') (MxWait m) (ts @ [t])
     \<and> (boundnative (threads w' t) = 0 \<and> waited_native (threads w' t) = 0 \<and> boundnative (threads w' (current (natives w' d))) = 0
          \<longrightarrow> mutex_handoff d m w' = Some (mx_release m w'))"
proof -
  have "mutex_wait E t m True (w, k) = Some (EINTR, w', k')" using assms(2) by (subst mutex_wait.simps) simp
  moreover have "eprev (elems w') (MxWait m) = Elem t" using waits_last [OF assms(1)] assms(3) by simp
  ultimately show ?thesis using assms(1,3) by (simp add: mutex_handoff_def Let_def)
qed

theorem timed_wait_stays_in_list_witness:
  "mutex_wait idle_env 2 5 True (mw2, ()) = Some (EINTR, mx_release 5 mw2, ())
   \<and> waits (elems (mx_release 5 mw2)) (MxWait 5) ([] @ [2])"
proof -
  have "waits (elems mw1) (MxWait 5) []" by (simp add: waits_def mw1_def mw0_def enext_def eprev_def)
  from waits_insert [OF this, of 2] have wl: "waits (elems mw2) (MxWait 5) ([] @ [2])" by (simp add: mw2_def)
  from timed_wait_stays_in_list [OF wl, of idle_env "()" 1 "mx_release 5 mw2" "()" 1] show ?thesis
    by (simp add: idle_env_def)
qed

end
