(* ===== verification/Event.thy ===== *)
theory Event
  imports MutexProps Keys
begin

text \<open>
  pth_event.c: events, the rings they are linked into, the keys under which a thread keeps
  its static events, and \<open>pth_wait\<close>.

  An event is a number, \<open>0\<close> is NULL.  The variable arguments of \<open>pth_event\<close> are a list
  of values that the function takes from the front; \<open>None\<close> is an argument of the wrong
  type or a missing one, a key out of range, a lock that is not obtained, or a loop over
  links that do not close.  Memory comes from the parameter \<open>mem\<close> (\<open>0\<close> if there is
  none), and \<open>pth_yield (NULL)\<close> and \<open>pth_cancel_point (FALSE)\<close>, which run other
  threads, are parameters too.

  Rings: \<open>evring h xs\<close> says that the events \<open>xs\<close> are linked into a ring.
  Concatenation, isolation and deallocation are shown to be the list operations on the rings,
  and isolating the first event undoes its concatenation with a ring, which is what the waiting
  functions rely on when they put the caller's events behind their own.
\<close>

definition PTH_EVENT_FD :: u32 where "PTH_EVENT_FD = BIT 1"
definition PTH_EVENT_SELECT :: u32 where "PTH_EVENT_SELECT = BIT 2"
definition PTH_EVENT_SIGS :: u32 where "PTH_EVENT_SIGS = BIT 3"
definition PTH_EVENT_TIME :: u32 where "PTH_EVENT_TIME = BIT 4"
definition PTH_EVENT_MSG :: u32 where "PTH_EVENT_MSG = BIT 5"
definition PTH_EVENT_MUTEX :: u32 where "PTH_EVENT_MUTEX = BIT 6"
definition PTH_EVENT_COND :: u32 where "PTH_EVENT_COND = BIT 7"
definition PTH_EVENT_TID :: u32 where "PTH_EVENT_TID = BIT 8"
definition PTH_EVENT_FUNC :: u32 where "PTH_EVENT_FUNC = BIT 9"
definition PTH_EVENT_TIME_SIGS :: u32 where "PTH_EVENT_TIME_SIGS = BIT 10"

definition PTH_UNTIL_OCCURRED :: u32 where "PTH_UNTIL_OCCURRED = BIT 11"
definition PTH_UNTIL_FD_READABLE :: u32 where "PTH_UNTIL_FD_READABLE = BIT 12"
definition PTH_UNTIL_FD_WRITEABLE :: u32 where "PTH_UNTIL_FD_WRITEABLE = BIT 13"
definition PTH_UNTIL_FD_EXCEPTION :: u32 where "PTH_UNTIL_FD_EXCEPTION = BIT 14"
definition PTH_UNTIL_TID_NEW :: u32 where "PTH_UNTIL_TID_NEW = BIT 15"
definition PTH_UNTIL_TID_READY :: u32 where "PTH_UNTIL_TID_READY = BIT 16"
definition PTH_UNTIL_TID_WAITING :: u32 where "PTH_UNTIL_TID_WAITING = BIT 17"
definition PTH_UNTIL_TID_DEAD :: u32 where "PTH_UNTIL_TID_DEAD = BIT 18"

definition PTH_MODE_REUSE :: u32 where "PTH_MODE_REUSE = BIT 20"
definition PTH_MODE_CHAIN :: u32 where "PTH_MODE_CHAIN = BIT 21"
definition PTH_MODE_STATIC :: u32 where "PTH_MODE_STATIC = BIT 22"

definition PTH_WALK_NEXT :: u32 where "PTH_WALK_NEXT = BIT 1"
definition PTH_WALK_PREV :: u32 where "PTH_WALK_PREV = BIT 2"

definition PTH_KEY_INIT :: int where "PTH_KEY_INIT = -1"
definition PTH_EVENT_KEY_MAX :: nat where "PTH_EVENT_KEY_MAX = 16"

lemmas event_flags = PTH_EVENT_FD_def PTH_EVENT_SELECT_def PTH_EVENT_SIGS_def PTH_EVENT_TIME_def PTH_EVENT_MSG_def
  PTH_EVENT_MUTEX_def PTH_EVENT_COND_def PTH_EVENT_TID_def PTH_EVENT_FUNC_def PTH_EVENT_TIME_SIGS_def
  PTH_UNTIL_OCCURRED_def PTH_UNTIL_FD_READABLE_def PTH_UNTIL_FD_WRITEABLE_def PTH_UNTIL_FD_EXCEPTION_def
  PTH_UNTIL_TID_NEW_def PTH_UNTIL_TID_READY_def PTH_UNTIL_TID_WAITING_def PTH_UNTIL_TID_DEAD_def
  PTH_MODE_REUSE_def PTH_MODE_CHAIN_def PTH_MODE_STATIC_def PTH_WALK_NEXT_def PTH_WALK_PREV_def

lemmas event_consts [const_defs] = PTH_KEY_INIT_def PTH_EVENT_KEY_MAX_def

text \<open>The union \<open>ev_args\<close>.\<close>

datatype ev_args =
    FD int
  | SELECT nat int nat nat nat
  | SIGS nat nat
  | TIME pth_time_t
  | MSG nat
  | MUTEX nat
  | COND nat
  | TID nat
  | FUNC nat nat pth_time_t

record pth_event_st =
  ev_next :: nat
  ev_prev :: nat
  ev_occurred :: bool
  ev_type :: u32
  ev_goal :: u32
  ev_flags :: int
  ev_args :: ev_args

type_synonym evheap = "nat \<Rightarrow> pth_event_st"

text \<open>
  \<open>ev_freed\<close> records the events given to \<open>pth_free_mem\<close>; \<open>ev_vars\<close> are the key
  variables \<open>static pth_key_t ev_key\<close> of the functions that wait.
\<close>

record eworld = mworld +
  ev_heap :: evheap
  ev_freed :: "nat list"
  ev_keytab :: "pth_keytab_st list"
  ev_lock :: pth_qlock_st
  ev_vars :: "nat \<Rightarrow> int"

definition upd_event :: "nat \<Rightarrow> (pth_event_st \<Rightarrow> pth_event_st) \<Rightarrow> evheap \<Rightarrow> evheap" where
  "upd_event e f h = h(e := f (h e))"

abbreviation upd_ev :: "nat \<Rightarrow> (pth_event_st \<Rightarrow> pth_event_st) \<Rightarrow> ('a eworld_scheme) \<Rightarrow> ('a eworld_scheme)" where
  "upd_ev e f w \<equiv> w\<lparr>ev_heap := upd_event e f (ev_heap w)\<rparr>"

definition evnext :: "evheap \<Rightarrow> nat \<Rightarrow> nat" where "evnext h e = ev_next (h e)"
definition evprev :: "evheap \<Rightarrow> nat \<Rightarrow> nat" where "evprev h e = ev_prev (h e)"

definition set_ev_next :: "nat \<Rightarrow> nat \<Rightarrow> evheap \<Rightarrow> evheap" where
  "set_ev_next e x h = upd_event e (\<lambda>s. s\<lparr>ev_next := x\<rparr>) h"

definition set_ev_prev :: "nat \<Rightarrow> nat \<Rightarrow> evheap \<Rightarrow> evheap" where
  "set_ev_prev e x h = upd_event e (\<lambda>s. s\<lparr>ev_prev := x\<rparr>) h"

interpretation evl: dlinks evnext evprev set_ev_next set_ev_prev
  by unfold_locales (auto simp: evnext_def evprev_def set_ev_next_def set_ev_prev_def upd_event_def)

definition evring :: "evheap \<Rightarrow> nat list \<Rightarrow> bool" where
  "evring h xs \<longleftrightarrow> dcycle (evnext h) (evprev h) xs"

subsection \<open>Rings of events\<close>

text \<open>The loop of \<open>pth_event_concat\<close>; the result is the last event \<open>evc\<close>.\<close>

fun concat_rings :: "nat \<Rightarrow> nat list \<Rightarrow> evheap \<Rightarrow> nat \<times> evheap" where
  "concat_rings evc [] h = (evc, h)"
| "concat_rings evc (evn # evs) h =
     (if evn = 0 then (evc, h)
      else let h1 = set_ev_next evc evn h;
               evt = evprev h1 evn;
               h2 = set_ev_prev evn evc h1
           in concat_rings evt evs h2)"

definition pth_event_concat :: "nat \<Rightarrow> nat list \<Rightarrow> evheap \<Rightarrow> nat \<times> evheap" where
  "pth_event_concat evf evs h =
     (if evf = 0 then (0, h)
      else let evl = evnext h evf;
               (evc, h1) = concat_rings evf evs h;
               h2 = set_ev_next evc evl h1
           in (evf, set_ev_prev evl evc h2))"

definition pth_event_isolate :: "nat \<Rightarrow> evheap \<Rightarrow> nat \<times> evheap" where
  "pth_event_isolate ev h =
     (if ev = 0 then (0, h)
      else if \<not> (evnext h ev = ev \<and> evprev h ev = ev) then
        let ring = evnext h ev;
            h1 = set_ev_next (evprev h ev) (evnext h ev) h;
            h2 = set_ev_prev (evnext h1 ev) (evprev h1 ev) h1;
            h3 = set_ev_prev ev ev h2
        in (ring, set_ev_next ev ev h3)
      else (0, h))"

definition pth_event_occurred :: "nat \<Rightarrow> evheap \<Rightarrow> bool" where
  "pth_event_occurred ev h = (if ev = 0 then False else ev_occurred (h ev))"

partial_function (option) pth_event_walk :: "nat \<Rightarrow> u32 \<Rightarrow> evheap \<Rightarrow> nat option" where
  [code]: "pth_event_walk ev direction h =
     (if ev = 0 then Some 0
      else if \<not> has direction PTH_WALK_NEXT \<and> \<not> has direction PTH_WALK_PREV then Some 0
      else let ev1 = (if has direction PTH_WALK_NEXT then evnext h ev else evprev h ev)
           in if has direction PTH_UNTIL_OCCURRED \<and> \<not> ev_occurred (h ev1) then pth_event_walk ev1 direction h
              else Some ev1)"

datatype free_mode = PTH_FREE_THIS | PTH_FREE_ALL

text \<open>The loop over the whole ring; the memory of an event keeps its contents.\<close>

partial_function (option) free_ring :: "nat \<Rightarrow> nat \<Rightarrow> ('a eworld_scheme) \<Rightarrow> ('a eworld_scheme) option" where
  [code]: "free_ring ev evc w =
     (let evn = evnext (ev_heap w) evc; w1 = w\<lparr>ev_freed := ev_freed w @ [evc]\<rparr>
      in if evn = ev then Some w1 else free_ring ev evn w1)"

definition pth_event_free :: "nat \<Rightarrow> free_mode \<Rightarrow> ('a eworld_scheme) \<Rightarrow> (bool \<times> ('a eworld_scheme)) option" where
  "pth_event_free ev mode w =
     (if ev = 0 then Some (False, w)
      else case mode of
        PTH_FREE_THIS \<Rightarrow>
          (let h = ev_heap w;
               h1 = set_ev_next (evprev h ev) (evnext h ev) h;
               h2 = set_ev_prev (evnext h1 ev) (evprev h1 ev) h1
           in Some (True, w\<lparr>ev_heap := h2, ev_freed := ev_freed w @ [ev]\<rparr>))
      | PTH_FREE_ALL \<Rightarrow> map_option (Pair True) (free_ring ev ev w))"

definition pth_event_destructor :: "nat \<Rightarrow> ('a eworld_scheme) \<Rightarrow> ('a eworld_scheme) option" where
  "pth_event_destructor vp w = map_option snd (pth_event_free vp PTH_FREE_THIS w)"
subsection \<open>Keys of static events\<close>

text \<open>\<open>__pth_event_key_create\<close>: the key, or none.\<close>

definition pth_event_key_create :: "nat \<Rightarrow> ('a eworld_scheme) \<Rightarrow> nat option \<times> ('a eworld_scheme)" where
  "pth_event_key_create func w =
     (case find (\<lambda>k. \<not> used (ev_keytab w ! k)) [0..<PTH_EVENT_KEY_MAX] of
        Some k \<Rightarrow> (Some k, w\<lparr>ev_keytab := (ev_keytab w)[k := \<lparr>used = True, destructor = func\<rparr>]\<rparr>)
      | None \<Rightarrow> (None, w))"

definition pth_event_key_getdata :: "nat \<Rightarrow> int \<Rightarrow> ('a eworld_scheme) \<Rightarrow> nat option" where
  "pth_event_key_getdata cur key w =
     (if key \<ge> int PTH_EVENT_KEY_MAX then Some 0
      else if key < 0 then None
      else if \<not> used (ev_keytab w ! nat key) then Some 0
      else Some (case event_data (threads w cur) of None \<Rightarrow> 0 | Some vs \<Rightarrow> vs ! nat key))"

text \<open>What is allocated; \<open>mem r w\<close> is the address that \<open>pth_malloc\<close> returns.\<close>

datatype ev_request = EventMem | DataMem

definition pth_event_key_setdata ::
  "(ev_request \<Rightarrow> ('a eworld_scheme) \<Rightarrow> nat) \<Rightarrow> nat \<Rightarrow> int \<Rightarrow> nat \<Rightarrow> ('a eworld_scheme) \<Rightarrow> (int \<times> ('a eworld_scheme)) option" where
  "pth_event_key_setdata mem cur key value w =
     (if key \<ge> int PTH_EVENT_KEY_MAX then Some (EINVAL, w)
      else if key < 0 then None
      else if \<not> used (ev_keytab w ! nat key) then Some (EINVAL, w)
      else if event_data (threads w cur) = None \<and> mem DataMem w = 0 then Some (ENOMEM, w)
      else let vs = (case event_data (threads w cur) of None \<Rightarrow> replicate PTH_EVENT_KEY_MAX 0 | Some vs \<Rightarrow> vs);
               old = vs ! nat key;
               c = event_count (threads w cur);
               c1 = (if old = 0 then (if value \<noteq> 0 then c + 1 else c) else (if value = 0 then c - 1 else c))
           in Some (0, upd_thread cur (\<lambda>x. x\<lparr>event_data := Some (vs[nat key := value]), event_count := c1\<rparr>) w))"

text \<open>The loop of \<open>pth_event_key_destroy\<close>; \<open>pth_event_destructor\<close> is the only destructor in the table.\<close>

fun destroy_event_keys :: "nat \<Rightarrow> nat list \<Rightarrow> ('a eworld_scheme) \<Rightarrow> ('a eworld_scheme) option" where
  "destroy_event_keys t [] w = Some w"
| "destroy_event_keys t (key # keys) w =
     (if used (ev_keytab w ! key) then
        do { vs \<leftarrow> event_data (threads w t);
             if vs ! key \<noteq> 0 then
               do { let w1 = upd_thread t (\<lambda>x. x\<lparr>event_data := Some (vs[key := 0]), event_count := event_count x - 1\<rparr>) w;
                    w2 \<leftarrow> (if destructor (ev_keytab w1 ! key) \<noteq> 0 then pth_event_destructor (vs ! key) w1 else Some w1);
                    if event_count (threads w2 t) = 0 then Some w2 else destroy_event_keys t keys w2 }
             else destroy_event_keys t keys w }
      else destroy_event_keys t keys w)"

definition pth_event_key_destroy :: "nat \<Rightarrow> ('a eworld_scheme) \<Rightarrow> ('a eworld_scheme) option" where
  "pth_event_key_destroy t w =
     do { w1 \<leftarrow> (if event_count (threads w t) > 0 then destroy_event_keys t [0..<PTH_EVENT_KEY_MAX] w else Some w);
          Some (upd_thread t (\<lambda>x. x\<lparr>event_data := None\<rparr>) w1) }"

subsection \<open>Construction\<close>

datatype va = VInt int | VPtr nat | VTime pth_time_t

fun va_int :: "va list \<Rightarrow> (int \<times> va list) option" where
  "va_int (VInt i # ap) = Some (i, ap)" | "va_int _ = None"

fun va_ptr :: "va list \<Rightarrow> (nat \<times> va list) option" where
  "va_ptr (VPtr p # ap) = Some (p, ap)" | "va_ptr _ = None"

fun va_time :: "va list \<Rightarrow> (pth_time_t \<times> va list) option" where
  "va_time (VTime t # ap) = Some (t, ap)" | "va_time _ = None"

definition lock_events :: "nat \<Rightarrow> ('a eworld_scheme) \<Rightarrow> ('a eworld_scheme) option" where
  "lock_events lk w = map_option (\<lambda>l. w\<lparr>ev_lock := l\<rparr>) (pth_acquire_lock lk (ev_lock w))"

definition unlock_events :: "nat \<Rightarrow> ('a eworld_scheme) \<Rightarrow> ('a eworld_scheme)" where
  "unlock_events lk w = w\<lparr>ev_lock := snd (pth_release_lock lk (ev_lock w))\<rparr>"

text \<open>The static event of thread \<open>cur\<close> under the key variable \<open>kv\<close>.\<close>

definition static_event ::
  "(ev_request \<Rightarrow> ('a eworld_scheme) \<Rightarrow> nat) \<Rightarrow> nat \<Rightarrow> nat \<Rightarrow> nat \<Rightarrow> ('a eworld_scheme) \<Rightarrow> (nat \<times> ('a eworld_scheme)) option" where
  "static_event mem lk cur kv w =
     do { w1 \<leftarrow> lock_events lk w;
          let (made, w2) = (if ev_vars w1 kv = PTH_KEY_INIT
                            then case pth_event_key_create 1 w1 of
                                   (Some k, w2) \<Rightarrow> (True, w2\<lparr>ev_vars := (ev_vars w2)(kv := int k)\<rparr>)
                                 | (None, w2) \<Rightarrow> (False, w2)
                            else (True, w1));
          if \<not> made then (let w3 = unlock_events lk w2 in Some (mem EventMem w3, w3))
          else do { ev \<leftarrow> pth_event_key_getdata cur (ev_vars w2 kv) w2;
                    if ev = 0 then
                      do { let ev1 = mem EventMem w2;
                           (_, w3) \<leftarrow> pth_event_key_setdata mem cur (ev_vars w2 kv) ev1 w2;
                           Some (ev1, unlock_events lk w3) }
                    else Some (ev, unlock_events lk w2) } }"

text \<open>Linking the event \<open>ev\<close> before \<open>ch\<close>.\<close>

definition chain_event :: "nat \<Rightarrow> nat \<Rightarrow> evheap \<Rightarrow> evheap" where
  "chain_event ev ch h =
     (let h1 = set_ev_prev ev (evprev h ch) h;
          h2 = set_ev_next ev ch h1;
          h3 = set_ev_next (evprev h2 ev) ev h2
      in set_ev_prev (evnext h3 ev) ev h3)"

text \<open>The type, goal, flags and arguments by \<open>spec\<close>; \<open>Some None\<close> is no known event.\<close>

definition state_num :: "pth_state \<Rightarrow> u32" where
  "state_num st = (case st of PTH_STATE_SCHEDULER \<Rightarrow> 0 | PTH_STATE_NEW \<Rightarrow> 1 | PTH_STATE_READY \<Rightarrow> 2 | PTH_STATE_WAITING \<Rightarrow> 3
     | PTH_STATE_MUTEX_WAITING \<Rightarrow> 4 | PTH_STATE_DEAD \<Rightarrow> 5 | PTH_STATE_EXIT \<Rightarrow> 6)"

definition tid_goal :: "u32 \<Rightarrow> u32" where
  "tid_goal spec = state_num
     (if has spec PTH_UNTIL_TID_NEW then PTH_STATE_NEW
      else if has spec PTH_UNTIL_TID_READY then PTH_STATE_READY
      else if has spec PTH_UNTIL_TID_WAITING then PTH_STATE_WAITING
      else if has spec PTH_UNTIL_TID_DEAD then PTH_STATE_DEAD
      else PTH_STATE_READY)"

definition event_ingredients :: "u32 \<Rightarrow> va list \<Rightarrow> (u32 \<times> u32 \<times> int \<times> ev_args) option option" where
  "event_ingredients spec ap =
     (let until = spec AND PTH_UNTIL_OCCURRED
      in if has spec PTH_EVENT_MUTEX then
           do { (m, _) \<leftarrow> va_ptr ap; Some (Some (PTH_EVENT_MUTEX, until, 0, MUTEX m)) }
         else if has spec PTH_EVENT_FD then
           do { (fd, _) \<leftarrow> va_int ap;
                Some (Some (PTH_EVENT_FD,
                  spec AND (PTH_UNTIL_FD_READABLE OR PTH_UNTIL_FD_WRITEABLE OR PTH_UNTIL_FD_EXCEPTION), 0, FD fd)) }
         else if has spec PTH_EVENT_SELECT then
           do { (n, ap1) \<leftarrow> va_ptr ap; (nfd, ap2) \<leftarrow> va_int ap1; (rfds, ap3) \<leftarrow> va_ptr ap2; (wfds, ap4) \<leftarrow> va_ptr ap3;
                (efds, _) \<leftarrow> va_ptr ap4;
                Some (Some (PTH_EVENT_SELECT, until, 0, SELECT n nfd rfds wfds efds)) }
         else if has spec PTH_EVENT_SIGS \<or> has spec PTH_EVENT_TIME_SIGS then
           do { (sigs, ap1) \<leftarrow> va_ptr ap; (sig, ap2) \<leftarrow> va_ptr ap1; (flag, _) \<leftarrow> va_int ap2;
                Some (Some (if has spec PTH_EVENT_TIME_SIGS then PTH_EVENT_TIME_SIGS else PTH_EVENT_SIGS, until, flag, SIGS sigs sig)) }
         else if has spec PTH_EVENT_TIME then
           do { (tv, _) \<leftarrow> va_time ap; Some (Some (PTH_EVENT_TIME, until, 0, TIME tv)) }
         else if has spec PTH_EVENT_MSG then
           do { (mp, _) \<leftarrow> va_ptr ap; Some (Some (PTH_EVENT_MSG, until, 0, MSG mp)) }
         else if has spec PTH_EVENT_COND then
           do { (c, _) \<leftarrow> va_ptr ap; Some (Some (PTH_EVENT_COND, until, 0, COND c)) }
         else if has spec PTH_EVENT_TID then
           do { (t, _) \<leftarrow> va_ptr ap; Some (Some (PTH_EVENT_TID, tid_goal spec, 0, TID t)) }
         else if has spec PTH_EVENT_FUNC then
           do { (f, ap1) \<leftarrow> va_ptr ap; (arg, ap2) \<leftarrow> va_ptr ap1; (tv, _) \<leftarrow> va_time ap2;
                Some (Some (PTH_EVENT_FUNC, until, 0, FUNC f arg tv)) }
         else Some None)"

text \<open>\<open>lk\<close> is the native thread id of the caller and \<open>cur\<close> the current thread.\<close>

text \<open>The event to initialise, and the arguments left.\<close>

definition event_place ::
  "(ev_request \<Rightarrow> ('a eworld_scheme) \<Rightarrow> nat) \<Rightarrow> nat \<Rightarrow> nat \<Rightarrow> u32 \<Rightarrow> va list \<Rightarrow> ('a eworld_scheme)
     \<Rightarrow> (nat \<times> va list \<times> ('a eworld_scheme)) option" where
  "event_place mem lk cur spec ap w =
     (if has spec PTH_MODE_STATIC then
        do { (kv, ap1) \<leftarrow> va_ptr ap; (ev, w1) \<leftarrow> static_event mem lk cur kv w; Some (ev, ap1, w1) }
      else if has spec PTH_MODE_REUSE then
        do { (ev, ap1) \<leftarrow> va_ptr ap; Some (ev, ap1, w) }
      else Some (mem EventMem w, ap, w))"

definition event_link :: "u32 \<Rightarrow> nat \<Rightarrow> va list \<Rightarrow> evheap \<Rightarrow> (va list \<times> evheap) option" where
  "event_link spec ev ap h =
     (if has spec PTH_MODE_CHAIN then
        do { (ch, ap1) \<leftarrow> va_ptr ap; Some (ap1, chain_event ev ch h) }
      else Some (ap, set_ev_next ev ev (set_ev_prev ev ev h)))"

definition pth_event ::
  "(ev_request \<Rightarrow> ('a eworld_scheme) \<Rightarrow> nat) \<Rightarrow> (('a eworld_scheme) \<Rightarrow> ('a eworld_scheme)) \<Rightarrow> nat \<Rightarrow> nat \<Rightarrow> u32 \<Rightarrow> va list \<Rightarrow> ('a eworld_scheme)
     \<Rightarrow> (nat \<times> ('a eworld_scheme)) option" where
  "pth_event mem yield lk cur spec ap w =
     do { (ev, ap1, w1) \<leftarrow> event_place mem lk cur spec ap w;
          if ev = 0 then Some (0, yield w1)
          else do { (ap2, h2) \<leftarrow> event_link spec ev ap1 (ev_heap w1);
                    let w2 = w1\<lparr>ev_heap := upd_event ev (\<lambda>s. s\<lparr>ev_flags := 0, ev_occurred := False\<rparr>) h2\<rparr>;
                    ing \<leftarrow> event_ingredients spec ap2;
                    case ing of
                      None \<Rightarrow> Some (0, w2)
                    | Some (ty, goal, fl, args) \<Rightarrow>
                        Some (ev, upd_ev ev (\<lambda>s. s\<lparr>ev_type := ty, ev_goal := goal, ev_flags := fl, ev_args := args\<rparr>) w2) } }"

definition pth_event_typeof :: "nat \<Rightarrow> evheap \<Rightarrow> u32" where
  "pth_event_typeof ev h = (if ev = 0 then 0 else ev_type (h ev) OR ev_goal (h ev))"

text \<open>
  The extracted arguments; \<open>Some None\<close> is the result FALSE, and \<open>None\<close> reads a member of
  the union that was not the one written.
\<close>

definition pth_event_extract :: "nat \<Rightarrow> evheap \<Rightarrow> va list option option" where
  "pth_event_extract ev h =
     (if ev = 0 then Some None
      else let ty = ev_type (h ev); args = ev_args (h ev)
           in if has ty PTH_EVENT_FD then (case args of FD fd \<Rightarrow> Some (Some [VInt fd]) | _ \<Rightarrow> None)
              else if has ty PTH_EVENT_SIGS then (case args of SIGS sigs sig \<Rightarrow> Some (Some [VPtr sigs, VPtr sig]) | _ \<Rightarrow> None)
              else if has ty PTH_EVENT_TIME then (case args of TIME tv \<Rightarrow> Some (Some [VTime tv]) | _ \<Rightarrow> None)
              else if has ty PTH_EVENT_MSG then (case args of MSG mp \<Rightarrow> Some (Some [VPtr mp]) | _ \<Rightarrow> None)
              else if has ty PTH_EVENT_MUTEX then (case args of MUTEX m \<Rightarrow> Some (Some [VPtr m]) | _ \<Rightarrow> None)
              else if has ty PTH_EVENT_COND then (case args of COND c \<Rightarrow> Some (Some [VPtr c]) | _ \<Rightarrow> None)
              else if has ty PTH_EVENT_TID then (case args of TID t \<Rightarrow> Some (Some [VPtr t]) | _ \<Rightarrow> None)
              else if has ty PTH_EVENT_FUNC then
                (case args of FUNC f arg tv \<Rightarrow> Some (Some [VPtr f, VPtr arg, VTime tv]) | _ \<Rightarrow> None)
              else Some None)"

subsection \<open>Waiting\<close>

text \<open>The loop that marks all events of the ring as not occurred.\<close>

partial_function (option) clear_ring :: "nat \<Rightarrow> nat \<Rightarrow> evheap \<Rightarrow> evheap option" where
  [code]: "clear_ring ev_ring ev h =
     (let h1 = upd_event ev (\<lambda>s. s\<lparr>ev_occurred := False\<rparr>) h; ev1 = evnext h1 ev
      in if ev1 \<noteq> ev_ring then clear_ring ev_ring ev1 h1 else Some h1)"

text \<open>The loop that counts.\<close>

partial_function (option) count_ring :: "nat \<Rightarrow> nat \<Rightarrow> int \<Rightarrow> evheap \<Rightarrow> int option" where
  [code]: "count_ring ev_ring ev occurred h =
     (let occurred1 = occurred + 1; ev1 = evnext h ev
      in if ev1 \<noteq> ev_ring then count_ring ev_ring ev1 occurred1 h else Some occurred1)"

definition pth_wait ::
  "(('a eworld_scheme) \<times> 'k \<Rightarrow> ('a eworld_scheme) \<times> 'k) \<Rightarrow> (('a eworld_scheme) \<times> 'k \<Rightarrow> ('a eworld_scheme) \<times> 'k) \<Rightarrow>
     nat \<Rightarrow> nat \<Rightarrow> ('a eworld_scheme) \<times> 'k \<Rightarrow> (int \<times> ('a eworld_scheme) \<times> 'k) option" where
  "pth_wait yield cpoint cur ev_ring s =
     (if ev_ring = 0 then Some (-1, s)
      else do { let (w, k) = s;
                h1 \<leftarrow> clear_ring ev_ring ev_ring (ev_heap w);
                let w1 = upd_thread cur (\<lambda>x. x\<lparr>t_events := ev_ring, tstate := PTH_STATE_WAITING\<rparr>) (w\<lparr>ev_heap := h1\<rparr>);
                let (w2, k2) = yield (w1, k);
                let ty = ev_type (ev_heap w2 ev_ring);
                let (w3, k3) = (if ty \<noteq> PTH_EVENT_MUTEX \<and> ty \<noteq> PTH_EVENT_FUNC \<and> ty \<noteq> PTH_EVENT_COND
                                then cpoint (w2, k2) else (w2, k2));
                let w4 = upd_thread cur (\<lambda>x. x\<lparr>t_events := 0\<rparr>) w3;
                n \<leftarrow> count_ring ev_ring ev_ring 0 (ev_heap w4);
                Some (n, w4, k3) })"

subsection \<open>Lemmas on rings\<close>

text \<open>
  Closing the open ring at \<open>evc\<close> gives a ring, and attaching another ring there gives the
  ring with that one inserted.
\<close>

lemma concat_rings_ring:
  assumes "dcycle ((evnext h)(evc := evl)) ((evprev h)(evl := evc)) (f # pre @ rest)"
    and "evc = last (f # pre)" and "evl = hd (rest @ [f])"
    and "\<And>R. R \<in> set Rs \<Longrightarrow> R \<noteq> [] \<and> evring h R \<and> 0 \<notin> set R"
    and "distinct (concat Rs)" and "set (concat Rs) \<inter> set (f # pre @ rest) = {}"
    and "concat_rings evc (map hd Rs) h = (evc', h')"
  shows "dcycle ((evnext h')(evc' := evl)) ((evprev h')(evl := evc')) (f # pre @ concat Rs @ rest)"
  using assms
proof (induction Rs arbitrary: evc h pre)
  case (Cons R Rs)
  from Cons.prems(4) [of R] obtain l ls where R: "R = l # ls" "evring h (l # ls)" "l \<noteq> 0" by (cases R) auto
  let ?n = "(evnext h)(evc := evl)" and ?p = "(evprev h)(evl := evc)"
  let ?t = "evprev h l"
  let ?h2 = "set_ev_prev l evc (set_ev_next evc l h)"
  obtain bs where bs: "f # pre = bs @ [evc]"
    using Cons.prems(2) append_butlast_last_id [of "f # pre"] by (metis list.distinct(1))
  then have ring: "f # pre @ rest = bs @ evc # rest"
    by (metis append_Cons append_assoc append_Nil)
  have evl: "evl \<in> set (f # pre @ rest)" "evc \<in> set (f # pre @ rest)"
    using Cons.prems(2,3) by (cases rest; simp)+
  have dis: "set (l # ls) \<inter> set (f # pre @ rest) = {}" using Cons.prems(6) R(1) by auto
  have n_out: "evc \<notin> set (l # ls)" "evl \<notin> set (l # ls)" using evl dis by blast+
  have lr: "dcycle ?n ?p (l # ls)"
  proof -
    have "dcycle ?n ?p (l # ls) = dcycle (evnext h) (evprev h) (l # ls)" by (rule dcycle_cong) (use n_out in auto)
    with R(2) show ?thesis by (simp add: evring_def)
  qed
  have t: "?t = last (l # ls)" using R(2) dcycle_prev unfolding evring_def by metis
  have "dcycle ?n ?p ((evc # rest) @ bs)"
    using Cons.prems(1) unfolding ring by (rule dcycle_rotate [THEN iffD1])
  then have rot: "dcycle ?n ?p (evc # rest @ bs)" unfolding append_Cons .
  have sp: "dcycle (?n(evc := l, ?p l := ?n evc)) (?p(l := evc, ?n evc := ?p l)) (evc # l # ls @ rest @ bs)"
    by (rule dcycle_splice [OF rot lr]) (use dis ring in auto)
  have eqs: "?n(evc := l, ?p l := ?n evc) = (evnext ?h2)(?t := evl)" "?p(l := evc, ?n evc := ?p l) = (evprev ?h2)(evl := ?t)"
    using n_out by (auto simp: evl.links fun_eq_iff)
  have "dcycle ((evnext ?h2)(?t := evl)) ((evprev ?h2)(evl := ?t)) ((evc # l # ls @ rest) @ bs)"
    using sp unfolding eqs append_Cons append_assoc .
  then have c2: "dcycle ((evnext ?h2)(?t := evl)) ((evprev ?h2)(evl := ?t)) (bs @ evc # l # ls @ rest)"
    by (rule dcycle_rotate [THEN iffD1])
  have "bs @ evc # l # ls @ rest = f # (pre @ l # ls) @ rest"
    using bs by (metis append_Cons append_assoc append_Nil)
  with c2 have c3: "dcycle ((evnext ?h2)(?t := evl)) ((evprev ?h2)(evl := ?t)) (f # (pre @ l # ls) @ rest)" by metis
  have h2: "evring ?h2 R'" if "R' \<in> set Rs" for R'
  proof -
    have "set R' \<inter> set (l # ls) = {}" using Cons.prems(5) that R(1) by auto
    moreover have "evc \<notin> set R'" using Cons.prems(6) that evl(2) by auto
    ultimately have "evring ?h2 R' = evring h R'" unfolding evring_def
      by (intro dcycle_cong) (auto simp: evl.links)
    with Cons.prems(4) [of R'] that show ?thesis by simp
  qed
  have step: "concat_rings ?t (map hd Rs) ?h2 = (evc', h')"
    using Cons.prems(7) R(1,3) by (simp add: Let_def evl.links)
  have "dcycle ((evnext h')(evc' := evl)) ((evprev h')(evl := evc')) (f # (pre @ l # ls) @ concat Rs @ rest)"
  proof (rule Cons.IH [OF c3 _ Cons.prems(3) _ _ _ step])
    show "?t = last (f # pre @ l # ls)" using t by simp
    show "R' \<noteq> [] \<and> evring ?h2 R' \<and> 0 \<notin> set R'" if "R' \<in> set Rs" for R'
      using h2 [OF that] Cons.prems(4) [of R'] that by simp
    show "distinct (concat Rs)" using Cons.prems(5) by simp
    show "set (concat Rs) \<inter> set (f # (pre @ l # ls) @ rest) = {}" using Cons.prems(5,6) R(1) by auto
  qed
  then show ?case unfolding R(1) by (simp only: concat.simps append_Cons append_assoc)
qed simp

lemma event_concat_ring:
  assumes "evring h (f # fs)" and "f \<noteq> 0" and "\<And>R. R \<in> set Rs \<Longrightarrow> R \<noteq> [] \<and> evring h R \<and> 0 \<notin> set R"
    and "distinct (concat Rs)" and "set (concat Rs) \<inter> set (f # fs) = {}"
    and "pth_event_concat f (map hd Rs) h = (e, h')"
  shows "evring h' (f # concat Rs @ fs)" and "e = f"
proof -
  let ?l = "evnext h f"
  obtain evc h1 where h1: "concat_rings f (map hd Rs) h = (evc, h1)" by fastforce
  have l: "?l = hd (fs @ [f])" and p: "evprev h ?l = f"
    using assms(1) by (cases fs; simp add: evring_def)+
  have "dcycle ((evnext h)(f := ?l)) ((evprev h)(?l := f)) (f # [] @ fs)"
    using assms(1) p by (simp add: evring_def fun_upd_idem)
  from concat_rings_ring [OF this _ _ assms(3) assms(4) _ h1] assms(5) l
  have "dcycle ((evnext h1)(evc := ?l)) ((evprev h1)(?l := evc)) (f # concat Rs @ fs)" by simp
  with assms(2,6) h1 show "evring h' (f # concat Rs @ fs)" "e = f"
    by (auto simp: pth_event_concat_def Let_def evring_def evl.links)
qed

lemma event_isolate_ring:
  assumes "evring h (e # xs)" and "e \<noteq> 0" and "pth_event_isolate e h = (r, h')"
  shows "evring h' [e]" and "xs \<noteq> [] \<Longrightarrow> evring h' xs" and "r = (if xs = [] then 0 else hd xs)"
    and "\<And>x. ev_occurred (h' x) = ev_occurred (h x)"
proof -
  have c: "dcycle (evnext h) (evprev h) (e # xs)" using assms(1) by (simp add: evring_def)
  have self: "evnext h e = e \<and> evprev h e = e \<longleftrightarrow> xs = []"
    using dcycle_next_self [OF c] dcycle_prev_self [OF c] by simp
  show "evring h' [e]" "r = (if xs = [] then 0 else hd xs)"
    using assms self c by (cases xs; auto simp: pth_event_isolate_def Let_def evring_def evl.links split: if_splits)+
  show "ev_occurred (h' x) = ev_occurred (h x)" for x
    using assms(2,3) by (auto simp: pth_event_isolate_def Let_def set_ev_next_def set_ev_prev_def upd_event_def split: if_splits)
  assume "xs \<noteq> []"
  then obtain y ys where xs: "xs = y # ys" by (cases xs) auto
  have "dcycle (evnext h) (evprev h) (y # ys @ e # [])"
    using c xs dcycle_rotate1 [of "evnext h" "evprev h" e "y # ys"] by simp
  from evl.unlink [OF this refl] xs
  have u: "evring (set_ev_prev (evnext h e) (evprev h e) (set_ev_next (evprev h e) (evnext h e) h)) xs"
    by (simp add: evring_def)
  have e: "e \<notin> set xs" using c by simp
  have p: "evprev h e \<noteq> e" "evnext h e \<noteq> e"
    using \<open>xs \<noteq> []\<close> dcycle_prev_self [OF c] dcycle_next_self [OF c] by auto
  have h': "h' = set_ev_next e e (set_ev_prev e e (set_ev_prev (evnext h e) (evprev h e) (set_ev_next (evprev h e) (evnext h e) h)))"
    using assms(2,3) self \<open>xs \<noteq> []\<close> p by (auto simp: pth_event_isolate_def Let_def evl.links)
  show "evring h' xs" unfolding h' evring_def
    using u e by (simp add: evring_def evl.frame_set_nxt evl.frame_set_prv)
qed

text \<open>The loops \<open>do ... while (ev != ring)\<close> over a ring.\<close>

lemma ring_next_last: "evring h (pre @ [y]) \<Longrightarrow> evnext h y = hd (pre @ [y])"
  using dcycle_next_at [of "evnext h" "evprev h" pre y "[]"] by (simp add: evring_def)

lemma ring_next_inner:
  assumes "evring h (pre @ y # z # zs)"
  shows "evnext h y = z" and "z \<noteq> hd (pre @ [y])"
  using dcycle_next_at [of "evnext h" "evprev h" pre y "z # zs"] dcycle_distinct [of "evnext h" "evprev h" "pre @ y # z # zs"] assms
  by (cases pre; auto simp: evring_def)+

definition clear_events :: "nat list \<Rightarrow> evheap \<Rightarrow> evheap" where
  "clear_events xs h = (\<lambda>e. if e \<in> set xs then (h e)\<lparr>ev_occurred := False\<rparr> else h e)"

lemma evring_clear [simp]: "evring (clear_events xs h) ys = evring h ys"
  unfolding evring_def by (rule dcycle_cong) (simp_all add: evnext_def evprev_def clear_events_def)

lemma clear_ring_suffix:
  "evring h (pre @ y # ys) \<Longrightarrow> clear_ring (hd (pre @ [y])) y h = Some (clear_events (y # ys) h)"
proof (induction ys arbitrary: pre y h)
  case Nil
  have n: "evnext (clear_events [y] h) y = hd (pre @ [y])" using Nil by (intro ring_next_last) simp
  have "upd_event y (\<lambda>s. s\<lparr>ev_occurred := False\<rparr>) h = clear_events [y] h"
    by (auto simp: upd_event_def clear_events_def)
  with n show ?case by (subst clear_ring.simps) (simp add: Let_def)
next
  case (Cons z zs)
  let ?h1 = "clear_events [y] h"
  have u: "upd_event y (\<lambda>s. s\<lparr>ev_occurred := False\<rparr>) h = ?h1" by (auto simp: upd_event_def clear_events_def)
  have r1: "evring ?h1 ((pre @ [y]) @ z # zs)" using Cons.prems by simp
  note n = ring_next_inner [of ?h1 pre y z zs]
  have "clear_ring (hd (pre @ [y])) z ?h1 = Some (clear_events (z # zs) ?h1)" using Cons.IH [OF r1] by (cases pre) auto
  moreover have "clear_events (z # zs) ?h1 = clear_events (y # z # zs) h" by (auto simp: clear_events_def)
  ultimately show ?case using n Cons.prems u by (subst clear_ring.simps) (simp add: Let_def)
qed

lemma count_ring_suffix:
  "evring h (pre @ y # ys) \<Longrightarrow> count_ring (hd (pre @ [y])) y n h = Some (n + 1 + int (length ys))"
proof (induction ys arbitrary: pre y n)
  case Nil
  then show ?case using ring_next_last [OF Nil] by (subst count_ring.simps) simp
next
  case (Cons z zs)
  have "evring h ((pre @ [y]) @ z # zs)" using Cons.prems by simp
  from Cons.IH [OF this, of "n + 1"] have "count_ring (hd (pre @ [y])) z (n + 1) h = Some (n + 2 + int (length zs))"
    by (cases pre) auto
  with ring_next_inner [OF Cons.prems] show ?case by (subst count_ring.simps) (simp add: Let_def)
qed

lemma free_ring_suffix:
  "evring (ev_heap w) (pre @ y # ys) \<Longrightarrow> free_ring (hd (pre @ [y])) y w = Some (w\<lparr>ev_freed := ev_freed w @ y # ys\<rparr>)"
proof (induction ys arbitrary: pre y w)
  case Nil
  then show ?case using ring_next_last [OF Nil] by (subst free_ring.simps) (simp add: Let_def)
next
  case (Cons z zs)
  let ?w1 = "w\<lparr>ev_freed := ev_freed w @ [y]\<rparr>"
  have "evring (ev_heap ?w1) ((pre @ [y]) @ z # zs)" using Cons.prems by simp
  from Cons.IH [OF this] have "free_ring (hd (pre @ [y])) z ?w1 = Some (w\<lparr>ev_freed := ev_freed w @ y # z # zs\<rparr>)"
    by (cases pre) auto
  with ring_next_inner [OF Cons.prems] show ?case by (subst free_ring.simps) (simp add: Let_def)
qed

text \<open>\<open>pth_event_walk\<close> forward finds the next event that has occurred.\<close>

lemma event_walk_occurred:
  assumes "evring h (e # xs @ y # ys)" and "0 \<notin> set (e # xs)" and "\<And>x. x \<in> set xs \<Longrightarrow> \<not> ev_occurred (h x)" and "ev_occurred (h y)"
  shows "pth_event_walk e (set_flag PTH_UNTIL_OCCURRED PTH_WALK_NEXT) h = Some y"
proof -
  have "pth_event_walk z (set_flag PTH_UNTIL_OCCURRED PTH_WALK_NEXT) h = Some y"
    if "evring h (pre @ z # xs @ y # ys)" "0 \<notin> set (z # xs)" for pre z
    using that assms(3)
  proof (induction xs arbitrary: pre z)
    case Nil
    then have "evnext h z = y" using ring_next_inner(1) [of h pre z y ys] by simp
    with Nil assms(4) show ?case by (subst pth_event_walk.simps) (simp add: event_flags)
  next
    case (Cons x xs)
    have n: "evnext h z = x" using ring_next_inner(1) [of h pre z x "xs @ y # ys"] Cons.prems(1) by simp
    have "pth_event_walk x (set_flag PTH_UNTIL_OCCURRED PTH_WALK_NEXT) h = Some y"
      by (rule Cons.IH [of "pre @ [z]"]) (use Cons.prems in auto)
    with n Cons.prems show ?case by (subst pth_event_walk.simps) (simp add: event_flags)
  qed
  from this [of "[]" e] assms(1,2) show ?thesis by simp
qed

subsection \<open>Lemmas on static events\<close>

text \<open>The event data of a thread: none, or one value for every key, counted.\<close>

definition ev_data_ok :: "pth_st \<Rightarrow> bool" where
  "ev_data_ok t \<longleftrightarrow> (case event_data t of None \<Rightarrow> event_count t = 0
     | Some vs \<Rightarrow> length vs = PTH_EVENT_KEY_MAX \<and> event_count t = int (nonnull vs))"

definition ev_inv :: "('a eworld_scheme) \<Rightarrow> bool" where
  "ev_inv w \<longleftrightarrow> length (ev_keytab w) = PTH_EVENT_KEY_MAX \<and> (\<forall>t. ev_data_ok (threads w t))"

lemma eworld_sel [simp]:
  "ev_heap (upd_thread t f w) = ev_heap w" "ev_keytab (upd_thread t f w) = ev_keytab w"
  "ev_vars (upd_thread t f w) = ev_vars w" "ev_lock (upd_thread t f w) = ev_lock w"
  "ev_freed (upd_thread t f w) = ev_freed w"
  by (simp_all add: upd_thread_def)

lemma event_setdata_inv:
  assumes i: "ev_inv w" and e: "pth_event_key_setdata mem cur key v w = Some (r, w')"
  shows "ev_inv w'"
proof (cases "r = 0 \<and> w' \<noteq> w")
  case False
  with e i show ?thesis by (auto simp: pth_event_key_setdata_def Let_def const_defs split: if_splits)
next
  case True
  let ?vs = "case event_data (threads w cur) of None \<Rightarrow> replicate PTH_EVENT_KEY_MAX 0 | Some vs \<Rightarrow> vs"
  let ?x = "threads w' cur"
  from e True have k: "0 \<le> key" "key < int PTH_EVENT_KEY_MAX"
    and w': "ev_keytab w' = ev_keytab w" "\<forall>t. t \<noteq> cur \<longrightarrow> threads w' t = threads w t"
    and x: "event_data ?x = Some (?vs[nat key := v])"
      "event_count ?x = event_count (threads w cur) - (if ?vs ! nat key \<noteq> 0 then 1 else 0) + (if v \<noteq> 0 then 1 else 0)"
    by (auto simp: pth_event_key_setdata_def Let_def const_defs split: if_splits)
  have ok: "length ?vs = PTH_EVENT_KEY_MAX \<and> event_count (threads w cur) = int (nonnull ?vs)"
    using i by (auto simp: ev_inv_def ev_data_ok_def split: option.splits dest: spec [of _ cur])
  then have "ev_data_ok ?x" using x k nonnull_upd [of "nat key" ?vs v] by (simp add: ev_data_ok_def)
  with i w' show ?thesis unfolding ev_inv_def by metis
qed

lemma event_getdata_setdata:
  assumes i: "ev_inv w" and e: "pth_event_key_setdata mem cur key v w = Some (0, w')"
  shows "pth_event_key_getdata cur key w' = Some v"
    and "t \<noteq> cur \<or> key' \<noteq> key \<Longrightarrow> pth_event_key_getdata t key' w' = pth_event_key_getdata t key' w"
proof -
  have "length (case event_data (threads w cur) of None \<Rightarrow> replicate PTH_EVENT_KEY_MAX 0 | Some vs \<Rightarrow> vs) = PTH_EVENT_KEY_MAX"
    using i by (auto simp: ev_inv_def ev_data_ok_def split: option.splits dest: spec [of _ cur])
  then show "pth_event_key_getdata cur key w' = Some v"
    using e by (auto simp: pth_event_key_setdata_def pth_event_key_getdata_def Let_def const_defs split: if_splits)
  show "pth_event_key_getdata t key' w' = pth_event_key_getdata t key' w" if "t \<noteq> cur \<or> key' \<noteq> key"
    using e that by (auto simp: pth_event_key_setdata_def pth_event_key_getdata_def Let_def const_defs
        nth_list_update split: if_splits option.splits)
qed

subsection \<open>Theorems\<close>

definition same_links :: "evheap \<Rightarrow> evheap \<Rightarrow> bool" where
  "same_links h h' \<longleftrightarrow> (\<forall>e. ev_next (h' e) = ev_next (h e) \<and> ev_prev (h' e) = ev_prev (h e))"

lemma evring_same_links: "same_links h h' \<Longrightarrow> evring h' xs = evring h xs"
  unfolding evring_def by (rule dcycle_cong) (simp_all add: evnext_def evprev_def same_links_def)

text \<open>
  C38.  The functions that wait put the events of the caller behind their own event and take
  them off again after the wait: \<open>pth_event_isolate\<close> undoes \<open>pth_event_concat\<close>, whatever
  happened to the events but for their links, and gives the first event of the caller.
\<close>

theorem event_concat_isolate:
  assumes "evring h [ev]" and "evring h (x # xs)" and "ev \<noteq> 0" and "0 \<notin> set (x # xs)" and "ev \<notin> set (x # xs)"
    and "pth_event_concat ev [x] h = (e1, h1)" and "same_links h1 h2" and "pth_event_isolate ev h2 = (r, h3)"
  shows "evring h1 (ev # x # xs) \<and> e1 = ev \<and> evring h3 [ev] \<and> evring h3 (x # xs) \<and> r = x"
proof -
  have R: "\<And>R. R \<in> set [x # xs] \<Longrightarrow> R \<noteq> [] \<and> evring h R \<and> 0 \<notin> set R" using assms(2,4) by simp
  have d: "distinct (concat [x # xs])" using assms(2) by (simp add: evring_def)
  have c: "pth_event_concat ev (map hd [x # xs]) h = (e1, h1)" using assms(6) by simp
  have s: "set (concat [x # xs]) \<inter> set [ev] = {}" using assms(5) by simp
  have r1: "evring h1 (ev # x # xs)" and e1: "e1 = ev"
    using event_concat_ring [OF assms(1,3) R d s c] by simp_all
  then have r2: "evring h2 (ev # x # xs)" using evring_same_links [OF assms(7)] by simp
  show ?thesis
    using r1 e1 event_isolate_ring(1,3) [OF r2 assms(3,8)] event_isolate_ring(2) [OF r2 assms(3,8)] by simp
qed

definition a_event :: "nat \<Rightarrow> nat \<Rightarrow> pth_event_st" where
  "a_event n p = \<lparr>ev_next = n, ev_prev = p, ev_occurred = False, ev_type = PTH_EVENT_FD, ev_goal = 0, ev_flags = 0, ev_args = FD 3\<rparr>"

text \<open>Event 1 alone, and events 2 and 3 in a ring.\<close>

definition two_rings :: evheap where
  "two_rings e = (if e = 2 then a_event 3 3 else if e = 3 then a_event 2 2 else a_event e e)"

theorem event_concat_isolate_witness:
  "evring two_rings [2, 3] \<and> evring (snd (pth_event_concat 1 [2] two_rings)) [1, 2, 3]
   \<and> evring (snd (pth_event_isolate 1 (snd (pth_event_concat 1 [2] two_rings)))) [2, 3]"
proof -
  have r: "evring two_rings [1]" "evring two_rings [2, 3]"
    by (simp_all add: evring_def two_rings_def a_event_def evnext_def evprev_def)
  obtain e1 h1 where h1: "pth_event_concat 1 [2] two_rings = (e1, h1)" by fastforce
  obtain e3 h3 where h3: "pth_event_isolate 1 h1 = (e3, h3)" by fastforce
  from event_concat_isolate [OF r(1,2) _ _ _ h1 _ h3] r(2) h1 h3 show ?thesis by (simp add: same_links_def)
qed

text \<open>An event holds the arguments its constructor was given.\<close>

lemma va_ptr_Some [simp]: "va_ptr ap = Some (x, r) \<longleftrightarrow> ap = VPtr x # r"
  by (cases ap rule: va_ptr.cases) auto

lemma va_int_Some [simp]: "va_int ap = Some (x, r) \<longleftrightarrow> ap = VInt x # r"
  by (cases ap rule: va_int.cases) auto

lemma va_time_Some [simp]: "va_time ap = Some (x, r) \<longleftrightarrow> ap = VTime x # r"
  by (cases ap rule: va_time.cases) auto

definition args_va :: "ev_args \<Rightarrow> va list" where
  "args_va a = (case a of FD fd \<Rightarrow> [VInt fd] | SELECT n nfd r w e \<Rightarrow> [VPtr n, VInt nfd, VPtr r, VPtr w, VPtr e]
     | SIGS sigs sig \<Rightarrow> [VPtr sigs, VPtr sig] | TIME tv \<Rightarrow> [VTime tv] | MSG mp \<Rightarrow> [VPtr mp] | MUTEX m \<Rightarrow> [VPtr m]
     | COND c \<Rightarrow> [VPtr c] | TID t \<Rightarrow> [VPtr t] | FUNC f arg tv \<Rightarrow> [VPtr f, VPtr arg, VTime tv])"

definition args_type :: "ev_args \<Rightarrow> u32 \<Rightarrow> bool" where
  "args_type a ty = (case a of FD _ \<Rightarrow> ty = PTH_EVENT_FD | SELECT _ _ _ _ _ \<Rightarrow> ty = PTH_EVENT_SELECT
     | SIGS _ _ \<Rightarrow> ty = PTH_EVENT_SIGS \<or> ty = PTH_EVENT_TIME_SIGS | TIME _ \<Rightarrow> ty = PTH_EVENT_TIME | MSG _ \<Rightarrow> ty = PTH_EVENT_MSG
     | MUTEX _ \<Rightarrow> ty = PTH_EVENT_MUTEX | COND _ \<Rightarrow> ty = PTH_EVENT_COND | TID _ \<Rightarrow> ty = PTH_EVENT_TID | FUNC _ _ _ \<Rightarrow> ty = PTH_EVENT_FUNC)"

lemma ingredients_args:
  "event_ingredients spec ap = Some (Some (ty, goal, fl, args)) \<Longrightarrow> args_type args ty \<and> (\<exists>rest. ap = args_va args @ rest)"
  unfolding event_ingredients_def Let_def
  by (simp split: if_splits bind_splits) (auto simp: args_type_def args_va_def split: bind_splits)

lemma extract_args:
  assumes "args_type (ev_args (h e)) (ev_type (h e))" and "e \<noteq> 0"
    and "ev_type (h e) \<noteq> PTH_EVENT_SELECT" and "ev_type (h e) \<noteq> PTH_EVENT_TIME_SIGS"
  shows "pth_event_extract e h = Some (Some (args_va (ev_args (h e))))"
  using assms by (cases "ev_args (h e)") (simp_all add: pth_event_extract_def args_type_def args_va_def event_flags Let_def)

lemma event_constructed:
  assumes "pth_event mem yield lk cur spec ap w = Some (ev, w')" and "ev \<noteq> 0"
  obtains pre rest where "ap = pre @ args_va (ev_args (ev_heap w' ev)) @ rest"
    and "args_type (ev_args (ev_heap w' ev)) (ev_type (ev_heap w' ev))" and "\<not> ev_occurred (ev_heap w' ev)"
proof -
  from assms obtain ap1 w1 where p: "event_place mem lk cur spec ap w = Some (ev, ap1, w1)"
    and e: "pth_event mem yield lk cur spec ap w = Some (ev, w')"
    by (auto simp: pth_event_def Let_def split: bind_splits if_splits option.splits)
  from e p assms(2) obtain ap2 h2 where l: "event_link spec ev ap1 (ev_heap w1) = Some (ap2, h2)"
    by (auto simp: pth_event_def Let_def split: bind_splits)
  from e p l assms(2) obtain ty goal fl args where
    i: "event_ingredients spec ap2 = Some (Some (ty, goal, fl, args))"
    and h: "ev_type (ev_heap w' ev) = ty" "ev_args (ev_heap w' ev) = args" "\<not> ev_occurred (ev_heap w' ev)"
    by (auto simp: pth_event_def Let_def upd_event_def split: bind_splits option.splits)
  have "\<exists>pre. ap = pre @ ap1" using p by (auto simp: event_place_def split: if_splits bind_splits)
  moreover have "\<exists>pre. ap1 = pre @ ap2" using l by (auto simp: event_link_def split: if_splits bind_splits)
  ultimately obtain pre where "ap = pre @ ap2" by (metis append_assoc)
  with ingredients_args [OF i] h that show thesis by auto
qed

text \<open>
  \<open>pth_event_extract\<close> returns the arguments that the event was constructed with, for
  every kind of event but the two it does not know (descriptor sets and signal sets with a timer).
\<close>

theorem event_extract_roundtrip:
  assumes "pth_event mem yield lk cur spec ap w = Some (ev, w')" and "ev \<noteq> 0"
    and "ev_type (ev_heap w' ev) \<noteq> PTH_EVENT_SELECT" and "ev_type (ev_heap w' ev) \<noteq> PTH_EVENT_TIME_SIGS"
  shows "\<exists>pre vs rest. pth_event_extract ev (ev_heap w') = Some (Some vs) \<and> ap = pre @ vs @ rest \<and> vs \<noteq> []"
proof -
  obtain pre rest where c: "ap = pre @ args_va (ev_args (ev_heap w' ev)) @ rest"
    "args_type (ev_args (ev_heap w' ev)) (ev_type (ev_heap w' ev))"
    using event_constructed [OF assms(1,2)] by metis
  have "args_va (ev_args (ev_heap w' ev)) \<noteq> []" by (simp add: args_va_def split: ev_args.split)
  with c extract_args [of "ev_heap w'" ev, OF c(2) assms(2-4)] show ?thesis by blast
qed

text \<open>
  \<open>pth_wait\<close> on a ring returns: it clears the marks of all events, hands the ring over to
  the scheduler with the thread in the waiting state, and unlinks it afterwards.  The result is the
  number of events in the ring, occurred or not.
\<close>

theorem wait_counts_ring:
  assumes r: "evring (ev_heap w) (r # xs)" "r \<noteq> 0"
    and y: "yield (upd_thread cur (\<lambda>x. x\<lparr>t_events := r, tstate := PTH_STATE_WAITING\<rparr>)
                    (w\<lparr>ev_heap := clear_events (r # xs) (ev_heap w)\<rparr>), k) = (w1, k1)" "same_links (ev_heap w) (ev_heap w1)"
    and c: "cpoint (w1, k1) = (w2, k2)" "same_links (ev_heap w1) (ev_heap w2)"
  shows "\<exists>w' k'. pth_wait yield cpoint cur r (w, k) = Some (1 + int (length xs), w', k') \<and> t_events (threads w' cur) = 0"
proof -
  have h: "clear_ring r r (ev_heap w) = Some (clear_events (r # xs) (ev_heap w))"
    using clear_ring_suffix [of "ev_heap w" "[]" r xs] r(1) by simp
  have r1: "evring (ev_heap w1) (r # xs)" using evring_same_links [OF y(2)] r(1) by simp
  then have r2: "evring (ev_heap w2) (r # xs)" using evring_same_links [OF c(2)] by simp
  have n: "count_ring r r 0 h = Some (1 + int (length xs))" if "evring h (r # xs)" for h
    using count_ring_suffix [of h "[]" r xs 0] that by simp
  show ?thesis
    using r(2) h y(1) c(1) n [OF r1] n [OF r2] by (auto simp: pth_wait_def Let_def)
qed

text \<open>A world with the two rings, in which thread 1 waits.\<close>

definition ew0 :: eworld where
  "ew0 = mworld.extend mw0 (eworld.fields two_rings [] (replicate 16 \<lparr>used = False, destructor = 0\<rparr>) free_lock (\<lambda>_. -1))"

lemma ew0_sel [simp]:
  "ev_heap ew0 = two_rings" "threads ew0 = threads mw0" "ev_keytab ew0 = replicate 16 \<lparr>used = False, destructor = 0\<rparr>"
  "ev_lock ew0 = free_lock" "ev_vars ew0 = (\<lambda>_. -1)"
  by (simp_all add: ew0_def mworld.defs eworld.defs)

theorem wait_counts_ring_witness:
  "\<exists>w' k'. pth_wait id id 1 2 (ew0, ()) = Some (2, w', k')"
proof -
  have "evring (ev_heap ew0) [2, 3]"
    by (simp add: evring_def two_rings_def a_event_def evnext_def evprev_def)
  moreover have "same_links two_rings (clear_events [2, 3] two_rings)" by (simp add: same_links_def clear_events_def)
  ultimately show ?thesis
    using wait_counts_ring [where w = ew0 and r = 2 and xs = "[3]" and yield = id and cpoint = id and cur = 1 and k = "()",
        OF _ _ id_apply _ id_apply] by (auto simp: same_links_def)
qed

text \<open>Events for a timer, chained before event 2.\<close>

theorem event_extract_roundtrip_witness:
  "\<exists>w'. pth_event (\<lambda>_ _. 7) id 1 1 (set_flag PTH_MODE_CHAIN PTH_EVENT_TIME) [VPtr 2, VTime 100] ew0 = Some (7, w')
     \<and> (\<exists>pre vs rest. pth_event_extract 7 (ev_heap w') = Some (Some vs) \<and> [VPtr 2, VTime 100] = pre @ vs @ rest \<and> vs \<noteq> [])"
proof -
  obtain w' where w': "pth_event (\<lambda>_ _. 7) id 1 1 (set_flag PTH_MODE_CHAIN PTH_EVENT_TIME) [VPtr 2, VTime 100] ew0 = Some (7, w')"
    "ev_type (ev_heap w' 7) = PTH_EVENT_TIME"
    by (simp add: pth_event_def event_place_def event_link_def event_ingredients_def event_flags Let_def upd_event_def)
  moreover have "PTH_EVENT_TIME \<noteq> PTH_EVENT_SELECT" "PTH_EVENT_TIME \<noteq> PTH_EVENT_TIME_SIGS"
    by (simp_all add: event_flags BIT_def)
  ultimately show ?thesis using event_extract_roundtrip [OF w'(1)] by auto
qed

end
