(* ===== verification/Sync.thy ===== *)
theory Sync
  imports Event
begin

text \<open>
  pth_sync.c, the objects above the mutexes: the shared area, read-write locks, condition
  variables and barriers.

  All objects are numbers, \<open>0\<close> is NULL.  \<open>self\<close> is \<open>pth_get_native_descr ()\<close>: the
  native that runs the calling thread, which a wait may change; \<open>current_tid ()\<close> is its thread
  id.  The environment \<open>condenv\<close> extends that of the mutexes: the clock, \<open>select\<close> with a
  timeout, memory for events, \<open>pth_yield (NULL)\<close> and \<open>pth_cancel_point (FALSE)\<close>.
  \<open>None\<close> is a lock that is not obtained or a loop that does not end.
\<close>

definition PTH_RWLOCK_INITIALIZED :: u32 where "PTH_RWLOCK_INITIALIZED = BIT 0"
definition PTH_COND_INITIALIZED :: u32 where "PTH_COND_INITIALIZED = BIT 0"
definition PTH_COND_SIGNALED :: u32 where "PTH_COND_SIGNALED = BIT 1"
definition PTH_COND_BROADCAST :: u32 where "PTH_COND_BROADCAST = BIT 2"
definition PTH_COND_HANDLED :: u32 where "PTH_COND_HANDLED = BIT 3"
definition PTH_BARRIER_INITIALIZED :: u32 where "PTH_BARRIER_INITIALIZED = BIT 0"
definition PTH_BARRIER_HEADLIGHT :: int where "PTH_BARRIER_HEADLIGHT = -1"
definition PTH_BARRIER_TAILLIGHT :: int where "PTH_BARRIER_TAILLIGHT = -2"
definition PTH_CANCEL_ENABLE :: u32 where "PTH_CANCEL_ENABLE = BIT 0"
definition PTH_CANCEL_DISABLE :: u32 where "PTH_CANCEL_DISABLE = BIT 1"
definition PTH_CANCEL_ASYNCHRONOUS :: u32 where "PTH_CANCEL_ASYNCHRONOUS = BIT 2"
definition PTH_CANCEL_DEFERRED :: u32 where "PTH_CANCEL_DEFERRED = BIT 3"

lemmas sync_flags = PTH_RWLOCK_INITIALIZED_def PTH_COND_INITIALIZED_def PTH_COND_SIGNALED_def PTH_COND_BROADCAST_def
  PTH_COND_HANDLED_def PTH_BARRIER_INITIALIZED_def PTH_CANCEL_ENABLE_def PTH_CANCEL_DISABLE_def
  PTH_CANCEL_ASYNCHRONOUS_def PTH_CANCEL_DEFERRED_def

lemmas sync_consts [const_defs] = PTH_BARRIER_HEADLIGHT_def PTH_BARRIER_TAILLIGHT_def

datatype rw_op = PTH_RWLOCK_RD | PTH_RWLOCK_RW

record pth_rwlock_st =
  rw_readers :: u32
  rw_mode :: rw_op
  rw_mutex_rd :: nat
  rw_mutex_rw :: nat
  rw_state :: u32
  rw_pshared :: bool

record pth_cond_st =
  cn_state :: u32
  cn_waiters :: u32
  cn_index :: int
  cn_lock :: pth_qlock_st
  cn_shared :: rfutex_st
  cn_wakecnt :: u32

text \<open>The condition variable and the mutex of a barrier are inside it; the members are their addresses.\<close>

record pth_barrier_st =
  br_state :: u32
  br_threshold :: int
  br_count :: int
  br_cycle :: bool
  br_cond :: nat
  br_mutex :: nat

text \<open>\<open>shared_objects\<close> is \<open>PTH_MAX_SHARED_OBJECTS\<close>.\<close>

record sworld = eworld +
  conds :: "nat \<Rightarrow> pth_cond_st"
  rwlocks :: "nat \<Rightarrow> pth_rwlock_st"
  barriers :: "nat \<Rightarrow> pth_barrier_st"
  shared_lock :: pth_qlock_st
  shared_objects :: nat

record ('w, 'k) condenv = "('w, 'k) sysenv" +
  e_now :: "'k \<Rightarrow> pth_time_t"
  e_select_t :: "timeval option \<Rightarrow> 'w \<times> 'k \<Rightarrow> int \<times> 'w \<times> 'k"
  e_mem :: "ev_request \<Rightarrow> 'w \<Rightarrow> nat"
  e_yield :: "'w \<times> 'k \<Rightarrow> 'w \<times> 'k"
  e_cpoint :: "'w \<times> 'k \<Rightarrow> 'w \<times> 'k"

type_synonym ('a, 'k) sstate = "('a sworld_scheme) \<times> 'k"

definition upd_cond :: "nat \<Rightarrow> (pth_cond_st \<Rightarrow> pth_cond_st) \<Rightarrow> ('a sworld_scheme) \<Rightarrow> ('a sworld_scheme)" where
  "upd_cond c f w = w\<lparr>conds := (conds w)(c := f (conds w c))\<rparr>"

definition upd_rwlock :: "nat \<Rightarrow> (pth_rwlock_st \<Rightarrow> pth_rwlock_st) \<Rightarrow> ('a sworld_scheme) \<Rightarrow> ('a sworld_scheme)" where
  "upd_rwlock r f w = w\<lparr>rwlocks := (rwlocks w)(r := f (rwlocks w r))\<rparr>"

definition upd_barrier :: "nat \<Rightarrow> (pth_barrier_st \<Rightarrow> pth_barrier_st) \<Rightarrow> ('a sworld_scheme) \<Rightarrow> ('a sworld_scheme)" where
  "upd_barrier b f w = w\<lparr>barriers := (barriers w)(b := f (barriers w b))\<rparr>"

text \<open>The mutex functions, called on the native that runs the thread now.\<close>

definition acquire_now :: "('a sworld_scheme, 'k, 'b) condenv_scheme \<Rightarrow> (('a, 'k) sstate \<Rightarrow> nat) \<Rightarrow> nat \<Rightarrow> bool \<Rightarrow> bool
    \<Rightarrow> ('a, 'k) sstate \<Rightarrow> (int \<times> ('a, 'k) sstate) option" where
  "acquire_now E self m tryonly ev s =
     pth_mutex_acquire (sysenv.truncate E) (tid (natives (fst s) (self s))) (self s) m tryonly ev s"

definition release_now :: "('a sworld_scheme, 'k, 'b) condenv_scheme \<Rightarrow> (('a, 'k) sstate \<Rightarrow> nat) \<Rightarrow> nat
    \<Rightarrow> ('a, 'k) sstate \<Rightarrow> (int \<times> ('a, 'k) sstate) option" where
  "release_now E self m s = pth_mutex_release (sysenv.truncate E) (tid (natives (fst s) (self s))) (self s) m s"

subsection \<open>The shared area\<close>

definition lock_shared :: "nat \<Rightarrow> ('a sworld_scheme) \<Rightarrow> ('a sworld_scheme) option" where
  "lock_shared lk w = map_option (\<lambda>l. w\<lparr>shared_lock := l\<rparr>) (pth_acquire_lock lk (shared_lock w))"

definition unlock_shared :: "nat \<Rightarrow> ('a sworld_scheme) \<Rightarrow> ('a sworld_scheme)" where
  "unlock_shared lk w = w\<lparr>shared_lock := snd (pth_release_lock lk (shared_lock w))\<rparr>"

text \<open>\<open>addr i\<close> is the address of object \<open>i\<close> of the area, and \<open>lk\<close> the thread id of the caller.\<close>

definition pth_find_shared_mutex :: "(nat \<Rightarrow> nat) \<Rightarrow> nat \<Rightarrow> nat \<Rightarrow> ('a sworld_scheme) \<Rightarrow> (bool \<times> ('a sworld_scheme)) option" where
  "pth_find_shared_mutex addr lk m w =
     do { w1 \<leftarrow> lock_shared lk w;
          let found = (find (\<lambda>i. shared_used w1 (int i) \<and> m = addr i) [0..<shared_objects w1] \<noteq> None);
          Some (found, unlock_shared lk w1) }"

text \<open>\<open>mx_index\<close> is a \<open>short\<close>.\<close>

definition short :: "nat \<Rightarrow> int" where
  "short i = sint (of_nat i :: 16 word)"

definition pth_alloc_shared_mutex :: "(nat \<Rightarrow> nat) \<Rightarrow> nat \<Rightarrow> ('a sworld_scheme) \<Rightarrow> (nat \<times> ('a sworld_scheme)) option" where
  "pth_alloc_shared_mutex addr lk w =
     do { w1 \<leftarrow> lock_shared lk w;
          case find (\<lambda>i. \<not> shared_used w1 (int i)) [0..<shared_objects w1] of
            None \<Rightarrow> Some (0, unlock_shared lk w1)
          | Some i \<Rightarrow>
              (let w2 = upd_mutex (addr i) (\<lambda>x. x\<lparr>mx_index := short i, mx_shared := (mx_shared x)\<lparr>rtype := 0\<rparr>\<rparr>) w1;
                   w3 = w2\<lparr>shared_used := (shared_used w2)(int i := True)\<rparr>
               in Some (addr i, unlock_shared lk w3)) }"

definition pth_alloc_shared_cond :: "(nat \<Rightarrow> nat) \<Rightarrow> nat \<Rightarrow> ('a sworld_scheme) \<Rightarrow> (nat \<times> ('a sworld_scheme)) option" where
  "pth_alloc_shared_cond addr lk w =
     do { w1 \<leftarrow> lock_shared lk w;
          case find (\<lambda>i. \<not> shared_used w1 (int i)) [0..<shared_objects w1] of
            None \<Rightarrow> Some (0, unlock_shared lk w1)
          | Some i \<Rightarrow>
              (let w2 = upd_cond (addr i) (\<lambda>x. x\<lparr>cn_index := int i, cn_shared := (cn_shared x)\<lparr>rtype := 1\<rparr>\<rparr>) w1;
                   w3 = w2\<lparr>shared_used := (shared_used w2)(int i := True)\<rparr>
               in Some (addr i, unlock_shared lk w3)) }"

subsection \<open>Read-write locks\<close>

text \<open>\<open>pmem\<close> is the result of \<open>pth_malloc\<close>, and \<open>sz\<close> the size of a mutex.\<close>

definition pth_rwlock_init :: "(nat \<Rightarrow> nat) \<Rightarrow> nat \<Rightarrow> nat \<Rightarrow> nat \<Rightarrow> nat \<Rightarrow> nat \<Rightarrow> bool \<Rightarrow> ('a sworld_scheme) \<Rightarrow> (int \<times> ('a sworld_scheme)) option" where
  "pth_rwlock_init addr lk cur pmem sz r sh w =
     (let w0 = upd_rwlock r (\<lambda>x. x\<lparr>rw_state := PTH_RWLOCK_INITIALIZED, rw_readers := 0\<rparr>) w
      in if sh then
           do { let a = \<lparr>at_type = 0, at_pshared = True, at_robustness = 0\<rparr>;
                (rd, w1) \<leftarrow> pth_alloc_shared_mutex addr lk w0;
                let w1 = upd_rwlock r (\<lambda>x. x\<lparr>rw_mutex_rd := rd\<rparr>) w1;
                if rd = 0 then Some (ENOMEM, w1)
                else do { let w2 = snd (pth_mutex_init cur rd (Some a) w1);
                          (rw, w3) \<leftarrow> pth_alloc_shared_mutex addr lk w2;
                          let w3 = upd_rwlock r (\<lambda>x. x\<lparr>rw_mutex_rw := rw\<rparr>) w3;
                          if rw = 0 then Some (ENOMEM, snd (pth_mutex_destroy rd w3))
                          else let w4 = snd (pth_mutex_init cur rw (Some a) w3)
                               in Some (0, upd_rwlock r (\<lambda>x. x\<lparr>rw_pshared := True\<rparr>) w4) } }
         else if pmem = 0 then Some (ENOMEM, upd_rwlock r (\<lambda>x. x\<lparr>rw_mutex_rd := 0\<rparr>) w0)
         else let w1 = upd_rwlock r (\<lambda>x. x\<lparr>rw_mutex_rd := pmem, rw_mutex_rw := pmem + sz\<rparr>) w0;
                  w2 = snd (pth_mutex_init cur pmem None w1);
                  w3 = snd (pth_mutex_init cur (pmem + sz) None w2)
              in Some (0, upd_rwlock r (\<lambda>x. x\<lparr>rw_pshared := False\<rparr>) w3))"

definition pth_rwlock_destroy :: "nat \<Rightarrow> ('a sworld_scheme) \<Rightarrow> int \<times> ('a sworld_scheme)" where
  "pth_rwlock_destroy r w =
     (let rd = rw_mutex_rd (rwlocks w r); rw = rw_mutex_rw (rwlocks w r)
      in if locked w rd \<or> locked w rw then (EBUSY, w)
         else if \<not> rw_pshared (rwlocks w r) then (0, w)
         else (0, snd (pth_mutex_destroy rw (snd (pth_mutex_destroy rd w)))))"

definition pth_rwlock_acquire :: "('a sworld_scheme, 'k, 'b) condenv_scheme \<Rightarrow> (('a, 'k) sstate \<Rightarrow> nat) \<Rightarrow> nat \<Rightarrow> rw_op \<Rightarrow> bool \<Rightarrow> bool
    \<Rightarrow> ('a, 'k) sstate \<Rightarrow> (int \<times> ('a, 'k) sstate) option" where
  "pth_rwlock_acquire E self r op tryonly ev s =
     (let x = rwlocks (fst s) r
      in if \<not> has (rw_state x) PTH_RWLOCK_INITIALIZED then Some (EINVAL, s)
         else if op = PTH_RWLOCK_RW then
           do { (rc, w1, k1) \<leftarrow> acquire_now E self (rw_mutex_rw x) tryonly ev s;
                if rc \<noteq> 0 then Some (rc, w1, k1)
                else Some (0, upd_rwlock r (\<lambda>x. x\<lparr>rw_mode := PTH_RWLOCK_RW\<rparr>) w1, k1) }
         else
           do { (rc, w1, k1) \<leftarrow> acquire_now E self (rw_mutex_rd x) tryonly ev s;
                if rc \<noteq> 0 then Some (rc, w1, k1)
                else do { let w2 = upd_rwlock r (\<lambda>x. x\<lparr>rw_readers := rw_readers x + 1\<rparr>) w1;
                          (rc2, w3, k3) \<leftarrow> (if rw_readers (rwlocks w2 r) = 1
                                           then acquire_now E self (rw_mutex_rw (rwlocks w2 r)) tryonly ev (w2, k1)
                                           else Some (0, w2, k1));
                          if rc2 \<noteq> 0 then
                            do { let w4 = upd_rwlock r (\<lambda>x. x\<lparr>rw_readers := rw_readers x - 1\<rparr>) w3;
                                 (_, s5) \<leftarrow> release_now E self (rw_mutex_rd (rwlocks w4 r)) (w4, k3);
                                 Some (rc2, s5) }
                          else
                            do { let w4 = upd_rwlock r (\<lambda>x. x\<lparr>rw_mode := PTH_RWLOCK_RD\<rparr>) w3;
                                 (_, s5) \<leftarrow> release_now E self (rw_mutex_rd (rwlocks w4 r)) (w4, k3);
                                 Some (0, s5) } } })"

definition pth_rwlock_release :: "('a sworld_scheme, 'k, 'b) condenv_scheme \<Rightarrow> (('a, 'k) sstate \<Rightarrow> nat) \<Rightarrow> nat
    \<Rightarrow> ('a, 'k) sstate \<Rightarrow> (int \<times> ('a, 'k) sstate) option" where
  "pth_rwlock_release E self r s =
     (let x = rwlocks (fst s) r
      in if \<not> has (rw_state x) PTH_RWLOCK_INITIALIZED then Some (EINVAL, s)
         else if rw_mode x = PTH_RWLOCK_RW then release_now E self (rw_mutex_rw x) s
         else
           do { (rc, w1, k1) \<leftarrow> acquire_now E self (rw_mutex_rd x) False False s;
                if rc \<noteq> 0 then Some (rc, w1, k1)
                else do { let w2 = upd_rwlock r (\<lambda>x. x\<lparr>rw_readers := rw_readers x - 1\<rparr>) w1;
                          (rc2, w3, k3) \<leftarrow> (if rw_readers (rwlocks w2 r) = 0
                                           then release_now E self (rw_mutex_rw (rwlocks w2 r)) (w2, k1)
                                           else Some (0, w2, k1));
                          if rc2 \<noteq> 0 then
                            do { let w4 = upd_rwlock r (\<lambda>x. x\<lparr>rw_readers := rw_readers x + 1\<rparr>) w3;
                                 (_, s5) \<leftarrow> release_now E self (rw_mutex_rd (rwlocks w4 r)) (w4, k3);
                                 Some (rc2, s5) }
                          else
                            do { let w4 = upd_rwlock r (\<lambda>x. x\<lparr>rw_mode := PTH_RWLOCK_RD\<rparr>) w3;
                                 (_, s5) \<leftarrow> release_now E self (rw_mutex_rd (rwlocks w4 r)) (w4, k3);
                                 Some (0, s5) } } })"
subsection \<open>Condition variables\<close>

text \<open>\<open>_pth_cond_init\<close>\<close>

definition pth_cond_init :: "nat \<Rightarrow> bool \<Rightarrow> ('a sworld_scheme) \<Rightarrow> bool \<times> ('a sworld_scheme)" where
  "pth_cond_init c sh w =
     (let w1 = upd_cond c (\<lambda>x. x\<lparr>cn_shared := rfutex_init c sh (cn_shared x)\<rparr>) w;
          w2 = (if \<not> sh then upd_cond c (\<lambda>x. x\<lparr>cn_index := -1\<rparr>) w1 else w1);
          w3 = upd_cond c (\<lambda>x. x\<lparr>cn_state := PTH_COND_INITIALIZED, cn_waiters := 0, cn_wakecnt := 0,
                                  cn_lock := pth_qlock_init (cn_lock x)\<rparr>) w2
      in (True, w3\<lparr>elems := element_init (CnWait c) (elems w3)\<rparr>))"

definition pth_cond_destroy :: "nat \<Rightarrow> ('a sworld_scheme) \<Rightarrow> int \<times> ('a sworld_scheme)" where
  "pth_cond_destroy c w =
     (if \<not> pshared (cn_shared (conds w c)) then (EINVAL, w)
      else let w1 = w\<lparr>shared_used := (shared_used w)(cn_index (conds w c) := False)\<rparr>
           in (0, upd_cond c (\<lambda>x. x\<lparr>cn_state := 0, cn_index := 0, cn_waiters := 0, cn_wakecnt := 0,
                 cn_lock := pth_qlock_init (cn_lock x), cn_shared := rfutex_destroy (cn_shared x)\<rparr>) w1))"

text \<open>\<open>_pth_acquire\<close> and \<open>_pth_release\<close> on the lock of a condition variable.\<close>

definition cn_acquire :: "nat \<Rightarrow> ('a sworld_scheme) \<Rightarrow> ('a sworld_scheme) option" where
  "cn_acquire c w = map_option (\<lambda>s. upd_cond c (\<lambda>x. x\<lparr>cn_lock := (cn_lock x)\<lparr>spinlock := s\<rparr>\<rparr>) w)
                      (spin_lock (spinlock (cn_lock (conds w c))))"

definition cn_release :: "nat \<Rightarrow> ('a sworld_scheme) \<Rightarrow> ('a sworld_scheme)" where
  "cn_release c w = upd_cond c (\<lambda>x. x\<lparr>cn_lock := (cn_lock x)\<lparr>spinlock := spin_unlock (spinlock (cn_lock x))\<rparr>\<rparr>) w"

text \<open>The futex of a condition variable.\<close>

definition cond_futex :: "(('a sworld_scheme) \<times> 'k) fkernel \<Rightarrow> ((('a sworld_scheme) \<times> 'k) fkernel \<Rightarrow> (('a sworld_scheme) \<times> 'k) fstate
    \<Rightarrow> int \<times> (('a sworld_scheme) \<times> 'k) fstate) \<Rightarrow> nat \<Rightarrow> ('a, 'k) sstate \<Rightarrow> int \<times> ('a, 'k) sstate" where
  "cond_futex K f c s =
     (let (w, k) = s; (r, (g, (w1, k1))) = f K (futex (cn_shared (conds w c)), (w, k))
      in (r, upd_cond c (\<lambda>x. x\<lparr>cn_shared := (cn_shared x)\<lparr>futex := g\<rparr>\<rparr>) w1, k1))"

text \<open>A thread leaves the condition variable, which it has locked.\<close>

definition cond_leave :: "nat \<Rightarrow> nat \<Rightarrow> ('a sworld_scheme) \<Rightarrow> ('a sworld_scheme)" where
  "cond_leave t c w =
     (let w1 = (if pth_number_of_natives w > 1 \<and> \<not> pshared (cn_shared (conds w c))
                then w\<lparr>elems := pth_element_delete (Elem t) (elems w)\<rparr> else w);
          w2 = upd_cond c (\<lambda>x. x\<lparr>cn_waiters := cn_waiters x - 1\<rparr>) w1;
          x = conds w2 c
      in if (cn_waiters x = 0 \<or> has (cn_state x) PTH_COND_HANDLED) \<and> has (cn_state x) PTH_COND_SIGNALED
         then let w3 = upd_cond c (\<lambda>x. x\<lparr>cn_state := clear_flag PTH_COND_HANDLED (clear_flag PTH_COND_BROADCAST (cn_state x)),
                                          cn_wakecnt := cn_wakecnt x - 1\<rparr>) w2
              in if cn_wakecnt (conds w3 c) = 0
                 then upd_cond c (\<lambda>x. x\<lparr>cn_state := clear_flag PTH_COND_SIGNALED (cn_state x)\<rparr>) w3 else w3
         else w2)"

text \<open>The loop at label \<open>wait\<close>; it ends with the condition variable locked.\<close>

partial_function (option) cond_wait_loop ::
  "('a sworld_scheme, 'k) condenv \<Rightarrow> nat \<Rightarrow> nat \<Rightarrow> nat \<Rightarrow> nat \<Rightarrow> ('a sworld_scheme) \<times> 'k \<Rightarrow> (('a sworld_scheme) \<times> 'k) option" where
  [code]: "cond_wait_loop E t c ev ev_extra s =
     do { (_, w1, k1) \<leftarrow> pth_wait (e_yield E) (e_cpoint E) t ev s;
          let w2 = (if ev_extra \<noteq> 0 then w1\<lparr>ev_heap := snd (pth_event_isolate ev (ev_heap w1))\<rparr> else w1);
          w3 \<leftarrow> cn_acquire c w2;
          if \<not> has (cn_state (conds w3 c)) PTH_COND_SIGNALED \<and> ev_occurred (ev_heap w3 ev) \<and> \<not> pshared (cn_shared (conds w3 c))
          then cond_wait_loop E t c ev ev_extra (cn_release c w3, k1)
          else Some (w3, k1) }"

text \<open>
  A bound thread sleeps in \<open>select\<close>.  A timeout is in \<open>ev_extra\<close>, which must be a timer
  event, and a timeout is recorded there.
\<close>

definition cond_sleep :: "('a sworld_scheme, 'k) condenv \<Rightarrow> (('a, 'k) sstate \<Rightarrow> nat) \<Rightarrow> nat \<Rightarrow> nat \<Rightarrow> nat \<Rightarrow> nat
    \<Rightarrow> ('a, 'k) sstate \<Rightarrow> ('a, 'k) sstate option" where
  "cond_sleep E self t c m ev_extra s =
     do { let (w, k) = s;
          let d = self s;
          pdelay \<leftarrow> (if ev_extra = 0 then Some None
                     else case ev_args (ev_heap w ev_extra) of
                            TIME tv \<Rightarrow> Some (Some (pth_time_to_timeval (pth_time_sub tv (e_now E k))))
                          | _ \<Rightarrow> None);
          let w1 = upd_thread t (\<lambda>x. x\<lparr>tstate := PTH_STATE_WAITING\<rparr>) (upd_native d (\<lambda>x. x\<lparr>is_bound := False\<rparr>) w);
          (_, s2) \<leftarrow> release_now E self m (cn_release c w1, k);
          let (rc, w3, k3) = e_select_t E pdelay s2;
          let w4 = (if rc = 0 \<and> ev_extra \<noteq> 0 then upd_ev ev_extra (\<lambda>e. e\<lparr>ev_occurred := True\<rparr>) w3 else w3);
          w5 \<leftarrow> cn_acquire c w4;
          Some (upd_thread t (\<lambda>x. x\<lparr>tstate := PTH_STATE_READY\<rparr>) (upd_native d (\<lambda>x. x\<lparr>is_bound := True\<rparr>) w5), k3) }"

text \<open>An unbound thread waits for an event; \<open>kv\<close> is the key variable of its static event.\<close>

definition cond_event_wait :: "('a sworld_scheme, 'k) condenv \<Rightarrow> (('a, 'k) sstate \<Rightarrow> nat) \<Rightarrow> nat \<Rightarrow> nat \<Rightarrow> nat \<Rightarrow> nat \<Rightarrow> nat \<Rightarrow> int
    \<Rightarrow> ('a, 'k) sstate \<Rightarrow> ('a, 'k) sstate option" where
  "cond_event_wait E self kv t c m ev_extra fd s =
     do { let (w, k) = s;
          let lk = tid (natives w (self s));
          (ev, w1) \<leftarrow> (if fd > 0
             then pth_event (e_mem E) (\<lambda>w. fst (e_yield E (w, k))) lk t
                    (set_flag PTH_MODE_STATIC (set_flag PTH_UNTIL_FD_READABLE PTH_EVENT_FD)) [VPtr kv, VInt fd] (cn_release c w)
             else pth_event (e_mem E) (\<lambda>w. fst (e_yield E (w, k))) lk t
                    (set_flag PTH_MODE_STATIC PTH_EVENT_COND) [VPtr kv, VPtr c] (cn_release c w));
          let w2 = (if ev_extra \<noteq> 0 then w1\<lparr>ev_heap := snd (pth_event_concat ev [ev_extra] (ev_heap w1))\<rparr> else w1);
          (_, s3) \<leftarrow> release_now E self m (w2, k);
          cond_wait_loop E t c ev ev_extra s3 }"

definition pth_cond_await :: "('a sworld_scheme, 'k) condenv \<Rightarrow> (('a, 'k) sstate \<Rightarrow> nat) \<Rightarrow> nat \<Rightarrow> nat \<Rightarrow> nat \<Rightarrow> nat
    \<Rightarrow> ('a, 'k) sstate \<Rightarrow> (bool \<times> ('a, 'k) sstate) option" where
  "pth_cond_await E self kv c m ev_extra s =
     (let (w, k) = s; d = self s; t = current (natives w d)
      in if \<not> has (cn_state (conds w c)) PTH_COND_INITIALIZED \<or> mx_owner (mutexes w m) \<noteq> t then Some (False, s)
         else do { w1 \<leftarrow> cn_acquire c w;
                   let w2 = upd_cond c (\<lambda>x. x\<lparr>cn_waiters := cn_waiters x + 1\<rparr>) w1;
                   let (fd, w3, k3) = (if pshared (cn_shared (conds w2 c)) then cond_futex (e_futex E) futex_add_waiter c (w2, k)
                                       else (0, w2, k));
                   if fd < 0 then Some (False, cn_release c w3, k3)
                   else do { let w4 = (if \<not> pshared (cn_shared (conds w3 c)) \<and> pth_number_of_natives w3 > 1
                                       then w3\<lparr>elems := pth_element_insert (Elem t) (CnWait c) (elems w3)\<rparr> else w3);
                             (w5, k5) \<leftarrow> (if is_bounded (natives w4 d) then cond_sleep E self t c m ev_extra (w4, k3)
                                         else cond_event_wait E self kv t c m ev_extra fd (w4, k3));
                             let w6 = cn_release c (cond_leave t c w5);
                             (_, w7, k7) \<leftarrow> acquire_now E self m False False (w6, k5);
                             Some (True, if cancelreq (threads w7 t) then e_cpoint E (w7, k7) else (w7, k7)) } })"

text \<open>The handler that runs when a waiting thread is cancelled; \<open>lk\<close> is the caller's thread id.\<close>

definition pth_cond_cleanup_handler :: "('a sworld_scheme, 'k) condenv \<Rightarrow> (('a, 'k) sstate \<Rightarrow> nat) \<Rightarrow> nat \<Rightarrow> nat
    \<Rightarrow> ('a, 'k) sstate \<Rightarrow> ('a, 'k) sstate option" where
  "pth_cond_cleanup_handler E self m c s =
     do { let (w, k) = s;
          let t = current (natives w (self s));
          let lk = tid (natives w (self s));
          l1 \<leftarrow> pth_acquire_lock lk (cn_lock (conds w c));
          let w1 = upd_cond c (\<lambda>x. x\<lparr>cn_lock := l1, cn_waiters := cn_waiters x - 1\<rparr>) w;
          let w2 = (if pth_number_of_natives w1 > 1 \<and> \<not> pshared (cn_shared (conds w1 c))
                    then w1\<lparr>elems := pth_element_delete (Elem t) (elems w1)\<rparr> else w1);
          let x = conds w2 c;
          let w3 = (if (cn_waiters x = 0 \<or> has (cn_state x) PTH_COND_HANDLED) \<and> has (cn_state x) PTH_COND_SIGNALED
                    then upd_cond c (\<lambda>x. x\<lparr>cn_state := clear_flag PTH_COND_HANDLED (clear_flag PTH_COND_BROADCAST
                                                          (clear_flag PTH_COND_SIGNALED (cn_state x)))\<rparr>) w2
                    else w2);
          let w4 = upd_cond c (\<lambda>x. x\<lparr>cn_lock := snd (pth_release_lock lk (cn_lock x))\<rparr>) w3;
          (_, s5) \<leftarrow> acquire_now E self m False False (w4, k);
          Some s5 }"

definition pth_check_waiters :: "nat \<Rightarrow> ('a sworld_scheme) \<Rightarrow> bool" where
  "pth_check_waiters c w \<longleftrightarrow> cn_waiters (conds w c) = 0"

text \<open>
  The loop over the waiting threads, from the one that waits longest.  The result is whether
  the function returns there, and \<open>ds\<close>.
\<close>

partial_function (option) notify_loop ::
  "nat \<Rightarrow> bool \<Rightarrow> nat \<Rightarrow> elem \<Rightarrow> ('a sworld_scheme) \<Rightarrow> (bool \<times> nat \<times> ('a sworld_scheme)) option" where
  [code]: "notify_loop c broadcast ds cq w =
     (case cq of
        Elem tmp \<Rightarrow>
          (let b = boundnative (threads w tmp)
           in if b \<noteq> 0 then
                (if \<not> broadcast
                 then Some (True, b, write_sigpipe b (cn_release c (upd_cond c (\<lambda>x. x\<lparr>cn_wakecnt := cn_wakecnt x + 1\<rparr>) w)))
                 else let w1 = write_sigpipe b w in notify_loop c broadcast 0 (eprev (elems w1) cq) w1)
              else let ds1 = waited_native (threads w tmp)
                   in do { w1 \<leftarrow> (if ds1 \<noteq> 0
                                  then make_ready ds1 tmp (if \<not> broadcast
                                         then upd_cond c (\<lambda>x. x\<lparr>cn_state := set_flag PTH_COND_HANDLED (cn_state x)\<rparr>) w else w)
                                  else Some w);
                           if \<not> broadcast then Some (False, ds1, w1)
                           else notify_loop c broadcast ds1 (eprev (elems w1) cq) w1 })
      | CnWait c' \<Rightarrow> if c' = c then Some (False, ds, w) else None
      | _ \<Rightarrow> None)"

text \<open>\<open>while (cond->cn_waiters > 0) pth_yield (NULL)\<close>\<close>

partial_function (option) yield_waiters :: "('a sworld_scheme, 'k) condenv \<Rightarrow> nat \<Rightarrow> ('a sworld_scheme) \<times> 'k
    \<Rightarrow> (('a sworld_scheme) \<times> 'k) option" where
  [code]: "yield_waiters E c s =
     (if cn_waiters (conds (fst s) c) > 0 then yield_waiters E c (e_yield E s) else Some s)"

text \<open>After the notification, with the condition variable unlocked.\<close>

definition notify_end :: "('a sworld_scheme, 'k) condenv \<Rightarrow> nat \<Rightarrow> nat \<Rightarrow> nat \<Rightarrow> nat \<Rightarrow> bool \<Rightarrow> nat \<Rightarrow> ('a, 'k) sstate
    \<Rightarrow> ('a, 'k) sstate option" where
  "notify_end E kv checkf d c broadcast ds s =
     (let (w, k) = s; t = current (natives w d)
      in if pshared (cn_shared (conds w c)) then
           do { let s1 = snd (cond_futex (e_futex E) (\<lambda>K f. (0, if broadcast then futex_notify_all K f else futex_notify K f)) c s);
                if broadcast \<and> cn_waiters (conds (fst s1) c) > 0
                then do { (_, w2) \<leftarrow> pth_wakeup_anative (fst s1); yield_waiters E c (w2, snd s1) }
                else Some s1 }
         else if \<not> broadcast then
           (if is_bounded (natives w d) then map_option (\<lambda>(_, w1). (w1, k)) (pth_wakeup_anative w)
            else if ds \<noteq> 0 \<and> \<not> is_bound (natives w ds) then Some (write_sigpipe ds w, k)
            else Some s)
         else if cn_waiters (conds w c) > 0 then
           (if boundnative (threads w t) = 0 then
              do { (ev, w1) \<leftarrow> pth_event (e_mem E) (\<lambda>w. fst (e_yield E (w, k))) (tid (natives w d)) t
                     (set_flag PTH_MODE_STATIC PTH_EVENT_FUNC) [VPtr kv, VPtr checkf, VPtr c, VTime pth_time_zero] w;
                   (_, s2) \<leftarrow> pth_wait (e_yield E) (e_cpoint E) t ev (w1, k);
                   Some s2 }
            else do { (_, w1) \<leftarrow> pth_wakeup_anative w; yield_waiters E c (w1, k) })
         else Some s)"

text \<open>\<open>checkf\<close> is the address of \<open>pth_check_waiters\<close>.\<close>

definition pth_cond_notify :: "('a sworld_scheme, 'k) condenv \<Rightarrow> nat \<Rightarrow> nat \<Rightarrow> nat \<Rightarrow> nat \<Rightarrow> bool \<Rightarrow> ('a, 'k) sstate
    \<Rightarrow> (bool \<times> ('a, 'k) sstate) option" where
  "pth_cond_notify E kv checkf d c broadcast s =
     (let (w, k) = s
      in if \<not> has (cn_state (conds w c)) PTH_COND_INITIALIZED then Some (False, s)
         else do { w1 \<leftarrow> cn_acquire c w;
                   if cn_waiters (conds w1 c) > 0
                   then do { let w2 = upd_cond c (\<lambda>x. x\<lparr>cn_state := clear_flag PTH_COND_HANDLED
                                 ((if broadcast then set_flag PTH_COND_BROADCAST else clear_flag PTH_COND_BROADCAST)
                                    (set_flag PTH_COND_SIGNALED (cn_state x)))\<rparr>) w1;
                             (done, ds, w3) \<leftarrow>
                               (if pth_number_of_natives w2 > 1 \<and> \<not> pshared (cn_shared (conds w2 c))
                                then notify_loop c broadcast 0 (eprev (elems w2) (CnWait c)) w2 else Some (False, 0, w2));
                             if done then Some (True, w3, k)
                             else do { let w4 = cn_release c (upd_cond c (\<lambda>x. x\<lparr>cn_wakecnt := cn_wakecnt x + 1\<rparr>) w3);
                                       s5 \<leftarrow> notify_end E kv checkf d c broadcast ds (w4, k);
                                       Some (True, s5) } }
                   else Some (True, cn_release c w1, k) })"

subsection \<open>Barriers\<close>

text \<open>\<open>pth_cancel_state\<close> of pth_cancel.c: the result is the old state.\<close>

definition pth_cancel_state :: "nat \<Rightarrow> u32 \<Rightarrow> ('a world_scheme) \<Rightarrow> u32 \<times> ('a world_scheme)" where
  "pth_cancel_state t newstate w =
     (cancelstate (threads w t), if newstate \<noteq> 0 then upd_thread t (\<lambda>x. x\<lparr>cancelstate := newstate\<rparr>) w else w)"

definition pth_barrier_init :: "nat \<Rightarrow> nat \<Rightarrow> int \<Rightarrow> ('a sworld_scheme) \<Rightarrow> bool \<times> ('a sworld_scheme)" where
  "pth_barrier_init cur b threshold w =
     (if b = 0 \<or> threshold \<le> 0 then (False, w)
      else let (ok1, w1) = pth_mutex_init cur (br_mutex (barriers w b)) None w
           in if \<not> ok1 then (False, w1)
              else let (ok2, w2) = pth_cond_init (br_cond (barriers w1 b)) False w1
                   in if \<not> ok2 then (False, w2)
                      else (True, upd_barrier b (\<lambda>x. x\<lparr>br_state := PTH_BARRIER_INITIALIZED, br_threshold := threshold,
                                    br_count := threshold, br_cycle := False\<rparr>) w2))"

text \<open>The loop that waits for the end of the cycle; the result is \<open>rv\<close>.\<close>

partial_function (option) barrier_wait :: "('a sworld_scheme, 'k) condenv \<Rightarrow> (('a sworld_scheme) \<times> 'k \<Rightarrow> nat) \<Rightarrow> nat \<Rightarrow> nat \<Rightarrow> bool \<Rightarrow> int
    \<Rightarrow> ('a sworld_scheme) \<times> 'k \<Rightarrow> (int \<times> ('a sworld_scheme) \<times> 'k) option" where
  [code]: "barrier_wait E self kv b cycle rv s =
     (let x = barriers (fst s) b
      in if cycle \<noteq> br_cycle x then Some (rv, s)
         else do { (ok, s1) \<leftarrow> pth_cond_await E self kv (br_cond x) (br_mutex x) 0 s;
                   if \<not> ok then Some (0, s1) else barrier_wait E self kv b cycle 1 s1 })"

definition pth_barrier_reach :: "('a sworld_scheme, 'k) condenv \<Rightarrow> (('a, 'k) sstate \<Rightarrow> nat) \<Rightarrow> nat \<Rightarrow> nat \<Rightarrow> nat \<Rightarrow> nat
    \<Rightarrow> ('a, 'k) sstate \<Rightarrow> (int \<times> ('a, 'k) sstate) option" where
  "pth_barrier_reach E self kv kv2 checkf b s =
     (let (w, k) = s; x = barriers w b
      in if b = 0 then Some (0, s)
         else if \<not> has (br_state x) PTH_BARRIER_INITIALIZED then Some (0, s)
         else do { (rc, w1, k1) \<leftarrow> acquire_now E self (br_mutex x) False False s;
                   if rc = 0 then Some (0, w1, k1)
                   else do { let cycle = br_cycle (barriers w1 b);
                             let w2 = upd_barrier b (\<lambda>x. x\<lparr>br_count := br_count x - 1\<rparr>) w1;
                             (rv, s3) \<leftarrow>
                               (if br_count (barriers w2 b) = 0 then
                                  do { let w3 = upd_barrier b (\<lambda>x. x\<lparr>br_cycle := \<not> br_cycle x, br_count := br_threshold x\<rparr>) w2;
                                       (ok, s4) \<leftarrow> pth_cond_notify E kv2 checkf (self (w3, k1)) (br_cond (barriers w3 b)) True (w3, k1);
                                       Some (if ok then PTH_BARRIER_TAILLIGHT else 0, s4) }
                                else
                                  do { let t = current (natives w2 (self (w2, k1)));
                                       let (old, w3) = pth_cancel_state t PTH_CANCEL_DISABLE w2;
                                       (rv, w4, k4) \<leftarrow> barrier_wait E self kv b cycle
                                          (if br_threshold (barriers w3 b) = br_count (barriers w3 b) then PTH_BARRIER_HEADLIGHT else 1) (w3, k1);
                                       Some (rv, snd (pth_cancel_state t old w4), k4) });
                             (_, s5) \<leftarrow> release_now E self (br_mutex (barriers (fst s3) b)) s3;
                             Some (rv, s5) } })"

end
