(* ===== verification/SyncProps.thy ===== *)
theory SyncProps
  imports Sync
begin

text \<open>
  Theorems on the objects of Sync.thy: what a read-write lock grants and refuses, how a
  notification reaches the waiting threads, the state of a condition variable, and the places where
  the code does not do what it is for.
\<close>

subsection \<open>Fields that the mutex functions leave alone\<close>

lemma sworld_more:
  fixes w w' :: "('a sworld_scheme)"
  assumes "mworld.more w' = mworld.more w"
  shows "rwlocks w' = rwlocks w" "conds w' = conds w" "barriers w' = barriers w" "ev_heap w' = ev_heap w"
  using assms by (cases w, cases w', simp)+

lemma upd_sync_sel [simp]:
  "conds (upd_cond c f w) = (conds w)(c := f (conds w c))" "rwlocks (upd_rwlock r g w) = (rwlocks w)(r := g (rwlocks w r))"
  "mutexes (upd_cond c f w) = mutexes w" "mutexes (upd_rwlock r g w) = mutexes w"
  "natives (upd_cond c f w) = natives w" "natives (upd_rwlock r g w) = natives w"
  "threads (upd_cond c f w) = threads w" "threads (upd_rwlock r g w) = threads w"
  "elems (upd_cond c f w) = elems w" "elems (upd_rwlock r g w) = elems w" "qw (upd_cond c f w) = qw w"
  "pth_number_of_natives (upd_cond c f w) = pth_number_of_natives w"
  "pth_number_of_natives (upd_rwlock r g w) = pth_number_of_natives w"
  "ev_heap (upd_cond c f w) = ev_heap w" "sigpipe (upd_cond c f w) = sigpipe w"
  by (simp_all add: upd_cond_def upd_rwlock_def)

text \<open>A private mutex that no thread is working on or waiting for.\<close>

definition idle_mutex :: "('a mworld_scheme) \<Rightarrow> nat \<Rightarrow> bool" where
  "idle_mutex w m \<longleftrightarrow> spin_free w m \<and> private_mutex w m \<and> mx_waitcount (mutexes w m) = 0
     \<and> (pth_number_of_natives w \<le> 1 \<or> eprev (elems w) (MxWait m) = MxWait m)"

lemma idle_upd [simp]:
  "idle_mutex (upd_rwlock r f w) m = idle_mutex w m" "idle_mutex (upd_cond c g w) m = idle_mutex w m"
  by (simp_all add: idle_mutex_def spin_free_def private_mutex_def)

text \<open>Mutex \<open>m\<close> is taken by thread \<open>t\<close> or dropped, and nothing else that matters changes.\<close>

definition only_mutex :: "nat \<Rightarrow> ('a mworld_scheme) \<Rightarrow> ('a mworld_scheme) \<Rightarrow> bool" where
  "only_mutex m w w' \<longleftrightarrow> (\<forall>x. x \<noteq> m \<longrightarrow> mutexes w' x = mutexes w x) \<and> (\<forall>x. idle_mutex w x \<longrightarrow> idle_mutex w' x)
     \<and> natives w' = natives w \<and> mworld.more w' = mworld.more w"

definition took :: "nat \<Rightarrow> nat \<Rightarrow> ('a mworld_scheme) \<Rightarrow> ('a mworld_scheme) \<Rightarrow> bool" where
  "took m t w w' \<longleftrightarrow> only_mutex m w w' \<and> locked w' m \<and> mx_owner (mutexes w' m) = t \<and> mx_count (mutexes w' m) = 1"

definition dropped :: "nat \<Rightarrow> ('a mworld_scheme) \<Rightarrow> ('a mworld_scheme) \<Rightarrow> bool" where
  "dropped m w w' \<longleftrightarrow> only_mutex m w w' \<and> \<not> locked w' m"

lemma acquire_now_free:
  assumes i: "idle_mutex w m" and f: "\<not> locked w m" and d: "d \<noteq> 0"
  shows "\<exists>w'. acquire_now E (\<lambda>_. d) m tryonly ev (w, k) = Some (0, w', k) \<and> took m (current (natives w d)) w w'"
proof -
  let ?t = "current (natives w d)"
  have sf: "spin_free w m" and p: "private_mutex w m" and wc: "mx_waitcount (mutexes w m) = 0"
    using i by (auto simp: idle_mutex_def)
  obtain w1 where w1: "mx_acquire m w = Some w1" using mx_acquire_free [OF sf] by blast
  let ?w' = "mx_release m (mutex_take d ?t m w1)"
  have f1: "mx_state (mutexes w1 m) = mx_state (mutexes w m)" "mx_waitcount (mutexes w1 m) = 0" "natives w1 = natives w"
    "elems w1 = elems w" "pth_number_of_natives w1 = pth_number_of_natives w" "mworld.more w1 = mworld.more w"
    "\<And>x. x \<noteq> m \<Longrightarrow> mutexes w1 x = mutexes w x" "mx_shared (mutexes w1 m) = mx_shared (mutexes w m)"
    using w1 wc by (auto simp: mx_acquire_def)
  have e: "mutex_enter d ?t m tryonly w = Some (Done 0, ?w')" using w1 f1 f by (simp add: mutex_enter_def Let_def)
  have "acquire_now E (\<lambda>_. d) m tryonly ev (w, k) = Some (0, ?w', k)"
    unfolding acquire_now_def by (rule acquire_private [OF p d]) (use e in simp)
  moreover have "idle_mutex ?w' x" if "idle_mutex w x" for x
    using that f1 by (cases "x = m")
      (auto simp: idle_mutex_def spin_free_def private_mutex_def mx_release_def mutex_take_def mutex_flags spin_unlock_def)
  then have "took m ?t w ?w'"
    using f1 by (auto simp: took_def only_mutex_def mx_release_def mutex_take_def mutex_flags)
  ultimately show ?thesis by blast
qed

lemma acquire_now_busy:
  assumes "idle_mutex w m" and "locked w m" and "mx_owner (mutexes w m) \<noteq> current (natives w d)" and "d \<noteq> 0"
  shows "acquire_now E (\<lambda>_. d) m True ev (w, k) = Some (EBUSY, w, k)"
  unfolding acquire_now_def
  using mutex_enter_cases(4) [of w m "current (natives w d)" d] assms
  by (simp add: acquire_private idle_mutex_def)

lemma release_now_last:
  assumes i: "idle_mutex w m" and own: "locked w m" "mx_owner (mutexes w m) = current (natives w d)" "mx_count (mutexes w m) = 1"
  shows "\<exists>w'. release_now E (\<lambda>_. d) m (w, k) = Some (0, w', k) \<and> dropped m w w'"
proof -
  have "\<exists>w'. pth_mutex_release (sysenv.truncate E) (tid (natives w d)) d m (w, k) = Some (0, w', k)
     \<and> msame (mutex_drop (current (natives w d)) m w) w'
     \<and> natives w' = natives w \<and> pth_number_of_natives w' = pth_number_of_natives w
     \<and> (\<forall>x. x \<noteq> m \<longrightarrow> mutexes w' x = mutexes w x) \<and> elems w' = elems w \<and> spin_free w' m
     \<and> mx_waitcount (mutexes w' m) = mx_waitcount (mutexes w m) \<and> mworld.more w' = mworld.more w"
    by (rule mutex_release_last) (use i own in \<open>auto simp: idle_mutex_def\<close>)
  then obtain w' where w': "release_now E (\<lambda>_. d) m (w, k) = Some (0, w', k)"
    "msame (mutex_drop (current (natives w d)) m w) w'"
    "natives w' = natives w" "pth_number_of_natives w' = pth_number_of_natives w"
    "\<And>x. x \<noteq> m \<Longrightarrow> mutexes w' x = mutexes w x" "elems w' = elems w" "spin_free w' m"
    "mx_waitcount (mutexes w' m) = mx_waitcount (mutexes w m)" "mworld.more w' = mworld.more w"
    by (auto simp: release_now_def)
  have "\<not> locked w' m" using w'(2) mutex_drop_unlocked [of m "current (natives w d)" w] by (simp add: msame_def)
  moreover have "idle_mutex w' x" if "idle_mutex w x" for x
  proof (cases "x = m")
    case True
    have "private_mutex w' m" using w'(2) that True
      by (auto simp: idle_mutex_def private_mutex_def msame_def mutex_drop_def mutex_flags)
    with True that w' show ?thesis by (simp add: idle_mutex_def)
  next
    case False
    with that w' show ?thesis by (simp add: idle_mutex_def spin_free_def private_mutex_def)
  qed
  ultimately have "dropped m w w'" using w' by (simp add: dropped_def only_mutex_def)
  with w'(1) show ?thesis by blast
qed

lemma release_now_foreign:
  assumes "locked w m" and "mx_owner (mutexes w m) \<noteq> current (natives w d)"
  shows "release_now E (\<lambda>_. d) m (w, k) = Some (EPERM, w, k)"
  using assms by (simp add: release_now_def pth_mutex_release_def Let_def)

subsection \<open>Read-write locks\<close>

text \<open>An initialised read-write lock whose inner mutex is free, and the owner of its outer mutex.\<close>

definition rw_ready :: "('a sworld_scheme) \<Rightarrow> nat \<Rightarrow> bool" where
  "rw_ready w r \<longleftrightarrow> (let x = rwlocks w r in has (rw_state x) PTH_RWLOCK_INITIALIZED \<and> rw_mutex_rd x \<noteq> rw_mutex_rw x
     \<and> idle_mutex w (rw_mutex_rd x) \<and> idle_mutex w (rw_mutex_rw x) \<and> \<not> locked w (rw_mutex_rd x))"

definition rw_owner :: "('a sworld_scheme) \<Rightarrow> nat \<Rightarrow> nat option" where
  "rw_owner w r = (let m = rw_mutex_rw (rwlocks w r) in if locked w m then Some (mx_owner (mutexes w m)) else None)"

lemma rw_readyD:
  assumes "rw_ready w r" and "x = rwlocks w r"
  shows "has (rw_state x) PTH_RWLOCK_INITIALIZED" "rw_mutex_rd x \<noteq> rw_mutex_rw x" "idle_mutex w (rw_mutex_rd x)"
    "idle_mutex w (rw_mutex_rw x)" "\<not> locked w (rw_mutex_rd x)"
  using assms by (auto simp: rw_ready_def Let_def)

text \<open>
  The inner mutex around a change of the record and of the outer mutex: it is taken in \<open>w1\<close>,
  \<open>w2\<close> is what was done meanwhile, and it is dropped again.
\<close>

lemma inner_release:
  assumes r: "rw_ready w r" and x: "x = rwlocks w r" and w1: "took (rw_mutex_rd x) (current (natives w d)) w w1"
    and w2: "only_mutex (rw_mutex_rw x) (upd_rwlock r f w1) w2" and g: "rwlocks w4 = (rwlocks w2)(r := g (rwlocks w2 r))"
      "mutexes w4 = mutexes w2" "natives w4 = natives w2" "\<And>y. idle_mutex w4 y = idle_mutex w2 y"
    and fg: "\<And>y. rw_mutex_rd (f y) = rw_mutex_rd y" "\<And>y. rw_mutex_rw (f y) = rw_mutex_rw y" "\<And>y. rw_state (f y) = rw_state y"
      "\<And>y. rw_mutex_rd (g y) = rw_mutex_rd y" "\<And>y. rw_mutex_rw (g y) = rw_mutex_rw y" "\<And>y. rw_state (g y) = rw_state y"
  shows "\<exists>w5. release_now E (\<lambda>_. d) (rw_mutex_rd x) (w4, k) = Some (0, w5, k) \<and> rw_ready w5 r
     \<and> rwlocks w5 r = g (f x) \<and> mutexes w5 (rw_mutex_rw x) = mutexes w2 (rw_mutex_rw x)"
proof -
  note D = rw_readyD [OF r x]
  have m1: "rwlocks w1 = rwlocks w" using w1 by (auto simp: took_def only_mutex_def intro: sworld_more(1))
  have m2: "rwlocks w2 r = f x"
    using w2 m1 x sworld_more(1) [of w2 "upd_rwlock r f w1"] by (simp add: only_mutex_def)
  have i: "idle_mutex w4 y" if "idle_mutex w y" for y
    using that w1 w2 g(4) by (simp add: took_def only_mutex_def)
  have "locked w4 (rw_mutex_rd x) \<and> mx_owner (mutexes w4 (rw_mutex_rd x)) = current (natives w4 d) \<and> mx_count (mutexes w4 (rw_mutex_rd x)) = 1"
    using w1 w2 g(2,3) D(2) by (simp add: took_def only_mutex_def)
  with release_now_last [OF i [OF D(3)], of d E k] obtain w5 where
    w5: "release_now E (\<lambda>_. d) (rw_mutex_rd x) (w4, k) = Some (0, w5, k)" "dropped (rw_mutex_rd x) w4 w5" by blast
  have m5: "rwlocks w5 r = g (f x)"
    using w5(2) g(1) m2 by (auto simp: dropped_def only_mutex_def dest: sworld_more(1))
  moreover have "rw_ready w5 r"
    using w5(2) i D m5 fg by (simp add: rw_ready_def Let_def dropped_def only_mutex_def)
  ultimately show ?thesis using w5 g(2) D(2) by (auto simp: dropped_def only_mutex_def)
qed

lemma only_mutex_refl [simp]: "only_mutex m w w"
  by (simp add: only_mutex_def)

text \<open>A reader that finds other readers only counts itself.\<close>

lemma rwlock_more_readers:
  assumes r: "rw_ready w r" and d: "d \<noteq> 0" and n: "rw_readers (rwlocks w r) + 1 \<noteq> 1"
  shows "\<exists>w'. pth_rwlock_acquire E (\<lambda>_. d) r PTH_RWLOCK_RD tryonly ev (w, k) = Some (0, w', k) \<and> rw_ready w' r
     \<and> rw_readers (rwlocks w' r) = rw_readers (rwlocks w r) + 1 \<and> rw_mode (rwlocks w' r) = PTH_RWLOCK_RD
     \<and> rw_owner w' r = rw_owner w r"
proof -
  define x where "x = rwlocks w r"
  note D = rw_readyD [OF r x_def]
  from acquire_now_free [OF D(3,5) d, of E tryonly ev k] obtain w1 where
    w1: "acquire_now E (\<lambda>_. d) (rw_mutex_rd x) tryonly ev (w, k) = Some (0, w1, k)"
      "took (rw_mutex_rd x) (current (natives w d)) w w1" by blast
  have m1: "rwlocks w1 = rwlocks w" using w1(2) by (auto simp: took_def only_mutex_def intro: sworld_more(1))
  let ?f = "\<lambda>x. x\<lparr>rw_readers := rw_readers x + 1\<rparr>" and ?g = "\<lambda>x. x\<lparr>rw_mode := PTH_RWLOCK_RD\<rparr>"
  from inner_release [OF r x_def w1(2) only_mutex_refl, of "upd_rwlock r ?g (upd_rwlock r ?f w1)" ?f ?g E k] obtain w5 where
    w5: "release_now E (\<lambda>_. d) (rw_mutex_rd x) (upd_rwlock r ?g (upd_rwlock r ?f w1), k) = Some (0, w5, k)" "rw_ready w5 r"
      "rwlocks w5 r = ?g (?f x)" "mutexes w5 (rw_mutex_rw x) = mutexes (upd_rwlock r ?f w1) (rw_mutex_rw x)" by auto
  have "pth_rwlock_acquire E (\<lambda>_. d) r PTH_RWLOCK_RD tryonly ev (w, k) = Some (0, w5, k)"
    using D(1) w1(1) w5(1) m1 n by (simp add: pth_rwlock_acquire_def Let_def x_def)
  then show ?thesis using w5(2-4) w1(2) D(2) by (auto simp: rw_owner_def x_def Let_def took_def only_mutex_def)
qed
text \<open>The first reader takes the outer mutex too; if it cannot, the lock is as before.\<close>

lemma rwlock_first_reader:
  assumes r: "rw_ready w r" and d: "d \<noteq> 0" and n: "rw_readers (rwlocks w r) = 0" and f: "rw_owner w r = None"
  shows "\<exists>w'. pth_rwlock_acquire E (\<lambda>_. d) r PTH_RWLOCK_RD tryonly ev (w, k) = Some (0, w', k) \<and> rw_ready w' r
     \<and> rw_readers (rwlocks w' r) = 1 \<and> rw_mode (rwlocks w' r) = PTH_RWLOCK_RD \<and> rw_owner w' r = Some (current (natives w d))"
proof -
  define x where "x = rwlocks w r"
  note D = rw_readyD [OF r x_def]
  from acquire_now_free [OF D(3,5) d, of E tryonly ev k] obtain w1 where
    w1: "acquire_now E (\<lambda>_. d) (rw_mutex_rd x) tryonly ev (w, k) = Some (0, w1, k)"
      "took (rw_mutex_rd x) (current (natives w d)) w w1" by blast
  have m1: "rwlocks w1 = rwlocks w" using w1(2) by (auto simp: took_def only_mutex_def intro: sworld_more(1))
  let ?f = "\<lambda>x. x\<lparr>rw_readers := rw_readers x + 1\<rparr>" and ?g = "\<lambda>x. x\<lparr>rw_mode := PTH_RWLOCK_RD\<rparr>"
  have "idle_mutex (upd_rwlock r ?f w1) (rw_mutex_rw x)" "\<not> locked (upd_rwlock r ?f w1) (rw_mutex_rw x)"
    using w1(2) D f by (auto simp: took_def only_mutex_def rw_owner_def x_def Let_def split: if_splits)
  from acquire_now_free [OF this d, of E tryonly ev k] w1(2) obtain w3 where
    w3: "acquire_now E (\<lambda>_. d) (rw_mutex_rw x) tryonly ev (upd_rwlock r ?f w1, k) = Some (0, w3, k)"
      "took (rw_mutex_rw x) (current (natives w d)) (upd_rwlock r ?f w1) w3" by (auto simp: took_def only_mutex_def)
  have o: "only_mutex (rw_mutex_rw x) (upd_rwlock r ?f w1) w3" using w3(2) by (simp add: took_def)
  then have m3: "rwlocks w3 r = ?f x"
    using sworld_more(1) [of w3 "upd_rwlock r ?f w1"] m1 by (simp add: only_mutex_def x_def)
  from inner_release [OF r x_def w1(2) o, of "upd_rwlock r ?g w3" ?g E k] obtain w5 where
    w5: "release_now E (\<lambda>_. d) (rw_mutex_rd x) (upd_rwlock r ?g w3, k) = Some (0, w5, k)" "rw_ready w5 r"
      "rwlocks w5 r = ?g (?f x)" "mutexes w5 (rw_mutex_rw x) = mutexes w3 (rw_mutex_rw x)" by auto
  have "pth_rwlock_acquire E (\<lambda>_. d) r PTH_RWLOCK_RD tryonly ev (w, k) = Some (0, w5, k)"
    using D(1) w1(1) w3(1) w5(1) m1 m3 n by (simp add: pth_rwlock_acquire_def Let_def x_def)
  then show ?thesis using w5(2-4) w3(2) n by (auto simp: rw_owner_def x_def Let_def took_def)
qed

lemma rwlock_reader_busy:
  assumes r: "rw_ready w r" and d: "d \<noteq> 0" and n: "rw_readers (rwlocks w r) = 0"
    and f: "rw_owner w r = Some t" "t \<noteq> current (natives w d)"
  shows "\<exists>w'. pth_rwlock_acquire E (\<lambda>_. d) r PTH_RWLOCK_RD True ev (w, k) = Some (EBUSY, w', k) \<and> rw_ready w' r
     \<and> rwlocks w' r = rwlocks w r \<and> rw_owner w' r = Some t"
proof -
  define x where "x = rwlocks w r"
  note D = rw_readyD [OF r x_def]
  from acquire_now_free [OF D(3,5) d, of E True ev k] obtain w1 where
    w1: "acquire_now E (\<lambda>_. d) (rw_mutex_rd x) True ev (w, k) = Some (0, w1, k)"
      "took (rw_mutex_rd x) (current (natives w d)) w w1" by blast
  have m1: "rwlocks w1 = rwlocks w" using w1(2) by (auto simp: took_def only_mutex_def intro: sworld_more(1))
  let ?f = "\<lambda>x. x\<lparr>rw_readers := rw_readers x + 1\<rparr>" and ?g = "\<lambda>x. x\<lparr>rw_readers := rw_readers x - 1\<rparr>"
  have b: "acquire_now E (\<lambda>_. d) (rw_mutex_rw x) True ev (upd_rwlock r ?f w1, k) = Some (EBUSY, upd_rwlock r ?f w1, k)"
    by (rule acquire_now_busy)
      (use w1(2) D f d in \<open>auto simp: took_def only_mutex_def rw_owner_def x_def Let_def split: if_splits\<close>)
  from inner_release [OF r x_def w1(2) only_mutex_refl, of "upd_rwlock r ?g (upd_rwlock r ?f w1)" ?f ?g E k] obtain w5 where
    w5: "release_now E (\<lambda>_. d) (rw_mutex_rd x) (upd_rwlock r ?g (upd_rwlock r ?f w1), k) = Some (0, w5, k)" "rw_ready w5 r"
      "rwlocks w5 r = ?g (?f x)" "mutexes w5 (rw_mutex_rw x) = mutexes (upd_rwlock r ?f w1) (rw_mutex_rw x)" by auto
  have "EBUSY \<noteq> 0" by (simp add: const_defs)
  then have "pth_rwlock_acquire E (\<lambda>_. d) r PTH_RWLOCK_RD True ev (w, k) = Some (EBUSY, w5, k)"
    using D(1) w1(1) b w5(1) m1 n by (simp add: pth_rwlock_acquire_def Let_def x_def)
  then show ?thesis using w5(2-4) w1(2) D(2) f
    by (auto simp: rw_owner_def x_def Let_def took_def only_mutex_def split: if_splits)
qed

lemma rwlock_writer:
  assumes r: "rw_ready w r" and d: "d \<noteq> 0"
  shows "rw_owner w r = None \<Longrightarrow>
      \<exists>w'. pth_rwlock_acquire E (\<lambda>_. d) r PTH_RWLOCK_RW tryonly ev (w, k) = Some (0, w', k) \<and> rw_ready w' r
     \<and> rw_mode (rwlocks w' r) = PTH_RWLOCK_RW \<and> rw_owner w' r = Some (current (natives w d))
     \<and> rw_readers (rwlocks w' r) = rw_readers (rwlocks w r)"
    and "rw_owner w r = Some t \<Longrightarrow> t \<noteq> current (natives w d) \<Longrightarrow>
      pth_rwlock_acquire E (\<lambda>_. d) r PTH_RWLOCK_RW True ev (w, k) = Some (EBUSY, w, k)"
proof -
  define x where "x = rwlocks w r"
  note D = rw_readyD [OF r x_def]
  show "\<exists>w'. pth_rwlock_acquire E (\<lambda>_. d) r PTH_RWLOCK_RW tryonly ev (w, k) = Some (0, w', k) \<and> rw_ready w' r
     \<and> rw_mode (rwlocks w' r) = PTH_RWLOCK_RW \<and> rw_owner w' r = Some (current (natives w d))
     \<and> rw_readers (rwlocks w' r) = rw_readers (rwlocks w r)" if f: "rw_owner w r = None"
  proof -
    have "\<not> locked w (rw_mutex_rw x)" using f by (auto simp: rw_owner_def x_def Let_def split: if_splits)
    from acquire_now_free [OF D(4) this d, of E tryonly ev k] obtain w1 where
      w1: "acquire_now E (\<lambda>_. d) (rw_mutex_rw x) tryonly ev (w, k) = Some (0, w1, k)"
        "took (rw_mutex_rw x) (current (natives w d)) w w1" by blast
    have m1: "rwlocks w1 = rwlocks w" using w1(2) by (auto simp: took_def only_mutex_def intro: sworld_more(1))
    let ?w' = "upd_rwlock r (\<lambda>x. x\<lparr>rw_mode := PTH_RWLOCK_RW\<rparr>) w1"
    have "pth_rwlock_acquire E (\<lambda>_. d) r PTH_RWLOCK_RW tryonly ev (w, k) = Some (0, ?w', k)"
      using D(1) w1(1) by (simp add: pth_rwlock_acquire_def Let_def x_def)
    moreover have "rw_ready ?w' r" using w1(2) D m1 by (auto simp: rw_ready_def took_def only_mutex_def Let_def x_def)
    ultimately show ?thesis using w1(2) m1 by (auto simp: rw_owner_def Let_def took_def x_def)
  qed
  show "pth_rwlock_acquire E (\<lambda>_. d) r PTH_RWLOCK_RW True ev (w, k) = Some (EBUSY, w, k)"
    if "rw_owner w r = Some t" "t \<noteq> current (natives w d)"
  proof -
    have "acquire_now E (\<lambda>_. d) (rw_mutex_rw x) True ev (w, k) = Some (EBUSY, w, k)"
      by (rule acquire_now_busy) (use D d that in \<open>auto simp: rw_owner_def x_def Let_def split: if_splits\<close>)
    with D(1) show ?thesis by (simp add: pth_rwlock_acquire_def Let_def x_def const_defs)
  qed
qed

text \<open>The last reader gives the outer mutex back, if it is the thread that took it.\<close>

lemma rwlock_release_last:
  assumes r: "rw_ready w r" and d: "d \<noteq> 0" and n: "rw_readers (rwlocks w r) = 1" and mode: "rw_mode (rwlocks w r) = PTH_RWLOCK_RD"
    and f: "rw_owner w r = Some t" and c: "mx_count (mutexes w (rw_mutex_rw (rwlocks w r))) = 1"
  shows "t = current (natives w d) \<Longrightarrow>
      \<exists>w'. pth_rwlock_release E (\<lambda>_. d) r (w, k) = Some (0, w', k) \<and> rw_ready w' r \<and> rw_readers (rwlocks w' r) = 0 \<and> rw_owner w' r = None"
    and "t \<noteq> current (natives w d) \<Longrightarrow>
      \<exists>w'. pth_rwlock_release E (\<lambda>_. d) r (w, k) = Some (EPERM, w', k) \<and> rw_ready w' r \<and> rwlocks w' r = rwlocks w r \<and> rw_owner w' r = Some t"
proof -
  define x where "x = rwlocks w r"
  note D = rw_readyD [OF r x_def]
  from acquire_now_free [OF D(3,5) d, of E False False k] obtain w1 where
    w1: "acquire_now E (\<lambda>_. d) (rw_mutex_rd x) False False (w, k) = Some (0, w1, k)"
      "took (rw_mutex_rd x) (current (natives w d)) w w1" by blast
  have m1: "rwlocks w1 = rwlocks w" using w1(2) by (auto simp: took_def only_mutex_def intro: sworld_more(1))
  let ?f = "\<lambda>x. x\<lparr>rw_readers := rw_readers x - 1\<rparr>"
  let ?w2 = "upd_rwlock r ?f w1"
  have own: "locked ?w2 (rw_mutex_rw x)" "mx_owner (mutexes ?w2 (rw_mutex_rw x)) = t" "mx_count (mutexes ?w2 (rw_mutex_rw x)) = 1"
    "idle_mutex ?w2 (rw_mutex_rw x)" "natives ?w2 = natives w"
    using w1(2) D f c by (auto simp: took_def only_mutex_def rw_owner_def x_def Let_def split: if_splits)
  show "\<exists>w'. pth_rwlock_release E (\<lambda>_. d) r (w, k) = Some (0, w', k) \<and> rw_ready w' r \<and> rw_readers (rwlocks w' r) = 0 \<and> rw_owner w' r = None"
    if t: "t = current (natives w d)"
  proof -
    let ?g = "\<lambda>x. x\<lparr>rw_mode := PTH_RWLOCK_RD\<rparr>"
    from release_now_last [OF own(4,1), of d E k] own t obtain w3 where
      w3: "release_now E (\<lambda>_. d) (rw_mutex_rw x) (?w2, k) = Some (0, w3, k)" "dropped (rw_mutex_rw x) ?w2 w3" by auto
    have o: "only_mutex (rw_mutex_rw x) ?w2 w3" using w3(2) by (simp add: dropped_def)
    then have m3: "rwlocks w3 r = ?f x" using sworld_more(1) [of w3 ?w2] m1 by (simp add: only_mutex_def x_def)
    from inner_release [OF r x_def w1(2) o, of "upd_rwlock r ?g w3" ?g E k] obtain w5 where
      w5: "release_now E (\<lambda>_. d) (rw_mutex_rd x) (upd_rwlock r ?g w3, k) = Some (0, w5, k)" "rw_ready w5 r"
        "rwlocks w5 r = ?g (?f x)" "mutexes w5 (rw_mutex_rw x) = mutexes w3 (rw_mutex_rw x)" by auto
    have "pth_rwlock_release E (\<lambda>_. d) r (w, k) = Some (0, w5, k)"
      using D(1) w1(1) w3(1) w5(1) m1 m3 n mode by (simp add: pth_rwlock_release_def Let_def x_def)
    then show ?thesis using w5(2-4) w3(2) n by (auto simp: rw_owner_def x_def Let_def dropped_def)
  qed
  show "\<exists>w'. pth_rwlock_release E (\<lambda>_. d) r (w, k) = Some (EPERM, w', k) \<and> rw_ready w' r \<and> rwlocks w' r = rwlocks w r \<and> rw_owner w' r = Some t"
    if t: "t \<noteq> current (natives w d)"
  proof -
    let ?g = "\<lambda>x. x\<lparr>rw_readers := rw_readers x + 1\<rparr>"
    have b: "release_now E (\<lambda>_. d) (rw_mutex_rw x) (?w2, k) = Some (EPERM, ?w2, k)"
      by (rule release_now_foreign) (use own t in auto)
    from inner_release [OF r x_def w1(2) only_mutex_refl, of "upd_rwlock r ?g ?w2" ?f ?g E k] obtain w5 where
      w5: "release_now E (\<lambda>_. d) (rw_mutex_rd x) (upd_rwlock r ?g ?w2, k) = Some (0, w5, k)" "rw_ready w5 r"
        "rwlocks w5 r = ?g (?f x)" "mutexes w5 (rw_mutex_rw x) = mutexes ?w2 (rw_mutex_rw x)" by auto
    have "EPERM \<noteq> 0" by (simp add: const_defs)
    then have "pth_rwlock_release E (\<lambda>_. d) r (w, k) = Some (EPERM, w5, k)"
      using D(1) w1(1) b w5(1) m1 n mode by (simp add: pth_rwlock_release_def Let_def x_def)
    then show ?thesis using w5(2-4) own by (auto simp: rw_owner_def x_def Let_def split: if_splits)
  qed
qed

subsection \<open>A concrete state\<close>

definition a_cond :: pth_cond_st where
  "a_cond = \<lparr>cn_state = PTH_COND_INITIALIZED, cn_waiters = 0, cn_index = -1, cn_lock = free_lock,
     cn_shared = \<lparr>futex = \<lparr>fcount = 1\<rparr>, pshared = False, rtype = 0, parent = 0\<rparr>, cn_wakecnt = 0\<rparr>"

definition sw0 :: sworld where
  "sw0 = eworld.extend ew0 (sworld.fields (\<lambda>_. a_cond)
     (\<lambda>_. \<lparr>rw_readers = 0, rw_mode = PTH_RWLOCK_RD, rw_mutex_rd = 8, rw_mutex_rw = 9, rw_state = PTH_RWLOCK_INITIALIZED, rw_pshared = False\<rparr>)
     (\<lambda>_. \<lparr>br_state = PTH_BARRIER_INITIALIZED, br_threshold = 3, br_count = 3, br_cycle = False, br_cond = 5, br_mutex = 6\<rparr>)
     free_lock 4)"

definition cenv :: "(sworld, unit) condenv" where
  "cenv = \<lparr>e_wait = \<lambda>w k. (False, 1, w, k), e_select = \<lambda>w k. (w, k), e_futex = \<lambda>op v s. (-38, s), e_kill = \<lambda>_ _. False,
     e_now = \<lambda>_. 0, e_select_t = \<lambda>_ (w, k). (0, w, k), e_mem = \<lambda>_ _. 0, e_yield = id, e_cpoint = id\<rparr>"

lemma sw0_sel [simp]:
  "threads sw0 = threads mw0" "natives sw0 = natives mw0" "pth_number_of_natives sw0 = 1" "elems sw0 = elems mw0"
  "mutexes sw0 = mutexes mw0" "conds sw0 = (\<lambda>_. a_cond)" "shared_used sw0 = (\<lambda>_. False)" "shared_objects sw0 = 4" "qw sw0 = qw mw0"
  "rwlocks sw0 = (\<lambda>_. \<lparr>rw_readers = 0, rw_mode = PTH_RWLOCK_RD, rw_mutex_rd = 8, rw_mutex_rw = 9, rw_state = PTH_RWLOCK_INITIALIZED, rw_pshared = False\<rparr>)"
  "barriers sw0 = (\<lambda>_. \<lparr>br_state = PTH_BARRIER_INITIALIZED, br_threshold = 3, br_count = 3, br_cycle = False, br_cond = 5, br_mutex = 6\<rparr>)"
  "shared_lock sw0 = free_lock"
  by (simp_all add: sw0_def ew0_def mw0_def eworld.defs mworld.defs sworld.defs)

lemma sw0_idle: "m \<noteq> 0 \<Longrightarrow> m < 2 ^ 32 \<Longrightarrow> idle_mutex sw0 m"
  by (simp add: idle_mutex_def spin_free_def private_mutex_def mw_defs mutex_flags)

lemma sw0_rw_ready: "rw_ready sw0 r"
  using sw0_idle by (simp add: rw_ready_def sync_flags) (simp add: mw_defs mutex_flags)

subsection \<open>Theorems on read-write locks\<close>

text \<open>
  A lock with readers is in read mode and its outer mutex is held, so that a lock whose outer
  mutex is free has neither readers nor a writer.
\<close>

definition rw_inv :: "('a sworld_scheme) \<Rightarrow> nat \<Rightarrow> bool" where
  "rw_inv w r \<longleftrightarrow> rw_readers (rwlocks w r) \<noteq> 0 \<longrightarrow> rw_mode (rwlocks w r) = PTH_RWLOCK_RD \<and> rw_owner w r \<noteq> None"

text \<open>
  C30.  What a process-private read-write lock grants without waiting.  A reader gets it if it is
  free or there are readers, and is counted; the first reader holds the outer mutex.  A writer
  gets it if it is free, and then there are no readers.  A writer that only tries while another
  thread holds the outer mutex, a writer or the first reader, is refused with EBUSY and nothing
  changes; a reader that only tries while another thread writes is refused with EBUSY and the
  lock is as before.  Each of them keeps the invariant that a lock with readers is in read mode
  and held.
\<close>

theorem rwlock_grants:
  assumes "rw_ready w r" and "rw_inv w r" and "d \<noteq> 0" and "t = current (natives w d)" and "rw_readers (rwlocks w r) + 1 \<noteq> 0"
  shows "(rw_readers (rwlocks w r) \<noteq> 0 \<or> rw_owner w r = None \<longrightarrow>
        (\<exists>w'. pth_rwlock_acquire E (\<lambda>_. d) r PTH_RWLOCK_RD tryonly ev (w, k) = Some (0, w', k) \<and> rw_ready w' r \<and> rw_inv w' r
           \<and> rw_readers (rwlocks w' r) = rw_readers (rwlocks w r) + 1 \<and> rw_mode (rwlocks w' r) = PTH_RWLOCK_RD
           \<and> rw_owner w' r = (if rw_readers (rwlocks w r) = 0 then Some t else rw_owner w r)))
     \<and> (rw_owner w r = None \<longrightarrow>
        (\<exists>w'. pth_rwlock_acquire E (\<lambda>_. d) r PTH_RWLOCK_RW tryonly ev (w, k) = Some (0, w', k) \<and> rw_ready w' r \<and> rw_inv w' r
           \<and> rw_readers (rwlocks w' r) = 0 \<and> rw_mode (rwlocks w' r) = PTH_RWLOCK_RW \<and> rw_owner w' r = Some t))
     \<and> (\<forall>u. rw_owner w r = Some u \<and> u \<noteq> t \<longrightarrow>
          pth_rwlock_acquire E (\<lambda>_. d) r PTH_RWLOCK_RW True ev (w, k) = Some (EBUSY, w, k)
        \<and> (rw_readers (rwlocks w r) = 0 \<longrightarrow>
           (\<exists>w'. pth_rwlock_acquire E (\<lambda>_. d) r PTH_RWLOCK_RD True ev (w, k) = Some (EBUSY, w', k) \<and> rw_ready w' r \<and> rw_inv w' r
              \<and> rwlocks w' r = rwlocks w r \<and> rw_owner w' r = Some u)))"
proof -
  have n: "rw_readers (rwlocks w r) + 1 \<noteq> 1" if "rw_readers (rwlocks w r) \<noteq> 0" using that by simp
  show ?thesis unfolding assms(4)
  proof (intro conjI allI impI, goal_cases)
    case 1
    show ?case
    proof (cases "rw_readers (rwlocks w r) = 0")
      case True
      with rwlock_first_reader [OF assms(1,3), of E tryonly ev k] 1 show ?thesis by (auto simp: rw_inv_def)
    next
      case False
      with rwlock_more_readers [OF assms(1,3) n, of E tryonly ev k] assms(2) show ?thesis by (auto simp: rw_inv_def)
    qed
  next
    case 2
    with rwlock_writer(1) [OF assms(1,3), of E tryonly ev k] assms(2) show ?case by (auto simp: rw_inv_def)
  next
    case (3 u)
    with rwlock_writer(2) [OF assms(1,3), of u E ev k] show ?case by auto
  next
    case (4 u)
    with rwlock_reader_busy [OF assms(1,3), of u E ev k] show ?case by (auto simp: rw_inv_def)
  qed
qed

theorem rwlock_grants_witness:
  "\<exists>w'. pth_rwlock_acquire cenv (\<lambda>_. 1) 3 PTH_RWLOCK_RD False False (sw0, ()) = Some (0, w', ())
     \<and> rw_readers (rwlocks w' 3) = 1 \<and> rw_owner w' 3 = Some 1"
proof -
  have o: "rw_owner sw0 3 = None" by (simp add: rw_owner_def mw_defs mutex_flags)
  have n: "rw_readers (rwlocks sw0 3) = 0" by simp
  then have "rw_inv sw0 3" by (simp add: rw_inv_def)
  with rwlock_grants [OF sw0_rw_ready [of 3], of 1 1 cenv False False "()"] o n show ?thesis
    by (auto simp: mw0_def a_native_def)
qed

text \<open>
  The last reader cannot release the lock unless it is the thread that was the first reader:
  the outer mutex belongs to that one, so the release fails with EPERM and the lock stays taken for
  reading.
\<close>

theorem rwlock_last_reader_other:
  assumes "rw_ready w r" and "d \<noteq> 0" and "rw_readers (rwlocks w r) = 1" and "rw_mode (rwlocks w r) = PTH_RWLOCK_RD"
    and "rw_owner w r = Some t" and "t \<noteq> current (natives w d)"
    and "mx_count (mutexes w (rw_mutex_rw (rwlocks w r))) = 1"
  shows "\<exists>w'. pth_rwlock_release E (\<lambda>_. d) r (w, k) = Some (EPERM, w', k)
     \<and> rwlocks w' r = rwlocks w r \<and> rw_owner w' r = Some t"
  using rwlock_release_last(2) [OF assms(1-5,7,6), of E k] by blast

text \<open>Thread 1 and then thread 2 read, thread 1 has left.\<close>

definition sw_read :: sworld where
  "sw_read = upd_rwlock 3 (\<lambda>x. x\<lparr>rw_readers := 1\<rparr>)
     (upd_mutex 9 (\<lambda>x. x\<lparr>mx_state := set_flag PTH_MUTEX_LOCKED (mx_state x), mx_owner := 1, mx_count := 1\<rparr>) sw0)"

theorem rwlock_last_reader_other_witness:
  "\<exists>w'. pth_rwlock_release cenv (\<lambda>_. 2) 3 (sw_read, ()) = Some (EPERM, w', ()) \<and> rw_owner w' 3 = Some 1"
proof -
  have "idle_mutex sw_read 8" "idle_mutex sw_read 9"
    by (simp_all add: idle_mutex_def spin_free_def private_mutex_def sw_read_def mw_defs mutex_flags)
  moreover have "rwlocks sw_read 3 = (rwlocks sw0 3)\<lparr>rw_readers := 1\<rparr>"
    by (simp add: sw_read_def upd_rwlock_def upd_mutex_def)
  moreover have "\<not> locked sw_read 8" "locked sw_read 9" "mx_owner (mutexes sw_read 9) = 1" "mx_count (mutexes sw_read 9) = 1"
    "natives sw_read = natives mw0"
    by (simp_all add: sw_read_def mw_defs mutex_flags)
  ultimately show ?thesis
    using rwlock_last_reader_other [of sw_read 3 2 1 cenv "()"]
    by (auto simp: rw_ready_def rw_owner_def sync_flags mw0_def a_native_def)
qed

subsection \<open>Notification\<close>

lemma same_sync_fields:
  fixes w w' :: "('a sworld_scheme)"
  assumes "same_but_queues u w w'"
  shows "conds w' = conds w" "ev_heap w' = ev_heap w" "mutexes w' = mutexes w"
proof -
  have "world.more w' = world.more w" using assms by (simp add: same_but_queues_def)
  then show "conds w' = conds w" "ev_heap w' = ev_heap w" "mutexes w' = mutexes w" by (cases w, cases w', simp)+
qed

text \<open>The predecessor in the list of waiting threads.\<close>

lemma waits_prev:
  assumes "waits h a (xs @ x # ys)"
  shows "eprev h (Elem x) = (if xs = [] then a else Elem (last xs))"
proof -
  have "dcycle (enext h) (eprev h) ((a # map Elem xs) @ Elem x # map Elem ys)" using assms by (simp add: waits_def)
  from dcycle_prev_at [OF this] show ?thesis by (auto simp: last_map)
qed

text \<open>
  The loop of a broadcast reaches every waiting thread: all of them are made ready, and the list,
  the condition variable and the other threads stay as they are.
\<close>

lemma broadcast_loop:
  assumes "waits (elems w) (CnWait c) (xs @ ys)" and "pqs_rep (qw w) S Q" and "pth_RQ \<in> S"
    and "\<And>u. u \<in> set xs \<Longrightarrow> wakeable S Q w u" and "\<forall>q. pq_lock (pqueues (qw w) q) = 0"
    and "(\<Sum>k<140. length (Q pth_RQ k)) + length xs < 2 ^ 32"
  shows "\<exists>ds' w' Q'. notify_loop c True ds (if xs = [] then CnWait c else Elem (last xs)) w = Some (False, ds', w')
     \<and> pqs_rep (qw w') S Q' \<and> (\<forall>i. set (Q pth_RQ i) \<subseteq> set (Q' pth_RQ i)) \<and> (\<forall>u\<in>set xs. tstate (threads w' u) = PTH_STATE_READY \<and> waited_native (threads w' u) = 0
         \<and> (\<exists>i<140. u \<in> set (Q' pth_RQ i)))
     \<and> (\<forall>u. u \<notin> set xs \<longrightarrow> threads w' u = threads w u) \<and> conds w' = conds w \<and> elems w' = elems w \<and> natives w' = natives w"
  using assms
proof (induction xs arbitrary: w ys Q ds rule: rev_induct)
  case Nil
  show ?case by (subst notify_loop.simps) (use Nil in auto)
next
  case (snoc u xs)
  have wu: "wakeable S Q w u" using snoc.prems(4) by simp
  have fits: "Suc (\<Sum>k<140. length (Q pth_RQ k)) < 2 ^ 32" using snoc.prems(6) by simp
  from make_ready_wakeable [OF snoc.prems(2,3) wu snoc.prems(5) fits] obtain w1 Q1 where
    w1: "make_ready (waited_native (threads w u)) u w = Some w1" "pqs_rep (qw w1) S Q1"
      "tstate (threads w1 u) = PTH_STATE_READY" "waited_native (threads w1 u) = 0" "\<forall>q. pq_lock (pqueues (qw w1) q) = 0"
      "same_but_queues u w w1" "\<And>v. v \<noteq> u \<Longrightarrow> wakeable S Q w v \<Longrightarrow> wakeable S Q1 w1 v"
      "(\<Sum>k<140. length (Q1 pth_RQ k)) = Suc (\<Sum>k<140. length (Q pth_RQ k))" "\<exists>i<140. u \<in> set (Q1 pth_RQ i)"
      "\<And>i. set (Q pth_RQ i) \<subseteq> set (Q1 pth_RQ i)" by metis
  have el: "elems w1 = elems w" "natives w1 = natives w" and cn: "conds w1 = conds w"
    using w1(6) same_sync_fields(1) [OF w1(6)] by (auto simp: same_but_queues_def)
  have d: "distinct (xs @ u # ys)" using waits_distinct [OF snoc.prems(1)] by simp
  have wl: "waits (elems w1) (CnWait c) (xs @ u # ys)" using snoc.prems(1) el by simp
  have IH: "\<exists>ds' w' Q'. notify_loop c True (waited_native (threads w u)) (if xs = [] then CnWait c else Elem (last xs)) w1 = Some (False, ds', w')
     \<and> pqs_rep (qw w') S Q' \<and> (\<forall>i. set (Q1 pth_RQ i) \<subseteq> set (Q' pth_RQ i)) \<and> (\<forall>v\<in>set xs. tstate (threads w' v) = PTH_STATE_READY \<and> waited_native (threads w' v) = 0
         \<and> (\<exists>i<140. v \<in> set (Q' pth_RQ i)))
     \<and> (\<forall>v. v \<notin> set xs \<longrightarrow> threads w' v = threads w1 v) \<and> conds w' = conds w1 \<and> elems w' = elems w1 \<and> natives w' = natives w1"
  proof (rule snoc.IH [OF wl w1(2) snoc.prems(3) _ w1(5)])
    show "wakeable S Q1 w1 v" if "v \<in> set xs" for v using that d by (intro w1(7) snoc.prems(4)) auto
    show "(\<Sum>k<140. length (Q1 pth_RQ k)) + length xs < 2 ^ 32" using snoc.prems(6) w1(8) by simp
  qed
  have step: "notify_loop c True ds (Elem u) w
      = notify_loop c True (waited_native (threads w u)) (if xs = [] then CnWait c else Elem (last xs)) w1"
    using wu w1(1) waits_prev [OF wl] el by (subst notify_loop.simps) (simp add: wakeable_def Let_def)
  from IH obtain ds' w' Q' where I: "notify_loop c True (waited_native (threads w u)) (if xs = [] then CnWait c else Elem (last xs)) w1 = Some (False, ds', w')"
    "pqs_rep (qw w') S Q'" "\<forall>i. set (Q1 pth_RQ i) \<subseteq> set (Q' pth_RQ i)" "\<forall>v\<in>set xs. tstate (threads w' v) = PTH_STATE_READY \<and> waited_native (threads w' v) = 0
         \<and> (\<exists>i<140. v \<in> set (Q' pth_RQ i))"
    "\<forall>v. v \<notin> set xs \<longrightarrow> threads w' v = threads w1 v" "conds w' = conds w1" "elems w' = elems w1" "natives w' = natives w1" by blast
  have other: "threads w1 v = threads w v" if "v \<noteq> u" for v using w1(6) that by (auto simp: same_but_queues_def)
  have u: "threads w' u = threads w1 u" using I(5) d by auto
  have "set (Q pth_RQ i) \<subseteq> set (Q' pth_RQ i)" for i using w1(10) I(3) by blast
  moreover have "\<forall>v\<in>set (xs @ [u]). tstate (threads w' v) = PTH_STATE_READY \<and> waited_native (threads w' v) = 0
      \<and> (\<exists>i<140. v \<in> set (Q' pth_RQ i))"
    using I(3,4) u w1(3,4,9) by auto
  moreover have "\<forall>v. v \<notin> set (xs @ [u]) \<longrightarrow> threads w' v = threads w v" using I(5) other by auto
  moreover have "notify_loop c True ds (if xs @ [u] = [] then CnWait c else Elem (last (xs @ [u]))) w = Some (False, ds', w')"
    using I(1) step by simp
  ultimately show ?case using I(2,6-8) el cn by (intro exI [of _ ds'] exI [of _ w'] exI [of _ Q']) simp
qed

text \<open>
  The state in which the waiting threads are woken: the condition variable is locked and marked
  as signaled.
\<close>

definition cond_marked :: "bool \<Rightarrow> nat \<Rightarrow> ('a sworld_scheme) \<Rightarrow> ('a sworld_scheme)" where
  "cond_marked broadcast c w = upd_cond c (\<lambda>x. x\<lparr>cn_lock := (cn_lock x)\<lparr>spinlock := \<lparr>lock = 1\<rparr>\<rparr>,
     cn_state := clear_flag PTH_COND_HANDLED ((if broadcast then set_flag PTH_COND_BROADCAST else clear_flag PTH_COND_BROADCAST)
        (set_flag PTH_COND_SIGNALED (cn_state x)))\<rparr>) w"

definition notifiable :: "('a sworld_scheme) \<Rightarrow> nat \<Rightarrow> bool" where
  "notifiable w c \<longleftrightarrow> has (cn_state (conds w c)) PTH_COND_INITIALIZED \<and> lock (spinlock (cn_lock (conds w c))) = 0
     \<and> \<not> pshared (cn_shared (conds w c)) \<and> cn_waiters (conds w c) > 0 \<and> pth_number_of_natives w > 1"

lemma cond_marked_sel [simp]:
  "threads (cond_marked b c w) = threads w" "natives (cond_marked b c w) = natives w" "elems (cond_marked b c w) = elems w"
  "qw (cond_marked b c w) = qw w" "pth_number_of_natives (cond_marked b c w) = pth_number_of_natives w"
  by (simp_all add: cond_marked_def upd_cond_def)

lemma notify_marked:
  assumes "notifiable w c"
  shows "pth_cond_notify E kv checkf d c broadcast (w, k) =
     (do { (done, ds, w3) \<leftarrow> notify_loop c broadcast 0 (eprev (elems w) (CnWait c)) (cond_marked broadcast c w);
           if done then Some (True, w3, k)
           else do { let w4 = cn_release c (upd_cond c (\<lambda>x. x\<lparr>cn_wakecnt := cn_wakecnt x + 1\<rparr>) w3);
                     s5 \<leftarrow> notify_end E kv checkf d c broadcast ds (w4, k);
                     Some (True, s5) } })"
proof -
  have "spin_lock (spinlock (cn_lock (conds w c))) = Some \<lparr>lock = 1\<rparr>" using assms by (simp add: notifiable_def spin_lock_def test_and_set_def)
  then have "cn_acquire c w = Some (upd_cond c (\<lambda>x. x\<lparr>cn_lock := (cn_lock x)\<lparr>spinlock := \<lparr>lock = 1\<rparr>\<rparr>\<rparr>) w)" by (simp add: cn_acquire_def)
  then show ?thesis using assms by (simp add: pth_cond_notify_def notifiable_def cond_marked_def upd_cond_def)
qed

lemma cond_marked_flags:
  "has (cn_state (conds (cond_marked b c w) c)) PTH_COND_SIGNALED" "\<not> has (cn_state (conds (cond_marked b c w) c)) PTH_COND_HANDLED"
  "has (cn_state (conds (cond_marked b c w) c)) PTH_COND_BROADCAST = b"
  "cn_wakecnt (conds (cond_marked b c w) c) = cn_wakecnt (conds w c)" "cn_waiters (conds (cond_marked b c w) c) = cn_waiters (conds w c)"
  "cn_shared (conds (cond_marked b c w) c) = cn_shared (conds w c)"
  by (simp_all add: cond_marked_def upd_cond_def sync_flags)

text \<open>
  C21.  A broadcast on a private condition variable makes every waiting thread ready before it
  waits for the threads to leave: each is in the ready queue and no longer in the wait queue of its
  native, the other threads are untouched, and the condition variable is unlocked, signaled and in
  broadcast mode.
\<close>

theorem broadcast_wakes_all:
  assumes "notifiable w c" and "waits (elems w) (CnWait c) ts" and "pqs_rep (qw w) S Q" and "pth_RQ \<in> S"
    and "\<And>u. u \<in> set ts \<Longrightarrow> wakeable S Q w u" and "\<forall>q. pq_lock (pqueues (qw w) q) = 0"
    and "(\<Sum>k<140. length (Q pth_RQ k)) + length ts < 2 ^ 32"
  shows "\<exists>ds w' Q'. pth_cond_notify E kv checkf d c True (w, k) = map_option (\<lambda>s. (True, s)) (notify_end E kv checkf d c True ds (w', k))
     \<and> pqs_rep (qw w') S Q' \<and> (\<forall>u\<in>set ts. tstate (threads w' u) = PTH_STATE_READY \<and> waited_native (threads w' u) = 0
          \<and> (\<exists>i<140. u \<in> set (Q' pth_RQ i)))
     \<and> (\<forall>u. u \<notin> set ts \<longrightarrow> threads w' u = threads w u)
     \<and> lock (spinlock (cn_lock (conds w' c))) = 0 \<and> cn_wakecnt (conds w' c) = cn_wakecnt (conds w c) + 1
     \<and> has (cn_state (conds w' c)) PTH_COND_SIGNALED \<and> has (cn_state (conds w' c)) PTH_COND_BROADCAST"
proof -
  let ?w = "cond_marked True c w"
  have "dcycle (enext (elems w)) (eprev (elems w)) (CnWait c # map Elem ts)" using assms(2) by (simp add: waits_def)
  from dcycle_prev [OF this] have start: "eprev (elems w) (CnWait c) = (if ts = [] then CnWait c else Elem (last ts))"
    by (simp add: last_map)
  have "\<exists>ds' w' Q'. notify_loop c True 0 (if ts = [] then CnWait c else Elem (last ts)) ?w = Some (False, ds', w')
     \<and> pqs_rep (qw w') S Q' \<and> (\<forall>i. set (Q pth_RQ i) \<subseteq> set (Q' pth_RQ i)) 
     \<and> (\<forall>u\<in>set ts. tstate (threads w' u) = PTH_STATE_READY \<and> waited_native (threads w' u) = 0 \<and> (\<exists>i<140. u \<in> set (Q' pth_RQ i)))
     \<and> (\<forall>u. u \<notin> set ts \<longrightarrow> threads w' u = threads ?w u) \<and> conds w' = conds ?w \<and> elems w' = elems ?w \<and> natives w' = natives ?w"
    using assms(2-7) by (intro broadcast_loop [where ys = "[]"]) (auto simp: wakeable_def)
  then obtain ds' w' Q' where w': "notify_loop c True 0 (if ts = [] then CnWait c else Elem (last ts)) ?w = Some (False, ds', w')"
     "pqs_rep (qw w') S Q'" "\<forall>u\<in>set ts. tstate (threads w' u) = PTH_STATE_READY \<and> waited_native (threads w' u) = 0 \<and> (\<exists>i<140. u \<in> set (Q' pth_RQ i))"
     "\<forall>u. u \<notin> set ts \<longrightarrow> threads w' u = threads w u" "conds w' = conds ?w" by auto
  let ?w4 = "cn_release c (upd_cond c (\<lambda>x. x\<lparr>cn_wakecnt := cn_wakecnt x + 1\<rparr>) w')"
  have "pth_cond_notify E kv checkf d c True (w, k) = map_option (\<lambda>s. (True, s)) (notify_end E kv checkf d c True ds' (?w4, k))"
    using w'(1) by (simp add: notify_marked [OF assms(1)] start map_option_case split: option.splits)
  moreover have "pqs_rep (qw ?w4) S Q'" "threads ?w4 = threads w'" using w'(2) by (simp_all add: cn_release_def upd_cond_def)
  moreover have "conds ?w4 c = (conds ?w c)\<lparr>cn_wakecnt := cn_wakecnt (conds w c) + 1,
      cn_lock := (cn_lock (conds ?w c))\<lparr>spinlock := spin_unlock (spinlock (cn_lock (conds ?w c)))\<rparr>\<rparr>"
    using w'(5) by (simp add: cn_release_def upd_cond_def cond_marked_def)
  ultimately show ?thesis using w'(3,4) cond_marked_flags [of True c w]
    by (intro exI [of _ ds'] exI [of _ ?w4] exI [of _ Q']) (simp add: spin_unlock_def)
qed

text \<open>Thread 2 waits on native 2 for condition variable 5.\<close>

definition sw_wait :: sworld where
  "sw_wait = sw0\<lparr>threads := (threads sw0)(2 := a_thread\<lparr>waited_native := 2\<rparr>), pth_number_of_natives := 2,
     qw := waiting_queues, elems := pth_element_insert (Elem 2) (CnWait 5) (elems sw0),
     conds := (conds sw0)(5 := a_cond\<lparr>cn_waiters := 1\<rparr>)\<rparr>"

lemma sw_wait_ready:
  "notifiable sw_wait 5" "waits (elems sw_wait) (CnWait 5) [2]" "pqs_rep (qw sw_wait) {0, 16} waiting_in"
  "pth_RQ \<in> {0, 16}" "wakeable {0, 16} waiting_in sw_wait 2" "\<forall>q. pq_lock (pqueues (qw sw_wait) q) = 0"
  "(\<Sum>k<140. length (waiting_in pth_RQ k)) = 0"
proof -
  have "waits (elems sw0) (CnWait 5) []" by (simp add: waits_def mw0_def enext_def eprev_def)
  from waits_insert [OF this, of 2] show "waits (elems sw_wait) (CnWait 5) [2]" by (simp add: sw_wait_def)
  show "pqs_rep (qw sw_wait) {0, 16} waiting_in" using waiting_queues_rep by (simp add: sw_wait_def)
  show "notifiable sw_wait 5" by (simp add: notifiable_def sw_wait_def a_cond_def sync_flags free_lock_def)
qed (auto simp: wakeable_def sw_wait_def mw_defs waiting_in_def queue_numbers waiting_queues_def zero_qworld_def)

theorem broadcast_wakes_all_witness:
  "\<exists>ds w'. pth_cond_notify cenv 3 4 1 5 True (sw_wait, ()) = map_option (\<lambda>s. (True, s)) (notify_end cenv 3 4 1 5 True ds (w', ()))
     \<and> tstate (threads w' 2) = PTH_STATE_READY \<and> has (cn_state (conds w' 5)) PTH_COND_BROADCAST"
  using broadcast_wakes_all [OF sw_wait_ready(1-4) _ sw_wait_ready(6), of cenv 3 4 1 "()"] sw_wait_ready(5,7) by auto



subsection \<open>The count of notifications\<close>

text \<open>The signaled flag says whether notifications are pending, and the other two flags need it.\<close>

definition cond_ok :: "pth_cond_st \<Rightarrow> bool" where
  "cond_ok x \<longleftrightarrow> (has (cn_state x) PTH_COND_SIGNALED \<longleftrightarrow> cn_wakecnt x \<noteq> 0)
     \<and> (has (cn_state x) PTH_COND_BROADCAST \<or> has (cn_state x) PTH_COND_HANDLED \<longrightarrow> has (cn_state x) PTH_COND_SIGNALED)"

lemma cond_ok_cong:
  "cn_state x = cn_state y \<Longrightarrow> cn_wakecnt x = cn_wakecnt y \<Longrightarrow> cond_ok x = cond_ok y"
  by (simp add: cond_ok_def)

lemma wakeup_anative_conds: "pth_wakeup_anative w = Some (r, w') \<Longrightarrow> conds w' = conds w"
  by (auto dest: wakeup_anative_same)

text \<open>One notification: the flags afterwards, and whether the count was already increased.\<close>

lemma notify_one_cond:
  assumes "notify_loop c False ds cq w = Some (fin, ds', w')"
  shows "cn_wakecnt (conds w' c) = cn_wakecnt (conds w c) + (if fin then 1 else 0)"
    and "cn_state (conds w' c) = cn_state (conds w c) \<or> cn_state (conds w' c) = set_flag PTH_COND_HANDLED (cn_state (conds w c))"
    and "cn_shared (conds w' c) = cn_shared (conds w c)"
proof -
  have *: "conds w1 = conds w0" if "make_ready x t w0 = Some w1" for x t and w0 w1 :: "('a sworld_scheme)"
    using same_sync_fields(1) [OF make_ready_same [OF that]] .
  have "cn_wakecnt (conds w' c) = cn_wakecnt (conds w c) + (if fin then 1 else 0)
    \<and> (cn_state (conds w' c) = cn_state (conds w c) \<or> cn_state (conds w' c) = set_flag PTH_COND_HANDLED (cn_state (conds w c)))
    \<and> cn_shared (conds w' c) = cn_shared (conds w c)"
    using assms by (subst (asm) notify_loop.simps)
      (auto simp: Let_def write_sigpipe_def cn_release_def upd_cond_def dest!: * split: elem.splits if_splits bind_splits)
  then show "cn_wakecnt (conds w' c) = cn_wakecnt (conds w c) + (if fin then 1 else 0)"
    "cn_state (conds w' c) = cn_state (conds w c) \<or> cn_state (conds w' c) = set_flag PTH_COND_HANDLED (cn_state (conds w c))"
    "cn_shared (conds w' c) = cn_shared (conds w c)" by blast+
qed

lemma notify_one_end:
  "notify_end E kv checkf d c False ds (w, k) = Some (w', k') \<Longrightarrow> \<not> pshared (cn_shared (conds w c)) \<Longrightarrow> conds w' = conds w"
  by (auto simp: notify_end_def Let_def write_sigpipe_def dest!: wakeup_anative_conds split: if_splits)

lemma cn_release_fields:
  "cn_state (conds (cn_release c w) c) = cn_state (conds w c)" "cn_wakecnt (conds (cn_release c w) c) = cn_wakecnt (conds w c)"
  "cn_shared (conds (cn_release c w) c) = cn_shared (conds w c)"
  by (simp_all add: cn_release_def upd_cond_def)

lemma notify_one_ok:
  assumes "pth_cond_notify E kv checkf d c False (w, k) = Some (r, w', k')" and "cond_ok (conds w c)"
    and "\<not> pshared (cn_shared (conds w c))" and "cn_wakecnt (conds w c) + 1 \<noteq> 0"
  shows "cond_ok (conds w' c)"
proof -
  let ?x = "conds w c"
  let ?st = "clear_flag PTH_COND_HANDLED (clear_flag PTH_COND_BROADCAST (set_flag PTH_COND_SIGNALED (cn_state ?x)))"
  consider "cn_state (conds w' c) = cn_state ?x" "cn_wakecnt (conds w' c) = cn_wakecnt ?x"
    | "cn_state (conds w' c) \<in> {?st, set_flag PTH_COND_HANDLED ?st}" "cn_wakecnt (conds w' c) = cn_wakecnt ?x + 1"
  proof (cases "has (cn_state ?x) PTH_COND_INITIALIZED")
    case True
    then obtain w1 where w1: "cn_acquire c w = Some w1" using assms(1) by (auto simp: pth_cond_notify_def split: bind_splits)
    then have x1: "cn_state (conds w1 c) = cn_state ?x" "cn_wakecnt (conds w1 c) = cn_wakecnt ?x" "cn_shared (conds w1 c) = cn_shared ?x"
      by (auto simp: cn_acquire_def upd_cond_def)
    define w2 where "w2 = upd_cond c (\<lambda>x. x\<lparr>cn_state := clear_flag PTH_COND_HANDLED
      (clear_flag PTH_COND_BROADCAST (set_flag PTH_COND_SIGNALED (cn_state x)))\<rparr>) w1"
    have x2: "cn_state (conds w2 c) = ?st" "cn_wakecnt (conds w2 c) = cn_wakecnt ?x" "cn_shared (conds w2 c) = cn_shared ?x"
      using x1 by (simp_all add: w2_def upd_cond_def)
    show ?thesis
    proof (cases "cn_waiters (conds w1 c) > 0")
      case True
      define L where "L = (if pth_number_of_natives w2 > 1 \<and> \<not> pshared (cn_shared (conds w2 c))
         then notify_loop c False 0 (eprev (elems w2) (CnWait c)) w2 else Some (False, 0, w2))"
      have run: "pth_cond_notify E kv checkf d c False (w, k) = do { (done, ds, w3) \<leftarrow> L;
           if done then Some (True, w3, k)
           else do { let w4 = cn_release c (upd_cond c (\<lambda>x. x\<lparr>cn_wakecnt := cn_wakecnt x + 1\<rparr>) w3);
                     s5 \<leftarrow> notify_end E kv checkf d c False ds (w4, k);
                     Some (True, s5) } }"
        using \<open>has _ _\<close> True w1 by (simp add: pth_cond_notify_def L_def w2_def Let_def)
      then obtain fin ds w3 where L: "L = Some (fin, ds, w3)" using assms(1) by (auto split: bind_splits)
      have x3: "cn_wakecnt (conds w3 c) = cn_wakecnt ?x + (if fin then 1 else 0)"
        "cn_state (conds w3 c) \<in> {?st, set_flag PTH_COND_HANDLED ?st}" "cn_shared (conds w3 c) = cn_shared ?x"
        using L x2 notify_one_cond [of c 0 _ w2 fin ds w3] by (auto simp: L_def split: if_splits)
      show ?thesis
      proof (cases fin)
        case False
        let ?w4 = "cn_release c (upd_cond c (\<lambda>x. x\<lparr>cn_wakecnt := cn_wakecnt x + 1\<rparr>) w3)"
        have "notify_end E kv checkf d c False ds (?w4, k) = Some (w', k')" using run L False assms(1) by (auto split: bind_splits)
        from notify_one_end [OF this] have "conds w' = conds ?w4" using x3 assms(3) by (simp add: cn_release_fields upd_cond_def)
        then show ?thesis using that(2) x3 False by (simp add: cn_release_fields upd_cond_def)
      qed (use that(2) x3 run L assms(1) in simp)
    qed (use that(1) \<open>has _ _\<close> w1 x1 assms(1) in \<open>auto simp: pth_cond_notify_def cn_release_fields\<close>)
  qed (use that(1) assms(1) in \<open>auto simp: pth_cond_notify_def\<close>)
  then show ?thesis
  proof cases
    case 1
    with assms(2) cond_ok_cong show ?thesis by blast
  next
    case 2
    with assms(4) show ?thesis by (auto simp: cond_ok_def sync_flags)
  qed
qed

text \<open>
  C31.  The signaled flag of a private condition variable is set exactly while notifications are
  pending: initialising it, a thread that leaves it after its wait, and a notification that is
  not a broadcast keep this, as long as the count does not wrap around.
\<close>

theorem cond_count_invariant:
  assumes "cond_ok (conds w c)"
  shows "cond_ok (conds (snd (pth_cond_init c sh w)) c) \<and> cond_ok (conds (cond_leave t c w) c)
     \<and> (\<forall>r w' k'. pth_cond_notify E kv checkf d c False (w, k) = Some (r, w', k') \<and> \<not> pshared (cn_shared (conds w c))
          \<and> cn_wakecnt (conds w c) + 1 \<noteq> 0 \<longrightarrow> cond_ok (conds w' c))"
proof (intro conjI allI impI)
  show "cond_ok (conds (snd (pth_cond_init c sh w)) c)"
    by (simp add: pth_cond_init_def Let_def upd_cond_def cond_ok_def sync_flags)
  show "cond_ok (conds (cond_leave t c w) c)"
    using assms by (auto simp: cond_leave_def Let_def upd_cond_def cond_ok_def sync_flags)
qed (blast intro: notify_one_ok [OF _ assms])

theorem cond_count_invariant_witness:
  "cond_ok (conds (cond_leave 2 5 (upd_cond 5 (\<lambda>x. x\<lparr>cn_state := set_flag PTH_COND_SIGNALED (cn_state x), cn_wakecnt := 2\<rparr>) sw_wait)) 5)"
  by (rule cond_count_invariant [THEN conjunct2, THEN conjunct1])
    (simp add: sw_wait_def upd_cond_def a_cond_def cond_ok_def sync_flags)

text \<open>
  A cancelled waiter breaks it: its clean-up handler clears the signaled flag and keeps the
  count, so that a later notification is still counted as pending after its only waiter has left.
\<close>

theorem cond_cancel_breaks:
  assumes "cond_ok (conds w c)" and "has (cn_state (conds w c)) PTH_COND_SIGNALED" and "cn_waiters (conds w c) = 1"
    and "pth_cond_cleanup_handler E self m c (w, k) = Some s" and "\<And>s b s'. acquire_now E self m False False s = Some (b, s') \<Longrightarrow> conds (fst s') c = conds (fst s) c"
  shows "\<not> cond_ok (conds (fst s) c)"
proof -
  from assms(1,2) have "cn_wakecnt (conds w c) \<noteq> 0" by (simp add: cond_ok_def)
  then show ?thesis using assms(2-5)
    by (fastforce simp: pth_cond_cleanup_handler_def Let_def upd_cond_def cond_ok_def sync_flags split: bind_splits if_splits)
qed

text \<open>
  \<open>pth_barrier_reach\<close> never waits: \<open>pth_mutex_acquire\<close> returns 0 when it gets the
  mutex, the barrier takes this for a failure and returns FALSE with its mutex locked and its
  count unchanged.
\<close>

theorem barrier_returns_at_once:
  assumes "b \<noteq> 0" and "has (br_state (barriers w b)) PTH_BARRIER_INITIALIZED" and "idle_mutex w (br_mutex (barriers w b))"
    and "\<not> locked w (br_mutex (barriers w b))" and "d \<noteq> 0"
  shows "\<exists>w'. pth_barrier_reach E (\<lambda>_. d) kv kv2 checkf b (w, k) = Some (0, w', k) \<and> barriers w' = barriers w
     \<and> locked w' (br_mutex (barriers w b))"
proof -
  obtain w' where w': "acquire_now E (\<lambda>_. d) (br_mutex (barriers w b)) False False (w, k) = Some (0, w', k)"
    "took (br_mutex (barriers w b)) (current (natives w d)) w w'"
    using acquire_now_free [OF assms(3-5), of E False False k] by blast
  have "barriers w' = barriers w" using w'(2) by (auto simp: took_def only_mutex_def intro: sworld_more)
  moreover have "locked w' (br_mutex (barriers w b))" using w'(2) by (auto simp: took_def)
  ultimately show ?thesis using assms(1,2) w'(1) by (simp add: pth_barrier_reach_def Let_def)
qed

theorem barrier_returns_at_once_witness:
  "\<exists>w'. pth_barrier_reach cenv (\<lambda>_. 1) 3 4 5 7 (sw0, ()) = Some (0, w', ()) \<and> locked w' 6"
  using barrier_returns_at_once [of 7 sw0 1 cenv 3 4 5 "()"] sw0_idle [of 6] by (auto simp: sync_flags mw_defs mutex_flags)

end
