(* ===== verification/Util.thy ===== *)
theory Util
  imports Prelude
begin

text \<open>
  pth_util.c: copying of strings and the operations on sets of file descriptors.

  A buffer is a list of characters, a C string a buffer with the character \<open>NUL\<close> in it.  A
  file descriptor set is a set of numbers below \<open>FD_SETSIZE\<close>, a pointer that may be NULL an
  option.  \<open>None\<close> as the result of an operation is an access out of range.  The input and the
  output sets of one call are different objects.
\<close>

definition NUL :: char where "NUL = CHR 0x00"

text \<open>Buffers with bounds.\<close>

definition get_at :: "'a list \<Rightarrow> nat \<Rightarrow> 'a option" where
  "get_at b i = (if i < length b then Some (b ! i) else None)"

definition put_at :: "'a list \<Rightarrow> nat \<Rightarrow> 'a \<Rightarrow> 'a list option" where
  "put_at b i c = (if i < length b then Some (b[i := c]) else None)"

text \<open>The loop copies \<open>src\<close> from \<open>d\<close> on; the result is the position of the terminator.\<close>

function cpystrn_loop :: "nat \<Rightarrow> string \<Rightarrow> nat \<Rightarrow> string \<Rightarrow> (nat \<times> string) option" where
  "cpystrn_loop d src lim dst =
     (if d < lim then
        do { c \<leftarrow> get_at src d;
             dst1 \<leftarrow> put_at dst d c;
             if c = NUL then Some (d, dst1) else cpystrn_loop (d + 1) src lim dst1 }
      else do { dst1 \<leftarrow> put_at dst d NUL; Some (d, dst1) })"
  by pat_completeness auto
termination by (relation "measure (\<lambda>(d, _, lim, _). lim - d)") auto

declare cpystrn_loop.simps [simp del]

definition pth_util_cpystrn :: "string \<Rightarrow> string \<Rightarrow> nat \<Rightarrow> (nat \<times> string) option" where
  "pth_util_cpystrn dst src dst_size =
     (if dst_size = 0 then Some (0, dst) else cpystrn_loop 0 src (dst_size - 1) dst)"

subsection \<open>Sets of file descriptors\<close>

definition FD_SETSIZE :: nat where "FD_SETSIZE = 1024"

type_synonym fd_set = "nat set"

definition FD_ISSET :: "nat \<Rightarrow> fd_set \<Rightarrow> bool option" where
  "FD_ISSET s f = (if s < FD_SETSIZE then Some (s \<in> f) else None)"

definition FD_SET :: "nat \<Rightarrow> fd_set \<Rightarrow> fd_set option" where
  "FD_SET s f = (if s < FD_SETSIZE then Some (insert s f) else None)"

definition FD_CLR :: "nat \<Rightarrow> fd_set \<Rightarrow> fd_set option" where
  "FD_CLR s f = (if s < FD_SETSIZE then Some (f - {s}) else None)"

definition merge_one :: "nat \<Rightarrow> fd_set option \<Rightarrow> fd_set \<Rightarrow> fd_set option" where
  "merge_one s i ofds = (case i of None \<Rightarrow> Some ofds
     | Some ifds \<Rightarrow> do { b \<leftarrow> FD_ISSET s ifds; if b then FD_SET s ofds else Some ofds })"

fun merge_loop :: "nat list \<Rightarrow> fd_set option \<Rightarrow> fd_set \<Rightarrow> fd_set option \<Rightarrow> fd_set \<Rightarrow> fd_set option \<Rightarrow> fd_set
    \<Rightarrow> (fd_set \<times> fd_set \<times> fd_set) option" where
  "merge_loop [] i1 o1 i2 o2 i3 o3 = Some (o1, o2, o3)"
| "merge_loop (s # ss) i1 o1 i2 o2 i3 o3 =
     do { p1 \<leftarrow> merge_one s i1 o1; p2 \<leftarrow> merge_one s i2 o2; p3 \<leftarrow> merge_one s i3 o3;
          merge_loop ss i1 p1 i2 p2 i3 p3 }"

definition pth_util_fds_merge :: "int \<Rightarrow> fd_set option \<Rightarrow> fd_set \<Rightarrow> fd_set option \<Rightarrow> fd_set \<Rightarrow> fd_set option \<Rightarrow> fd_set
    \<Rightarrow> (fd_set \<times> fd_set \<times> fd_set) option" where
  "pth_util_fds_merge nfd = merge_loop [0..<nat nfd]"

definition test_one :: "nat \<Rightarrow> fd_set option \<Rightarrow> fd_set \<Rightarrow> bool option" where
  "test_one s i ofds = (case i of None \<Rightarrow> Some False
     | Some ifds \<Rightarrow> do { b \<leftarrow> FD_ISSET s ifds; if b then FD_ISSET s ofds else Some False })"

fun test_loop :: "nat list \<Rightarrow> fd_set option \<Rightarrow> fd_set \<Rightarrow> fd_set option \<Rightarrow> fd_set \<Rightarrow> fd_set option \<Rightarrow> fd_set
    \<Rightarrow> bool option" where
  "test_loop [] i1 o1 i2 o2 i3 o3 = Some False"
| "test_loop (s # ss) i1 o1 i2 o2 i3 o3 =
     do { b1 \<leftarrow> test_one s i1 o1;
          if b1 then Some True
          else do { b2 \<leftarrow> test_one s i2 o2;
                    if b2 then Some True
                    else do { b3 \<leftarrow> test_one s i3 o3;
                              if b3 then Some True else test_loop ss i1 o1 i2 o2 i3 o3 } } }"

definition pth_util_fds_test :: "int \<Rightarrow> fd_set option \<Rightarrow> fd_set \<Rightarrow> fd_set option \<Rightarrow> fd_set \<Rightarrow> fd_set option \<Rightarrow> fd_set
    \<Rightarrow> bool option" where
  "pth_util_fds_test nfd = test_loop [0..<nat nfd]"

text \<open>The input set after the step and 1 if the descriptor is counted.\<close>

definition select_one :: "nat \<Rightarrow> fd_set option \<Rightarrow> fd_set \<Rightarrow> (fd_set option \<times> int) option" where
  "select_one s i ofds = (case i of None \<Rightarrow> Some (None, 0)
     | Some ifds \<Rightarrow>
         do { b \<leftarrow> FD_ISSET s ifds;
              if b then do { c \<leftarrow> FD_ISSET s ofds;
                             if \<not> c then do { j \<leftarrow> FD_CLR s ifds; Some (Some j, 0) } else Some (Some ifds, 1) }
              else Some (Some ifds, 0) })"

fun select_loop :: "nat list \<Rightarrow> int \<Rightarrow> fd_set option \<Rightarrow> fd_set \<Rightarrow> fd_set option \<Rightarrow> fd_set \<Rightarrow> fd_set option \<Rightarrow> fd_set
    \<Rightarrow> (int \<times> fd_set option \<times> fd_set option \<times> fd_set option) option" where
  "select_loop [] n i1 o1 i2 o2 i3 o3 = Some (n, i1, i2, i3)"
| "select_loop (s # ss) n i1 o1 i2 o2 i3 o3 =
     do { (j1, n1) \<leftarrow> select_one s i1 o1; (j2, n2) \<leftarrow> select_one s i2 o2; (j3, n3) \<leftarrow> select_one s i3 o3;
          select_loop ss (n + n1 + n2 + n3) j1 o1 j2 o2 j3 o3 }"

definition pth_util_fds_select :: "int \<Rightarrow> fd_set option \<Rightarrow> fd_set \<Rightarrow> fd_set option \<Rightarrow> fd_set \<Rightarrow> fd_set option \<Rightarrow> fd_set
    \<Rightarrow> (int \<times> fd_set option \<times> fd_set option \<times> fd_set option) option" where
  "pth_util_fds_select nfd = select_loop [0..<nat nfd] 0"

subsection \<open>Properties\<close>

lemma cpystrn_loop_result:
  assumes "NUL \<notin> set str" and "d \<le> length str" and "d \<le> lim" and "lim < length dst"
  shows "cpystrn_loop d (str @ NUL # junk) lim dst =
     (let n = min lim (length str) in Some (n, take d dst @ drop d (take n str) @ NUL # drop (Suc n) dst))"
  using assms(2-)
proof (induction "lim - d" arbitrary: d dst)
  case 0
  then have "d = lim" by simp
  with 0 show ?case
    by (subst cpystrn_loop.simps) (simp add: put_at_def min_absorb1 upd_conv_take_nth_drop Let_def)
next
  case (Suc k)
  then have lt: "d < lim" by simp
  show ?case
  proof (cases "d = length str")
    case True
    with lt Suc.prems show ?thesis
      by (subst cpystrn_loop.simps) (simp add: get_at_def put_at_def nth_append upd_conv_take_nth_drop min_absorb2 Let_def)
  next
    case False
    with Suc.prems have d: "d < length str" by simp
    then have c: "str ! d \<noteq> NUL" using assms(1) nth_mem by metis
    have "cpystrn_loop (d + 1) (str @ NUL # junk) lim (dst[d := str ! d]) =
       (let n = min lim (length str) in Some (n, take (d + 1) (dst[d := str ! d]) @ drop (d + 1) (take n str)
          @ NUL # drop (Suc n) (dst[d := str ! d])))"
      by (rule Suc.hyps(1)) (use Suc.hyps(2) Suc.prems lt d in auto)
    moreover have "take (d + 1) (dst[d := str ! d]) @ drop (d + 1) (take n str) = take d dst @ drop d (take n str)"
      if "n = min lim (length str)" for n
    proof -
      have "d < length dst" using lt Suc.prems by simp
      then have "take (d + 1) (dst[d := str ! d]) = take d dst @ [str ! d]" by (simp add: take_Suc_conv_app_nth)
      moreover have "drop d (take n str) = str ! d # drop (d + 1) (take n str)"
        using that lt d Cons_nth_drop_Suc [of d "take n str"] by simp
      ultimately show ?thesis by simp
    qed
    ultimately show ?thesis using lt d c Suc.prems
      by (subst cpystrn_loop.simps) (simp add: get_at_def put_at_def nth_append Let_def)
  qed
qed

text \<open>
  \<open>pth_util_cpystrn\<close> copies as much of the string as fits, terminates it, leaves the rest of
  the buffer as it was and returns the position of the terminator; it never writes past
  \<open>dst_size\<close>.
\<close>

theorem cpystrn_result:
  assumes "NUL \<notin> set str" and "0 < dst_size" and "dst_size \<le> length dst"
  shows "pth_util_cpystrn dst (str @ NUL # junk) dst_size =
     (let n = min (dst_size - 1) (length str) in Some (n, take n str @ NUL # drop (Suc n) dst))"
  using cpystrn_loop_result [OF assms(1), of 0 "dst_size - 1" dst junk] assms(2,3)
  by (simp add: pth_util_cpystrn_def)

theorem cpystrn_result_witness: "pth_util_cpystrn ''xxxxxx'' (''abcdef'' @ [NUL]) 4 = Some (3, ''abc'' @ NUL # ''xx'')"
  using cpystrn_result [of "''abcdef''" 4 "''xxxxxx''" "[]"] by (simp add: NUL_def)

text \<open>The members of a set that may be absent, among the descriptors \<open>ss\<close>.\<close>

definition among :: "nat list \<Rightarrow> fd_set option \<Rightarrow> fd_set" where
  "among ss i = (case i of None \<Rightarrow> {} | Some f \<Rightarrow> {s \<in> f. s \<in> set ss})"

lemma among_simps [simp]: "among ss None = {}" "among [] i = {}" "among ss (Some f) = {s \<in> f. s \<in> set ss}"
  by (auto simp: among_def split: option.split)

lemma among_Cons: "among (s # ss) i = among [s] i \<union> among ss i"
  by (cases i) auto

lemma finite_among [simp]: "finite (among ss i)"
  by (cases i) auto

lemma merge_one_result: "s < FD_SETSIZE \<Longrightarrow> merge_one s i ofds = Some (ofds \<union> among [s] i)"
  by (auto simp: merge_one_def FD_ISSET_def FD_SET_def split: option.split)

lemma merge_loop_result:
  assumes "\<forall>s \<in> set ss. s < FD_SETSIZE"
  shows "merge_loop ss i1 o1 i2 o2 i3 o3 = Some (o1 \<union> among ss i1, o2 \<union> among ss i2, o3 \<union> among ss i3)"
  using assms
proof (induction ss arbitrary: o1 o2 o3)
  case (Cons s ss)
  then show ?case using among_Cons [of s ss] by (simp add: merge_one_result Un_assoc)
qed simp

lemma test_one_result: "s < FD_SETSIZE \<Longrightarrow> test_one s i ofds = Some (among [s] i \<inter> ofds \<noteq> {})"
  by (auto simp: test_one_def FD_ISSET_def split: option.split)

lemma test_loop_result:
  assumes "\<forall>s \<in> set ss. s < FD_SETSIZE"
  shows "test_loop ss i1 o1 i2 o2 i3 o3 =
     Some (among ss i1 \<inter> o1 \<noteq> {} \<or> among ss i2 \<inter> o2 \<noteq> {} \<or> among ss i3 \<inter> o3 \<noteq> {})"
  using assms
proof (induction ss)
  case (Cons s ss)
  then show ?case using among_Cons [of s ss] by (auto simp: test_one_result Int_Un_distrib2)
qed simp

definition keep :: "nat list \<Rightarrow> fd_set option \<Rightarrow> fd_set \<Rightarrow> fd_set option" where
  "keep ss i ofds = map_option (\<lambda>f. {s \<in> f. s \<in> set ss \<longrightarrow> s \<in> ofds}) i"

lemma select_one_result:
  assumes "s < FD_SETSIZE"
  shows "select_one s i ofds = Some (keep [s] i ofds, int (card (among [s] i \<inter> ofds)))"
proof (cases i)
  case (Some f)
  have "{x \<in> f. x = s} \<inter> ofds = (if s \<in> f \<and> s \<in> ofds then {s} else {})" by auto
  with Some assms show ?thesis by (auto simp: select_one_def FD_ISSET_def FD_CLR_def keep_def)
qed (simp add: select_one_def keep_def)

lemma keep_Cons: "keep ss (keep [s] i ofds) ofds = keep (s # ss) i ofds"
  by (cases i) (auto simp: keep_def)

lemma among_keep: "s \<notin> set ss \<Longrightarrow> among ss (keep [s] i ofds) = among ss i"
  by (cases i) (auto simp: keep_def)

lemma card_among_Cons:
  assumes "s \<notin> set ss"
  shows "card (among (s # ss) i \<inter> ofds) = card (among [s] i \<inter> ofds) + card (among ss i \<inter> ofds)"
proof -
  have "among (s # ss) i \<inter> ofds = (among [s] i \<inter> ofds) \<union> (among ss i \<inter> ofds)" using among_Cons [of s ss i] by auto
  moreover have "(among [s] i \<inter> ofds) \<inter> (among ss i \<inter> ofds) = {}" using assms by (cases i) auto
  ultimately show ?thesis by (simp add: card_Un_disjoint)
qed

lemma select_loop_result:
  assumes "\<forall>s \<in> set ss. s < FD_SETSIZE" and "distinct ss"
  shows "select_loop ss n i1 o1 i2 o2 i3 o3 =
     Some (n + int (card (among ss i1 \<inter> o1) + card (among ss i2 \<inter> o2) + card (among ss i3 \<inter> o3)),
           keep ss i1 o1, keep ss i2 o2, keep ss i3 o3)"
  using assms
proof (induction ss arbitrary: n i1 i2 i3)
  case Nil
  have "keep [] i ofds = i" for i ofds by (cases i) (auto simp: keep_def)
  then show ?case by simp
next
  case (Cons s ss)
  then have "s \<notin> set ss" by simp
  note card = card_among_Cons [OF this] and keep = among_keep [OF this]
  from Cons show ?case by (simp add: select_one_result keep_Cons keep card)
qed

text \<open>The members of a set that may be absent, below \<open>nfd\<close>.\<close>

definition below :: "int \<Rightarrow> fd_set option \<Rightarrow> fd_set" where
  "below nfd i = (case i of None \<Rightarrow> {} | Some f \<Rightarrow> {s \<in> f. int s < nfd})"

lemma among_below: "among [0..<nat nfd] i = below nfd i"
  by (cases i) (auto simp: below_def)

lemma fds_in_range: "nfd \<le> int FD_SETSIZE \<Longrightarrow> \<forall>s \<in> set [0..<nat nfd]. s < FD_SETSIZE"
  by auto

lemma fds_merge_result:
  "nfd \<le> int FD_SETSIZE \<Longrightarrow> pth_util_fds_merge nfd i1 o1 i2 o2 i3 o3
     = Some (o1 \<union> below nfd i1, o2 \<union> below nfd i2, o3 \<union> below nfd i3)"
  unfolding pth_util_fds_merge_def by (simp only: merge_loop_result [OF fds_in_range] among_below)

lemma fds_test_result:
  "nfd \<le> int FD_SETSIZE \<Longrightarrow> pth_util_fds_test nfd i1 o1 i2 o2 i3 o3
     = Some (below nfd i1 \<inter> o1 \<noteq> {} \<or> below nfd i2 \<inter> o2 \<noteq> {} \<or> below nfd i3 \<inter> o3 \<noteq> {})"
  unfolding pth_util_fds_test_def by (simp only: test_loop_result [OF fds_in_range] among_below)

text \<open>
  \<open>pth_util_fds_select\<close> leaves in every input set the descriptors that are also in its
  output set (and those not below \<open>nfd\<close>) and returns how many there are, a descriptor in two sets
  counted twice; it returns 0 exactly if \<open>pth_util_fds_test\<close> finds no descriptor that occurred.
\<close>

theorem fds_select_result:
  fixes i1 i2 i3 :: "fd_set option" and o1 o2 o3 :: fd_set
  assumes "nfd \<le> int FD_SETSIZE"
  defines "keeps i ofds \<equiv> map_option (\<lambda>f. {s \<in> f. int s < nfd \<longrightarrow> s \<in> ofds}) i"
  defines "n \<equiv> card (below nfd i1 \<inter> o1) + card (below nfd i2 \<inter> o2) + card (below nfd i3 \<inter> o3)"
  shows "pth_util_fds_select nfd i1 o1 i2 o2 i3 o3 = Some (int n, keeps i1 o1, keeps i2 o2, keeps i3 o3)
    \<and> pth_util_fds_test nfd i1 o1 i2 o2 i3 o3 = Some (n \<noteq> 0)"
proof (rule conjI)
  have "keep [0..<nat nfd] i ofds = keeps i ofds" for i ofds by (cases i) (auto simp: keep_def keeps_def)
  then show "pth_util_fds_select nfd i1 o1 i2 o2 i3 o3 = Some (int n, keeps i1 o1, keeps i2 o2, keeps i3 o3)"
    unfolding pth_util_fds_select_def by (simp add: select_loop_result [OF fds_in_range [OF assms(1)]] among_below n_def)
  have "finite (below nfd i)" for i using finite_among [of "[0..<nat nfd]" i] by (simp add: among_below)
  then show "pth_util_fds_test nfd i1 o1 i2 o2 i3 o3 = Some (n \<noteq> 0)"
    using assms(1) by (simp add: fds_test_result n_def)
qed

theorem fds_select_result_witness:
  "pth_util_fds_select 8 (Some {2, 3, 9}) {3} (Some {3}) {3} None {} = Some (2, Some {3, 9}, Some {3}, None)"
proof -
  have b: "below 8 (Some {2, 3, 9}) \<inter> {3} = {3}" "below 8 (Some {3}) \<inter> {3} = {3}" "below 8 None \<inter> {} = {}"
    by (auto simp: below_def)
  have k: "{s. (s = 2 \<or> s = 3 \<or> s = 9) \<and> (s < 8 \<longrightarrow> s = 3)} = {3, 9 :: nat}" "{s. s = 3 \<and> (s < 8 \<longrightarrow> s = 3)} = {3 :: nat}"
    by auto
  show ?thesis
    using fds_select_result [of 8 "Some {2, 3, 9}" "{3}" "Some {3}" "{3}" None "{}"] by (simp add: FD_SETSIZE_def b k)
qed

end
