(* ===== verification/Printf.thy ===== *)
theory Printf
  imports Complex_Main Flags Util
begin

text \<open>
  pth_string.c: the formatted output that the library uses for thread names and messages.

  A format is a list of characters with its terminator; the character \<open>ch\<close> of the code is the
  head of the list and \<open>ch = *format++\<close> drops it.  The variable arguments are a list of values
  tagged with their C type, integers at their width on i386.  \<open>None\<close> is a read past the end of
  the format, an argument that is missing or of another type, or a width, a precision or a part
  of a floating point number that no int or long holds.  The padding, a difference of ints, and
  the amount of a negative number wrap as the subtraction and negation of the machine do, so that
  the smallest 64-bit number is printed.  The output
  state has the buffer (\<open>None\<close> for NULL), \<open>currlen\<close> and \<open>maxlen\<close>; \<open>obad\<close> records
  that a character was written outside the buffer.

  Floating point numbers are rational numbers: the rounding of \<open>long double\<close> is not modelled.
  The code multiplies a fraction by a power of ten up to \<open>10 ^ 9\<close>, which is exact for fractions
  of at most 43 bits.
\<close>

definition DP_F_MINUS :: u32 where "DP_F_MINUS = BIT 0"
definition DP_F_PLUS :: u32 where "DP_F_PLUS = BIT 1"
definition DP_F_SPACE :: u32 where "DP_F_SPACE = BIT 2"
definition DP_F_NUM :: u32 where "DP_F_NUM = BIT 3"
definition DP_F_ZERO :: u32 where "DP_F_ZERO = BIT 4"
definition DP_F_UP :: u32 where "DP_F_UP = BIT 5"
definition DP_F_UNSIGNED :: u32 where "DP_F_UNSIGNED = BIT 6"

lemmas dp_flags = DP_F_MINUS_def DP_F_PLUS_def DP_F_SPACE_def DP_F_NUM_def DP_F_ZERO_def DP_F_UP_def DP_F_UNSIGNED_def

datatype dp_c = DP_C_NONE | DP_C_SHORT | DP_C_LONG | DP_C_LDOUBLE | DP_C_LLONG

datatype dp_s = DP_S_DEFAULT | DP_S_FLAGS | DP_S_MIN | DP_S_DOT | DP_S_MAX | DP_S_MOD | DP_S_CONV

datatype fmtarg = AInt "32 word" | ALong "32 word" | ALLong "64 word" | AStr "string option" | APtr "32 word"
  | ADouble rat | ALDouble rat

record out =
  obuf :: "string option"
  olen :: nat
  omax :: nat
  obad :: bool

definition STR_MAX :: "int \<Rightarrow> int \<Rightarrow> int" where
  "STR_MAX p q = (if p \<ge> q then p else q)"

text \<open>A signed result that must fit an \<open>int\<close>.\<close>

definition int_range :: "int \<Rightarrow> int option" where
  "int_range i = (if - (2 ^ 31) \<le> i \<and> i < 2 ^ 31 then Some i else None)"

definition dopr_outch :: "char \<Rightarrow> out \<Rightarrow> out" where
  "dopr_outch c st =
     (if olen st < omax st then
        (case obuf st of
           None \<Rightarrow> st
         | Some b \<Rightarrow> (case put_at b (olen st) c of None \<Rightarrow> st\<lparr>obad := True\<rparr> | Some b1 \<Rightarrow> st\<lparr>obuf := Some b1\<rparr>))
        \<lparr>olen := olen st + 1\<rparr>
      else st)"

text \<open>A loop that puts out the characters of a list.\<close>

definition outs :: "string \<Rightarrow> out \<Rightarrow> out" where
  "outs s st = fold dopr_outch s st"

subsection \<open>Strings and integers\<close>

text \<open>
  \<open>fmtstr\<close>, \<open>fmtint\<close> and \<open>fmtfp\<close> return the characters that the C functions put out.
  The padding of a string is before it or after it.
\<close>

definition pad_text :: "string option \<Rightarrow> u32 \<Rightarrow> int \<Rightarrow> string" where
  "pad_text value flags min0 =
     (let v = (case value of None \<Rightarrow> ''<NULL>'' | Some s \<Rightarrow> s);
          padlen = max 0 (wrap_int (min0 - int (length v)));
          left = (if has flags DP_F_MINUS then 0 else nat padlen);
          right = (if has flags DP_F_MINUS then nat padlen else 0)
      in replicate left CHR '' '' @ v @ replicate right CHR '' '')"

definition fmtstr :: "string option \<Rightarrow> u32 \<Rightarrow> int \<Rightarrow> int \<Rightarrow> string" where
  "fmtstr value flags min0 max0 = take (nat max0) (pad_text value flags min0)"

definition digit :: "bool \<Rightarrow> nat \<Rightarrow> char" where
  "digit caps d = (if caps then ''0123456789ABCDEF'' else ''0123456789abcdef'') ! d"

text \<open>The characters put into \<open>convert\<close>, from index \<open>place\<close> on.\<close>

function int_digits :: "nat \<Rightarrow> bool \<Rightarrow> nat \<Rightarrow> nat \<Rightarrow> string" where
  "int_digits base caps place u =
     (let c = digit caps (u mod base); u1 = u div base; place1 = place + 1
      in c # (if u1 \<noteq> 0 \<and> place1 < 20 then int_digits base caps place1 u1 else []))"
  by pat_completeness auto
termination by (relation "measure (\<lambda>(_, _, place, _). 20 - place)") auto

declare int_digits.simps [simp del]

definition fmt_sign :: "bool \<Rightarrow> u32 \<Rightarrow> string" where
  "fmt_sign neg flags = (if neg then ''-'' else if has flags DP_F_PLUS then ''+'' else if has flags DP_F_SPACE then '' '' else [])"

text \<open>
  \<open>value\<close> is the \<open>LLONG\<close> argument, the sign is empty or one character.  \<open>-value\<close>
  is taken to 64 bits.
\<close>

definition fmtint :: "int \<Rightarrow> nat \<Rightarrow> int \<Rightarrow> int \<Rightarrow> u32 \<Rightarrow> string" where
  "fmtint value base min0 max1 flags =
     (let max0 = (if max1 < 0 then 0 else max1);
          sign = (if has flags DP_F_UNSIGNED then [] else fmt_sign (value < 0) flags);
          uvalue = nat ((if \<not> has flags DP_F_UNSIGNED \<and> value < 0 then - value else value) mod 2 ^ 64);
          convert = int_digits base (has flags DP_F_UP) 0 uvalue;
          place = (if length convert = 20 then length convert - 1 else length convert);
          zpad1 = max 0 (max0 - int place);
          spad1 = max 0 (wrap_int (min0 - STR_MAX max0 (int place) - int (length sign)));
          zpadlen = (if has flags DP_F_ZERO then STR_MAX zpad1 spad1 else zpad1);
          spadlen = (if has flags DP_F_ZERO then 0 else spad1);
          left = (if has flags DP_F_MINUS then 0 else nat spadlen);
          right = (if has flags DP_F_MINUS then nat spadlen else 0)
      in replicate left CHR '' '' @ sign @ replicate (nat zpadlen) CHR ''0'' @ rev (take place convert)
               @ replicate right CHR '' '')"

subsection \<open>Floating point numbers\<close>

definition abs_val :: "rat \<Rightarrow> rat" where
  "abs_val v = (if v < 0 then - v else v)"

primrec pow10 :: "nat \<Rightarrow> rat" where
  "pow10 0 = 1"
| "pow10 (Suc e) = pow10 e * 10"

text \<open>A number that is not negative, converted to \<open>long\<close>.\<close>

definition to_long :: "rat \<Rightarrow> int option" where
  "to_long v = int_range \<lfloor>v\<rfloor>"

definition round_fp :: "rat \<Rightarrow> int option" where
  "round_fp v = do { intpart \<leftarrow> to_long v;
                     if v - of_int intpart \<ge> 1 / 2 then int_range (intpart + 1) else Some intpart }"

definition fmtfp :: "rat \<Rightarrow> int \<Rightarrow> int \<Rightarrow> u32 \<Rightarrow> string option" where
  "fmtfp fvalue min0 max2 flags =
     do { let max1 = (if max2 < 0 then 6 else max2);
          let ufvalue = abs_val fvalue;
          let sign = fmt_sign (fvalue < 0) flags;
          int1 \<leftarrow> to_long ufvalue;
          let max0 = (if max1 > 9 then 9 else max1);
          frac1 \<leftarrow> round_fp (pow10 (nat max0) * (ufvalue - of_int int1));
          (intpart, fracpart) \<leftarrow>
            (if of_int frac1 \<ge> pow10 (nat max0)
             then do { i \<leftarrow> int_range (int1 + 1); Some (i, \<lfloor>of_int frac1 - pow10 (nat max0)\<rfloor>) }
             else Some (int1, frac1));
          let iconvert = int_digits 10 False 0 (nat intpart);
          let iplace = (if length iconvert = 20 then 19 else length iconvert);
          let fconvert = int_digits 10 False 0 (nat fracpart);
          let fplace = (if length fconvert = 20 then 19 else length fconvert);
          let pad = max 0 (wrap_int (min0 - int iplace - max0 - 1 - int (length sign)));
          let zpadlen = nat (max0 - int fplace);
          let left = (if has flags DP_F_MINUS then 0 else nat pad);
          let right = (if has flags DP_F_MINUS then nat pad else 0);
          let before = (if has flags DP_F_ZERO \<and> left > 0
                        then sign @ replicate (if sign = [] then left else left - 1) CHR ''0''
                        else replicate left CHR '' '' @ sign);
          let point = (if max0 > 0 then CHR ''.'' # rev (take fplace fconvert) else []);
          Some (before @ rev (take iplace iconvert) @ point @ replicate zpadlen CHR ''0''
                      @ replicate right CHR '' '') }"

subsection \<open>The format\<close>

fun arg_signed :: "dp_c \<Rightarrow> fmtarg list \<Rightarrow> (int \<times> fmtarg list) option" where
  "arg_signed DP_C_SHORT (AInt w # args) = Some (sint (ucast w :: 16 word), args)"
| "arg_signed DP_C_LONG (ALong w # args) = Some (sint w, args)"
| "arg_signed DP_C_LLONG (ALLong w # args) = Some (sint w, args)"
| "arg_signed DP_C_NONE (AInt w # args) = Some (sint w, args)"
| "arg_signed DP_C_LDOUBLE (AInt w # args) = Some (sint w, args)"
| "arg_signed _ _ = None"

fun arg_unsigned :: "dp_c \<Rightarrow> fmtarg list \<Rightarrow> (int \<times> fmtarg list) option" where
  "arg_unsigned DP_C_SHORT (AInt w # args) = Some (uint (ucast w :: 16 word), args)"
| "arg_unsigned DP_C_LONG (ALong w # args) = Some (uint w, args)"
| "arg_unsigned DP_C_LLONG (ALLong w # args) = Some (sint w, args)"
| "arg_unsigned DP_C_NONE (AInt w # args) = Some (uint w, args)"
| "arg_unsigned DP_C_LDOUBLE (AInt w # args) = Some (uint w, args)"
| "arg_unsigned _ _ = None"

fun arg_fp :: "dp_c \<Rightarrow> fmtarg list \<Rightarrow> (rat \<times> fmtarg list) option" where
  "arg_fp DP_C_LDOUBLE (ALDouble v # args) = Some (v, args)"
| "arg_fp DP_C_LDOUBLE _ = None"
| "arg_fp _ (ADouble v # args) = Some (v, args)"
| "arg_fp _ _ = None"

fun arg_int :: "fmtarg list \<Rightarrow> (32 word \<times> fmtarg list) option" where
  "arg_int (AInt w # args) = Some (w, args)" | "arg_int _ = None"

fun arg_ptr :: "fmtarg list \<Rightarrow> (32 word \<times> fmtarg list) option" where
  "arg_ptr (APtr w # args) = Some (w, args)" | "arg_ptr _ = None"

fun arg_str :: "fmtarg list \<Rightarrow> (string option \<times> fmtarg list) option" where
  "arg_str (AStr s # args) = Some (s, args)" | "arg_str _ = None"

record spec =
  sp_flags :: u32
  sp_cflags :: dp_c
  sp_min :: int
  sp_max :: int

definition spec0 :: spec where
  "spec0 = \<lparr>sp_flags = 0, sp_cflags = DP_C_NONE, sp_min = 0, sp_max = -1\<rparr>"

text \<open>The output and the numbers stored by \<open>%n\<close>, with the address.\<close>

type_synonym dstate = "out \<times> (32 word \<times> int) list"

text \<open>The text of one conversion and the remaining arguments.\<close>

definition conv_text :: "char \<Rightarrow> spec \<Rightarrow> nat \<Rightarrow> fmtarg list \<Rightarrow> (fmtarg list \<times> string) option" where
  "conv_text ch p maxlen args =
     (let fl = sp_flags p in
      if ch = CHR ''d'' \<or> ch = CHR ''i'' then
        do { (v, as1) \<leftarrow> arg_signed (sp_cflags p) args; Some (as1, fmtint v 10 (sp_min p) (sp_max p) fl) }
      else if ch \<in> {CHR ''X'', CHR ''x'', CHR ''o'', CHR ''u''} then
        do { (v, as1) \<leftarrow> arg_unsigned (sp_cflags p) args;
             let fl1 = set_flag DP_F_UNSIGNED (if ch = CHR ''X'' then set_flag DP_F_UP fl else fl);
             let base = (if ch = CHR ''o'' then 8 else if ch = CHR ''u'' then 10 else 16);
             Some (as1, fmtint v base (sp_min p) (sp_max p) fl1) }
      else if ch = CHR ''f'' then
        do { (v, as1) \<leftarrow> arg_fp (sp_cflags p) args; u \<leftarrow> fmtfp v (sp_min p) (sp_max p) fl; Some (as1, u) }
      else if ch \<in> {CHR ''E'', CHR ''e'', CHR ''G'', CHR ''g''} then
        do { (v, as1) \<leftarrow> arg_fp (sp_cflags p) args; Some (as1, []) }
      else if ch = CHR ''c'' then do { (w, as1) \<leftarrow> arg_int args; Some (as1, [char_of (unat w)]) }
      else if ch = CHR ''s'' then
        do { (s, as1) \<leftarrow> arg_str args;
             let mx = (if sp_max p < 0 then sint (of_nat maxlen :: 32 word) else sp_max p);
             Some (as1, fmtstr s fl (sp_min p) mx) }
      else if ch = CHR ''p'' then
        do { (w, as1) \<leftarrow> arg_ptr args;
             Some (as1, fmtint (sint w) 16 (sp_min p) (sp_max p) (set_flag DP_F_UNSIGNED fl)) }
      else if ch = CHR ''%'' then Some (args, [ch])
      else Some (args, []))"

text \<open>One conversion, except that of \<open>%w\<close>, which reads on.\<close>

definition dopr_conv :: "char \<Rightarrow> spec \<Rightarrow> fmtarg list \<Rightarrow> dstate \<Rightarrow> (fmtarg list \<times> dstate) option" where
  "dopr_conv ch p args d =
     (if ch = CHR ''n'' then
        do { (w, as1) \<leftarrow> arg_ptr args;
             let n = olen (fst d);
             Some (as1, fst d, snd d @ [(w, if sp_cflags p = DP_C_SHORT then sint (of_nat n :: 16 word) else int n)]) }
      else do { (as1, u) \<leftarrow> conv_text ch p (omax (fst d)) args; Some (as1, outs u (fst d), snd d) })"

definition isdigit :: "char \<Rightarrow> bool" where
  "isdigit c \<longleftrightarrow> of_char (CHR ''0'') \<le> (of_char c :: nat) \<and> of_char c \<le> (of_char (CHR ''9'') :: nat)"

definition char_to_int :: "char \<Rightarrow> int" where
  "char_to_int c = of_char c - of_char (CHR ''0'')"

text \<open>The flag of a flag character.\<close>

definition dp_flag :: "char \<Rightarrow> u32 option" where
  "dp_flag ch = (if ch = CHR ''-'' then Some DP_F_MINUS else if ch = CHR ''+'' then Some DP_F_PLUS
     else if ch = CHR '' '' then Some DP_F_SPACE else if ch = CHR ''#'' then Some DP_F_NUM
     else if ch = CHR ''0'' then Some DP_F_ZERO else None)"

definition dp_rank :: "dp_s \<Rightarrow> nat" where
  "dp_rank s = (case s of DP_S_DEFAULT \<Rightarrow> 0 | DP_S_FLAGS \<Rightarrow> 6 | DP_S_MIN \<Rightarrow> 5 | DP_S_DOT \<Rightarrow> 4 | DP_S_MAX \<Rightarrow> 3
     | DP_S_MOD \<Rightarrow> 2 | DP_S_CONV \<Rightarrow> 1)"

text \<open>
  One turn of the loop: the \<open>switch\<close> on the state.  \<open>fmt\<close> is what follows the current
  character \<open>ch\<close>; in the result the list has the new current character first, and is empty if
  the code has read past the terminator.
\<close>

definition dopr_step :: "dp_s \<Rightarrow> char \<Rightarrow> string \<Rightarrow> spec \<Rightarrow> fmtarg list \<Rightarrow> dstate
    \<Rightarrow> (dp_s \<times> string \<times> spec \<times> fmtarg list \<times> dstate) option" where
  "dopr_step s ch fmt p args d =
     (case s of
        DP_S_DEFAULT \<Rightarrow>
          if ch = CHR ''%'' then Some (DP_S_FLAGS, fmt, p, args, d)
          else Some (DP_S_DEFAULT, fmt, p, args, dopr_outch ch (fst d), snd d)
      | DP_S_FLAGS \<Rightarrow>
          (case dp_flag ch of
             Some f \<Rightarrow> Some (DP_S_FLAGS, fmt, p\<lparr>sp_flags := set_flag f (sp_flags p)\<rparr>, args, d)
           | None \<Rightarrow> Some (DP_S_MIN, ch # fmt, p, args, d))
      | DP_S_MIN \<Rightarrow>
          if isdigit ch then
            do { m \<leftarrow> int_range (10 * sp_min p + char_to_int ch);
                 Some (DP_S_MIN, fmt, p\<lparr>sp_min := m\<rparr>, args, d) }
          else if ch = CHR ''*'' then
            do { (w, as1) \<leftarrow> arg_int args; Some (DP_S_DOT, fmt, p\<lparr>sp_min := sint w\<rparr>, as1, d) }
          else Some (DP_S_DOT, ch # fmt, p, args, d)
      | DP_S_DOT \<Rightarrow>
          if ch = CHR ''.'' then Some (DP_S_MAX, fmt, p, args, d) else Some (DP_S_MOD, ch # fmt, p, args, d)
      | DP_S_MAX \<Rightarrow>
          if isdigit ch then
            do { m \<leftarrow> int_range (10 * (if sp_max p < 0 then 0 else sp_max p) + char_to_int ch);
                 Some (DP_S_MAX, fmt, p\<lparr>sp_max := m\<rparr>, args, d) }
          else if ch = CHR ''*'' then
            do { (w, as1) \<leftarrow> arg_int args; Some (DP_S_MOD, fmt, p\<lparr>sp_max := sint w\<rparr>, as1, d) }
          else Some (DP_S_MOD, ch # fmt, p, args, d)
      | DP_S_MOD \<Rightarrow>
          if ch = CHR ''h'' then Some (DP_S_CONV, fmt, p\<lparr>sp_cflags := DP_C_SHORT\<rparr>, args, d)
          else if ch = CHR ''l'' then
            (if fmt \<noteq> [] \<and> hd fmt = CHR ''l'' then Some (DP_S_CONV, tl fmt, p\<lparr>sp_cflags := DP_C_LLONG\<rparr>, args, d)
             else Some (DP_S_CONV, fmt, p\<lparr>sp_cflags := DP_C_LONG\<rparr>, args, d))
          else if ch = CHR ''q'' then Some (DP_S_CONV, fmt, p\<lparr>sp_cflags := DP_C_LLONG\<rparr>, args, d)
          else if ch = CHR ''L'' then Some (DP_S_CONV, fmt, p\<lparr>sp_cflags := DP_C_LDOUBLE\<rparr>, args, d)
          else Some (DP_S_CONV, ch # fmt, p, args, d)
      | DP_S_CONV \<Rightarrow>
          if ch = CHR ''w'' then Some (DP_S_DEFAULT, tl fmt, spec0, args, d)
          else do { (as1, d1) \<leftarrow> dopr_conv ch p args d; Some (DP_S_DEFAULT, fmt, spec0, as1, d1) })"

text \<open>A turn drops a character of the format or leaves it to a later state.\<close>

lemma dopr_step_decreases:
  assumes "dopr_step s ch fmt p args d = Some (s1, fmt1, p1, as1, d1)"
  shows "length fmt1 < length (ch # fmt) \<or> fmt1 = ch # fmt \<and> dp_rank s1 < dp_rank s"
  using assms by (cases s) (auto simp: dopr_step_def dp_rank_def split: if_splits option.splits bind_splits)

function dopr_loop :: "dp_s \<Rightarrow> string \<Rightarrow> spec \<Rightarrow> fmtarg list \<Rightarrow> dstate \<Rightarrow> dstate option" where
  "dopr_loop s [] p args d = None"
| "dopr_loop s (ch # fmt) p args d =
     (if ch = NUL \<or> olen (fst d) \<ge> omax (fst d) then Some d
      else do { (s1, fmt1, p1, as1, d1) \<leftarrow> dopr_step s ch fmt p args d; dopr_loop s1 fmt1 p1 as1 d1 })"
  by pat_completeness auto
termination
  by (relation "measures [\<lambda>(_, fmt, _). length fmt, \<lambda>(s, _). dp_rank s]") (auto dest: dopr_step_decreases)

declare dopr_loop.simps(2) [simp del]

definition dopr :: "string option \<Rightarrow> nat \<Rightarrow> string \<Rightarrow> fmtarg list \<Rightarrow> (nat \<times> dstate) option" where
  "dopr buffer maxlen fmt args =
     do { let mx = (if maxlen = 2 ^ 32 - 1 then 0xBFFFFFFF else maxlen);
          let lim = (if mx = 0 then 2 ^ 32 - 1 else mx - 1);
          (st, ns) \<leftarrow> dopr_loop DP_S_DEFAULT fmt spec0 args (\<lparr>obuf = buffer, olen = 0, omax = mx, obad = False\<rparr>, []);
          let n = (if olen st \<ge> lim then lim else olen st);
          Some (n, (case obuf st of
                      None \<Rightarrow> st
                    | Some b \<Rightarrow> (case put_at b n NUL of None \<Rightarrow> st\<lparr>obad := True\<rparr> | Some b1 \<Rightarrow> st\<lparr>obuf := Some b1\<rparr>)), ns) }"

text \<open>The result, the buffer, whether there was a write outside of it, and the stores of \<open>%n\<close>.\<close>

definition pth_vsnprintf :: "string option \<Rightarrow> nat \<Rightarrow> string \<Rightarrow> fmtarg list
    \<Rightarrow> (nat \<times> string option \<times> bool \<times> (32 word \<times> int) list) option" where
  "pth_vsnprintf str count fmt args =
     do { let (str1, bad) = (case str of
                 None \<Rightarrow> (None, False)
               | Some b \<Rightarrow> (case put_at b 0 NUL of None \<Rightarrow> (Some b, True) | Some b1 \<Rightarrow> (Some b1, False)));
          (n, st, ns) \<leftarrow> dopr str1 count fmt args;
          Some (n, obuf st, bad \<or> obad st, ns) }"

definition pth_snprintf :: "string option \<Rightarrow> nat \<Rightarrow> string \<Rightarrow> fmtarg list
    \<Rightarrow> (nat \<times> string option \<times> bool \<times> (32 word \<times> int) list) option" where
  "pth_snprintf = pth_vsnprintf"

text \<open>\<open>malloc n\<close> is a new buffer of \<open>n\<close> characters, or \<open>None\<close> for NULL.\<close>

definition pth_vasprintf :: "(nat \<Rightarrow> string option) \<Rightarrow> string \<Rightarrow> fmtarg list \<Rightarrow> string option option" where
  "pth_vasprintf malloc fmt ap =
     do { (n, _) \<leftarrow> pth_vsnprintf None (2 ^ 32 - 1) fmt ap;
          case malloc (n + 1) of
            None \<Rightarrow> Some None
          | Some rv \<Rightarrow> do { (_, rv1, _) \<leftarrow> pth_vsnprintf (Some rv) (n + 1) fmt ap; Some rv1 } }"

definition pth_asprintf :: "(nat \<Rightarrow> string option) \<Rightarrow> string \<Rightarrow> fmtarg list \<Rightarrow> string option option" where
  "pth_asprintf = pth_vasprintf"

subsection \<open>Output\<close>

lemma outs_simps [simp]: "outs [] st = st" "outs (c # s) st = outs s (dopr_outch c st)"
  by (simp_all add: outs_def)

lemma outs_append: "outs (s @ u) st = outs u (outs s st)"
  by (simp add: outs_def)

text \<open>A property of the output state that every character keeps is kept by the formatting.\<close>

definition out_inv :: "(out \<Rightarrow> bool) \<Rightarrow> bool" where
  "out_inv P \<longleftrightarrow> (\<forall>c st. P st \<longrightarrow> P (dopr_outch c st))"

lemma out_inv_outs: "out_inv P \<Longrightarrow> P st \<Longrightarrow> P (outs s st)"
  by (induction s arbitrary: st) (auto simp: out_inv_def)

lemma outch_full: "omax st \<le> olen st \<Longrightarrow> dopr_outch c st = st"
  by (simp add: dopr_outch_def)

lemma outs_full: "omax st \<le> olen st \<Longrightarrow> outs s st = st"
  by (induction s) (simp_all add: outch_full)

lemma outch_omax [simp]: "omax (dopr_outch c st) = omax st"
  by (simp add: dopr_outch_def split: option.split)

lemma outch_olen: "olen (dopr_outch c st) = (if olen st < omax st then olen st + 1 else olen st)"
  by (simp add: dopr_outch_def split: option.split)

lemma outs_omax [simp]: "omax (outs s st) = omax st"
  by (induction s arbitrary: st) simp_all

lemma outs_take:
  assumes "omax st \<le> olen st + k"
  shows "outs (take k s) st = outs s st"
  using assms
proof (induction s arbitrary: st k)
  case (Cons c s)
  show ?case
  proof (cases k)
    case 0
    with Cons.prems have "outs (c # s) st = st" by (intro outs_full) simp
    with 0 show ?thesis by simp
  next
    case (Suc l)
    have "omax (dopr_outch c st) \<le> olen (dopr_outch c st) + l" using Suc Cons.prems by (simp add: outch_olen)
    from Cons.IH [OF this] Suc show ?thesis by simp
  qed
qed simp

text \<open>A conversion puts out the same text whatever the output state is.\<close>

lemma conv_text_maxlen:
  assumes "conv_text ch p m args = Some (as1, u)" and "k \<le> m" and "m < 2 ^ 31"
  obtains v where "conv_text ch p k args = Some (as1, v)" "\<And>st. omax st = k \<Longrightarrow> outs v st = outs u st"
proof (cases "ch = CHR ''s''")
  case True
  from assms(1) True obtain s where s: "arg_str args = Some (s, as1)" by (auto simp: conv_text_def Let_def bind_eq_Some_conv)
  define w where "w = pad_text s (sp_flags p) (sp_min p)"
  have sint: "sint (of_nat n :: 32 word) = int n" if "n < 2 ^ 31" for n
    using that by (simp add: signed_of_nat signed_take_bit_int_eq_self)
  have "outs (take k w) st = outs (take m w) st" if "omax st = k" for st
    using outs_take [of st k w] outs_take [of st m w] that assms(2) by simp
  with True s assms show ?thesis
    by (intro that [of "if sp_max p < 0 then take k w else u"]) (auto simp: conv_text_def Let_def fmtstr_def w_def sint)
next
  case False
  then have "conv_text ch p k args = conv_text ch p m args" unfolding conv_text_def Let_def by (simp only: if_False)
  with that assms(1) show ?thesis by simp
qed

lemma dopr_conv_outs: "dopr_conv ch p args d = Some (as1, d1) \<Longrightarrow> \<exists>u. fst d1 = outs u (fst d)"
  by (auto simp: dopr_conv_def bind_eq_Some_conv Let_def intro: exI [of _ "[]"] split: if_splits)

lemma dopr_step_outs:
  assumes "dopr_step s ch fmt p args d = Some (s1, fmt1, p1, as1, d1)"
  shows "\<exists>u. fst d1 = outs u (fst d)"
proof (cases "s = DP_S_CONV \<and> ch \<noteq> CHR ''w''")
  case True
  with assms obtain as2 where "dopr_conv ch p args d = Some (as2, d1)"
    by (auto simp: dopr_step_def split: bind_splits)
  then show ?thesis by (rule dopr_conv_outs)
next
  case False
  with assms have "fst d1 = outs [] (fst d) \<or> fst d1 = outs [ch] (fst d)"
    by (cases s) (auto simp: dopr_step_def split: if_splits option.splits bind_splits)
  then show ?thesis by blast
qed

lemma dopr_loop_outs:
  assumes "dopr_loop s fmt p args d = Some d1"
  shows "\<exists>u. fst d1 = outs u (fst d)"
  using assms
proof (induction s fmt p args d rule: dopr_loop.induct)
  case (2 s ch fmt p args d)
  show ?case
  proof (cases "ch = NUL \<or> olen (fst d) \<ge> omax (fst d)")
    case True
    with 2(2) have "fst d1 = outs [] (fst d)" by (auto simp: dopr_loop.simps)
    then show ?thesis by blast
  next
    case False
    with 2(2) obtain s1 fmt1 p1 as1 d2 where st: "dopr_step s ch fmt p args d = Some (s1, fmt1, p1, as1, d2)"
      and l: "dopr_loop s1 fmt1 p1 as1 d2 = Some d1" by (auto simp: dopr_loop.simps split: bind_splits)
    from 2(1) [OF False st refl refl refl refl l] obtain u where u: "fst d1 = outs u (fst d2)" by (rule exE)
    from dopr_step_outs [OF st] obtain v where v: "fst d2 = outs v (fst d)" by (rule exE)
    have "fst d1 = outs (v @ u) (fst d)" by (simp only: u v outs_append)
    then show ?thesis by (rule exI)
  qed
qed simp

lemma outs_olen: "olen st \<le> omax st \<Longrightarrow> olen (outs s st) = min (omax st) (olen st + length s)"
  by (induction s arbitrary: st) (auto simp: outch_olen)

text \<open>Output into a buffer that is long enough.\<close>

lemma outs_buffer:
  assumes "obuf st = Some b" and "omax st \<le> length b" and "olen st \<le> omax st"
  shows "outs s st = (let t = take (omax st - olen st) s in
     st\<lparr>obuf := Some (take (olen st) b @ t @ drop (olen st + length t) b), olen := olen st + length t\<rparr>)"
  using assms
proof (induction s arbitrary: st b)
  case (Cons c s)
  show ?case
  proof (cases "olen st < omax st")
    case True
    let ?b = "b[olen st := c]"
    have st: "dopr_outch c st = st\<lparr>obuf := Some ?b, olen := olen st + 1\<rparr>"
      using Cons.prems True by (simp add: dopr_outch_def put_at_def)
    have "take (olen st + 1) ?b = take (olen st) b @ [c]" "drop (olen st + 1 + n) ?b = drop (olen st + 1 + n) b" for n
      using Cons.prems True by (simp_all add: take_Suc_conv_app_nth)
    with Cons.IH [of "dopr_outch c st" ?b] True Cons.prems show ?thesis
      by (simp add: st Let_def Suc_diff_Suc [symmetric] add.commute)
  next
    case False
    with Cons.prems show ?thesis by (simp add: outs_full outch_full)
  qed
qed simp

definition start :: "string \<Rightarrow> nat \<Rightarrow> out" where
  "start b count = \<lparr>obuf = Some (b[0 := NUL]), olen = 0, omax = count, obad = False\<rparr>"

text \<open>The result of \<open>pth_snprintf\<close> from the text that the loop puts out.\<close>

lemma snprintf_run:
  assumes "0 < count" "count \<le> length b" "count < 2 ^ 32 - 1"
    and run: "dopr_loop DP_S_DEFAULT fmt spec0 args (start b count, []) = Some d" and u: "fst d = outs u (start b count)"
  defines "n \<equiv> min (count - 1) (length u)"
  shows "pth_snprintf (Some b) count fmt args = Some (n, Some (take n u @ NUL # drop (n + 1) b), False, snd d)"
proof -
  let ?t = "take count u"
  have st: "fst d = (start b count)\<lparr>obuf := Some (?t @ drop (length ?t) (b[0 := NUL])), olen := length ?t\<rparr>"
    unfolding u using outs_buffer [of "start b count" "b[0 := NUL]" u] assms(2) by (simp add: start_def Let_def)
  have n: "(if length ?t \<ge> count - 1 then count - 1 else length ?t) = n" using assms(1) by (auto simp: n_def)
  have lt: "n < length b" using assms(1,2) by (simp add: n_def)
  have put: "put_at (?t @ drop (length ?t) (b[0 := NUL])) n NUL = Some (take n u @ NUL # drop (n + 1) b)"
  proof -
    have "n \<le> length ?t" using n by (auto split: if_splits)
    then have "take n (?t @ drop (length ?t) (b[0 := NUL])) = take n u" by (simp add: n_def)
    moreover have "drop (n + 1) (?t @ drop (length ?t) (b[0 := NUL])) = drop (n + 1) b"
    proof (cases "length ?t \<le> n + 1")
      case True
      then show ?thesis by (simp add: drop_update_cancel)
    next
      case False
      then show ?thesis using n by (auto split: if_splits)
    qed
    moreover have "n < length (?t @ drop (length ?t) (b[0 := NUL]))" using lt by simp
    ultimately show ?thesis by (simp add: put_at_def upd_conv_take_nth_drop)
  qed
  have fin: "pth_snprintf (Some b) count fmt args = Some (n, Some b3, False, snd d)"
    if "fst d = \<lparr>obuf = Some b2, olen = l, omax = count, obad = False\<rparr>" "(if l \<ge> count - 1 then count - 1 else l) = n"
      "put_at b2 n NUL = Some b3" for b2 b3 l
  proof -
    have "dopr (Some (b[0 := NUL])) count fmt args = Some (n, \<lparr>obuf = Some b3, olen = l, omax = count, obad = False\<rparr>, snd d)"
      using run that assms(1,3) by (cases d) (auto simp: dopr_def start_def Let_def split: if_splits)
    moreover have "put_at b 0 NUL = Some (b[0 := NUL])" using assms(1,2) by (auto simp: put_at_def)
    ultimately show ?thesis by (simp add: pth_snprintf_def pth_vsnprintf_def)
  qed
  have "fst d = \<lparr>obuf = Some (?t @ drop (length ?t) (b[0 := NUL])), olen = length ?t, omax = count, obad = False\<rparr>"
    using st by (simp add: start_def)
  from fin [OF this n put] show ?thesis .
qed

lemma snprintf_None:
  assumes "0 < count" "count \<le> length b" "count < 2 ^ 32 - 1"
  shows "pth_snprintf (Some b) count fmt args = None \<longleftrightarrow> dopr_loop DP_S_DEFAULT fmt spec0 args (start b count, []) = None"
  using assms by (auto simp: pth_snprintf_def pth_vsnprintf_def dopr_def put_at_def Let_def start_def bind_eq_None_conv split: prod.splits)


lemma dopr_step_sim:
  assumes "dopr_step s ch fmt p args d = Some (s1, fmt1, p1, as1, d1)"
    and e: "fst e = outs u e0" "fst d = outs u d0" and m: "omax e0 \<le> omax d0" "omax d0 < 2 ^ 31"
  obtains e1 v where "dopr_step s ch fmt p args e = Some (s1, fmt1, p1, as1, e1)" "fst e1 = outs v e0" "fst d1 = outs v d0"
proof (cases "s = DP_S_CONV \<and> ch \<noteq> CHR ''w'' \<and> ch \<noteq> CHR ''n''")
  case True
  with assms(1) obtain x where c: "conv_text ch p (omax d0) args = Some (as1, x)" and d1: "fst d1 = outs x (fst d)"
    and r: "s1 = DP_S_DEFAULT" "fmt1 = fmt" "p1 = spec0"
    by (auto simp: dopr_step_def dopr_conv_def e(2) bind_eq_Some_conv)
  from conv_text_maxlen [OF c m] obtain y where
    y: "conv_text ch p (omax e0) args = Some (as1, y)" "\<And>st. omax st = omax e0 \<Longrightarrow> outs y st = outs x st" by blast
  show ?thesis
    by (rule that [of "(outs x (fst e), snd e)" "u @ x"]) (use True y r d1 e in \<open>simp_all add: dopr_step_def dopr_conv_def outs_append\<close>)
next
  case False
  with assms(1) have "\<exists>w. fst d1 = outs w (fst d) \<and> (\<exists>ns. dopr_step s ch fmt p args e = Some (s1, fmt1, p1, as1, outs w (fst e), ns))"
    by (cases s; cases e) (auto simp: dopr_step_def dopr_conv_def bind_eq_Some_conv Let_def split: if_splits option.splits
        intro: exI [of _ "[]"] exI [of _ "[ch]"])
  then obtain w ns where "fst d1 = outs w (fst d)" "dopr_step s ch fmt p args e = Some (s1, fmt1, p1, as1, outs w (fst e), ns)" by blast
  then show ?thesis by (intro that [of "(outs w (fst e), ns)" "u @ w"]) (simp_all add: e outs_append)
qed

text \<open>The loop with a smaller buffer puts out the same text.\<close>

lemma dopr_loop_sim:
  assumes m: "omax e0 \<le> omax d0" "omax d0 < 2 ^ 31" and z: "olen e0 = 0" "olen d0 = 0"
    and "fst e = outs u e0" "fst d = outs u d0" and "dopr_loop s fmt p args d = Some d1"
  shows "\<exists>v e1. dopr_loop s fmt p args e = Some e1 \<and> fst e1 = outs v e0 \<and> fst d1 = outs v d0"
  using assms(5-)
proof (induction s fmt p args d arbitrary: e u rule: dopr_loop.induct)
  case (2 s ch fmt p args d)
  note run = "2.prems"(3) and e = "2.prems"(1,2)
  have len: "olen (fst e) = min (omax e0) (length u)" "olen (fst d) = min (omax d0) (length u)"
    using outs_olen [of e0 u] outs_olen [of d0 u] z by (simp_all add: e)
  show ?case
  proof (cases "ch = NUL \<or> olen (fst e) \<ge> omax (fst e)")
    case True
    from dopr_loop_outs [OF run] obtain v where v: "fst d1 = outs (u @ v) d0" by (auto simp: e outs_append)
    show ?thesis
    proof (cases "ch = NUL")
      case True
      with run e show ?thesis by (auto simp: dopr_loop.simps)
    next
      case False
      with True have "outs v (fst e) = fst e" by (intro outs_full) simp
      with True v e show ?thesis by (intro exI [of _ "u @ v"] exI [of _ e]) (simp add: dopr_loop.simps outs_append)
    qed
  next
    case False
    then have go: "\<not> (ch = NUL \<or> olen (fst d) \<ge> omax (fst d))" using len m(1) e by auto
    with run obtain s1 fmt1 p1 as1 d2 where st: "dopr_step s ch fmt p args d = Some (s1, fmt1, p1, as1, d2)"
      and l: "dopr_loop s1 fmt1 p1 as1 d2 = Some d1" by (auto simp: dopr_loop.simps split: bind_splits)
    from dopr_step_sim [OF st e m] obtain e2 v where
      "dopr_step s ch fmt p args e = Some (s1, fmt1, p1, as1, e2)" and v: "fst e2 = outs v e0" "fst d2 = outs v d0" by blast
    then have "dopr_loop s (ch # fmt) p args e = dopr_loop s1 fmt1 p1 as1 e2" using False by (simp add: dopr_loop.simps)
    with "2.IH" [OF go st refl refl refl refl v l] show ?thesis by simp
  qed
qed simp

text \<open>
  What \<open>pth_snprintf\<close> leaves in a smaller buffer is the beginning of what it leaves in a
  larger one: a text that does not fit is cut and terminated, and the length returned is that of
  the cut text.
\<close>

theorem snprintf_cut:
  assumes "pth_snprintf (Some b) count fmt args = Some (n, Some b1, r)"
    and "0 < count" "count \<le> length b" "count < 2 ^ 31" and "0 < small" "small \<le> count" "small \<le> length c"
  defines "k \<equiv> min (small - 1) n"
  shows "\<exists>ns. pth_snprintf (Some c) small fmt args = Some (k, Some (take k b1 @ NUL # drop (k + 1) c), False, ns)"
proof -
  note big = assms(2,3) order.strict_trans [OF assms(4), of "2 ^ 32 - 1", simplified]
  have "dopr_loop DP_S_DEFAULT fmt spec0 args (start b count, []) \<noteq> None"
    using assms(1) by (simp add: snprintf_None [OF big(1,2), symmetric] big(3))
  then obtain d where d: "dopr_loop DP_S_DEFAULT fmt spec0 args (start b count, []) = Some d" by blast
  have "\<exists>v e1. dopr_loop DP_S_DEFAULT fmt spec0 args (start c small, []) = Some e1
      \<and> fst e1 = outs v (start c small) \<and> fst d = outs v (start b count)"
    by (rule dopr_loop_sim [OF _ _ _ _ _ _ d, where u = "[]"]) (use assms in \<open>simp_all add: start_def\<close>)
  then obtain v e1 where e1: "dopr_loop DP_S_DEFAULT fmt spec0 args (start c small, []) = Some e1"
      "fst e1 = outs v (start c small)" and v: "fst d = outs v (start b count)" by blast
  from snprintf_run [OF big(1,2) _ d v] assms(1) big(3)
  have n: "n = min (count - 1) (length v)" "b1 = take n v @ NUL # drop (n + 1) b" by auto
  have "take k b1 = take (min (small - 1) (length v)) v" "k = min (small - 1) (length v)"
    using n assms(6) by (auto simp: k_def min_def)
  with snprintf_run [OF assms(5,7) _ e1] assms(4,6) show ?thesis by simp
qed

subsection \<open>Numbers\<close>

definition digit_val :: "char \<Rightarrow> nat" where
  "digit_val c = length (takeWhile (\<lambda>x. x \<noteq> c) ''0123456789abcdef'')"

text \<open>The number a string of digits stands for, and an optional sign before it.\<close>

definition read_nat :: "nat \<Rightarrow> string \<Rightarrow> nat" where
  "read_nat base s = foldl (\<lambda>a c. a * base + digit_val c) 0 s"

definition read_int :: "string \<Rightarrow> int" where
  "read_int s = (if s \<noteq> [] \<and> hd s = CHR ''-'' then - int (read_nat 10 (tl s)) else int (read_nat 10 s))"

lemma digit_val_digit: "d < 16 \<Longrightarrow> digit_val (digit False d) = d"
proof -
  have "list_all (\<lambda>d. digit_val (digit False d) = d) [0..<16]" by code_simp
  then show "d < 16 \<Longrightarrow> digit_val (digit False d) = d" by (simp only: list_all_iff set_upt) simp
qed

lemma read_nat_rev_Cons: "read_nat base (rev (c # cs)) = read_nat base (rev cs) * base + digit_val c"
  by (simp add: read_nat_def)

text \<open>The characters in \<open>convert\<close> are the digits of the number, the lowest one first.\<close>

lemma int_digits_value:
  assumes "2 \<le> base" "base \<le> 16" "u < base ^ (20 - place)" "place < 20"
  shows "read_nat base (rev (int_digits base False place u)) = u"
  using assms(3,4)
proof (induction "20 - place" arbitrary: place u)
  case (Suc k)
  have "u mod base < base" using assms(1) by simp
  with assms(2) have d: "digit_val (digit False (u mod base)) = u mod base" by (intro digit_val_digit) linarith
  show ?case
  proof (cases "u div base \<noteq> 0 \<and> place + 1 < 20")
    case True
    have "20 - place = Suc (20 - (place + 1))" using True by linarith
    then have "base ^ (20 - place) = base ^ (20 - (place + 1)) * base" by (simp only: power_Suc2)
    then have "u div base < base ^ (20 - (place + 1))" using Suc.prems(1) by (simp add: less_mult_imp_div_less)
    from Suc.hyps(1) [OF _ this] Suc.hyps(2) True
    have "read_nat base (rev (int_digits base False (place + 1) (u div base))) = u div base" by simp
    with True d show ?thesis by (subst int_digits.simps) (simp add: Let_def read_nat_rev_Cons del: rev.simps)
  next
    case False
    have "u div base = 0"
    proof (cases "place + 1 < 20")
      case True
      with False show ?thesis by simp
    next
      case False
      with Suc.prems have "20 - place = 1" by simp
      with Suc.prems(1) show ?thesis by simp
    qed
    then have "u mod base = u" using assms(1) by (simp add: div_eq_0_iff)
    with False d \<open>u div base = 0\<close> show ?thesis
      by (subst int_digits.simps) (simp add: Let_def read_nat_def)
  qed
qed simp

lemma int_digits_length:
  assumes "2 \<le> base" "u < base ^ k" "0 < k"
  shows "length (int_digits base caps place u) \<le> k"
  using assms(2,3)
proof (induction k arbitrary: place u)
  case (Suc k)
  show ?case
  proof (cases "u div base = 0")
    case False
    have "u div base < base ^ k" using Suc.prems(1) by (simp add: less_mult_imp_div_less mult.commute)
    moreover from this False have "0 < k" by (cases k) auto
    ultimately have "length (int_digits base caps (place + 1) (u div base)) \<le> k" by (rule Suc.IH)
    then show ?thesis by (subst int_digits.simps) (simp add: Let_def)
  qed (subst int_digits.simps, simp add: Let_def)
qed simp

lemma int_digits_nonempty [simp]: "int_digits base caps place u \<noteq> []"
  by (subst int_digits.simps) (simp add: Let_def)

lemma int_digits_not_minus: "2 \<le> base \<Longrightarrow> base \<le> 16 \<Longrightarrow> CHR ''-'' \<notin> set (int_digits base caps place u)"
proof (induction base caps place u rule: int_digits.induct)
  case (1 base caps place u)
  have "list_all (\<lambda>d. digit True d \<noteq> CHR ''-'' \<and> digit False d \<noteq> CHR ''-'') [0..<16]" by code_simp
  moreover have "u mod base < base" using 1(2) by simp
  with 1(3) have "u mod base \<in> set [0..<16]" by (simp del: upt_rec_numeral)
  ultimately have "digit caps (u mod base) \<noteq> CHR ''-''" unfolding list_all_iff by (cases caps) (simp_all only:, blast+)
  with 1 show ?case by (subst int_digits.simps) (auto simp: Let_def)
qed

text \<open>The conversion \<open>%lld\<close>.\<close>

lemma run_lld:
  assumes "0 < omax st" "olen st = 0"
  shows "dopr_loop DP_S_DEFAULT (''%lld'' @ [NUL]) spec0 [ALLong w] (st, []) = Some (outs (fmtint (sint w) 10 0 (-1) 0) st, [])"
  using assms
  by (simp add: dopr_loop.simps dopr_step_def dp_flag_def isdigit_def NUL_def dopr_conv_def conv_text_def spec0_def Let_def)

lemma fmtint_plain:
  assumes "\<bar>v\<bar> < 10 ^ 19"
  shows "fmtint v 10 0 (-1) 0 = (if v < 0 then ''-'' else []) @ rev (int_digits 10 False 0 (nat \<bar>v\<bar>))"
proof -
  have "\<bar>v\<bar> < 2 ^ 64" using assms by simp
  then have m: "nat ((if v < 0 then - v else v) mod 2 ^ 64) = nat \<bar>v\<bar>" by simp
  have "nat \<bar>v\<bar> < 10 ^ 19" using assms by simp
  from int_digits_length [OF _ this] have l: "length (int_digits 10 False 0 (nat \<bar>v\<bar>)) \<le> 19" by simp
  then have "wrap_int (- int (length (int_digits 10 False 0 (nat \<bar>v\<bar>))) - j) \<le> 0" if "j \<in> {0, 1}" for j
    using that by (subst wrap_int_small) auto
  from this [of 0] this [of 1] show ?thesis using m l
    by (cases "v < 0") (simp_all add: fmtint_def Let_def fmt_sign_def STR_MAX_def)
qed

text \<open>
  C37.  A 64-bit number printed with \<open>%lld\<close> is read back from the buffer, for every number.
\<close>

theorem lld_roundtrip:
  fixes w :: "64 word"
  assumes "22 \<le> count" "count \<le> length b" "count < 2 ^ 32 - 1"
  shows "\<exists>n b1. pth_snprintf (Some b) count (''%lld'' @ [NUL]) [ALLong w] = Some (n, Some b1, False, []) \<and> b1 ! n = NUL
     \<and> read_int (take n b1) = sint w"
proof -
  have r: "\<bar>sint w\<bar> < 10 ^ 19" using sint_greater_eq [of w] sint_less [of w] by simp
  let ?ds = "int_digits 10 False 0 (nat \<bar>sint w\<bar>)" and ?u = "fmtint (sint w) 10 0 (-1) 0"
  note u = fmtint_plain [OF r]
  have "nat \<bar>sint w\<bar> < 10 ^ 19" using r by simp
  from int_digits_length [OF _ this, of False 0] have "length ?ds \<le> 19" by simp
  then have "length ?u \<le> 20" unfolding u length_append length_rev by (intro add_le_mono [of _ 1 _ 19, simplified]) auto
  then have l: "min (count - 1) (length ?u) = length ?u" using assms(1) by simp
  have "nat \<bar>sint w\<bar> < 10 ^ (20 - 0)" using r by simp
  from int_digits_value [OF _ _ this] have v: "read_nat 10 (rev ?ds) = nat \<bar>sint w\<bar>" by simp
  have "hd (rev ?ds) \<noteq> CHR ''-''" using int_digits_not_minus [of 10 False 0] hd_in_set [of "rev ?ds"] by fastforce
  with v have "read_int ?u = sint w" by (cases "sint w < 0") (simp_all add: u read_int_def)
  moreover have "pth_snprintf (Some b) count (''%lld'' @ [NUL]) [ALLong w] =
      Some (length ?u, Some (?u @ NUL # drop (length ?u + 1) b), False, [])"
    using snprintf_run [OF _ assms(2,3) run_lld, of w ?u] assms(1) l by (simp add: start_def)
  ultimately show ?thesis by simp
qed

theorem lld_roundtrip_witness:
  "\<exists>n b1. pth_snprintf (Some (replicate 32 NUL)) 32 (''%lld'' @ [NUL]) [ALLong (-(2 ^ 63))] = Some (n, Some b1, False, [])
     \<and> read_int (take n b1) = - (2 ^ 63)"
proof -
  have "sint (-(2 ^ 63) :: 64 word) = - (2 ^ 63)" by simp
  with lld_roundtrip [of 32 "replicate 32 NUL" "-(2 ^ 63)"] show ?thesis by auto
qed

lemmas dopr_eval = dopr_loop.simps dopr_step_def dp_flag_def isdigit_def NUL_def dopr_conv_def conv_text_def spec0_def Let_def

lemma run_a_s:
  assumes "4 \<le> count" "count < 2 ^ 31"
  shows "dopr_loop DP_S_DEFAULT (''a %s'' @ [NUL]) spec0 [AStr (Some ''bcd'')] (start b count, []) = Some (outs ''a bcd'' (start b count), [])"
proof -
  have "sint (of_nat count :: 32 word) = int count" using assms(2) by (simp add: signed_of_nat signed_take_bit_int_eq_self)
  then show ?thesis using assms(1)
    by (simp add: dopr_eval start_def outch_olen fmtstr_def pad_text_def wrap_int_small)
qed


theorem snprintf_cut_witness:
  "\<exists>ns. pth_snprintf (Some ''zzz'') 3 (''a %s'' @ [NUL]) [AStr (Some ''bcd'')] = Some (2, Some (''a '' @ [NUL]), False, ns)"
proof -
  have "pth_snprintf (Some ''xxxxxx'') 6 (''a %s'' @ [NUL]) [AStr (Some ''bcd'')] = Some (5, Some (''a bcd'' @ [NUL]), False, [])"
    using snprintf_run [OF _ _ _ run_a_s [of 6 "''xxxxxx''"], of "''a bcd''"] by (simp add: take_Cons')
  from snprintf_cut [OF this, of 3 "''zzz''"] show ?thesis by (simp add: take_Cons')
qed


subsection \<open>Defects\<close>

lemma int_digits_if:
  "u div base \<noteq> 0 \<and> place + 1 < 20 \<Longrightarrow>
    int_digits base caps place u = digit caps (u mod base) # int_digits base caps (place + 1) (u div base)"
  "\<not> (u div base \<noteq> 0 \<and> place + 1 < 20) \<Longrightarrow> int_digits base caps place u = [digit caps (u mod base)]"
  by (subst int_digits.simps, simp add: Let_def)+

text \<open>\<open>convert\<close> has room for 19 digits: the first digit of a larger number is lost.\<close>

theorem llu_loses_digit:
  "conv_text CHR ''u'' (spec0\<lparr>sp_cflags := DP_C_LLONG\<rparr>) m [ALLong (2 ^ 64 - 1)] = Some ([], ''8446744073709551615'')"
proof -
  have "int_digits 10 False 0 (2 ^ 64 - 1) = ''51615590737044764481''" by (simp add: int_digits_if digit_def)
  moreover have "nat (-1 mod 2 ^ 64) = 2 ^ 64 - 1" by simp
  ultimately have "fmtint (-1) 10 0 (-1) DP_F_UNSIGNED = ''8446744073709551615''"
    unfolding fmtint_def Let_def by (simp add: dp_flags STR_MAX_def wrap_int_small)
  then show ?thesis by (simp add: conv_text_def spec0_def set_flag_def)
qed

text \<open>A pointer is converted to \<open>long\<close> and extended with its sign.\<close>

theorem p_sign_extended: "conv_text CHR ''p'' spec0 m [APtr 0xBFFF0000] = Some ([], ''ffffffffbfff0000'')"
proof -
  have "int_digits 16 False 0 0xFFFFFFFFBFFF0000 = ''0000fffbffffffff''" by (simp add: int_digits_if digit_def)
  moreover have "nat (sint (0xBFFF0000 :: 32 word) mod 2 ^ 64) = 0xFFFFFFFFBFFF0000" by simp
  ultimately have "fmtint (sint (0xBFFF0000 :: 32 word)) 16 0 (-1) DP_F_UNSIGNED = ''ffffffffbfff0000''"
    unfolding fmtint_def Let_def by (simp add: dp_flags STR_MAX_def wrap_int_small)
  then show ?thesis by (simp add: conv_text_def spec0_def set_flag_def)
qed

text \<open>The zeros that a fraction begins with are put behind it.\<close>

lemma pow10_power: "pow10 n = 10 ^ n"
  by (induction n) simp_all

theorem fp_fraction_zeros: "fmtfp (17 / 16) 0 4 0 = Some ''1.6250''"
proof -
  have r: "to_long (abs_val (17 / 16)) = Some 1" "round_fp (pow10 (nat 4) * (abs_val (17 / 16) - of_int 1)) = Some 625"
    by (simp_all add: to_long_def abs_val_def int_range_def round_fp_def pow10_power floor_eq_iff)
  have d: "int_digits 10 False 0 1 = ''1''" "int_digits 10 False 0 625 = ''526''" by (simp_all add: int_digits_if digit_def)
  show ?thesis unfolding fmtfp_def Let_def using r d by (simp add: pow10_power fmt_sign_def wrap_int_small)
qed

text \<open>With \<open>count\<close> 0 the terminator is written all the same.\<close>

theorem snprintf_zero_writes: "pth_snprintf (Some []) 0 [NUL] [] = Some (0, Some [], True, [])"
  by (simp add: pth_snprintf_def pth_vsnprintf_def dopr_def dopr_loop.simps put_at_def)

text \<open>
  \<open>pth_asprintf\<close> loses strings: the size of the text is computed with a limit that is
  negative as an \<open>int\<close>, so that a string without precision counts as empty and the buffer is made
  too small for it.
\<close>

theorem asprintf_loses_strings:
  assumes "malloc 1 = Some [x]"
  shows "pth_asprintf malloc (''%s'' @ [NUL]) [AStr s] = Some (Some [NUL])"
proof -
  have "sint (of_nat 0xBFFFFFFF :: 32 word) < 0" by simp
  then have "dopr None (2 ^ 32 - 1) (''%s'' @ [NUL]) [AStr s] = Some (0, \<lparr>obuf = None, olen = 0, omax = 0xBFFFFFFF, obad = False\<rparr>, [])"
    by (simp add: dopr_def dopr_loop.simps dopr_step_def dp_flag_def isdigit_def NUL_def dopr_conv_def conv_text_def spec0_def fmtstr_def)
  moreover have "dopr_loop DP_S_DEFAULT (''%s'' @ [NUL]) spec0 [AStr s] (start [x] 1, []) = Some (outs (fmtstr s 0 0 1) (start [x] 1), [])"
    by (simp add: dopr_loop.simps dopr_step_def dp_flag_def isdigit_def NUL_def dopr_conv_def conv_text_def spec0_def start_def)
  from snprintf_run [OF _ _ _ this] have "pth_vsnprintf (Some [x]) 1 (''%s'' @ [NUL]) [AStr s] = Some (0, Some [NUL], False, [])"
    by (simp add: pth_snprintf_def)
  ultimately show ?thesis using assms by (simp add: pth_asprintf_def pth_vasprintf_def pth_vsnprintf_def [of None])
qed

theorem asprintf_loses_strings_witness:
  "pth_asprintf (\<lambda>n. Some (replicate n CHR ''x'')) (''%s'' @ [NUL]) [AStr (Some ''abc'')] = Some (Some [NUL])"
  using asprintf_loses_strings [of "\<lambda>n. Some (replicate n CHR ''x'')" "CHR ''x''"] by simp

end
