(* ===== verification/Alloc.thy ===== *)
theory Alloc
  imports ListNode Bitmap Locks Interfaces
begin

text \<open>
  allocation.c and allocation.h: the caching allocator.  Areas of less than half a page are cut
  out of page sets (mchunks) into chunks of a power of two, with one list of free chunks per
  order; larger areas come from \<open>mmap\<close> directly.

  An address is a natural number, \<open>0\<close> is NULL.  \<open>headers a\<close> is what the memory at the
  page boundary \<open>a\<close> reads as when it is taken for a \<open>struct mchunk_header_st\<close>;
  \<open>None\<close>: the page is not mapped.  A chunk may lie across the start of a page inside its
  page set; what its links or its owner write there changes \<open>headers\<close> in a step of its own,
  \<open>AStore\<close>.  The links of the chunks, of the mchunks and of the list
  heads are one heap.  What \<open>mmap\<close> returns is a parameter.  The switch
  \<open>CAL_CHECK_CONSISTENCY\<close> is 0 as in the source, \<open>CAL_CHECK_INITIALIZATION\<close> is 1.

  A result \<open>None\<close>: the order of size 0 (\<open>bsrl\<close> of 0 is undefined), a lock that is
  held, an index outside the array of lists, or an access to an unmapped page.

  The theorems: the order of a size is the least one that fits; any sequence of allowed requests
  has the effect of taking chunks from and putting them back to the free lists; the areas whose
  addresses were returned overlap neither each other nor a free chunk; data inside a page set
  that reads as a header misleads the search for the header of a chunk.
\<close>

unbundle bit_operations_syntax

definition PAGE_SIZE :: nat where "PAGE_SIZE = 4096"
definition CAL_CHUNK_ORDER_MAX :: nat where "CAL_CHUNK_ORDER_MAX = 12 - 1"
definition CAL_CHUNK_THRESHOLD_SIZE :: u32 where "CAL_CHUNK_THRESHOLD_SIZE = push_bit CAL_CHUNK_ORDER_MAX 1"
definition CAL_CHUNK_ORDER_MIN :: nat where "CAL_CHUNK_ORDER_MIN = 4"
definition CAL_CHUNK_HEADS :: nat where "CAL_CHUNK_HEADS = 1 + CAL_CHUNK_ORDER_MAX - CAL_CHUNK_ORDER_MIN"

lemmas cal_consts = PAGE_SIZE_def CAL_CHUNK_ORDER_MAX_def CAL_CHUNK_THRESHOLD_SIZE_def CAL_CHUNK_ORDER_MIN_def CAL_CHUNK_HEADS_def

text \<open>The places a list node of the allocator sits in.\<close>

datatype aptr = Chunk nat | CHead nat | MCHead nat | MNode nat

record mchunk_header_st =
  chunk_cache :: u32
  mh_pages :: nat
  mh_used :: u32
  mh_ord :: nat
  not_chunk_cache :: u32
  first_chunk :: nat

record chunk_list_st =
  cl_lock :: int
  cl_total :: u32
  cl_used :: u32

text \<open>\<open>cal_addr\<close> is the address of the chunk cache of the allocator.\<close>

record calworld =
  alinks :: "aptr lheap"
  headers :: "nat \<Rightarrow> mchunk_header_st option"
  chunk_lists :: "chunk_list_st list"
  maps :: "(nat \<times> nat) list"
  mh_order :: nat
  mh_pow2_size :: nat
  cal_addr :: u32

definition zero_header :: mchunk_header_st where
  "zero_header = \<lparr>chunk_cache = 0, mh_pages = 0, mh_used = 0, mh_ord = 0, not_chunk_cache = 0, first_chunk = 0\<rparr>"

subsection \<open>Sizes\<close>

definition get_pow2_order :: "u32 \<Rightarrow> nat option" where
  "get_pow2_order s = map_option (\<lambda>e. if push_bit e 1 < s then Suc e else e) (find_first_ms_bit s)"

definition round_size :: "u32 \<Rightarrow> u32 \<Rightarrow> u32 option" where
  "round_size round_to sz = (if round_to = 0 then None else Some ((sz + round_to - 1) div round_to * round_to))"

definition get_index_by_order :: "nat \<Rightarrow> int" where
  "get_index_by_order order = int order - int CAL_CHUNK_ORDER_MIN"

definition get_total_pages_by_order :: "nat \<Rightarrow> nat" where
  "get_total_pages_by_order order = order div 2"

definition get_order_by_size :: "u32 \<Rightarrow> nat option" where
  "get_order_by_size sz = map_option (\<lambda>order. if order < CAL_CHUNK_ORDER_MIN then CAL_CHUNK_ORDER_MIN else order)
     (get_pow2_order sz)"

subsection \<open>Pages\<close>

definition area :: "nat \<Rightarrow> nat \<Rightarrow> nat set" where
  "area a sz = {a..<a + sz}"

text \<open>\<open>mm\<close> is \<open>mmap\<close>; the pages it returns read as zero.\<close>

definition mmap_allocate :: "(nat \<Rightarrow> calworld \<Rightarrow> nat option) \<Rightarrow> nat \<Rightarrow> calworld \<Rightarrow> nat \<times> calworld" where
  "mmap_allocate mm sz w =
     (case mm sz w of None \<Rightarrow> (0, w)
      | Some a \<Rightarrow> (a, w\<lparr>headers := (\<lambda>x. if a \<le> x \<and> x < a + sz then Some zero_header else headers w x),
                        maps := (a, sz) # maps w\<rparr>))"

definition mmap_deallocate :: "nat \<Rightarrow> nat \<Rightarrow> calworld \<Rightarrow> calworld" where
  "mmap_deallocate a sz w =
     w\<lparr>headers := (\<lambda>x. if a \<le> x \<and> x < a + sz then None else headers w x), maps := remove1 (a, sz) (maps w)\<rparr>"

text \<open>The search from the page of \<open>p\<close> downwards; the inner \<open>None\<close> is NULL.\<close>

fun find_header :: "nat \<Rightarrow> nat \<Rightarrow> nat \<Rightarrow> calworld \<Rightarrow> nat option option" where
  "find_header np order 0 w = Some None"
| "find_header np order (Suc pages) w =
     (case headers w np of
        None \<Rightarrow> None
      | Some h \<Rightarrow>
          if chunk_cache h \<noteq> 0 \<and> chunk_cache h = NOT (not_chunk_cache h) \<and> mh_ord h = order then Some (Some np)
          else if pages = 0 then Some None
          else if np < PAGE_SIZE then None
          else find_header (np - PAGE_SIZE) order pages w)"

definition get_mchunk_header_by_chunk :: "nat \<Rightarrow> nat \<Rightarrow> calworld \<Rightarrow> nat option option" where
  "get_mchunk_header_by_chunk p order w = find_header (p div PAGE_SIZE * PAGE_SIZE) order (get_total_pages_by_order order) w"

definition mchunk_header_get_1st_chunk :: "nat \<Rightarrow> calworld \<Rightarrow> nat option" where
  "mchunk_header_get_1st_chunk mh w = map_option first_chunk (headers w mh)"

text \<open>The loop that links the chunks of a page set; the result is the last chunk.\<close>

function split_chunks :: "nat \<Rightarrow> nat \<Rightarrow> nat \<Rightarrow> nat \<Rightarrow> aptr lheap \<Rightarrow> nat \<times> aptr lheap" where
  "split_chunks order lst chunk prev h =
     (if chunk < lst
      then split_chunks order lst (chunk + 2 ^ order) chunk
             (set_lprev (Chunk chunk) (Chunk prev) (set_lnext (Chunk chunk) (Chunk (chunk + 2 ^ order)) h))
      else (prev, h))"
  by pat_completeness auto

termination
  by (relation "measure (\<lambda>(order, lst, chunk, prev, h). lst - chunk)") (auto intro: diff_less_mono2)

declare split_chunks.simps [simp del]

definition mchunk_header_get_chunks :: "(nat \<Rightarrow> calworld \<Rightarrow> nat option) \<Rightarrow> nat \<Rightarrow> calworld \<Rightarrow> nat \<times> calworld" where
  "mchunk_header_get_chunks mm order w =
     (let total_pages = get_total_pages_by_order order;
          (mh, w1) = mmap_allocate mm (PAGE_SIZE * total_pages) w
      in if mh = 0 then (0, w1)
         else let first = mh + (if order < mh_order w1 then mh_pow2_size w1 else 2 ^ order);
                  lst = mh + total_pages * PAGE_SIZE;
                  hd = zero_header\<lparr>mh_ord := order, mh_pages := total_pages, first_chunk := first,
                                   mh_used := of_nat ((lst - first) div 2 ^ order)\<rparr>;
                  (prev, h) = split_chunks order lst first (lst - 2 ^ order) (alinks w1)
              in (mh, w1\<lparr>headers := (headers w1)(mh \<mapsto> hd), alinks := set_lnext (Chunk prev) (Chunk first) h\<rparr>))"

subsection \<open>The lists of free chunks\<close>

definition upd_list :: "nat \<Rightarrow> (chunk_list_st \<Rightarrow> chunk_list_st) \<Rightarrow> calworld \<Rightarrow> calworld" where
  "upd_list i f w = w\<lparr>chunk_lists := (chunk_lists w)[i := f (chunk_lists w ! i)]\<rparr>"

definition chunk_list_init :: "nat \<Rightarrow> calworld \<Rightarrow> calworld" where
  "chunk_list_init i w = (upd_list i (\<lambda>l. l\<lparr>cl_lock := 0\<rparr>) w)
     \<lparr>alinks := lnode_init (MCHead i) (lnode_init (CHead i) (alinks w))\<rparr>"

partial_function (option) chunk_list_release :: "nat \<Rightarrow> calworld \<Rightarrow> calworld option" where
  [code]: "chunk_list_release i w =
     (if list_empty (CHead i) (alinks w) then Some w
      else chunk_list_release i (upd_list i (\<lambda>l. l\<lparr>cl_total := cl_total l - 1\<rparr>)
             (w\<lparr>alinks := list_del (lnext (alinks w (CHead i))) (alinks w)\<rparr>)))"

definition chunk_cache_init :: "calworld \<Rightarrow> calworld" where
  "chunk_cache_init w = fold chunk_list_init [0..<CAL_CHUNK_HEADS] w"

fun release_lists :: "nat list \<Rightarrow> calworld \<Rightarrow> calworld option" where
  "release_lists [] w = Some w"
| "release_lists (i # is) w = do { w1 \<leftarrow> chunk_list_release i w; release_lists is w1 }"

definition chunk_cache_release :: "calworld \<Rightarrow> calworld option" where
  "chunk_cache_release w = release_lists [0..<CAL_CHUNK_HEADS] w"

definition lock_list :: "nat \<Rightarrow> calworld \<Rightarrow> calworld option" where
  "lock_list i w = (if i < length (chunk_lists w) \<and> cl_lock (chunk_lists w ! i) = 0
     then Some (upd_list i (\<lambda>l. l\<lparr>cl_lock := 1\<rparr>) w) else None)"

definition unlock_list :: "nat \<Rightarrow> calworld \<Rightarrow> calworld" where
  "unlock_list i w = upd_list i (\<lambda>l. l\<lparr>cl_lock := 0\<rparr>) w"

text \<open>A new page set is entered in the lists of its order; the result says whether there was one.\<close>

definition refill :: "(nat \<Rightarrow> calworld \<Rightarrow> nat option) \<Rightarrow> nat \<Rightarrow> nat \<Rightarrow> calworld \<Rightarrow> (bool \<times> calworld) option" where
  "refill mm order i w =
     (let (mh, w1) = mchunk_header_get_chunks mm order w
      in if mh = 0 then Some (False, w1)
         else do { hd \<leftarrow> headers w1 mh;
                   let w2 = upd_list i (\<lambda>l. l\<lparr>cl_total := cl_total l + mh_used hd\<rparr>) w1;
                   let hd2 = hd\<lparr>chunk_cache := cal_addr w, not_chunk_cache := NOT (cal_addr w), mh_used := 0\<rparr>;
                   let h1 = list_insert_list (Chunk (first_chunk hd2)) (CHead i) (alinks w2);
                   Some (True, w2\<lparr>headers := (headers w2)(mh \<mapsto> hd2),
                                  alinks := list_insert_tail (MNode mh) (MCHead i) h1\<rparr>) })"

text \<open>The chunk is filled with zeros, which only its owner sees.\<close>

definition chunk_cache_get :: "(nat \<Rightarrow> calworld \<Rightarrow> nat option) \<Rightarrow> u32 \<Rightarrow> calworld \<Rightarrow> (nat \<times> calworld) option" where
  "chunk_cache_get mm sz w =
     (if mh_order w = 0 then Some (0, w)
      else do { order \<leftarrow> get_order_by_size sz;
                let i = nat (get_index_by_order order);
                w1 \<leftarrow> lock_list i w;
                (ok, w2) \<leftarrow> (if \<not> list_empty (CHead i) (alinks w1) then Some (True, w1) else refill mm order i w1);
                if \<not> ok then Some (0, unlock_list i w2)
                else (case lnext (alinks w2 (CHead i)) of
                        Chunk p \<Rightarrow> Some (p, unlock_list i (upd_list i (\<lambda>l. l\<lparr>cl_used := cl_used l + 1\<rparr>)
                                             (w2\<lparr>alinks := list_del (Chunk p) (alinks w2)\<rparr>)))
                      | _ \<Rightarrow> None) })"

definition chunk_cache_put :: "nat \<Rightarrow> u32 \<Rightarrow> calworld \<Rightarrow> calworld option" where
  "chunk_cache_put p sz w =
     do { order \<leftarrow> get_order_by_size sz;
          let i = nat (get_index_by_order order);
          r \<leftarrow> get_mchunk_header_by_chunk p order w;
          (case r of
             None \<Rightarrow> Some w
           | Some mh \<Rightarrow>
               do { hd \<leftarrow> headers w mh;
                    if chunk_cache hd \<noteq> cal_addr w then None
                    else do { let w1 = w\<lparr>alinks := lnode_init (Chunk p) (alinks w)\<rparr>;
                              w2 \<leftarrow> lock_list i w1;
                              let w3 = w2\<lparr>headers := (headers w2)(mh \<mapsto> hd\<lparr>mh_used := mh_used hd - 1\<rparr>)\<rparr>;
                              let w4 = upd_list i (\<lambda>l. l\<lparr>cl_used := cl_used l - 1\<rparr>) w3;
                              Some (unlock_list i (w4\<lparr>alinks := list_insert (Chunk p) (CHead i) (alinks w4)\<rparr>)) } }) }"

subsection \<open>The allocator\<close>

partial_function (option) verify_loop :: "nat \<Rightarrow> nat \<Rightarrow> nat \<Rightarrow> aptr \<Rightarrow> calworld \<Rightarrow> bool option" where
  [code]: "verify_loop i p s itr w =
     (if itr = MCHead i then Some False
      else case itr of
             MNode mh \<Rightarrow>
               do { hd \<leftarrow> headers w mh;
                    if p \<ge> first_chunk hd \<or> int p < int (mh + PAGE_SIZE * mh_pages hd) - int s then Some True
                    else verify_loop i p s (lnext (alinks w itr)) w }
           | _ \<Rightarrow> None)"

text \<open>\<open>True\<close> is the result 0: the pointer may be used.\<close>

definition cal_verify_pointer :: "nat \<Rightarrow> u32 \<Rightarrow> calworld \<Rightarrow> bool option" where
  "cal_verify_pointer p s w =
     (if s < CAL_CHUNK_THRESHOLD_SIZE then
        do { order \<leftarrow> get_order_by_size s;
             let i = nat (get_index_by_order order);
             verify_loop i p (unat s) (lnext (alinks w (MCHead i))) w }
      else Some False)"

definition sizeof_mchunk_header :: u32 where "sizeof_mchunk_header = 32"

definition cal_initialize :: "calworld \<Rightarrow> calworld option" where
  "cal_initialize w =
     do { o1 \<leftarrow> get_pow2_order sizeof_mchunk_header; Some (w\<lparr>mh_order := o1, mh_pow2_size := 2 ^ o1\<rparr>) }"

definition cal_init :: "calworld \<Rightarrow> calworld" where
  "cal_init w = chunk_cache_init (w\<lparr>chunk_lists := replicate CAL_CHUNK_HEADS \<lparr>cl_lock = 0, cl_total = 0, cl_used = 0\<rparr>\<rparr>)"

definition cal_fork_init :: "calworld \<Rightarrow> calworld" where
  "cal_fork_init w = fold (\<lambda>i. upd_list i (\<lambda>l. l\<lparr>cl_lock := 0\<rparr>)) [0..<CAL_CHUNK_HEADS] w"

definition cal_release :: "calworld \<Rightarrow> calworld option" where
  "cal_release w = chunk_cache_release w"

definition cal_get :: "(nat \<Rightarrow> calworld \<Rightarrow> nat option) \<Rightarrow> u32 \<Rightarrow> calworld \<Rightarrow> (nat \<times> calworld) option" where
  "cal_get mm sz w =
     (if sz < CAL_CHUNK_THRESHOLD_SIZE then chunk_cache_get mm sz w else Some (mmap_allocate mm (unat sz) w))"

definition cal_put :: "nat \<Rightarrow> u32 \<Rightarrow> calworld \<Rightarrow> calworld option" where
  "cal_put p sz w =
     (if sz < CAL_CHUNK_THRESHOLD_SIZE then chunk_cache_put p sz w else Some (mmap_deallocate p (unat sz) w))"

definition pth_malloc :: "(nat \<Rightarrow> calworld \<Rightarrow> nat option) \<Rightarrow> u32 \<Rightarrow> calworld \<Rightarrow> (nat \<times> calworld) option" where
  "pth_malloc mm sz w = cal_get mm sz w"

definition pth_free_mem :: "nat \<Rightarrow> u32 \<Rightarrow> calworld \<Rightarrow> calworld option" where
  "pth_free_mem p sz w = cal_put p sz w"

subsection \<open>Orders\<close>

lemma ms_bit_range:
  assumes "find_first_ms_bit s = Some e"
  shows "2 ^ e \<le> unat s" and "unat s < 2 ^ Suc e" and "e < 32"
proof -
  have b: "bit s e" "\<And>j. j > e \<Longrightarrow> \<not> bit s j" "e < 32"
    using assms bit_imp_le_length [of s e] by (auto simp: find_first_ms_bit_Some)
  show "e < 32" by (rule b(3))
  have bn: "bit (unat s) k \<longleftrightarrow> bit s k" for k by (simp add: bit_unsigned_iff)
  have "take_bit (Suc e) (unat s) = unat s"
  proof (rule bit_eqI)
    show "bit (take_bit (Suc e) (unat s)) n \<longleftrightarrow> bit (unat s) n" for n
      using b(2) [of n] bn by (cases "n < Suc e") (auto simp: bit_take_bit_iff)
  qed
  then show "unat s < 2 ^ Suc e" by (simp only: take_bit_nat_eq_self_iff)
  have "bit (unat s) e" using b(1) bn by blast
  then have "take_bit e (unat s) \<noteq> unat s" using bit_take_bit_iff [of e "unat s" e] by auto
  then show "2 ^ e \<le> unat s" by (simp only: take_bit_nat_eq_self_iff not_less)
qed

lemma pow2_less_u32:
  assumes "e < 32"
  shows "unat (push_bit e (1 :: u32)) = 2 ^ e"
proof -
  have "push_bit e (1 :: u32) = of_nat (2 ^ e)" by (simp add: push_bit_eq_mult)
  moreover have "(2 :: nat) ^ e < 2 ^ 32" using assms by (intro power_strict_increasing) auto
  ultimately have "counts (push_bit e (1 :: u32)) (2 ^ e)" by (simp add: counts_def)
  then show ?thesis by (rule counts_unat)
qed

lemma pow2_order_range:
  assumes "get_pow2_order s = Some k"
  shows "unat s \<le> 2 ^ k" and "0 < k \<Longrightarrow> 2 ^ (k - 1) < unat s" and "0 < unat s"
proof -
  from assms obtain e where e: "find_first_ms_bit s = Some e" "k = (if push_bit e 1 < s then Suc e else e)"
    by (auto simp: get_pow2_order_def)
  note r = ms_bit_range [OF e(1)]
  have lt: "push_bit e 1 < s \<longleftrightarrow> 2 ^ e < unat s" using pow2_less_u32 [OF r(3)] by (simp add: word_less_nat_alt)
  show "unat s \<le> 2 ^ k" using e(2) lt r by (auto split: if_splits)
  show "0 < unat s" by (rule less_le_trans [OF _ r(1)]) simp
  show "2 ^ (k - 1) < unat s" if "0 < k"
  proof (cases "push_bit e 1 < s")
    case False
    then have k: "k = e" using e(2) by simp
    have "(2 :: nat) ^ (k - 1) < 2 ^ k" using that by (intro power_strict_increasing) auto
    also have "2 ^ k \<le> unat s" unfolding k by (rule r(1))
    finally show ?thesis .
  qed (use e(2) lt in simp)
qed

lemma order_range:
  assumes "get_order_by_size s = Some k"
  shows "unat s \<le> 2 ^ k" and "4 \<le> k" and "4 < k \<Longrightarrow> 2 ^ (k - 1) < unat s" and "s < CAL_CHUNK_THRESHOLD_SIZE \<Longrightarrow> k < 12"
proof -
  from assms obtain j where j: "get_pow2_order s = Some j" "k = (if j < 4 then 4 else j)"
    by (auto simp: get_order_by_size_def CAL_CHUNK_ORDER_MIN_def)
  note r = pow2_order_range [OF j(1)]
  show "4 \<le> k" using j(2) by simp
  have "(2 :: nat) ^ j \<le> 2 ^ k" using j(2) by (intro power_increasing) auto
  with r(1) show "unat s \<le> 2 ^ k" by (rule order_trans)
  show "2 ^ (k - 1) < unat s" if "4 < k" using that j(2) r(2) by (auto split: if_splits)
  show "k < 12" if lt: "s < CAL_CHUNK_THRESHOLD_SIZE"
  proof (rule ccontr)
    assume k: "\<not> k < 12"
    then have "2 ^ (k - 1) < unat s" using j(2) r(2) by (auto split: if_splits)
    moreover have "(2 :: nat) ^ 11 \<le> 2 ^ (k - 1)" using k by (intro power_increasing) auto
    moreover have "unat s < 2048" using lt by (simp add: cal_consts word_less_nat_alt)
    ultimately show False by simp
  qed
qed

lemma order_exists: "get_order_by_size s = None \<longleftrightarrow> s = 0"
proof -
  have "find_first_ms_bit 0 = None" by code_simp
  then have "find_first_ms_bit s = None \<longleftrightarrow> s = 0" by (metis find_first_ms_bit_nonzero option.distinct(1))
  then show ?thesis by (simp add: get_order_by_size_def get_pow2_order_def)
qed

text \<open>
  The order of a size is the least one, from 4 on, whose chunks hold it; a size below the
  threshold has an order for which there is a list, and only size 0 has no order.
\<close>

theorem order_fits:
  "(get_order_by_size s = Some k \<longrightarrow> unat s \<le> 2 ^ k \<and> CAL_CHUNK_ORDER_MIN \<le> k
      \<and> (CAL_CHUNK_ORDER_MIN < k \<longrightarrow> 2 ^ (k - 1) < unat s)
      \<and> (s < CAL_CHUNK_THRESHOLD_SIZE \<longrightarrow> nat (get_index_by_order k) < CAL_CHUNK_HEADS))
   \<and> (get_order_by_size s = None \<longleftrightarrow> s = 0)"
proof (intro conjI impI)
  assume k: "get_order_by_size s = Some k"
  note r = order_range [OF k]
  show "unat s \<le> 2 ^ k" by (rule r(1))
  show "CAL_CHUNK_ORDER_MIN \<le> k" using r(2) by (simp add: cal_consts)
  show "2 ^ (k - 1) < unat s" if "CAL_CHUNK_ORDER_MIN < k" using r(3) that by (simp add: cal_consts)
  show "nat (get_index_by_order k) < CAL_CHUNK_HEADS" if "s < CAL_CHUNK_THRESHOLD_SIZE"
    using r(2) r(4) [OF that] by (simp add: get_index_by_order_def cal_consts)
qed (rule order_exists)

theorem order_fits_witness:
  "get_order_by_size 100 = Some 7 \<and> unat (100 :: u32) \<le> 2 ^ 7 \<and> (2 :: nat) ^ 6 < unat (100 :: u32)"
proof -
  have "get_order_by_size 100 = Some 7" by code_simp
  with order_fits [of 100 7] show ?thesis by (simp add: cal_consts)
qed

subsection \<open>The layout of a page set\<close>

definition hdr_room :: "nat \<Rightarrow> nat" where
  "hdr_room k = (if k < 5 then 32 else 2 ^ k)"

definition chunk_count :: "nat \<Rightarrow> nat" where
  "chunk_count k = (k div 2 * 4096 - hdr_room k) div 2 ^ k"

definition chunk_at :: "nat \<Rightarrow> nat \<Rightarrow> nat \<Rightarrow> nat" where
  "chunk_at m k j = m + hdr_room k + j * 2 ^ k"

definition chunks_of :: "nat \<Rightarrow> nat \<Rightarrow> nat list" where
  "chunks_of m k = map (chunk_at m k) [0..<chunk_count k]"

lemma layout:
  assumes "4 \<le> k" and "k < 12"
  shows "hdr_room k + chunk_count k * 2 ^ k = k div 2 * 4096" and "0 < chunk_count k" and "32 \<le> hdr_room k"
proof -
  have "k \<in> {4, 5, 6, 7, 8, 9, 10, 11}" using assms by auto
  then have "hdr_room k + chunk_count k * 2 ^ k = k div 2 * 4096 \<and> 0 < chunk_count k \<and> 32 \<le> hdr_room k"
    by (auto simp: hdr_room_def chunk_count_def)
  then show "hdr_room k + chunk_count k * 2 ^ k = k div 2 * 4096" "0 < chunk_count k" "32 \<le> hdr_room k" by simp_all
qed

lemma chunk_at_inj: "chunk_at m k i = chunk_at m k j \<longleftrightarrow> i = j"
  by (simp add: chunk_at_def)

lemma chunks_of_distinct: "distinct (chunks_of m k)"
  by (simp add: chunks_of_def distinct_map inj_on_def chunk_at_inj)

text \<open>The chunks lie behind the header, in the page set, and do not overlap.\<close>

lemma chunk_inside:
  assumes "p \<in> set (chunks_of m k)" and "4 \<le> k" and "k < 12"
  shows "area p (2 ^ k) \<subseteq> {m + 32..<m + k div 2 * 4096}"
proof -
  from assms(1) obtain j where j: "j < chunk_count k" "p = chunk_at m k j" by (auto simp: chunks_of_def)
  have "Suc j * 2 ^ k \<le> chunk_count k * 2 ^ k" using j(1) by (intro mult_le_mono) auto
  then have "chunk_at m k j + 2 ^ k \<le> m + k div 2 * 4096"
    using layout(1) [OF assms(2,3)] by (simp add: chunk_at_def)
  with layout(3) [OF assms(2,3)] j(2) show ?thesis by (auto simp: area_def chunk_at_def)
qed

lemma chunks_disjoint:
  assumes "p \<in> set (chunks_of m k)" and "q \<in> set (chunks_of m k)" and "p \<noteq> q"
  shows "area p (2 ^ k) \<inter> area q (2 ^ k) = {}"
proof -
  from assms obtain i j where ij: "p = chunk_at m k i" "q = chunk_at m k j" "i \<noteq> j" by (auto simp: chunks_of_def)
  have "Suc a * 2 ^ k \<le> b * 2 ^ k" if "a < b" for a b :: nat using that by (intro mult_le_mono) auto
  then have "chunk_at m k a + 2 ^ k \<le> chunk_at m k b" if "a < b" for a b using that by (force simp: chunk_at_def)
  with ij show ?thesis by (cases i j rule: linorder_cases) (force simp: area_def)+
qed

text \<open>The loop that links the chunks.\<close>

lemma split_chunks_links:
  assumes "split_chunks k (c + n * 2 ^ k) c p h = (q, h')"
  shows "q = (if n = 0 then p else c + (n - 1) * 2 ^ k)
    \<and> (\<forall>x. (\<forall>j<n. x \<noteq> Chunk (c + j * 2 ^ k)) \<longrightarrow> h' x = h x)
    \<and> (\<forall>j<n. lnext (h' (Chunk (c + j * 2 ^ k))) = Chunk (c + Suc j * 2 ^ k)
          \<and> lprev (h' (Chunk (c + j * 2 ^ k))) = Chunk (if j = 0 then p else c + (j - 1) * 2 ^ k))"
  using assms
proof (induction n arbitrary: c p h)
  case 0
  then show ?case by (subst (asm) split_chunks.simps) auto
next
  case (Suc n)
  let ?h = "set_lprev (Chunk c) (Chunk p) (set_lnext (Chunk c) (Chunk (c + 2 ^ k)) h)"
  have "split_chunks k (c + 2 ^ k + n * 2 ^ k) (c + 2 ^ k) c ?h = (q, h')"
    using Suc.prems by (subst (asm) split_chunks.simps) (simp add: add.assoc)
  note IH = Suc.IH [OF this]
  have c: "h' (Chunk c) = ?h (Chunk c)" using IH by auto
  have sh: "c + Suc j * 2 ^ k = c + 2 ^ k + j * 2 ^ k" for j by simp
  show ?case
  proof (intro conjI allI impI)
    show "q = (if Suc n = 0 then p else c + (Suc n - 1) * 2 ^ k)"
      using IH by (cases n) auto
    show "h' x = h x" if "\<forall>j<Suc n. x \<noteq> Chunk (c + j * 2 ^ k)" for x
    proof -
      have "\<forall>j<n. x \<noteq> Chunk (c + 2 ^ k + j * 2 ^ k)" using that sh by (metis Suc_mono)
      moreover have "x \<noteq> Chunk c" using that by force
      ultimately show ?thesis using IH by (simp add: set_lprev_def set_lnext_def)
    qed
    show "lnext (h' (Chunk (c + j * 2 ^ k))) = Chunk (c + Suc j * 2 ^ k)"
      "lprev (h' (Chunk (c + j * 2 ^ k))) = Chunk (if j = 0 then p else c + (j - 1) * 2 ^ k)" if "j < Suc n" for j
    proof (atomize (full), cases j)
      case 0
      then show "lnext (h' (Chunk (c + j * 2 ^ k))) = Chunk (c + Suc j * 2 ^ k)
        \<and> lprev (h' (Chunk (c + j * 2 ^ k))) = Chunk (if j = 0 then p else c + (j - 1) * 2 ^ k)"
        using c by (simp add: set_lprev_def set_lnext_def)
    next
      case (Suc i)
      then have "i < n" using that by simp
      with IH Suc show "lnext (h' (Chunk (c + j * 2 ^ k))) = Chunk (c + Suc j * 2 ^ k)
        \<and> lprev (h' (Chunk (c + j * 2 ^ k))) = Chunk (if j = 0 then p else c + (j - 1) * 2 ^ k)"
        unfolding Suc sh by (cases i) auto
    qed
  qed
qed

lemma lring_nthI:
  assumes "xs \<noteq> []" and "distinct xs"
    and "\<And>j. j < length xs \<Longrightarrow> lnext (h (xs ! j)) = xs ! (if Suc j = length xs then 0 else Suc j)"
    and "\<And>j. j < length xs \<Longrightarrow> lprev (h (xs ! j)) = xs ! (if j = 0 then length xs - 1 else j - 1)"
  shows "lring h xs"
proof (cases xs)
  case (Cons a ys)
  have "dseg (\<lambda>x. lnext (h x)) (\<lambda>x. lprev (h x)) a ys a"
  proof (rule dseg_nthI)
    fix j assume j: "j \<le> length ys"
    have *: "(ys @ [a]) ! j = xs ! (if Suc j = length xs then 0 else Suc j)" using j Cons by (simp add: nth_append)
    have "lprev (h (xs ! (if Suc j = length xs then 0 else Suc j))) = xs ! j"
      using assms(4) [of "if Suc j = length xs then 0 else Suc j"] j Cons by auto
    then show "lnext (h ((a # ys) ! j)) = (ys @ [a]) ! j \<and> lprev (h ((ys @ [a]) ! j)) = (a # ys) ! j"
      using assms(3) [of j] j Cons unfolding * by simp
  qed
  with assms(2) Cons show ?thesis by (simp add: lring_def)
qed (use assms(1) in simp)

lemma split_chunks_ring:
  assumes k: "4 \<le> k" "k < 12"
    and s: "split_chunks k (m + k div 2 * 4096) (m + hdr_room k) (m + k div 2 * 4096 - 2 ^ k) h = (q, h1)"
  shows "lring (set_lnext (Chunk q) (Chunk (m + hdr_room k)) h1) (map Chunk (chunks_of m k))"
    and "x \<notin> Chunk ` set (chunks_of m k) \<Longrightarrow> set_lnext (Chunk q) (Chunk (m + hdr_room k)) h1 x = h x"
proof -
  let ?n = "chunk_count k" and ?c = "m + hdr_room k"
  have e: "m + k div 2 * 4096 = ?c + ?n * 2 ^ k" using layout(1) [OF k] by simp
  note n = layout(2) [OF k]
  note L = split_chunks_links [OF s [unfolded e]]
  have q: "q = chunk_at m k (?n - 1)" using L n by (simp add: chunk_at_def)
  have end_at: "?c + ?n * 2 ^ k - 2 ^ k = chunk_at m k (?n - 1)" using n by (cases ?n) (simp_all add: chunk_at_def)
  have nx: "lnext (h1 (Chunk (chunk_at m k j))) = Chunk (chunk_at m k (Suc j))" if "j < ?n" for j
    using L that by (auto simp: chunk_at_def)
  have pv: "lprev (h1 (Chunk (chunk_at m k j))) = Chunk (chunk_at m k (if j = 0 then ?n - 1 else j - 1))" if "j < ?n" for j
  proof -
    have "lprev (h1 (Chunk (?c + j * 2 ^ k))) = Chunk (if j = 0 then ?c + ?n * 2 ^ k - 2 ^ k else ?c + (j - 1) * 2 ^ k)"
      using L that by blast
    then show ?thesis unfolding end_at by (simp add: chunk_at_def)
  qed
  show "lring (set_lnext (Chunk q) (Chunk ?c) h1) (map Chunk (chunks_of m k))"
  proof (rule lring_nthI)
    show "map Chunk (chunks_of m k) \<noteq> []" using n by (simp add: chunks_of_def)
    show "distinct (map Chunk (chunks_of m k))" using chunks_of_distinct by (simp add: distinct_map inj_on_def)
    fix j assume "j < length (map Chunk (chunks_of m k))"
    then have j: "j < ?n" by (simp add: chunks_of_def)
    show "lnext (set_lnext (Chunk q) (Chunk ?c) h1 (map Chunk (chunks_of m k) ! j))
        = map Chunk (chunks_of m k) ! (if Suc j = length (map Chunk (chunks_of m k)) then 0 else Suc j)"
      using j n nx [OF j] by (auto simp: chunks_of_def set_lnext_def q chunk_at_inj) (simp_all add: chunk_at_def)
    show "lprev (set_lnext (Chunk q) (Chunk ?c) h1 (map Chunk (chunks_of m k) ! j))
        = map Chunk (chunks_of m k) ! (if j = 0 then length (map Chunk (chunks_of m k)) - 1 else j - 1)"
      using j n pv [OF j] by (auto simp: chunks_of_def set_lnext_def)
  qed
  show "set_lnext (Chunk q) (Chunk ?c) h1 x = h x" if x: "x \<notin> Chunk ` set (chunks_of m k)"
  proof -
    have "x \<noteq> Chunk (?c + j * 2 ^ k)" if "j < ?n" for j using x that by (auto simp: chunks_of_def chunk_at_def)
    moreover have "x \<noteq> Chunk q" using x n q by (auto simp: chunks_of_def)
    ultimately show ?thesis using L by (simp add: set_lnext_def)
  qed
qed

subsection \<open>What the allocator holds\<close>

text \<open>
  Per order: the free chunks, the page sets, and the chunks that are given out.
\<close>

record cal_abs =
  frees :: "nat \<Rightarrow> nat list"
  mchunks :: "nat \<Rightarrow> nat list"
  given :: "nat \<Rightarrow> nat set"

abbreviation an_order :: "nat \<Rightarrow> bool" where
  "an_order k \<equiv> 4 \<le> k \<and> k < 12"

definition pages_of :: "nat \<Rightarrow> nat \<Rightarrow> nat set" where
  "pages_of m k = area m (k div 2 * 4096)"

definition is_header :: "nat \<Rightarrow> mchunk_header_st \<Rightarrow> bool" where
  "is_header k hx \<longleftrightarrow> chunk_cache hx \<noteq> 0 \<and> chunk_cache hx = NOT (not_chunk_cache hx) \<and> mh_ord hx = k"

text \<open>
  The page set \<open>m\<close> of order \<open>k\<close> has its header in the first page, and nothing that reads as
  a header of its order at the start of the others (what the comment in the source calls a
  collision).
\<close>

definition mchunk_ok :: "(nat \<Rightarrow> mchunk_header_st option) \<Rightarrow> u32 \<Rightarrow> nat \<Rightarrow> nat \<Rightarrow> bool" where
  "mchunk_ok hs addr k m \<longleftrightarrow> 0 < m \<and> 4096 dvd m
     \<and> (\<exists>hx. hs m = Some hx \<and> is_header k hx \<and> chunk_cache hx = addr \<and> mh_pages hx = k div 2 \<and> first_chunk hx = m + hdr_room k)
     \<and> (\<forall>j. 0 < j \<and> j < k div 2 \<longrightarrow> (\<exists>hx. hs (m + j * 4096) = Some hx \<and> \<not> is_header k hx))"

definition cal_mem :: "aptr lheap \<Rightarrow> (nat \<Rightarrow> mchunk_header_st option) \<Rightarrow> u32 \<Rightarrow> cal_abs \<Rightarrow> bool" where
  "cal_mem al hs addr a \<longleftrightarrow>
     (\<forall>k. an_order k \<longrightarrow> lring al (CHead (k - 4) # map Chunk (frees a k)) \<and> lring al (MCHead (k - 4) # map MNode (mchunks a k))
        \<and> set (frees a k) \<inter> given a k = {} \<and> set (frees a k) \<union> given a k = (\<Union>m\<in>set (mchunks a k). set (chunks_of m k))
        \<and> (\<forall>m\<in>set (mchunks a k). mchunk_ok hs addr k m))
   \<and> (\<forall>k l m n. an_order k \<and> an_order l \<and> m \<in> set (mchunks a k) \<and> n \<in> set (mchunks a l) \<and> (k, m) \<noteq> (l, n)
        \<longrightarrow> pages_of m k \<inter> pages_of n l = {})"

definition cal_R :: "calworld \<Rightarrow> cal_abs \<Rightarrow> bool" where
  "cal_R w a \<longleftrightarrow> cal_mem (alinks w) (headers w) (cal_addr w) a \<and> cal_addr w \<noteq> 0 \<and> mh_order w = 5 \<and> mh_pow2_size w = 32
     \<and> length (chunk_lists w) = 8
     \<and> (\<forall>k. an_order k \<longrightarrow> cl_lock (chunk_lists w ! (k - 4)) = 0
          \<and> cl_used (chunk_lists w ! (k - 4)) = of_nat (card (given a k))
          \<and> cl_total (chunk_lists w ! (k - 4)) = of_nat (length (frees a k) + card (given a k)))"

lemma cal_mem_order:
  assumes "cal_mem al hs addr a" and "an_order k"
  shows "lring al (CHead (k - 4) # map Chunk (frees a k))" and "lring al (MCHead (k - 4) # map MNode (mchunks a k))"
    and "set (frees a k) \<inter> given a k = {}" and "set (frees a k) \<union> given a k = (\<Union>m\<in>set (mchunks a k). set (chunks_of m k))"
    and "\<And>m. m \<in> set (mchunks a k) \<Longrightarrow> mchunk_ok hs addr k m"
  using assms by (auto simp: cal_mem_def)

lemma cal_mem_disjoint:
  assumes "cal_mem al hs addr a" and "an_order k" and "an_order l" and "m \<in> set (mchunks a k)" and "n \<in> set (mchunks a l)"
    and "x \<in> pages_of m k" and "x \<in> pages_of n l"
  shows "k = l \<and> m = n"
proof (rule ccontr)
  assume "\<not> ?thesis"
  then have "(k, m) \<noteq> (l, n)" by simp
  then have "pages_of m k \<inter> pages_of n l = {}" using assms(1-5) unfolding cal_mem_def by meson
  with assms(6,7) show False by blast
qed

lemma chunk_range:
  assumes "p \<in> set (chunks_of m k)" and "an_order k"
  shows "m + 32 \<le> p \<and> p < m + k div 2 * 4096"
proof -
  have "p \<in> area p (2 ^ k)" by (simp add: area_def)
  with chunk_inside [OF assms(1)] assms(2) have "p \<in> {m + 32..<m + k div 2 * 4096}" by blast
  then show ?thesis by simp
qed

lemma chunk_in_pages: "p \<in> set (chunks_of m k) \<Longrightarrow> an_order k \<Longrightarrow> p \<in> pages_of m k"
  using chunk_range [of p m k] by (simp add: pages_of_def area_def)

lemma head_in_pages: "an_order k \<Longrightarrow> m \<in> pages_of m k"
  by (auto simp: pages_of_def area_def)

text \<open>A chunk or a page set belongs to one order only.\<close>

lemma chunk_order_unique:
  assumes "cal_mem al hs addr a" and "an_order k" and "an_order l"
    and "p \<in> set (frees a k) \<union> given a k" and "p \<in> set (frees a l) \<union> given a l"
  shows "k = l"
proof -
  obtain m n where mn: "m \<in> set (mchunks a k)" "p \<in> set (chunks_of m k)" "n \<in> set (mchunks a l)" "p \<in> set (chunks_of n l)"
    using assms cal_mem_order(4) [OF assms(1,2)] cal_mem_order(4) [OF assms(1,3)] by blast
  then show ?thesis using cal_mem_disjoint [OF assms(1-3)] chunk_in_pages assms(2,3) by blast
qed

lemma mchunk_order_unique:
  assumes "cal_mem al hs addr a" and "an_order k" and "an_order l" and "m \<in> set (mchunks a k)" and "m \<in> set (mchunks a l)"
  shows "k = l"
  using cal_mem_disjoint [OF assms] head_in_pages assms(2,3) by blast

text \<open>The header of a chunk is found.\<close>

lemma find_header_found:
  assumes "mchunk_ok (headers w) addr k m" and "j < n" and "n \<le> k div 2"
  shows "find_header (m + j * 4096) k n w = Some (Some m)"
  using assms(2,3)
proof (induction j arbitrary: n)
  case 0
  then obtain i where "n = Suc i" by (cases n) auto
  with assms(1) show ?case by (auto simp: mchunk_ok_def is_header_def)
next
  case (Suc j)
  then obtain i where i: "n = Suc i" "j < i" by (cases n) auto
  obtain hx where hx: "headers w (m + Suc j * 4096) = Some hx" "\<not> is_header k hx"
    using assms(1) Suc.prems unfolding mchunk_ok_def by (metis less_le_trans zero_less_Suc)
  have "find_header (m + j * 4096) k i w = Some (Some m)" using Suc i by simp
  with hx i show ?case by (simp add: is_header_def PAGE_SIZE_def add.assoc)
qed

lemma header_by_chunk:
  assumes "mchunk_ok (headers w) addr k m" and "p \<in> set (chunks_of m k)" and k: "an_order k"
  shows "get_mchunk_header_by_chunk p k w = Some (Some m)"
proof -
  from assms(1) obtain c where c: "m = 4096 * c" by (auto simp: mchunk_ok_def)
  have "m + 32 \<le> p" "p < m + k div 2 * 4096"
    using chunk_range [OF assms(2) k] by simp_all
  then have p: "c \<le> p div 4096" "p div 4096 < c + k div 2"
    using c by (auto simp: less_eq_div_iff_mult_less_eq div_less_iff_less_mult)
  then have "p div 4096 * 4096 = m + (p div 4096 - c) * 4096" using c by (simp add: diff_mult_distrib)
  then show ?thesis
    using find_header_found [OF assms(1), of "p div 4096 - c" "k div 2"] p
    by (simp add: get_mchunk_header_by_chunk_def get_total_pages_by_order_def PAGE_SIZE_def)
qed

subsection \<open>The operations on the lists\<close>

lemma cal_mem_update:
  assumes M: "cal_mem al hs addr a" and k: "an_order k" and ring: "lring al' (CHead (k - 4) # map Chunk fs)"
    and other: "\<And>zs. lring al zs \<Longrightarrow> CHead (k - 4) \<notin> set zs \<Longrightarrow>
      (\<And>p. Chunk p \<in> set zs \<Longrightarrow> p \<notin> set (frees a k) \<union> given a k) \<Longrightarrow> lring al' zs"
    and part: "set fs \<inter> g = {}" "set fs \<union> g = set (frees a k) \<union> given a k"
  shows "cal_mem al' hs addr (a\<lparr>frees := (frees a)(k := fs), given := (given a)(k := g)\<rparr>)"
proof -
  let ?a = "a\<lparr>frees := (frees a)(k := fs), given := (given a)(k := g)\<rparr>"
  have "lring al' (CHead (l - 4) # map Chunk (frees ?a l)) \<and> lring al' (MCHead (l - 4) # map MNode (mchunks ?a l))
        \<and> set (frees ?a l) \<inter> given ?a l = {} \<and> set (frees ?a l) \<union> given ?a l = (\<Union>m\<in>set (mchunks ?a l). set (chunks_of m l))
        \<and> (\<forall>m\<in>set (mchunks ?a l). mchunk_ok hs addr l m)" if l: "an_order l" for l
  proof -
    note ml = cal_mem_order [OF M l] and mk = cal_mem_order [OF M k]
    have "lring al' (CHead (l - 4) # map Chunk (frees a l))" if "l \<noteq> k"
    proof (rule other [OF ml(1)])
      show "CHead (k - 4) \<notin> set (CHead (l - 4) # map Chunk (frees a l))" using l k that by auto
      show "p \<notin> set (frees a k) \<union> given a k" if "Chunk p \<in> set (CHead (l - 4) # map Chunk (frees a l))" for p
        using that \<open>l \<noteq> k\<close> chunk_order_unique [OF M k l, of p] by auto
    qed
    moreover have "lring al' (MCHead (l - 4) # map MNode (mchunks a l))" by (rule other [OF ml(2)]) auto
    ultimately show ?thesis using ml mk ring part by auto
  qed
  moreover have "\<forall>l n m o1. an_order l \<and> an_order n \<and> m \<in> set (mchunks a l) \<and> o1 \<in> set (mchunks a n) \<and> (l, m) \<noteq> (n, o1)
      \<longrightarrow> pages_of m l \<inter> pages_of o1 n = {}" using M [unfolded cal_mem_def, THEN conjunct2] by meson
  ultimately show ?thesis unfolding cal_mem_def by simp
qed

lemma cal_mem_pop:
  assumes M: "cal_mem al hs addr a" and k: "an_order k" and f: "frees a k = p # ps"
  shows "lnext (al (CHead (k - 4))) = Chunk p"
    and "cal_mem (list_del (Chunk p) al) hs addr (a\<lparr>frees := (frees a)(k := ps), given := (given a)(k := insert p (given a k))\<rparr>)"
proof -
  have r: "lring al (CHead (k - 4) # Chunk p # map Chunk ps)" using cal_mem_order(1) [OF M k] f by simp
  show "lnext (al (CHead (k - 4))) = Chunk p" using lring_next [OF r] by simp
  have d: "distinct (p # ps)" using lring_distinct [OF r] by (auto simp: distinct_map)
  have r': "lring al (CHead (k - 4) # [] @ Chunk p # map Chunk ps)" using r by simp
  show "cal_mem (list_del (Chunk p) al) hs addr (a\<lparr>frees := (frees a)(k := ps), given := (given a)(k := insert p (given a k))\<rparr>)"
  proof (rule cal_mem_update [OF M k])
    show "lring (list_del (Chunk p) al) (CHead (k - 4) # map Chunk ps)" using list_del_ring [OF r'] by simp
    show "lring (list_del (Chunk p) al) zs"
      if "lring al zs" "CHead (k - 4) \<notin> set zs" "\<And>q. Chunk q \<in> set zs \<Longrightarrow> q \<notin> set (frees a k) \<union> given a k" for zs
      by (rule list_del_other [OF r' that(1)]) (use that(2,3) f in auto)
  qed (use d f cal_mem_order(3) [OF M k] in auto)
qed

lemma lnode_init_others:
  assumes "lring al zs" and "x \<notin> set zs"
  shows "lring (lnode_init x al) zs"
proof -
  have "lring (lnode_init x al) zs = lring al zs" by (rule lring_cong) (use assms(2) in \<open>auto intro: lnode_init_other\<close>)
  with assms(1) show ?thesis by simp
qed

lemma cal_mem_push:
  assumes M: "cal_mem al hs addr a" and k: "an_order k" and p: "p \<in> given a k"
  shows "cal_mem (list_insert (Chunk p) (CHead (k - 4)) (lnode_init (Chunk p) al)) hs addr
           (a\<lparr>frees := (frees a)(k := p # frees a k), given := (given a)(k := given a k - {p})\<rparr>)"
proof (rule cal_mem_update [OF M k])
  let ?r = "CHead (k - 4) # map Chunk (frees a k)"
  have out: "Chunk p \<notin> set ?r" using cal_mem_order(3) [OF M k] p by auto
  have r: "lring (lnode_init (Chunk p) al) ?r" by (rule lnode_init_others [OF cal_mem_order(1) [OF M k] out])
  show "lring (list_insert (Chunk p) (CHead (k - 4)) (lnode_init (Chunk p) al)) (CHead (k - 4) # map Chunk (p # frees a k))"
    using list_insert_ring [OF r out] by simp
  show "lring (list_insert (Chunk p) (CHead (k - 4)) (lnode_init (Chunk p) al)) zs"
    if "lring al zs" "CHead (k - 4) \<notin> set zs" "\<And>q. Chunk q \<in> set zs \<Longrightarrow> q \<notin> set (frees a k) \<union> given a k" for zs
  proof (rule list_insert_other [OF r])
    show "lring (lnode_init (Chunk p) al) zs" using that p by (intro lnode_init_others) auto
    show "set zs \<inter> set (Chunk p # ?r) = {}" using that p by auto
  qed
qed (use p cal_mem_order(3) [OF M k] in auto)

lemma cal_mem_used:
  assumes "cal_mem al hs addr a" and "hs m = Some hx"
  shows "cal_mem al (hs(m \<mapsto> hx\<lparr>mh_used := u\<rparr>)) addr a"
proof -
  let ?hs = "hs(m \<mapsto> hx\<lparr>mh_used := u\<rparr>)"
  have "(\<exists>h. ?hs n = Some h \<and> is_header k h \<and> chunk_cache h = addr \<and> mh_pages h = k div 2 \<and> first_chunk h = n + hdr_room k)
      = (\<exists>h. hs n = Some h \<and> is_header k h \<and> chunk_cache h = addr \<and> mh_pages h = k div 2 \<and> first_chunk h = n + hdr_room k)"
    and "(\<exists>h. ?hs n = Some h \<and> \<not> is_header k h) = (\<exists>h. hs n = Some h \<and> \<not> is_header k h)" for k n
    using assms(2) by (auto simp: is_header_def)
  then have "mchunk_ok ?hs addr k n = mchunk_ok hs addr k n" for k n by (simp only: mchunk_ok_def)
  with assms(1) show ?thesis by (simp add: cal_mem_def)
qed

definition fresh_pages :: "cal_abs \<Rightarrow> nat \<Rightarrow> nat \<Rightarrow> bool" where
  "fresh_pages a k m \<longleftrightarrow> 0 < m \<and> 4096 dvd m \<and> (\<forall>l n. an_order l \<and> n \<in> set (mchunks a l) \<longrightarrow> pages_of m k \<inter> pages_of n l = {})"

text \<open>The headers after a page set has been entered.\<close>

definition new_headers :: "nat \<Rightarrow> nat \<Rightarrow> mchunk_header_st \<Rightarrow> (nat \<Rightarrow> mchunk_header_st option) \<Rightarrow> nat \<Rightarrow> mchunk_header_st option" where
  "new_headers m k hx hs = (\<lambda>x. if x = m then Some hx else if m \<le> x \<and> x < m + k div 2 * 4096 then Some zero_header else hs x)"

lemma mchunk_ok_new:
  assumes "an_order k" and "fresh_pages a k m" and "is_header k hx" "chunk_cache hx = addr" "mh_pages hx = k div 2" "first_chunk hx = m + hdr_room k"
  shows "mchunk_ok (new_headers m k hx hs) addr k m"
    and "an_order l \<Longrightarrow> n \<in> set (mchunks a l) \<Longrightarrow> mchunk_ok hs addr l n \<Longrightarrow> mchunk_ok (new_headers m k hx hs) addr l n"
proof -
  show "mchunk_ok (new_headers m k hx hs) addr k m"
    using assms by (auto simp: mchunk_ok_def new_headers_def fresh_pages_def is_header_def zero_header_def)
  assume l: "an_order l" and n: "n \<in> set (mchunks a l)" and ok: "mchunk_ok hs addr l n"
  have "new_headers m k hx hs x = hs x" if "x \<in> pages_of n l" for x
  proof -
    have "x \<notin> pages_of m k" using assms(2) l n that unfolding fresh_pages_def by blast
    then show ?thesis using head_in_pages [OF assms(1), of m] by (auto simp: new_headers_def pages_of_def area_def)
  qed
  moreover have "n \<in> pages_of n l" by (rule head_in_pages [OF l])
  moreover have "n + j * 4096 \<in> pages_of n l" if "j < l div 2" for j using that by (simp add: pages_of_def area_def)
  ultimately show "mchunk_ok (new_headers m k hx hs) addr l n" using ok unfolding mchunk_ok_def by auto
qed

lemma cal_mem_refill:
  assumes M: "cal_mem al hs addr a" and k: "an_order k" and new: "fresh_pages a k m"
    and s: "split_chunks k (m + k div 2 * 4096) (m + hdr_room k) (m + k div 2 * 4096 - 2 ^ k) al = (q, h1)"
    and hx: "is_header k hx" "chunk_cache hx = addr" "mh_pages hx = k div 2" "first_chunk hx = m + hdr_room k"
  shows "cal_mem (list_insert_tail (MNode m) (MCHead (k - 4)) (list_insert_list (Chunk (m + hdr_room k)) (CHead (k - 4))
           (set_lnext (Chunk q) (Chunk (m + hdr_room k)) h1))) (new_headers m k hx hs) addr
         (a\<lparr>frees := (frees a)(k := chunks_of m k @ frees a k), mchunks := (mchunks a)(k := mchunks a k @ [m])\<rparr>)"
proof -
  let ?al1 = "set_lnext (Chunk q) (Chunk (m + hdr_room k)) h1" and ?c = "m + hdr_room k"
  let ?al2 = "list_insert_list (Chunk ?c) (CHead (k - 4)) ?al1"
  let ?al3 = "list_insert_tail (MNode m) (MCHead (k - 4)) ?al2"
  let ?a = "a\<lparr>frees := (frees a)(k := chunks_of m k @ frees a k), mchunks := (mchunks a)(k := mchunks a k @ [m])\<rparr>"
  note ring = split_chunks_ring [OF _ _ s]
  obtain rest where rest: "chunks_of m k = ?c # rest"
    using layout(2) [of k] k by (cases "chunk_count k") (auto simp: chunks_of_def chunk_at_def upt_conv_Cons simp del: upt_Suc)
  have notin: "p \<notin> set (frees a l) \<union> given a l" if p: "p \<in> set (chunks_of m k)" and l: "an_order l" for p l
  proof
    assume "p \<in> set (frees a l) \<union> given a l"
    then obtain n where "n \<in> set (mchunks a l)" "p \<in> set (chunks_of n l)" using cal_mem_order(4) [OF M l] by blast
    with chunk_in_pages p l k new show False unfolding fresh_pages_def by blast
  qed
  have mnot: "m \<notin> set (mchunks a l)" if "an_order l" for l
    using new that head_in_pages [OF k, of m] head_in_pages [OF that, of m] unfolding fresh_pages_def by blast
  have keep1: "lring ?al1 zs" if "lring al zs" "\<And>p. p \<in> set (chunks_of m k) \<Longrightarrow> Chunk p \<notin> set zs" for zs
  proof -
    have "?al1 x = al x" if "x \<in> set zs" for x
      using ring(2) [of x] k that \<open>\<And>p. p \<in> set (chunks_of m k) \<Longrightarrow> Chunk p \<notin> set zs\<close> by blast
    then show ?thesis using that(1) lring_cong [of zs ?al1 al] by blast
  qed
  have ck: "lring ?al1 (CHead (k - 4) # map Chunk (frees a k))" using cal_mem_order(1) [OF M k] notin k by (intro keep1) auto
  have cc: "lring ?al1 (Chunk ?c # map Chunk rest)" using ring(1) k rest by simp
  have keep2: "lring ?al2 zs" if "lring ?al1 zs" "CHead (k - 4) \<notin> set zs" "\<And>p. Chunk p \<in> set zs \<Longrightarrow> p \<notin> set (frees a k) \<union> set (chunks_of m k)" for zs
    by (rule list_insert_list_other [OF ck cc that(1)]) (use that rest in auto)
  have ck2: "lring ?al2 (CHead (k - 4) # map Chunk (chunks_of m k @ frees a k))"
    using list_insert_list_ring [OF ck cc] notin rest k by auto
  have mk2: "lring ?al2 (MCHead (k - 4) # map MNode (mchunks a k))"
    using cal_mem_order(2) [OF M k] by (intro keep2 keep1) auto
  have mout: "MNode m \<notin> set (MCHead (k - 4) # map MNode (mchunks a k))" using mnot k by auto
  have keep3: "lring ?al3 zs" if "lring ?al2 zs" "set zs \<inter> set (MNode m # MCHead (k - 4) # map MNode (mchunks a k)) = {}" for zs
    by (rule list_insert_tail_other [OF mk2 that])
  have A: "lring ?al3 (CHead (l - 4) # map Chunk (frees ?a l)) \<and> lring ?al3 (MCHead (l - 4) # map MNode (mchunks ?a l))
        \<and> set (frees ?a l) \<inter> given ?a l = {} \<and> set (frees ?a l) \<union> given ?a l = (\<Union>m\<in>set (mchunks ?a l). set (chunks_of m l))
        \<and> (\<forall>n\<in>set (mchunks ?a l). mchunk_ok (new_headers m k hx hs) addr l n)" if l: "an_order l" for l
  proof (cases "l = k")
    case True
    have "lring ?al3 (CHead (k - 4) # map Chunk (chunks_of m k @ frees a k))" by (rule keep3 [OF ck2]) auto
    moreover have "lring ?al3 (MCHead (k - 4) # map MNode (mchunks a k @ [m]))" using list_insert_tail_ring [OF mk2 mout] by simp
    ultimately show ?thesis using True cal_mem_order(3-5) [OF M k] notin k mchunk_ok_new [OF k new hx] by auto
  next
    case False
    have ne: "l - 4 \<noteq> k - 4" using False l k by auto
    have "p \<notin> set (frees a k)" if "p \<in> set (frees a l)" for p using chunk_order_unique [OF M k l, of p] that False by auto
    then have "lring ?al3 (CHead (l - 4) # map Chunk (frees a l))"
      using cal_mem_order(1) [OF M l] notin l ne by (intro keep3 keep2 keep1) auto
    moreover have "x \<notin> set (mchunks a k)" if "x \<in> set (mchunks a l)" for x using mchunk_order_unique [OF M k l, of x] that False by auto
    then have "lring ?al3 (MCHead (l - 4) # map MNode (mchunks a l))"
      using cal_mem_order(2) [OF M l] mnot l ne by (intro keep3 keep2 keep1) auto
    ultimately show ?thesis using False l cal_mem_order(3-5) [OF M l] mchunk_ok_new [OF k new hx] by auto
  qed
  have B: "pages_of x l \<inter> pages_of y n = {}"
    if "an_order l" "an_order n" "x \<in> set (mchunks ?a l)" "y \<in> set (mchunks ?a n)" "(l, x) \<noteq> (n, y)" for l n x y
  proof -
    have old: "pages_of x l \<inter> pages_of y n = {}" if "x \<in> set (mchunks a l)" "y \<in> set (mchunks a n)"
      using cal_mem_disjoint [OF M \<open>an_order l\<close> \<open>an_order n\<close> that] \<open>(l, x) \<noteq> (n, y)\<close> by blast
    have new1: "pages_of m k \<inter> pages_of z j = {}" if "an_order j" "z \<in> set (mchunks a j)" for z j
      using new that unfolding fresh_pages_def by blast
    show ?thesis using that old new1 by (auto split: if_splits)
  qed
  show ?thesis unfolding cal_mem_def
  proof (rule conjI; intro allI impI)
    fix l assume "an_order l"
    then show "lring ?al3 (CHead (l - 4) # map Chunk (frees ?a l)) \<and> lring ?al3 (MCHead (l - 4) # map MNode (mchunks ?a l))
        \<and> set (frees ?a l) \<inter> given ?a l = {} \<and> set (frees ?a l) \<union> given ?a l = (\<Union>m\<in>set (mchunks ?a l). set (chunks_of m l))
        \<and> (\<forall>n\<in>set (mchunks ?a l). mchunk_ok (new_headers m k hx hs) addr l n)" by (rule A)
  next
    fix l n x y assume "an_order l \<and> an_order n \<and> x \<in> set (mchunks ?a l) \<and> y \<in> set (mchunks ?a n) \<and> (l, x) \<noteq> (n, y)"
    then show "pages_of x l \<inter> pages_of y n = {}" using B [of l n x y] by fastforce
  qed
qed

subsection \<open>Getting and putting chunks\<close>

definition order_of :: "u32 \<Rightarrow> nat" where
  "order_of s = the (get_order_by_size s)"

lemma order_of_small:
  assumes "s \<noteq> 0" and "s < CAL_CHUNK_THRESHOLD_SIZE"
  shows "get_order_by_size s = Some (order_of s)" and "an_order (order_of s)"
    and "nat (get_index_by_order (order_of s)) = order_of s - 4"
proof -
  obtain k where "get_order_by_size s = Some k" using order_exists [of s] assms(1) by auto
  then show "get_order_by_size s = Some (order_of s)" "an_order (order_of s)" "nat (get_index_by_order (order_of s)) = order_of s - 4"
    using order_range(2,4) assms(2) by (auto simp: order_of_def get_index_by_order_def cal_consts)
qed

lemma cal_given_finite: "cal_mem al hs addr a \<Longrightarrow> an_order k \<Longrightarrow> finite (given a k)"
  using cal_mem_order(4) [of al hs addr a k] by (metis List.finite_set finite_UN finite_Un)

text \<open>The counters of one order change, those of the others do not.\<close>

lemma cal_R_list:
  assumes "cal_R w a" and "an_order k" and "cal_mem al hs (cal_addr w) a'"
    and "length ls = 8" and "cl_lock (ls ! (k - 4)) = 0" and "cl_used (ls ! (k - 4)) = of_nat (card (given a' k))"
    and "cl_total (ls ! (k - 4)) = of_nat (length (frees a' k) + card (given a' k))"
    and "\<And>l. l \<noteq> k \<Longrightarrow> an_order l \<Longrightarrow> ls ! (l - 4) = chunk_lists w ! (l - 4) \<and> frees a' l = frees a l \<and> given a' l = given a l"
    and "alinks w' = al" "headers w' = hs" "cal_addr w' = cal_addr w" "mh_order w' = mh_order w" "mh_pow2_size w' = mh_pow2_size w"
    and "chunk_lists w' = ls"
  shows "cal_R w' a'"
proof -
  have "cl_lock (ls ! (l - 4)) = 0 \<and> cl_used (ls ! (l - 4)) = of_nat (card (given a' l))
      \<and> cl_total (ls ! (l - 4)) = of_nat (length (frees a' l) + card (given a' l))" if "an_order l" for l
    using assms(1,5-8) that by (cases "l = k") (auto simp: cal_R_def)
  then show ?thesis using assms by (simp add: cal_R_def)
qed

lemma get_pop:
  assumes R: "cal_R w a" and s: "s \<noteq> 0" "s < CAL_CHUNK_THRESHOLD_SIZE" and f: "frees a (order_of s) = p # ps"
  shows "\<exists>w'. chunk_cache_get mm s w = Some (p, w')
     \<and> cal_R w' (a\<lparr>frees := (frees a)(order_of s := ps), given := (given a)(order_of s := insert p (given a (order_of s)))\<rparr>)"
proof -
  let ?k = "order_of s"
  note o = order_of_small [OF s]
  have M: "cal_mem (alinks w) (headers w) (cal_addr w) a" and m: "mh_order w = 5" "length (chunk_lists w) = 8"
    and l: "cl_lock (chunk_lists w ! (?k - 4)) = 0" "cl_used (chunk_lists w ! (?k - 4)) = of_nat (card (given a ?k))"
      "cl_total (chunk_lists w ! (?k - 4)) = of_nat (length (frees a ?k) + card (given a ?k))"
    using R o(2) by (auto simp: cal_R_def)
  note pop = cal_mem_pop [OF M o(2) f]
  have i: "?k - 4 < 8" using o(2) by auto
  have p: "p \<notin> given a ?k" using cal_mem_order(3) [OF M o(2)] f by auto
  have ne: "\<not> list_empty (CHead (?k - 4)) (alinks w)"
    using list_empty_ring [OF cal_mem_order(1) [OF M o(2)]] f by simp
  let ?w' = "unlock_list (?k - 4) (upd_list (?k - 4) (\<lambda>l. l\<lparr>cl_used := cl_used l + 1\<rparr>)
     (upd_list (?k - 4) (\<lambda>l. l\<lparr>cl_lock := 1\<rparr>) w\<lparr>alinks := list_del (Chunk p) (alinks w)\<rparr>))"
  have "chunk_cache_get mm s w = Some (p, ?w')"
    using m l(1) i ne pop(1) o by (simp add: chunk_cache_get_def lock_list_def Let_def upd_list_def)
  moreover have "cal_R ?w' (a\<lparr>frees := (frees a)(?k := ps), given := (given a)(?k := insert p (given a ?k))\<rparr>)"
    by (rule cal_R_list [OF R o(2) pop(2), where w' = ?w' and ls = "chunk_lists ?w'"])
      (use m i l f p o cal_given_finite [OF M o(2)] in \<open>auto simp: unlock_list_def upd_list_def nth_list_update\<close>)
  ultimately show ?thesis by blast
qed

text \<open>A chunk that is taken from a list or put back leaves the mappings alone.\<close>

lemma get_pop_maps:
  assumes R: "cal_R w a" and s: "s \<noteq> 0" "s < CAL_CHUNK_THRESHOLD_SIZE" and f: "frees a (order_of s) \<noteq> []"
    and g: "chunk_cache_get mm s w = Some (p, w')"
  shows "maps w' = maps w"
proof -
  let ?k = "order_of s"
  note o = order_of_small [OF s]
  have M: "cal_mem (alinks w) (headers w) (cal_addr w) a" using R by (simp add: cal_R_def)
  have "\<not> list_empty (CHead (?k - 4)) (alinks w)"
    using list_empty_ring [OF cal_mem_order(1) [OF M o(2)]] f by simp
  then show ?thesis using g o R
    by (auto simp: chunk_cache_get_def cal_R_def Let_def lock_list_def unlock_list_def upd_list_def
        split: if_splits aptr.splits Option.bind_splits)
qed

lemma put_maps: "chunk_cache_put p s w = Some w' \<Longrightarrow> maps w' = maps w"
  by (auto simp: chunk_cache_put_def Let_def lock_list_def unlock_list_def upd_list_def
      split: if_splits option.splits Option.bind_splits)

lemma get_none:
  assumes R: "cal_R w a" and s: "s \<noteq> 0" "s < CAL_CHUNK_THRESHOLD_SIZE" and f: "frees a (order_of s) = []"
  shows "\<exists>w'. chunk_cache_get (\<lambda>_ _. None) s w = Some (0, w') \<and> cal_R w' a"
proof -
  let ?k = "order_of s"
  note o = order_of_small [OF s]
  have M: "cal_mem (alinks w) (headers w) (cal_addr w) a" and m: "mh_order w = 5" "length (chunk_lists w) = 8"
    and l: "cl_lock (chunk_lists w ! (?k - 4)) = 0" using R o(2) by (auto simp: cal_R_def)
  have i: "?k - 4 < 8" using o(2) by auto
  have e: "list_empty (CHead (?k - 4)) (alinks w)" using list_empty_ring [OF cal_mem_order(1) [OF M o(2)]] f by simp
  have "chunk_cache_get (\<lambda>_ _. None) s w = Some (0, unlock_list (?k - 4) (upd_list (?k - 4) (\<lambda>l. l\<lparr>cl_lock := 1\<rparr>) w))"
    using m l i e o by (simp add: chunk_cache_get_def lock_list_def Let_def upd_list_def refill_def mchunk_header_get_chunks_def mmap_allocate_def)
  moreover have "unlock_list (?k - 4) (upd_list (?k - 4) (\<lambda>l. l\<lparr>cl_lock := 1\<rparr>) w) = w"
  proof -
    have "chunk_lists w ! (?k - 4) = (chunk_lists w ! (?k - 4))\<lparr>cl_lock := 0\<rparr>" using l by (cases "chunk_lists w ! (?k - 4)") simp
    then show ?thesis using m i by (cases w) (simp add: unlock_list_def upd_list_def)
  qed
  ultimately show ?thesis using R by auto
qed

lemma refill_mem:
  assumes M: "cal_mem (alinks w) (headers w) (cal_addr w) a" and k: "an_order k" and new: "fresh_pages a k m"
    and w: "cal_addr w \<noteq> 0" "mh_order w = 5" "mh_pow2_size w = 32" "length (chunk_lists w) = 8"
  shows "\<exists>w'. refill (\<lambda>_ _. Some m) k (k - 4) w = Some (True, w')
     \<and> cal_mem (alinks w') (headers w') (cal_addr w) (a\<lparr>frees := (frees a)(k := chunks_of m k @ frees a k), mchunks := (mchunks a)(k := mchunks a k @ [m])\<rparr>)
     \<and> cal_addr w' = cal_addr w \<and> mh_order w' = 5 \<and> mh_pow2_size w' = 32
     \<and> chunk_lists w' = (chunk_lists w)[k - 4 := (chunk_lists w ! (k - 4))\<lparr>cl_total := cl_total (chunk_lists w ! (k - 4)) + of_nat (chunk_count k)\<rparr>]"
proof -
  let ?sz = "4096 * (k div 2)"
  obtain q h1 where s: "split_chunks k (m + k div 2 * 4096) (m + hdr_room k) (m + k div 2 * 4096 - 2 ^ k) (alinks w) = (q, h1)"
    by (cases "split_chunks k (m + k div 2 * 4096) (m + hdr_room k) (m + k div 2 * 4096 - 2 ^ k) (alinks w)")
  define hx where "hx = \<lparr>chunk_cache = cal_addr w, mh_pages = k div 2, mh_used = 0, mh_ord = k,
     not_chunk_cache = NOT (cal_addr w), first_chunk = m + hdr_room k\<rparr>"
  have m: "m \<noteq> 0" using new by (simp add: fresh_pages_def)
  have room: "(if k < mh_order w then mh_pow2_size w else 2 ^ k) = hdr_room k" using w by (simp add: hdr_room_def)
  have cnt: "(k div 2 * 4096 - hdr_room k) div 2 ^ k = chunk_count k" by (simp add: chunk_count_def)
  let ?hs = "new_headers m k hx (headers w)"
  have hs: "(\<lambda>x. if m \<le> x \<and> x < m + ?sz then Some zero_header else headers w x)(m \<mapsto> hx) = ?hs"
    by (auto simp: new_headers_def fun_eq_iff)
  have hx2: "zero_header\<lparr>mh_ord := k, mh_pages := k div 2, first_chunk := m + hdr_room k, chunk_cache := cal_addr w,
      not_chunk_cache := NOT (cal_addr w), mh_used := 0\<rparr> = hx" by (simp add: hx_def zero_header_def)
  define al where "al = list_insert_tail (MNode m) (MCHead (k - 4)) (list_insert_list (Chunk (m + hdr_room k)) (CHead (k - 4))
           (set_lnext (Chunk q) (Chunk (m + hdr_room k)) h1))"
  have get: "mchunk_header_get_chunks (\<lambda>_ _. Some m) k w = (m, w\<lparr>headers := (\<lambda>x. if m \<le> x \<and> x < m + ?sz then Some zero_header else headers w x)
        (m \<mapsto> zero_header\<lparr>mh_ord := k, mh_pages := k div 2, first_chunk := m + hdr_room k, mh_used := of_nat (chunk_count k)\<rparr>),
      maps := (m, ?sz) # maps w, alinks := set_lnext (Chunk q) (Chunk (m + hdr_room k)) h1\<rparr>)"
    using m s unfolding mchunk_header_get_chunks_def get_total_pages_by_order_def mmap_allocate_def
    by (simp add: Let_def PAGE_SIZE_def room cnt split del: if_split cong: if_cong)
  have "refill (\<lambda>_ _. Some m) k (k - 4) w = Some (True, w\<lparr>headers := ?hs, maps := (m, ?sz) # maps w, alinks := al,
      chunk_lists := (chunk_lists w)[k - 4 := (chunk_lists w ! (k - 4))\<lparr>cl_total := cl_total (chunk_lists w ! (k - 4)) + of_nat (chunk_count k)\<rparr>]\<rparr>)"
    unfolding refill_def get using m by (simp add: Let_def upd_list_def al_def hs hx2)
  moreover have "cal_mem al ?hs (cal_addr w) (a\<lparr>frees := (frees a)(k := chunks_of m k @ frees a k), mchunks := (mchunks a)(k := mchunks a k @ [m])\<rparr>)"
    unfolding al_def by (rule cal_mem_refill [OF M k new s]) (use w(1) in \<open>simp_all add: hx_def is_header_def\<close>)
  ultimately show ?thesis using w by auto
qed

lemma get_refill:
  assumes R: "cal_R w a" and s: "s \<noteq> 0" "s < CAL_CHUNK_THRESHOLD_SIZE" and f: "frees a (order_of s) = []"
    and new: "fresh_pages a (order_of s) m" and c: "chunks_of m (order_of s) = p # ps"
  shows "\<exists>w'. chunk_cache_get (\<lambda>_ _. Some m) s w = Some (p, w')
     \<and> cal_R w' (a\<lparr>frees := (frees a)(order_of s := ps), mchunks := (mchunks a)(order_of s := mchunks a (order_of s) @ [m]),
                  given := (given a)(order_of s := insert p (given a (order_of s)))\<rparr>)"
proof -
  let ?k = "order_of s"
  let ?a1 = "a\<lparr>frees := (frees a)(?k := chunks_of m ?k @ frees a ?k), mchunks := (mchunks a)(?k := mchunks a ?k @ [m])\<rparr>"
  note o = order_of_small [OF s]
  have M: "cal_mem (alinks w) (headers w) (cal_addr w) a" and m: "mh_order w = 5" "length (chunk_lists w) = 8" "cal_addr w \<noteq> 0" "mh_pow2_size w = 32"
    and l: "cl_lock (chunk_lists w ! (?k - 4)) = 0" "cl_used (chunk_lists w ! (?k - 4)) = of_nat (card (given a ?k))"
      "cl_total (chunk_lists w ! (?k - 4)) = of_nat (card (given a ?k))"
    using R o(2) f by (auto simp: cal_R_def)
  have i: "?k - 4 < 8" using o(2) by auto
  have e: "list_empty (CHead (?k - 4)) (alinks w)" using list_empty_ring [OF cal_mem_order(1) [OF M o(2)]] f by simp
  let ?w1 = "upd_list (?k - 4) (\<lambda>l. l\<lparr>cl_lock := 1\<rparr>) w"
  have "cal_mem (alinks ?w1) (headers ?w1) (cal_addr ?w1) a" using M by (simp add: upd_list_def)
  then obtain w2 where w2: "refill (\<lambda>_ _. Some m) ?k (?k - 4) ?w1 = Some (True, w2)"
     "cal_mem (alinks w2) (headers w2) (cal_addr w) ?a1" "cal_addr w2 = cal_addr w" "mh_order w2 = 5" "mh_pow2_size w2 = 32"
     "chunk_lists w2 = (chunk_lists ?w1)[?k - 4 := (chunk_lists ?w1 ! (?k - 4))\<lparr>cl_total := cl_total (chunk_lists ?w1 ! (?k - 4)) + of_nat (chunk_count ?k)\<rparr>]"
    using refill_mem [of ?w1 a ?k m] o(2) new m by (auto simp: upd_list_def)
  have "frees ?a1 ?k = p # ps" using c f by simp
  note pop = cal_mem_pop [OF w2(2) o(2) this]
  have p: "p \<notin> given a ?k" using cal_mem_order(3) [OF w2(2) o(2)] c by auto
  have len: "chunk_count ?k = Suc (length ps)" using arg_cong [OF c, of length] by (simp add: chunks_of_def)
  let ?w' = "unlock_list (?k - 4) (upd_list (?k - 4) (\<lambda>l. l\<lparr>cl_used := cl_used l + 1\<rparr>) (w2\<lparr>alinks := list_del (Chunk p) (alinks w2)\<rparr>))"
  have "lock_list (?k - 4) w = Some ?w1" using m l i by (simp add: lock_list_def)
  moreover have "list_empty (CHead (?k - 4)) (alinks ?w1)" using e by (simp add: upd_list_def)
  ultimately have "chunk_cache_get (\<lambda>_ _. Some m) s w = Some (p, ?w')"
    using m pop(1) o w2(1) by (simp add: chunk_cache_get_def Let_def)
  moreover have "cal_R ?w' (a\<lparr>frees := (frees a)(?k := ps), mchunks := (mchunks a)(?k := mchunks a ?k @ [m]), given := (given a)(?k := insert p (given a ?k))\<rparr>)"
  proof (rule cal_R_list [OF R o(2), where w' = ?w' and ls = "chunk_lists ?w'"])
    show "cal_mem (list_del (Chunk p) (alinks w2)) (headers w2) (cal_addr w)
        (a\<lparr>frees := (frees a)(?k := ps), mchunks := (mchunks a)(?k := mchunks a ?k @ [m]), given := (given a)(?k := insert p (given a ?k))\<rparr>)"
      using pop(2) by (cases a) simp
  qed (use m i l f p o len w2 cal_given_finite [OF M o(2)] in \<open>auto simp: unlock_list_def upd_list_def nth_list_update\<close>)
  ultimately show ?thesis by blast
qed

lemma put_push:
  assumes R: "cal_R w a" and s: "s \<noteq> 0" "s < CAL_CHUNK_THRESHOLD_SIZE" and p: "p \<in> given a (order_of s)"
  shows "\<exists>w'. chunk_cache_put p s w = Some w'
     \<and> cal_R w' (a\<lparr>frees := (frees a)(order_of s := p # frees a (order_of s)), given := (given a)(order_of s := given a (order_of s) - {p})\<rparr>)"
proof -
  let ?k = "order_of s"
  note o = order_of_small [OF s]
  have M: "cal_mem (alinks w) (headers w) (cal_addr w) a" and m: "length (chunk_lists w) = 8"
    and l: "cl_lock (chunk_lists w ! (?k - 4)) = 0" "cl_used (chunk_lists w ! (?k - 4)) = of_nat (card (given a ?k))"
      "cl_total (chunk_lists w ! (?k - 4)) = of_nat (length (frees a ?k) + card (given a ?k))"
    using R o(2) by (auto simp: cal_R_def)
  have i: "?k - 4 < 8" using o(2) by auto
  obtain c where c: "c \<in> set (mchunks a ?k)" "p \<in> set (chunks_of c ?k)" using cal_mem_order(4) [OF M o(2)] p by blast
  note ok = cal_mem_order(5) [OF M o(2) c(1)]
  obtain hx where hx: "headers w c = Some hx" "chunk_cache hx = cal_addr w" using ok by (auto simp: mchunk_ok_def)
  have found: "get_mchunk_header_by_chunk p ?k w = Some (Some c)" by (rule header_by_chunk [OF ok c(2) o(2)])
  have fin: "finite (given a ?k)" by (rule cal_given_finite [OF M o(2)])
  have card: "card (given a ?k) = Suc (card (given a ?k - {p}))" using fin p by (rule card.remove)
  let ?w2 = "upd_list (?k - 4) (\<lambda>l. l\<lparr>cl_lock := 1\<rparr>) (w\<lparr>alinks := lnode_init (Chunk p) (alinks w)\<rparr>)"
  let ?w4 = "upd_list (?k - 4) (\<lambda>l. l\<lparr>cl_used := cl_used l - 1\<rparr>) (?w2\<lparr>headers := (headers ?w2)(c \<mapsto> hx\<lparr>mh_used := mh_used hx - 1\<rparr>)\<rparr>)"
  let ?w' = "unlock_list (?k - 4) (?w4\<lparr>alinks := list_insert (Chunk p) (CHead (?k - 4)) (alinks ?w4)\<rparr>)"
  have "chunk_cache_put p s w = Some ?w'"
    using o found hx m l i by (simp add: chunk_cache_put_def lock_list_def Let_def)
  moreover have "cal_R ?w' (a\<lparr>frees := (frees a)(?k := p # frees a ?k), given := (given a)(?k := given a ?k - {p})\<rparr>)"
  proof (rule cal_R_list [OF R o(2) cal_mem_used [OF cal_mem_push [OF M o(2) p] hx(1)], where w' = ?w' and ls = "chunk_lists ?w'"])
    show "cl_used (chunk_lists ?w' ! (?k - 4)) = of_nat (card (given (a\<lparr>frees := (frees a)(?k := p # frees a ?k), given := (given a)(?k := given a ?k - {p})\<rparr>) ?k))"
      using m i l card by (simp add: unlock_list_def upd_list_def)
    show "cl_total (chunk_lists ?w' ! (?k - 4)) = of_nat (length (frees (a\<lparr>frees := (frees a)(?k := p # frees a ?k), given := (given a)(?k := given a ?k - {p})\<rparr>) ?k)
        + card (given (a\<lparr>frees := (frees a)(?k := p # frees a ?k), given := (given a)(?k := given a ?k - {p})\<rparr>) ?k))"
      using m i l card by (simp add: unlock_list_def upd_list_def)
  qed (use m i l o in \<open>auto simp: unlock_list_def upd_list_def nth_list_update\<close>)
  ultimately show ?thesis by blast
qed

subsection \<open>Sequences of requests\<close>

text \<open>A request for a chunk carries what \<open>mmap\<close> would return during it.\<close>

text \<open>
  \<open>AStore x hx\<close>: the links of a free chunk or the owner of a chunk are written at the start
  \<open>x\<close> of a page inside a page set, which then reads as the header \<open>hx\<close>.  It is allowed
  unless \<open>hx\<close> passes for a header of the order of the page set.
\<close>

datatype cal_op = AGet u32 "nat option" | APut nat u32 | AStore nat mchunk_header_st

definition store_page :: "nat \<Rightarrow> mchunk_header_st \<Rightarrow> calworld \<Rightarrow> calworld" where
  "store_page x hx w = w\<lparr>headers := (headers w)(x \<mapsto> hx)\<rparr>"

definition inner_page :: "cal_abs \<Rightarrow> nat \<Rightarrow> nat \<Rightarrow> bool" where
  "inner_page a k x \<longleftrightarrow> an_order k \<and> (\<exists>m\<in>set (mchunks a k). \<exists>j. 0 < j \<and> j < k div 2 \<and> x = m + j * 4096)"

fun cal_step :: "cal_op \<Rightarrow> calworld \<Rightarrow> calworld option" where
  "cal_step (AGet s r) w = map_option snd (cal_get (\<lambda>_ _. r) s w)"
| "cal_step (APut p s) w = cal_put p s w"
| "cal_step (AStore x hx) w = Some (store_page x hx w)"

fun cal_spec :: "cal_op \<Rightarrow> cal_abs \<Rightarrow> cal_abs" where
  "cal_spec (AGet s r) a =
     (let k = order_of s
      in case frees a k of
           p # ps \<Rightarrow> a\<lparr>frees := (frees a)(k := ps), given := (given a)(k := insert p (given a k))\<rparr>
         | [] \<Rightarrow> (case r of None \<Rightarrow> a
                  | Some m \<Rightarrow> a\<lparr>frees := (frees a)(k := tl (chunks_of m k)), mchunks := (mchunks a)(k := mchunks a k @ [m]),
                               given := (given a)(k := insert (hd (chunks_of m k)) (given a k))\<rparr>))"
| "cal_spec (APut p s) a =
     (let k = order_of s in a\<lparr>frees := (frees a)(k := p # frees a k), given := (given a)(k := given a k - {p})\<rparr>)"
| "cal_spec (AStore x hx) a = a"

fun cal_ok :: "cal_op \<Rightarrow> cal_abs \<Rightarrow> bool" where
  "cal_ok (AGet s r) a \<longleftrightarrow> s \<noteq> 0 \<and> s < CAL_CHUNK_THRESHOLD_SIZE \<and> (case r of None \<Rightarrow> True | Some m \<Rightarrow> fresh_pages a (order_of s) m)"
| "cal_ok (APut p s) a \<longleftrightarrow> s \<noteq> 0 \<and> s < CAL_CHUNK_THRESHOLD_SIZE \<and> p \<in> given a (order_of s)"
| "cal_ok (AStore x hx) a \<longleftrightarrow> (\<exists>k. inner_page a k x \<and> \<not> is_header k hx)"

lemma store_page_R:
  assumes R: "cal_R w a" and x: "inner_page a k x" and hx: "\<not> is_header k hx"
  shows "cal_R (store_page x hx w) a"
proof -
  have M: "cal_mem (alinks w) (headers w) (cal_addr w) a" using R by (simp add: cal_R_def)
  obtain m j where k: "an_order k" and m: "m \<in> set (mchunks a k)" and j: "0 < j" "j < k div 2" "x = m + j * 4096"
    using x by (auto simp: inner_page_def)
  have xm: "x \<in> pages_of m k" using j by (simp add: pages_of_def area_def)
  have "mchunk_ok ((headers w)(x \<mapsto> hx)) (cal_addr w) l n" if l: "an_order l" and n: "n \<in> set (mchunks a l)" for l n
  proof -
    note ok = cal_mem_order(5) [OF M l n]
    have at: "l = k \<and> n = m" if "n + i * 4096 = x" "i < l div 2" for i
      using cal_mem_disjoint [OF M l k n m, of x] xm that by (auto simp: pages_of_def area_def)
    have "x \<noteq> n" using at [of 0] l j by auto
    then show ?thesis using ok hx at unfolding mchunk_ok_def by auto
  qed
  with M have "cal_mem (alinks w) ((headers w)(x \<mapsto> hx)) (cal_addr w) a" by (simp add: cal_mem_def)
  with R show ?thesis by (simp add: cal_R_def store_page_def)
qed

lemma chunks_of_Cons:
  assumes "an_order k"
  shows "chunks_of m k = hd (chunks_of m k) # tl (chunks_of m k)"
  using layout(2) [of k] assms by (simp add: chunks_of_def)

text \<open>What a request returns.\<close>

fun get_result :: "u32 \<Rightarrow> nat option \<Rightarrow> cal_abs \<Rightarrow> nat" where
  "get_result s r a = (case frees a (order_of s) of p # ps \<Rightarrow> p
     | [] \<Rightarrow> (case r of None \<Rightarrow> 0 | Some m \<Rightarrow> hd (chunks_of m (order_of s))))"

lemma chunk_pos:
  assumes "cal_mem al hs addr a" and "an_order k" and "p \<in> set (frees a k) \<union> given a k"
  shows "0 < p"
proof -
  obtain m where "p \<in> set (chunks_of m k)" using cal_mem_order(4) [OF assms(1,2)] assms(3) by blast
  with chunk_range [of p m k] assms(2) show ?thesis by simp
qed

lemma get_result_eq:
  assumes R: "cal_R w a" and ok: "cal_ok (AGet s r) a"
  shows "\<exists>w'. cal_get (\<lambda>_ _. r) s w = Some (get_result s r a, w') \<and> cal_R w' (cal_spec (AGet s r) a)"
    and "get_result s r a \<noteq> 0 \<Longrightarrow> get_result s r a \<in> given (cal_spec (AGet s r) a) (order_of s)"
    and "cal_mem al hs addr a \<Longrightarrow> get_result s r a \<notin> given a (order_of s)"
    and "given a l \<subseteq> given (cal_spec (AGet s r) a) l"
proof -
  have s: "s \<noteq> 0" "s < CAL_CHUNK_THRESHOLD_SIZE" using ok by simp_all
  note o = order_of_small(2) [OF s]
  show "given a l \<subseteq> given (cal_spec (AGet s r) a) l"
    by (auto simp: Let_def split: list.splits option.splits)
  show "get_result s r a \<in> given (cal_spec (AGet s r) a) (order_of s)" if "get_result s r a \<noteq> 0"
    using that by (auto simp: Let_def split: list.splits option.splits)
  show "\<exists>w'. cal_get (\<lambda>_ _. r) s w = Some (get_result s r a, w') \<and> cal_R w' (cal_spec (AGet s r) a)"
  proof (cases "frees a (order_of s)")
    case (Cons p ps)
    with get_pop [OF R s Cons, of "\<lambda>_ _. r"] show ?thesis by (auto simp: Let_def cal_get_def s(2))
  next
    case Nil
    show ?thesis
    proof (cases r)
      case None
      with get_none [OF R s Nil] Nil show ?thesis by (auto simp: Let_def cal_get_def s(2))
    next
      case (Some m)
      with ok have "fresh_pages a (order_of s) m" by simp
      from get_refill [OF R s Nil this chunks_of_Cons [OF o]] Nil Some show ?thesis
        by (auto simp: Let_def cal_get_def s(2))
    qed
  qed
  show "get_result s r a \<notin> given a (order_of s)" if M: "cal_mem al hs addr a"
  proof (cases "frees a (order_of s)")
    case (Cons p ps)
    with cal_mem_order(3) [OF M o] show ?thesis by auto
  next
    case Nil
    show ?thesis
    proof (cases r)
      case None
      with Nil chunk_pos [OF M o, of 0] show ?thesis by auto
    next
      case (Some m)
      let ?p = "hd (chunks_of m (order_of s))"
      have p: "?p \<in> set (chunks_of m (order_of s))" using chunks_of_Cons [OF o, of m] by (metis list.set_intros(1))
      have "?p \<notin> given a (order_of s)"
      proof
        assume "?p \<in> given a (order_of s)"
        then obtain n where "n \<in> set (mchunks a (order_of s))" "?p \<in> set (chunks_of n (order_of s))"
          using cal_mem_order(4) [OF M o] by blast
        moreover have "fresh_pages a (order_of s) m" using ok Some by simp
        ultimately show False using chunk_in_pages [OF p o] chunk_in_pages [of ?p n "order_of s"] o
          unfolding fresh_pages_def by blast
      qed
      with Nil Some show ?thesis by simp
    qed
  qed
qed

interpretation cal: container cal_R cal_step cal_spec cal_ok
proof
  fix w a op
  assume R: "cal_R w a" and ok: "cal_ok op a"
  show "\<exists>w'. cal_step op w = Some w' \<and> cal_R w' (cal_spec op a)"
  proof (cases op)
    case (AGet s r)
    then have "cal_ok (AGet s r) a" using ok by simp
    from get_result_eq(1) [OF R this] show ?thesis by (auto simp: AGet simp del: cal_spec.simps)
  next
    case (APut p s)
    with put_push [OF R, of s p] ok show ?thesis by (simp add: Let_def cal_put_def)
  next
    case (AStore x hx)
    with store_page_R [OF R] ok show ?thesis by auto
  qed
qed

definition cal_start :: cal_abs where
  "cal_start = \<lparr>frees = (\<lambda>_. []), mchunks = (\<lambda>_. []), given = (\<lambda>_. {})\<rparr>"

lemma chunk_list_init_fold:
  "chunk_lists (fold chunk_list_init is w) = fold (\<lambda>i ls. ls[i := (ls ! i)\<lparr>cl_lock := 0\<rparr>]) is (chunk_lists w)"
  "headers (fold chunk_list_init is w) = headers w" "cal_addr (fold chunk_list_init is w) = cal_addr w"
  "mh_order (fold chunk_list_init is w) = mh_order w" "mh_pow2_size (fold chunk_list_init is w) = mh_pow2_size w"
  "x \<notin> CHead ` set is \<union> MCHead ` set is \<Longrightarrow> alinks (fold chunk_list_init is w) x = alinks w x"
  by (induction "is" arbitrary: w) (auto simp: chunk_list_init_def upd_list_def lnode_init_other)

lemma chunk_list_init_rings:
  assumes "i \<in> set is" and "distinct is"
  shows "lring (alinks (fold chunk_list_init is w)) [CHead i] \<and> lring (alinks (fold chunk_list_init is w)) [MCHead i]"
  using assms
proof (induction "is" arbitrary: w)
  case (Cons j js)
  show ?case
  proof (cases "i = j")
    case True
    let ?w = "chunk_list_init j w"
    have "alinks (fold chunk_list_init js ?w) x = alinks ?w x" if "x \<in> {CHead j, MCHead j}" for x
      using Cons.prems that by (intro chunk_list_init_fold(6)) auto
    then have "alinks (fold chunk_list_init js ?w) (CHead j) = alinks ?w (CHead j)"
      "alinks (fold chunk_list_init js ?w) (MCHead j) = alinks ?w (MCHead j)" by blast+
    moreover have "lnext (alinks ?w x) = x \<and> lprev (alinks ?w x) = x" if "x \<in> {CHead j, MCHead j}" for x
      using that by (auto simp: chunk_list_init_def upd_list_def lnode_init_def set_lnext_def set_lprev_def)
    ultimately show ?thesis using True by (simp add: lring_def)
  next
    case False
    with Cons show ?thesis by simp
  qed
qed simp

lemma cal_start_R:
  assumes "cal_initialize w = Some w1" and "cal_addr w \<noteq> 0"
  shows "cal_R (cal_init w1) cal_start"
proof -
  have "get_pow2_order sizeof_mchunk_header = Some 5" by code_simp
  then have w1: "w1 = w\<lparr>mh_order := 5, mh_pow2_size := 32\<rparr>" using assms(1) by (simp add: cal_initialize_def)
  let ?w = "cal_init w1"
  have "cal_mem (alinks ?w) (headers ?w) (cal_addr ?w) cal_start"
    unfolding cal_mem_def
  proof (intro conjI allI impI)
    fix k assume "an_order k"
    then have "k - 4 \<in> set [0..<8]" by auto
    from chunk_list_init_rings [OF this, of "w1\<lparr>chunk_lists := replicate 8 \<lparr>cl_lock = 0, cl_total = 0, cl_used = 0\<rparr>\<rparr>"]
    show "lring (alinks ?w) (CHead (k - 4) # map Chunk (frees cal_start k))" "lring (alinks ?w) (MCHead (k - 4) # map MNode (mchunks cal_start k))"
      by (simp_all add: cal_init_def chunk_cache_init_def cal_consts cal_start_def)
  qed (simp_all add: cal_start_def)
  moreover have "chunk_lists ?w = replicate 8 \<lparr>cl_lock = 0, cl_total = 0, cl_used = 0\<rparr>"
    unfolding cal_init_def chunk_cache_init_def chunk_list_init_fold by (simp add: cal_consts upt_rec eval_nat_numeral)
  ultimately show ?thesis using assms(2) w1
    by (auto simp: cal_R_def cal_start_def cal_init_def chunk_cache_init_def chunk_list_init_fold)
qed

text \<open>
  C7.  Any sequence of allowed requests to a new allocator ends, without an access to memory that
  is not mapped, and acts on the free lists as the specification says: a chunk comes from the head
  of the list of its order, which is filled with the chunks of a new page set when it is empty,
  and goes back there.  In between, the memory at the start of the inner pages of a page set may
  change to anything that does not read as a header of its order.
\<close>

theorem alloc_refines:
  assumes "cal_initialize w = Some w1" and "cal_addr w \<noteq> 0" and "ops_ok cal_ok cal_spec ops cal_start"
  shows "\<exists>w'. run_ops cal_step ops (cal_init w1) = Some w' \<and> cal_R w' (run_spec cal_spec ops cal_start)"
  by (rule cal.run_implements [OF cal_start_R [OF assms(1,2)] assms(3)])

definition cal_zero :: calworld where
  "cal_zero = \<lparr>alinks = (\<lambda>x. \<lparr>lnext = x, lprev = x\<rparr>), headers = (\<lambda>_. None), chunk_lists = [], maps = [], mh_order = 0, mh_pow2_size = 0, cal_addr = 64\<rparr>"

lemma cal_zero_ops: "ops_ok cal_ok cal_spec [AGet 100 (Some 8192), AGet 16 None] cal_start"
  by (simp add: cal_consts fresh_pages_def cal_start_def Let_def split: list.split)

theorem alloc_refines_witness:
  "\<exists>w1 w'. cal_initialize cal_zero = Some w1 \<and> run_ops cal_step [AGet 100 (Some 8192), AGet 16 None] (cal_init w1) = Some w'
     \<and> cal_R w' (run_spec cal_spec [AGet 100 (Some 8192), AGet 16 None] cal_start)"
proof -
  have "get_pow2_order sizeof_mchunk_header = Some 5" by code_simp
  then obtain w1 where "cal_initialize cal_zero = Some w1" by (simp add: cal_initialize_def)
  with alloc_refines [OF this _ cal_zero_ops] show ?thesis by (auto simp: cal_zero_def)
qed

subsection \<open>What the users of the allocator rely on\<close>

lemma chunks_apart:
  assumes M: "cal_mem al hs addr a" and k: "an_order k" "an_order l"
    and p: "p \<in> set (frees a k) \<union> given a k" "q \<in> set (frees a l) \<union> given a l" and ne: "(k, p) \<noteq> (l, q)"
  shows "area p (2 ^ k) \<inter> area q (2 ^ l) = {}"
proof (rule ccontr)
  assume "\<not> ?thesis"
  then obtain x where x: "x \<in> area p (2 ^ k)" "x \<in> area q (2 ^ l)" by blast
  obtain m where m: "m \<in> set (mchunks a k)" "p \<in> set (chunks_of m k)" using cal_mem_order(4) [OF M k(1)] p(1) by blast
  obtain n where n: "n \<in> set (mchunks a l)" "q \<in> set (chunks_of n l)" using cal_mem_order(4) [OF M k(2)] p(2) by blast
  have "x \<in> pages_of m k" "x \<in> pages_of n l"
    using chunk_inside [OF m(2)] chunk_inside [OF n(2)] k x by (force simp: pages_of_def area_def)+
  then have "k = l \<and> m = n" by (rule cal_mem_disjoint [OF M k m(1) n(1)])
  with chunks_disjoint [OF m(2), of q] n ne x show False by auto
qed

text \<open>
  The users of the allocator: the addresses that \<open>cal_get\<close> has returned to them, with the
  size they asked for, and that they have not put back.
\<close>

type_synonym held = "(nat \<times> u32) list"

fun use_step :: "cal_op \<Rightarrow> calworld \<times> held \<Rightarrow> (calworld \<times> held) option" where
  "use_step (AGet s r) (w, hs) =
     map_option (\<lambda>(p, w'). (w', if p = 0 then hs else (p, s) # hs)) (cal_get (\<lambda>_ _. r) s w)"
| "use_step (APut p s) (w, hs) = map_option (\<lambda>w'. (w', remove1 (p, s) hs)) (cal_put p s w)"
| "use_step (AStore x hx) (w, hs) = Some (store_page x hx w, hs)"

fun use_spec :: "cal_op \<Rightarrow> cal_abs \<times> held \<Rightarrow> cal_abs \<times> held" where
  "use_spec (AGet s r) (a, hs) =
     (cal_spec (AGet s r) a, if get_result s r a = 0 then hs else (get_result s r a, s) # hs)"
| "use_spec (APut p s) (a, hs) = (cal_spec (APut p s) a, remove1 (p, s) hs)"
| "use_spec (AStore x hx) (a, hs) = (a, hs)"

text \<open>Only what is held is put back, with the size it was got with.\<close>

fun use_ok :: "cal_op \<Rightarrow> cal_abs \<times> held \<Rightarrow> bool" where
  "use_ok (AGet s r) (a, hs) \<longleftrightarrow> cal_ok (AGet s r) a"
| "use_ok (APut p s) (a, hs) \<longleftrightarrow> (p, s) \<in> set hs"
| "use_ok (AStore x hx) (a, hs) \<longleftrightarrow> cal_ok (AStore x hx) a"

definition held_ok :: "cal_abs \<Rightarrow> held \<Rightarrow> bool" where
  "held_ok a hs \<longleftrightarrow> distinct (map fst hs)
     \<and> (\<forall>(p, s)\<in>set hs. s \<noteq> 0 \<and> s < CAL_CHUNK_THRESHOLD_SIZE \<and> p \<in> given a (order_of s))"

definition use_R :: "calworld \<times> held \<Rightarrow> cal_abs \<times> held \<Rightarrow> bool" where
  "use_R x y \<longleftrightarrow> cal_R (fst x) (fst y) \<and> snd x = snd y \<and> held_ok (fst y) (snd y)"

lemma order_of_eq:
  assumes "cal_mem al hs addr a" and "an_order (order_of s)" "an_order (order_of u)" and "p \<in> given a (order_of s)" "p \<in> given a (order_of u)"
  shows "order_of s = order_of u"
  by (rule chunk_order_unique [OF assms(1-3), of p]) (use assms(4,5) in auto)

lemma held_not_twice:
  assumes M: "cal_mem al hs addr a" and ok: "cal_ok (AGet s r) a" and R: "cal_R w a" and h: "held_ok a hl"
    and nz: "get_result s r a \<noteq> 0"
  shows "get_result s r a \<notin> fst ` set hl"
proof
  let ?p = "get_result s r a" and ?a = "cal_spec (AGet s r) a"
  assume "?p \<in> fst ` set hl"
  then obtain u where u: "u \<noteq> 0" "u < CAL_CHUNK_THRESHOLD_SIZE" "?p \<in> given a (order_of u)" using h by (auto simp: held_ok_def)
  obtain w' where w': "cal_R w' ?a" using get_result_eq(1) [OF R ok] by blast
  then have M': "cal_mem (alinks w') (headers w') (cal_addr w') ?a" by (simp add: cal_R_def)
  have s: "s \<noteq> 0" "s < CAL_CHUNK_THRESHOLD_SIZE" using ok by simp_all
  have "order_of s = order_of u"
    by (rule order_of_eq [OF M' order_of_small(2) [OF s] order_of_small(2) [OF u(1,2)] get_result_eq(2) [OF R ok nz]])
      (use get_result_eq(4) [OF R ok] u(3) in blast)
  with u(3) get_result_eq(3) [OF R ok M] show False by simp
qed

lemma held_ok_put:
  assumes M: "cal_mem al hs addr a" and h: "held_ok a hl" and p: "(p, s) \<in> set hl"
  shows "held_ok (cal_spec (APut p s) a) (remove1 (p, s) hl)"
proof -
  have d: "distinct (map fst hl)" and e: "\<And>q u. (q, u) \<in> set hl \<Longrightarrow> u \<noteq> 0 \<and> u < CAL_CHUNK_THRESHOLD_SIZE \<and> q \<in> given a (order_of u)"
    using h by (auto simp: held_ok_def)
  have dh: "distinct hl" using d by (simp add: distinct_map)
  have "q \<noteq> p" if "(q, u) \<in> set hl" "(q, u) \<noteq> (p, s)" for q u
    using eq_key_imp_eq_value [OF d p, of u] that by auto
  then have "\<forall>(q, u)\<in>set (remove1 (p, s) hl). u \<noteq> 0 \<and> u < CAL_CHUNK_THRESHOLD_SIZE \<and> q \<in> given (cal_spec (APut p s) a) (order_of u)"
    using e dh by (auto simp: Let_def) metis+
  moreover have "distinct (map fst (remove1 (p, s) hl))"
    using d notin_set_remove1 by (auto simp: distinct_map dh inj_on_def)
  ultimately show ?thesis by (simp add: held_ok_def)
qed

interpretation use: container use_R use_step use_spec use_ok
proof
  fix x y op
  assume RR: "use_R x y" and ok: "use_ok op y"
  obtain w a hl where xy: "x = (w, hl)" "y = (a, hl)" and R: "cal_R w a" and h: "held_ok a hl"
    using RR by (cases x; cases y) (auto simp: use_R_def)
  have M: "cal_mem (alinks w) (headers w) (cal_addr w) a" using R by (simp add: cal_R_def)
  show "\<exists>x'. use_step op x = Some x' \<and> use_R x' (use_spec op y)"
  proof (cases op)
    case (AGet s r)
    then have ok': "cal_ok (AGet s r) a" using ok xy by simp
    obtain w' where w': "cal_get (\<lambda>_ _. r) s w = Some (get_result s r a, w')" "cal_R w' (cal_spec (AGet s r) a)"
      using get_result_eq(1) [OF R ok'] by blast
    have old: "held_ok (cal_spec (AGet s r) a) hl"
      using h get_result_eq(4) [OF R ok'] by (fastforce simp: held_ok_def)
    then have "held_ok (cal_spec (AGet s r) a) ((get_result s r a, s) # hl)" if nz: "get_result s r a \<noteq> 0"
      using held_not_twice [OF M ok' R h nz] get_result_eq(2) [OF R ok' nz] ok' by (simp add: held_ok_def)
    with w' old show ?thesis by (simp add: AGet xy use_R_def del: cal_spec.simps get_result.simps)
  next
    case (APut p s)
    then have p: "(p, s) \<in> set hl" using ok xy by simp
    then have g: "s \<noteq> 0" "s < CAL_CHUNK_THRESHOLD_SIZE" "p \<in> given a (order_of s)" using h by (auto simp: held_ok_def)
    obtain w' where "cal_put p s w = Some w'" "cal_R w' (cal_spec (APut p s) a)"
      using put_push [OF R g] g(2) by (auto simp: cal_put_def Let_def)
    with held_ok_put [OF M h p] show ?thesis by (simp add: APut xy use_R_def del: cal_spec.simps)
  next
    case (AStore z hx)
    with ok xy R h store_page_R [OF R] show ?thesis by (auto simp: use_R_def)
  qed
qed

definition held_area :: "nat \<times> u32 \<Rightarrow> nat set" where
  "held_area x = area (fst x) (unat (snd x))"

lemma held_chunk:
  assumes R: "cal_R w a" and h: "held_ok a hl" and x: "x \<in> set hl"
  shows "an_order (order_of (snd x))" and "fst x \<in> given a (order_of (snd x))" and "held_area x \<subseteq> area (fst x) (2 ^ order_of (snd x))"
proof -
  have s: "snd x \<noteq> 0" "snd x < CAL_CHUNK_THRESHOLD_SIZE" "fst x \<in> given a (order_of (snd x))" using h x by (auto simp: held_ok_def)
  show "an_order (order_of (snd x))" by (rule order_of_small(2) [OF s(1,2)])
  show "fst x \<in> given a (order_of (snd x))" by (rule s(3))
  show "held_area x \<subseteq> area (fst x) (2 ^ order_of (snd x))"
    using order_range(1) [OF order_of_small(1) [OF s(1,2)]] by (auto simp: held_area_def area_def)
qed

lemma held_place:
  assumes R: "cal_R w a" and h: "held_ok a hl" and x: "x \<in> set hl"
  shows "\<exists>m. mchunk_ok (headers w) (cal_addr w) (order_of (snd x)) m
     \<and> held_area x \<subseteq> {m + 32..<m + order_of (snd x) div 2 * 4096}"
proof -
  note c = held_chunk [OF R h x]
  have M: "cal_mem (alinks w) (headers w) (cal_addr w) a" using R by (simp add: cal_R_def)
  obtain m where m: "m \<in> set (mchunks a (order_of (snd x)))" "fst x \<in> set (chunks_of m (order_of (snd x)))"
    using cal_mem_order(4) [OF M c(1)] c(2) by blast
  from cal_mem_order(5) [OF M c(1) m(1)] chunk_inside [OF m(2)] c(1,3) show ?thesis by blast
qed

text \<open>
  C19.  Memory that is given out never overlaps.  After any sequence of allowed requests for
  chunks to a new allocator the areas at the addresses that \<open>cal_get\<close> has returned, and
  that have not been put back, are pairwise disjoint, disjoint from every chunk in the list of
  free chunks of any order, and each lies in a page set of the allocator, behind its header.
\<close>

theorem alloc_no_overlap:
  assumes "cal_initialize w = Some w1" and "cal_addr w \<noteq> 0" and "ops_ok use_ok use_spec ops (cal_start, [])"
  shows "\<exists>w' hl. run_ops use_step ops (cal_init w1, []) = Some (w', hl)
     \<and> (\<forall>i j. i < j \<and> j < length hl \<longrightarrow> held_area (hl ! i) \<inter> held_area (hl ! j) = {})
     \<and> (\<forall>x k fs f. x \<in> set hl \<and> an_order k \<and> lring (alinks w') (CHead (k - 4) # map Chunk fs) \<and> f \<in> set fs
           \<longrightarrow> held_area x \<inter> area f (2 ^ k) = {})
     \<and> (\<forall>x\<in>set hl. \<exists>m. mchunk_ok (headers w') (cal_addr w') (order_of (snd x)) m
           \<and> held_area x \<subseteq> {m + 32..<m + order_of (snd x) div 2 * 4096})"
proof -
  have "use_R (cal_init w1, []) (cal_start, [])" using cal_start_R [OF assms(1,2)] by (simp add: use_R_def held_ok_def)
  from use.run_implements [OF this assms(3)] obtain w' hl a where
    run: "run_ops use_step ops (cal_init w1, []) = Some (w', hl)" and R: "cal_R w' a" and h: "held_ok a hl"
    by (auto simp: use_R_def)
  have M: "cal_mem (alinks w') (headers w') (cal_addr w') a" using R by (simp add: cal_R_def)
  note c = held_chunk [OF R h]
  have apart: "held_area x \<inter> area q (2 ^ l) = {}"
    if x: "x \<in> set hl" and l: "an_order l" "q \<in> set (frees a l) \<union> given a l" "(l, q) \<noteq> (order_of (snd x), fst x)" for x l q
    using chunks_apart [OF M c(1) [OF x] l(1), of "fst x" q] c(2,3) [OF x] l(2,3) by auto
  have "held_area (hl ! i) \<inter> held_area (hl ! j) = {}" if ij: "i < j" "j < length hl" for i j
  proof -
    have "fst (hl ! i) \<noteq> fst (hl ! j)" using h ij nth_eq_iff_index_eq [of "map fst hl" i j] by (auto simp: held_ok_def)
    then show ?thesis
      using apart [of "hl ! i" "order_of (snd (hl ! j))" "fst (hl ! j)"] c [of "hl ! j"] ij by fastforce
  qed
  moreover have "held_area x \<inter> area f (2 ^ k) = {}"
    if x: "x \<in> set hl" and k: "an_order k" and f: "lring (alinks w') (CHead (k - 4) # map Chunk fs)" "f \<in> set fs" for x k fs f
  proof -
    have "fs = frees a k" using lring_unique [OF f(1) cal_mem_order(1) [OF M k]] by (auto dest: map_injective simp: inj_def)
    with f(2) have "f \<in> set (frees a k)" "f \<notin> given a k" using cal_mem_order(3) [OF M k] by auto
    then show ?thesis using apart [OF x k, of f] c(2) [OF x] by auto
  qed
  ultimately show ?thesis using run held_place [OF R h] by blast
qed

theorem alloc_no_overlap_witness:
  "\<exists>w1 w' hl. cal_initialize cal_zero = Some w1
     \<and> run_ops use_step [AGet 100 (Some 8192), AGet 90 None] (cal_init w1, []) = Some (w', hl)
     \<and> (\<forall>i j. i < j \<and> j < length hl \<longrightarrow> held_area (hl ! i) \<inter> held_area (hl ! j) = {})"
proof -
  have o: "order_of 100 = 7" "order_of 90 = 7" by (simp_all add: order_of_def, code_simp, code_simp)
  have ok: "ops_ok use_ok use_spec [AGet 100 (Some 8192), AGet 90 None] (cal_start, [])"
    by (simp add: cal_consts fresh_pages_def cal_start_def Let_def)
  have "get_pow2_order sizeof_mchunk_header = Some 5" by code_simp
  then obtain w1 where "cal_initialize cal_zero = Some w1" by (simp add: cal_initialize_def)
  with alloc_no_overlap [OF this _ ok] show ?thesis by (auto simp: cal_zero_def)
qed

text \<open>
  What the comment in the source calls a collision: where the owner of a chunk leaves, at the
  start of an inner page, data that reads as a header of the order, the search for the header of
  a chunk of that page ends there and not at the header of the page set.
\<close>

theorem header_collision:
  assumes "is_header k hx" and "0 < k div 2" and "p div PAGE_SIZE * PAGE_SIZE = x"
  shows "get_mchunk_header_by_chunk p k (store_page x hx w) = Some (Some x)"
  using assms by (cases "k div 2") (auto simp: get_mchunk_header_by_chunk_def get_total_pages_by_order_def is_header_def store_page_def)

theorem header_collision_witness:
  "get_mchunk_header_by_chunk 13056 10 (store_page 12288 (zero_header\<lparr>chunk_cache := 1, not_chunk_cache := NOT 1, mh_ord := 10\<rparr>) cal_zero)
     = Some (Some 12288)"
  by (rule header_collision) (simp_all add: is_header_def PAGE_SIZE_def zero_header_def)

text \<open>
  A chunk that is put back is the next one to be given out for a size of the same order.
\<close>

theorem put_get_same:
  assumes "cal_R w a" and "s \<noteq> 0" "s < CAL_CHUNK_THRESHOLD_SIZE" and "p \<in> given a (order_of s)"
    and "s' \<noteq> 0" "s' < CAL_CHUNK_THRESHOLD_SIZE" "order_of s' = order_of s"
  shows "\<exists>w1 w2. chunk_cache_put p s w = Some w1 \<and> chunk_cache_get mm s' w1 = Some (p, w2) \<and> cal_R w2 a"
proof -
  obtain w1 where w1: "chunk_cache_put p s w = Some w1"
    "cal_R w1 (a\<lparr>frees := (frees a)(order_of s := p # frees a (order_of s)), given := (given a)(order_of s := given a (order_of s) - {p})\<rparr>)"
    using put_push [OF assms(1-4)] by blast
  from get_pop [OF w1(2) assms(5,6), of p "frees a (order_of s)" mm] assms(4,7) obtain w2 where
    "chunk_cache_get mm s' w1 = Some (p, w2)" "cal_R w2 (a\<lparr>frees := frees a, given := given a\<rparr>)"
    by (auto simp: insert_absorb)
  with w1(1) show ?thesis by auto
qed

theorem put_get_same_witness:
  "\<exists>w w1 w2. chunk_cache_put 8320 100 w = Some w1 \<and> chunk_cache_get (\<lambda>_ _. None) 128 w1 = Some (8320, w2)"
proof -
  have o: "order_of 100 = 7" "order_of 128 = 7" by (simp_all add: order_of_def, code_simp, code_simp)
  have c: "hd (chunks_of 8192 7) = 8320" by (simp add: chunks_of_def chunk_count_def hdr_room_def upt_conv_Cons chunk_at_def)
  let ?ops = "[AGet 100 (Some 8192)]"
  have ok: "ops_ok cal_ok cal_spec ?ops cal_start" by (simp add: cal_consts fresh_pages_def cal_start_def)
  have g: "8320 \<in> given (run_spec cal_spec ?ops cal_start) (order_of 100)" by (simp add: cal_start_def Let_def o c)
  have "get_pow2_order sizeof_mchunk_header = Some 5" by code_simp
  then obtain w1 where "cal_initialize cal_zero = Some w1" by (simp add: cal_initialize_def)
  from cal.run_implements [OF cal_start_R [OF this] ok] obtain w where "cal_R w (run_spec cal_spec ?ops cal_start)"
    by (auto simp: cal_zero_def)
  from put_get_same [OF this _ _ g, of 128 "\<lambda>_ _. None"] o show ?thesis by (auto simp: cal_consts)
qed

text \<open>
  \<open>cal_verify_pointer\<close> accepts every pointer as soon as there is a page set of the order: it
  tests that the pointer is behind the first chunk or before the end, one of which always holds.
\<close>

theorem verify_accepts_any:
  assumes "cal_R w a" and "s \<noteq> 0" "s < CAL_CHUNK_THRESHOLD_SIZE" and "mchunks a (order_of s) \<noteq> []"
  shows "cal_verify_pointer p s w = Some True"
proof -
  let ?k = "order_of s"
  note o = order_of_small [OF assms(2,3)]
  have M: "cal_mem (alinks w) (headers w) (cal_addr w) a" using assms(1) by (simp add: cal_R_def)
  obtain m ms where m: "mchunks a ?k = m # ms" using assms(4) by (cases "mchunks a ?k") auto
  have nx: "lnext (alinks w (MCHead (?k - 4))) = MNode m" using lring_next [OF cal_mem_order(2) [OF M o(2)]] m by simp
  obtain hx where hx: "headers w m = Some hx" "mh_pages hx = ?k div 2" "first_chunk hx = m + hdr_room ?k"
    using cal_mem_order(5) [OF M o(2), of m] m by (auto simp: mchunk_ok_def)
  have "unat s \<le> 1 * 2 ^ ?k" using order_range(1) [OF o(1)] by simp
  also have "1 * 2 ^ ?k \<le> chunk_count ?k * 2 ^ ?k" using layout(2) [of ?k] o(2) by (intro mult_le_mono) auto
  finally have "hdr_room ?k + unat s \<le> ?k div 2 * 4096" using layout(1) [of ?k] o(2) by linarith
  moreover have "r + u \<le> h * 4096 \<Longrightarrow> p \<ge> m + r \<or> int p < int (m + 4096 * h) - int u" for r u h :: nat by linarith
  ultimately have "p \<ge> first_chunk hx \<or> int p < int (m + PAGE_SIZE * mh_pages hx) - int (unat s)"
    unfolding hx(2,3) PAGE_SIZE_def by blast
  then have "verify_loop (?k - 4) p (unat s) (MNode m) w = Some True"
    using hx(1) by (subst verify_loop.simps) simp
  with assms(3) o nx show ?thesis by (simp add: cal_verify_pointer_def Let_def)
qed

theorem verify_accepts_any_witness: "\<exists>w. cal_verify_pointer 5 100 w = Some True"
proof -
  have o: "order_of 100 = 7" by (simp add: order_of_def, code_simp)
  let ?ops = "[AGet 100 (Some 8192)]"
  have ok: "ops_ok cal_ok cal_spec ?ops cal_start" by (simp add: cal_consts fresh_pages_def cal_start_def)
  have g: "mchunks (run_spec cal_spec ?ops cal_start) (order_of 100) \<noteq> []" by (simp add: cal_start_def Let_def o)
  have "get_pow2_order sizeof_mchunk_header = Some 5" by code_simp
  then obtain w1 where "cal_initialize cal_zero = Some w1" by (simp add: cal_initialize_def)
  from cal.run_implements [OF cal_start_R [OF this] ok] obtain w where "cal_R w (run_spec cal_spec ?ops cal_start)"
    by (auto simp: cal_zero_def)
  from verify_accepts_any [OF this _ _ g, of 5] show ?thesis by (auto simp: cal_consts)
qed

end
