(* ===== verification/Thread.thy ===== *)
theory Thread
  imports SyncProps Cleanup Alloc
begin

text \<open>
  Threads: their control blocks (pth_tcb.c), cancellation (pth_cancel.c) and the operations of
  pth_lib.c on existing threads: joining, yielding, suspending, resuming, the end of a thread.

  The state is that of the synchronisation objects together with the thread-specific data, the
  clean-up handlers and the allocator.  A thread is the address of its control block.  What runs
  while a thread is switched out, the code of destructors and clean-up handlers, \<open>mmap\<close> and
  the size of a control block are parameters; destructors and handlers act on the data of their
  component.  The word at the end of a stack that the scheduler checks is in \<open>stack_word\<close>.
\<close>

record ('w, 'k) threnv = "('w, 'k) condenv" +
  e_mmap :: "nat \<Rightarrow> calworld \<Rightarrow> nat option"
  e_sizeof_tcb :: u32
  e_sp :: "'w \<Rightarrow> nat"
  e_destr :: "nat \<Rightarrow> nat \<Rightarrow> keyworld \<Rightarrow> keyworld"
  e_handler :: "nat \<Rightarrow> nat \<Rightarrow> cleanworld \<Rightarrow> cleanworld"
  e_switch :: "'w \<times> 'k \<Rightarrow> 'w \<times> 'k"

record tworld = sworld +
  keys :: keyworld
  cleans :: cleanworld
  mem :: calworld
  stack_word :: "nat \<Rightarrow> u32"
  pth_main :: nat
  pth_threads_count :: int
  pth_exit_count :: int
  pth_max_native_threads :: int
  pth_threads_per_native :: int
  pth_default_stacksize :: int
  pth_native_lock :: pth_qlock_st
  pth_exit_lock :: pth_qlock_st
  once_init_lock :: pth_qlock_st
  oncectrl :: "nat \<Rightarrow> bool"

type_synonym ('a, 'k) tstate = "('a tworld_scheme) \<times> 'k"

definition lock_native :: "nat \<Rightarrow> ('a tworld_scheme) \<Rightarrow> ('a tworld_scheme) option" where
  "lock_native lk w = map_option (\<lambda>l. w\<lparr>pth_native_lock := l\<rparr>) (pth_acquire_lock lk (pth_native_lock w))"

definition unlock_native :: "nat \<Rightarrow> ('a tworld_scheme) \<Rightarrow> ('a tworld_scheme)" where
  "unlock_native lk w = w\<lparr>pth_native_lock := snd (pth_release_lock lk (pth_native_lock w))\<rparr>"

definition lock_sched :: "nat \<Rightarrow> nat \<Rightarrow> ('a world_scheme) \<Rightarrow> ('a world_scheme) option" where
  "lock_sched d lk w = map_option (\<lambda>l. upd_native d (\<lambda>x. x\<lparr>sched_lock := l\<rparr>) w) (pth_acquire_lock lk (sched_lock (natives w d)))"

definition unlock_sched :: "nat \<Rightarrow> nat \<Rightarrow> ('a world_scheme) \<Rightarrow> ('a world_scheme)" where
  "unlock_sched d lk w = upd_native d (\<lambda>x. x\<lparr>sched_lock := snd (pth_release_lock lk (sched_lock x))\<rparr>) w"

text \<open>The first native, the group leader, and the threads that are not dead.\<close>

definition pth_first_native :: nat where "pth_first_native = 1"

definition native_is_group_leader :: "nat \<Rightarrow> bool" where
  "native_is_group_leader d \<longleftrightarrow> d = pth_first_native"

definition pth_active_threads :: "('a tworld_scheme) \<Rightarrow> int" where
  "pth_active_threads w = pth_threads_count w - int (unat (pqueue_total pth_DQ (qw w)))"

definition thread_exists :: "('w, 'k) threnv \<Rightarrow> nat \<Rightarrow> ('a tworld_scheme) \<Rightarrow> bool option" where
  "thread_exists E t w =
     (if t = 0 then Some False
      else do { ok \<leftarrow> cal_verify_pointer t (e_sizeof_tcb E) (mem w);
                Some (ok \<and> magic (threads w t)) })"

subsection \<open>Control blocks\<close>

definition zero_lock :: pth_qlock_st where
  "zero_lock = \<lparr>spinlock = \<lparr>lock = 0\<rparr>, owner = 0, qcount = 0\<rparr>"

text \<open>A control block as the allocator returns it, filled with zeros.\<close>

definition zero_thread :: pth_st where
  "zero_thread = \<lparr>mctx_sigs = 0, magic = False, boundnative = 0, lastrannative = 0, t_stack = 0, true_stack = 0, t_sp = 0,
     stackbottom = 0, stacksize = 0, stackguard = 0, start_func = 0, start_arg = 0, sprio = 0, schedpolicy = 0, scope = 0,
     inheritsched = 0, t_name = [], tstate = PTH_STATE_SCHEDULER, stackloan = False, should_suspend = False,
     cancelreq = False, ptrfixed = False, t_spawned = 0, t_lastran = 0, t_running = 0, t_events = 0, t_sigpending = 0,
     sigpendcnt = 0, sigthread = 0, joinable = 0, join_arg = 0, cancelstate = 0,
     mutexring = \<lparr>r_hook = 0, r_nodes = 0\<rparr>, tlock = zero_lock, sigactionmask = 0, joined_count = 0, joined_native = 0,
     joined_thread = 0, waited_native = 0, mutex_owned = 0, event_data = None, event_count = 0\<rparr>"

definition SIGSTKSZ :: u32 where "SIGSTKSZ = 8192"

text \<open>A zeroed control block and the members that are set before the stack is made.\<close>

definition tcb_init :: "nat \<Rightarrow> bool \<Rightarrow> u32 \<Rightarrow> nat \<Rightarrow> ('a tworld_scheme) \<Rightarrow> ('a tworld_scheme)" where
  "tcb_init t fixed ssz stackaddr w =
     w\<lparr>threads := (threads w)(t := zero_thread\<lparr>ptrfixed := fixed, stacksize := ssz, stackloan := stackaddr \<noteq> 0,
                     tlock := pth_qlock_init zero_lock\<rparr>),
       keys := (keys w)\<lparr>data_value := (data_value (keys w))(t := None), data_count := (data_count (keys w))(t := 0)\<rparr>,
       cleans := (cleans w)\<lparr>cleanups := (cleanups (cleans w))(t := None), cleanup_count := (cleanup_count (cleans w))(t := 0)\<rparr>,
       elems := (elems w)(Elem t := \<lparr>th_next = ENull, th_prev = ENull\<rparr>),
       thread_queue := lnode_init (TqNode t) (thread_queue w),
       qw := node_init t (upd_node t (\<lambda>_. \<lparr>bp = NoQ, priority = 0, node_lt = node_lt_nowhere\<rparr>) (qw w))\<rparr>"

text \<open>The stack: the caller's, or an allocated one; the result is \<open>False\<close> if there is no memory.\<close>

definition tcb_stack :: "('w, 'k) threnv \<Rightarrow> nat \<Rightarrow> nat \<Rightarrow> ('a tworld_scheme) \<Rightarrow> (bool \<times> ('a tworld_scheme)) option" where
  "tcb_stack E t stackaddr w =
     (if stackaddr \<noteq> 0 then Some (True, upd_thread t (\<lambda>x. x\<lparr>t_stack := stackaddr, true_stack := stackaddr\<rparr>) w)
      else do { (stack, m1) \<leftarrow> pth_malloc (e_mmap E) (stacksize (threads w t) + 8) (mem w);
                if stack = 0
                then do { m2 \<leftarrow> pth_free_mem t (e_sizeof_tcb E + 8) m1; Some (False, w\<lparr>mem := m2\<rparr>) }
                else Some (True, upd_thread t (\<lambda>x. x\<lparr>true_stack := stack, t_stack := (if stack mod 16 \<noteq> 0 then stack + 8 else stack)\<rparr>)
                                   (w\<lparr>mem := m1\<rparr>)) })"

definition pth_tcb_alloc :: "('a tworld_scheme, 'k) threnv \<Rightarrow> u32 \<Rightarrow> nat \<Rightarrow> ('a tworld_scheme) \<Rightarrow> (nat \<times> ('a tworld_scheme)) option" where
  "pth_tcb_alloc E ssz0 stackaddr w =
     do { let ssz = (if ssz0 > 0 \<and> ssz0 < SIGSTKSZ then SIGSTKSZ else ssz0);
          (p, m1) \<leftarrow> pth_malloc (e_mmap E) (e_sizeof_tcb E + 8) (mem w);
          let w1 = w\<lparr>mem := m1\<rparr>;
          if p = 0 then Some (0, w1)
          else do { let t = (if p mod 16 \<noteq> 0 then p + 8 else p);
                    let w2 = tcb_init t (p mod 16 \<noteq> 0) ssz stackaddr w1;
                    if ssz > 0 then
                      do { (ok, w3) \<leftarrow> tcb_stack E t stackaddr w2;
                           if \<not> ok then Some (0, w3)
                           else do { let st = t_stack (threads w3 t);
                                     let w4 = upd_thread t (\<lambda>x. x\<lparr>stackguard := st, stackbottom := st + unat ssz\<rparr>) w3;
                                     Some (t, w4\<lparr>stack_word := (stack_word w4)(st := 0xDEAD)\<rparr>) } }
                    else Some (t, upd_thread t (\<lambda>x. x\<lparr>true_stack := 0, t_sp := e_sp E w2\<rparr>) w2) } }"

text \<open>
  The loop over the natives that forgets a timer for the thread; \<open>d\<close> is the native looked at
  last, which the variable \<open>descr\<close> is left with.
\<close>

fun forget_timer :: "nat list \<Rightarrow> nat \<Rightarrow> nat \<Rightarrow> nat \<Rightarrow> ('a world_scheme) \<Rightarrow> (nat \<times> ('a world_scheme)) option" where
  "forget_timer [] t lk d w = None"
| "forget_timer (e # es) t lk d w =
     (if \<not> is_used (natives w e) then Some (d, w)
      else if is_bounded (natives w e) then forget_timer es t lk e w
      else if nexttimer_thread (natives w e) = t \<and> tid (natives w e) \<noteq> lk
      then forget_timer es t lk e (upd_native e (\<lambda>x. x\<lparr>nexttimer_thread := 0\<rparr>) w)
      else forget_timer es t lk e w)"

definition all_natives :: "nat list" where
  "all_natives = [1..<Suc PTH_MAX_NATIVE_THREADS]"

text \<open>Destructors and handlers of the thread, its bound native and its place in a waiting list.\<close>

definition tcb_release :: "('a tworld_scheme, 'k) threnv \<Rightarrow> nat \<Rightarrow> nat \<Rightarrow> ('a tworld_scheme) \<Rightarrow> ('a tworld_scheme) option" where
  "tcb_release E d t w =
     do { let cur = current (natives w d);
          m1 \<leftarrow> (if true_stack (threads w t) \<noteq> 0 \<and> \<not> stackloan (threads w t) \<and> t \<noteq> cur
                 then pth_free_mem (true_stack (threads w t)) (stacksize (threads w t) + 8) (mem w) else Some (mem w));
          k2 \<leftarrow> (if data_value (keys w) t \<noteq> None then pth_key_destroydata (e_destr E) (\<lambda>_. tid (natives w d)) t (keys w) else Some (keys w));
          w3 \<leftarrow> (if event_data (threads w t) \<noteq> None then pth_event_key_destroy t (w\<lparr>mem := m1, keys := k2\<rparr>) else Some (w\<lparr>mem := m1, keys := k2\<rparr>));
          c4 \<leftarrow> (if cleanups (cleans w3) t \<noteq> None then pth_cleanup_popall (e_handler E) cur t False (cleans w3) else Some (cleans w3));
          let w4 = w3\<lparr>cleans := c4\<rparr>;
          let ds = boundnative (threads w4 t);
          let w5 = (if ds \<noteq> 0 \<and> is_bounded (natives w4 ds) then upd_native ds (\<lambda>x. x\<lparr>bounded_thread := 0\<rparr>) w4 else w4);
          Some (if enext (elems w5) (Elem t) \<noteq> ENull then w5\<lparr>elems := pth_element_delete (Elem t) (elems w5)\<rparr> else w5) }"

text \<open>\<open>scheduler\<close> is the address of \<open>pth_scheduler\<close>.\<close>

definition pth_tcb_free :: "('a tworld_scheme, 'k) threnv \<Rightarrow> nat \<Rightarrow> nat \<Rightarrow> nat \<Rightarrow> ('a tworld_scheme) \<Rightarrow> ('a tworld_scheme) option" where
  "pth_tcb_free E scheduler d t w =
     (if t = 0 then Some w
      else do { let lk = tid (natives w d);
                w1 \<leftarrow> lock_thread t lk w;
                w2 \<leftarrow> tcb_release E d t w1;
                let w3 = unlock_thread t lk w2;
                (d4, w4) \<leftarrow> forget_timer all_natives t lk d w3;
                w5 \<leftarrow> (if start_func (threads w4 t) \<noteq> scheduler
                       then do { v1 \<leftarrow> lock_native lk w4;
                                 let v2 = thread_queue_remove t v1;
                                 Some (unlock_native lk (v2\<lparr>pth_threads_count := pth_threads_count v2 - 1\<rparr>)) }
                       else Some w4);
                let w6 = (if pth_exit_count w5 > 0 \<and> t = current (natives w5 d4) \<and> d4 = pth_first_native
                          then upd_native d4 (\<lambda>x. x\<lparr>current := 0\<rparr>) w5 else w5);
                m7 \<leftarrow> pth_free_mem (if ptrfixed (threads w6 t) then t - 8 else t) (e_sizeof_tcb E + 8) (mem w6);
                Some (w6\<lparr>mem := m7\<rparr>) })"

subsection \<open>Yielding, suspending and resuming\<close>

text \<open>The result is always TRUE.\<close>

definition pth_yield :: "('a tworld_scheme, 'k) threnv \<Rightarrow> (('a, 'k) tstate \<Rightarrow> nat) \<Rightarrow> nat \<Rightarrow> ('a, 'k) tstate \<Rightarrow> ('a, 'k) tstate option" where
  "pth_yield E self to s =
     do { let (w, k) = s;
          let d = self s;
          let lk = tid (natives w d);
          let bn = boundnative (threads w to);
          if to = current (natives w d) then Some s
          else if to \<noteq> 0 \<and> bn \<noteq> 0 \<and> is_bounded (natives w bn) then
            do { w1 \<leftarrow> lock_sched bn lk w;
                 w2 \<leftarrow> (if to \<noteq> current (natives w1 d) then upd_qw (pqueue_favor to) w1 else Some w1);
                 Some (unlock_sched bn lk (write_sigpipe bn w2), k) }
          else do { w1 \<leftarrow> (if to \<noteq> 0 then upd_qw (pqueue_favor to) w else Some w);
                    w2 \<leftarrow> lock_sched d lk w1;
                    Some (e_switch E (w2, k)) } }"

text \<open>The waiting queues of the natives.\<close>

fun WQ_count_loop :: "nat list \<Rightarrow> u32 \<Rightarrow> ('a world_scheme) \<Rightarrow> u32 option" where
  "WQ_count_loop [] c w = None"
| "WQ_count_loop (d # ds) c w =
     (if \<not> is_used (natives w d) then Some c else WQ_count_loop ds (c + pqueue_total (wait_queue d) (qw w)) w)"

definition pth_WQ_count :: "('a world_scheme) \<Rightarrow> u32 option" where
  "pth_WQ_count w = map_option (\<lambda>c. c + pqueue_total pth_WQ (qw w)) (WQ_count_loop all_natives 0 w)"

fun WQ_delete_loop :: "nat list \<Rightarrow> nat \<Rightarrow> ('a world_scheme) \<Rightarrow> (bool \<times> ('a world_scheme)) option" where
  "WQ_delete_loop [] t w = None"
| "WQ_delete_loop (d # ds) t w =
     (if \<not> is_used (natives w d) then Some (False, w)
      else if pqueue_contains_nolock (wait_queue d) t (qw w) then
        do { w1 \<leftarrow> upd_qw (spin_lock_pq (wait_queue d)) w;
             w2 \<leftarrow> upd_qw (pqueue_delete_node_nolock t) w1;
             let w3 = upd_thread t (\<lambda>x. x\<lparr>waited_native := 0\<rparr>) w2;
             Some (True, w3\<lparr>qw := spin_unlock_pq (wait_queue d) (qw w3)\<rparr>) }
      else WQ_delete_loop ds t w)"

definition pth_WQ_delete :: "nat \<Rightarrow> ('a world_scheme) \<Rightarrow> (bool \<times> ('a world_scheme)) option" where
  "pth_WQ_delete t w = WQ_delete_loop all_natives t w"

text \<open>
  The queue of a thread according to its state, of which \<open>pth_suspend\<close> takes it and to which
  \<open>pth_resume\<close> gives it back; \<open>wq\<close> is the waiting queue the functions name.
\<close>

definition queue_of_state :: "nat \<Rightarrow> nat \<Rightarrow> nat \<Rightarrow> ('a world_scheme) \<Rightarrow> nat option" where
  "queue_of_state d t wq w =
     (let bn = boundnative (threads w t); st = tstate (threads w t); many = pth_number_of_natives w > 1 in
      if bn \<noteq> 0 \<and> is_bounded (natives w bn) then
        (if st = PTH_STATE_NEW then Some (ready_queue bn)
         else if st = PTH_STATE_WAITING then Some (wait_queue bn) else None)
      else if st = PTH_STATE_NEW then Some (if many then pth_NQ else new_queue d)
      else if st = PTH_STATE_READY then Some (if many then pth_RQ else ready_queue d)
      else if st = PTH_STATE_WAITING then Some wq
      else None)"

definition pth_suspend :: "nat \<Rightarrow> nat \<Rightarrow> ('a world_scheme) \<Rightarrow> (int \<times> ('a world_scheme)) option" where
  "pth_suspend d t w =
     (let bn = boundnative (threads w t) in
      if t = 0 then Some (EINVAL, w)
      else if t = current (natives w d) then Some (EPERM, w)
      else if sched (natives w d) = t then Some (EPERM, w)
      else if \<exists>e \<in> set [1..<Suc (pth_number_of_natives w)]. t = current (natives w e)
      then Some (EINPROGRESS, upd_thread t (\<lambda>x. x\<lparr>should_suspend := True\<rparr>) w)
      else case queue_of_state d t pth_WQ w of
        None \<Rightarrow> Some (EPERM, w)
      | Some q \<Rightarrow>
          if \<not> (bn \<noteq> 0 \<and> is_bounded (natives w bn)) \<and> tstate (threads w t) = PTH_STATE_WAITING then
            do { (found, w1) \<leftarrow> pth_WQ_delete t w;
                 if \<not> found then Some (ESRCH, w1)
                 else do { w2 \<leftarrow> upd_qw (pqueue_append_node pth_SQ t) w1; Some (0, w2) } }
          else if \<not> pqueue_contains_nolock q t (qw w) then Some (ESRCH, w)
          else do { w1 \<leftarrow> upd_qw (pqueue_delete_node t) w;
                    w2 \<leftarrow> upd_qw (pqueue_append_node pth_SQ t) w1;
                    Some (0, w2) })"

definition pth_resume :: "('a tworld_scheme, 'k) threnv \<Rightarrow> (('a, 'k) tstate \<Rightarrow> nat) \<Rightarrow> nat \<Rightarrow> ('a, 'k) tstate \<Rightarrow> (int \<times> ('a, 'k) tstate) option" where
  "pth_resume E self t s =
     (let (w, k) = s; d = self s in
      if t = 0 \<or> d = 0 then Some (EINVAL, s)
      else if t = current (natives w d) then Some (EPERM, s)
      else if sched (natives w d) = t then Some (EPERM, s)
      else if \<not> pqueue_contains_nolock pth_SQ t (qw w) then Some (EPERM, s)
      else do { w1 \<leftarrow> upd_qw (pqueue_delete_node t) w;
                case queue_of_state d t (wait_queue d) w1 of
                  None \<Rightarrow> Some (EPERM, w1, k)
                | Some q \<Rightarrow> do { w2 \<leftarrow> upd_qw (pqueue_append_node q t) w1;
                                s3 \<leftarrow> pth_yield E self t (w2, k);
                                Some (0, s3) } })"

subsection \<open>The end of a thread\<close>

datatype thread_end = ThreadEnds | ProcessEnds

definition pth_thread_cleanup :: "('a tworld_scheme, 'k) threnv \<Rightarrow> (('a, 'k) tstate \<Rightarrow> nat) \<Rightarrow> nat \<Rightarrow> ('a, 'k) tstate \<Rightarrow> ('a, 'k) tstate option" where
  "pth_thread_cleanup E self t s =
     do { let (w, k) = s;
          let d = self s;
          c1 \<leftarrow> (if cleanups (cleans w) t \<noteq> None
                 then pth_cleanup_popall (e_handler E) (current (natives w d)) t True (cleans w) else Some (cleans w));
          let s1 = (w\<lparr>cleans := c1\<rparr>, k);
          pth_mutex_releaseall (sysenv.truncate E) (tid (natives (fst s1) (self s1))) (self s1) t s1 }"

text \<open>
  \<open>ThreadEnds\<close> is the switch into the scheduler, which does not come back, and
  \<open>ProcessEnds\<close> the call of \<open>exit\<close>.
\<close>

definition pth_exit :: "('a tworld_scheme, 'k) threnv \<Rightarrow> (('a, 'k) tstate \<Rightarrow> nat) \<Rightarrow> nat \<Rightarrow> bool \<Rightarrow> ('a, 'k) tstate
    \<Rightarrow> (thread_end \<times> ('a, 'k) tstate) option" where
  "pth_exit E self value wait_flag s =
     (let w = fst s; t = current (natives w (self s)) in
      if \<not> (t = pth_main w \<and> \<not> wait_flag) \<and> pth_active_threads w > 1 then
        do { (d, w1, k1) \<leftarrow>
               (if tstate (threads w t) \<noteq> PTH_STATE_DEAD then
                  do { s1 \<leftarrow> pth_thread_cleanup E self t s;
                       Some (self s1, upd_thread t (\<lambda>x. x\<lparr>join_arg := value, tstate := PTH_STATE_EXIT\<rparr>) (fst s1), snd s1) }
                else Some (self s, s));
             w2 \<leftarrow> lock_sched d (tid (natives w1 d)) w1;
             Some (ThreadEnds, w2, k1) }
      else do { s1 \<leftarrow> pth_thread_cleanup E self t s; Some (ProcessEnds, s1) })"

definition pth_exit_cb :: "('a tworld_scheme) \<Rightarrow> bool" where
  "pth_exit_cb w \<longleftrightarrow> pth_active_threads w = 1"

subsection \<open>Cancellation\<close>

text \<open>The address \<open>(void * ) -1\<close>.\<close>

definition PTH_CANCELED :: nat where "PTH_CANCELED = 2 ^ 32 - 1"

text \<open>\<open>None\<close> as the first result: the function returns.\<close>

definition pth_cancel_point :: "('a tworld_scheme, 'k) threnv \<Rightarrow> (('a, 'k) tstate \<Rightarrow> nat) \<Rightarrow> bool \<Rightarrow> ('a, 'k) tstate
    \<Rightarrow> (thread_end option \<times> ('a, 'k) tstate) option" where
  "pth_cancel_point E self set_yield s =
     (let w = fst s; d = self s; t = current (natives w d) in
      if cancelreq (threads w t) \<and> has (cancelstate (threads w t)) PTH_CANCEL_ENABLE then
        map_option (\<lambda>(e, s1). (Some e, s1)) (pth_exit E self PTH_CANCELED False (upd_thread t (\<lambda>x. x\<lparr>cancelreq := False\<rparr>) w, snd s))
      else Some (None, if set_yield then upd_native d (\<lambda>x. x\<lparr>do_yield := True\<rparr>) w else w, snd s))"

text \<open>A thread that has not run yet is taken from the queue \<open>q\<close> and ends.\<close>

definition cancel_new :: "('a tworld_scheme, 'k) threnv \<Rightarrow> (('a, 'k) tstate \<Rightarrow> nat) \<Rightarrow> nat \<Rightarrow> nat \<Rightarrow> nat \<Rightarrow> ('a, 'k) tstate
    \<Rightarrow> (bool \<times> ('a, 'k) tstate) option" where
  "cancel_new E self scheduler q t s =
     do { let (w, k) = s;
          w1 \<leftarrow> upd_qw (spin_lock_pq q) w;
          if \<not> pqueue_contains_nolock q t (qw w1) then Some (False, w1\<lparr>qw := spin_unlock_pq q (qw w1)\<rparr>, k)
          else do { w2 \<leftarrow> upd_qw (pqueue_delete_node_nolock t) w1;
                    (w3, k3) \<leftarrow> pth_thread_cleanup E self t (w2\<lparr>qw := spin_unlock_pq q (qw w2)\<rparr>, k);
                    if joinable (threads w3 t) = 0 then
                      do { w4 \<leftarrow> pth_tcb_free E scheduler (self (w3, k3)) t w3; Some (True, w4, k3) }
                    else do { let w4 = upd_thread t (\<lambda>x. x\<lparr>join_arg := PTH_CANCELED\<rparr>) w3;
                              w5 \<leftarrow> upd_qw (spin_lock_pq pth_DQ) w4;
                              let w6 = upd_thread t (\<lambda>x. x\<lparr>tstate := PTH_STATE_DEAD\<rparr>) w5;
                              w7 \<leftarrow> upd_qw (pqueue_append_node_nolock pth_DQ t) w6;
                              let jn = joined_native (threads w7 t);
                              let w8 = (if jn \<noteq> 0 then write_sigpipe jn w7 else w7);
                              Some (True, w8\<lparr>qw := spin_unlock_pq pth_DQ (qw w8)\<rparr>, k3) } } }"

text \<open>\<open>Inl\<close> is a thread that has cancelled itself and does not come back.\<close>

definition pth_cancel :: "('a tworld_scheme, 'k) threnv \<Rightarrow> (('a, 'k) tstate \<Rightarrow> nat) \<Rightarrow> nat \<Rightarrow> nat \<Rightarrow> ('a, 'k) tstate
    \<Rightarrow> ((thread_end + bool) \<times> ('a, 'k) tstate) option" where
  "pth_cancel E self scheduler t s =
     do { let (w, k) = s;
          let d = self s;
          ex \<leftarrow> thread_exists E t w;
          if \<not> ex then Some (Inr False, s)
          else if tstate (threads w t) = PTH_STATE_DEAD \<or> cancelreq (threads w t) then Some (Inr True, s)
          else do { let w1 = upd_thread t (\<lambda>x. x\<lparr>cancelreq := True\<rparr>) w;
                    let ds = boundnative (threads w1 t);
                    let bound = (ds \<noteq> 0 \<and> is_bounded (natives w1 ds));
                    let w2 = (if bound \<and> \<not> is_bound (natives w1 ds) then write_sigpipe ds w1 else w1);
                    let st = tstate (threads w2 t);
                    if \<not> (has (cancelstate (threads w2 t)) PTH_CANCEL_ENABLE \<and> has (cancelstate (threads w2 t)) PTH_CANCEL_ASYNCHRONOUS)
                    then Some (Inr True, w2, k)
                    else if t = current (natives w2 d) then
                      do { (e, s3) \<leftarrow> pth_cancel_point E self False (w2, k);
                           Some (case e of None \<Rightarrow> Inr True | Some e1 \<Rightarrow> Inl e1, s3) }
                    else if bound \<and> st \<noteq> PTH_STATE_NEW then Some (Inr True, w2, k)
                    else if \<not> bound \<and> st \<in> {PTH_STATE_READY, PTH_STATE_WAITING, PTH_STATE_MUTEX_WAITING} then Some (Inr True, w2, k)
                    else if \<not> bound \<and> st \<noteq> PTH_STATE_NEW then Some (Inr False, w2, k)
                    else do { let q = (if bound then ready_queue ds
                                       else if pth_number_of_natives w2 > 1 then pth_NQ else new_queue d);
                              (r, s3) \<leftarrow> cancel_new E self scheduler q t (w2, k);
                              Some (Inr r, s3) } } }"

subsection \<open>Joining\<close>

definition lock_DQ :: "('a world_scheme) \<Rightarrow> ('a world_scheme) option" where
  "lock_DQ w = upd_qw (spin_lock_pq pth_DQ) w"

definition unlock_DQ :: "('a world_scheme) \<Rightarrow> ('a world_scheme)" where
  "unlock_DQ w = w\<lparr>qw := spin_unlock_pq pth_DQ (qw w)\<rparr>"

text \<open>A thread that is still alive is waited for; \<open>kv\<close> is the key variable of the static event.\<close>

definition join_wait :: "('a tworld_scheme, 'k) threnv \<Rightarrow> (('a, 'k) tstate \<Rightarrow> nat) \<Rightarrow> nat \<Rightarrow> nat \<Rightarrow> ('a, 'k) tstate \<Rightarrow> ('a, 'k) tstate option" where
  "join_wait E self kv t s =
     (let (w, k) = s; d = self s; cur = current (natives w d) in
      if tstate (threads w t) = PTH_STATE_DEAD then Some s
      else do { (ev, w1) \<leftarrow> pth_event (e_mem E) (\<lambda>w. fst (e_yield E (w, k))) (tid (natives w d)) cur
                  (set_flag PTH_MODE_STATIC (set_flag PTH_UNTIL_TID_DEAD PTH_EVENT_TID)) [VPtr kv, VPtr t] w;
                let w2 = upd_thread t (\<lambda>x. if is_bounded (natives w1 d) \<or> pth_number_of_natives w1 > 1 \<and> native_is_group_leader d
                                          then x\<lparr>joined_native := d\<rparr> else x\<lparr>joined_thread := cur\<rparr>) w1;
                let w3 = upd_thread t (\<lambda>x. x\<lparr>joined_count := joined_count x + 1\<rparr>) w2;
                (_, w4, k4) \<leftarrow> pth_wait (e_yield E) (e_cpoint E) cur ev (unlock_DQ w3, k);
                w5 \<leftarrow> lock_DQ w4;
                Some (w5, k4) })"

definition join_reap :: "('a tworld_scheme, 'k) threnv \<Rightarrow> (('a, 'k) tstate \<Rightarrow> nat) \<Rightarrow> nat \<Rightarrow> nat \<Rightarrow> ('a, 'k) tstate
    \<Rightarrow> (int \<times> nat option \<times> ('a, 'k) tstate) option" where
  "join_reap E self scheduler t s =
     (let (w, k) = s in
      if \<not> pqueue_contains_nolock pth_DQ t (qw w) then Some (ESRCH, None, unlock_DQ w, k)
      else let w1 = upd_thread t (\<lambda>x. x\<lparr>joined_count := joined_count x - 1\<rparr>) w in
           if joined_count (threads w1 t) > 0 then Some (ESRCH, None, unlock_DQ w1, k)
           else if tstate (threads w1 t) \<noteq> PTH_STATE_DEAD then Some (ESRCH, None, unlock_DQ w1, k)
           else do { let value = join_arg (threads w1 t);
                     w2 \<leftarrow> upd_qw (pqueue_delete_node_nolock t) w1;
                     let w3 = unlock_DQ w2;
                     w4 \<leftarrow> pth_tcb_free E scheduler (self (w3, k)) t w3;
                     Some (0, Some value, w4, k) })"

text \<open>The second result is what is stored in \<open>*value\<close>.\<close>

definition pth_join :: "('a tworld_scheme, 'k) threnv \<Rightarrow> (('a, 'k) tstate \<Rightarrow> nat) \<Rightarrow> nat \<Rightarrow> nat \<Rightarrow> nat \<Rightarrow> ('a, 'k) tstate
    \<Rightarrow> (int \<times> nat option \<times> ('a, 'k) tstate) option" where
  "pth_join E self scheduler kv t0 s =
     (let (w, k) = s in
      if t0 = current (natives w (self s)) then Some (EDEADLK, None, s)
      else do { (t, w1) \<leftarrow> (if t0 = 0 then map_option (\<lambda>(n, q). (thread_by_node n, w\<lparr>qw := q\<rparr>)) (pqueue_first_node pth_DQ (qw w))
                            else Some (t0, w));
                if t = 0 then Some (ESRCH, None, w1, k)
                else do { w2 \<leftarrow> lock_DQ w1;
                          ex \<leftarrow> thread_exists E t w2;
                          if \<not> ex then Some (ESRCH, None, unlock_DQ w2, k)
                          else if joinable (threads w2 t) = 0 then Some (EINVAL, None, unlock_DQ w2, k)
                          else if pth_threads_count w2 = 1 then Some (EDEADLK, None, unlock_DQ w2, k)
                          else do { s3 \<leftarrow> join_wait E self kv t (w2, k);
                                    join_reap E self scheduler t s3 } } })"

definition pth_abort :: "('a tworld_scheme, 'k) threnv \<Rightarrow> (('a, 'k) tstate \<Rightarrow> nat) \<Rightarrow> nat \<Rightarrow> nat \<Rightarrow> nat \<Rightarrow> ('a, 'k) tstate
    \<Rightarrow> ((thread_end + bool) \<times> ('a, 'k) tstate) option" where
  "pth_abort E self scheduler kv t s =
     (let (w, k) = s in
      if t = 0 then Some (Inr False, s)
      else if t = current (natives w (self s)) then Some (Inr False, s)
      else if tstate (threads w t) = PTH_STATE_DEAD \<and> joinable (threads w t) \<noteq> 0 then
        do { (r, _, s1) \<leftarrow> pth_join E self scheduler kv t s; Some (Inr (r \<noteq> 0), s1) }
      else pth_cancel E self scheduler t
             (upd_thread t (\<lambda>x. x\<lparr>joinable := 0, cancelstate := set_flag PTH_CANCEL_ASYNCHRONOUS PTH_CANCEL_ENABLE\<rparr>) w, k))"

end
