(* ===== verification/Lib.thy ===== *)
theory Lib
  imports Thread
begin

text \<open>
  The smaller operations of pth_lib.c: queries (\<open>pth_ctrl\<close>, stack and native of a thread), the
  search for the native that runs the caller, signals to threads, binding to a native, the mode of
  a file descriptor, naps and one-time initialisation.  \<open>sigaction\<close>, \<open>fcntl\<close> and the
  constructor of \<open>pth_once\<close> are parameters.
\<close>

definition PTH_CTRL_GETAVLOAD :: u32 where "PTH_CTRL_GETAVLOAD = BIT 1"
definition PTH_CTRL_GETPRIO :: u32 where "PTH_CTRL_GETPRIO = BIT 2"
definition PTH_CTRL_GETNAME :: u32 where "PTH_CTRL_GETNAME = BIT 3"
definition PTH_CTRL_GETTHREADS_NEW :: u32 where "PTH_CTRL_GETTHREADS_NEW = BIT 4"
definition PTH_CTRL_GETTHREADS_READY :: u32 where "PTH_CTRL_GETTHREADS_READY = BIT 5"
definition PTH_CTRL_GETTHREADS_RUNNING :: u32 where "PTH_CTRL_GETTHREADS_RUNNING = BIT 6"
definition PTH_CTRL_GETTHREADS_WAITING :: u32 where "PTH_CTRL_GETTHREADS_WAITING = BIT 7"
definition PTH_CTRL_GETTHREADS_SUSPENDED :: u32 where "PTH_CTRL_GETTHREADS_SUSPENDED = BIT 8"
definition PTH_CTRL_GETTHREADS_DEAD :: u32 where "PTH_CTRL_GETTHREADS_DEAD = BIT 9"
definition PTH_CTRL_GETTHREADS :: u32 where
  "PTH_CTRL_GETTHREADS = set_flag PTH_CTRL_GETTHREADS_NEW (set_flag PTH_CTRL_GETTHREADS_READY
     (set_flag PTH_CTRL_GETTHREADS_RUNNING (set_flag PTH_CTRL_GETTHREADS_WAITING
     (set_flag PTH_CTRL_GETTHREADS_SUSPENDED PTH_CTRL_GETTHREADS_DEAD))))"
definition PTH_CTRL_DUMPSTATE :: u32 where "PTH_CTRL_DUMPSTATE = BIT 10"

lemmas ctrl_flags = PTH_CTRL_GETAVLOAD_def PTH_CTRL_GETPRIO_def PTH_CTRL_GETNAME_def PTH_CTRL_GETTHREADS_NEW_def
  PTH_CTRL_GETTHREADS_READY_def PTH_CTRL_GETTHREADS_RUNNING_def PTH_CTRL_GETTHREADS_WAITING_def
  PTH_CTRL_GETTHREADS_SUSPENDED_def PTH_CTRL_GETTHREADS_DEAD_def PTH_CTRL_GETTHREADS_def PTH_CTRL_DUMPSTATE_def

subsection \<open>Queries\<close>

text \<open>The results: a number, the load average stored through the argument, or the name of a thread.\<close>

datatype ctrl_result = CNum int | CLoad | CName nat

fun running_loop :: "nat list \<Rightarrow> int \<Rightarrow> ('a world_scheme) \<Rightarrow> int option" where
  "running_loop [] c w = None"
| "running_loop (d # ds) c w =
     (if \<not> is_used (natives w d) then Some c
      else let t = current (natives w d)
           in running_loop ds (if t \<noteq> 0 \<and> t \<noteq> sched (natives w d) then c + 1 else c) w)"

text \<open>\<open>th\<close> is the thread given as the variable argument.\<close>

definition pth_ctrl :: "nat \<Rightarrow> u32 \<Rightarrow> nat \<Rightarrow> ('a tworld_scheme) \<Rightarrow> (ctrl_result \<times> ('a tworld_scheme)) option" where
  "pth_ctrl lk query th w =
     (let many = pth_max_native_threads w > 1; total = (\<lambda>q. CNum (int (unat (pqueue_total q (qw w))))) in
      if query = PTH_CTRL_GETTHREADS then Some (CNum (pth_threads_count w), w)
      else if has query PTH_CTRL_GETTHREADS_NEW then Some (total (if many then pth_NQ else new_queue 1), w)
      else if has query PTH_CTRL_GETTHREADS_READY then Some (total (if many then pth_RQ else ready_queue 1), w)
      else if has query PTH_CTRL_GETTHREADS_RUNNING then
        do { w1 \<leftarrow> lock_native lk w; c \<leftarrow> running_loop all_natives 0 w1; Some (CNum c, unlock_native lk w1) }
      else if has query PTH_CTRL_GETTHREADS_WAITING then map_option (\<lambda>c. (CNum (int (unat c)), w)) (pth_WQ_count w)
      else if has query PTH_CTRL_GETTHREADS_SUSPENDED then Some (total pth_SQ, w)
      else if has query PTH_CTRL_GETTHREADS_DEAD then Some (total pth_DQ, w)
      else if has query PTH_CTRL_GETAVLOAD then Some (CLoad, w)
      else if has query PTH_CTRL_GETPRIO then Some (CNum (thread_prio_get_nolock th w), w)
      else if has query PTH_CTRL_GETNAME then Some (CName th, w)
      else if has query PTH_CTRL_DUMPSTATE then Some (CNum 0, w)
      else Some (CNum (-1), w))"

text \<open>The size stored through the argument (if there is one) and the result; FALSE is 0.\<close>

definition pth_getstacksize :: "('w, 'k) threnv \<Rightarrow> nat \<Rightarrow> bool \<Rightarrow> ('a tworld_scheme) \<Rightarrow> (u32 \<times> u32 option) option" where
  "pth_getstacksize E t has_size w =
     (if \<not> has_size \<or> t = 0 then Some (0, None)
      else do { ex \<leftarrow> thread_exists E t w;
                if \<not> ex then Some (0, None)
                else Some (if stacksize (threads w t) \<noteq> 0 then stacksize (threads w t) else 2048 * 1024,
                           Some (stacksize (threads w t))) })"

definition pth_getsp :: "('w, 'k) threnv \<Rightarrow> nat \<Rightarrow> ('a tworld_scheme) \<Rightarrow> nat option" where
  "pth_getsp E t w =
     (if t = 0 then Some 0
      else do { ex \<leftarrow> thread_exists E t w;
                Some (if \<not> ex then 0 else if t_stack (threads w t) \<noteq> 0 then t_stack (threads w t) else t_sp (threads w t)) })"

subsection \<open>Natives\<close>

definition pth_set_current :: "nat \<Rightarrow> nat \<Rightarrow> ('a world_scheme) \<Rightarrow> nat \<times> ('a world_scheme)" where
  "pth_set_current d t w = (if d \<noteq> 0 then (t, upd_native d (\<lambda>x. x\<lparr>current := t\<rparr>) w) else (0, w))"

definition natives_in_use :: "('a world_scheme) \<Rightarrow> nat list" where
  "natives_in_use w = [1..<Suc (pth_number_of_natives w)]"

definition pth_find_native_by_tid :: "nat \<Rightarrow> ('a world_scheme) \<Rightarrow> nat" where
  "pth_find_native_by_tid i w =
     (case find (\<lambda>d. is_used (natives w d) \<and> tid (natives w d) = i) (natives_in_use w) of None \<Rightarrow> 0 | Some d \<Rightarrow> d)"

text \<open>The address \<open>sp\<close> is in the stack of the thread that the native runs.\<close>

definition sp_on :: "nat \<Rightarrow> nat \<Rightarrow> ('a world_scheme) \<Rightarrow> bool" where
  "sp_on sp d w \<longleftrightarrow> is_used (natives w d) \<and> current (natives w d) \<noteq> 0
     \<and> sp \<le> stackbottom (threads w (current (natives w d))) \<and> t_stack (threads w (current (natives w d))) \<le> sp"

text \<open>The native of the caller, whose stack pointer is \<open>sp\<close> and whose kernel thread is \<open>gettid\<close>.\<close>

definition get_native_descr :: "nat \<Rightarrow> nat \<Rightarrow> ('a tworld_scheme) \<Rightarrow> (nat \<times> ('a tworld_scheme)) option" where
  "get_native_descr sp gettid w =
     (if current (natives w pth_first_native) = 0 then Some (pth_first_native, w)
      else case find (\<lambda>d. sp_on sp d w) (natives_in_use w) of
             Some d \<Rightarrow> Some (d, w)
           | None \<Rightarrow> do { w1 \<leftarrow> lock_native gettid w;
                         Some (pth_find_native_by_tid gettid w1, unlock_native gettid w1) })"

definition pth_primordial_thread :: "('a world_scheme) \<Rightarrow> nat" where
  "pth_primordial_thread w = (if \<not> is_used (natives w pth_first_native) then 0 else pth_first_native)"

definition pth_bindtonative :: "nat \<Rightarrow> nat \<Rightarrow> ('a tworld_scheme) \<Rightarrow> bool \<times> ('a tworld_scheme)" where
  "pth_bindtonative d t w =
     (if pth_max_native_threads w = 1 then (False, w)
      else if is_bounded (natives w d) then (True, w)
      else if t = 0 \<or> native_is_group_leader d then (False, w)
      else if pqueue_total (wait_queue d) (qw w) \<noteq> 0 then (False, w)
      else let w1 = upd_thread t (\<lambda>x. x\<lparr>boundnative := d\<rparr>) w;
               w2 = upd_native d (\<lambda>x. x\<lparr>is_bounded := True, bounded_thread := t\<rparr>) w1
           in (True, w2\<lparr>pth_max_native_threads := pth_max_native_threads w2 + 1\<rparr>))"

subsection \<open>Signals to threads\<close>

definition SIGSTOP :: int where "SIGSTOP = 19"

text \<open>
  Signal \<open>sig\<close> is bit \<open>sig - 1\<close> of the pending signals.  \<open>sigaction sig\<close> is \<open>None\<close> if
  the call fails, and otherwise whether the signal is ignored; \<open>NSIG\<close> is \<open>PTH_NSIG\<close>.
\<close>

definition raise_mark :: "nat \<Rightarrow> int \<Rightarrow> pth_st \<Rightarrow> pth_st" where
  "raise_mark cur sig x =
     (if bit (t_sigpending x) (nat sig - 1) then x
      else x\<lparr>t_sigpending := or (t_sigpending x) (push_bit (nat sig - 1) 1), sigpendcnt := sigpendcnt x + 1, sigthread := cur\<rparr>)"

definition pth_raise :: "('a tworld_scheme, 'k) threnv \<Rightarrow> (('a, 'k) tstate \<Rightarrow> nat) \<Rightarrow> (int \<Rightarrow> bool option) \<Rightarrow> int \<Rightarrow> nat \<Rightarrow> int
    \<Rightarrow> ('a, 'k) tstate \<Rightarrow> (int \<times> ('a, 'k) tstate) option" where
  "pth_raise E self sigaction NSIG t sig s =
     do { let (w, k) = s;
          ex \<leftarrow> thread_exists E t w;
          if \<not> ex then Some (ESRCH, s)
          else if sig < 0 \<or> sig > NSIG then Some (EINVAL, s)
          else if sig = 0 then Some (0, s)
          else case sigaction sig of
            None \<Rightarrow> Some (EINVAL, s)
          | Some ignored \<Rightarrow>
              if ignored then Some (0, s)
              else do { let d = self s;
                        let cur = current (natives w d);
                        let lk = tid (natives w d);
                        w1 \<leftarrow> lock_thread t lk w;
                        let w2 = unlock_thread t lk (upd_thread t (raise_mark cur sig) w1);
                        let save_native = boundnative (threads w2 cur);
                        let w3 = (if sig = SIGSTOP \<and> \<not> native_is_group_leader d \<and> save_native = 0
                                  then upd_thread cur (\<lambda>x. x\<lparr>boundnative := pth_first_native\<rparr>) w2 else w2);
                        (w4, k4) \<leftarrow> pth_yield E self (if t \<noteq> cur then t else 0) (w3, k);
                        let w5 = upd_thread t (\<lambda>x. x\<lparr>sigthread := 0\<rparr>) w4;
                        Some (0, upd_thread cur (\<lambda>x. x\<lparr>boundnative := save_native\<rparr>) w5, k4) } }"

subsection \<open>File descriptors, naps and one-time initialisation\<close>

datatype fdmode = PTH_FDMODE_ERROR | PTH_FDMODE_POLL | PTH_FDMODE_BLOCK | PTH_FDMODE_NONBLOCK

definition O_NONBLOCKING :: u32 where "O_NONBLOCKING = BIT 11"

text \<open>
  \<open>getfl\<close> is the result of \<open>fcntl (fd, F_GETFL)\<close>, \<open>None\<close> for -1; the second result is
  the argument of \<open>fcntl (fd, F_SETFL, ...)\<close> if it is called.
\<close>

definition pth_fdmode :: "u32 option \<Rightarrow> fdmode \<Rightarrow> fdmode \<times> u32 option" where
  "pth_fdmode getfl newmode =
     (case getfl of
        None \<Rightarrow> (PTH_FDMODE_ERROR, None)
      | Some m \<Rightarrow>
          if has m O_NONBLOCKING
          then (PTH_FDMODE_NONBLOCK, if newmode = PTH_FDMODE_BLOCK then Some (clear_flag O_NONBLOCKING m) else None)
          else (PTH_FDMODE_BLOCK, if newmode = PTH_FDMODE_NONBLOCK then Some (set_flag O_NONBLOCKING m) else None))"

definition pth_nap :: "('a tworld_scheme, 'k) threnv \<Rightarrow> (('a, 'k) tstate \<Rightarrow> nat) \<Rightarrow> nat \<Rightarrow> pth_time_t \<Rightarrow> ('a, 'k) tstate
    \<Rightarrow> (bool \<times> ('a, 'k) tstate) option" where
  "pth_nap E self kv naptime s =
     (if naptime = pth_time_zero then Some (False, s)
      else do { let (w, k) = s;
                let d = self s;
                let cur = current (natives w d);
                let until = pth_time_add (e_now E k) naptime;
                (ev, w1) \<leftarrow> pth_event (e_mem E) (\<lambda>w. fst (e_yield E (w, k))) (tid (natives w d)) cur
                   (set_flag PTH_MODE_STATIC PTH_EVENT_TIME) [VPtr kv, VTime until] w;
                (_, s2) \<leftarrow> pth_wait (e_yield E) (e_cpoint E) cur ev (w1, k);
                Some (True, s2) })"

text \<open>
  \<open>c\<close> is the control variable, \<open>ctor\<close> what the constructor does (\<open>None\<close> if the pointer is
  NULL), \<open>i\<close> the kernel thread of the caller.
\<close>

definition lock_once :: "nat \<Rightarrow> ('a tworld_scheme) \<Rightarrow> ('a tworld_scheme) option" where
  "lock_once i w = map_option (\<lambda>l. w\<lparr>once_init_lock := l\<rparr>) (pth_acquire_lock i (once_init_lock w))"

definition unlock_once :: "nat \<Rightarrow> ('a tworld_scheme) \<Rightarrow> ('a tworld_scheme)" where
  "unlock_once i w = w\<lparr>once_init_lock := snd (pth_release_lock i (once_init_lock w))\<rparr>"

definition pth_once :: "nat \<Rightarrow> nat \<Rightarrow> (('a tworld_scheme) \<Rightarrow> ('a tworld_scheme)) option \<Rightarrow> ('a tworld_scheme)
    \<Rightarrow> (int \<times> ('a tworld_scheme)) option" where
  "pth_once i c ctor w =
     (case ctor of
        None \<Rightarrow> Some (EINVAL, w)
      | Some f \<Rightarrow>
          if c = 0 then Some (EINVAL, w)
          else do { w1 \<leftarrow> lock_once i w;
                    let do_once_init = \<not> oncectrl w1 c;
                    let w2 = unlock_once i (w1\<lparr>oncectrl := (oncectrl w1)(c := True)\<rparr>);
                    Some (0, if do_once_init then f w2 else w2) })"

end
