(* ===== verification/Sched.thy ===== *)
theory Sched
  imports Complex_Main "HOL-Library.Log_Nat" Lib Util Msgport
begin

text \<open>
  The scheduler of a native thread (pth_sched.c): the queues it serves, the choice of the next
  thread, what it does with a thread that comes back, and the event manager that moves waiting
  threads whose events have occurred to the ready queues.

  The state adds to the one of the threads the load average (a float, as the rational number it stands for), the signals that
  are blocked, the memory the events point to (descriptor sets, signal sets and result variables)
  and the message ports.  A thread that is entered runs until it switches back: \<open>e_run\<close>.  The
  process' pending signals, \<open>select\<close> and the functions of function events are parameters as well;
  signals that are sent are recorded in \<open>sent\<close>, and a byte in the signal pipe of native \<open>d\<close> is
  an entry \<open>d\<close> of \<open>sigpipe\<close>.  The memory of \<open>jmp_buf\<close> trampolines does not exist in the
  configuration that is modelled.
\<close>

datatype sent_sig = ToThread nat int | ToProcess int int

record scworld = tworld +
  pth_loadval :: rat
  pth_loadticknext :: pth_time_t
  pth_loadtickgap :: pth_time_t
  pth_sigblock :: "64 word"
  pth_sig_lock :: pth_qlock_st
  fd_sets :: "nat \<Rightarrow> fd_set"
  sig_sets :: "nat \<Rightarrow> 64 word"
  ints :: "nat \<Rightarrow> int"
  mports :: mpworld
  sent :: "sent_sig list"

text \<open>
  \<open>e_sigpend\<close> is \<open>sigpending\<close>, \<open>e_sigdelete\<close> is \<open>pth_util_sigdelete\<close>, \<open>e_segv\<close> the
  result of \<open>sigaction\<close> for SIGSEGV (whether it is the default action; \<open>None\<close> if the call
  fails), \<open>e_evfunc\<close> a call of the function of an event, \<open>e_poll\<close> is \<open>select\<close> with the mask
  and the caught signals, and \<open>e_pipe\<close> the descriptor that is read to find out about a byte in
  the signal pipe.
\<close>

record ('w, 'k) schedenv = "('w, 'k) threnv" +
  e_run :: "nat \<Rightarrow> 'w \<times> 'k \<Rightarrow> 'w \<times> 'k"
  e_nsig :: nat
  e_sigpend :: "'k \<Rightarrow> 64 word"
  e_sigdelete :: "nat \<Rightarrow> 'k \<Rightarrow> 'k"
  e_segv :: "bool option"
  e_evfunc :: "nat \<Rightarrow> nat \<Rightarrow> bool"
  e_poll :: "64 word \<Rightarrow> 64 word \<Rightarrow> int \<Rightarrow> fd_set \<times> fd_set \<times> fd_set \<Rightarrow> timeval option \<Rightarrow> 'w \<times> 'k
      \<Rightarrow> (int \<times> fd_set \<times> fd_set \<times> fd_set) \<times> 'w \<times> 'k"
  e_pipe :: "nat \<Rightarrow> nat"

type_synonym ('a, 'k) scstate = "('a scworld_scheme) \<times> 'k"

definition sig_in :: "64 word \<Rightarrow> nat \<Rightarrow> bool" where
  "sig_in s n \<longleftrightarrow> bit s (n - 1)"

definition sig_add :: "64 word \<Rightarrow> nat \<Rightarrow> 64 word" where
  "sig_add s n = set_flag (BIT (n - 1)) s"

definition sig_del :: "64 word \<Rightarrow> nat \<Rightarrow> 64 word" where
  "sig_del s n = clear_flag (BIT (n - 1)) s"

definition all_sigs :: "('w, 'k) schedenv \<Rightarrow> nat list" where
  "all_sigs E = [1..<e_nsig E]"

subsection \<open>Initialisation\<close>

definition pth_scheduler_init :: "('w, 'k) schedenv \<Rightarrow> 'k \<Rightarrow> nat \<Rightarrow> ('a scworld_scheme) \<Rightarrow> ('a scworld_scheme) option" where
  "pth_scheduler_init E k d w =
     Some (let w1 = w\<lparr>pth_native_lock := pth_qlock_init (pth_native_lock w),
                      keys := (keys w)\<lparr>key_lock := pth_qlock_init (key_lock (keys w))\<rparr>,
                      pth_exit_lock := pth_qlock_init (pth_exit_lock w), pth_exit_count := 0,
                      pth_sig_lock := pth_qlock_init (pth_sig_lock w), pth_threads_count := 0,
                      thread_queue := lnode_init TqHead (thread_queue w)\<rparr>;
               w2 = upd_native d (\<lambda>x. x\<lparr>d_stacksize := 0, d_true_stack := 0, d_stack := 0, sched_index := 0,
                                        is_bound := True, is_used := True, is_running := True\<rparr>) w1;
               w3 = w2\<lparr>qw := fold pqueue_init [pth_NQ, pth_RQ, pth_WQ, pth_SQ, pth_DQ] (qw w2)\<rparr>
           in w3\<lparr>pth_loadval := 1, pth_loadticknext := e_now E k, pth_sigblock := 0\<rparr>)"

text \<open>The threads in the list of all threads, except the one that runs.\<close>

partial_function (option) drop_loop :: "('a tworld_scheme, 'k) threnv \<Rightarrow> nat \<Rightarrow> nat \<Rightarrow> tqptr \<Rightarrow> ('a tworld_scheme) \<Rightarrow> ('a tworld_scheme) option" where
  [code]: "drop_loop E scheduler d l w =
     (if list_node_is_tail l TqHead (thread_queue w) then Some w
      else case l of
        TqHead \<Rightarrow> None
      | TqNode t \<Rightarrow>
          do { let l1 = list_next l (thread_queue w);
               w1 \<leftarrow> (if t \<noteq> current (natives w d) then pth_tcb_free E scheduler d t w else Some w);
               drop_loop E scheduler d l1 w1 })"

definition pth_scheduler_drop :: "('a tworld_scheme, 'k) threnv \<Rightarrow> nat \<Rightarrow> nat \<Rightarrow> ('a tworld_scheme) \<Rightarrow> ('a tworld_scheme) option" where
  "pth_scheduler_drop E scheduler d w = drop_loop E scheduler d (list_next TqHead (thread_queue w)) w"

subsection \<open>The load average\<close>

text \<open>
  The arithmetic of \<open>float\<close>: a number is rounded to 24 binary digits, and to multiples of
  \<open>2 ^ -149\<close>, to the nearest one, to the even one of two that are equally near.  The sum of
  the two products, which is made in a wider format, is rounded when it is stored.
\<close>

definition two_power :: "int \<Rightarrow> rat" where
  "two_power e = (if 0 \<le> e then 2 ^ nat e else 1 / 2 ^ nat (- e))"

definition float_exp :: "rat \<Rightarrow> int" where
  "float_exp x = (let (a, b) = quotient_of x; e = int (floorlog 2 (nat a)) - int (floorlog 2 (nat b))
                  in if x < two_power e then e - 1 else e)"

definition round_even :: "rat \<Rightarrow> int" where
  "round_even y = (let f = \<lfloor>y\<rfloor>; d = y - of_int f in if d < 1 / 2 \<or> d = 1 / 2 \<and> even f then f else f + 1)"

definition to_float :: "rat \<Rightarrow> rat" where
  "to_float x = (if x = 0 then 0 else let q = two_power (max (- 149) (float_exp \<bar>x\<bar> - 23)) in of_int (round_even (x / q)) * q)"

definition load_step :: "rat \<Rightarrow> rat \<Rightarrow> rat" where
  "load_step numready v = to_float (numready / 4 + v * 3 / 4)"

partial_function (option) load_loop :: "rat \<Rightarrow> pth_time_t \<Rightarrow> pth_time_t \<Rightarrow> pth_time_t \<Rightarrow> rat \<Rightarrow> rat option" where
  [code]: "load_loop numready gap ticknext ttmp v =
     (let v1 = load_step numready v; t1 = pth_time_sub ttmp gap
      in if sint (pth_time_cmp t1 ticknext) \<ge> 0 then load_loop numready gap ticknext t1 v1 else Some v1)"

definition pth_scheduler_load :: "pth_time_t \<Rightarrow> nat \<Rightarrow> ('a scworld_scheme) \<Rightarrow> ('a scworld_scheme) option" where
  "pth_scheduler_load now rq w =
     (if sint (pth_time_cmp now (pth_loadticknext w)) \<ge> 0 then
        do { v \<leftarrow> load_loop (of_int (sint (pqueue_total rq (qw w)))) (pth_loadtickgap w) (pth_loadticknext w) now (pth_loadval w);
             Some (w\<lparr>pth_loadval := v, pth_loadticknext := pth_time_add now (pth_loadtickgap w)\<rparr>) }
      else Some w)"

subsection \<open>New threads and the choice of the next thread\<close>

partial_function (option) new_loop :: "nat \<Rightarrow> nat \<Rightarrow> ('a world_scheme) \<Rightarrow> ('a world_scheme) option" where
  [code]: "new_loop nq rq w =
     (if pqueue_total nq (qw w) = 0 then Some w
      else let t = thread_by_node (pqueue_first_node_nolock nq (qw w))
           in if t = 0 then None
              else do { w1 \<leftarrow> upd_qw (pqueue_delete_node_nolock t) w;
                        w2 \<leftarrow> upd_qw (pqueue_prepend_second_node rq t) (upd_thread t (\<lambda>x. x\<lparr>tstate := PTH_STATE_READY\<rparr>) w1);
                        new_loop nq rq w2 })"

definition new_to_ready :: "nat \<Rightarrow> nat \<Rightarrow> nat \<Rightarrow> ('a world_scheme) \<Rightarrow> ('a world_scheme) option" where
  "new_to_ready d nq rq w =
     (if is_bounded (natives w d) then Some w
      else do { w1 \<leftarrow> upd_qw (spin_lock_pq nq) w;
                w2 \<leftarrow> new_loop nq rq w1;
                Some (w2\<lparr>qw := spin_unlock_pq nq (qw w2)\<rparr>) })"

text \<open>
  The thread to run next, 0 if there is none.  The loop of the function ends after one round: a
  thread bound to another native is passed on, and that native is woken.
\<close>

definition sched_pick :: "nat \<Rightarrow> nat \<Rightarrow> ('a world_scheme) \<Rightarrow> (nat \<times> ('a world_scheme)) option" where
  "sched_pick d rq w =
     do { w1 \<leftarrow> upd_qw (spin_lock_pq rq) w;
          let t = (if pqueue_total_nolock rq (qw w1) > 0 then thread_by_node (pqueue_first_node_nolock rq (qw w1)) else 0);
          if t = 0 then Some (0, w1\<lparr>qw := spin_unlock_pq rq (qw w1)\<rparr>)
          else do { w2 \<leftarrow> upd_qw (pqueue_delete_node_nolock t) w1;
                    let bn = boundnative (threads w2 t);
                    if bn = 0 \<or> bn = d then Some (t, w2\<lparr>qw := spin_unlock_pq rq (qw w2)\<rparr>)
                    else do { w3 \<leftarrow> (if bn = pth_first_native then upd_qw (pqueue_prepend_second_node (ready_queue pth_first_native) t) w2
                                    else upd_qw (pqueue_favor_nolock t) w2);
                              let w4 = w3\<lparr>qw := spin_unlock_pq rq (qw w3)\<rparr>;
                              w5 \<leftarrow> lock_sched bn (tid (natives w4 d)) w4;
                              Some (0, unlock_sched bn (tid (natives w5 d)) (write_sigpipe bn w5)) } } }"

subsection \<open>Entering a thread\<close>

text \<open>The signals of the thread that are not pending for the process are sent.\<close>

fun raise_loop :: "nat \<Rightarrow> nat \<Rightarrow> nat list \<Rightarrow> int \<Rightarrow> ('a scworld_scheme) \<Rightarrow> ('a scworld_scheme)" where
  "raise_loop d t [] c w = w"
| "raise_loop d t (n # ns) c w =
     (if sig_in (t_sigpending (threads w t)) n then
        let w1 = (if \<not> sig_in (d_sigpending (natives w d)) n
                  then w\<lparr>sent := sent w @ [if sig_in (sigactionmask (threads w t)) n then ToThread (tid (natives w d)) (int n)
                                          else ToProcess (pid (natives w d)) (int n)]\<rparr>
                  else w)
        in if c = sigpendcnt (threads w t) then w1 else raise_loop d t ns (c + 1) w1
      else raise_loop d t ns c w)"

definition raise_signals :: "('a scworld_scheme, 'k) schedenv \<Rightarrow> nat \<Rightarrow> nat \<Rightarrow> ('a, 'k) scstate \<Rightarrow> ('a, 'k) scstate option" where
  "raise_signals E d t s =
     do { let (w, k) = s;
          w1 \<leftarrow> lock_thread t (tid (natives w d)) w;
          let w2 = (if sigpendcnt (threads w1 t) > 0
                    then raise_loop d t (all_sigs E) 1 (upd_native d (\<lambda>x. x\<lparr>d_sigpending := e_sigpend E k\<rparr>) w1) else w1);
          Some (unlock_thread t (tid (natives w2 d)) w2, k) }"

text \<open>The times, the native that runs the thread, and the switch; \<open>snapshot\<close> is the start of the scheduler's run.\<close>

definition enter_thread :: "('a scworld_scheme, 'k) schedenv \<Rightarrow> nat \<Rightarrow> nat \<Rightarrow> nat \<Rightarrow> pth_time_t \<Rightarrow> ('a, 'k) scstate \<Rightarrow> ('a, 'k) scstate" where
  "enter_thread E d this_sched t snapshot s =
     (let (w, k) = s;
          w1 = upd_thread t (\<lambda>x. x\<lparr>t_lastran := e_now E k\<rparr>) w;
          running = pth_time_sub (t_lastran (threads w1 t)) snapshot;
          w2 = upd_thread this_sched (\<lambda>x. x\<lparr>t_running := pth_time_add (t_running x) running\<rparr>) w1;
          w3 = upd_thread t (\<lambda>x. x\<lparr>lastrannative := tid (natives w2 d)\<rparr>) w2;
          w4 = upd_native d (\<lambda>x. x\<lparr>current := t\<rparr>) w3;
          (w5, k5) = e_run E t (unlock_sched d (tid (natives w4 d)) w4, k)
      in (upd_native d (\<lambda>x. x\<lparr>current := this_sched\<rparr>) w5, k5))"

subsection \<open>A thread comes back\<close>

text \<open>The thread's signals that were delivered are no longer pending; the others are taken back.\<close>

fun late_signal_loop :: "('a scworld_scheme, 'k) schedenv \<Rightarrow> nat \<Rightarrow> nat \<Rightarrow> 64 word \<Rightarrow> nat list \<Rightarrow> ('a, 'k) scstate \<Rightarrow> ('a, 'k) scstate" where
  "late_signal_loop E d t still [] s = s"
| "late_signal_loop E d t still (n # ns) s =
     (let (w, k) = s; x = threads w t
      in if sigthread x \<noteq> t \<and> sig_in (t_sigpending x) n then
           if \<not> sig_in still n then
             let w1 = upd_thread t (\<lambda>x. x\<lparr>t_sigpending := sig_del (t_sigpending x) n, sigpendcnt := sigpendcnt x - 1\<rparr>) w
             in if sigpendcnt x = 0 then (w1, k) else late_signal_loop E d t still ns (w1, k)
           else if \<not> sig_in (d_sigpending (natives w d)) n then late_signal_loop E d t still ns (w, e_sigdelete E n k)
           else late_signal_loop E d t still ns s
         else late_signal_loop E d t still ns s)"

definition late_signals :: "('a scworld_scheme, 'k) schedenv \<Rightarrow> nat \<Rightarrow> nat \<Rightarrow> ('a, 'k) scstate \<Rightarrow> ('a, 'k) scstate option" where
  "late_signals E d t s =
     do { let (w, k) = s;
          w1 \<leftarrow> lock_thread t (tid (natives w d)) w;
          let (w2, k2) = (if sigpendcnt (threads w1 t) > 0 then late_signal_loop E d t (e_sigpend E k) (all_sigs E) (w1, k) else (w1, k));
          Some (unlock_thread t (tid (natives w2 d)) w2, k2) }"

definition SIGSEGV :: int where "SIGSEGV = 11"

text \<open>
  A thread that has overwritten the word at the end of its stack ends, or the process does
  (\<open>Inl\<close>) if SIGSEGV has the default action.
\<close>

definition stack_check :: "('a scworld_scheme, 'k) schedenv \<Rightarrow> nat \<Rightarrow> nat \<Rightarrow> ('a scworld_scheme) \<Rightarrow> ('a scworld_scheme) + ('a scworld_scheme)" where
  "stack_check E d t w =
     (let g = stackguard (threads w t) in
      if g \<noteq> 0 \<and> stack_word w g \<noteq> 0xDEAD then
        if e_segv E = Some True
        then Inl (w\<lparr>sent := sent w @ [ToProcess (int (tid (natives w (pth_primordial_thread w)))) SIGSEGV]\<rparr>)
        else Inr ((upd_thread t (\<lambda>x. x\<lparr>join_arg := 0xDEAD, tstate := PTH_STATE_EXIT\<rparr>) w)
               \<lparr>sent := sent w @ [ToThread (tid (natives w d)) SIGSEGV]\<rparr>)
      else Inr w)"

text \<open>
  A joinable thread that ends goes to the queue of dead threads and whoever waits for it is woken;
  the first result tells that the scheduler goes on with its loop at once.
\<close>

definition wake_joiner :: "nat \<Rightarrow> nat \<Rightarrow> nat \<Rightarrow> ('a world_scheme) \<Rightarrow> (bool \<times> ('a world_scheme)) option" where
  "wake_joiner d rq t w =
     (let x = threads w t; ds = waited_native (threads w (joined_thread x)) in
      if joined_native x \<noteq> 0 then Some (False, write_sigpipe (joined_native x) w)
      else if \<not> is_bounded (natives w d) \<and> joined_thread x \<noteq> 0 \<and> ds \<noteq> 0 then
        do { let tmp = joined_thread x;
             w1 \<leftarrow> upd_qw (spin_lock_pq (wait_queue ds)) w;
             if waited_native (threads w1 tmp) \<noteq> 0 then
               do { w2 \<leftarrow> upd_qw (pqueue_delete_node_nolock tmp) w1;
                    let w3 = upd_thread tmp (\<lambda>x. x\<lparr>waited_native := 0\<rparr>) w2;
                    w5 \<leftarrow> upd_qw (spin_lock_pq rq) (w3\<lparr>qw := spin_unlock_pq (wait_queue ds) (qw w3)\<rparr>);
                    w6 \<leftarrow> thread_eprio_recalculate_nolock tmp (upd_thread tmp (\<lambda>x. x\<lparr>tstate := PTH_STATE_READY\<rparr>) w5);
                    w7 \<leftarrow> upd_qw (pqueue_append_node_nolock rq tmp) w6;
                    Some (True, w7\<lparr>qw := spin_unlock_pq rq (qw w7)\<rparr>) }
             else Some (False, w1\<lparr>qw := spin_unlock_pq (wait_queue ds) (qw w1)\<rparr>) }
      else Some (False, w))"

definition reap_exit :: "('a tworld_scheme, 'k) threnv \<Rightarrow> nat \<Rightarrow> nat \<Rightarrow> nat \<Rightarrow> nat \<Rightarrow> ('a tworld_scheme) \<Rightarrow> (bool \<times> ('a tworld_scheme)) option" where
  "reap_exit E scheduler d rq t w =
     (if joinable (threads w t) = 0 then map_option (Pair False) (pth_tcb_free E scheduler d t w)
      else do { w1 \<leftarrow> lock_DQ w;
                w2 \<leftarrow> upd_qw (pqueue_append_node_nolock pth_DQ t) w1;
                (again, w3) \<leftarrow> wake_joiner d rq t (upd_thread t (\<lambda>x. x\<lparr>tstate := PTH_STATE_DEAD\<rparr>) w2);
                Some (again, unlock_DQ w3) })"

text \<open>A thread that waits goes to the waiting queue of its native.\<close>

definition wait_in :: "nat \<Rightarrow> nat \<Rightarrow> ('a world_scheme) \<Rightarrow> ('a world_scheme) option" where
  "wait_in ds t w =
     do { w1 \<leftarrow> upd_qw (spin_lock_pq (wait_queue ds)) w;
          w2 \<leftarrow> upd_qw (pqueue_append_node_nolock (wait_queue ds) t) w1;
          let w3 = upd_thread t (\<lambda>x. x\<lparr>waited_native := ds\<rparr>) w2;
          Some (w3\<lparr>qw := spin_unlock_pq (wait_queue ds) (qw w3)\<rparr>) }"

definition park_waiting :: "nat \<Rightarrow> nat \<Rightarrow> ('a tworld_scheme) \<Rightarrow> ('a tworld_scheme) option" where
  "park_waiting d t w =
     (if boundnative (threads w t) = pth_first_native \<and> d \<noteq> pth_first_native then
        if pth_exit_count w > 0 then
          do { w1 \<leftarrow> upd_qw (pqueue_append_node (ready_queue pth_first_native) t) w;
               w2 \<leftarrow> lock_sched pth_first_native (tid (natives w1 d)) w1;
               Some (unlock_sched pth_first_native (tid (natives w2 d)) (write_sigpipe pth_first_native w2)) }
        else wait_in pth_first_native t w
      else if native_is_group_leader d \<and> is_bounded (natives w d) then
        do { let ds = (case find (\<lambda>i. \<not> is_bounded (natives w i)) [2..<Suc (pth_number_of_natives w)] of
                         Some i \<Rightarrow> i | None \<Rightarrow> max 2 (Suc (pth_number_of_natives w)));
             w1 \<leftarrow> upd_qw (pqueue_append_node pth_RQ t) (upd_native d (\<lambda>x. x\<lparr>is_bounded := False\<rparr>) w);
             Some (if is_used (natives w1 ds) then write_sigpipe ds w1 else w1) }
      else wait_in d t w)"

text \<open>Everything else is put at the end of the ready queue; the result is the number of ready threads.\<close>

definition requeue_ready :: "nat \<Rightarrow> nat \<Rightarrow> ('a world_scheme) \<Rightarrow> (u32 \<times> ('a world_scheme)) option" where
  "requeue_ready rq t w =
     do { w1 \<leftarrow> upd_qw (spin_lock_pq rq) w;
          w2 \<leftarrow> (if t \<noteq> 0 then upd_qw (pqueue_append_node_nolock rq t) w1 else Some w1);
          let n = pqueue_total rq (qw w2);
          Some (n, w2\<lparr>qw := spin_unlock_pq rq (qw w2)\<rparr>) }"

text \<open>\<open>None\<close> as the first result: the loop goes on at once.\<close>

definition place_thread :: "('a tworld_scheme, 'k) threnv \<Rightarrow> nat \<Rightarrow> nat \<Rightarrow> nat \<Rightarrow> nat \<Rightarrow> ('a tworld_scheme) \<Rightarrow> (u32 option \<times> ('a tworld_scheme)) option" where
  "place_thread E scheduler d rq t w =
     do { let st = tstate (threads w t);
          (again, cur1, w1) \<leftarrow> (if st = PTH_STATE_DEAD then Some (False, 0, w)
                else if st = PTH_STATE_EXIT then map_option (\<lambda>(a, w1). (a, 0, w1)) (reap_exit E scheduler d rq t w)
                else Some (False, t, w));
          if again then Some (None, w1)
          else do { w2 \<leftarrow> (if cur1 \<noteq> 0 \<and> should_suspend (threads w1 t)
                          then upd_qw (pqueue_append_node pth_SQ t) (upd_thread t (\<lambda>x. x\<lparr>should_suspend := False\<rparr>) w1) else Some w1);
                    (cur3, w3) \<leftarrow> (if cur1 \<noteq> 0 \<and> tstate (threads w2 t) = PTH_STATE_WAITING
                          then map_option (Pair 0) (park_waiting d t w2) else Some (cur1, w2));
                    (n, w4) \<leftarrow> requeue_ready rq cur3 w3;
                    Some (Some n, w4) } }"

end
