(* ===== verification/EventMgr.thy ===== *)
theory EventMgr
  imports Sched
begin

text \<open>
  The event manager of the scheduler (\<open>pth_sched_eventmanager\<close> in pth_sched.c).  The waiting
  threads are looked through twice: before the native sleeps in \<open>select\<close>, for everything but
  file descriptors, and after it, for descriptors and signals.  The variables of the function that
  the first pass fills are the record \<open>emgr\<close>.
\<close>

record emgr =
  em_rfds :: fd_set
  em_wfds :: fd_set
  em_efds :: fd_set
  em_fdmax :: int
  em_timer_ev :: nat
  em_timer :: pth_time_t
  em_block :: "64 word"
  em_catch :: "64 word"
  em_any :: bool
  em_mutex :: bool

type_synonym ('a, 'k) emstate = "emgr \<times> ('a, 'k) scstate"

definition upd_ev :: "nat \<Rightarrow> (pth_event_st \<Rightarrow> pth_event_st) \<Rightarrow> ('a eworld_scheme) \<Rightarrow> ('a eworld_scheme)" where
  "upd_ev e f w = w\<lparr>ev_heap := upd_event e f (ev_heap w)\<rparr>"

text \<open>A store through a pointer to \<open>int\<close>, and a descriptor set behind a pointer that may be NULL.\<close>

definition store_int :: "nat \<Rightarrow> int \<Rightarrow> ('a scworld_scheme) \<Rightarrow> ('a scworld_scheme) option" where
  "store_int p v w = (if p = 0 then None else Some (w\<lparr>ints := (ints w)(p := v)\<rparr>))"

definition fds_at :: "nat \<Rightarrow> ('a scworld_scheme) \<Rightarrow> fd_set option" where
  "fds_at p w = (if p = 0 then None else Some (fd_sets w p))"

definition put_fds :: "nat \<Rightarrow> fd_set option \<Rightarrow> ('a scworld_scheme) \<Rightarrow> ('a scworld_scheme)" where
  "put_fds p f w = (case f of None \<Rightarrow> w | Some x \<Rightarrow> w\<lparr>fd_sets := (fd_sets w)(p := x)\<rparr>)"

subsection \<open>Events before the native sleeps\<close>

text \<open>A pending signal that the thread does not block; the search stops after the number of pending signals.\<close>

fun unblocked_loop :: "pth_st \<Rightarrow> nat list \<Rightarrow> int \<Rightarrow> bool" where
  "unblocked_loop x [] c = False"
| "unblocked_loop x (n # ns) c =
     (if sig_in (t_sigpending x) n
      then \<not> sig_in (mctx_sigs x) n \<or> (if c = sigpendcnt x then False else unblocked_loop x ns (c + 1))
      else unblocked_loop x ns c)"

text \<open>The descriptor of an FD event is added to one of the sets.\<close>

definition fd_event :: "u32 \<Rightarrow> int \<Rightarrow> emgr \<Rightarrow> emgr option" where
  "fd_event goal fd em =
     (if fd < 0 then None
      else do { em1 \<leftarrow> (if has goal PTH_UNTIL_FD_READABLE then map_option (\<lambda>f. em\<lparr>em_rfds := f\<rparr>) (FD_SET (nat fd) (em_rfds em))
                  else if has goal PTH_UNTIL_FD_WRITEABLE then map_option (\<lambda>f. em\<lparr>em_wfds := f\<rparr>) (FD_SET (nat fd) (em_wfds em))
                  else if has goal PTH_UNTIL_FD_EXCEPTION then map_option (\<lambda>f. em\<lparr>em_efds := f\<rparr>) (FD_SET (nat fd) (em_efds em))
                  else Some em);
                Some (if em_fdmax em1 < fd then em1\<lparr>em_fdmax := fd\<rparr> else em1) })"

definition select_event :: "int \<Rightarrow> nat \<Rightarrow> nat \<Rightarrow> nat \<Rightarrow> ('a scworld_scheme) \<Rightarrow> emgr \<Rightarrow> emgr option" where
  "select_event nfd r wr ex w em =
     do { (f1, f2, f3) \<leftarrow> pth_util_fds_merge nfd (fds_at r w) (em_rfds em) (fds_at wr w) (em_wfds em) (fds_at ex w) (em_efds em);
          let em1 = em\<lparr>em_rfds := f1, em_wfds := f2, em_efds := f3\<rparr>;
          Some (if em_fdmax em1 < nfd - 1 then em1\<lparr>em_fdmax := nfd - 1\<rparr> else em1) }"

text \<open>
  The loop over the signals of a SIGS event; \<open>this\<close> tells that one has occurred and
  \<open>wake\<close> that the first native has to look for one.
\<close>

fun sigs_loop :: "('a scworld_scheme, 'k) schedenv \<Rightarrow> nat \<Rightarrow> nat \<Rightarrow> 64 word \<Rightarrow> nat \<Rightarrow> nat list \<Rightarrow> bool \<Rightarrow> bool \<Rightarrow> ('a, 'k) emstate
    \<Rightarrow> (bool \<times> bool \<times> ('a, 'k) emstate) option" where
  "sigs_loop E d t sigs p [] this wake s = Some (this, wake, s)"
| "sigs_loop E d t sigs p (n # ns) this wake (em, w, k) =
     (if \<not> sig_in sigs n then sigs_loop E d t sigs p ns this wake (em, w, k)
      else do { let x = threads w t;
                (this1, stop, w1) \<leftarrow> (if sig_in (t_sigpending x) n
                   then map_option (\<lambda>w1. (True, sigpendcnt x = 0,
                          upd_thread t (\<lambda>x. x\<lparr>t_sigpending := sig_del (t_sigpending x) n, sigpendcnt := sigpendcnt x - 1\<rparr>) w1)) (store_int p (int n) w)
                   else Some (this, False, w));
                if stop then Some (this1, wake, em, w1, k)
                else if sig_in (d_sigpending (natives w1 d)) n then
                  let w2 = (if p \<noteq> 0 then w1\<lparr>ints := (ints w1)(p := int n)\<rparr> else w1);
                      w3 = upd_native d (\<lambda>x. x\<lparr>d_sigpending := sig_del (d_sigpending x) n\<rparr>) w2
                  in sigs_loop E d t sigs p ns True wake (em, w3, e_sigdelete E n k)
                else if native_is_group_leader d
                then sigs_loop E d t sigs p ns this1 wake (em\<lparr>em_block := sig_del (em_block em) n, em_catch := sig_add (em_catch em) n\<rparr>, w1, k)
                else sigs_loop E d t sigs p ns this1 True (em, w1, k) })"

fun time_sigs_loop :: "nat \<Rightarrow> pth_st \<Rightarrow> 64 word \<Rightarrow> nat list \<Rightarrow> bool \<Rightarrow> emgr \<Rightarrow> bool \<times> emgr" where
  "time_sigs_loop d x sigs [] wake em = (wake, em)"
| "time_sigs_loop d x sigs (n # ns) wake em =
     (if \<not> sig_in sigs n then time_sigs_loop d x sigs ns wake em
      else if native_is_group_leader d
      then time_sigs_loop d x sigs ns wake
             (if \<not> sig_in (mctx_sigs x) n then em\<lparr>em_block := sig_del (em_block em) n, em_catch := sig_add (em_catch em) n\<rparr> else em)
      else time_sigs_loop d x sigs ns True em)"

text \<open>The timer that elapses first is remembered.\<close>

definition remember_timer :: "nat \<Rightarrow> bool \<Rightarrow> nat \<Rightarrow> nat \<Rightarrow> pth_time_t \<Rightarrow> emgr \<Rightarrow> ('a tworld_scheme) \<Rightarrow> emgr \<times> ('a tworld_scheme)" where
  "remember_timer d m_to_n t ev tv em w =
     (if ev_flags (ev_heap w ev) \<noteq> 1 \<and> (m_to_n \<or> pth_max_native_threads w = 1 \<or> boundnative (threads w t) = d)
         \<and> (nexttimer_thread (natives w d) = 0 \<and> em_timer_ev em = 0 \<or> sint (pth_time_cmp tv (em_timer em)) < 0)
      then let w1 = (if nexttimer_thread (natives w d) \<noteq> 0 \<and> em_timer_ev em \<noteq> 0
                     then upd_ev (em_timer_ev em) (\<lambda>x. x\<lparr>ev_flags := 0\<rparr>) w else w);
               w2 = upd_native d (\<lambda>x. x\<lparr>nexttimer_thread := t\<rparr>) w1
           in (em\<lparr>em_timer_ev := ev, em_timer := tv\<rparr>, upd_ev ev (\<lambda>x. x\<lparr>ev_flags := 1\<rparr>) w2)
      else (em, w))"

text \<open>A condition variable: a broadcast concerns everybody, a signal the first who handles it.\<close>

definition cond_event :: "nat \<Rightarrow> ('a sworld_scheme) \<Rightarrow> bool \<times> bool \<times> ('a sworld_scheme)" where
  "cond_event c w =
     (let st = cn_state (conds w c) in
      if has st PTH_COND_SIGNALED then
        if has st PTH_COND_BROADCAST then (True, False, w)
        else if \<not> has st PTH_COND_HANDLED then (True, True, upd_cond c (\<lambda>x. x\<lparr>cn_state := set_flag PTH_COND_HANDLED st\<rparr>) w)
        else (False, False, w)
      else (False, False, w))"

definition tid_event :: "('a scworld_scheme, 'k) schedenv \<Rightarrow> nat \<Rightarrow> nat \<Rightarrow> u32 \<Rightarrow> ('a scworld_scheme) \<Rightarrow> bool option" where
  "tid_event E t u goal w =
     (if u \<noteq> 0 \<and> state_num (tstate (threads w u)) = goal then Some True
      else if t = pth_main w \<and> pth_active_threads w = 1
      then map_option Not (thread_exists (threnv.truncate E) u w)
      else Some False)"

text \<open>One event that has not occurred yet; the first result tells whether it has now.\<close>

definition check_event :: "('a scworld_scheme, 'k) schedenv \<Rightarrow> nat \<Rightarrow> nat \<Rightarrow> bool \<Rightarrow> pth_time_t \<Rightarrow> nat \<Rightarrow> nat \<Rightarrow> ('a, 'k) emstate
    \<Rightarrow> (bool \<times> ('a, 'k) emstate) option" where
  "check_event E d ds m_to_n now t ev s =
     (let (em, w, k) = s; e = ev_heap w ev; ty = ev_type e in
      if ty = PTH_EVENT_FD \<and> ds = d then
        (case ev_args e of FD fd \<Rightarrow> map_option (\<lambda>em1. (False, em1, w, k)) (fd_event (ev_goal e) fd em) | _ \<Rightarrow> None)
      else if ty = PTH_EVENT_SELECT then
        (case ev_args e of SELECT n nfd r wr ex \<Rightarrow> map_option (\<lambda>em1. (False, em1, w, k)) (select_event nfd r wr ex w em) | _ \<Rightarrow> None)
      else if ty = PTH_EVENT_SIGS then
        (case ev_args e of SIGS sg p \<Rightarrow>
           map_option (\<lambda>(this, wake, em1, w1, k1). (this, em1, if wake then write_sigpipe pth_first_native w1 else w1, k1))
             (sigs_loop E d t (sig_sets w sg) p (all_sigs E) False False s) | _ \<Rightarrow> None)
      else if ty = PTH_EVENT_TIME then
        (case ev_args e of TIME tv \<Rightarrow>
           Some (if sint (pth_time_cmp tv now) < 0 then (True, s)
                 else let (em1, w1) = remember_timer d m_to_n t ev tv em w in (False, em1, w1, k)) | _ \<Rightarrow> None)
      else if ty = PTH_EVENT_MSG then
        (case ev_args e of MSG mp \<Rightarrow> Some (pth_ring_elements (mp_queue (ports (mports w) mp)) > 0, s) | _ \<Rightarrow> None)
      else if ty = PTH_EVENT_MUTEX then
        (case ev_args e of MUTEX m \<Rightarrow>
           let free = \<not> has (mx_state (mutexes w m)) PTH_MUTEX_LOCKED in Some (free, if free then em\<lparr>em_mutex := True\<rparr> else em, w, k) | _ \<Rightarrow> None)
      else if ty = PTH_EVENT_COND then
        (case ev_args e of COND c \<Rightarrow>
           let (this, mx, w1) = cond_event c w in Some (this, if mx then em\<lparr>em_mutex := True\<rparr> else em, w1, k) | _ \<Rightarrow> None)
      else if ty = PTH_EVENT_TID then
        (case ev_args e of TID u \<Rightarrow> map_option (\<lambda>b. (b, s)) (tid_event E t u (ev_goal e) w) | _ \<Rightarrow> None)
      else if ty = PTH_EVENT_FUNC then
        (case ev_args e of FUNC f a tv \<Rightarrow>
           Some (if e_evfunc E f a then (True, s)
                 else let (em1, w1) = remember_timer d m_to_n t ev (pth_time_add now tv) em w in (False, em1, w1, k)) | _ \<Rightarrow> None)
      else if ty = PTH_EVENT_TIME_SIGS then
        (case ev_args e of SIGS sg p \<Rightarrow>
           let (wake, em1) = time_sigs_loop d (threads w t) (sig_sets w sg) (all_sigs E) False em
           in Some (False, em1, if wake then write_sigpipe pth_first_native w else w, k) | _ \<Rightarrow> None)
      else Some (False, s))"

text \<open>The ring of events of a thread; the first result is whether the thread has to be woken.\<close>

partial_function (option) ring_check :: "('a scworld_scheme, 'k) schedenv \<Rightarrow> nat \<Rightarrow> nat \<Rightarrow> bool \<Rightarrow> pth_time_t \<Rightarrow> nat \<Rightarrow> nat \<Rightarrow> nat \<Rightarrow> bool
    \<Rightarrow> ('a, 'k) emstate \<Rightarrow> (bool \<times> ('a, 'k) emstate) option" where
  [code]: "ring_check E d ds m_to_n now t evh ev any s =
     (let (em, w, k) = s; e = ev_heap w ev; x = threads w t in
      if cancelreq x \<and> ev_type e \<noteq> PTH_EVENT_MUTEX then Some (True, s)
      else if sigpendcnt x > 0 \<and> ev_type e \<noteq> PTH_EVENT_SIGS \<and> (any \<or> unblocked_loop x (all_sigs E) 1) then Some (True, s)
      else do { (any1, em1, w1, k1) \<leftarrow>
                  (if ev_occurred e then Some (any, s)
                   else do { (this, em1, w1, k1) \<leftarrow> check_event E d ds m_to_n now t ev s;
                             Some (if this then (True, em1, upd_ev ev (\<lambda>x. x\<lparr>ev_occurred := True\<rparr>) w1, k1) else (any, em1, w1, k1)) });
                let nx = ev_next (ev_heap w1 ev);
                if nx = evh then Some (any1, em1, w1, k1) else ring_check E d ds m_to_n now t evh nx any1 (em1, w1, k1) })"

text \<open>A thread is moved from the waiting queue of \<open>ds\<close>, whose lock is held, to the ready queue.\<close>

definition wake_waiter :: "nat \<Rightarrow> nat \<Rightarrow> nat \<Rightarrow> nat \<Rightarrow> ('a world_scheme) \<Rightarrow> ('a world_scheme) option" where
  "wake_waiter d ds rq t w =
     do { w1 \<leftarrow> upd_qw (pqueue_delete_node_nolock t) w;
          let w2 = upd_thread t (\<lambda>x. x\<lparr>waited_native := 0, tstate := PTH_STATE_READY\<rparr>) w1;
          w3 \<leftarrow> thread_eprio_recalculate t (tid (natives w2 d)) w2;
          w4 \<leftarrow> upd_qw (pqueue_append_node rq t) w3;
          Some (if native_is_group_leader d \<and> \<not> is_bound (natives w4 ds) then write_sigpipe ds w4 else w4) }"

partial_function (option) wait_loop :: "('a scworld_scheme, 'k) schedenv \<Rightarrow> nat \<Rightarrow> nat \<Rightarrow> bool \<Rightarrow> pth_time_t \<Rightarrow> nat \<Rightarrow> nat
    \<Rightarrow> ('a, 'k) emstate \<Rightarrow> ('a, 'k) emstate option" where
  [code]: "wait_loop E d ds m_to_n now rq t s =
     (let (em, w, k) = s in
      if t = 0 then Some s
      else if t_events (threads w t) = 0
      then wait_loop E d ds m_to_n now rq (thread_by_node (pqueue_get_next_node_nolock t (qw w))) s
      else do { let evh = t_events (threads w t);
                (any, em1, w1, k1) \<leftarrow> ring_check E d ds m_to_n now t evh evh False s;
                let nt = thread_by_node (pqueue_get_next_node_nolock t (qw w1));
                w2 \<leftarrow> (if any then wake_waiter d ds rq t w1 else Some w1);
                wait_loop E d ds m_to_n now rq nt (if any then em1\<lparr>em_any := True\<rparr> else em1, w2, k1) })"

definition first_waiter :: "nat \<Rightarrow> ('a world_scheme) \<Rightarrow> nat" where
  "first_waiter ds w =
     (if pqueue_total (wait_queue ds) (qw w) = 0 then 0 else thread_by_node (pqueue_first_node_nolock (wait_queue ds) (qw w)))"

text \<open>
  The natives from a place of the table on, up to the first that is not used; the first result is
  the ready queue that was used last.
\<close>

fun before_loop :: "('a scworld_scheme, 'k) schedenv \<Rightarrow> nat \<Rightarrow> bool \<Rightarrow> bool \<Rightarrow> bool \<Rightarrow> bool \<Rightarrow> pth_time_t \<Rightarrow> nat list \<Rightarrow> nat
    \<Rightarrow> ('a, 'k) emstate \<Rightarrow> (nat \<times> ('a, 'k) emstate) option" where
  "before_loop E d bounded m_to_n once dopoll now [] rq s = None"
| "before_loop E d bounded m_to_n once dopoll now (ds # dss) rq s =
     (let (em, w, k) = s; x = natives w ds in
      if \<not> is_used x then Some (rq, s)
      else if m_to_n \<and> (is_bounded x \<or> ds = pth_first_native) then before_loop E d bounded m_to_n once dopoll now dss rq s
      else do { let rq1 = (if is_bounded x \<or> ds = pth_first_native then ready_queue ds else pth_RQ);
                w1 \<leftarrow> upd_qw (spin_lock_pq (wait_queue ds)) w;
                (em2, w2, k2) \<leftarrow> wait_loop E d ds m_to_n now rq1 (first_waiter ds w1) (em, w1, k);
                let s3 = (em2, w2\<lparr>qw := spin_unlock_pq (wait_queue ds) (qw w2)\<rparr>, k2);
                if (if m_to_n then once \<or> em_mutex em2 \<or> em_any em2 else bounded \<and> \<not> dopoll)
                then Some (rq1, s3) else before_loop E d bounded m_to_n once dopoll now dss rq1 s3 })"

subsection \<open>Events after the native has slept\<close>

fun late_sigs_loop :: "nat \<Rightarrow> nat \<Rightarrow> 64 word \<Rightarrow> nat \<Rightarrow> nat list \<Rightarrow> ('a scworld_scheme) \<Rightarrow> ('a scworld_scheme)" where
  "late_sigs_loop d ev sigs p [] w = w"
| "late_sigs_loop d ev sigs p (n # ns) w =
     (if sig_in sigs n \<and> sig_in (sigraised (natives w d)) n then
        let w1 = (if p \<noteq> 0 then w\<lparr>ints := (ints w)(p := int n)\<rparr> else w);
            w2 = upd_native d (\<lambda>x. x\<lparr>sigraised := sig_del (sigraised x) n\<rparr>) w1
        in late_sigs_loop d ev sigs p ns (upd_ev ev (\<lambda>x. x\<lparr>ev_occurred := True\<rparr>) w2)
      else late_sigs_loop d ev sigs p ns w)"

definition occurred :: "nat \<Rightarrow> ('a eworld_scheme) \<Rightarrow> ('a eworld_scheme)" where
  "occurred ev w = upd_ev ev (\<lambda>x. x\<lparr>ev_occurred := True\<rparr>) w"

definition fd_ready :: "u32 \<Rightarrow> int \<Rightarrow> emgr \<Rightarrow> bool option" where
  "fd_ready goal fd em =
     (if fd < 0 \<or> nat fd \<ge> FD_SETSIZE then None
      else Some (has goal PTH_UNTIL_FD_READABLE \<and> nat fd \<in> em_rfds em \<or> has goal PTH_UNTIL_FD_WRITEABLE \<and> nat fd \<in> em_wfds em
          \<or> has goal PTH_UNTIL_FD_EXCEPTION \<and> nat fd \<in> em_efds em))"

definition select_ready :: "nat \<Rightarrow> int \<Rightarrow> nat \<Rightarrow> nat \<Rightarrow> nat \<Rightarrow> emgr \<Rightarrow> ('a scworld_scheme) \<Rightarrow> (bool \<times> ('a scworld_scheme)) option" where
  "select_ready n nfd r wr ex em w =
     do { b \<leftarrow> pth_util_fds_test nfd (fds_at r w) (em_rfds em) (fds_at wr w) (em_wfds em) (fds_at ex w) (em_efds em);
          if \<not> b then Some (False, w)
          else do { (m, f1, f2, f3) \<leftarrow> pth_util_fds_select nfd (fds_at r w) (em_rfds em) (fds_at wr w) (em_wfds em) (fds_at ex w) (em_efds em);
                    let w1 = put_fds ex f3 (put_fds wr f2 (put_fds r f1 w));
                    Some (True, if n \<noteq> 0 then w1\<lparr>ints := (ints w1)(n := m)\<rparr> else w1) } }"

definition late_event :: "('a scworld_scheme, 'k) schedenv \<Rightarrow> nat \<Rightarrow> nat \<Rightarrow> bool \<Rightarrow> emgr \<Rightarrow> nat \<Rightarrow> ('a scworld_scheme) \<Rightarrow> ('a scworld_scheme) option" where
  "late_event E d ds bounded em ev w =
     (let e = ev_heap w ev; ty = ev_type e in
      if bounded then
        if ty = PTH_EVENT_MUTEX then
          (case ev_args e of MUTEX m \<Rightarrow> Some (if \<not> has (mx_state (mutexes w m)) PTH_MUTEX_LOCKED then occurred ev w else w) | _ \<Rightarrow> None)
        else if ty = PTH_EVENT_COND then
          (case ev_args e of COND c \<Rightarrow> let (b, _, w1) = cond_event c w in Some (if b then occurred ev w1 else w1) | _ \<Rightarrow> None)
        else if ty = PTH_EVENT_TID then
          (case ev_args e of TID u \<Rightarrow> Some (if u \<noteq> 0 \<and> state_num (tstate (threads w u)) = ev_goal e then occurred ev w else w) | _ \<Rightarrow> None)
        else Some w
      else if ty = PTH_EVENT_FD \<and> ds = d then
        (case ev_args e of FD fd \<Rightarrow> map_option (\<lambda>b. if b then occurred ev w else w) (fd_ready (ev_goal e) fd em) | _ \<Rightarrow> None)
      else if ty = PTH_EVENT_SELECT then
        (case ev_args e of SELECT n nfd r wr ex \<Rightarrow>
           map_option (\<lambda>(b, w1). if b then occurred ev w1 else w1) (select_ready n nfd r wr ex em w) | _ \<Rightarrow> None)
      else if ty = PTH_EVENT_SIGS \<or> ty = PTH_EVENT_TIME_SIGS then
        (case ev_args e of SIGS sg p \<Rightarrow> Some (late_sigs_loop d ev (sig_sets w sg) p (all_sigs E) w) | _ \<Rightarrow> None)
      else Some w)"

partial_function (option) late_ring :: "('a scworld_scheme, 'k) schedenv \<Rightarrow> nat \<Rightarrow> nat \<Rightarrow> bool \<Rightarrow> emgr \<Rightarrow> nat \<Rightarrow> nat \<Rightarrow> bool
    \<Rightarrow> ('a scworld_scheme) \<Rightarrow> (bool \<times> ('a scworld_scheme)) option" where
  [code]: "late_ring E d ds bounded em evh ev any w =
     do { w1 \<leftarrow> (if ev_occurred (ev_heap w ev) then Some w else late_event E d ds bounded em ev w);
          let any1 = (any \<or> ev_occurred (ev_heap w1 ev));
          let nx = ev_next (ev_heap w1 ev);
          if nx = evh then Some (any1, w1) else late_ring E d ds bounded em evh nx any1 w1 }"

partial_function (option) late_wait_loop :: "('a scworld_scheme, 'k) schedenv \<Rightarrow> nat \<Rightarrow> nat \<Rightarrow> bool \<Rightarrow> emgr \<Rightarrow> nat \<Rightarrow> nat
    \<Rightarrow> ('a scworld_scheme) \<Rightarrow> ('a scworld_scheme) option" where
  [code]: "late_wait_loop E d ds bounded em rq t w =
     (if t = 0 then Some w
      else do { let evh = t_events (threads w t);
                (any, w1) \<leftarrow> (if evh \<noteq> 0 then late_ring E d ds bounded em evh evh False w else Some (False, w));
                let any1 = (any \<or> cancelreq (threads w1 t));
                let nt = thread_by_node (pqueue_get_next_node_nolock t (qw w1));
                w2 \<leftarrow> (if any1 then wake_waiter d ds rq t w1 else Some w1);
                late_wait_loop E d ds bounded em rq nt w2 })"

fun after_loop :: "('a scworld_scheme, 'k) schedenv \<Rightarrow> nat \<Rightarrow> bool \<Rightarrow> bool \<Rightarrow> emgr \<Rightarrow> nat list \<Rightarrow> ('a scworld_scheme) \<Rightarrow> ('a scworld_scheme) option" where
  "after_loop E d bounded m_to_n em [] w = None"
| "after_loop E d bounded m_to_n em (ds # dss) w =
     (let x = natives w ds in
      if \<not> is_used x then Some w
      else if m_to_n \<and> (is_bounded x \<or> ds = pth_first_native) then after_loop E d bounded m_to_n em dss w
      else do { let rq = (if is_bounded x \<or> ds = pth_first_native then ready_queue ds else pth_RQ);
                w1 \<leftarrow> upd_qw (spin_lock_pq (wait_queue ds)) w;
                w2 \<leftarrow> late_wait_loop E d ds bounded em rq (first_waiter ds w1) w1;
                let w3 = w2\<lparr>qw := spin_unlock_pq (wait_queue ds) (qw w2)\<rparr>;
                if bounded then Some w3 else after_loop E d bounded m_to_n em dss w3 })"

subsection \<open>The event manager\<close>

definition natives_from :: "nat \<Rightarrow> nat list" where
  "natives_from slot = [Suc slot..<Suc PTH_MAX_NATIVE_THREADS]"

definition em_start :: "nat \<Rightarrow> ('a scworld_scheme) \<Rightarrow> (emgr \<times> ('a scworld_scheme)) option" where
  "em_start d w =
     do { let em = \<lparr>em_rfds = {}, em_wfds = {}, em_efds = {}, em_fdmax = -1, em_timer_ev = 0, em_timer = pth_time_zero,
                    em_block = 0, em_catch = 0, em_any = False, em_mutex = False\<rparr>;
          if \<not> native_is_group_leader d then Some (em, w)
          else do { l \<leftarrow> pth_acquire_lock (tid (natives w d)) (pth_sig_lock w);
                    let l1 = snd (pth_release_lock (tid (natives w d)) l);
                    Some (em\<lparr>em_block := pth_sigblock w\<rparr>, w\<lparr>pth_sig_lock := l1\<rparr>) } }"

text \<open>How long \<open>select\<close> sleeps: not at all, until the next timer, or until something happens.\<close>

definition em_delay :: "nat \<Rightarrow> bool \<Rightarrow> pth_time_t \<Rightarrow> emgr \<Rightarrow> ('a scworld_scheme) \<Rightarrow> timeval option \<times> ('a scworld_scheme)" where
  "em_delay d dopoll now em w =
     (if dopoll then (Some \<lparr>tv_sec = 0, tv_usec = 0\<rparr>,
                      if nexttimer_thread (natives w d) \<noteq> 0 \<and> em_timer_ev em \<noteq> 0
                      then upd_ev (em_timer_ev em) (\<lambda>x. x\<lparr>ev_flags := 0\<rparr>) w else w)
      else if em_timer_ev em \<noteq> 0 then (Some (pth_time_to_timeval (pth_time_sub (em_timer em) now)), w)
      else (None, w))"

text \<open>
  The native sleeps without its scheduler lock; afterwards the pipe is emptied and the timer is
  forgotten if somebody has freed its thread meanwhile.
\<close>

definition em_sleep :: "('a scworld_scheme, 'k) schedenv \<Rightarrow> nat \<Rightarrow> timeval option \<Rightarrow> ('a, 'k) emstate \<Rightarrow> (int \<times> ('a, 'k) emstate) option" where
  "em_sleep E d delay s =
     do { let (em, w, k) = s;
          let lk = tid (natives w d);
          let w1 = unlock_sched d lk (upd_native d (\<lambda>x. x\<lparr>is_bound := False\<rparr>) w);
          let ((rc, r, wr, ex), w2, k2) = e_poll E (em_block em) (em_catch em) (em_fdmax em + 1) (em_rfds em, em_wfds em, em_efds em) delay (w1, k);
          w3 \<leftarrow> lock_sched d lk w2;
          let em3 = em\<lparr>em_rfds := r, em_wfds := wr, em_efds := ex,
                       em_timer_ev := (if nexttimer_thread (natives w3 d) = 0 then 0 else em_timer_ev em)\<rparr>;
          let w4 = upd_native d (\<lambda>x. x\<lparr>is_bound := True\<rparr>) w3;
          Some (rc, em3, w4\<lparr>sigpipe := filter (\<lambda>e. e \<noteq> d) (sigpipe w4)\<rparr>, k2) }"

text \<open>The timer has elapsed if \<open>select\<close> returned 0; a function event is looked at again (first result).\<close>

definition em_timeout :: "nat \<Rightarrow> bool \<Rightarrow> int \<Rightarrow> emgr \<Rightarrow> ('a scworld_scheme) \<Rightarrow> bool \<times> ('a scworld_scheme)" where
  "em_timeout d dopoll rc em w =
     (let ev = em_timer_ev em in
      if dopoll \<or> ev = 0 then (False, w)
      else if rc = 0 then
        if ev_type (ev_heap w ev) = PTH_EVENT_FUNC then (True, w)
        else (False, upd_ev ev (\<lambda>x. x\<lparr>ev_flags := 0, ev_occurred := True\<rparr>) w)
      else (False, if nexttimer_thread (natives w d) \<noteq> 0 then upd_ev ev (\<lambda>x. x\<lparr>ev_flags := 0\<rparr>) w else w))"

text \<open>The pipe is not counted, and after an error no descriptor is ready.\<close>

definition em_results :: "('w, 'k) schedenv \<Rightarrow> nat \<Rightarrow> bool \<Rightarrow> int \<Rightarrow> emgr \<Rightarrow> emgr" where
  "em_results E d dopoll rc em =
     (let (rc1, em1) = (if \<not> dopoll \<and> rc > 0 \<and> e_pipe E d \<in> em_rfds em
                        then (rc - 1, em\<lparr>em_rfds := em_rfds em - {e_pipe E d}\<rparr>) else (rc, em))
      in if rc1 \<le> 0 then em1\<lparr>em_rfds := {}, em_wfds := {}, em_efds := {}\<rparr> else em1)"

text \<open>The second pass; the result tells whether everything is repeated.\<close>

definition em_late :: "('a scworld_scheme, 'k) schedenv \<Rightarrow> nat \<Rightarrow> bool \<Rightarrow> bool \<Rightarrow> bool \<Rightarrow> nat \<Rightarrow> int \<Rightarrow> ('a, 'k) emstate \<Rightarrow> (bool \<times> ('a, 'k) scstate) option" where
  "em_late E d bounded m_to_n dopoll rq rc s =
     (let (em, w, k) = s; (again, w1) = em_timeout d dopoll rc em w; em1 = em_results E d dopoll rc em in
      if bounded \<and> pqueue_total rq (qw w1) \<noteq> 0 then Some (False, w1, k)
      else do { w2 \<leftarrow> after_loop E d bounded m_to_n em1 (natives_from (if bounded then sched_index (natives w1 d) else 0)) w1;
                Some (again, w2, k) })"

text \<open>The first results are whether everything is repeated and the value of \<open>dopoll\<close>.\<close>

definition em_round :: "('a scworld_scheme, 'k) schedenv \<Rightarrow> nat \<Rightarrow> bool \<Rightarrow> bool \<Rightarrow> bool \<Rightarrow> pth_time_t \<Rightarrow> ('a, 'k) scstate
    \<Rightarrow> (bool \<times> bool \<times> ('a, 'k) scstate) option" where
  "em_round E d bounded m_to_n dopoll now s =
     do { let (w, k) = s;
          let w1 = upd_native d (\<lambda>x. x\<lparr>d_sigpending := e_sigpend E k, sigraised := 0, nexttimer_thread := 0\<rparr>) w;
          (em, w2) \<leftarrow> em_start d w1;
          if bounded \<and> dopoll then Some (False, dopoll, write_sigpipe pth_first_native w2, k)
          else do { let once = (\<not> bounded \<and> m_to_n \<and> dopoll \<and> pqueue_total pth_RQ (qw w2) > 1);
                    let slot = (if bounded \<or> once then sched_index (natives w2 d) else 0);
                    (rq, em3, w3, k3) \<leftarrow> before_loop E d bounded m_to_n once dopoll now (natives_from slot)
                        (if bounded then ready_queue d else pth_RQ) (em, w2, k);
                    let dopoll1 = (dopoll \<or> em_any em3);
                    let (delay, w4) = em_delay d dopoll1 now em3 w3;
                    rfds \<leftarrow> FD_SET (e_pipe E d) (em_rfds em3);
                    if m_to_n \<and> dopoll1 \<and> em_fdmax em3 = -1 then Some (False, dopoll1, w4, k3)
                    else if bounded \<and> pqueue_total rq (qw w4) \<noteq> 0 then Some (False, dopoll1, w4, k3)
                    else do { (rc, s5) \<leftarrow> em_sleep E d delay
                                (em3\<lparr>em_rfds := rfds, em_fdmax := max (em_fdmax em3) (int (e_pipe E d))\<rparr>, w4, k3);
                              (again, s6) \<leftarrow> em_late E d bounded m_to_n dopoll1 rq rc s5;
                              Some (again, dopoll1, s6) } } }"

text \<open>The time given by the pointer \<open>now\<close> is set again before a repetition, and is a result.\<close>

partial_function (option) em_loop :: "('a scworld_scheme, 'k) schedenv \<Rightarrow> nat \<Rightarrow> bool \<Rightarrow> bool \<Rightarrow> bool \<Rightarrow> pth_time_t \<Rightarrow> ('a, 'k) scstate
    \<Rightarrow> (pth_time_t \<times> ('a, 'k) scstate) option" where
  [code]: "em_loop E d bounded m_to_n dopoll now s =
     do { (again, dopoll1, w1, k1) \<leftarrow> em_round E d bounded m_to_n dopoll now s;
          if again then em_loop E d bounded m_to_n dopoll1 (e_now E k1) (w1, k1) else Some (now, w1, k1) }"

definition pth_sched_eventmanager :: "('a scworld_scheme, 'k) schedenv \<Rightarrow> nat \<Rightarrow> bool \<Rightarrow> pth_time_t \<Rightarrow> ('a, 'k) scstate
    \<Rightarrow> (pth_time_t \<times> ('a, 'k) scstate) option" where
  "pth_sched_eventmanager E d dopoll now s =
     (let bounded = is_bounded (natives (fst s) d)
      in em_loop E d bounded (\<not> native_is_group_leader d \<and> \<not> bounded) dopoll now s)"

definition pth_sched_eventmanager_sighandler :: "nat \<Rightarrow> nat \<Rightarrow> ('a scworld_scheme) \<Rightarrow> ('a scworld_scheme)" where
  "pth_sched_eventmanager_sighandler d n w =
     (let w1 = write_sigpipe pth_first_native (upd_native d (\<lambda>x. x\<lparr>sigraised := sig_add (sigraised x) n\<rparr>) w)
      in if int (tid (natives w1 d)) \<noteq> pid (natives w1 d) then w1\<lparr>sent := sent w1 @ [ToThread (tid (natives w1 d)) (int n)]\<rparr> else w1)"

end
