(* ===== verification/Scheduler.thy ===== *)
theory Scheduler
  imports EventMgr
begin

text \<open>
  The loop of the scheduler (\<open>pth_scheduler\<close> in pth_sched.c) and its end
  (\<open>pth_exit_scheduler\<close> in pth_native.c).  One round takes the queues that are served and the
  time of the last snapshot, and gives them back.
\<close>

record sched_regs =
  s_nq :: nat
  s_rq :: nat
  s_snapshot :: pth_time_t

text \<open>How a scheduler ends: the native exits, or the process is aborted.\<close>

datatype sched_end = NativeExits | Aborts

partial_function (option) free_ready :: "('a tworld_scheme, 'k) threnv \<Rightarrow> nat \<Rightarrow> nat \<Rightarrow> ('a tworld_scheme) \<Rightarrow> ('a tworld_scheme) option" where
  [code]: "free_ready E scheduler d w =
     (if pqueue_total_nolock (ready_queue d) (qw w) = 0 then Some w
      else let t = thread_by_node (pqueue_first_node_nolock (ready_queue d) (qw w))
           in if t = 0 then None
              else do { w1 \<leftarrow> upd_qw (pqueue_delete_node_nolock t) w;
                        w2 \<leftarrow> pth_tcb_free E scheduler d t w1;
                        free_ready E scheduler d w2 })"

definition pth_exit_scheduler :: "('a tworld_scheme, 'k) threnv \<Rightarrow> nat \<Rightarrow> nat \<Rightarrow> bool \<Rightarrow> ('a tworld_scheme) \<Rightarrow> (sched_end \<times> ('a tworld_scheme)) option" where
  "pth_exit_scheduler E scheduler d lck w =
     (if is_running (natives w d) \<or> d = pth_first_native then Some (Aborts, w)
      else do { w1 \<leftarrow> upd_qw (spin_lock_pq (ready_queue d)) w;
                w2 \<leftarrow> free_ready E scheduler d w1;
                let w3 = w2\<lparr>qw := spin_unlock_pq (ready_queue d) (qw w2)\<rparr>;
                let lk = tid (natives w3 d);
                w4 \<leftarrow> (if \<not> lck then lock_native lk w3 else Some w3);
                let w5 = (upd_native d (\<lambda>x. x\<lparr>is_used := False\<rparr>) w4)\<lparr>pth_number_of_natives := pth_number_of_natives w4 - 1\<rparr>;
                Some (NativeExits, unlock_sched d lk (unlock_native lk w5)) })"

text \<open>The queues a scheduler starts with.\<close>

definition sched_queues :: "nat \<Rightarrow> ('a world_scheme) \<Rightarrow> nat \<times> nat" where
  "sched_queues d w =
     (if is_bounded (natives w d) \<or> native_is_group_leader d then (new_queue d, ready_queue d) else (pth_NQ, pth_RQ))"

definition sched_boot :: "('a scworld_scheme, 'k) schedenv \<Rightarrow> nat \<Rightarrow> ('a, 'k) scstate \<Rightarrow> sched_regs \<times> ('a, 'k) scstate" where
  "sched_boot E d s =
     (let (w, k) = s; w1 = upd_thread (sched (natives w d)) (\<lambda>x. x\<lparr>tstate := PTH_STATE_SCHEDULER\<rparr>) w; (nq, rq) = sched_queues d w1
      in (\<lparr>s_nq = nq, s_rq = rq, s_snapshot = e_now E k\<rparr>, w1, k))"

text \<open>The events are looked at if there is nothing else to do, or not more than one thread.\<close>

definition event_wait :: "('a scworld_scheme, 'k) schedenv \<Rightarrow> nat \<Rightarrow> u32 \<Rightarrow> sched_regs \<Rightarrow> ('a, 'k) scstate \<Rightarrow> (sched_regs \<times> ('a, 'k) scstate) option" where
  "event_wait E d n r s =
     (let (w, k) = s; now = e_now E k in
      if n = 0 \<and> pqueue_total (s_nq r) (qw w) = 0
      then map_option (\<lambda>(now1, s1). (r\<lparr>s_snapshot := now1\<rparr>, s1)) (pth_sched_eventmanager E d False now s)
      else if n = 1 \<or> do_yield (natives w d)
      then map_option (\<lambda>(now1, s1). (r\<lparr>s_snapshot := now1\<rparr>, s1))
             (pth_sched_eventmanager E d True now (upd_native d (\<lambda>x. x\<lparr>do_yield := False\<rparr>) w, k))
      else Some (r\<lparr>s_snapshot := now\<rparr>, s))"

text \<open>
  What is done when thread \<open>t\<close> has switched back: times, signals, stack, and its new place.  The
  result is the number of ready threads, or \<open>None\<close> if the loop goes on at once.
\<close>

definition came_back :: "('a scworld_scheme, 'k) schedenv \<Rightarrow> nat \<Rightarrow> nat \<Rightarrow> nat \<Rightarrow> sched_regs \<Rightarrow> ('a, 'k) scstate
    \<Rightarrow> ((sched_end + u32 option) \<times> sched_regs \<times> ('a, 'k) scstate) option" where
  "came_back E scheduler d t r s =
     do { let (w, k) = s;
          let snapshot = e_now E k;
          let w1 = upd_thread t (\<lambda>x. x\<lparr>t_running := pth_time_add (t_running x) (pth_time_sub snapshot (t_lastran x))\<rparr>) w;
          (w2, k2) \<leftarrow> late_signals E d t (w1, k);
          case stack_check E d t w2 of
            Inl w3 \<Rightarrow> Some (Inl Aborts, r, w3, k2)
          | Inr w3 \<Rightarrow>
              do { let r1 = (if is_bounded (natives w3 d) then \<lparr>s_nq = new_queue d, s_rq = ready_queue d, s_snapshot = snapshot\<rparr>
                             else r\<lparr>s_snapshot := snapshot\<rparr>);
                   (n, w4) \<leftarrow> place_thread (threnv.truncate E) scheduler d (s_rq r1) t w3;
                   Some (Inr n, r1, w4, k2) } }"

definition sched_round :: "('a scworld_scheme, 'k) schedenv \<Rightarrow> nat \<Rightarrow> nat \<Rightarrow> nat \<Rightarrow> sched_regs \<Rightarrow> ('a, 'k) scstate
    \<Rightarrow> ((sched_end + sched_regs) \<times> ('a, 'k) scstate) option" where
  "sched_round E scheduler this_sched d r s =
     do { let (w, k) = s;
          w1 \<leftarrow> new_to_ready d (s_nq r) (s_rq r) w;
          w2 \<leftarrow> pth_scheduler_load (s_snapshot r) (s_rq r) w1;
          (t, w3) \<leftarrow> sched_pick d (s_rq r) w2;
          if t = 0 then do { (r1, s1) \<leftarrow> event_wait E d 0 r (w3, k); Some (Inr r1, s1) }
          else do { s4 \<leftarrow> raise_signals E d t (w3, k);
                    let (w5, k5) = enter_thread E d this_sched t (s_snapshot r) s4;
                    if \<not> is_running (natives w5 d) then
                      do { w6 \<leftarrow> pth_tcb_free (threnv.truncate E) scheduler d (sched (natives w5 d)) w5;
                           (e, w7) \<leftarrow> pth_exit_scheduler (threnv.truncate E) scheduler d False w6;
                           Some (Inl e, w7, k5) }
                    else do { (n, r1, s6) \<leftarrow> came_back E scheduler d t r (w5, k5);
                              case n of
                                Inl e \<Rightarrow> Some (Inl e, s6)
                              | Inr None \<Rightarrow> Some (Inr r1, s6)
                              | Inr (Some m) \<Rightarrow> do { (r2, s7) \<leftarrow> event_wait E d m r1 s6; Some (Inr r2, s7) } } } }"

text \<open>The endless loop, for a number of rounds.\<close>

fun pth_scheduler :: "('a scworld_scheme, 'k) schedenv \<Rightarrow> nat \<Rightarrow> nat \<Rightarrow> nat \<Rightarrow> nat \<Rightarrow> sched_regs \<Rightarrow> ('a, 'k) scstate
    \<Rightarrow> ((sched_end + sched_regs) \<times> ('a, 'k) scstate) option" where
  "pth_scheduler E scheduler this_sched d 0 r s = Some (Inr r, s)"
| "pth_scheduler E scheduler this_sched d (Suc n) r s =
     do { (e, s1) \<leftarrow> sched_round E scheduler this_sched d r s;
          case e of Inl x \<Rightarrow> Some (Inl x, s1) | Inr r1 \<Rightarrow> pth_scheduler E scheduler this_sched d n r1 s1 }"

end
