(* ===== verification/SchedQueues.thy ===== *)
theory SchedQueues
  imports World
begin

text \<open>
  The queues of the scheduler as the other components use them: all of them in order and no lock
  held.  The operations that take the lock have the effect of the ones without, and leave the locks
  free again.
\<close>

definition qs_ok :: "qworld \<Rightarrow> nat set \<Rightarrow> (nat \<Rightarrow> nat \<Rightarrow> nat list) \<Rightarrow> bool" where
  "qs_ok c S Q \<longleftrightarrow> pqs_rep c S Q \<and> (\<forall>q. pq_lock (pqueues c q) = 0)"

lemma qs_ok_rep [dest]: "qs_ok c S Q \<Longrightarrow> pqs_rep c S Q" and qs_ok_lock [simp]: "qs_ok c S Q \<Longrightarrow> pq_lock (pqueues c q) = 0"
  by (simp_all add: qs_ok_def)

lemma qs_ok_node:
  assumes "qs_ok c S Q" and "q \<in> S" and "i < 140" and "n \<in> set (Q q i)"
  shows "bp (nodes c n) = InPq q" "priority (nodes c n) = int i" "node_lt (nodes c n) = node_lt_pqueue"
  using assms pq_rep_node [of c q "Q q" i n] by (auto simp: qs_ok_def pqs_rep_def)

lemma qs_ok_contains:
  assumes "qs_ok c S Q" and "q \<in> S" and "i < 140" and "n \<in> set (Q q i)"
  shows "pqueue_contains_nolock r n c \<longleftrightarrow> r = q"
  using qs_ok_node [OF assms] by (auto simp: pqueue_contains_nolock_def node_lt_check_def)

text \<open>A lock that is held for the time of an operation.\<close>

lemma qs_ok_locked:
  assumes "pqs_rep c S Q" and "\<And>r. pq_lock (pqueues c r) = (if r = q then 1 else 0)"
  shows "qs_ok (spin_unlock_pq q c) S Q"
  using assms by (simp add: qs_ok_def spin_unlock_pq_def)

lemma qs_ok_lock_pq:
  assumes "qs_ok c S Q"
  shows "spin_lock_pq q c = Some (upd_pqueue q (\<lambda>p. p\<lparr>pq_lock := 1\<rparr>) c)"
    and "pqs_rep (upd_pqueue q (\<lambda>p. p\<lparr>pq_lock := 1\<rparr>) c) S Q"
  using assms by (auto simp: qs_ok_def spin_lock_pq_def)

lemma same_nodes_unlock:
  "same_nodes n (upd_pqueue q (\<lambda>p. p\<lparr>pq_lock := 1\<rparr>) c) c' \<Longrightarrow> qs_ok c S Q \<Longrightarrow> same_nodes n c (spin_unlock_pq q c')"
  by (auto simp: same_nodes_def spin_unlock_pq_def)

lemma append_locked:
  assumes "qs_ok c S Q" and "q \<in> S" and "can_enter c Q q n i"
  obtains c' where "pqueue_append_node q n c = Some c'" "qs_ok c' S (Q(q := (Q q)(i := Q q i @ [n])))" "same_nodes n c c'"
proof -
  let ?l = "upd_pqueue q (\<lambda>p. p\<lparr>pq_lock := 1\<rparr>) c"
  have "can_enter ?l Q q n i" using assms(3) by (simp add: can_enter_def)
  from pqueue_append_node_rep [OF qs_ok_lock_pq(2) [OF assms(1)] assms(2) this] obtain c1 where
    c1: "pqueue_append_node_nolock q n ?l = Some c1" "pqs_rep c1 S (Q(q := (Q q)(i := Q q i @ [n])))" "same_nodes n ?l c1"
    by blast
  show ?thesis
  proof (rule that)
    show "pqueue_append_node q n c = Some (spin_unlock_pq q c1)"
      using c1(1) by (simp add: pqueue_append_node_def qs_ok_lock_pq(1) [OF assms(1)])
    show "qs_ok (spin_unlock_pq q c1) S (Q(q := (Q q)(i := Q q i @ [n])))"
      using c1(2,3) assms(1) by (intro qs_ok_locked) (auto simp: same_nodes_def)
    show "same_nodes n c (spin_unlock_pq q c1)" by (rule same_nodes_unlock [OF c1(3) assms(1)])
  qed
qed

lemma delete_locked:
  assumes "qs_ok c S Q" and "q \<in> S" and "i < 140" and "n \<in> set (Q q i)"
  obtains c' where "pqueue_delete_node n c = Some c'" "qs_ok c' S (Q(q := (Q q)(i := remove1 n (Q q i))))"
    "same_nodes n c c'" "node_lt (nodes c' n) = node_lt_nowhere" "bp (nodes c' n) = NoQ"
proof -
  let ?l = "upd_pqueue q (\<lambda>p. p\<lparr>pq_lock := 1\<rparr>) c"
  from pqueue_delete_node_rep [OF qs_ok_lock_pq(2) [OF assms(1)] assms(2-4)] obtain c1 where
    c1: "pqueue_delete_node_nolock n ?l = Some c1" "pqs_rep c1 S (Q(q := (Q q)(i := remove1 n (Q q i))))" "same_nodes n ?l c1"
      "node_lt (nodes c1 n) = node_lt_nowhere" "bp (nodes c1 n) = NoQ" by blast
  show ?thesis
  proof (rule that)
    show "pqueue_delete_node n c = Some (spin_unlock_pq q c1)"
      using c1(1) qs_ok_node [OF assms]
      by (simp add: pqueue_delete_node_def qs_ok_lock_pq(1) [OF assms(1)] node_lt_check_def)
    show "qs_ok (spin_unlock_pq q c1) S (Q(q := (Q q)(i := remove1 n (Q q i))))"
      using c1(2,3) assms(1) by (intro qs_ok_locked) (auto simp: same_nodes_def)
    show "same_nodes n c (spin_unlock_pq q c1)" by (rule same_nodes_unlock [OF c1(3) assms(1)])
  qed (use c1 in \<open>simp_all add: spin_unlock_pq_def\<close>)
qed

lemma favor_locked:
  assumes "qs_ok c S Q" and "q \<in> S" and "i < 140" and "n \<in> set (Q q i)"
  obtains c' where "pqueue_favor n c = Some c'" "qs_ok c' S (Q(q := (Q q)(i := favor_list n (Q q i))))" "nodes c' = nodes c"
proof -
  let ?l = "upd_pqueue q (\<lambda>p. p\<lparr>pq_lock := 1\<rparr>) c"
  from pqueue_favor_rep [OF qs_ok_lock_pq(2) [OF assms(1)] assms(2-4)] obtain c1 where
    c1: "pqueue_favor_nolock n ?l = Some c1" "pqs_rep c1 S (Q(q := (Q q)(i := favor_list n (Q q i))))" "nodes c1 = nodes ?l"
      "pqueues c1 = pqueues ?l" by blast
  show ?thesis
  proof (rule that)
    show "pqueue_favor n c = Some (spin_unlock_pq q c1)"
      using c1(1) qs_ok_node(1) [OF assms] by (simp add: pqueue_favor_def qs_ok_lock_pq(1) [OF assms(1)])
    show "qs_ok (spin_unlock_pq q c1) S (Q(q := (Q q)(i := favor_list n (Q q i))))"
      using c1(2,4) assms(1) by (intro qs_ok_locked) auto
  qed (use c1 in \<open>simp add: spin_unlock_pq_def\<close>)
qed

lemma can_enter_after:
  assumes "same_nodes n c c'" and "node_lt (nodes c' n) = node_lt_nowhere" and "priority (nodes c n) = int i" and "i < 140"
    and "Suc (\<Sum>k<140. length (Q q k)) < 2 ^ 32"
  shows "can_enter c' Q q n i"
  using assms by (simp add: can_enter_def same_nodes_def)

lemma sum_length_upd:
  assumes "i < (140 :: nat)"
  shows "(\<Sum>k<140. length ((A(i := xs)) k)) + length (A i) = (\<Sum>k<140. length (A k)) + length xs"
proof -
  have "(\<Sum>k \<in> {..<140} - {i}. length ((A(i := xs)) k)) = (\<Sum>k \<in> {..<140} - {i}. length (A k))"
    by (rule sum.cong) auto
  moreover have "(\<Sum>k<140. length (B k)) = length (B i) + (\<Sum>k \<in> {..<140} - {i}. length (B k))" for B :: "nat \<Rightarrow> 'a list"
    by (rule sum.remove) (use assms in auto)
  ultimately show ?thesis by (simp only: fun_upd_same)
qed

lemma sum_length_remove1:
  assumes "i < (140 :: nat)" and "n \<in> set (A i)"
  shows "Suc (\<Sum>k<140. length ((A(i := remove1 n (A i))) k)) = (\<Sum>k<140. length (A k))"
proof -
  have "Suc (length (remove1 n (A i))) = length (A i)"
    using assms(2) length_pos_if_in_set [OF assms(2)] by (simp add: length_remove1)
  with sum_length_upd [OF assms(1), of A "remove1 n (A i)"] show ?thesis by linarith
qed

lemma qs_ok_other_queue:
  assumes "qs_ok c S Q" "q \<in> S" "r \<in> S" "q \<noteq> r" "i < 140" "j < 140" "n \<in> set (Q q i)"
  shows "n \<notin> set (Q r j)"
  using qs_ok_node(1) [OF assms(1,2,5,7)] qs_ok_node(1) [OF assms(1,3,6), of n] assms(4) by auto

text \<open>A thread moves from one queue to another.\<close>

lemma move_locked:
  assumes "qs_ok c S Q" and "q \<in> S" "r \<in> S" "q \<noteq> r" and "i < 140" and "n \<in> set (Q q i)"
    and "Suc (\<Sum>k<140. length (Q r k)) < 2 ^ 32"
  obtains c1 c2 where "pqueue_delete_node n c = Some c1" "pqueue_append_node r n c1 = Some c2"
    "qs_ok c2 S (Q(q := (Q q)(i := remove1 n (Q q i)), r := (Q r)(i := Q r i @ [n])))"
    "same_nodes n c c2"
proof -
  from delete_locked [OF assms(1,2,5,6)] obtain c1 where
    c1: "pqueue_delete_node n c = Some c1" "qs_ok c1 S (Q(q := (Q q)(i := remove1 n (Q q i))))" "same_nodes n c c1"
      "node_lt (nodes c1 n) = node_lt_nowhere" by blast
  let ?Q = "Q(q := (Q q)(i := remove1 n (Q q i)))"
  have "can_enter c1 ?Q r n i"
    by (rule can_enter_after [OF c1(3,4) qs_ok_node(2) [OF assms(1,2,5,6)] assms(5)]) (use assms(4,7) in simp)
  from append_locked [OF c1(2) assms(3) this] obtain c2 where
    "pqueue_append_node r n c1 = Some c2" "qs_ok c2 S (?Q(r := (?Q r)(i := ?Q r i @ [n])))" "same_nodes n c1 c2" by blast
  with c1 assms(4) show ?thesis by (intro that [of c1 c2]) (auto simp: same_nodes_def)
qed

subsection \<open>Queues whose locks are held\<close>

text \<open>The queues in order, with the locks of the queues in \<open>L\<close> held.\<close>

definition qs_held :: "nat set \<Rightarrow> qworld \<Rightarrow> nat set \<Rightarrow> (nat \<Rightarrow> nat \<Rightarrow> nat list) \<Rightarrow> bool" where
  "qs_held L c S Q \<longleftrightarrow> pqs_rep c S Q \<and> (\<forall>q. pq_lock (pqueues c q) = (if q \<in> L then 1 else 0))"

lemma qs_held_none: "qs_held {} c S Q \<longleftrightarrow> qs_ok c S Q"
  by (simp add: qs_held_def qs_ok_def)

lemma qs_held_node:
  assumes "qs_held L c S Q" and "q \<in> S" and "i < 140" and "n \<in> set (Q q i)"
  shows "bp (nodes c n) = InPq q" "priority (nodes c n) = int i" "node_lt (nodes c n) = node_lt_pqueue"
  using assms pq_rep_node [of c q "Q q" i n] by (auto simp: qs_held_def pqs_rep_def)

lemma qs_held_contains:
  assumes "qs_held L c S Q" and "q \<in> S" and "i < 140" and "n \<in> set (Q q i)"
  shows "pqueue_contains_nolock r n c \<longleftrightarrow> r = q"
  using qs_held_node [OF assms] by (auto simp: pqueue_contains_nolock_def node_lt_check_def)

lemma held_lock:
  assumes "qs_held L c S Q" and "q \<notin> L"
  obtains c' where "spin_lock_pq q c = Some c'" "qs_held (insert q L) c' S Q" "nodes c' = nodes c"
  using assms that [of "upd_pqueue q (\<lambda>p. p\<lparr>pq_lock := 1\<rparr>) c"] by (auto simp: qs_held_def spin_lock_pq_def)

lemma held_unlock:
  assumes "qs_held L c S Q"
  shows "qs_held (L - {q}) (spin_unlock_pq q c) S Q" and "nodes (spin_unlock_pq q c) = nodes c"
  using assms by (auto simp: qs_held_def spin_unlock_pq_def)

lemma held_append:
  assumes "qs_held L c S Q" and "q \<in> S" and "can_enter c Q q n i"
  obtains c' where "pqueue_append_node_nolock q n c = Some c'" "qs_held L c' S (Q(q := (Q q)(i := Q q i @ [n])))" "same_nodes n c c'"
proof -
  from assms(1) have rep: "pqs_rep c S Q" by (simp add: qs_held_def)
  from pqueue_append_node_rep [OF rep assms(2,3)] obtain c1 where
    "pqueue_append_node_nolock q n c = Some c1" "pqs_rep c1 S (Q(q := (Q q)(i := Q q i @ [n])))" "same_nodes n c c1" by blast
  with assms(1) that show ?thesis by (auto simp: qs_held_def same_nodes_def)
qed

lemma held_delete:
  assumes "qs_held L c S Q" and "q \<in> S" and "i < 140" and "n \<in> set (Q q i)"
  obtains c' where "pqueue_delete_node_nolock n c = Some c'" "qs_held L c' S (Q(q := (Q q)(i := remove1 n (Q q i))))"
    "same_nodes n c c'" "node_lt (nodes c' n) = node_lt_nowhere" "bp (nodes c' n) = NoQ"
proof -
  from assms(1) have rep: "pqs_rep c S Q" by (simp add: qs_held_def)
  from pqueue_delete_node_rep [OF rep assms(2-4)] obtain c1 where
    "pqueue_delete_node_nolock n c = Some c1" "pqs_rep c1 S (Q(q := (Q q)(i := remove1 n (Q q i))))" "same_nodes n c c1"
      "node_lt (nodes c1 n) = node_lt_nowhere" "bp (nodes c1 n) = NoQ" by blast
  with assms(1) that show ?thesis by (auto simp: qs_held_def same_nodes_def)
qed

lemma held_favor:
  assumes "qs_held L c S Q" and "q \<in> S" and "i < 140" and "n \<in> set (Q q i)"
  obtains c' where "pqueue_favor_nolock n c = Some c'" "qs_held L c' S (Q(q := (Q q)(i := favor_list n (Q q i))))" "nodes c' = nodes c"
proof -
  from assms(1) have rep: "pqs_rep c S Q" by (simp add: qs_held_def)
  from pqueue_favor_rep [OF rep assms(2-4)] obtain c1 where
    "pqueue_favor_nolock n c = Some c1" "pqs_rep c1 S (Q(q := (Q q)(i := favor_list n (Q q i))))" "nodes c1 = nodes c"
      "pqueues c1 = pqueues c" by blast
  with assms(1) that show ?thesis by (auto simp: qs_held_def)
qed

lemma held_first:
  assumes "qs_held L c S Q" and "q \<in> S"
  shows "pqueue_first_node_nolock q c = head_opt (pq_order (Q q))"
  using assms pqueue_first_node_hd [of c q "Q q"] by (auto simp: qs_held_def pqs_rep_def head_opt_def split: list.splits)

lemma in_pq_order: "n \<in> set (pq_order A) \<longleftrightarrow> (\<exists>i<140. n \<in> set (A i))"
  by (auto simp: pq_order_def)

subsection \<open>Queues for examples\<close>

text \<open>All queues are empty; node \<open>n\<close> has priority \<open>n mod 10\<close>.\<close>

definition idle_queues :: qworld where
  "idle_queues = zero_qworld\<lparr>lnodes := \<lambda>p. \<lparr>lnext = p, lprev = p\<rparr>\<rparr>"

lemma idle_queues_ok: "qs_ok idle_queues S (\<lambda>_ _. [])"
proof -
  have "bitmap_test (replicate BITMAP_SLOTS 0) i = False" if "i < 160" for i
    using that by (simp add: bitmap_test_def const_defs)
  then show ?thesis
    by (auto simp: qs_ok_def pqs_rep_def pq_rep_def idle_queues_def zero_qworld_def lring_def const_defs)
qed

lemma one_queued:
  assumes "q \<in> S"
  obtains c where "qs_ok c S ((\<lambda>_ _. [])(q := (\<lambda>_. [])(n mod 10 := [n])))"
    "\<And>m. m \<noteq> n \<Longrightarrow> nodes c m = nodes idle_queues m"
proof -
  have "can_enter idle_queues (\<lambda>_ _. []) q n (n mod 10)"
    using mod_less_divisor [of 10 n] by (simp add: can_enter_def idle_queues_def zero_qworld_def)
  from append_locked [OF idle_queues_ok assms this] obtain c where
    "qs_ok c S ((\<lambda>_ _. [])(q := (\<lambda>_. [])(n mod 10 := [] @ [n])))" "same_nodes n idle_queues c" by blast
  with that show ?thesis by (auto simp: same_nodes_def)
qed

end
