(* ===== verification/ThreadProps.thy ===== *)
theory ThreadProps
  imports Lib SchedQueues
begin

text \<open>
  Properties of threads: suspending and resuming, one-time initialisation, cancellation and joining.
\<close>

subsection \<open>A state for examples\<close>

text \<open>Two natives, which run the threads 1 and 2; the other threads are ready.\<close>

definition tw0 :: tworld where
  "tw0 = sworld.extend (sw0\<lparr>pth_number_of_natives := 2, qw := idle_queues, natives := (\<lambda>d. (a_native d)\<lparr>is_used := d \<le> 2\<rparr>)\<rparr>)
     (tworld.fields key_world clean_start cal_zero (\<lambda>_. 0) 1 6 0 2 0 65536 free_lock free_lock free_lock (\<lambda>_. False))"

definition tenv :: "(tworld, unit) threnv" where
  "tenv = \<lparr>e_wait = \<lambda>w k. (False, 1, w, k), e_select = \<lambda>w k. (w, k), e_futex = \<lambda>op v s. (-38, s), e_kill = \<lambda>_ _. False,
     e_now = \<lambda>_. 0, e_select_t = \<lambda>_ (w, k). (0, w, k), e_mem = \<lambda>_ _. 0, e_yield = id, e_cpoint = id,
     e_mmap = \<lambda>_ _. Some 65536, e_sizeof_tcb = 1000, e_sp = \<lambda>_. 0, e_destr = \<lambda>_ _. id, e_handler = \<lambda>_ _. id, e_switch = id\<rparr>"

lemma tenv_sel: "e_switch tenv = id" "e_sizeof_tcb tenv = 1000" "e_mmap tenv = (\<lambda>_ _. Some 65536)"
  by (simp_all add: tenv_def)

lemma tw0_sel [simp]:
  "threads tw0 = (\<lambda>_. a_thread)" "natives tw0 = (\<lambda>d. (a_native d)\<lparr>is_used := d \<le> 2\<rparr>)" "pth_number_of_natives tw0 = 2" "qw tw0 = idle_queues"
  "keys tw0 = key_world" "cleans tw0 = clean_start" "mem tw0 = cal_zero" "pth_threads_count tw0 = 6" "oncectrl tw0 = (\<lambda>_. False)"
  "once_init_lock tw0 = free_lock" "pth_native_lock tw0 = free_lock" "pth_max_native_threads tw0 = 2" "pth_main tw0 = 1"
  by (simp_all add: tw0_def sworld.extend_def eworld.extend_def tworld.fields_def sworld.fields_def sw0_def ew0_def mw0_def mworld.extend_def eworld.fields_def)






subsection \<open>One-time initialisation\<close>

text \<open>The results of one call after another, by the given kernel threads.\<close>

fun once_calls :: "nat list \<Rightarrow> nat \<Rightarrow> (('a tworld_scheme) \<Rightarrow> ('a tworld_scheme)) \<Rightarrow> ('a tworld_scheme) \<Rightarrow> (int list \<times> ('a tworld_scheme)) option" where
  "once_calls [] c f w = Some ([], w)"
| "once_calls (i # is) c f w = do { (r, w1) \<leftarrow> pth_once i c (Some f) w; (rs, w2) \<leftarrow> once_calls is c f w1; Some (r # rs, w2) }"

lemma acquire_release_same:
  assumes "qfree l" "qcount l = 0" "i \<noteq> 0"
  obtains l' where "pth_acquire_lock i l = Some l'" "snd (pth_release_lock i l') = l"
  using assms by (cases l; cases "spinlock l")
    (auto simp: qfree_def pth_acquire_lock_def pth_release_lock_def spin_lock_def spin_unlock_def test_and_set_def Let_def)

lemma once_free:
  assumes "qfree (once_init_lock w)" "qcount (once_init_lock w) = 0" "i \<noteq> 0" "c \<noteq> 0"
  shows "pth_once i c (Some f) w
    = Some (0, if oncectrl w c then w\<lparr>oncectrl := (oncectrl w)(c := True)\<rparr> else f (w\<lparr>oncectrl := (oncectrl w)(c := True)\<rparr>))"
proof -
  obtain l' where "pth_acquire_lock i (once_init_lock w) = Some l'" "snd (pth_release_lock i l') = once_init_lock w"
    by (rule acquire_release_same [OF assms(1-3)])
  then show ?thesis using assms(4) by (simp add: pth_once_def lock_once_def unlock_once_def Let_def)
qed

lemma once_calls_done:
  assumes "qfree (once_init_lock w)" "qcount (once_init_lock w) = 0" "c \<noteq> 0" "oncectrl w c" "0 \<notin> set is"
  shows "once_calls is c f w = Some (replicate (length is) 0, w)"
  using assms by (induction "is") (auto simp: once_free fun_upd_idem)

text \<open>
  C25.  However many callers there are, one after the other, the constructor runs once, in the first
  call, and every call returns 0; the constructor must leave the lock and the control variable alone.
\<close>

theorem once_once:
  assumes "qfree (once_init_lock w)" "qcount (once_init_lock w) = 0" "c \<noteq> 0" "\<not> oncectrl w c" "is \<noteq> []" "0 \<notin> set is"
    and "\<And>v. once_init_lock (f v) = once_init_lock v" "\<And>v. oncectrl (f v) = oncectrl v"
  shows "once_calls is c f w = Some (replicate (length is) 0, f (w\<lparr>oncectrl := (oncectrl w)(c := True)\<rparr>))"
  using assms by (cases "is") (auto simp: once_free once_calls_done)

theorem once_once_witness:
  "once_calls [1, 2, 1] 8 (\<lambda>w. w\<lparr>pth_main := pth_main w + 1\<rparr>) tw0
    = Some ([0, 0, 0], tw0\<lparr>oncectrl := (\<lambda>_. False)(8 := True), pth_main := 2\<rparr>)"
  using once_once [of tw0 8 "[1, 2, 1]" "\<lambda>w. w\<lparr>pth_main := pth_main w + 1\<rparr>"]
  by (simp add: qfree_def free_lock_def numeral_eq_Suc)

text \<open>
  The control variable is set before the constructor has run: a caller that comes between
  returns 0 with nothing initialised.
\<close>

theorem once_early_return:
  assumes "qfree (once_init_lock w)" "qcount (once_init_lock w) = 0" "c \<noteq> 0" "\<not> oncectrl w c" "i \<noteq> 0" "j \<noteq> 0"
  shows "\<exists>w1. pth_once i c (Some f) w = Some (0, f w1) \<and> pth_once j c (Some f) w1 = Some (0, w1)
    \<and> w1 = w\<lparr>oncectrl := (oncectrl w)(c := True)\<rparr>"
  using assms by (auto simp: once_free)

theorem once_early_return_witness:
  "\<exists>w1. pth_once 1 8 (Some (\<lambda>w. w\<lparr>pth_main := 5\<rparr>)) tw0 = Some (0, w1\<lparr>pth_main := 5\<rparr>)
    \<and> pth_once 2 8 (Some (\<lambda>w. w\<lparr>pth_main := 5\<rparr>)) w1 = Some (0, w1) \<and> pth_main w1 = 1"
  using once_early_return [of tw0 8 1 2 "\<lambda>w. w\<lparr>pth_main := 5\<rparr>"] by (auto simp: qfree_def free_lock_def)

subsection \<open>Control blocks and the allocator\<close>

text \<open>A mapping that is apart from the pages of the allocator.\<close>

definition map_apart :: "cal_abs \<Rightarrow> nat \<Rightarrow> nat \<Rightarrow> bool" where
  "map_apart a st n \<longleftrightarrow> (\<forall>k m. an_order k \<and> m \<in> set (mchunks a k) \<longrightarrow> area st n \<inter> pages_of m k = {})"

lemma cal_R_headers:
  assumes R: "cal_R w a" and h: "\<And>k m x. an_order k \<Longrightarrow> m \<in> set (mchunks a k) \<Longrightarrow> x \<in> pages_of m k \<Longrightarrow> hs x = headers w x"
  shows "cal_R (w\<lparr>headers := hs, maps := ms\<rparr>) a"
proof -
  have M: "cal_mem (alinks w) (headers w) (cal_addr w) a" using R by (simp add: cal_R_def)
  have "mchunk_ok hs (cal_addr w) k m" if k: "an_order k" and m: "m \<in> set (mchunks a k)" for k m
  proof -
    have "hs (m + j * 4096) = headers w (m + j * 4096)" if "j < k div 2" for j
      by (rule h [OF k m]) (use that in \<open>simp add: pages_of_def area_def\<close>)
    moreover have "hs m = headers w m" by (rule h [OF k m head_in_pages [OF k]])
    ultimately show ?thesis using cal_mem_order(5) [OF M k m] by (simp add: mchunk_ok_def)
  qed
  with M have "cal_mem (alinks w) hs (cal_addr w) a" by (simp add: cal_mem_def)
  with R show ?thesis by (simp add: cal_R_def)
qed

lemma map_apartD: "map_apart a st n \<Longrightarrow> an_order k \<Longrightarrow> m \<in> set (mchunks a k) \<Longrightarrow> x \<in> pages_of m k \<Longrightarrow> \<not> (st \<le> x \<and> x < st + n)"
  by (fastforce simp: map_apart_def area_def)

lemma mmap_allocate_R:
  assumes "cal_R w a" and "mm sz w = Some st" and "map_apart a st sz"
  shows "\<exists>w'. mmap_allocate mm sz w = (st, w') \<and> cal_R w' a"
  using assms(1,2) map_apartD [OF assms(3)] by (auto simp: mmap_allocate_def intro!: cal_R_headers)

lemma mmap_deallocate_R:
  assumes "cal_R w a" and "map_apart a st sz"
  shows "cal_R (mmap_deallocate st sz w) a"
  using assms(1) map_apartD [OF assms(2)] by (auto simp: mmap_deallocate_def intro!: cal_R_headers)

text \<open>Chunks are aligned, so that the pointer to a control block is never moved.\<close>

lemma chunk_aligned:
  assumes R: "cal_R w a" and k: "an_order k" and p: "p \<in> set (frees a k) \<union> given a k"
  shows "p mod 16 = 0" and "0 < p"
proof -
  have M: "cal_mem (alinks w) (headers w) (cal_addr w) a" using R by (simp add: cal_R_def)
  obtain m where m: "m \<in> set (mchunks a k)" "p \<in> set (chunks_of m k)" using cal_mem_order(4) [OF M k] p by blast
  then obtain j where j: "p = m + hdr_room k + j * 2 ^ k" by (auto simp: chunks_of_def chunk_at_def)
  have "(4096 :: nat) dvd m" using cal_mem_order(5) [OF M k m(1)] by (simp add: mchunk_ok_def)
  then have "(16 :: nat) dvd m" by (rule dvd_trans [rotated]) simp
  moreover have d: "(16 :: nat) dvd 2 ^ k" using le_imp_power_dvd [of 4 k "2 :: nat"] k by simp
  moreover from d have "(16 :: nat) dvd hdr_room k" by (simp add: hdr_room_def)
  ultimately have "16 dvd p" unfolding j by (intro dvd_add dvd_mult)
  then show "p mod 16 = 0" by simp
  show "0 < p" using chunk_range [OF m(2) k] by simp
qed

text \<open>What the allocator has given out with one more chunk.\<close>

definition with_chunk :: "u32 \<Rightarrow> nat \<Rightarrow> nat list \<Rightarrow> cal_abs \<Rightarrow> cal_abs" where
  "with_chunk s t ts a = a\<lparr>frees := (frees a)(order_of s := ts), given := (given a)(order_of s := insert t (given a (order_of s)))\<rparr>"

definition tcb_room :: "('w, 'k) threnv \<Rightarrow> u32" where
  "tcb_room E = e_sizeof_tcb E + 8"

lemma with_chunk_back:
  assumes "cal_R w a" and "an_order (order_of s)" and "frees a (order_of s) = t # ts"
  shows "(with_chunk s t ts a)\<lparr>frees := (frees (with_chunk s t ts a))(order_of s := t # frees (with_chunk s t ts a) (order_of s)),
      given := (given (with_chunk s t ts a))(order_of s := given (with_chunk s t ts a) (order_of s) - {t})\<rparr> = a"
proof -
  have "t \<notin> given a (order_of s)"
    using cal_mem_order(3) [of "alinks w" "headers w" "cal_addr w" a "order_of s"] assms by (simp add: cal_R_def)
  then have "(frees a)(order_of s := t # ts) = frees a" "(given a)(order_of s := insert t (given a (order_of s)) - {t}) = given a"
    using assms(3) by (auto simp: fun_eq_iff)
  then show ?thesis by (simp add: with_chunk_def fun_upd_upd)
qed

lemma forget_timer_ends:
  assumes "\<exists>e \<in> set es. \<not> is_used (natives w e)"
  shows "\<exists>d' ns. forget_timer es t lk d w = Some (d', w\<lparr>natives := ns\<rparr>) \<and> (\<forall>e. current (ns e) = current (natives w e))"
  using assms
proof (induction es arbitrary: d w)
  case (Cons e es)
  let ?w = "upd_native e (\<lambda>x. x\<lparr>nexttimer_thread := 0\<rparr>) w"
  show ?case
  proof (cases "is_used (natives w e)")
    case False
    then show ?thesis by (auto intro!: exI [of _ "natives w"])
  next
    case True
    with Cons.prems have u: "\<exists>e \<in> set es. \<not> is_used (natives w e)" "\<exists>e \<in> set es. \<not> is_used (natives ?w e)"
      by (auto simp: upd_native_def)
    obtain d' ns where 1: "forget_timer es t lk e w = Some (d', w\<lparr>natives := ns\<rparr>)" "\<forall>e. current (ns e) = current (natives w e)"
      using Cons.IH [OF u(1)] by blast
    obtain d2 ns2 where "forget_timer es t lk e ?w = Some (d2, ?w\<lparr>natives := ns2\<rparr>)" "\<forall>e. current (ns2 e) = current (natives ?w e)"
      using Cons.IH [OF u(2)] by blast
    then have 2: "forget_timer es t lk e ?w = Some (d2, w\<lparr>natives := ns2\<rparr>)" "\<forall>e. current (ns2 e) = current (natives w e)"
      by (auto simp: upd_native_def)
    show ?thesis using True 1 2 by (cases "is_bounded (natives w e)"; cases "nexttimer_thread (natives w e) = t \<and> tid (natives w e) \<noteq> lk") auto
  qed
qed simp

text \<open>
  A control block with nothing left to do: no values, events, handlers or native of its own; its
  stack is not the one of the caller, and was mapped.
\<close>

definition tcb_plain :: "('a tworld_scheme) \<Rightarrow> nat \<Rightarrow> bool" where
  "tcb_plain w t \<longleftrightarrow> data_value (keys w) t = None \<and> event_data (threads w t) = None \<and> cleanups (cleans w) t = None
     \<and> boundnative (threads w t) = 0 \<and> \<not> ptrfixed (threads w t)"

definition stack_mapped :: "cal_abs \<Rightarrow> pth_st \<Rightarrow> bool" where
  "stack_mapped a x \<longleftrightarrow> true_stack x = 0 \<or> stackloan x
     \<or> stacksize x + 8 \<ge> CAL_CHUNK_THRESHOLD_SIZE \<and> map_apart a (true_stack x) (unat (stacksize x + 8))"

text \<open>The mappings without that of the stack of a thread.\<close>

definition maps_without :: "pth_st \<Rightarrow> (nat \<times> nat) list \<Rightarrow> (nat \<times> nat) list" where
  "maps_without x ms = (if true_stack x \<noteq> 0 \<and> \<not> stackloan x then remove1 (true_stack x, unat (stacksize x + 8)) ms else ms)"

lemma lock_thread_free:
  assumes "qfree (tlock (threads w t))" and "lk \<noteq> 0"
  obtains l l' where "lock_thread t lk w = Some (upd_thread t (\<lambda>x. x\<lparr>tlock := l\<rparr>) w)" "qheld lk 1 l"
  using acquire_free [OF assms] by (auto simp: lock_thread_def)

lemma tcb_release_plain:
  assumes "tcb_plain w t" and "t \<noteq> current (natives w d)" and R: "cal_R (mem w) a" and "stack_mapped a (threads w t)"
  shows "\<exists>m e. tcb_release E d t w = Some (w\<lparr>mem := m, elems := e\<rparr>) \<and> cal_R m a
     \<and> maps m = maps_without (threads w t) (maps (mem w))"
proof -
  have "\<exists>m. (if true_stack (threads w t) \<noteq> 0 \<and> \<not> stackloan (threads w t) \<and> t \<noteq> current (natives w d)
      then pth_free_mem (true_stack (threads w t)) (stacksize (threads w t) + 8) (mem w) else Some (mem w)) = Some m \<and> cal_R m a
      \<and> maps m = maps_without (threads w t) (maps (mem w))"
    using assms(2,4) R mmap_deallocate_R [OF R]
    by (auto simp: stack_mapped_def pth_free_mem_def cal_put_def maps_without_def mmap_deallocate_def)
  then obtain m where m: "(if true_stack (threads w t) \<noteq> 0 \<and> \<not> stackloan (threads w t) \<and> t \<noteq> current (natives w d)
      then pth_free_mem (true_stack (threads w t)) (stacksize (threads w t) + 8) (mem w) else Some (mem w)) = Some m" "cal_R m a"
      "maps m = maps_without (threads w t) (maps (mem w))" by blast
  let ?e = "if enext (elems w) (Elem t) \<noteq> ENull then pth_element_delete (Elem t) (elems w) else elems w"
  have "tcb_release E d t w = Some (w\<lparr>mem := m, elems := ?e\<rparr>)"
    using assms(1) unfolding tcb_release_def Let_def m(1) by (simp add: tcb_plain_def)
  with m(2,3) show ?thesis by blast
qed

text \<open>What \<open>pth_tcb_free\<close> needs of the state around the thread.\<close>

definition can_free :: "('a tworld_scheme, 'k) threnv \<Rightarrow> nat \<Rightarrow> nat \<Rightarrow> nat \<Rightarrow> cal_abs \<Rightarrow> ('a tworld_scheme) \<Rightarrow> bool" where
  "can_free E scheduler d t a w \<longleftrightarrow> t \<noteq> 0 \<and> t \<noteq> current (natives w d) \<and> tid (natives w d) \<noteq> 0
     \<and> qfree (tlock (threads w t)) \<and> qfree (pth_native_lock w)
     \<and> (\<exists>e \<in> set all_natives. \<not> is_used (natives w e)) \<and> start_func (threads w t) \<noteq> scheduler
     \<and> tcb_plain w t \<and> stack_mapped a (threads w t)
     \<and> tcb_room E \<noteq> 0 \<and> tcb_room E < CAL_CHUNK_THRESHOLD_SIZE \<and> t \<in> given a (order_of (tcb_room E))"

lemma tcb_free_plain:
  assumes R: "cal_R (mem w) a" and c: "can_free E scheduler d t a w"
  shows "\<exists>w'. pth_tcb_free E scheduler d t w = Some w' \<and> qw w' = qw w \<and> pth_threads_count w' = pth_threads_count w - 1
     \<and> cal_R (mem w') (a\<lparr>frees := (frees a)(order_of (tcb_room E) := t # frees a (order_of (tcb_room E))),
          given := (given a)(order_of (tcb_room E) := given a (order_of (tcb_room E)) - {t})\<rparr>)
     \<and> maps (mem w') = maps_without (threads w t) (maps (mem w))"
proof -
  let ?lk = "tid (natives w d)"
  have c1: "t \<noteq> 0" "t \<noteq> current (natives w d)" "?lk \<noteq> 0" "qfree (tlock (threads w t))" "qfree (pth_native_lock w)"
    "\<exists>e \<in> set all_natives. \<not> is_used (natives w e)" "start_func (threads w t) \<noteq> scheduler" "tcb_plain w t"
    "stack_mapped a (threads w t)" "\<not> ptrfixed (threads w t)" "tcb_room E \<noteq> 0" "tcb_room E < CAL_CHUNK_THRESHOLD_SIZE"
    "t \<in> given a (order_of (tcb_room E))"
    using c by (auto simp: can_free_def tcb_plain_def)
  obtain l where l: "lock_thread t ?lk w = Some (upd_thread t (\<lambda>x. x\<lparr>tlock := l\<rparr>) w)"
    using lock_thread_free [OF c1(4,3)] by blast
  let ?w1 = "upd_thread t (\<lambda>x. x\<lparr>tlock := l\<rparr>) w"
  have "tcb_plain ?w1 t" "stack_mapped a (threads ?w1 t)" "cal_R (mem ?w1) a" "t \<noteq> current (natives ?w1 d)"
    using c1 R by (simp_all add: tcb_plain_def stack_mapped_def upd_thread_def)
  then obtain m e where me: "tcb_release E d t ?w1 = Some (?w1\<lparr>mem := m, elems := e\<rparr>)" "cal_R m a"
      "maps m = maps_without (threads ?w1 t) (maps (mem ?w1))"
    using tcb_release_plain [of ?w1 t d a E] by blast
  have ms: "maps m = maps_without (threads w t) (maps (mem w))" using me(3) by (simp add: maps_without_def upd_thread_def)
  define w3 where "w3 = unlock_thread t ?lk (?w1\<lparr>mem := m, elems := e\<rparr>)"
  have w3: "natives w3 = natives w" "qw w3 = qw w" "pth_threads_count w3 = pth_threads_count w" "pth_native_lock w3 = pth_native_lock w"
    "start_func (threads w3 t) = start_func (threads w t)" "\<not> ptrfixed (threads w3 t)" "mem w3 = m"
    using c1(10) by (simp_all add: w3_def unlock_thread_def upd_thread_def)
  obtain d4 ns where f: "forget_timer all_natives t ?lk d w3 = Some (d4, w3\<lparr>natives := ns\<rparr>)"
    using forget_timer_ends [of all_natives w3 t ?lk d] c1(6) w3(1) by auto
  obtain nl where nl: "pth_acquire_lock ?lk (pth_native_lock w) = Some nl"
    using acquire_free [OF c1(5,3)] by blast
  obtain m' where m': "pth_free_mem t (tcb_room E) m = Some m'"
      "cal_R m' (a\<lparr>frees := (frees a)(order_of (tcb_room E) := t # frees a (order_of (tcb_room E))),
          given := (given a)(order_of (tcb_room E) := given a (order_of (tcb_room E)) - {t})\<rparr>)" "maps m' = maps m"
    using put_push [OF me(2) c1(11,12,13)] c1(12) put_maps [of t "tcb_room E" m] by (auto simp: pth_free_mem_def cal_put_def)
  show ?thesis
    using c1(1,7) by (simp add: pth_tcb_free_def Let_def l me(1) w3_def [symmetric] f tcb_room_def [symmetric] lock_native_def w3 nl)
      (use m' ms w3(6) in \<open>auto simp: unlock_native_def thread_queue_remove_def upd_thread_def upd_native_def w3(1-5,7)\<close>)
qed

lemma tcb_alloc_ok:
  fixes w :: "'a tworld_scheme"
  assumes R: "cal_R (mem w) a" and s: "tcb_room E \<noteq> 0" "tcb_room E < CAL_CHUNK_THRESHOLD_SIZE" and f: "frees a (order_of (tcb_room E)) = t # ts"
    and z: "SIGSTKSZ \<le> ssz" "CAL_CHUNK_THRESHOLD_SIZE \<le> ssz + 8"
    and mm: "\<And>m. e_mmap E (unat (ssz + 8)) m = Some st" "4096 dvd st" "st \<noteq> 0" "map_apart a st (unat (ssz + 8))"
  obtains w' where "pth_tcb_alloc E ssz 0 w = Some (t, w')" "cal_R (mem w') (with_chunk (tcb_room E) t ts a)"
    "threads w' = (threads w)(t := zero_thread\<lparr>stacksize := ssz, tlock := pth_qlock_init zero_lock, true_stack := st, t_stack := st,
        stackguard := st, stackbottom := st + unat ssz\<rparr>)" "stack_word w' = (stack_word w)(st := 0xDEAD)"
    "natives w' = natives w" "pth_native_lock w' = pth_native_lock w" "data_value (keys w') t = None" "cleanups (cleans w') t = None"
    "pth_threads_count w' = pth_threads_count w" "maps (mem w') = (st, unat (ssz + 8)) # maps (mem w)"
proof -
  let ?a = "with_chunk (tcb_room E) t ts a"
  obtain m1 where m1: "pth_malloc (e_mmap E) (tcb_room E) (mem w) = Some (t, m1)" "cal_R m1 ?a" "maps m1 = maps (mem w)"
    using get_pop [OF R s f, of "e_mmap E"] get_pop_maps [OF R s, of "e_mmap E"] s(2) f
    by (auto simp: pth_malloc_def cal_get_def with_chunk_def)
  have t: "t mod 16 = 0" "0 < t" using chunk_aligned [OF R order_of_small(2) [OF s]] f by auto
  have "map_apart ?a st (unat (ssz + 8))" using mm(4) by (simp add: map_apart_def with_chunk_def)
  from mmap_allocate_R [where mm = "e_mmap E", OF m1(2) mm(1) this] obtain m2 where
    m2a: "mmap_allocate (e_mmap E) (unat (ssz + 8)) m1 = (st, m2)" and m2: "cal_R m2 ?a" by blast
  have m2m: "maps m2 = (st, unat (ssz + 8)) # maps (mem w)"
    using m2a mm(1) m1(3) by (auto simp: mmap_allocate_def)
  from m2a z(2) have m2': "pth_malloc (e_mmap E) (ssz + 8) m1 = Some (st, m2)"
    by (simp add: pth_malloc_def cal_get_def leD)
  have "(16 :: nat) dvd st" using mm(2) by (rule dvd_trans [rotated]) simp
  then have st: "st mod 16 = 0" by simp
  have ss: "\<not> (ssz > 0 \<and> ssz < SIGSTKSZ)" "ssz > 0"
    using z(1) by (auto simp: SIGSTKSZ_def not_less word_gt_0)
  let ?w2 = "tcb_init t False ssz 0 (w\<lparr>mem := m1\<rparr>)"
  let ?w3 = "upd_thread t (\<lambda>x. x\<lparr>true_stack := st, t_stack := st\<rparr>) (?w2\<lparr>mem := m2\<rparr>)"
  have "tcb_stack E t 0 ?w2 = Some (True, ?w3)"
    using m2' mm(3) st by (simp add: tcb_stack_def tcb_init_def)
  moreover have "t_stack (threads ?w3 t) = st" by (simp add: upd_thread_def)
  ultimately have "pth_tcb_alloc E ssz 0 w = Some (t, (upd_thread t (\<lambda>x. x\<lparr>stackguard := st, stackbottom := st + unat ssz\<rparr>) ?w3)
      \<lparr>stack_word := (stack_word ?w3)(st := 0xDEAD)\<rparr>)"
    using m1(1) t ss unfolding pth_tcb_alloc_def tcb_room_def by (simp add: Let_def upd_thread_def)
  then show ?thesis
    by (rule that) (use m2 m2m in \<open>simp_all add: upd_thread_def tcb_init_def zero_thread_def\<close>)
qed

text \<open>
  C26.  A control block that is allocated with a stack of its own, while the allocator has a free
  chunk for it, is filled with zeros but for the stack and its guard, and its stack is one new
  mapping.  Freeing it gives both back: the chunk is free again as before and the stack is
  unmapped.
\<close>

theorem tcb_roundtrip:
  fixes w :: "'a tworld_scheme"
  assumes "cal_R (mem w) a" and "tcb_room E \<noteq> 0" "tcb_room E < CAL_CHUNK_THRESHOLD_SIZE" and "frees a (order_of (tcb_room E)) = t # ts"
    and "SIGSTKSZ \<le> ssz" "CAL_CHUNK_THRESHOLD_SIZE \<le> ssz + 8"
    and "\<And>m. e_mmap E (unat (ssz + 8)) m = Some st" "4096 dvd st" "st \<noteq> 0" "map_apart a st (unat (ssz + 8))"
    and "t \<noteq> current (natives w d)" "tid (natives w d) \<noteq> 0" "qfree (pth_native_lock w)" "\<exists>e \<in> set all_natives. \<not> is_used (natives w e)" "scheduler \<noteq> 0"
  shows "\<exists>w1 w2. pth_tcb_alloc E ssz 0 w = Some (t, w1)
    \<and> threads w1 t = zero_thread\<lparr>stacksize := ssz, tlock := pth_qlock_init zero_lock, true_stack := st, t_stack := st,
        stackguard := st, stackbottom := st + unat ssz\<rparr>
    \<and> stack_word w1 (stackguard (threads w1 t)) = 0xDEAD \<and> cal_R (mem w1) (with_chunk (tcb_room E) t ts a)
    \<and> maps (mem w1) = (st, unat (ssz + 8)) # maps (mem w)
    \<and> pth_tcb_free E scheduler d t w1 = Some w2 \<and> cal_R (mem w2) a \<and> maps (mem w2) = maps (mem w)"
proof -
  let ?a = "with_chunk (tcb_room E) t ts a"
  note o = order_of_small(2) [OF assms(2,3)]
  obtain w1 where w1: "pth_tcb_alloc E ssz 0 w = Some (t, w1)" "cal_R (mem w1) ?a"
    "threads w1 = (threads w)(t := zero_thread\<lparr>stacksize := ssz, tlock := pth_qlock_init zero_lock, true_stack := st, t_stack := st,
        stackguard := st, stackbottom := st + unat ssz\<rparr>)" "stack_word w1 = (stack_word w)(st := 0xDEAD)"
    "natives w1 = natives w" "pth_native_lock w1 = pth_native_lock w" "data_value (keys w1) t = None" "cleanups (cleans w1) t = None" "maps (mem w1) = (st, unat (ssz + 8)) # maps (mem w)"
    by (rule tcb_alloc_ok [OF assms(1-10)])
  have "0 < t" using chunk_aligned [OF assms(1) o] assms(4) by auto
  then have "can_free E scheduler d t ?a w1"
    using assms(2,3,6,10-15) w1(3,5-8)
    by (simp add: can_free_def tcb_plain_def zero_thread_def zero_lock_def qfree_def pth_qlock_init_def spinlock_init_def
        stack_mapped_def map_apart_def with_chunk_def)
  from tcb_free_plain [OF w1(2) this] obtain w2 where "pth_tcb_free E scheduler d t w1 = Some w2" "cal_R (mem w2) a"
    "maps (mem w2) = maps_without (threads w1 t) (maps (mem w1))"
    unfolding with_chunk_back [OF assms(1) o assms(4)] by blast
  moreover have "maps_without (threads w1 t) (maps (mem w1)) = maps (mem w)"
    using assms(9) by (simp add: w1(3,9) maps_without_def zero_thread_def)
  ultimately show ?thesis using w1(1-4,9) by simp
qed

lemma one_block_given:
  obtains m ts where "cal_R m \<lparr>frees = (\<lambda>_. [])(10 := 10240 # ts), mchunks = (\<lambda>_. [])(10 := [8192]), given = (\<lambda>_. {})(10 := {9216})\<rparr>"
proof -
  have o: "order_of 1008 = 10" by (simp add: order_of_def, code_simp)
  have n: "[0..<19] = 0 # 1 # [2..<19]" by (simp add: upt_conv_Cons)
  have c: "chunks_of 8192 10 = 9216 # 10240 # map (chunk_at 8192 10) [2..<19]"
    by (simp add: chunks_of_def chunk_count_def hdr_room_def n chunk_at_def)
  let ?ops = "[AGet 1008 (Some 8192)]"
  have ok: "ops_ok cal_ok cal_spec ?ops cal_start" by (simp add: cal_consts fresh_pages_def cal_start_def)
  have "get_pow2_order sizeof_mchunk_header = Some 5" by code_simp
  then obtain w1 where "cal_initialize cal_zero = Some w1" by (simp add: cal_initialize_def)
  from cal.run_implements [OF cal_start_R [OF this] ok] obtain m where "cal_R m (run_spec cal_spec ?ops cal_start)"
    by (auto simp: cal_zero_def)
  then show ?thesis using that by (simp add: cal_start_def Let_def o c)
qed

lemma tenv_room: "tcb_room tenv = 1008" "order_of 1008 = 10" "unat (8192 + 8 :: u32) = 8200"
  by (simp_all add: tcb_room_def tenv_sel order_of_def, code_simp)

theorem tcb_roundtrip_witness:
  "\<exists>(w :: tworld) a w1 w2. cal_R (mem w) a \<and> pth_tcb_alloc tenv 8192 0 w = Some (10240, w1)
    \<and> stack_word w1 65536 = 0xDEAD \<and> pth_tcb_free tenv 99 1 10240 w1 = Some w2 \<and> cal_R (mem w2) a
    \<and> maps (mem w2) = maps (mem w)"
proof -
  obtain m ts where m: "cal_R m \<lparr>frees = (\<lambda>_. [])(10 := 10240 # ts), mchunks = (\<lambda>_. [])(10 := [8192]), given = (\<lambda>_. {})(10 := {9216})\<rparr>"
    (is "cal_R m ?a") by (rule one_block_given)
  let ?w = "tw0\<lparr>mem := m\<rparr>"
  have "map_apart ?a 65536 8200" by (auto simp: map_apart_def pages_of_def area_def)
  moreover have "\<exists>e \<in> set all_natives. \<not> is_used (natives ?w e)"
    by (rule bexI [of _ 3]) (simp_all add: all_natives_def PTH_MAX_NATIVE_THREADS_def)
  ultimately have "\<exists>w1 w2. pth_tcb_alloc tenv 8192 0 ?w = Some (10240, w1)
    \<and> threads w1 10240 = zero_thread\<lparr>stacksize := 8192, tlock := pth_qlock_init zero_lock, true_stack := 65536, t_stack := 65536,
        stackguard := 65536, stackbottom := 65536 + unat (8192 :: u32)\<rparr>
    \<and> stack_word w1 (stackguard (threads w1 10240)) = 0xDEAD \<and> cal_R (mem w1) (with_chunk (tcb_room tenv) 10240 ts ?a)
    \<and> maps (mem w1) = (65536, unat (8192 + 8 :: u32)) # maps (mem ?w)
    \<and> pth_tcb_free tenv 99 1 10240 w1 = Some w2 \<and> cal_R (mem w2) ?a \<and> maps (mem w2) = maps (mem ?w)"
    by (intro tcb_roundtrip) (use m in \<open>simp_all add: tenv_room tenv_sel cal_consts SIGSTKSZ_def a_native_def free_lock_def qfree_def\<close>)
  with m show ?thesis by - (rule exI [of _ ?w], rule exI [of _ ?a], auto)
qed

subsection \<open>Joining and cancelling\<close>

text \<open>What \<open>pth_join\<close> needs of a dead thread.\<close>

definition can_join :: "('a tworld_scheme, 'k) threnv \<Rightarrow> nat \<Rightarrow> nat \<Rightarrow> nat \<Rightarrow> cal_abs \<Rightarrow> ('a tworld_scheme) \<Rightarrow> bool" where
  "can_join E scheduler d t a w \<longleftrightarrow> can_free E scheduler d t a w \<and> joinable (threads w t) \<noteq> 0 \<and> joined_count (threads w t) \<le> 1
     \<and> magic (threads w t) \<and> pth_threads_count w \<noteq> 1"

text \<open>The allocator has blocks of the size of a control block.\<close>

definition tcb_known :: "('w, 'k) threnv \<Rightarrow> cal_abs \<Rightarrow> bool" where
  "tcb_known E a \<longleftrightarrow> e_sizeof_tcb E \<noteq> 0 \<and> e_sizeof_tcb E < CAL_CHUNK_THRESHOLD_SIZE \<and> mchunks a (order_of (e_sizeof_tcb E)) \<noteq> []"

lemma thread_exists_known:
  assumes "cal_R (mem w) a" "tcb_known E a" "t \<noteq> 0"
  shows "thread_exists E t w = Some (magic (threads w t))"
  using assms verify_accepts_any [of "mem w" a "e_sizeof_tcb E" t] by (simp add: thread_exists_def tcb_known_def)

lemma join_dead:
  fixes w :: "'a tworld_scheme" and k :: 'k
  assumes q: "qs_ok (qw w) S Q" "pth_DQ \<in> S" and t: "t \<in> set (Q pth_DQ i)" "i < 140" "tstate (threads w t) = PTH_STATE_DEAD"
    and m: "cal_R (mem w) a" "tcb_known E a" and j: "can_join E scheduler d t a w" and d: "\<And>s. self s = d"
  obtains w' where "pth_join E self scheduler kv t (w, k) = Some (0, Some (join_arg (threads w t)), w', k)"
    "qs_ok (qw w') S (Q(pth_DQ := (Q pth_DQ)(i := remove1 t (Q pth_DQ i))))"
    "pth_threads_count w' = pth_threads_count w - 1" "\<exists>b. cal_R (mem w') b \<and> given b = (given a)(order_of (tcb_room E) := given a (order_of (tcb_room E)) - {t})"
proof -
  have j': "t \<noteq> 0" "t \<noteq> current (natives w d)" "joinable (threads w t) \<noteq> 0" "joined_count (threads w t) \<le> 1" "magic (threads w t)"
    "pth_threads_count w \<noteq> 1" "can_free E scheduler d t a w" using j by (auto simp: can_join_def can_free_def)
  have "qs_held {} (qw w) S Q" using q(1) by (simp add: qs_held_none)
  from held_lock [OF this, of pth_DQ] obtain c1 where c1: "spin_lock_pq pth_DQ (qw w) = Some c1" "qs_held {pth_DQ} c1 S Q" by auto
  from held_delete [OF c1(2) q(2) t(2,1)] obtain c2 where
    c2: "pqueue_delete_node_nolock t c1 = Some c2" "qs_held {pth_DQ} c2 S (Q(pth_DQ := (Q pth_DQ)(i := remove1 t (Q pth_DQ i))))" by blast
  define w3 where "w3 = (upd_thread t (\<lambda>x. x\<lparr>joined_count := joined_count x - 1\<rparr>) w)\<lparr>qw := spin_unlock_pq pth_DQ c2\<rparr>"
  have "can_free E scheduler d t a w3" "cal_R (mem w3) a"
    using j'(7) m(1) by (simp_all add: w3_def can_free_def upd_thread_def tcb_plain_def stack_mapped_def)
  from tcb_free_plain [OF this(2,1)] obtain w4 where w4: "pth_tcb_free E scheduler d t w3 = Some w4" "qw w4 = qw w3"
    "pth_threads_count w4 = pth_threads_count w3 - 1"
    "cal_R (mem w4) (a\<lparr>frees := (frees a)(order_of (tcb_room E) := t # frees a (order_of (tcb_room E))),
          given := (given a)(order_of (tcb_room E) := given a (order_of (tcb_room E)) - {t})\<rparr>)" by blast
  have "thread_exists E t (w\<lparr>qw := c1\<rparr>) = Some True" using thread_exists_known [of "w\<lparr>qw := c1\<rparr>" a E t] m j'(1,5) by simp
  moreover have "join_reap E self scheduler t (w\<lparr>qw := c1\<rparr>, k) = Some (0, Some (join_arg (threads w t)), w4, k)"
    using w4(1) c2(1) t(3) j'(4) qs_held_contains [OF c1(2) q(2) t(2,1)] d
    by (simp add: join_reap_def Let_def upd_qw_def unlock_DQ_def w3_def upd_thread_def)
  ultimately have "pth_join E self scheduler kv t (w, k) = Some (0, Some (join_arg (threads w t)), w4, k)"
    using j' d t(3) c1(1) by (simp add: pth_join_def Let_def lock_DQ_def upd_qw_def join_wait_def)
  then show ?thesis
    by (rule that) (use w4 c2(2) held_unlock(1) [OF c2(2), of pth_DQ] in \<open>auto simp: w3_def qs_held_none upd_thread_def\<close>)
qed

text \<open>A thread that owns nothing has nothing to clean up.\<close>

lemma thread_cleanup_plain:
  fixes w :: "'a tworld_scheme" and k :: 'k
  assumes "t \<noteq> 0" "cleanups (cleans w) t = None" "mutex_owned (threads w t) = 0" "r_hook (mutexring (threads w t)) = 0"
    and "qfree (tlock (threads w t))" "tid (natives w d) \<noteq> 0" "\<And>s. self s = d"
  obtains l where "pth_thread_cleanup E self t (w, k) = Some (upd_thread t (\<lambda>x. x\<lparr>tlock := l\<rparr>) w, k)" "qfree l"
proof -
  obtain l where l: "pth_acquire_lock (tid (natives w d)) (tlock (threads w t)) = Some l" "qheld (tid (natives w d)) 1 l"
    using acquire_free [OF assms(5,6)] by blast
  then have "lock_thread t (tid (natives w d)) w = Some (upd_thread t (\<lambda>x. x\<lparr>tlock := l\<rparr>) w)" by (simp add: lock_thread_def)
  then have "pth_thread_cleanup E self t (w, k)
      = Some (upd_thread t (\<lambda>x. x\<lparr>tlock := snd (pth_release_lock (tid (natives w d)) l)\<rparr>) w, k)"
    using assms by (simp add: pth_thread_cleanup_def pth_mutex_releaseall_def Let_def pth_ring_first_def unlock_thread_def upd_thread_def)
  then show ?thesis by (rule that) (use release_last l(2) in simp)
qed

text \<open>A new thread in the queue \<open>pth_NQ\<close> that accepts asynchronous cancellation.\<close>

definition cancellable :: "('a tworld_scheme) \<Rightarrow> nat \<Rightarrow> bool" where
  "cancellable w t \<longleftrightarrow> tstate (threads w t) = PTH_STATE_NEW \<and> \<not> cancelreq (threads w t)
     \<and> has (cancelstate (threads w t)) PTH_CANCEL_ENABLE \<and> has (cancelstate (threads w t)) PTH_CANCEL_ASYNCHRONOUS
     \<and> mutex_owned (threads w t) = 0 \<and> r_hook (mutexring (threads w t)) = 0"

lemma cancel_new_joinable:
  fixes w :: "'a tworld_scheme" and k :: 'k
  assumes q: "qs_ok (qw w) S Q" "pth_NQ \<in> S" "pth_DQ \<in> S" and t: "t \<in> set (Q pth_NQ i)" "i < 140" "cancellable w t"
    and fits: "Suc (\<Sum>k<140. length (Q pth_DQ k)) < 2 ^ 32"
    and m: "cal_R (mem w) a" "tcb_known E a" and j: "can_join E scheduler d t a w" and d: "\<And>s. self s = d" and n: "pth_number_of_natives w > 1"
  obtains w1 where "pth_cancel E self scheduler t (w, k) = Some (Inr True, w1, k)"
    "qs_ok (qw w1) S (Q(pth_NQ := (Q pth_NQ)(i := remove1 t (Q pth_NQ i)), pth_DQ := (Q pth_DQ)(i := Q pth_DQ i @ [t])))"
    "tstate (threads w1 t) = PTH_STATE_DEAD" "join_arg (threads w1 t) = PTH_CANCELED" "can_join E scheduler d t a w1" "mem w1 = mem w"
proof -
  have ne: "pth_NQ \<noteq> pth_DQ" by (simp add: queue_numbers)
  have j': "t \<noteq> 0" "t \<noteq> current (natives w d)" "joinable (threads w t) \<noteq> 0" "magic (threads w t)" "boundnative (threads w t) = 0" "tid (natives w d) \<noteq> 0"
    "qfree (tlock (threads w t))" "cleanups (cleans w) t = None" using j by (auto simp: can_join_def can_free_def tcb_plain_def)
  let ?w2 = "upd_thread t (\<lambda>x. x\<lparr>cancelreq := True\<rparr>) w"
  from q(1) have "qs_held {} (qw w) S Q" by (simp add: qs_held_none)
  from held_lock [OF this, of pth_NQ] obtain c1 where c1: "spin_lock_pq pth_NQ (qw w) = Some c1" "qs_held {pth_NQ} c1 S Q" "nodes c1 = nodes (qw w)" by auto
  from held_delete [OF c1(2) q(2) t(2,1)] obtain c2 where
    c2: "pqueue_delete_node_nolock t c1 = Some c2" "qs_held {pth_NQ} c2 S (Q(pth_NQ := (Q pth_NQ)(i := remove1 t (Q pth_NQ i))))"
      "same_nodes t c1 c2" "node_lt (nodes c2 t) = node_lt_nowhere" by blast
  define Q1 where "Q1 = Q(pth_NQ := (Q pth_NQ)(i := remove1 t (Q pth_NQ i)))"
  define c3 where "c3 = spin_unlock_pq pth_NQ c2"
  have c3: "qs_held {} c3 S Q1" "nodes c3 = nodes c2" using held_unlock [OF c2(2), of pth_NQ] by (simp_all add: c3_def Q1_def)
  from held_lock [OF c3(1), of pth_DQ] obtain c4 where c4: "spin_lock_pq pth_DQ c3 = Some c4" "qs_held {pth_DQ} c4 S Q1" "nodes c4 = nodes c3" by auto
  have "can_enter c4 Q1 pth_DQ t i"
    using c2(3,4) c3(2) c4(3) c1(3) fits ne qs_ok_node(2) [OF q(1,2) t(2,1)] t(2) by (auto simp: can_enter_def same_nodes_def Q1_def)
  from held_append [OF c4(2) q(3) this] obtain c5 where
    c5: "pqueue_append_node_nolock pth_DQ t c4 = Some c5" "qs_held {pth_DQ} c5 S (Q1(pth_DQ := (Q1 pth_DQ)(i := Q1 pth_DQ i @ [t])))" by blast
  define w3 where "w3 = ?w2\<lparr>qw := c3\<rparr>"
  have w3: "cleanups (cleans w3) t = None" "mutex_owned (threads w3 t) = 0" "r_hook (mutexring (threads w3 t)) = 0"
    "qfree (tlock (threads w3 t))" "tid (natives w3 d) \<noteq> 0" using j' t(3) by (simp_all add: w3_def cancellable_def upd_thread_def)
  obtain l where l: "pth_thread_cleanup E self t (w3, k) = Some (upd_thread t (\<lambda>x. x\<lparr>tlock := l\<rparr>) w3, k)" "qfree l"
    by (rule thread_cleanup_plain [OF j'(1) w3 d])
  define x where "x = (threads w t)\<lparr>cancelreq := True, tlock := l, join_arg := PTH_CANCELED, tstate := PTH_STATE_DEAD\<rparr>"
  define w1 where "w1 = (let v = w\<lparr>threads := (threads w)(t := x), qw := c5\<rparr>;
      v' = (if joined_native x \<noteq> 0 then write_sigpipe (joined_native x) v else v) in v'\<lparr>qw := spin_unlock_pq pth_DQ c5\<rparr>)"
  have "cancel_new E self scheduler pth_NQ t (?w2, k) = Some (True, w1, k)"
    using c1(1) c2(1) c4(1) c5(1) qs_held_contains [OF c1(2) q(2) t(2,1)] l(1) j'(3)
    by (simp add: cancel_new_def Let_def upd_qw_def c3_def [symmetric] w3_def [symmetric])
      (simp add: w1_def Let_def upd_thread_def w3_def x_def write_sigpipe_def)
  then have "pth_cancel E self scheduler t (w, k) = Some (Inr True, w1, k)"
    using t(3) j' n d thread_exists_known [OF m j'(1)] by (simp add: pth_cancel_def cancellable_def Let_def upd_thread_def)
  then show ?thesis
  proof (rule that)
    have "qs_held {} (spin_unlock_pq pth_DQ c5) S (Q1(pth_DQ := (Q1 pth_DQ)(i := Q1 pth_DQ i @ [t])))"
      using held_unlock(1) [OF c5(2), of pth_DQ] by simp
    moreover have "qw w1 = spin_unlock_pq pth_DQ c5" by (simp add: w1_def Let_def)
    ultimately show "qs_ok (qw w1) S (Q(pth_NQ := (Q pth_NQ)(i := remove1 t (Q pth_NQ i)), pth_DQ := (Q pth_DQ)(i := Q pth_DQ i @ [t])))"
      using ne by (simp add: qs_held_none Q1_def)
    show "can_join E scheduler d t a w1"
      using j l(2) by (simp add: can_join_def can_free_def tcb_plain_def stack_mapped_def w1_def x_def write_sigpipe_def Let_def)
  qed (simp_all add: w1_def x_def write_sigpipe_def Let_def)
qed

text \<open>
  C23.  With several natives, cancelling a new thread, one that has not run yet, is bound to no
  native, owns no mutex and has no cleanup handler, and that accepts asynchronous cancellation,
  moves it from the queue of new threads to the queue of dead ones; whoever joins it gets
  \<open>PTH_CANCELED\<close>, and the control block goes back to the allocator.
\<close>

theorem cancel_join:
  fixes w :: "'a tworld_scheme" and k :: 'k
  assumes "qs_ok (qw w) S Q" "pth_NQ \<in> S" "pth_DQ \<in> S" and "t \<in> set (Q pth_NQ i)" "i < 140" "cancellable w t"
    and "Suc (\<Sum>k<140. length (Q pth_DQ k)) < 2 ^ 32" "t \<notin> set (Q pth_DQ i)"
    and "cal_R (mem w) a" "tcb_known E a" and "can_join E scheduler d t a w" and "\<And>s. self s = d" and "pth_number_of_natives w > 1"
  shows "\<exists>w1 w2 b. pth_cancel E self scheduler t (w, k) = Some (Inr True, w1, k)
    \<and> qs_ok (qw w1) S (Q(pth_NQ := (Q pth_NQ)(i := remove1 t (Q pth_NQ i)), pth_DQ := (Q pth_DQ)(i := Q pth_DQ i @ [t])))
    \<and> pth_join E self scheduler kv t (w1, k) = Some (0, Some PTH_CANCELED, w2, k)
    \<and> qs_ok (qw w2) S (Q(pth_NQ := (Q pth_NQ)(i := remove1 t (Q pth_NQ i))))
    \<and> cal_R (mem w2) b \<and> given b = (given a)(order_of (tcb_room E) := given a (order_of (tcb_room E)) - {t})"
proof -
  have ne: "pth_NQ \<noteq> pth_DQ" by (simp add: queue_numbers)
  define Q2 where "Q2 = Q(pth_NQ := (Q pth_NQ)(i := remove1 t (Q pth_NQ i)), pth_DQ := (Q pth_DQ)(i := Q pth_DQ i @ [t]))"
  obtain w1 where w1: "pth_cancel E self scheduler t (w, k) = Some (Inr True, w1, k)" "qs_ok (qw w1) S Q2"
    "tstate (threads w1 t) = PTH_STATE_DEAD" "join_arg (threads w1 t) = PTH_CANCELED" "can_join E scheduler d t a w1" "mem w1 = mem w"
    unfolding Q2_def by (rule cancel_new_joinable [OF assms(1-7,9-13)])
  have t: "t \<in> set (Q2 pth_DQ i)" "cal_R (mem w1) a" using assms(9) w1(6) by (simp_all add: Q2_def)
  obtain w2 where w2: "pth_join E self scheduler kv t (w1, k) = Some (0, Some (join_arg (threads w1 t)), w2, k)"
    "qs_ok (qw w2) S (Q2(pth_DQ := (Q2 pth_DQ)(i := remove1 t (Q2 pth_DQ i))))"
    "\<exists>b. cal_R (mem w2) b \<and> given b = (given a)(order_of (tcb_room E) := given a (order_of (tcb_room E)) - {t})"
    by (rule join_dead [OF w1(2) assms(3) t(1) assms(5) w1(3) t(2) assms(10) w1(5) assms(12)])
  have "Q2(pth_DQ := (Q2 pth_DQ)(i := remove1 t (Q2 pth_DQ i))) = Q(pth_NQ := (Q pth_NQ)(i := remove1 t (Q pth_NQ i)))"
    using assms(8) ne by (auto simp: Q2_def fun_eq_iff remove1_append remove1_idem)
  with w1 w2 show ?thesis unfolding Q2_def by auto
qed

lemma tcb_known_tenv: "tcb_known tenv \<lparr>frees = f, mchunks = (\<lambda>_. [])(10 := [8192]), given = g\<rparr>"
proof -
  have "order_of 1000 = 10" by (simp add: order_of_def, code_simp)
  then show ?thesis by (simp add: tcb_known_def tenv_sel cal_consts)
qed

text \<open>Thread 9216 is in queue \<open>q\<close> and \<open>x\<close> is its control block.\<close>

lemma block_queued:
  assumes "q \<in> S"
  obtains w :: tworld and ts where "qs_ok (qw w) S ((\<lambda>_ _. [])(q := (\<lambda>_. [])(6 := [9216])))" "threads w = (\<lambda>_. a_thread)(9216 := x)"
    "cal_R (mem w) \<lparr>frees = (\<lambda>_. [])(10 := 10240 # ts), mchunks = (\<lambda>_. [])(10 := [8192]), given = (\<lambda>_. {})(10 := {9216})\<rparr>"
    "natives w = natives tw0" "keys w = key_world" "cleans w = clean_start" "pth_number_of_natives w = 2" "pth_threads_count w = 6"
    "pth_native_lock w = free_lock"
proof -
  obtain m ts where m: "cal_R m \<lparr>frees = (\<lambda>_. [])(10 := 10240 # ts), mchunks = (\<lambda>_. [])(10 := [8192]), given = (\<lambda>_. {})(10 := {9216})\<rparr>"
    by (rule one_block_given)
  obtain c where "qs_ok c S ((\<lambda>_ _. [])(q := (\<lambda>_. [])(6 := [9216])))" using one_queued [OF assms, of 9216] by auto
  with m show ?thesis by (intro that [of "tw0\<lparr>mem := m, qw := c, threads := (\<lambda>_. a_thread)(9216 := x)\<rparr>"]) simp_all
qed

lemma block_can_join:
  assumes "threads w = (\<lambda>_. a_thread)(9216 := a_thread\<lparr>tstate := st, cancelstate := cs, join_arg := v\<rparr>)"
    "natives w = natives tw0" "keys w = key_world" "cleans w = clean_start" "pth_threads_count w = 6" "pth_native_lock w = free_lock"
    "given a 10 = {9216}"
  shows "can_join tenv 99 1 9216 a (w :: tworld)"
proof -
  have "\<exists>e \<in> set all_natives. \<not> is_used (natives w e)"
    by (rule bexI [of _ 3]) (simp_all add: all_natives_def PTH_MAX_NATIVE_THREADS_def assms(2))
  with assms show ?thesis
    by (simp add: can_join_def can_free_def tenv_room cal_consts tcb_plain_def stack_mapped_def a_thread_def a_native_def free_lock_def
        qfree_def key_world_def clean_start_def)
qed

theorem cancel_join_witness:
  "\<exists>w w1 w2 :: tworld. pth_cancel tenv (\<lambda>_. 1) 99 9216 (w, ()) = Some (Inr True, w1, ())
    \<and> pth_join tenv (\<lambda>_. 1) 99 7 9216 (w1, ()) = Some (0, Some PTH_CANCELED, w2, ())"
proof -
  let ?x = "a_thread\<lparr>tstate := PTH_STATE_NEW, cancelstate := set_flag PTH_CANCEL_ASYNCHRONOUS PTH_CANCEL_ENABLE, join_arg := 0\<rparr>"
  let ?Q = "(\<lambda>_ _. [])(pth_NQ := (\<lambda>_. [])(6 := [9216])) :: nat \<Rightarrow> nat \<Rightarrow> nat list"
  obtain w :: tworld and ts where w: "qs_ok (qw w) UNIV ?Q" "threads w = (\<lambda>_. a_thread)(9216 := ?x)"
    "cal_R (mem w) \<lparr>frees = (\<lambda>_. [])(10 := 10240 # ts), mchunks = (\<lambda>_. [])(10 := [8192]), given = (\<lambda>_. {})(10 := {9216})\<rparr>" (is "cal_R _ ?a")
    "natives w = natives tw0" "keys w = key_world" "cleans w = clean_start" "pth_number_of_natives w = 2" "pth_threads_count w = 6"
    "pth_native_lock w = free_lock" by (rule block_queued [of pth_NQ UNIV ?x, OF UNIV_I])
  have ne: "pth_DQ \<noteq> pth_NQ" by (simp add: queue_numbers)
  have c: "cancellable w 9216" unfolding cancellable_def w(2)
    by (simp add: a_thread_def PTH_CANCEL_ENABLE_def PTH_CANCEL_ASYNCHRONOUS_def pth_ring_init_def)
  have j: "can_join tenv 99 1 9216 ?a w" by (rule block_can_join) (use w in simp_all)
  have "\<exists>w1 w2 b. pth_cancel tenv (\<lambda>_. 1) 99 9216 (w, ()) = Some (Inr True, w1, ())
    \<and> qs_ok (qw w1) UNIV (?Q(pth_NQ := (?Q pth_NQ)(6 := remove1 9216 (?Q pth_NQ 6)), pth_DQ := (?Q pth_DQ)(6 := ?Q pth_DQ 6 @ [9216])))
    \<and> pth_join tenv (\<lambda>_. 1) 99 7 9216 (w1, ()) = Some (0, Some PTH_CANCELED, w2, ())
    \<and> qs_ok (qw w2) UNIV (?Q(pth_NQ := (?Q pth_NQ)(6 := remove1 9216 (?Q pth_NQ 6))))
    \<and> cal_R (mem w2) b \<and> given b = (given ?a)(order_of (tcb_room tenv) := given ?a (order_of (tcb_room tenv)) - {9216})"
    by (rule cancel_join [OF w(1) _ _ _ _ c _ _ w(3) tcb_known_tenv j]) (use ne w(7) in simp_all)
  then show ?thesis by auto
qed

text \<open>
  A thread that has run and is ready or waits is only marked, even when it accepts asynchronous
  cancellation: it stays in its queue, with its state, until it reaches a cancellation point.
\<close>

theorem cancel_marks_only:
  fixes w :: "'a tworld_scheme" and k :: 'k
  assumes "cal_R (mem w) a" "tcb_known E a" and "t \<noteq> 0" "magic (threads w t)" "\<And>s. self s = d" "t \<noteq> current (natives w d)"
    and "boundnative (threads w t) = 0" "\<not> cancelreq (threads w t)"
    and "tstate (threads w t) \<in> {PTH_STATE_READY, PTH_STATE_WAITING, PTH_STATE_MUTEX_WAITING}"
  shows "pth_cancel E self scheduler t (w, k) = Some (Inr True, upd_thread t (\<lambda>x. x\<lparr>cancelreq := True\<rparr>) w, k)"
  using assms thread_exists_known [OF assms(1-3)] by (auto simp: pth_cancel_def Let_def upd_thread_def)

theorem cancel_marks_only_witness:
  "\<exists>w w1 :: tworld. pth_cancel tenv (\<lambda>_. 1) 99 9216 (w, ()) = Some (Inr True, w1, ()) \<and> tstate (threads w1 9216) = PTH_STATE_READY
    \<and> has (cancelstate (threads w1 9216)) PTH_CANCEL_ASYNCHRONOUS"
proof -
  let ?x = "a_thread\<lparr>tstate := PTH_STATE_READY, cancelstate := set_flag PTH_CANCEL_ASYNCHRONOUS PTH_CANCEL_ENABLE\<rparr>"
  obtain w :: tworld and ts where w: "threads w = (\<lambda>_. a_thread)(9216 := ?x)"
    "cal_R (mem w) \<lparr>frees = (\<lambda>_. [])(10 := 10240 # ts), mchunks = (\<lambda>_. [])(10 := [8192]), given = (\<lambda>_. {})(10 := {9216})\<rparr>"
    "natives w = natives tw0" by (rule block_queued [of pth_DQ UNIV ?x, OF UNIV_I])
  have "pth_cancel tenv (\<lambda>_. 1) 99 9216 (w, ()) = Some (Inr True, upd_thread 9216 (\<lambda>x. x\<lparr>cancelreq := True\<rparr>) w, ())"
    by (rule cancel_marks_only [OF w(2) tcb_known_tenv, where d = 1]) (simp_all add: w(1,3) a_thread_def a_native_def)
  moreover have "threads (upd_thread 9216 (\<lambda>x. x\<lparr>cancelreq := True\<rparr>) w) 9216 = ?x\<lparr>cancelreq := True\<rparr>"
    by (simp add: upd_thread_def w(1))
  then have "tstate (threads (upd_thread 9216 (\<lambda>x. x\<lparr>cancelreq := True\<rparr>) w) 9216) = PTH_STATE_READY"
    "has (cancelstate (threads (upd_thread 9216 (\<lambda>x. x\<lparr>cancelreq := True\<rparr>) w) 9216)) PTH_CANCEL_ASYNCHRONOUS"
    by (simp_all add: PTH_CANCEL_ENABLE_def PTH_CANCEL_ASYNCHRONOUS_def)
  ultimately show ?thesis by blast
qed

text \<open>
  \<open>pth_abort\<close> of a dead thread joins it and then returns FALSE, because the result 0 of
  \<open>pth_join\<close> is taken for a failure.
\<close>

theorem abort_dead:
  fixes w :: "'a tworld_scheme" and k :: 'k
  assumes "qs_ok (qw w) S Q" "pth_DQ \<in> S" and "t \<in> set (Q pth_DQ i)" "i < 140" "tstate (threads w t) = PTH_STATE_DEAD"
    and "cal_R (mem w) a" "tcb_known E a" and j: "can_join E scheduler d t a w" and d: "\<And>s. self s = d"
  shows "\<exists>w'. pth_abort E self scheduler kv t (w, k) = Some (Inr False, w', k) \<and> pth_threads_count w' = pth_threads_count w - 1"
proof -
  obtain w' where w': "pth_join E self scheduler kv t (w, k) = Some (0, Some (join_arg (threads w t)), w', k)"
    "pth_threads_count w' = pth_threads_count w - 1" by (rule join_dead [OF assms])
  have "t \<noteq> 0" "t \<noteq> current (natives w d)" "joinable (threads w t) \<noteq> 0" using j by (auto simp: can_join_def can_free_def)
  with w' assms(5) d show ?thesis by (simp add: pth_abort_def)
qed

theorem abort_dead_witness:
  "\<exists>w w' :: tworld. pth_abort tenv (\<lambda>_. 1) 99 7 9216 (w, ()) = Some (Inr False, w', ()) \<and> pth_threads_count w' = 5"
proof -
  let ?x = "a_thread\<lparr>tstate := PTH_STATE_DEAD, cancelstate := 0, join_arg := 33\<rparr>"
  let ?Q = "(\<lambda>_ _. [])(pth_DQ := (\<lambda>_. [])(6 := [9216])) :: nat \<Rightarrow> nat \<Rightarrow> nat list"
  obtain w :: tworld and ts where w: "qs_ok (qw w) UNIV ?Q" "threads w = (\<lambda>_. a_thread)(9216 := ?x)"
    "cal_R (mem w) \<lparr>frees = (\<lambda>_. [])(10 := 10240 # ts), mchunks = (\<lambda>_. [])(10 := [8192]), given = (\<lambda>_. {})(10 := {9216})\<rparr>" (is "cal_R _ ?a")
    "natives w = natives tw0" "keys w = key_world" "cleans w = clean_start" "pth_number_of_natives w = 2" "pth_threads_count w = 6"
    "pth_native_lock w = free_lock" by (rule block_queued [of pth_DQ UNIV ?x, OF UNIV_I])
  have j: "can_join tenv 99 1 9216 ?a w" by (rule block_can_join) (use w in simp_all)
  have "\<exists>w'. pth_abort tenv (\<lambda>_. 1) 99 7 9216 (w, ()) = Some (Inr False, w', ()) \<and> pth_threads_count w' = pth_threads_count w - 1"
    by (rule abort_dead [where i = 6, OF w(1) _ _ _ _ w(3) tcb_known_tenv j]) (use w(2) in simp_all)
  then obtain w' where "pth_abort tenv (\<lambda>_. 1) 99 7 9216 (w, ()) = Some (Inr False, w', ())" "pth_threads_count w' = pth_threads_count w - 1" by blast
  then show ?thesis unfolding w(8) by (intro exI conjI) simp_all
qed

subsection \<open>The native of the caller\<close>

text \<open>The stacks of the threads that run at a time are apart.\<close>

definition stacks_apart :: "('a world_scheme) \<Rightarrow> bool" where
  "stacks_apart w \<longleftrightarrow> (\<forall>d \<in> set (natives_in_use w). \<forall>e \<in> set (natives_in_use w). \<forall>sp. sp_on sp d w \<longrightarrow> sp_on sp e w \<longrightarrow> d = e)"

lemma stacks_apartD:
  assumes "stacks_apart w" "d \<in> set (natives_in_use w)" "e \<in> set (natives_in_use w)" "sp_on sp d w" "sp_on sp e w"
  shows "d = e"
  using assms(1)[unfolded stacks_apart_def, rule_format, OF assms(2-5)] .

lemma natives_in_use_native_lock [simp]: "natives_in_use (w\<lparr>pth_native_lock := l\<rparr>) = natives_in_use w"
  by (simp add: natives_in_use_def del: upt_Suc)

lemma find_unique:
  assumes "x \<in> set xs" "P x" "\<And>y. y \<in> set xs \<Longrightarrow> P y \<Longrightarrow> y = x"
  shows "find P xs = Some x"
proof (cases "find P xs")
  case None
  with assms(1,2) show ?thesis by (simp add: find_None_iff)
next
  case (Some y)
  then have "y \<in> set xs" "P y" by (auto simp: find_Some_iff)
  from assms(3) [OF this] Some show ?thesis by simp
qed

text \<open>
  A caller is told the native on whose current stack it runs.  A stack pointer outside all of
  them, as that of a native that runs its scheduler, is looked up by the kernel thread.
\<close>

theorem native_of_caller:
  assumes "current (natives w pth_first_native) \<noteq> 0" and "qfree (pth_native_lock w)" "qcount (pth_native_lock w) = 0" "i \<noteq> 0"
    and "stacks_apart w" and "d \<in> set (natives_in_use w)" "is_used (natives w d)" "tid (natives w d) = i"
    and "\<And>e. e \<in> set (natives_in_use w) \<Longrightarrow> is_used (natives w e) \<Longrightarrow> tid (natives w e) = i \<Longrightarrow> e = d"
    and "sp_on sp d w \<or> (\<forall>e \<in> set (natives_in_use w). \<not> sp_on sp e w)"
  shows "get_native_descr sp i w = Some (d, w)"
proof (cases "sp_on sp d w")
  case True
  have "y = d" if "y \<in> set (natives_in_use w)" "sp_on sp y w" for y
    by (rule stacks_apartD [OF assms(5) that(1) assms(6) that(2) True])
  then have "find (\<lambda>d. sp_on sp d w) (natives_in_use w) = Some d" by (rule find_unique [OF assms(6), of "\<lambda>d. sp_on sp d w", OF True])
  with assms(1) show ?thesis by (simp add: get_native_descr_def)
next
  case False
  then have "find (\<lambda>d. sp_on sp d w) (natives_in_use w) = None" using assms(10) by (simp add: find_None_iff)
  moreover obtain l where l: "pth_acquire_lock i (pth_native_lock w) = Some l" "snd (pth_release_lock i l) = pth_native_lock w"
    by (rule acquire_release_same [OF assms(2-4)])
  moreover have "find (\<lambda>d. is_used (natives w d) \<and> tid (natives w d) = i) (natives_in_use w) = Some d"
  proof (rule find_unique [OF assms(6)])
    show "y = d" if "y \<in> set (natives_in_use w)" "is_used (natives w y) \<and> tid (natives w y) = i" for y
      by (rule assms(9)) (use that in simp_all)
  qed (simp add: assms(7,8))
  then have "pth_find_native_by_tid i (w\<lparr>pth_native_lock := l\<rparr>) = d" by (simp add: pth_find_native_by_tid_def)
  ultimately show ?thesis using assms(1) by (simp add: get_native_descr_def lock_native_def unlock_native_def)
qed

definition tw_stacks :: tworld where
  "tw_stacks = tw0\<lparr>threads := (\<lambda>t. a_thread\<lparr>t_stack := t * 200 - 100, stackbottom := t * 200\<rparr>)\<rparr>"

lemma tw_stacks_sel:
  "natives tw_stacks = (\<lambda>d. (a_native d)\<lparr>is_used := d \<le> 2\<rparr>)" "pth_native_lock tw_stacks = free_lock"
  "natives_in_use tw_stacks = [1, 2]" "sp_on sp (Suc 0) tw_stacks \<longleftrightarrow> 100 \<le> sp \<and> sp \<le> 200" "sp_on sp 2 tw_stacks \<longleftrightarrow> 300 \<le> sp \<and> sp \<le> 400"
  by (auto simp: tw_stacks_def natives_in_use_def upt_conv_Cons sp_on_def a_native_def)

theorem native_of_caller_witness:
  "get_native_descr 150 1 tw_stacks = Some (1, tw_stacks) \<and> get_native_descr 350 2 tw_stacks = Some (2, tw_stacks)
    \<and> get_native_descr 900 2 tw_stacks = Some (2, tw_stacks)"
proof -
  have s: "stacks_apart tw_stacks" unfolding stacks_apart_def tw_stacks_sel(3) by (auto simp: tw_stacks_sel)
  have c: "current (natives tw_stacks pth_first_native) \<noteq> 0" "qfree (pth_native_lock tw_stacks)" "qcount (pth_native_lock tw_stacks) = 0"
    by (simp_all add: tw_stacks_sel(1,2) pth_first_native_def a_native_def free_lock_def qfree_def)
  have t: "tid (natives tw_stacks e) = e" "is_used (natives tw_stacks e) \<longleftrightarrow> e \<le> 2" for e by (simp_all add: tw_stacks_sel(1) a_native_def)
  have "get_native_descr 150 1 tw_stacks = Some (1, tw_stacks)"
    by (rule native_of_caller [OF c _ s]) (simp_all add: tw_stacks_sel(3-5) t)
  moreover have "get_native_descr 350 2 tw_stacks = Some (2, tw_stacks)"
    by (rule native_of_caller [OF c _ s]) (simp_all add: tw_stacks_sel(3-5) t)
  moreover have "get_native_descr 900 2 tw_stacks = Some (2, tw_stacks)"
    by (rule native_of_caller [OF c _ s]) (simp_all add: tw_stacks_sel(3-5) t)
  ultimately show ?thesis by simp
qed

end
