(* ===== verification/SchedProps.thy ===== *)
theory SchedProps
  imports Scheduler ThreadProps
begin

text \<open>
  Properties of the scheduler: the load average, where new threads go, which thread runs next, where
  a thread goes that comes back, and that ready threads of one priority run in turn.
\<close>

subsection \<open>Operations that take a lock while others are held\<close>

lemma held_total_zero:
  assumes "qs_held L c S Q" and "q \<in> S"
  shows "pqueue_total q c = 0 \<longleftrightarrow> (\<forall>i<140. Q q i = [])"
  using assms pq_rep_total_zero [of c q "Q q"] by (auto simp: qs_held_def pqs_rep_def pqueue_total_def pqueue_total_nolock_def)

lemma spin_lock_queues: "spin_lock_pq q c = Some c1 \<Longrightarrow> queues c1 = queues c"
  by (auto simp: spin_lock_pq_def upd_pqueue_def split: if_splits)

lemma held_append_lock:
  assumes "qs_held L c S Q" and "q \<in> S" "q \<notin> L" and "can_enter c Q q n i"
  obtains c' where "pqueue_append_node q n c = Some c'" "qs_held L c' S (Q(q := (Q q)(i := Q q i @ [n])))" "same_nodes n c c'"
proof -
  obtain c1 where c1: "spin_lock_pq q c = Some c1" "qs_held (insert q L) c1 S Q" "nodes c1 = nodes c"
    by (rule held_lock [OF assms(1,3)])
  have "can_enter c1 Q q n i" using assms(4) c1(3) by (simp add: can_enter_def)
  then obtain c2 where c2: "pqueue_append_node_nolock q n c1 = Some c2" "qs_held (insert q L) c2 S (Q(q := (Q q)(i := Q q i @ [n])))" "same_nodes n c1 c2"
    by (rule held_append [OF c1(2) assms(2)])
  have "qs_held L (spin_unlock_pq q c2) S (Q(q := (Q q)(i := Q q i @ [n])))"
    using held_unlock(1) [OF c2(2), of q] assms(3) by (simp add: Diff_insert_absorb)
  moreover have "same_nodes n c (spin_unlock_pq q c2)"
    using c2(3) c1(2,3) spin_lock_queues [OF c1(1)] assms(1,3) by (auto simp: same_nodes_def qs_held_def spin_unlock_pq_def)
  ultimately show ?thesis using that c1(1) c2(1) by (simp add: pqueue_append_node_def)
qed

lemma held_prepend_second_lock:
  assumes "qs_held L c S Q" and "q \<in> S" "q \<notin> L" and "can_enter c Q q n i"
  obtains c' where "pqueue_prepend_second_node q n c = Some c'" "qs_held L c' S (Q(q := (Q q)(i := insert_second n (Q q i))))" "same_nodes n c c'"
proof -
  obtain c1 where c1: "spin_lock_pq q c = Some c1" "qs_held (insert q L) c1 S Q" "nodes c1 = nodes c"
    by (rule held_lock [OF assms(1,3)])
  have "can_enter c1 Q q n i" "pqs_rep c1 S Q" using assms(4) c1(2,3) by (simp_all add: can_enter_def qs_held_def)
  then obtain c2 where c2: "pqueue_prepend_second_node_nolock q n c1 = Some c2" "pqs_rep c2 S (Q(q := (Q q)(i := insert_second n (Q q i))))" "same_nodes n c1 c2"
    using pqueue_prepend_second_node_rep [OF _ assms(2)] by blast
  then have "qs_held (insert q L) c2 S (Q(q := (Q q)(i := insert_second n (Q q i))))" using c1(2) by (auto simp: qs_held_def same_nodes_def)
  from held_unlock(1) [OF this, of q] have "qs_held L (spin_unlock_pq q c2) S (Q(q := (Q q)(i := insert_second n (Q q i))))"
    using assms(3) by (simp add: Diff_insert_absorb)
  moreover have "same_nodes n c (spin_unlock_pq q c2)"
    using c2(3) c1(2,3) spin_lock_queues [OF c1(1)] assms(1,3) by (auto simp: same_nodes_def qs_held_def spin_unlock_pq_def)
  ultimately show ?thesis using that c1(1) c2(1) by (simp add: pqueue_prepend_second_node_def)
qed

subsection \<open>The head of a queue\<close>

lemma pq_order_top:
  assumes "i < 140" and "\<And>j. i < j \<Longrightarrow> j < 140 \<Longrightarrow> A j = []"
  shows "pq_order A = A i @ concat (map A (rev [0..<i]))"
proof -
  have "concat (map A (rev [Suc i..<140])) = []" using assms(2) by (intro concat_map_Nil) auto
  then show ?thesis using pq_order_split [OF assms(1), of A] by simp
qed

lemma pq_order_top_level:
  assumes "pq_order A \<noteq> []"
  obtains i where "i < 140" "A i \<noteq> []" "\<And>j. i < j \<Longrightarrow> j < 140 \<Longrightarrow> A j = []"
proof -
  obtain t where "t \<in> set (pq_order A)" using assms by (cases "pq_order A") auto
  then obtain k where "k < 140" "t \<in> set (A k)" by (auto simp: in_pq_order)
  then have k: "k < 140 \<and> A k \<noteq> []" by auto
  define m where "m = (GREATEST i. i < 140 \<and> A i \<noteq> [])"
  have m: "m < 140 \<and> A m \<noteq> []" 
    unfolding m_def by (rule GreatestI_nat [where P = "\<lambda>i. i < 140 \<and> A i \<noteq> []" and b = 140, OF k]) simp
  have "A j = []" if "m < j" "j < 140" for j
    using Greatest_le_nat [of "\<lambda>i. i < 140 \<and> A i \<noteq> []" j 140] that unfolding m_def by (cases "A j = []") simp_all
  with m show ?thesis by (intro that [of m]) simp_all
qed

lemma pq_order_head:
  assumes "pq_order A = t # ts"
  obtains i where "i < 140" "A i = t # tl (A i)" "\<forall>j<140. i < j \<longrightarrow> A j = []"
    "pq_order (A(i := tl (A i))) = ts"
proof -
  obtain i where i: "i < 140" "A i \<noteq> []" and above: "\<And>j. i < j \<Longrightarrow> j < 140 \<Longrightarrow> A j = []"
    by (rule pq_order_top_level [of A]) (use assms in auto)
  have o: "pq_order A = A i @ concat (map A (rev [0..<i]))" by (rule pq_order_top [OF i(1) above])
  have "pq_order (A(i := tl (A i))) = tl (A i) @ concat (map (A(i := tl (A i))) (rev [0..<i]))"
    using pq_order_top [OF i(1), of "A(i := tl (A i))"] above by simp
  moreover have "map (A(i := tl (A i))) (rev [0..<i]) = map A (rev [0..<i])" by (intro map_cong) auto
  ultimately have o': "pq_order (A(i := tl (A i))) = tl (A i) @ concat (map A (rev [0..<i]))" by simp
  from o assms i(2) have "A i = t # tl (A i)" by (cases "A i") simp_all
  moreover from o o' assms i(2) have "pq_order (A(i := tl (A i))) = ts" by (cases "A i") simp_all
  ultimately show ?thesis using above by (intro that [OF i(1)]) simp_all
qed

subsection \<open>The load average\<close>

lemma sint_sub_pos:
  assumes "0 \<le> sint a" and "0 < sint (b :: 64 word)"
  shows "sint (a - b) = sint a - sint b"
proof -
  have "- (2 ^ 63) \<le> sint a - sint b" "sint a - sint b < 2 ^ 63"
    using assms sint_less [of a] sint_less [of b] by simp_all
  then have "sint (word_of_int (sint a - sint b) :: 64 word) = sint a - sint b"
    by (rule sint_word_of_int_small)
  then show ?thesis by simp
qed

text \<open>The average is made once for each tick that has passed.\<close>

lemma load_loop_result:
  assumes "0 < sint gap" and "0 \<le> sint (pth_time_cmp ttmp ticknext)"
  shows "load_loop n gap ticknext ttmp v =
    Some ((load_step n ^^ Suc (nat (sint (pth_time_cmp ttmp ticknext) div sint gap))) v)"
  using assms(2)
proof (induction "nat (sint (pth_time_cmp ttmp ticknext))" arbitrary: ttmp v rule: less_induct)
  case less
  let ?a = "sint (pth_time_cmp ttmp ticknext)" and ?t = "pth_time_sub ttmp gap" and ?v = "load_step n v"
  have "pth_time_cmp ?t ticknext = pth_time_cmp ttmp ticknext - gap" by (simp add: pth_time_cmp_def pth_time_sub_def)
  then have t: "sint (pth_time_cmp ?t ticknext) = ?a - sint gap" using sint_sub_pos [OF less.prems assms(1)] by simp
  show ?case
  proof (cases "?a - sint gap \<ge> 0")
    case True
    have "nat (?a - sint gap) < nat ?a" using True assms(1) by simp
    from less.hyps [of ?t, unfolded t, OF this True, of ?v] have
      "load_loop n gap ticknext ?t ?v = Some ((load_step n ^^ Suc (nat ((?a - sint gap) div sint gap))) ?v)" by (simp add: t)
    moreover have "nat (?a div sint gap) = Suc (nat ((?a - sint gap) div sint gap))"
    proof -
      have "?a div sint gap = (?a - sint gap) div sint gap + 1" using assms(1) div_add_self2 [of "sint gap" "?a - sint gap"] by simp
      moreover have "(?a - sint gap) div sint gap \<ge> 0" using True assms(1) by (simp add: pos_imp_zdiv_nonneg_iff)
      ultimately show ?thesis by simp
    qed
    ultimately show ?thesis using True by (subst load_loop.simps) (simp add: Let_def t funpow_swap1)
  next
    case False
    then have "?a div sint gap = 0" using less.prems by (simp add: div_pos_pos_trivial)
    with False show ?thesis by (subst load_loop.simps) (simp add: Let_def t)
  qed
qed

lemma load_ends:
  assumes "0 < sint (pth_loadtickgap w)"
  shows "\<exists>w'. pth_scheduler_load now rq w = Some w'"
  using load_loop_result [OF assms] by (cases "0 \<le> sint (pth_time_cmp now (pth_loadticknext w))") (simp_all add: pth_scheduler_load_def)

lemma load_loop_stuck:
  assumes "0 \<le> sint (pth_time_cmp ttmp ticknext)"
  shows "load_loop n 0 ticknext ttmp v = None"
proof -
  have False if "load_loop n 0 ticknext ttmp v = Some y" for y
  proof -
    have "\<not> ((0 :: pth_time_t) = 0 \<and> 0 \<le> sint (pth_time_cmp ttmp ticknext))"
    proof (rule load_loop.raw_induct [where P = "\<lambda>n gap ticknext ttmp v y. \<not> (gap = 0 \<and> 0 \<le> sint (pth_time_cmp ttmp ticknext))", OF _ that])
      fix load n gap ticknext ttmp v y
      assume IH: "\<And>n gap ticknext ttmp v y. load n gap ticknext ttmp v = Some y \<Longrightarrow> \<not> (gap = 0 \<and> 0 \<le> sint (pth_time_cmp ttmp ticknext))"
        and e: "(let v1 = load_step n v; t1 = pth_time_sub ttmp gap
          in if 0 \<le> sint (pth_time_cmp t1 ticknext) then load n gap ticknext t1 v1 else Some v1) = Some y"
      from e IH [of n gap ticknext "pth_time_sub ttmp gap" "load_step n v" y]
      show "\<not> (gap = 0 \<and> 0 \<le> sint (pth_time_cmp ttmp ticknext))"
        by (auto simp: Let_def pth_time_sub_def split: if_splits)
    qed
    with assms show False by simp
  qed
  then show ?thesis by (cases "load_loop n 0 ticknext ttmp v") auto
qed

subsection \<open>New threads become ready\<close>

text \<open>The queues after the new threads of \<open>nq\<close> have entered \<open>rq\<close>, and their state.\<close>

definition moved :: "nat \<Rightarrow> nat \<Rightarrow> (nat \<Rightarrow> nat \<Rightarrow> nat list) \<Rightarrow> (nat \<Rightarrow> nat \<Rightarrow> nat list) \<Rightarrow> bool" where
  "moved nq rq Q Q' \<longleftrightarrow> (\<forall>i<140. Q' nq i = [] \<and> Q' rq i = fold insert_second (Q nq i) (Q rq i)) \<and> (\<forall>q. q \<noteq> nq \<longrightarrow> q \<noteq> rq \<longrightarrow> Q' q = Q q)"

definition made_ready :: "nat set \<Rightarrow> (nat \<Rightarrow> pth_st) \<Rightarrow> nat \<Rightarrow> pth_st" where
  "made_ready T h t = (if t \<in> T then (h t)\<lparr>tstate := PTH_STATE_READY\<rparr> else h t)"

lemma made_ready_none [simp]: "made_ready {} h = h"
  by (simp add: made_ready_def fun_eq_iff)

lemma length_insert_second [simp]: "length (insert_second n xs) = Suc (length xs)"
  by (simp add: insert_second_def split: list.splits)

lemma new_step:
  assumes "qs_held L (qw w) S Q" "nq \<in> S" "rq \<in> S" "nq \<noteq> rq" "rq \<notin> L" and "pq_order (Q nq) = t # ts" "t \<noteq> 0"
    and "Suc (\<Sum>k<140. length (Q rq k)) < 2 ^ 32"
  obtains c i where "i < 140" "Q nq i = t # tl (Q nq i)" "pq_order ((Q nq)(i := tl (Q nq i))) = ts"
    "new_loop nq rq w = new_loop nq rq (w\<lparr>threads := made_ready {t} (threads w), qw := c\<rparr>)"
    "qs_held L c S (Q(nq := (Q nq)(i := tl (Q nq i)), rq := (Q rq)(i := insert_second t (Q rq i))))"
proof -
  obtain i where i: "i < 140" "Q nq i = t # tl (Q nq i)" "pq_order ((Q nq)(i := tl (Q nq i))) = ts"
    by (rule pq_order_head [OF assms(6)])
  have "t \<in> set (Q nq i)" by (subst i(2)) simp
  from held_delete [OF assms(1,2) i(1) this] obtain c1 where c1: "pqueue_delete_node_nolock t (qw w) = Some c1"
    "qs_held L c1 S (Q(nq := (Q nq)(i := remove1 t (Q nq i))))" "same_nodes t (qw w) c1" "node_lt (nodes c1 t) = node_lt_nowhere"
    by metis
  have r: "remove1 t (Q nq i) = tl (Q nq i)" by (subst i(2)) simp
  let ?Q = "Q(nq := (Q nq)(i := tl (Q nq i)))"
  have "priority (nodes (qw w) t) = int i" using qs_held_node(2) [OF assms(1,2) i(1)] i(2) by (metis list.set_intros(1))
  then have "can_enter c1 ?Q rq t i" using c1(3,4) i(1) assms(4,8) by (simp add: can_enter_def same_nodes_def)
  from held_prepend_second_lock [OF c1(2) [unfolded r] assms(3,5) this] obtain c2 where
    c2: "pqueue_prepend_second_node rq t c1 = Some c2" "qs_held L c2 S (?Q(rq := (?Q rq)(i := insert_second t (?Q rq i))))" by metis
  have "pqueue_total nq (qw w) \<noteq> 0" using held_total_zero [OF assms(1,2)] i(1,2) by (metis list.distinct(1))
  moreover have "pqueue_first_node_nolock nq (qw w) = Some t" using held_first [OF assms(1,2)] assms(6) by simp
  ultimately have "new_loop nq rq w = new_loop nq rq (w\<lparr>threads := made_ready {t} (threads w), qw := c2\<rparr>)"
    using c1(1) c2(1) assms(7)
    by (subst new_loop.simps) (auto simp: thread_by_node_def upd_qw_def upd_thread_def made_ready_def fun_eq_iff intro!: arg_cong [where f = "new_loop nq rq"])
  with i c2(2) assms(4) that show ?thesis by simp
qed

lemma pq_order_Nil: "pq_order A = [] \<longleftrightarrow> (\<forall>i<140. A i = [])"
  by (auto simp: pq_order_def)

lemma moved_step:
  assumes "moved nq rq (Q(nq := (Q nq)(i := xs), rq := (Q rq)(i := insert_second t (Q rq i)))) Q'" and "nq \<noteq> rq" and "Q nq i = t # xs"
  shows "moved nq rq Q Q'"
  unfolding moved_def
proof (intro conjI allI impI)
  fix j :: nat
  assume j: "j < 140"
  show "Q' nq j = []" using assms(1) j by (simp add: moved_def)
  show "Q' rq j = fold insert_second (Q nq j) (Q rq j)" using assms j by (cases "j = i") (simp_all add: moved_def)
next
  fix q
  assume "q \<noteq> nq" "q \<noteq> rq"
  then show "Q' q = Q q" using assms(1) by (simp add: moved_def)
qed

lemma new_loop_result:
  assumes "qs_held L (qw w) S Q" "nq \<in> S" "rq \<in> S" "nq \<noteq> rq" "rq \<notin> L" and "0 \<notin> set (pq_order (Q nq))"
    and "length (pq_order (Q nq)) + length (pq_order (Q rq)) < 2 ^ 32"
  obtains c Q' where "new_loop nq rq w = Some (w\<lparr>threads := made_ready (set (pq_order (Q nq))) (threads w), qw := c\<rparr>)"
    "qs_held L c S Q'" "moved nq rq Q Q'"
  using assms
proof (induction "pq_order (Q nq)" arbitrary: w Q thesis)
  case Nil
  have "pq_order (Q nq) = []" using Nil.hyps by (rule sym)
  then have e: "\<forall>i<140. Q nq i = []" by (simp only: pq_order_Nil)
  then have "pqueue_total nq (qw w) = 0" using held_total_zero [OF Nil.prems(2,3)] by simp
  then have "new_loop nq rq w = Some (w\<lparr>threads := made_ready (set (pq_order (Q nq))) (threads w), qw := qw w\<rparr>)"
    using \<open>pq_order (Q nq) = []\<close> by (subst new_loop.simps) simp
  from Nil.prems(1) [OF this Nil.prems(2)] e show ?case by (simp add: moved_def)
next
  case (Cons t ts)
  have o: "pq_order (Q nq) = t # ts" using Cons.hyps(2) by simp
  have nz: "t \<noteq> 0" using Cons.prems(7) o by auto
  have room: "Suc (\<Sum>k<140. length (Q rq k)) < 2 ^ 32" using Cons.prems(8) o by (simp add: length_pq_order)
  obtain c i where i: "i < 140" "Q nq i = t # tl (Q nq i)" "pq_order ((Q nq)(i := tl (Q nq i))) = ts"
    and c: "new_loop nq rq w = new_loop nq rq (w\<lparr>threads := made_ready {t} (threads w), qw := c\<rparr>)"
      "qs_held L c S (Q(nq := (Q nq)(i := tl (Q nq i)), rq := (Q rq)(i := insert_second t (Q rq i))))"
    by (rule new_step [OF Cons.prems(2-6) o nz room])
  let ?w = "w\<lparr>threads := made_ready {t} (threads w), qw := c\<rparr>"
  let ?Q = "Q(nq := (Q nq)(i := tl (Q nq i)), rq := (Q rq)(i := insert_second t (Q rq i)))"
  have n: "?Q nq = (Q nq)(i := tl (Q nq i))" "?Q rq = (Q rq)(i := insert_second t (Q rq i))" using Cons.prems(5) by simp_all
  have a: "ts = pq_order (?Q nq)" using i(3) by (simp only: n)
  have b: "length (pq_order (?Q nq)) + length (pq_order (?Q rq)) < 2 ^ 32"
  proof -
    have "length (pq_order (?Q rq)) = Suc (length (pq_order (Q rq)))"
      using sum_length_upd [OF i(1), of "Q rq" "insert_second t (Q rq i)"] by (simp only: n length_pq_order length_insert_second)
    with Cons.prems(8) o i(3) show ?thesis by (simp only: n) simp
  qed
  have h: "qs_held L (qw ?w) S ?Q" "0 \<notin> set (pq_order (?Q nq))" using c(2) Cons.prems(7) o i(3) by (simp, simp only: n) simp
  obtain c' Q' where c': "new_loop nq rq ?w = Some (?w\<lparr>threads := made_ready (set (pq_order (?Q nq))) (threads ?w), qw := c'\<rparr>)"
    "qs_held L c' S Q'" "moved nq rq ?Q Q'"
    by (rule Cons.hyps(1) [OF a _ h(1) Cons.prems(3-6) h(2) b])
  have "moved nq rq Q Q'" by (rule moved_step [OF c'(3) Cons.prems(5) i(2)])
  moreover have "made_ready (set (pq_order (?Q nq))) (threads ?w) = made_ready (set (pq_order (Q nq))) (threads w)"
    using i(3) by (auto simp only: n o) (auto simp: made_ready_def fun_eq_iff)
  ultimately show ?case using Cons.prems(1) c(1) c' by simp
qed

lemma new_to_ready_result:
  assumes "qs_ok (qw w) S Q" "nq \<in> S" "rq \<in> S" "nq \<noteq> rq" and "\<not> is_bounded (natives w d)" "0 \<notin> set (pq_order (Q nq))"
    and "length (pq_order (Q nq)) + length (pq_order (Q rq)) < 2 ^ 32"
  obtains c Q' where "new_to_ready d nq rq w = Some (w\<lparr>threads := made_ready (set (pq_order (Q nq))) (threads w), qw := c\<rparr>)"
    "qs_ok c S Q'" "moved nq rq Q Q'"
proof -
  have "qs_held {} (qw w) S Q" using assms(1) by (simp add: qs_held_none)
  from held_lock [OF this, of nq] obtain c1 where c1: "spin_lock_pq nq (qw w) = Some c1" "qs_held {nq} c1 S Q" by auto
  have "rq \<notin> {nq}" "qs_held {nq} (qw (w\<lparr>qw := c1\<rparr>)) S Q" using assms(4) c1(2) by simp_all
  then obtain c2 Q' where c2:
    "new_loop nq rq (w\<lparr>qw := c1\<rparr>) = Some (w\<lparr>qw := c1, threads := made_ready (set (pq_order (Q nq))) (threads (w\<lparr>qw := c1\<rparr>)), qw := c2\<rparr>)"
    "qs_held {nq} c2 S Q'" "moved nq rq Q Q'"
    using new_loop_result [OF _ assms(2-4) _ assms(6,7), of "{nq}" "w\<lparr>qw := c1\<rparr>"] by metis
  have "qs_ok (spin_unlock_pq nq c2) S Q'" using held_unlock(1) [OF c2(2), of nq] by (simp add: qs_held_none)
  then show ?thesis using that c1(1) c2(1,3) assms(5) by (simp add: new_to_ready_def upd_qw_def)
qed

subsection \<open>The choice of the next thread\<close>


lemma pick_locked:
  assumes "qs_ok (qw w) S Q" "rq \<in> S" "pq_order (Q rq) = t # ts"
  obtains c1 c2 i where "spin_lock_pq rq (qw w) = Some c1" "pqueue_total_nolock rq c1 > 0" "pqueue_first_node_nolock rq c1 = Some t"
    "pqueue_delete_node_nolock t c1 = Some c2" "i < 140" "Q rq i = t # tl (Q rq i)" "\<forall>j<140. i < j \<longrightarrow> Q rq j = []"
    "pq_order ((Q rq)(i := tl (Q rq i))) = ts" "qs_held {rq} c2 S (Q(rq := (Q rq)(i := tl (Q rq i))))"
    "same_nodes t (qw w) (spin_unlock_pq rq c2)" "node_lt (nodes c2 t) = node_lt_nowhere" "bp (nodes c2 t) = NoQ"
proof -
  have h: "qs_held {} (qw w) S Q" using assms(1) by (simp add: qs_held_none)
  from held_lock [OF this, of rq] obtain c1 where c1: "spin_lock_pq rq (qw w) = Some c1" "qs_held {rq} c1 S Q" "nodes c1 = nodes (qw w)" by auto
  obtain i where i: "i < 140" "Q rq i = t # tl (Q rq i)" "\<forall>j<140. i < j \<longrightarrow> Q rq j = []" "pq_order ((Q rq)(i := tl (Q rq i))) = ts"
    by (rule pq_order_head [OF assms(3)])
  have "t \<in> set (Q rq i)" by (subst i(2)) simp
  from held_delete [OF c1(2) assms(2) i(1) this] obtain c2 where c2: "pqueue_delete_node_nolock t c1 = Some c2"
    "qs_held {rq} c2 S (Q(rq := (Q rq)(i := remove1 t (Q rq i))))" "same_nodes t c1 c2" "node_lt (nodes c2 t) = node_lt_nowhere" "bp (nodes c2 t) = NoQ"
    by metis
  have r: "remove1 t (Q rq i) = tl (Q rq i)" by (subst i(2)) simp
  have "pqueue_total_nolock rq c1 \<noteq> 0" using held_total_zero [OF c1(2) assms(2)] i(1,2) unfolding pqueue_total_def by (metis list.distinct(1))
  then have "pqueue_total_nolock rq c1 > 0" by (simp add: word_greater_zero_iff)
  moreover have "same_nodes t (qw w) (spin_unlock_pq rq c2)"
    using c2(3) c1(2,3) h spin_lock_queues [OF c1(1)] by (auto simp: same_nodes_def qs_held_def spin_unlock_pq_def)
  moreover have "pqueue_first_node_nolock rq c1 = Some t" using held_first [OF c1(2) assms(2)] assms(3) by simp
  ultimately show ?thesis using that [OF c1(1) _ _ c2(1) i _ _ c2(4,5)] c2(2) r by simp
qed

text \<open>The thread at the head of the queue is taken if it may run here.\<close>

lemma pick_head:
  assumes "qs_ok (qw w) S Q" "rq \<in> S" "pq_order (Q rq) = t # ts" "t \<noteq> 0" "boundnative (threads w t) \<in> {0, d}"
  obtains c i where "sched_pick d rq w = Some (t, w\<lparr>qw := c\<rparr>)" "i < 140" "Q rq i = t # tl (Q rq i)"
    "\<forall>j<140. i < j \<longrightarrow> Q rq j = []" "pq_order ((Q rq)(i := tl (Q rq i))) = ts" "qs_ok c S (Q(rq := (Q rq)(i := tl (Q rq i))))"
    "same_nodes t (qw w) c" "node_lt (nodes c t) = node_lt_nowhere"
proof -
  obtain c1 c2 i where p: "spin_lock_pq rq (qw w) = Some c1" "pqueue_total_nolock rq c1 > 0" "pqueue_first_node_nolock rq c1 = Some t"
    "pqueue_delete_node_nolock t c1 = Some c2" and i: "i < 140" "Q rq i = t # tl (Q rq i)" "\<forall>j<140. i < j \<longrightarrow> Q rq j = []"
    "pq_order ((Q rq)(i := tl (Q rq i))) = ts" and h: "qs_held {rq} c2 S (Q(rq := (Q rq)(i := tl (Q rq i))))"
    and n: "same_nodes t (qw w) (spin_unlock_pq rq c2)" "node_lt (nodes c2 t) = node_lt_nowhere"
    by (rule pick_locked [OF assms(1-3)])
  have "qs_ok (spin_unlock_pq rq c2) S (Q(rq := (Q rq)(i := tl (Q rq i))))" using held_unlock(1) [OF h, of rq] by (simp add: qs_held_none)
  moreover have "sched_pick d rq w = Some (t, w\<lparr>qw := spin_unlock_pq rq c2\<rparr>)"
    using p assms(4,5) by (auto simp: sched_pick_def upd_qw_def thread_by_node_def)
  ultimately show ?thesis using that i n held_unlock(2) [OF h, of rq] by simp
qed

lemma pick_loses_bound_step:
  assumes "qs_ok (qw w) S Q" "rq \<in> S" "pq_order (Q rq) = t # ts" "t \<noteq> 0"
    and "boundnative (threads w t) \<notin> {0, d, pth_first_native}"
    and "qfree (sched_lock (natives w (boundnative (threads w t))))" "qcount (sched_lock (natives w (boundnative (threads w t)))) = 0" "tid (natives w d) \<noteq> 0"
  obtains c A where "sched_pick d rq w = Some (0, write_sigpipe (boundnative (threads w t)) (w\<lparr>qw := c\<rparr>))" "pq_order A = ts"
    "qs_ok c S (Q(rq := A))" "bp (nodes c t) = NoQ"
proof -
  let ?bn = "boundnative (threads w t)"
  obtain c1 c2 i where p: "spin_lock_pq rq (qw w) = Some c1" "pqueue_total_nolock rq c1 > 0" "pqueue_first_node_nolock rq c1 = Some t"
    "pqueue_delete_node_nolock t c1 = Some c2" and i: "pq_order ((Q rq)(i := tl (Q rq i))) = ts"
    and h: "qs_held {rq} c2 S (Q(rq := (Q rq)(i := tl (Q rq i))))" and n: "bp (nodes c2 t) = NoQ"
    by (rule pick_locked [OF assms(1-3)])
  have "qs_ok (spin_unlock_pq rq c2) S (Q(rq := (Q rq)(i := tl (Q rq i))))" using held_unlock(1) [OF h, of rq] by (simp add: qs_held_none)
  moreover have "sched_pick d rq w = Some (0, write_sigpipe ?bn (w\<lparr>qw := spin_unlock_pq rq c2\<rparr>))"
  proof -
    obtain l where l: "pth_acquire_lock (tid (natives w d)) (sched_lock (natives w ?bn)) = Some l" "snd (pth_release_lock (tid (natives w d)) l) = sched_lock (natives w ?bn)"
      by (rule acquire_release_same [OF assms(6-8)])
    moreover have "pqueue_favor_nolock t c2 = Some c2" using n by (simp add: pqueue_favor_nolock_def)
    ultimately show ?thesis using p assms(4,5)
      by (simp add: sched_pick_def upd_qw_def thread_by_node_def lock_sched_def unlock_sched_def upd_native_def write_sigpipe_def fun_upd_idem)
  qed
  ultimately show ?thesis using that i n held_unlock(2) [OF h, of rq] by simp
qed

subsection \<open>A thread comes back\<close>

lemma held_total:
  assumes "qs_held L c S Q" and "q \<in> S"
  shows "unat (pqueue_total q c) = length (pq_order (Q q))"
proof -
  have "counts (pq_total (pqueues c q)) (\<Sum>k<140. length (Q q k))" using assms by (simp add: qs_held_def pqs_rep_def pq_rep_def)
  then show ?thesis using counts_unat by (simp only: pqueue_total_def pqueue_total_nolock_def length_pq_order)
qed

lemma requeue_none:
  assumes "qs_ok (qw w) S Q" "rq \<in> S"
  obtains c n where "requeue_ready rq 0 w = Some (n, w\<lparr>qw := c\<rparr>)" "qs_ok c S Q" "unat n = length (pq_order (Q rq))" "nodes c = nodes (qw w)"
proof -
  have "qs_held {} (qw w) S Q" using assms(1) by (simp add: qs_held_none)
  from held_lock [OF this, of rq] obtain c1 where c1: "spin_lock_pq rq (qw w) = Some c1" "qs_held {rq} c1 S Q" "nodes c1 = nodes (qw w)" by auto
  have "qs_ok (spin_unlock_pq rq c1) S Q" using held_unlock(1) [OF c1(2), of rq] by (simp add: qs_held_none)
  then show ?thesis using that c1 held_total [OF c1(2) assms(2)] held_unlock(2) [OF c1(2), of rq] by (simp add: requeue_ready_def upd_qw_def)
qed

lemma requeue_append:
  assumes "qs_ok (qw w) S Q" "rq \<in> S" "t \<noteq> 0" "can_enter (qw w) Q rq t i"
  obtains c n where "requeue_ready rq t w = Some (n, w\<lparr>qw := c\<rparr>)" "qs_ok c S (Q(rq := (Q rq)(i := Q rq i @ [t])))"
    "unat n = Suc (length (pq_order (Q rq)))" "same_nodes t (qw w) c"
proof -
  have h: "qs_held {} (qw w) S Q" using assms(1) by (simp add: qs_held_none)
  from held_lock [OF this, of rq] obtain c1 where c1: "spin_lock_pq rq (qw w) = Some c1" "qs_held {rq} c1 S Q" "nodes c1 = nodes (qw w)" by auto
  have "can_enter c1 Q rq t i" using assms(4) c1(3) by (simp add: can_enter_def)
  from held_append [OF c1(2) assms(2) this] obtain c2 where
    c2: "pqueue_append_node_nolock rq t c1 = Some c2" "qs_held {rq} c2 S (Q(rq := (Q rq)(i := Q rq i @ [t])))" "same_nodes t c1 c2" by metis
  have "qs_ok (spin_unlock_pq rq c2) S (Q(rq := (Q rq)(i := Q rq i @ [t])))" using held_unlock(1) [OF c2(2), of rq] by (simp add: qs_held_none)
  moreover have "unat (pqueue_total rq c2) = Suc (length (pq_order (Q rq)))"
    using held_total [OF c2(2) assms(2)] sum_length_upd [of i "Q rq" "Q rq i @ [t]"] assms(4) by (simp add: length_pq_order can_enter_def)
  moreover have "same_nodes t (qw w) (spin_unlock_pq rq c2)"
    using c2(3) c1(2,3) h spin_lock_queues [OF c1(1)] by (auto simp: same_nodes_def qs_held_def spin_unlock_pq_def)
  ultimately show ?thesis using that c1(1) c2(1) assms(3) by (simp add: requeue_ready_def upd_qw_def)
qed

lemma place_ready:
  assumes "tstate (threads w t) \<notin> {PTH_STATE_DEAD, PTH_STATE_EXIT, PTH_STATE_WAITING}" "\<not> should_suspend (threads w t)"
    and "qs_ok (qw w) S Q" "rq \<in> S" "t \<noteq> 0" "can_enter (qw w) Q rq t i"
  obtains c n where "place_thread E scheduler d rq t w = Some (Some n, w\<lparr>qw := c\<rparr>)" "qs_ok c S (Q(rq := (Q rq)(i := Q rq i @ [t])))"
    "unat n = Suc (length (pq_order (Q rq)))" "same_nodes t (qw w) c"
proof -
  obtain c n where c: "requeue_ready rq t w = Some (n, w\<lparr>qw := c\<rparr>)" "qs_ok c S (Q(rq := (Q rq)(i := Q rq i @ [t])))"
    "unat n = Suc (length (pq_order (Q rq)))" "same_nodes t (qw w) c"
    by (rule requeue_append [OF assms(3-6)])
  then show ?thesis using that assms(1,2,5) by (simp add: place_thread_def)
qed

lemma wait_in_result:
  assumes "qs_ok (qw w) S Q" "wait_queue ds \<in> S" "can_enter (qw w) Q (wait_queue ds) t i"
  obtains c where "wait_in ds t w = Some (upd_thread t (\<lambda>x. x\<lparr>waited_native := ds\<rparr>) (w\<lparr>qw := c\<rparr>))"
    "qs_ok c S (Q(wait_queue ds := (Q (wait_queue ds))(i := Q (wait_queue ds) i @ [t])))" "same_nodes t (qw w) c"
proof -
  obtain c where c: "pqueue_append_node (wait_queue ds) t (qw w) = Some c"
    "qs_ok c S (Q(wait_queue ds := (Q (wait_queue ds))(i := Q (wait_queue ds) i @ [t])))" "same_nodes t (qw w) c"
    by (rule append_locked [OF assms])
  then have "wait_in ds t w = Some (upd_thread t (\<lambda>x. x\<lparr>waited_native := ds\<rparr>) (w\<lparr>qw := c\<rparr>))"
    by (auto simp: wait_in_def pqueue_append_node_def upd_qw_def upd_thread_def split: bind_splits)
  then show ?thesis by (rule that) (rule c)+
qed

lemma place_waiting:
  assumes "tstate (threads w t) = PTH_STATE_WAITING" "\<not> should_suspend (threads w t)"
    and "boundnative (threads w t) = pth_first_native \<longrightarrow> d = pth_first_native" "\<not> (native_is_group_leader d \<and> is_bounded (natives w d))"
    and "qs_ok (qw w) S Q" "rq \<in> S" "wait_queue d \<in> S" "wait_queue d \<noteq> rq" "t \<noteq> 0" "can_enter (qw w) Q (wait_queue d) t i"
  obtains c n where "place_thread E scheduler d rq t w = Some (Some n, (upd_thread t (\<lambda>x. x\<lparr>waited_native := d\<rparr>) w)\<lparr>qw := c\<rparr>)"
    "qs_ok c S (Q(wait_queue d := (Q (wait_queue d))(i := Q (wait_queue d) i @ [t])))" "unat n = length (pq_order (Q rq))"
proof -
  obtain c where c: "wait_in d t w = Some (upd_thread t (\<lambda>x. x\<lparr>waited_native := d\<rparr>) (w\<lparr>qw := c\<rparr>))"
    "qs_ok c S (Q(wait_queue d := (Q (wait_queue d))(i := Q (wait_queue d) i @ [t])))"
    by (rule wait_in_result [OF assms(5,7,10)])
  let ?w = "upd_thread t (\<lambda>x. x\<lparr>waited_native := d\<rparr>) (w\<lparr>qw := c\<rparr>)"
  let ?Q = "Q(wait_queue d := (Q (wait_queue d))(i := Q (wait_queue d) i @ [t]))"
  have "qs_ok (qw ?w) S ?Q" using c(2) by simp
  then obtain c' n where c': "requeue_ready rq 0 ?w = Some (n, ?w\<lparr>qw := c'\<rparr>)" "qs_ok c' S ?Q" "unat n = length (pq_order (?Q rq))"
    by (rule requeue_none [OF _ assms(6)])
  moreover have "?Q rq = Q rq" using assms(8) by simp
  moreover have "park_waiting d t w = Some ?w"
  proof -
    have "\<not> (boundnative (threads w t) = pth_first_native \<and> d \<noteq> pth_first_native)" using assms(3) by blast
    with assms(4) show ?thesis by (simp only: park_waiting_def if_False c(1))
  qed
  ultimately show ?thesis using that assms(1,2,9) by (simp add: place_thread_def upd_thread_def)
qed

subsection \<open>A thread ends\<close>

text \<open>A thread that waits is taken out, gets its own priority and enters the ready queue.\<close>

lemma held_wake:
  assumes h: "qs_held L c S Q" and S: "wq \<in> S" "rq \<in> S" "wq \<noteq> rq" "wq \<notin> L" "rq \<notin> L"
    and t: "t \<in> set (Q wq i)" "i < 140" and p: "p < 140" and fits: "Suc (\<Sum>k<140. length (Q rq k)) < 2 ^ 32"
  obtains c1 c2 c3 c4 c5 where "spin_lock_pq wq c = Some c1" "pqueue_delete_node_nolock t c1 = Some c2" "spin_lock_pq rq (spin_unlock_pq wq c2) = Some c3"
    "pqueue_node_priority_set_nolock t (int p) c3 = Some c4" "pqueue_append_node_nolock rq t c4 = Some c5"
    "qs_held L (spin_unlock_pq rq c5) S (Q(wq := (Q wq)(i := remove1 t (Q wq i)), rq := (Q rq)(p := Q rq p @ [t])))"
proof -
  let ?Q = "Q(wq := (Q wq)(i := remove1 t (Q wq i)))"
  obtain c1 where c1: "spin_lock_pq wq c = Some c1" "qs_held (insert wq L) c1 S Q" by (rule held_lock [OF h S(4)])
  from held_delete [OF c1(2) S(1) t(2,1)] obtain c2 where c2: "pqueue_delete_node_nolock t c1 = Some c2"
    "qs_held (insert wq L) c2 S ?Q" "node_lt (nodes c2 t) = node_lt_nowhere" "bp (nodes c2 t) = NoQ" by metis
  have u: "qs_held L (spin_unlock_pq wq c2) S ?Q" "nodes (spin_unlock_pq wq c2) = nodes c2"
    using held_unlock [OF c2(2), of wq] S(4) by (simp_all add: Diff_insert_absorb)
  obtain c3 where c3: "spin_lock_pq rq (spin_unlock_pq wq c2) = Some c3" "qs_held (insert rq L) c3 S ?Q" "nodes c3 = nodes c2"
    using held_lock [OF u(1) S(5)] u(2) by metis
  have r: "pqs_rep c3 S ?Q" "node_lt (nodes c3 t) = node_lt_nowhere" "bp (nodes c3 t) = NoQ" using c3 c2(3,4) by (simp_all add: qs_held_def)
  from priority_set_nowhere [OF this, of "int p"] obtain c4 where c4: "pqueue_node_priority_set_nolock t (int p) c3 = Some c4" "pqs_rep c4 S ?Q"
    "priority (nodes c4 t) = int p" "node_lt (nodes c4 t) = node_lt_nowhere" "pqueues c4 = pqueues c3" by metis
  have "qs_held (insert rq L) c4 S ?Q" "can_enter c4 ?Q rq t p" using c3(2) c4 p fits S(3) by (simp_all add: qs_held_def can_enter_def)
  from held_append [OF this(1) S(2) this(2)] obtain c5 where c5: "pqueue_append_node_nolock rq t c4 = Some c5"
    "qs_held (insert rq L) c5 S (?Q(rq := (?Q rq)(p := ?Q rq p @ [t])))" by metis
  have "qs_held L (spin_unlock_pq rq c5) S (?Q(rq := (?Q rq)(p := ?Q rq p @ [t])))"
    using held_unlock(1) [OF c5(2), of rq] S(5) by (simp add: Diff_insert_absorb)
  with that [OF c1(1) c2(1) c3(1) c4(1) c5(1)] S(3) show ?thesis by simp
qed

lemma wake_joiner_result:
  fixes w :: "'a tworld_scheme"
  assumes h: "qs_held L (qw w) S Q" and S: "wait_queue ds \<in> S" "rq \<in> S" "wait_queue ds \<noteq> rq" "wait_queue ds \<notin> L" "rq \<notin> L"
    and x: "joined_native (threads w t) = 0" "joined_thread (threads w t) = j" "j \<noteq> 0" "\<not> is_bounded (natives w d)"
    and y: "waited_native (threads w j) = ds" "ds \<noteq> 0" "sprio (threads w j) = int p" "p < 140" "j \<in> set (Q (wait_queue ds) i)" "i < 140"
    and fits: "Suc (\<Sum>k<140. length (Q rq k)) < 2 ^ 32"
  obtains w' where "wake_joiner d rq t w = Some (True, w')" "threads w' = (threads w)(j := (threads w j)\<lparr>waited_native := 0, tstate := PTH_STATE_READY\<rparr>)"
    "natives w' = natives w" "qs_held L (qw w') S (Q(wait_queue ds := (Q (wait_queue ds))(i := remove1 j (Q (wait_queue ds) i)), rq := (Q rq)(p := Q rq p @ [j])))"
proof -
  obtain c1 c2 c3 c4 c5 where c: "spin_lock_pq (wait_queue ds) (qw w) = Some c1" "pqueue_delete_node_nolock j c1 = Some c2"
    "spin_lock_pq rq (spin_unlock_pq (wait_queue ds) c2) = Some c3" "pqueue_node_priority_set_nolock j (int p) c3 = Some c4" "pqueue_append_node_nolock rq j c4 = Some c5"
    and h': "qs_held L (spin_unlock_pq rq c5) S (Q(wait_queue ds := (Q (wait_queue ds))(i := remove1 j (Q (wait_queue ds) i)), rq := (Q rq)(p := Q rq p @ [j])))"
    by (rule held_wake [OF h S y(5,6,4) fits])
  let ?w' = "w\<lparr>threads := (threads w)(j := (threads w j)\<lparr>waited_native := 0, tstate := PTH_STATE_READY\<rparr>), qw := spin_unlock_pq rq c5\<rparr>"
  have "wake_joiner d rq t w = Some (True, ?w')"
    using c x y(1-3) by (simp add: wake_joiner_def upd_qw_def Let_def thread_eprio_recalculate_nolock_def thread_eprio_set_nolock_def
        thread_prio_get_nolock_def upd_thread_def)
  with h' show ?thesis by (intro that [of ?w']) simp_all
qed

lemma wait_queue_not_DQ: "wait_queue d \<noteq> pth_DQ"
  unfolding queue_numbers by presburger

text \<open>
  C6.  A joinable thread that ends goes to the queue of dead threads, and the thread that waits for
  it in \<open>pth_join\<close> leaves the waiting queue of its native thread, is ready, and is the last one
  of its priority in the ready queue of the scheduler.
\<close>

theorem exit_wakes_joiner:
  fixes w :: "'a tworld_scheme"
  assumes "qs_ok (qw w) S Q" "pth_DQ \<in> S" "rq \<in> S" "rq \<noteq> pth_DQ" "wait_queue ds \<in> S" "wait_queue ds \<noteq> rq"
    and "tstate (threads w t) = PTH_STATE_EXIT" "joinable (threads w t) \<noteq> 0" "can_enter (qw w) Q pth_DQ t k"
    and "joined_native (threads w t) = 0" "joined_thread (threads w t) = j" "j \<noteq> 0" "j \<noteq> t" "\<not> is_bounded (natives w d)"
    and "waited_native (threads w j) = ds" "ds \<noteq> 0" "sprio (threads w j) = int p" "p < 140" "j \<in> set (Q (wait_queue ds) i)" "i < 140"
    and "Suc (\<Sum>k<140. length (Q rq k)) < 2 ^ 32"
  shows "\<exists>w'. place_thread E scheduler d rq t w = Some (None, w') \<and> tstate (threads w' t) = PTH_STATE_DEAD
     \<and> tstate (threads w' j) = PTH_STATE_READY \<and> waited_native (threads w' j) = 0
     \<and> qs_ok (qw w') S (Q(pth_DQ := (Q pth_DQ)(k := Q pth_DQ k @ [t]),
         wait_queue ds := (Q (wait_queue ds))(i := remove1 j (Q (wait_queue ds) i)), rq := (Q rq)(p := Q rq p @ [j])))"
proof -
  let ?Q = "Q(pth_DQ := (Q pth_DQ)(k := Q pth_DQ k @ [t]))"
  have "qs_held {} (qw w) S Q" using assms(1) by (simp add: qs_held_none)
  then obtain c1 where c1: "spin_lock_pq pth_DQ (qw w) = Some c1" "qs_held {pth_DQ} c1 S Q" "nodes c1 = nodes (qw w)" using held_lock by blast
  have "can_enter c1 Q pth_DQ t k" using assms(9) c1(3) by (simp add: can_enter_def)
  from held_append [OF c1(2) assms(2) this] obtain c2 where c2: "pqueue_append_node_nolock pth_DQ t c1 = Some c2" "qs_held {pth_DQ} c2 S ?Q" by metis
  define w2 where "w2 = upd_thread t (\<lambda>x. x\<lparr>tstate := PTH_STATE_DEAD\<rparr>) (w\<lparr>qw := c2\<rparr>)"
  have h: "qs_held {pth_DQ} (qw w2) S ?Q" using c2(2) by (simp add: w2_def)
  have q: "?Q (wait_queue ds) = Q (wait_queue ds)" "?Q rq = Q rq" using assms(4) wait_queue_not_DQ by simp_all
  obtain w3 where w3: "wake_joiner d rq t w2 = Some (True, w3)" "threads w3 = (threads w2)(j := (threads w2 j)\<lparr>waited_native := 0, tstate := PTH_STATE_READY\<rparr>)"
    "qs_held {pth_DQ} (qw w3) S (?Q(wait_queue ds := (?Q (wait_queue ds))(i := remove1 j (?Q (wait_queue ds) i)), rq := (?Q rq)(p := ?Q rq p @ [j])))"
  proof (rule wake_joiner_result [OF h assms(5,3,6), where d = d and t = t and j = j and i = i and p = p])
    show "j \<in> set (?Q (wait_queue ds) i)" "Suc (\<Sum>k<140. length (?Q rq k)) < 2 ^ 32" using assms(19,21) by (simp_all only: q)
  qed (use assms wait_queue_not_DQ in \<open>simp_all add: w2_def\<close>)
  have "place_thread E scheduler d rq t w = Some (None, unlock_DQ w3)"
    using c1(1) c2(1) w3(1) assms(7,8) by (simp add: place_thread_def reap_exit_def lock_DQ_def upd_qw_def w2_def)
  moreover have "qs_ok (qw (unlock_DQ w3)) S (?Q(wait_queue ds := (Q (wait_queue ds))(i := remove1 j (Q (wait_queue ds) i)), rq := (Q rq)(p := Q rq p @ [j])))"
    using held_unlock(1) [OF w3(3), of pth_DQ] by (simp only: unlock_DQ_def q qs_held_none [symmetric]) simp
  ultimately show ?thesis using w3(2) assms(13) by (intro exI [of _ "unlock_DQ w3"]) (simp add: unlock_DQ_def w2_def)
qed

theorem exit_wakes_joiner_witness:
  "\<exists>w w' :: tworld. tstate (threads w 3) = PTH_STATE_EXIT \<and> joined_thread (threads w 3) = 5
     \<and> qs_ok (qw w) UNIV ((\<lambda>_ _. [])(wait_queue 1 := (\<lambda>_. [])(5 := [5])))
     \<and> place_thread tenv 99 2 pth_RQ 3 w = Some (None, w') \<and> tstate (threads w' 3) = PTH_STATE_DEAD \<and> tstate (threads w' 5) = PTH_STATE_READY
     \<and> qs_ok (qw w') UNIV ((\<lambda>_ _. [])(pth_DQ := (\<lambda>_. [])(3 := [3]), wait_queue 1 := (\<lambda>_. []), pth_RQ := (\<lambda>_. [])(4 := [5])))"
proof -
  let ?Q = "(\<lambda>_ _. [])(wait_queue 1 := (\<lambda>_. [])(5 := [5])) :: nat \<Rightarrow> nat \<Rightarrow> nat list"
  obtain c where c: "qs_ok c UNIV ?Q" "nodes c 3 = nodes idle_queues 3"
    by (rule one_queued [of "wait_queue 1" UNIV 5]) simp_all
  let ?w = "tw0\<lparr>qw := c, threads := (\<lambda>_. a_thread)(3 := a_thread\<lparr>tstate := PTH_STATE_EXIT, joined_thread := 5\<rparr>, 5 := a_thread\<lparr>waited_native := 1\<rparr>)\<rparr>"
  have n: "wait_queue 1 \<noteq> pth_RQ" "pth_RQ \<noteq> pth_DQ" "wait_queue 1 \<noteq> pth_DQ" by (simp_all add: queue_numbers)
  have e: "can_enter (qw ?w) ?Q pth_DQ 3 3" using c(2) n by (simp add: can_enter_def idle_queues_def zero_qworld_def)
  have q: "?Q(pth_DQ := (?Q pth_DQ)(3 := ?Q pth_DQ 3 @ [3]), wait_queue 1 := (?Q (wait_queue 1))(5 := remove1 5 (?Q (wait_queue 1) 5)),
        pth_RQ := (?Q pth_RQ)(4 := ?Q pth_RQ 4 @ [5]))
      = (\<lambda>_ _. [])(pth_DQ := (\<lambda>_. [])(3 := [3]), wait_queue 1 := (\<lambda>_. []), pth_RQ := (\<lambda>_. [])(4 := [5]))"
    using n by (auto simp: fun_eq_iff)
  have "\<exists>w'. place_thread tenv 99 2 pth_RQ 3 ?w = Some (None, w') \<and> tstate (threads w' 3) = PTH_STATE_DEAD
     \<and> tstate (threads w' 5) = PTH_STATE_READY \<and> waited_native (threads w' 5) = 0
     \<and> qs_ok (qw w') UNIV ((\<lambda>_ _. [])(pth_DQ := (\<lambda>_. [])(3 := [3]), wait_queue 1 := (\<lambda>_. []), pth_RQ := (\<lambda>_. [])(4 := [5])))"
    unfolding q [symmetric]
    by (rule exit_wakes_joiner [where S = UNIV and ds = 1 and k = 3 and i = 5]) (use c(1) n e in \<open>simp_all add: a_thread_def a_native_def\<close>)
  with c(1) show ?thesis by - (rule exI [of _ ?w], auto)
qed

subsection \<open>Properties of the steps\<close>

definition sc0 :: scworld where
  "sc0 = tworld.extend tw0 (scworld.fields 1 0 1000000 0 free_lock (\<lambda>_. {}) (\<lambda>_. 0) (\<lambda>_. 0) empty_mpworld [])"

lemma sc0_sel [simp]:
  "pth_loadval sc0 = 1" "pth_loadticknext sc0 = 0" "pth_loadtickgap sc0 = 1000000" "qw sc0 = idle_queues" "threads sc0 = (\<lambda>_. a_thread)"
  "natives sc0 = (\<lambda>d. (a_native d)\<lparr>is_used := d \<le> 2\<rparr>)"
  by (simp_all add: sc0_def tworld.extend_def scworld.fields_def tw0_def sworld.extend_def eworld.extend_def tworld.fields_def sworld.fields_def
      sw0_def ew0_def mw0_def mworld.extend_def eworld.fields_def)

text \<open>
  If the tick of the load average is positive, the update of the average ends.  It makes one
  exponential step for every tick that has passed, and the next update is one tick later.
\<close>

theorem load_average:
  assumes "0 < sint (pth_loadtickgap w)"
  shows "pth_scheduler_load now rq w = Some
    (let late = sint (pth_time_cmp now (pth_loadticknext w)); n = of_int (sint (pqueue_total rq (qw w))) in
     if late < 0 then w
     else w\<lparr>pth_loadval := (load_step n ^^ Suc (nat (late div sint (pth_loadtickgap w)))) (pth_loadval w),
            pth_loadticknext := now + pth_loadtickgap w\<rparr>)"
  using load_loop_result [OF assms] by (simp add: pth_scheduler_load_def Let_def pth_time_add_def not_less)

theorem load_average_witness:
  "0 < sint (pth_loadtickgap sc0) \<and> pqueue_total pth_RQ (qw sc0) = 0 \<and>
   pth_scheduler_load 2500000 pth_RQ sc0 = Some (sc0\<lparr>pth_loadval := 27 / 64, pth_loadticknext := 3500000\<rparr>)"
proof -
  have "0 < sint (pth_loadtickgap sc0)" by simp
  moreover have "pqueue_total pth_RQ (qw sc0) = 0" by (simp add: pqueue_total_def pqueue_total_nolock_def idle_queues_def zero_qworld_def)
  moreover have "load_step 0 1 = 3 / 4" "load_step 0 (3 / 4) = 9 / 16" "load_step 0 (9 / 16) = 27 / 64" by code_simp+
  then have "load_step 0 (load_step 0 (load_step 0 1)) = 27 / 64" by (simp only:)
  then have "(load_step 0 ^^ 3) 1 = 27 / 64" by (simp add: numeral_3_eq_3)
  moreover have "Suc (nat (2500000 div 1000000)) = 3" by simp
  ultimately show ?thesis using load_average [of sc0 2500000 pth_RQ] by (simp add: pth_time_cmp_def)
qed

text \<open>
  On a machine whose clock frequency is not known the tick is 0, and the loop that makes up
  for the ticks that have passed does not end.
\<close>

theorem load_stuck:
  assumes "pth_loadtickgap w = snd (pth_time_init 0 tod start)" and "0 \<le> sint (pth_time_cmp now (pth_loadticknext w))"
  shows "pth_scheduler_load now rq w = None"
  using assms load_loop_stuck by (simp add: pth_scheduler_load_def pth_time_init_def PTH_TIME_hp_def Let_def)

theorem load_stuck_witness:
  "pth_scheduler_load 5 pth_RQ (sc0\<lparr>pth_loadtickgap := 0\<rparr>) = None"
  by (rule load_stuck [where tod = "\<lparr>tv_sec = 0, tv_usec = 0\<rparr>" and start = 0])
    (simp_all add: pth_time_init_def PTH_TIME_hp_def pth_time_cmp_def)

text \<open>
  C10.  The scheduler moves every new thread to the ready queue and makes it ready: the loop ends,
  the new queue is empty, and in each priority the new threads have entered one after another behind
  the first thread of the ready queue.  No thread is lost, and nothing else changes.  The priority
  of a new thread stays what it is, although the comment at the loop says that it gets the maximum.
\<close>

theorem new_threads_ready:
  assumes "qs_ok (qw w) S Q" "nq \<in> S" "rq \<in> S" "nq \<noteq> rq" and "\<not> is_bounded (natives w d)" "0 \<notin> set (pq_order (Q nq))"
    and "length (pq_order (Q nq)) + length (pq_order (Q rq)) < 2 ^ 32"
  shows "\<exists>c Q'. new_to_ready d nq rq w = Some (w\<lparr>threads := made_ready (set (pq_order (Q nq))) (threads w), qw := c\<rparr>) \<and> qs_ok c S Q'
     \<and> (\<forall>i. i < 140 \<longrightarrow> Q' nq i = [] \<and> Q' rq i = fold insert_second (Q nq i) (Q rq i)) \<and> (\<forall>q. q \<noteq> nq \<longrightarrow> q \<noteq> rq \<longrightarrow> Q' q = Q q)"
proof -
  obtain c Q' where "new_to_ready d nq rq w = Some (w\<lparr>threads := made_ready (set (pq_order (Q nq))) (threads w), qw := c\<rparr>)" "qs_ok c S Q'" "moved nq rq Q Q'"
    by (rule new_to_ready_result [OF assms])
  then show ?thesis unfolding moved_def by blast
qed

lemma pq_order_one: "k < 140 \<Longrightarrow> pq_order ((\<lambda>_. [])(k := [n])) = [n]"
  using pq_order_top [of k "(\<lambda>_. [])(k := [n])"] by (simp add: concat_map_Nil)

theorem new_threads_ready_witness:
  "\<exists>(w :: scworld) c Q'. qs_ok (qw w) UNIV ((\<lambda>_ _. [])(pth_NQ := (\<lambda>_. [])(5 := [5])))
     \<and> new_to_ready 2 pth_NQ pth_RQ w = Some (w\<lparr>threads := made_ready {5} (threads w), qw := c\<rparr>) \<and> qs_ok c UNIV Q'
     \<and> Q' pth_NQ 5 = [] \<and> Q' pth_RQ 5 = [5] \<and> Q' pth_RQ 6 = []"
proof -
  let ?Q = "(\<lambda>_ _. [])(pth_NQ := (\<lambda>_. [])(5 := [5])) :: nat \<Rightarrow> nat \<Rightarrow> nat list"
  obtain c where c: "qs_ok c UNIV ?Q" by (rule one_queued [of pth_NQ UNIV 5]) simp_all
  let ?w = "sc0\<lparr>qw := c\<rparr>"
  have n: "pth_NQ \<noteq> pth_RQ" by (simp add: queue_numbers)
  have o: "pq_order (?Q pth_NQ) = [5]" "pq_order (?Q pth_RQ) = []" using pq_order_one [of 5 5] n by (simp_all add: pq_order_Nil)
  have "\<exists>c1 Q'. new_to_ready 2 pth_NQ pth_RQ ?w = Some (?w\<lparr>threads := made_ready (set (pq_order (?Q pth_NQ))) (threads ?w), qw := c1\<rparr>) \<and> qs_ok c1 UNIV Q'
     \<and> (\<forall>i. i < 140 \<longrightarrow> Q' pth_NQ i = [] \<and> Q' pth_RQ i = fold insert_second (?Q pth_NQ i) (?Q pth_RQ i)) \<and> (\<forall>q. q \<noteq> pth_NQ \<longrightarrow> q \<noteq> pth_RQ \<longrightarrow> Q' q = ?Q q)"
    by (rule new_threads_ready) (use c n in \<open>simp_all add: o a_native_def del: fun_upd_apply\<close>)
  then obtain c1 Q' where r: "new_to_ready 2 pth_NQ pth_RQ ?w = Some (?w\<lparr>threads := made_ready {5} (threads ?w), qw := c1\<rparr>)" "qs_ok c1 UNIV Q'"
    "\<forall>i. i < 140 \<longrightarrow> Q' pth_NQ i = [] \<and> Q' pth_RQ i = fold insert_second (?Q pth_NQ i) (?Q pth_RQ i)"
    unfolding o by auto
  have "Q' pth_NQ 5 = []" "Q' pth_RQ 5 = [5]" "Q' pth_RQ 6 = []" using r(3) [rule_format, of 5] r(3) [rule_format, of 6] n by (simp_all add: insert_second_def)
  with c r(1,2) show ?thesis by - (rule exI [of _ ?w], rule exI [of _ c1], rule exI [of _ Q'], simp)
qed



text \<open>
  A ready thread that is bound to another native thread, which is not the first one, is lost:
  the scheduler has taken it out of the ready queue before it favours it, which does nothing for a
  thread that is in no queue.  The native is woken but finds no thread.
\<close>

theorem pick_loses_bound:
  assumes "qs_ok (qw w) S Q" "rq \<in> S" "pq_order (Q rq) = t # ts" "t \<noteq> 0"
    and "boundnative (threads w t) \<notin> {0, d, pth_first_native}"
    and "qfree (sched_lock (natives w (boundnative (threads w t))))" "qcount (sched_lock (natives w (boundnative (threads w t)))) = 0" "tid (natives w d) \<noteq> 0"
  shows "\<exists>c A. sched_pick d rq w = Some (0, write_sigpipe (boundnative (threads w t)) (w\<lparr>qw := c\<rparr>)) \<and> pq_order A = ts
     \<and> qs_ok c S (Q(rq := A)) \<and> bp (nodes c t) = NoQ"
  by (rule pick_loses_bound_step [OF assms]) blast

theorem pick_loses_bound_witness:
  "\<exists>(w :: scworld) c A. qs_ok (qw w) UNIV ((\<lambda>_ _. [])(pth_RQ := (\<lambda>_. [])(5 := [5]))) \<and> boundnative (threads w 5) = 3
     \<and> sched_pick 2 pth_RQ w = Some (0, write_sigpipe 3 (w\<lparr>qw := c\<rparr>)) \<and> pq_order A = []
     \<and> qs_ok c UNIV ((\<lambda>_ _. [])(pth_RQ := A)) \<and> bp (nodes c 5) = NoQ"
proof -
  let ?Q = "(\<lambda>_ _. [])(pth_RQ := (\<lambda>_. [])(5 := [5])) :: nat \<Rightarrow> nat \<Rightarrow> nat list"
  obtain c where c: "qs_ok c UNIV ?Q" by (rule one_queued [of pth_RQ UNIV 5]) simp_all
  let ?w = "sc0\<lparr>qw := c, threads := (\<lambda>_. a_thread\<lparr>boundnative := 3\<rparr>)\<rparr>"
  have o: "pq_order (?Q pth_RQ) = [5]" using pq_order_one [of 5 5] by simp
  have "\<exists>c1 A. sched_pick 2 pth_RQ ?w = Some (0, write_sigpipe (boundnative (threads ?w 5)) (?w\<lparr>qw := c1\<rparr>)) \<and> pq_order A = []
     \<and> qs_ok c1 UNIV (?Q(pth_RQ := A)) \<and> bp (nodes c1 5) = NoQ"
    by (rule pick_loses_bound) (use c in \<open>simp_all add: o a_thread_def a_native_def pth_first_native_def free_lock_def qfree_def del: fun_upd_apply\<close>)
  then obtain c1 A where "sched_pick 2 pth_RQ ?w = Some (0, write_sigpipe 3 (?w\<lparr>qw := c1\<rparr>))" "pq_order A = []" "qs_ok c1 UNIV (?Q(pth_RQ := A))" "bp (nodes c1 5) = NoQ"
    by auto
  with c show ?thesis by - (rule exI [of _ ?w], rule exI [of _ c1], rule exI [of _ A], simp)
qed

subsection \<open>Turns\<close>

text \<open>
  A thread that can run on native \<open>d\<close> and comes back ready: it is not waiting, suspended or
  ending, has no signals, an intact stack, and nobody holds its lock.
\<close>

definition runnable :: "nat \<Rightarrow> ('a tworld_scheme) \<Rightarrow> nat \<Rightarrow> bool" where
  "runnable d w t \<longleftrightarrow> (let x = threads w t in
     t \<noteq> 0 \<and> tstate x \<notin> {PTH_STATE_DEAD, PTH_STATE_EXIT, PTH_STATE_WAITING} \<and> \<not> should_suspend x \<and> boundnative x \<in> {0, d}
     \<and> sigpendcnt x \<le> 0 \<and> (stackguard x = 0 \<or> stack_word w (stackguard x) = 0xDEAD) \<and> qfree (tlock x) \<and> qcount (tlock x) = 0)"

text \<open>
  The threads do nothing that concerns the scheduler but switch back: the queues, the state of the
  native and the threads that can run stay.  \<open>history\<close> is what shows which threads have run.
\<close>

definition yields :: "('a scworld_scheme, 'k) schedenv \<Rightarrow> nat \<Rightarrow> ('k \<Rightarrow> nat list) \<Rightarrow> bool" where
  "yields E d history \<longleftrightarrow> (\<forall>t w k w' k'. e_run E t (w, k) = (w', k') \<longrightarrow> qw w' = qw w \<and> (\<forall>u. runnable d w u \<longrightarrow> runnable d w' u)
     \<and> (let x = natives w d; y = natives w' d in is_running y = is_running x \<and> is_bounded y = is_bounded x \<and> do_yield y = do_yield x \<and> tid y = tid x)
     \<and> pth_loadtickgap w' = pth_loadtickgap w \<and> history k' = history k @ [t])"

lemma new_none:
  assumes "qs_ok (qw w) S Q" "nq \<in> S" "is_bounded (natives w d) \<or> pq_order (Q nq) = []"
  obtains c where "new_to_ready d nq rq w = Some (w\<lparr>qw := c\<rparr>)" "qs_ok c S Q" "nodes c = nodes (qw w)"
proof (cases "is_bounded (natives w d)")
  case True
  with assms(1) that [of "qw w"] show ?thesis by (simp add: new_to_ready_def)
next
  case False
  have "qs_held {} (qw w) S Q" using assms(1) by (simp add: qs_held_none)
  from held_lock [OF this, of nq] obtain c1 where c1: "spin_lock_pq nq (qw w) = Some c1" "qs_held {nq} c1 S Q" "nodes c1 = nodes (qw w)" by auto
  have "pqueue_total nq c1 = 0" using held_total_zero [OF c1(2) assms(2)] assms(3) False by (simp add: pq_order_Nil)
  then have "new_loop nq rq (w\<lparr>qw := c1\<rparr>) = Some (w\<lparr>qw := c1\<rparr>)" by (subst new_loop.simps) simp
  moreover have "qs_ok (spin_unlock_pq nq c1) S Q" "nodes (spin_unlock_pq nq c1) = nodes c1"
    using held_unlock [OF c1(2), of nq] by (simp_all add: qs_held_none)
  ultimately show ?thesis using that c1(1,3) False by (simp add: new_to_ready_def upd_qw_def)
qed

lemma signals_none:
  assumes "runnable d w t" "tid (natives w d) \<noteq> 0"
  shows "raise_signals E d t (w, k) = Some (w, k)" and "late_signals E d t (w, k) = Some (w, k)"
proof -
  have l: "qfree (tlock (threads w t))" "qcount (tlock (threads w t)) = 0" "\<not> sigpendcnt (threads w t) > 0"
    using assms(1) by (simp_all add: runnable_def Let_def)
  obtain l where "pth_acquire_lock (tid (natives w d)) (tlock (threads w t)) = Some l" "snd (pth_release_lock (tid (natives w d)) l) = tlock (threads w t)"
    by (rule acquire_release_same [OF l(1,2) assms(2)])
  with l(3) show "raise_signals E d t (w, k) = Some (w, k)" "late_signals E d t (w, k) = Some (w, k)"
    by (simp_all add: raise_signals_def late_signals_def lock_thread_def unlock_thread_def upd_thread_def)
qed

text \<open>What the scheduler's own stores leave as it was.\<close>

lemma runnable_upd [simp]:
  "runnable d (upd_thread u (\<lambda>x. x\<lparr>t_lastran := a\<rparr>) w) t = runnable d w t" "runnable d (upd_thread u (\<lambda>x. x\<lparr>lastrannative := b\<rparr>) w) t = runnable d w t"
  "runnable d (upd_thread u (\<lambda>x. x\<lparr>t_running := f x\<rparr>) w) t = runnable d w t" "runnable d (upd_native e g w) t = runnable d w t"
  "runnable d (w\<lparr>qw := c\<rparr>) t = runnable d w t" "runnable d (unlock_sched e lk w) t = runnable d w t"
  by (auto simp: runnable_def upd_thread_def upd_native_def unlock_sched_def Let_def)

text \<open>The fields of the state that the turns depend on.\<close>

definition same_turn :: "nat \<Rightarrow> ('a scworld_scheme) \<Rightarrow> ('a scworld_scheme) \<Rightarrow> bool" where
  "same_turn d w w' \<longleftrightarrow> (\<forall>u. runnable d w u \<longrightarrow> runnable d w' u) \<and> pth_loadtickgap w' = pth_loadtickgap w
     \<and> (let x = natives w d; y = natives w' d in is_running y = is_running x \<and> is_bounded y = is_bounded x \<and> do_yield y = do_yield x \<and> tid y = tid x)"

lemma same_turn_trans: "same_turn d w w' \<Longrightarrow> same_turn d w' w'' \<Longrightarrow> same_turn d w w''"
  by (simp add: same_turn_def Let_def)

lemma same_turn_qw: "same_turn d w (w\<lparr>qw := c\<rparr>)"
  by (simp add: same_turn_def)

lemma same_turn_load: "pth_scheduler_load now rq w = Some w' \<Longrightarrow> same_turn d w w' \<and> qw w' = qw w"
  by (auto simp: pth_scheduler_load_def same_turn_def runnable_def Let_def split: bind_splits if_splits)

lemma enter_yields:
  assumes "yields E d history" "enter_thread E d this_sched t snapshot (w, k) = (w', k')"
  shows "same_turn d w w'" "qw w' = qw w" "history k' = history k @ [t]"
proof -
  define w1 where "w1 = upd_thread t (\<lambda>x. x\<lparr>t_lastran := e_now E k\<rparr>) w"
  define w2 where "w2 = upd_thread this_sched (\<lambda>x. x\<lparr>t_running := pth_time_add (t_running x) (pth_time_sub (t_lastran (threads w1 t)) snapshot)\<rparr>) w1"
  define w3 where "w3 = upd_thread t (\<lambda>x. x\<lparr>lastrannative := tid (natives w2 d)\<rparr>) w2"
  define w4 where "w4 = unlock_sched d (tid (natives (upd_native d (\<lambda>x. x\<lparr>current := t\<rparr>) w3) d)) (upd_native d (\<lambda>x. x\<lparr>current := t\<rparr>) w3)"
  obtain w5 k5 where r: "e_run E t (w4, k) = (w5, k5)" by (cases "e_run E t (w4, k)")
  have s4: "same_turn d w w4" "qw w4 = qw w"
    by (simp_all add: w1_def w2_def w3_def w4_def same_turn_def unlock_sched_def Let_def) (simp_all add: upd_thread_def upd_native_def)
  have "same_turn d w4 w5" "qw w5 = qw w4" "history k5 = history k @ [t]"
    using assms(1) [unfolded yields_def] r by (auto simp: same_turn_def)
  moreover have "w' = upd_native d (\<lambda>x. x\<lparr>current := this_sched\<rparr>) w5" "k' = k5"
    using assms(2) r by (simp_all add: enter_thread_def w1_def w2_def w3_def w4_def Let_def)
  moreover have "same_turn d w5 (upd_native d (\<lambda>x. x\<lparr>current := this_sched\<rparr>) w5)"
    by (simp add: same_turn_def Let_def) (simp add: upd_native_def)
  ultimately show "same_turn d w w'" "qw w' = qw w" "history k' = history k @ [t]" using s4 same_turn_trans by (auto, blast)
qed

lemma came_back_ready:
  assumes "runnable d w t" "tid (natives w d) \<noteq> 0" and "is_bounded (natives w d) \<longrightarrow> s_nq r = new_queue d \<and> s_rq r = ready_queue d"
    and "qs_ok (qw w) S Q" "s_rq r \<in> S" "can_enter (qw w) Q (s_rq r) t i"
  obtains w' n r' where "came_back E scheduler d t r (w, k) = Some (Inr (Some n), r', w', k)" "s_nq r' = s_nq r" "s_rq r' = s_rq r"
    "same_turn d w w'" "qs_ok (qw w') S (Q(s_rq r := (Q (s_rq r))(i := Q (s_rq r) i @ [t])))" "unat n = Suc (length (pq_order (Q (s_rq r))))"
proof -
  define w1 where "w1 = upd_thread t (\<lambda>x. x\<lparr>t_running := pth_time_add (t_running x) (pth_time_sub (e_now E k) (t_lastran x))\<rparr>) w"
  define r' where "r' = (if is_bounded (natives w1 d) then \<lparr>s_nq = new_queue d, s_rq = ready_queue d, s_snapshot = e_now E k\<rparr> else r\<lparr>s_snapshot := e_now E k\<rparr>)"
  have w1: "natives w1 = natives w" "qw w1 = qw w" "runnable d w1 t" "pth_loadtickgap w1 = pth_loadtickgap w" "runnable d w1 = runnable d w"
    using assms(1) by (simp_all add: w1_def fun_eq_iff) (simp add: upd_thread_def)
  have sig: "late_signals E d t (w1, k) = Some (w1, k)" using signals_none(2) [OF w1(3)] assms(2) w1(1) by simp
  have stack: "stack_check E d t w1 = Inr w1" using w1(3) by (auto simp: stack_check_def runnable_def Let_def)
  have q: "s_nq r' = s_nq r" "s_rq r' = s_rq r" using assms(3) w1(1) by (simp_all add: r'_def)
  have st: "tstate (threads w1 t) \<notin> {PTH_STATE_DEAD, PTH_STATE_EXIT, PTH_STATE_WAITING}" "\<not> should_suspend (threads w1 t)" "t \<noteq> 0"
    using w1(3) by (simp_all add: runnable_def Let_def)
  have "qs_ok (qw w1) S Q" "can_enter (qw w1) Q (s_rq r) t i" using assms(4,6) by (simp_all only: w1(2))
  then obtain c n where
    c: "place_thread (threnv.truncate E) scheduler d (s_rq r) t w1 = Some (Some n, w1\<lparr>qw := c\<rparr>)"
      "qs_ok c S (Q(s_rq r := (Q (s_rq r))(i := Q (s_rq r) i @ [t])))" "unat n = Suc (length (pq_order (Q (s_rq r))))"
    by (rule place_ready [OF st(1,2) _ assms(5) st(3)])
  have "came_back E scheduler d t r (w, k) = Some (Inr (Some n), r', w1\<lparr>qw := c\<rparr>, k)"
    unfolding came_back_def Let_def prod.case w1_def [symmetric] sig stack bind.bind_lunit sum.case r'_def [symmetric] q(2) c(1) by simp
  moreover have "same_turn d w (w1\<lparr>qw := c\<rparr>)" using w1 by (simp add: same_turn_def)
  ultimately show ?thesis using c(2,3) q by (intro that [of n r' "w1\<lparr>qw := c\<rparr>"]) simp_all
qed

text \<open>
  The threads \<open>Q rq i\<close> have the highest priority, can run on native \<open>d\<close>, and there are at least
  two ready threads; there are no new threads.
\<close>

definition turns :: "nat \<Rightarrow> nat set \<Rightarrow> sched_regs \<Rightarrow> nat \<Rightarrow> (nat \<Rightarrow> nat \<Rightarrow> nat list) \<Rightarrow> ('a scworld_scheme) \<Rightarrow> bool" where
  "turns d S r i Q w \<longleftrightarrow> qs_ok (qw w) S Q \<and> s_nq r \<in> S \<and> s_rq r \<in> S \<and> s_nq r \<noteq> s_rq r
     \<and> (is_bounded (natives w d) \<or> pq_order (Q (s_nq r)) = []) \<and> (is_bounded (natives w d) \<longrightarrow> s_nq r = new_queue d \<and> s_rq r = ready_queue d)
     \<and> i < 140 \<and> (\<forall>j<140. i < j \<longrightarrow> Q (s_rq r) j = []) \<and> (\<forall>t \<in> set (Q (s_rq r) i). runnable d w t) \<and> 2 \<le> length (pq_order (Q (s_rq r)))
     \<and> is_running (natives w d) \<and> \<not> do_yield (natives w d) \<and> tid (natives w d) \<noteq> 0 \<and> 0 < sint (pth_loadtickgap w)"

lemma event_wait_busy:
  assumes "unat n \<ge> 2" "\<not> do_yield (natives w d)"
  shows "event_wait E d n r (w, k) = Some (r\<lparr>s_snapshot := e_now E k\<rparr>, w, k)"
proof -
  have "n \<noteq> 0" "n \<noteq> 1" using assms(1) by auto
  with assms(2) show ?thesis by (simp add: event_wait_def Let_def)
qed

lemma round_start:
  assumes "turns d S r i Q w" "Q (s_rq r) i = t # ts"
  obtains w1 w2 w3 where "new_to_ready d (s_nq r) (s_rq r) w = Some w1" "pth_scheduler_load (s_snapshot r) (s_rq r) w1 = Some w2"
    "sched_pick d (s_rq r) w2 = Some (t, w3)" "same_turn d w w3" "qs_ok (qw w3) S (Q(s_rq r := (Q (s_rq r))(i := ts)))"
    "can_enter (qw w3) (Q(s_rq r := (Q (s_rq r))(i := ts))) (s_rq r) t i"
proof -
  let ?rq = "s_rq r" and ?Q = "Q(s_rq r := (Q (s_rq r))(i := ts))"
  have T: "qs_ok (qw w) S Q" "s_nq r \<in> S" "?rq \<in> S" "is_bounded (natives w d) \<or> pq_order (Q (s_nq r)) = []" "i < 140" "\<forall>j<140. i < j \<longrightarrow> Q ?rq j = []"
    "0 < sint (pth_loadtickgap w)" and run: "runnable d w t"
    using assms by (simp_all add: turns_def)
  have o: "pq_order (Q ?rq) = t # ts @ concat (map (Q ?rq) (rev [0..<i]))" using pq_order_top [OF T(5), of "Q ?rq"] T(6) assms(2) by simp
  obtain c1 where n1: "new_to_ready d (s_nq r) ?rq w = Some (w\<lparr>qw := c1\<rparr>)" "qs_ok c1 S Q" by (rule new_none [OF T(1,2,4)])
  obtain w2 where n2: "pth_scheduler_load (s_snapshot r) ?rq (w\<lparr>qw := c1\<rparr>) = Some w2" using load_ends [of "w\<lparr>qw := c1\<rparr>"] T(7) by auto
  have q2: "qw w2 = c1" and "same_turn d (w\<lparr>qw := c1\<rparr>) w2" using same_turn_load [OF n2, of d] by simp_all
  from same_turn_trans [OF same_turn_qw this(2)] have s2: "same_turn d w w2" .
  have "runnable d w2 t" using s2 run by (simp add: same_turn_def)
  then have p: "qs_ok (qw w2) S Q" "t \<noteq> 0" "boundnative (threads w2 t) \<in> {0, d}" using n1(2) q2 by (simp_all add: runnable_def Let_def)
  obtain c3 j where n3: "sched_pick d ?rq w2 = Some (t, w2\<lparr>qw := c3\<rparr>)" and j: "j < 140" "Q ?rq j = t # tl (Q ?rq j)" "\<forall>k<140. j < k \<longrightarrow> Q ?rq k = []"
    and c3: "qs_ok c3 S (Q(?rq := (Q ?rq)(j := tl (Q ?rq j))))" "same_nodes t (qw w2) c3" "node_lt (nodes c3 t) = node_lt_nowhere"
    by (rule pick_head [OF p(1) T(3) o p(2,3)])
  have ji: "j = i" using j T(5,6) assms(2) by (metis list.distinct(1) linorder_neqE_nat)
  have "(\<Sum>k<140. length (Q ?rq k)) < 2 ^ 32" using T(1,3) by (simp add: qs_ok_def pqs_rep_def pq_rep_def counts_def)
  then have "Suc (\<Sum>k<140. length (?Q ?rq k)) < 2 ^ 32" using sum_length_upd [OF T(5), of "Q ?rq" ts] assms(2) by simp
  moreover have "priority (nodes (qw w2) t) = int i" using qs_ok_node(2) [OF p(1) T(3,5), of t] assms(2) by simp
  ultimately have "can_enter (qw (w2\<lparr>qw := c3\<rparr>)) ?Q ?rq t i" using T(5) c3(2,3) by (simp add: can_enter_def same_nodes_def)
  moreover have "qs_ok (qw (w2\<lparr>qw := c3\<rparr>)) S ?Q" using c3(1) assms(2) by (simp add: ji)
  ultimately show ?thesis using that [OF n1(1) n2 n3 same_turn_trans [OF s2 same_turn_qw]] by simp
qed

lemma sched_round_turn:
  assumes "turns d S r i Q w" "Q (s_rq r) i = t # ts" "yields E d history"
  obtains r' w' k' where "sched_round E scheduler this_sched d r (w, k) = Some (Inr r', w', k')" "s_nq r' = s_nq r" "s_rq r' = s_rq r"
    "same_turn d w w'" "qs_ok (qw w') S (Q(s_rq r := (Q (s_rq r))(i := ts @ [t])))" "history k' = history k @ [t]"
proof -
  let ?rq = "s_rq r" and ?Q = "Q(s_rq r := (Q (s_rq r))(i := ts))"
  have T: "?rq \<in> S" "i < 140" "2 \<le> length (pq_order (Q ?rq))" "is_running (natives w d)" "\<not> do_yield (natives w d)" "tid (natives w d) \<noteq> 0"
    and B: "is_bounded (natives w d) \<longrightarrow> s_nq r = new_queue d \<and> ?rq = ready_queue d" and run: "runnable d w t"
    using assms(1,2) by (simp_all add: turns_def)
  obtain w1 w2 w3 where n: "new_to_ready d (s_nq r) ?rq w = Some w1" "pth_scheduler_load (s_snapshot r) ?rq w1 = Some w2"
    "sched_pick d ?rq w2 = Some (t, w3)" and w3: "same_turn d w w3" "qs_ok (qw w3) S ?Q" "can_enter (qw w3) ?Q ?rq t i"
    by (rule round_start [OF assms(1,2)])
  have n4: "raise_signals E d t (w3, k) = Some (w3, k)"
    using w3(1) run T(6) by (intro signals_none(1)) (simp_all add: same_turn_def Let_def)
  obtain w5 k5 where n5: "enter_thread E d this_sched t (s_snapshot r) (w3, k) = (w5, k5)" by (cases "enter_thread E d this_sched t (s_snapshot r) (w3, k)")
  have "same_turn d w w5" by (rule same_turn_trans [OF w3(1) enter_yields(1) [OF assms(3) n5]])
  then have run5: "runnable d w5 t" "tid (natives w5 d) \<noteq> 0" "is_bounded (natives w5 d) \<longrightarrow> s_nq r = new_queue d \<and> ?rq = ready_queue d"
    "is_running (natives w5 d)" using run T(4,6) B by (simp_all add: same_turn_def Let_def)
  have c5: "qs_ok (qw w5) S ?Q" "can_enter (qw w5) ?Q ?rq t i" using w3(2,3) enter_yields(2) [OF assms(3) n5] by simp_all
  obtain w6 m r6 where n6: "came_back E scheduler d t r (w5, k5) = Some (Inr (Some m), r6, w6, k5)" and r6: "s_nq r6 = s_nq r" "s_rq r6 = ?rq"
    "same_turn d w5 w6" "qs_ok (qw w6) S (?Q(?rq := (?Q ?rq)(i := ?Q ?rq i @ [t])))" "unat m = Suc (length (pq_order (?Q ?rq)))"
    by (rule came_back_ready [OF run5(1-3) c5(1) T(1) c5(2)])
  have s6: "same_turn d w w6" using \<open>same_turn d w w5\<close> r6(3) by (rule same_turn_trans)
  have "Suc (length (pq_order (?Q ?rq))) = length (pq_order (Q ?rq))"
    using sum_length_upd [OF T(2), of "Q ?rq" ts] assms(2) by (simp add: length_pq_order)
  then have "unat m \<ge> 2" "\<not> do_yield (natives w6 d)" using r6(5) T(3,5) s6 by (simp_all add: same_turn_def Let_def)
  then have n7: "event_wait E d m r6 (w6, k5) = Some (r6\<lparr>s_snapshot := e_now E k5\<rparr>, w6, k5)" by (rule event_wait_busy)
  have "t \<noteq> 0" using run by (simp add: runnable_def Let_def)
  then have "sched_round E scheduler this_sched d r (w, k) = Some (Inr (r6\<lparr>s_snapshot := e_now E k5\<rparr>), w6, k5)"
    using n n4 n5 n6 n7 run5(4) by (simp add: sched_round_def)
  moreover have "?Q(?rq := (?Q ?rq)(i := ?Q ?rq i @ [t])) = Q(?rq := (Q ?rq)(i := ts @ [t]))" by simp
  ultimately show ?thesis using r6(1,2,4) s6 enter_yields(3) [OF assms(3) n5]
    by (intro that [of "r6\<lparr>s_snapshot := e_now E k5\<rparr>" w6 k5]) simp_all
qed

lemma turns_next:
  assumes "turns d S r i Q w" "Q (s_rq r) i = t # ts" and "s_nq r' = s_nq r" "s_rq r' = s_rq r" "same_turn d w w'"
    and "qs_ok (qw w') S (Q(s_rq r := (Q (s_rq r))(i := ts @ [t])))"
  shows "turns d S r' i (Q(s_rq r := (Q (s_rq r))(i := ts @ [t]))) w'"
proof -
  have i: "i < 140" using assms(1) by (simp add: turns_def)
  have "length (pq_order ((Q (s_rq r))(i := ts @ [t]))) = length (pq_order (Q (s_rq r)))"
    using sum_length_upd [OF i, of "Q (s_rq r)" "ts @ [t]"] assms(2) by (simp add: length_pq_order)
  then show ?thesis using assms by (auto simp: turns_def same_turn_def Let_def)
qed

text \<open>
  C2.  Ready threads of the highest priority run in turn.  If the threads only give up the
  processor, no new threads come and two or more threads are ready, then \<open>n\<close> rounds of the scheduler
  run the threads of the highest priority one after another in the order of the ready queue, again
  and again from the first one on; a thread of a lower priority does not run.  The manual has the
  scheduler raise the priority of the remaining threads by 1 on each dispatch, so that they do not
  starve; the code does not.
\<close>

theorem round_robin:
  assumes "turns d S r i Q w" "Q (s_rq r) i \<noteq> []" "yields E d history"
  shows "\<exists>r' w' k'. pth_scheduler E scheduler this_sched d n r (w, k) = Some (Inr r', w', k')
     \<and> history k' = history k @ map (\<lambda>j. Q (s_rq r) i ! (j mod length (Q (s_rq r) i))) [0..<n]
     \<and> turns d S r' i (Q(s_rq r := (Q (s_rq r))(i := rotate n (Q (s_rq r) i)))) w'"
  using assms(1,2)
proof (induction n arbitrary: r Q w k)
  case 0
  then show ?case by simp
next
  case (Suc n)
  let ?rq = "s_rq r"
  obtain t ts where ts: "Q ?rq i = t # ts" using Suc.prems(2) by (cases "Q ?rq i") auto
  obtain r1 w1 k1 where r1: "sched_round E scheduler this_sched d r (w, k) = Some (Inr r1, w1, k1)" "s_nq r1 = s_nq r" "s_rq r1 = ?rq"
    "same_turn d w w1" "qs_ok (qw w1) S (Q(?rq := (Q ?rq)(i := ts @ [t])))" "history k1 = history k @ [t]"
    by (rule sched_round_turn [OF Suc.prems(1) ts assms(3)])
  let ?Q = "Q(?rq := (Q ?rq)(i := ts @ [t]))"
  have tn: "turns d S r1 i ?Q w1" by (rule turns_next [OF Suc.prems(1) ts r1(2-5)])
  have q: "?Q ?rq i = ts @ [t]" by simp
  obtain r' w' k' where r': "pth_scheduler E scheduler this_sched d n r1 (w1, k1) = Some (Inr r', w', k')"
    "history k' = history k1 @ map (\<lambda>j. (ts @ [t]) ! (j mod length (ts @ [t]))) [0..<n]"
    "turns d S r' i (?Q(?rq := (?Q ?rq)(i := rotate n (ts @ [t])))) w'"
    using Suc.IH [OF tn, of k1, unfolded r1(3), unfolded q] by blast
  have "(ts @ [t]) ! (j mod length (ts @ [t])) = (t # ts) ! (Suc j mod length (t # ts))" for j
    using nth_rotate1 [of "j mod Suc (length ts)" "t # ts"] by (simp add: mod_Suc_eq)
  then have "map (\<lambda>j. (ts @ [t]) ! (j mod length (ts @ [t]))) [0..<n] = map (\<lambda>j. (t # ts) ! (j mod length (t # ts))) [Suc 0..<Suc n]"
    by (simp add: map_Suc_upt [symmetric] comp_def del: upt_Suc)
  then have h: "history k' = history k @ map (\<lambda>j. Q ?rq i ! (j mod length (Q ?rq i))) [0..<Suc n]"
    using r'(2) r1(6) by (simp add: ts upt_conv_Cons del: upt_Suc)
  have e: "?Q(?rq := (?Q ?rq)(i := rotate n (ts @ [t]))) = Q(?rq := (Q ?rq)(i := rotate (Suc n) (Q ?rq i)))"
    using ts by (simp add: rotate1_rotate_swap)
  have "pth_scheduler E scheduler this_sched d (Suc n) r (w, k) = Some (Inr r', w', k')" using r1(1) r'(1) by simp
  with h r'(3) [unfolded e] show ?case by blast
qed

text \<open>An environment in which the threads only leave their number in a list.\<close>

definition senv :: "(scworld, nat list) schedenv" where
  "senv = \<lparr>e_wait = \<lambda>w k. (False, 1, w, k), e_select = \<lambda>w k. (w, k), e_futex = \<lambda>op v s. (-38, s), e_kill = \<lambda>_ _. False,
     e_now = \<lambda>_. 0, e_select_t = \<lambda>_ (w, k). (0, w, k), e_mem = \<lambda>_ _. 0, e_yield = id, e_cpoint = id,
     e_mmap = \<lambda>_ _. Some 65536, e_sizeof_tcb = 1000, e_sp = \<lambda>_. 0, e_destr = \<lambda>_ _. id, e_handler = \<lambda>_ _. id, e_switch = id,
     e_run = \<lambda>t (w, k). (w, k @ [t]), e_nsig = 64, e_sigpend = \<lambda>_. 0, e_sigdelete = \<lambda>_. id, e_segv = Some True, e_evfunc = \<lambda>_ _. False,
     e_poll = \<lambda>_ _ _ (r, x, e) _ s. ((0, r, x, e), s), e_pipe = id\<rparr>"

lemma senv_yields: "yields senv d id"
  by (simp add: yields_def senv_def)

lemma two_queued:
  assumes "q \<in> S"
  obtains c where "qs_ok c S ((\<lambda>_ _. [])(q := (\<lambda>_. [])(5 := [5, 15])))"
proof -
  obtain c where c: "qs_ok c S ((\<lambda>_ _. [])(q := (\<lambda>_. [])(5 := [5])))" "nodes c 15 = nodes idle_queues 15"
    by (rule one_queued [OF assms, of 5]) simp_all
  have "can_enter c ((\<lambda>_ _. [])(q := (\<lambda>_. [])(5 := [5]))) q 15 5"
    using c(2) sum_length_remove1 [of 5 5 "(\<lambda>_. [])(5 := [5 :: nat])"] by (simp add: can_enter_def idle_queues_def zero_qworld_def)
  from append_locked [OF c(1) assms this] that show ?thesis by auto
qed

theorem round_robin_witness:
  "\<exists>(w :: scworld) r' w'. qs_ok (qw w) UNIV ((\<lambda>_ _. [])(pth_RQ := (\<lambda>_. [])(5 := [5, 15])))
     \<and> pth_scheduler senv 99 7 2 3 \<lparr>s_nq = pth_NQ, s_rq = pth_RQ, s_snapshot = 0\<rparr> (w, []) = Some (Inr r', w', [5, 15, 5])"
proof -
  let ?Q = "(\<lambda>_ _. [])(pth_RQ := (\<lambda>_. [])(5 := [5, 15])) :: nat \<Rightarrow> nat \<Rightarrow> nat list"
  let ?r = "\<lparr>s_nq = pth_NQ, s_rq = pth_RQ, s_snapshot = 0\<rparr>"
  obtain c where c: "qs_ok c UNIV ?Q" by (rule two_queued [of pth_RQ UNIV]) simp_all
  let ?w = "sc0\<lparr>qw := c\<rparr>"
  have n: "pth_NQ \<noteq> pth_RQ" by (simp add: queue_numbers)
  have o: "pq_order (?Q pth_RQ) = [5, 15]" using pq_order_top [of 5 "?Q pth_RQ"] by (simp add: concat_map_Nil)
  have run: "runnable 2 ?w t" if "t \<noteq> 0" for t using that by (simp add: runnable_def Let_def a_thread_def free_lock_def qfree_def)
  have T: "turns 2 UNIV ?r 5 ?Q ?w"
    using c n o run by (simp add: turns_def pq_order_Nil a_native_def)
  have "?Q (s_rq ?r) 5 \<noteq> []" by simp
  from round_robin [OF T this senv_yields, of 99 7 3 "[]"] obtain r' w' k' where
    "pth_scheduler senv 99 7 2 3 ?r (?w, []) = Some (Inr r', w', k')" "id k' = id [] @ map (\<lambda>j. ?Q (s_rq ?r) 5 ! (j mod length (?Q (s_rq ?r) 5))) [0..<3]"
    by blast
  moreover have "map (\<lambda>j. ?Q (s_rq ?r) 5 ! (j mod length (?Q (s_rq ?r) 5))) [0..<3] = [5, 15, 5]" by (simp add: upt_rec numeral_eq_Suc)
  ultimately show ?thesis using c by - (rule exI [of _ ?w], simp)
qed

end
