(* ===== verification/EventProps.thy ===== *)
theory EventProps
  imports SchedProps
begin

text \<open>
  Properties of the event manager: the union of an event is read as it was written, the passes over
  the rings of events and over the waiting threads end, and no thread is lost on the way from the
  waiting queues to the ready queues.
\<close>

subsection \<open>What looking at an event leaves as it was\<close>

definition same_thread :: "pth_st \<Rightarrow> pth_st \<Rightarrow> bool" where
  "same_thread x y \<longleftrightarrow> tstate y = tstate x \<and> tlock y = tlock x \<and> sprio y = sprio x \<and> waited_native y = waited_native x
     \<and> t_events y = t_events x \<and> boundnative y = boundnative x \<and> magic y = magic x"

definition same_native :: "pth_descr_st \<Rightarrow> pth_descr_st \<Rightarrow> bool" where
  "same_native x y \<longleftrightarrow> tid y = tid x \<and> is_bound y = is_bound x \<and> is_used y = is_used x \<and> is_bounded y = is_bounded x"

definition same_event :: "pth_event_st \<Rightarrow> pth_event_st \<Rightarrow> bool" where
  "same_event x y \<longleftrightarrow> ev_next y = ev_next x \<and> ev_prev y = ev_prev x \<and> ev_type y = ev_type x \<and> ev_args y = ev_args x"

definition em_frame :: "('a tworld_scheme) \<Rightarrow> ('a tworld_scheme) \<Rightarrow> bool" where
  "em_frame w w' \<longleftrightarrow> qw w' = qw w \<and> mem w' = mem w \<and> (\<forall>u. same_thread (threads w u) (threads w' u))
     \<and> (\<forall>e. same_native (natives w e) (natives w' e)) \<and> (\<forall>e. same_event (ev_heap w e) (ev_heap w' e))"

lemmas frame_defs = em_frame_def same_thread_def same_native_def same_event_def

lemma em_frame_refl [simp]: "em_frame w w"
  by (simp add: frame_defs)

lemma em_frame_trans: "em_frame w w' \<Longrightarrow> em_frame w' w'' \<Longrightarrow> em_frame w w''"
  by (simp add: frame_defs)

lemma em_frame_upd [simp]:
  "em_frame w (w\<lparr>ints := i\<rparr>)" for w :: "'a scworld_scheme"
  by (simp add: frame_defs)

lemma em_frame_steps [simp]:
  "em_frame w (upd_native d (\<lambda>x. x\<lparr>d_sigpending := f x\<rparr>) w)" "em_frame w (upd_native d (\<lambda>x. x\<lparr>nexttimer_thread := n\<rparr>) w)"
  "em_frame w (upd_thread t (\<lambda>x. x\<lparr>t_sigpending := g x, sigpendcnt := h x\<rparr>) w)" "em_frame w (upd_ev e (\<lambda>x. x\<lparr>ev_flags := k\<rparr>) w)"
  "em_frame w (upd_ev e (\<lambda>x. x\<lparr>ev_occurred := b\<rparr>) w)" "em_frame w (write_sigpipe d w)"
  by (simp_all add: frame_defs upd_native_def upd_thread_def upd_ev_def upd_event_def write_sigpipe_def)

lemma remember_timer_frame: "remember_timer d m t ev tv em w = (em1, w1) \<Longrightarrow> em_frame w w1"
  by (auto simp: remember_timer_def Let_def split: if_splits intro: em_frame_trans [OF em_frame_steps(2) em_frame_steps(4)]
      em_frame_trans [OF em_frame_steps(4)])

lemma cond_event_frame: "cond_event c w = (b, m, w1) \<Longrightarrow> em_frame w w1"
  by (auto simp: cond_event_def upd_cond_def frame_defs Let_def split: if_splits)

lemma sigs_loop_ok:
  assumes "p \<noteq> 0"
  shows "\<exists>this' wake' em' w' k'. sigs_loop E d t sigs p ns this wake (em, w, k) = Some (this', wake', em', w', k') \<and> em_frame w w'"
proof (induction ns arbitrary: this wake em w k)
  case (Cons n ns)
  let ?w1 = "upd_thread t (\<lambda>x. x\<lparr>t_sigpending := sig_del (t_sigpending x) n, sigpendcnt := sigpendcnt x - 1\<rparr>) (w\<lparr>ints := (ints w)(p := int n)\<rparr>)"
  define w1 where "w1 = (if sig_in (t_sigpending (threads w t)) n then ?w1 else w)"
  define w3 where "w3 = upd_native d (\<lambda>x. x\<lparr>d_sigpending := sig_del (d_sigpending x) n\<rparr>) (w1\<lparr>ints := (ints w1)(p := int n)\<rparr>)"
  have f1: "em_frame w w1" by (simp add: w1_def frame_defs upd_thread_def)
  have f3: "em_frame w w3" unfolding w3_def by (rule em_frame_trans [OF f1 em_frame_trans [OF em_frame_upd em_frame_steps(1)]])
  have step: "\<exists>this' wake' em' w' k'. sigs_loop E d t sigs p ns this1 wake1 (em1, v, k1) = Some (this', wake', em', w', k') \<and> em_frame w w'"
    if "em_frame w v" for this1 wake1 em1 k1 and v
    using Cons.IH [of this1 wake1 em1 v k1] that em_frame_trans by blast
  let ?pend = "sig_in (t_sigpending (threads w t)) n"
  have e: "sigs_loop E d t sigs p (n # ns) this wake (em, w, k) =
     (if \<not> sig_in sigs n then sigs_loop E d t sigs p ns this wake (em, w, k)
      else if ?pend \<and> sigpendcnt (threads w t) = 0 then Some (True, wake, em, w1, k)
      else if sig_in (d_sigpending (natives w1 d)) n then sigs_loop E d t sigs p ns True wake (em, w3, e_sigdelete E n k)
      else if native_is_group_leader d
      then sigs_loop E d t sigs p ns (this \<or> ?pend) wake (em\<lparr>em_block := sig_del (em_block em) n, em_catch := sig_add (em_catch em) n\<rparr>, w1, k)
      else sigs_loop E d t sigs p ns (this \<or> ?pend) True (em, w1, k))"
    using assms by (cases ?pend) (simp_all add: store_int_def w1_def w3_def Let_def)
  show ?case unfolding e using f1 step [OF em_frame_refl] step [OF f1] step [OF f3] by (auto split: if_split)
qed simp

subsection \<open>Events are read as they were written\<close>

text \<open>Arguments with which the event manager can work.\<close>

definition args_ok :: "('a scworld_scheme, 'k) schedenv \<Rightarrow> ('a scworld_scheme) \<Rightarrow> nat \<Rightarrow> bool" where
  "args_ok E w ev \<longleftrightarrow> args_type (ev_args (ev_heap w ev)) (ev_type (ev_heap w ev)) \<and>
     (case ev_args (ev_heap w ev) of
        FD fd \<Rightarrow> 0 \<le> fd \<and> nat fd < FD_SETSIZE
      | SELECT n nfd r wr ex \<Rightarrow> nfd \<le> int FD_SETSIZE
      | SIGS sg p \<Rightarrow> p \<noteq> 0
      | TID u \<Rightarrow> thread_exists (threnv.truncate E) u w \<noteq> None
      | _ \<Rightarrow> True)"

lemma args_ok_frame:
  assumes "em_frame w w'"
  shows "args_ok E w' ev = args_ok E w ev"
proof -
  have "thread_exists (threnv.truncate E) u w' = thread_exists (threnv.truncate E) u w" for u
    using assms by (simp add: thread_exists_def frame_defs)
  then show ?thesis using assms by (simp add: args_ok_def frame_defs split: ev_args.split)
qed

lemma fd_event_ok: "0 \<le> fd \<Longrightarrow> nat fd < FD_SETSIZE \<Longrightarrow> \<exists>em1. fd_event goal fd em = Some em1"
  by (simp add: fd_event_def FD_SET_def)

lemma select_event_ok: "nfd \<le> int FD_SETSIZE \<Longrightarrow> \<exists>em1. select_event nfd r wr ex w em = Some em1"
  by (simp add: select_event_def fds_merge_result Let_def)

lemma event_types:
  "distinct [PTH_EVENT_FD, PTH_EVENT_SELECT, PTH_EVENT_SIGS, PTH_EVENT_TIME, PTH_EVENT_MSG, PTH_EVENT_MUTEX, PTH_EVENT_COND, PTH_EVENT_TID,
     PTH_EVENT_FUNC, PTH_EVENT_TIME_SIGS]"
  by (simp add: event_flags BIT_def)

lemma event_types_rev:
  "distinct [PTH_EVENT_TIME_SIGS, PTH_EVENT_FUNC, PTH_EVENT_TID, PTH_EVENT_COND, PTH_EVENT_MUTEX, PTH_EVENT_MSG, PTH_EVENT_TIME, PTH_EVENT_SIGS,
     PTH_EVENT_SELECT, PTH_EVENT_FD]"
  by (simp add: event_flags BIT_def)

lemmas event_types_neq = event_types [simplified] event_types_rev [simplified]

lemma check_event_ok:
  assumes "args_ok E w ev"
  shows "\<exists>b em' w' k'. check_event E d ds m_to_n now t ev (em, w, k) = Some (b, em', w', k') \<and> em_frame w w'"
proof (cases "ev_args (ev_heap w ev)")
  case (FD fd)
  then have "ev_type (ev_heap w ev) = PTH_EVENT_FD" "0 \<le> fd" "nat fd < FD_SETSIZE" using assms by (simp_all add: args_ok_def args_type_def)
  then show ?thesis using FD fd_event_ok [of fd "ev_goal (ev_heap w ev)" em] by (cases "ds = d") (auto simp: check_event_def event_types_neq Let_def)
next
  case (SELECT n nfd r wr ex)
  then have "ev_type (ev_heap w ev) = PTH_EVENT_SELECT" "nfd \<le> int FD_SETSIZE" using assms by (simp_all add: args_ok_def args_type_def)
  then show ?thesis using SELECT select_event_ok [of nfd r wr ex w em] by (auto simp: check_event_def event_types_neq Let_def)
next
  case (SIGS sg p)
  then have ty: "ev_type (ev_heap w ev) \<in> {PTH_EVENT_SIGS, PTH_EVENT_TIME_SIGS}" and p: "p \<noteq> 0" using assms by (auto simp: args_ok_def args_type_def)
  obtain b wake em' w' k' where s: "sigs_loop E d t (sig_sets w sg) p (all_sigs E) False False (em, w, k) = Some (b, wake, em', w', k')" "em_frame w w'"
    using sigs_loop_ok [OF p, of E d t "sig_sets w sg" "all_sigs E" False False em w k] by auto
  have "em_frame w (write_sigpipe pth_first_native w')" using s(2) em_frame_steps(6) by (rule em_frame_trans)
  then show ?thesis using ty SIGS s by (auto simp: check_event_def event_types_neq Let_def split: prod.split)
next
  case (TIME tv)
  then have "ev_type (ev_heap w ev) = PTH_EVENT_TIME" using assms by (simp add: args_ok_def args_type_def)
  then show ?thesis using TIME remember_timer_frame [of d m_to_n t ev tv em w] by (auto simp: check_event_def event_types_neq Let_def split: prod.split)
next
  case (MSG mp)
  then have "ev_type (ev_heap w ev) = PTH_EVENT_MSG" using assms by (simp add: args_ok_def args_type_def)
  then show ?thesis using MSG by (auto simp: check_event_def event_types_neq Let_def)
next
  case (MUTEX m)
  then have "ev_type (ev_heap w ev) = PTH_EVENT_MUTEX" using assms by (simp add: args_ok_def args_type_def)
  then show ?thesis using MUTEX by (auto simp: check_event_def event_types_neq Let_def)
next
  case (COND c)
  then have "ev_type (ev_heap w ev) = PTH_EVENT_COND" using assms by (simp add: args_ok_def args_type_def)
  then show ?thesis using COND cond_event_frame [of c w] by (auto simp: check_event_def event_types_neq Let_def split: prod.split)
next
  case (TID u)
  then have ty: "ev_type (ev_heap w ev) = PTH_EVENT_TID" and "thread_exists (threnv.truncate E) u w \<noteq> None" using assms by (auto simp: args_ok_def args_type_def)
  then have "\<exists>b. tid_event E t u (ev_goal (ev_heap w ev)) w = Some b" by (auto simp: tid_event_def)
  then show ?thesis using TID ty by (auto simp: check_event_def event_types_neq Let_def)
next
  case (FUNC f a tv)
  then have "ev_type (ev_heap w ev) = PTH_EVENT_FUNC" using assms by (simp add: args_ok_def args_type_def)
  then show ?thesis using FUNC remember_timer_frame [of d m_to_n t ev "pth_time_add now tv" em w]
    by (auto simp: check_event_def event_types_neq Let_def split: prod.split)
qed

subsection \<open>The ring of events of a thread\<close>

lemma em_frame_ring: "em_frame w w' \<Longrightarrow> evring (ev_heap w') xs = evring (ev_heap w) xs"
  by (rule evring_same_links) (simp add: same_links_def frame_defs)

text \<open>What the loop over the ring does with one event.\<close>

definition event_step :: "('a scworld_scheme, 'k) schedenv \<Rightarrow> nat \<Rightarrow> nat \<Rightarrow> bool \<Rightarrow> pth_time_t \<Rightarrow> nat \<Rightarrow> nat \<Rightarrow> bool \<Rightarrow> ('a, 'k) emstate
    \<Rightarrow> (bool \<times> ('a, 'k) emstate) option" where
  "event_step E d ds m_to_n now t ev any s =
     (if ev_occurred (ev_heap (fst (snd s)) ev) then Some (any, s)
      else do { (this, em1, w1, k1) \<leftarrow> check_event E d ds m_to_n now t ev s;
                Some (if this then (True, em1, upd_ev ev (\<lambda>x. x\<lparr>ev_occurred := True\<rparr>) w1, k1) else (any, em1, w1, k1)) })"

lemma ring_check_unfold:
  "ring_check E d ds m_to_n now t evh ev any (em, w, k) =
     (let e = ev_heap w ev; x = threads w t in
      if cancelreq x \<and> ev_type e \<noteq> PTH_EVENT_MUTEX then Some (True, em, w, k)
      else if sigpendcnt x > 0 \<and> ev_type e \<noteq> PTH_EVENT_SIGS \<and> (any \<or> unblocked_loop x (all_sigs E) 1) then Some (True, em, w, k)
      else do { (any1, em1, w1, k1) \<leftarrow> event_step E d ds m_to_n now t ev any (em, w, k);
                if ev_next (ev_heap w1 ev) = evh then Some (any1, em1, w1, k1)
                else ring_check E d ds m_to_n now t evh (ev_next (ev_heap w1 ev)) any1 (em1, w1, k1) })"
  by (subst ring_check.simps) (simp only: event_step_def Let_def prod.case fst_conv snd_conv)

lemma event_step_ok:
  assumes "args_ok E w ev"
  obtains a em1 w1 k1 where "event_step E d ds m_to_n now t ev any (em, w, k) = Some (a, em1, w1, k1)" "em_frame w w1"
proof -
  obtain b em' w' k' where c: "check_event E d ds m_to_n now t ev (em, w, k) = Some (b, em', w', k')" "em_frame w w'"
    using check_event_ok [OF assms, of d ds m_to_n now t em k] by auto
  have "em_frame w (upd_ev ev (\<lambda>x. x\<lparr>ev_occurred := True\<rparr>) w')" using c(2) em_frame_steps(5) by (rule em_frame_trans)
  with c that show ?thesis by (cases "ev_occurred (ev_heap w ev)"; cases b) (simp_all add: event_step_def)
qed

lemma ring_check_ok:
  assumes "evring (ev_heap w) (pre @ ev # post)" "\<forall>e \<in> set (ev # post). args_ok E w e"
  shows "\<exists>b em' w' k'. ring_check E d ds m_to_n now t (hd (pre @ [ev])) ev any (em, w, k) = Some (b, em', w', k') \<and> em_frame w w'"
  using assms
proof (induction post arbitrary: pre ev any em w k)
  case Nil
  have "args_ok E w ev" using Nil.prems(2) by simp
  then obtain a em1 w1 k1 where s: "event_step E d ds m_to_n now t ev any (em, w, k) = Some (a, em1, w1, k1)" "em_frame w w1"
    by (rule event_step_ok)
  have "ev_next (ev_heap w1 ev) = hd (pre @ [ev])" using ring_next_last [OF Nil.prems(1)] s(2) by (simp add: evnext_def frame_defs)
  then show ?case using s by (subst ring_check_unfold) (auto simp: Let_def)
next
  case (Cons z zs)
  have "args_ok E w ev" using Cons.prems(2) by simp
  then obtain a em1 w1 k1 where s: "event_step E d ds m_to_n now t ev any (em, w, k) = Some (a, em1, w1, k1)" "em_frame w w1"
    by (rule event_step_ok)
  have "evring (ev_heap w1) ((pre @ [ev]) @ z # zs)" using Cons.prems(1) em_frame_ring [OF s(2)] by simp
  moreover have "\<forall>e \<in> set (z # zs). args_ok E w1 e" using Cons.prems(2) args_ok_frame [OF s(2), of E] by simp
  ultimately have "\<exists>b em' w' k'. ring_check E d ds m_to_n now t (hd ((pre @ [ev]) @ [z])) z a (em1, w1, k1) = Some (b, em', w', k') \<and> em_frame w1 w'"
    by (rule Cons.IH)
  moreover have "hd ((pre @ [ev]) @ [z]) = hd (pre @ [ev])" by (cases pre) simp_all
  ultimately obtain b em' w' k' where r: "ring_check E d ds m_to_n now t (hd (pre @ [ev])) z a (em1, w1, k1) = Some (b, em', w', k')" "em_frame w1 w'" by auto
  have "ev_next (ev_heap w1 ev) = z" "z \<noteq> hd (pre @ [ev])" using ring_next_inner [OF Cons.prems(1)] s(2) by (simp_all add: evnext_def frame_defs)
  with s r em_frame_trans [OF s(2) r(2)] show ?case by (subst ring_check_unfold) (auto simp: Let_def)
qed

subsection \<open>The pass over the waiting threads\<close>

lemma lock_recalculate:
  assumes "qfree (tlock (threads w t))" "qcount (tlock (threads w t)) = 0" "lk \<noteq> 0"
    and "pqueue_node_priority_set_nolock t (sprio (threads w t)) (qw w) = Some c"
  shows "thread_eprio_recalculate t lk w = Some (w\<lparr>qw := c\<rparr>)"
proof -
  obtain l where l: "pth_acquire_lock lk (tlock (threads w t)) = Some l" "snd (pth_release_lock lk l) = tlock (threads w t)"
    by (rule acquire_release_same [OF assms(1-3)])
  have "w\<lparr>threads := (threads w)(t := (threads w t)\<lparr>tlock := l\<rparr>), qw := c, threads := (threads w)(t := threads w t)\<rparr> = w\<lparr>qw := c\<rparr>" by simp
  with l assms(4) show ?thesis
    by (simp add: thread_eprio_recalculate_def thread_eprio_recalculate_nolock_def thread_eprio_set_nolock_def thread_prio_get_nolock_def
        lock_thread_def unlock_thread_def upd_thread_def upd_qw_def)
qed

lemma wake_waiter_ok:
  fixes w :: "'a world_scheme"
  assumes h: "qs_held {wq} (qw w) S Q" and S: "wq \<in> S" "rq \<in> S" "wq \<noteq> rq" and t: "t \<in> set (Q wq i)" "i < 140"
    and x: "sprio (threads w t) = int p" "p < 140" "qfree (tlock (threads w t))" "qcount (tlock (threads w t)) = 0" "tid (natives w d) \<noteq> 0"
    and fits: "Suc (\<Sum>k<140. length (Q rq k)) < 2 ^ 32"
  obtains c l where "wake_waiter d ds rq t w =
      Some (w\<lparr>threads := (threads w)(t := (threads w t)\<lparr>waited_native := 0, tstate := PTH_STATE_READY\<rparr>), qw := c, sigpipe := l\<rparr>)"
    "qs_held {wq} c S (Q(wq := (Q wq)(i := remove1 t (Q wq i)), rq := (Q rq)(p := Q rq p @ [t])))"
proof -
  let ?Q = "Q(wq := (Q wq)(i := remove1 t (Q wq i)))"
  from held_delete [OF h S(1) t(2,1)] obtain c1 where c1: "pqueue_delete_node_nolock t (qw w) = Some c1" "qs_held {wq} c1 S ?Q"
    "node_lt (nodes c1 t) = node_lt_nowhere" "bp (nodes c1 t) = NoQ" by metis
  then have r: "pqs_rep c1 S ?Q" by (simp add: qs_held_def)
  from priority_set_nowhere [OF r c1(3,4), of "int p"] obtain c2 where c2: "pqueue_node_priority_set_nolock t (int p) c1 = Some c2" "pqs_rep c2 S ?Q"
    "priority (nodes c2 t) = int p" "node_lt (nodes c2 t) = node_lt_nowhere" "pqueues c2 = pqueues c1" by metis
  have h2: "qs_held {wq} c2 S ?Q" "can_enter c2 ?Q rq t p" using c1(2) c2 x(2) fits S(3) by (simp_all add: qs_held_def can_enter_def)
  have "rq \<notin> {wq}" using S(3) by simp
  from held_append_lock [OF h2(1) S(2) this h2(2)] obtain c3 where c3: "pqueue_append_node rq t c2 = Some c3"
    "qs_held {wq} c3 S (?Q(rq := (?Q rq)(p := ?Q rq p @ [t])))" by metis
  let ?w = "w\<lparr>threads := (threads w)(t := (threads w t)\<lparr>waited_native := 0, tstate := PTH_STATE_READY\<rparr>), qw := c1\<rparr>"
  have l: "thread_eprio_recalculate t (tid (natives w d)) ?w = Some (?w\<lparr>qw := c2\<rparr>)"
    using lock_recalculate [of ?w t "tid (natives w d)" c2] x c2(1) by simp
  define l' where "l' = (if native_is_group_leader d \<and> \<not> is_bound (natives w ds) then sigpipe w @ [ds] else sigpipe w)"
  have e: "upd_thread t (\<lambda>x. x\<lparr>waited_native := 0, tstate := PTH_STATE_READY\<rparr>) (w\<lparr>qw := c1\<rparr>) = ?w" by (simp add: upd_thread_def)
  have "wake_waiter d ds rq t w =
      Some (w\<lparr>threads := (threads w)(t := (threads w t)\<lparr>waited_native := 0, tstate := PTH_STATE_READY\<rparr>), qw := c3, sigpipe := l'\<rparr>)"
    using c1(1) l c3(1) unfolding wake_waiter_def upd_qw_def by (simp add: e Let_def l'_def write_sigpipe_def)
  moreover have "?Q(rq := (?Q rq)(p := ?Q rq p @ [t])) = Q(wq := (Q wq)(i := remove1 t (Q wq i)), rq := (Q rq)(p := Q rq p @ [t]))" using S(3) by simp
  ultimately show ?thesis using that c3(2) by simp
qed

text \<open>A thread the event manager can look at: the ring of its events is in order, and nobody holds its lock.\<close>

definition waits_ok :: "('a scworld_scheme, 'k) schedenv \<Rightarrow> ('a scworld_scheme) \<Rightarrow> nat \<Rightarrow> bool" where
  "waits_ok E w u \<longleftrightarrow> u \<noteq> 0 \<and> qfree (tlock (threads w u)) \<and> qcount (tlock (threads w u)) = 0 \<and> (\<exists>p<140. sprio (threads w u) = int p)
     \<and> (t_events (threads w u) \<noteq> 0 \<longrightarrow> (\<exists>xs. evring (ev_heap w) (t_events (threads w u) # xs) \<and> (\<forall>e \<in> set (t_events (threads w u) # xs). args_ok E w e)))"

lemma waits_ok_cong:
  assumes "tlock (threads w' u) = tlock (threads w u)" "sprio (threads w' u) = sprio (threads w u)" "t_events (threads w' u) = t_events (threads w u)"
    and "\<And>xs. evring (ev_heap w') xs = evring (ev_heap w) xs" "\<And>e. args_ok E w' e = args_ok E w e"
  shows "waits_ok E w' u = waits_ok E w u"
  by (simp only: waits_ok_def assms)

lemma waits_ok_frame:
  assumes "em_frame w w'"
  shows "waits_ok E w' u = waits_ok E w u"
  using assms by (intro waits_ok_cong em_frame_ring args_ok_frame) (simp_all add: frame_defs)

lemma waits_ok_woken:
  "waits_ok E (w\<lparr>threads := (threads w)(t := (threads w t)\<lparr>waited_native := 0, tstate := s\<rparr>), qw := c, sigpipe := l\<rparr>) u = waits_ok E w u"
proof (rule waits_ok_cong)
  fix e
  let ?w = "w\<lparr>threads := (threads w)(t := (threads w t)\<lparr>waited_native := 0, tstate := s\<rparr>), qw := c, sigpipe := l\<rparr>"
  have "thread_exists (threnv.truncate E) v ?w = thread_exists (threnv.truncate E) v w" for v by (simp add: thread_exists_def)
  then show "args_ok E ?w e = args_ok E w e" by (simp add: args_ok_def split: ev_args.split)
qed simp_all

text \<open>Nothing is lost: threads go from \<open>wq\<close> to \<open>rq\<close>, and are ready then.\<close>

definition passed :: "nat \<Rightarrow> nat \<Rightarrow> (nat \<Rightarrow> nat \<Rightarrow> nat list) \<Rightarrow> (nat \<Rightarrow> nat \<Rightarrow> nat list) \<Rightarrow> ('a world_scheme) \<Rightarrow> ('a world_scheme) \<Rightarrow> bool" where
  "passed wq rq Q Q' w w' \<longleftrightarrow> (\<forall>q. q \<noteq> wq \<longrightarrow> q \<noteq> rq \<longrightarrow> Q' q = Q q)
     \<and> set (pq_order (Q' wq)) \<union> set (pq_order (Q' rq)) = set (pq_order (Q wq)) \<union> set (pq_order (Q rq))
     \<and> set (pq_order (Q rq)) \<subseteq> set (pq_order (Q' rq))
     \<and> (\<forall>u. tstate (threads w' u) = tstate (threads w u) \<and> waited_native (threads w' u) = waited_native (threads w u)
            \<or> tstate (threads w' u) = PTH_STATE_READY \<and> waited_native (threads w' u) = 0)
     \<and> (\<forall>u. u \<in> set (pq_order (Q' rq)) \<longrightarrow> u \<in> set (pq_order (Q rq)) \<or> tstate (threads w' u) = PTH_STATE_READY \<and> waited_native (threads w' u) = 0)"

lemma passed_refl: "em_frame w w' \<Longrightarrow> passed wq rq Q Q w w'"
  by (simp add: passed_def frame_defs)

lemma passed_trans:
  assumes "passed wq rq Q Q1 w w1" "passed wq rq Q1 Q2 w1 w2"
  shows "passed wq rq Q Q2 w w2"
  unfolding passed_def
proof (intro conjI allI impI)
  fix u
  show "tstate (threads w2 u) = tstate (threads w u) \<and> waited_native (threads w2 u) = waited_native (threads w u)
      \<or> tstate (threads w2 u) = PTH_STATE_READY \<and> waited_native (threads w2 u) = 0"
    using assms unfolding passed_def by metis
  assume "u \<in> set (pq_order (Q2 rq))"
  then show "u \<in> set (pq_order (Q rq)) \<or> tstate (threads w2 u) = PTH_STATE_READY \<and> waited_native (threads w2 u) = 0"
    using assms unfolding passed_def by metis
qed (use assms in \<open>auto simp: passed_def\<close>)

lemma pq_order_remove:
  assumes "pq_rep c q A" "pq_order A = xs @ t # ys" "t \<in> set (A i)" "i < 140"
  shows "pq_order (A(i := remove1 t (A i))) = xs @ ys"
proof -
  have d: "distinct (pq_order A)" by (rule pq_order_distinct [OF assms(1)])
  let ?u = "concat (map A (rev [Suc i..<140]))" and ?l = "concat (map A (rev [0..<i]))"
  have o: "pq_order A = ?u @ A i @ ?l" by (rule pq_order_split [OF assms(4)])
  have "map (A(i := remove1 t (A i))) (rev [Suc i..<140]) = map A (rev [Suc i..<140])" "map (A(i := remove1 t (A i))) (rev [0..<i]) = map A (rev [0..<i])"
    by (intro map_cong; auto)+
  then have "pq_order (A(i := remove1 t (A i))) = ?u @ remove1 t (A i) @ ?l" using pq_order_split [OF assms(4), of "A(i := remove1 t (A i))"] by simp
  also have "\<dots> = remove1 t (pq_order A)" using d assms(3) unfolding o by (auto simp: remove1_append)
  also have "\<dots> = xs @ ys" using d unfolding assms(2) by (simp add: remove1_append)
  finally show ?thesis .
qed

lemma passed_wake:
  assumes "wq \<noteq> rq" "pq_order (Q wq) = xs @ t # ys" "pq_order ((Q wq)(i := remove1 t (Q wq i))) = xs @ ys" "p < 140"
    and "Q' = Q(wq := (Q wq)(i := remove1 t (Q wq i)), rq := (Q rq)(p := Q rq p @ [t]))"
    and "threads w' = (threads w)(t := (threads w t)\<lparr>waited_native := 0, tstate := PTH_STATE_READY\<rparr>)"
  shows "passed wq rq Q Q' w w'"
proof -
  have "set (pq_order (Q' rq)) = insert t (set (pq_order (Q rq)))"
    using assms(4) by (auto simp: assms(5) in_pq_order split: if_splits)
  moreover have "Q' wq = (Q wq)(i := remove1 t (Q wq i))" using assms(1) by (simp add: assms(5))
  then have "set (pq_order (Q' wq)) = set (xs @ ys)" using assms(3) by simp
  moreover have "Q' q = Q q" if "q \<noteq> wq" "q \<noteq> rq" for q using that by (simp add: assms(5))
  ultimately show ?thesis using assms(2) by (auto simp: passed_def assms(6))
qed

lemma held_next:
  assumes "qs_held L c S Q" "q \<in> S" "pq_order (Q q) = xs @ t # ys"
  shows "pqueue_get_next_node_nolock t c = head_opt ys"
  using assms pqueue_get_next_node_order [of c q "Q q" xs t ys] by (simp add: qs_held_def pqs_rep_def head_opt_def)

lemma woken_step:
  fixes w :: "'a scworld_scheme"
  assumes "qs_held {wq} (qw w) S Q" "wq \<in> S" "rq \<in> S" "wq \<noteq> rq" "pq_order (Q wq) = xs @ t # ts" "waits_ok E w t"
    and "tid (natives w d) \<noteq> 0" "length (pq_order (Q wq)) + length (pq_order (Q rq)) < 2 ^ 32"
  obtains w2 Q2 where "wake_waiter d ds rq t w = Some w2" "qs_held {wq} (qw w2) S Q2" "passed wq rq Q Q2 w w2" "pq_order (Q2 wq) = xs @ ts"
    "\<forall>u. waits_ok E w2 u = waits_ok E w u" "natives w2 = natives w" "length (pq_order (Q2 wq)) + length (pq_order (Q2 rq)) < 2 ^ 32"
proof -
  obtain p where p: "sprio (threads w t) = int p" "p < 140" and l: "qfree (tlock (threads w t))" "qcount (tlock (threads w t)) = 0"
    using assms(6) by (auto simp: waits_ok_def)
  have "t \<in> set (pq_order (Q wq))" using assms(5) by simp
  then obtain i where i: "i < 140" "t \<in> set (Q wq i)" by (auto simp: in_pq_order)
  have fits: "Suc (\<Sum>k<140. length (Q rq k)) < 2 ^ 32" using assms(5,8) by (simp add: length_pq_order)
  define Q2 where "Q2 = Q(wq := (Q wq)(i := remove1 t (Q wq i)), rq := (Q rq)(p := Q rq p @ [t]))"
  obtain c pipe where c: "wake_waiter d ds rq t w =
      Some (w\<lparr>threads := (threads w)(t := (threads w t)\<lparr>waited_native := 0, tstate := PTH_STATE_READY\<rparr>), qw := c, sigpipe := pipe\<rparr>)"
    "qs_held {wq} c S Q2"
    unfolding Q2_def by (rule wake_waiter_ok [OF assms(1-4) i(2,1) p l assms(7) fits])
  have rep: "pq_rep (qw w) wq (Q wq)" using assms(1,2) by (simp add: qs_held_def pqs_rep_def)
  have o: "pq_order ((Q wq)(i := remove1 t (Q wq i))) = xs @ ts" by (rule pq_order_remove [OF rep assms(5) i(2,1)])
  have q2: "Q2 wq = (Q wq)(i := remove1 t (Q wq i))" "Q2 rq = (Q rq)(p := Q rq p @ [t])" using assms(4) by (simp_all add: Q2_def)
  have "length (pq_order (Q2 rq)) = Suc (length (pq_order (Q rq)))"
    using sum_length_upd [OF p(2), of "Q rq" "Q rq p @ [t]"] by (simp add: q2 length_pq_order)
  then have "length (pq_order (Q2 wq)) + length (pq_order (Q2 rq)) < 2 ^ 32" using assms(5,8) o by (simp add: q2)
  moreover have "passed wq rq Q Q2 w (w\<lparr>threads := (threads w)(t := (threads w t)\<lparr>waited_native := 0, tstate := PTH_STATE_READY\<rparr>), qw := c, sigpipe := pipe\<rparr>)"
    by (rule passed_wake [OF assms(4,5) o p(2) Q2_def]) simp
  ultimately show ?thesis using that [OF c(1)] c(2) o q2 waits_ok_woken [where E = E and w = w] by simp
qed

lemma wait_loop_ok:
  assumes "qs_held {wq} (qw w) S Q" "wq \<in> S" "rq \<in> S" "wq \<noteq> rq" "pq_order (Q wq) = xs @ ts" "\<forall>u \<in> set ts. waits_ok E w u"
    and "tid (natives w d) \<noteq> 0" "length (pq_order (Q wq)) + length (pq_order (Q rq)) < 2 ^ 32"
  shows "\<exists>em' w' k' Q'. wait_loop E d ds m_to_n now rq (thread_by_node (head_opt ts)) (em, w, k) = Some (em', w', k')
     \<and> qs_held {wq} (qw w') S Q' \<and> passed wq rq Q Q' w w'"
  using assms
proof (induction ts arbitrary: xs em w k Q)
  case Nil
  then show ?case by (subst wait_loop.simps) (auto simp: thread_by_node_def intro!: passed_refl exI [of _ Q])
next
  case (Cons t ts)
  have ok: "waits_ok E w t" using Cons.prems(6) by simp
  then have t: "t \<noteq> 0" "thread_by_node (head_opt (t # ts)) = t" by (simp_all add: waits_ok_def thread_by_node_def)
  have nx: "pqueue_get_next_node_nolock t (qw w) = head_opt ts" by (rule held_next [OF Cons.prems(1,2,5)])
  have skip: "\<exists>em' w' k' Q'. wait_loop E d ds m_to_n now rq (thread_by_node (head_opt ts)) (em1, w1, k1) = Some (em', w', k')
     \<and> qs_held {wq} (qw w') S Q' \<and> passed wq rq Q Q' w w'" if f: "em_frame w w1" for em1 w1 k1
  proof -
    have q: "qs_held {wq} (qw w1) S Q" "tid (natives w1 d) \<noteq> 0" "pq_order (Q wq) = (xs @ [t]) @ ts" using Cons.prems(1,5,7) f by (simp_all add: frame_defs)
    have "\<forall>u \<in> set ts. waits_ok E w1 u" using Cons.prems(6) waits_ok_frame [OF f, of E] by simp
    from Cons.IH [OF q(1) Cons.prems(2-4) q(3) this q(2) Cons.prems(8), of em1 k1] passed_trans [OF passed_refl [OF f]] show ?thesis by blast
  qed
  show ?case
  proof (cases "t_events (threads w t) = 0")
    case True
    then show ?thesis using skip [OF em_frame_refl] t nx by (subst wait_loop.simps) simp
  next
    case False
    let ?ev = "t_events (threads w t)"
    obtain evs where "evring (ev_heap w) ([] @ ?ev # evs)" "\<forall>e \<in> set (?ev # evs). args_ok E w e" using ok False by (auto simp: waits_ok_def)
    from ring_check_ok [OF this, of d ds m_to_n now t False em k] obtain b em1 w1 k1 where
      r: "ring_check E d ds m_to_n now t ?ev ?ev False (em, w, k) = Some (b, em1, w1, k1)" "em_frame w w1" by auto
    have nx1: "pqueue_get_next_node_nolock t (qw w1) = head_opt ts" using nx r(2) by (simp add: frame_defs)
    show ?thesis
    proof (cases b)
      case b: False
      have "wait_loop E d ds m_to_n now rq (thread_by_node (head_opt (t # ts))) (em, w, k) = wait_loop E d ds m_to_n now rq (thread_by_node (head_opt ts)) (em1, w1, k1)"
        unfolding t(2) using b False t(1) r nx1 by (subst wait_loop.simps) (simp add: Let_def)
      with skip [OF r(2)] show ?thesis by simp
    next
      case b: True
      have f: "qs_held {wq} (qw w1) S Q" "waits_ok E w1 t" "tid (natives w1 d) \<noteq> 0" "\<forall>u \<in> set ts. waits_ok E w1 u"
        using Cons.prems(1,6,7) r(2) waits_ok_frame [OF r(2), of E] by (simp_all add: frame_defs)
      obtain w2 Q2 where w2: "wake_waiter d ds rq t w1 = Some w2" "qs_held {wq} (qw w2) S Q2" "passed wq rq Q Q2 w1 w2" "pq_order (Q2 wq) = xs @ ts"
        "\<forall>u. waits_ok E w2 u = waits_ok E w1 u" "natives w2 = natives w1" "length (pq_order (Q2 wq)) + length (pq_order (Q2 rq)) < 2 ^ 32"
        by (rule woken_step [OF f(1) Cons.prems(2-5) f(2,3) Cons.prems(8)])
      have "\<forall>u \<in> set ts. waits_ok E w2 u" "tid (natives w2 d) \<noteq> 0" using f(3,4) w2(5,6) by simp_all
      from Cons.IH [OF w2(2) Cons.prems(2-4) w2(4) this w2(7), of "em1\<lparr>em_any := True\<rparr>" k1] obtain em' w' k' Q' where
        l: "wait_loop E d ds m_to_n now rq (thread_by_node (head_opt ts)) (em1\<lparr>em_any := True\<rparr>, w2, k1) = Some (em', w', k')"
          "qs_held {wq} (qw w') S Q'" "passed wq rq Q2 Q' w2 w'" by auto
      have "wait_loop E d ds m_to_n now rq (thread_by_node (head_opt (t # ts))) (em, w, k) = Some (em', w', k')"
        unfolding t(2) using b False t(1) r nx1 w2(1) l(1) by (subst wait_loop.simps) (simp add: Let_def)
      moreover have "passed wq rq Q Q' w w'" by (rule passed_trans [OF passed_refl [OF r(2)] passed_trans [OF w2(3) l(3)]])
      ultimately show ?thesis using l(2) by blast
    qed
  qed
qed

subsection \<open>Properties\<close>

text \<open>
  C15.  The event manager reads the union in an event as it was written: if the events in \<open>A\<close> have
  arguments of the kind their type says, and the arguments of the event that is looked at are in
  range, then looking at it succeeds and the events in \<open>A\<close> still have arguments of the right kind.
\<close>

theorem event_union_typed:
  assumes "\<forall>e \<in> A. args_type (ev_args (ev_heap w e)) (ev_type (ev_heap w e))" and "ev \<in> A"
    and "case ev_args (ev_heap w ev) of FD fd \<Rightarrow> 0 \<le> fd \<and> nat fd < FD_SETSIZE | SELECT n nfd r wr ex \<Rightarrow> nfd \<le> int FD_SETSIZE
      | SIGS sg p \<Rightarrow> p \<noteq> 0 | TID u \<Rightarrow> thread_exists (threnv.truncate E) u w \<noteq> None | _ \<Rightarrow> True"
  shows "\<exists>this em' w' k'. check_event E d ds m_to_n now t ev (em, w, k) = Some (this, em', w', k')
     \<and> (\<forall>e \<in> A. args_type (ev_args (ev_heap w' e)) (ev_type (ev_heap w' e)))"
proof -
  have "args_ok E w ev" using assms unfolding args_ok_def by blast
  from check_event_ok [OF this, of d ds m_to_n now t em k] obtain b em' w' k' where
    c: "check_event E d ds m_to_n now t ev (em, w, k) = Some (b, em', w', k')" "em_frame w w'" by auto
  then have "\<forall>e \<in> A. args_type (ev_args (ev_heap w' e)) (ev_type (ev_heap w' e))" using assms(1) by (simp add: frame_defs)
  with c(1) show ?thesis by blast
qed

definition em0 :: emgr where
  "em0 = \<lparr>em_rfds = {}, em_wfds = {}, em_efds = {}, em_fdmax = -1, em_timer_ev = 0, em_timer = 0, em_block = 0, em_catch = 0, em_any = False, em_mutex = False\<rparr>"

definition ew_time :: "scworld" where
  "ew_time = sc0\<lparr>ev_heap := (ev_heap sc0)(9 := (a_event 9 9)\<lparr>ev_type := PTH_EVENT_TIME, ev_args := TIME 3\<rparr>)\<rparr>"

lemma ew_time_sel [simp]:
  "ev_heap ew_time 9 = (a_event 9 9)\<lparr>ev_type := PTH_EVENT_TIME, ev_args := TIME 3\<rparr>"
  "threads ew_time = (\<lambda>_. a_thread)" "natives ew_time = (\<lambda>d. (a_native d)\<lparr>is_used := d \<le> 2\<rparr>)"
  by (simp_all add: ew_time_def)

theorem event_union_typed_witness:
  "args_type (TIME 3) PTH_EVENT_TIME \<and> ev_type (ev_heap ew_time 9) = PTH_EVENT_TIME \<and> ev_args (ev_heap ew_time 9) = TIME 3 \<and>
   (\<exists>this em' w' k'. check_event senv 2 2 True 10 5 9 (em0, ew_time, []) = Some (this, em', w', k')
     \<and> args_type (ev_args (ev_heap w' 9)) (ev_type (ev_heap w' 9)))"
  using event_union_typed [of "{9}" ew_time 9 senv 2 2 True 10 5 em0 "[]"] by (simp add: args_type_def)

text \<open>
  C5.  The pass of the event manager over the threads that wait on a native thread ends and loses
  nobody: every thread is afterwards in the waiting queue or in the ready queue, the threads that
  were ready still are, those that have moved are marked ready, and no other queue changes.
\<close>

theorem wait_pass_loses_nobody:
  assumes "qs_held {wait_queue ds} (qw w) S Q" "wait_queue ds \<in> S" "rq \<in> S" "wait_queue ds \<noteq> rq" "tid (natives w d) \<noteq> 0"
    and "\<forall>u \<in> set (pq_order (Q (wait_queue ds))). waits_ok E w u"
    and "length (pq_order (Q (wait_queue ds))) + length (pq_order (Q rq)) < 2 ^ 32"
  shows "\<exists>em' w' k' Q'. wait_loop E d ds m_to_n now rq (first_waiter ds w) (em, w, k) = Some (em', w', k')
     \<and> qs_held {wait_queue ds} (qw w') S Q' \<and> (\<forall>q. q \<noteq> wait_queue ds \<longrightarrow> q \<noteq> rq \<longrightarrow> Q' q = Q q)
     \<and> set (pq_order (Q' (wait_queue ds))) \<union> set (pq_order (Q' rq)) = set (pq_order (Q (wait_queue ds))) \<union> set (pq_order (Q rq))
     \<and> set (pq_order (Q rq)) \<subseteq> set (pq_order (Q' rq))
     \<and> (\<forall>u. u \<in> set (pq_order (Q' rq)) - set (pq_order (Q rq)) \<longrightarrow> tstate (threads w' u) = PTH_STATE_READY \<and> waited_native (threads w' u) = 0)"
proof -
  let ?wq = "wait_queue ds"
  have "first_waiter ds w = thread_by_node (head_opt (pq_order (Q ?wq)))"
    using held_first [OF assms(1,2)] held_total_zero [OF assms(1,2)]
    by (cases "pq_order (Q ?wq)") (simp_all add: first_waiter_def thread_by_node_def pq_order_Nil [symmetric])
  moreover have "pq_order (Q ?wq) = [] @ pq_order (Q ?wq)" by simp
  ultimately obtain em' w' k' Q' where r: "wait_loop E d ds m_to_n now rq (first_waiter ds w) (em, w, k) = Some (em', w', k')"
    "qs_held {?wq} (qw w') S Q'" and p: "passed ?wq rq Q Q' w w'"
    using wait_loop_ok [OF assms(1-4) _ assms(6,5,7), of "[]" ds m_to_n now em k] by auto
  from p have "(\<forall>q. q \<noteq> ?wq \<longrightarrow> q \<noteq> rq \<longrightarrow> Q' q = Q q)" "set (pq_order (Q' ?wq)) \<union> set (pq_order (Q' rq)) = set (pq_order (Q ?wq)) \<union> set (pq_order (Q rq))"
    "set (pq_order (Q rq)) \<subseteq> set (pq_order (Q' rq))"
    "\<forall>u. u \<in> set (pq_order (Q' rq)) - set (pq_order (Q rq)) \<longrightarrow> tstate (threads w' u) = PTH_STATE_READY \<and> waited_native (threads w' u) = 0"
    unfolding passed_def by blast+
  with r show ?thesis by blast
qed

theorem wait_pass_loses_nobody_witness:
  "\<exists>(w :: scworld) em' w' k' Q'. qs_held {wait_queue 2} (qw w) UNIV ((\<lambda>_ _. [])(wait_queue 2 := (\<lambda>_. [])(5 := [5])))
     \<and> wait_loop senv 2 2 True 10 pth_RQ (first_waiter 2 w) (em0, w, []) = Some (em', w', k')
     \<and> set (pq_order (Q' (wait_queue 2))) \<union> set (pq_order (Q' pth_RQ)) = {5}"
proof -
  let ?Q = "(\<lambda>_ _. [])(wait_queue 2 := (\<lambda>_. [])(5 := [5])) :: nat \<Rightarrow> nat \<Rightarrow> nat list"
  obtain c1 where c1: "qs_ok c1 UNIV ?Q" by (rule one_queued [of "wait_queue 2" UNIV 5]) simp_all
  then obtain c where c: "qs_held {wait_queue 2} c UNIV ?Q" using held_lock [of "{}" c1 UNIV ?Q "wait_queue 2"] by (auto simp: qs_held_none)
  let ?w = "ew_time\<lparr>qw := c, threads := (\<lambda>_. a_thread\<lparr>t_events := 9, waited_native := 2\<rparr>)\<rparr>"
  have n: "wait_queue 2 \<noteq> pth_RQ" by (simp add: queue_numbers)
  have o: "pq_order (?Q (wait_queue 2)) = [5]" "pq_order (?Q pth_RQ) = []" using pq_order_one [of 5 5] n by (simp_all add: pq_order_Nil)
  have "evring (ev_heap ?w) [9]" by (simp add: evring_def evnext_def evprev_def a_event_def)
  then have ok: "waits_ok senv ?w 5"
    by (auto simp: waits_ok_def a_thread_def free_lock_def qfree_def args_ok_def args_type_def intro!: exI [of _ "[]"])
  have "\<exists>em' w' k' Q'. wait_loop senv 2 2 True 10 pth_RQ (first_waiter 2 ?w) (em0, ?w, []) = Some (em', w', k')
     \<and> qs_held {wait_queue 2} (qw w') UNIV Q' \<and> (\<forall>q. q \<noteq> wait_queue 2 \<longrightarrow> q \<noteq> pth_RQ \<longrightarrow> Q' q = ?Q q)
     \<and> set (pq_order (Q' (wait_queue 2))) \<union> set (pq_order (Q' pth_RQ)) = set (pq_order (?Q (wait_queue 2))) \<union> set (pq_order (?Q pth_RQ))
     \<and> set (pq_order (?Q pth_RQ)) \<subseteq> set (pq_order (Q' pth_RQ))
     \<and> (\<forall>u. u \<in> set (pq_order (Q' pth_RQ)) - set (pq_order (?Q pth_RQ)) \<longrightarrow> tstate (threads w' u) = PTH_STATE_READY \<and> waited_native (threads w' u) = 0)"
    by (rule wait_pass_loses_nobody) (use c n ok in \<open>simp_all add: o a_native_def del: fun_upd_apply\<close>)
  then obtain em' w' k' Q' where "wait_loop senv 2 2 True 10 pth_RQ (first_waiter 2 ?w) (em0, ?w, []) = Some (em', w', k')"
    "set (pq_order (Q' (wait_queue 2))) \<union> set (pq_order (Q' pth_RQ)) = {5}" unfolding o by auto
  with c show ?thesis by - (rule exI [of _ ?w], auto)
qed

end
