(* ===== verification/Attr.thy ===== *)
theory Attr
  imports SchedProps
begin

text \<open>
  Attribute objects (pth_attr.c): an object of its own, or one that stands for a thread
  (\<open>a_tid\<close>).  The arguments after the operation are a value \<open>attr_val\<close>; one of another kind than
  the operation takes is \<open>None\<close>.  Names are kept without the terminator.
\<close>

datatype attr_op =
    PTH_ATTR_SCHEDPOLICY | PTH_ATTR_INHERITSCHED | PTH_ATTR_PRIO | PTH_ATTR_NAME | PTH_ATTR_JOINABLE
  | PTH_ATTR_CANCEL_STATE | PTH_ATTR_STACK_SIZE | PTH_ATTR_STACK_ADDR | PTH_ATTR_TIME_SPAWN | PTH_ATTR_TIME_LAST
  | PTH_ATTR_TIME_RAN | PTH_ATTR_START_FUNC | PTH_ATTR_START_ARG | PTH_ATTR_STATE | PTH_ATTR_EVENTS | PTH_ATTR_BOUND
  | PTH_ATTR_CREATE_SUSPENDED | PTH_ATTR_SCOPE

datatype attr_val = AInt int | AUint u32 | AStr string | APtr nat | ATime pth_time_t | AState pth_state | ATruth bool

record pth_attr_st =
  a_tid :: nat
  a_prio :: int
  a_schedpolicy :: int
  a_inheritsched :: int
  a_name :: string
  a_joinable :: int
  a_cancelstate :: u32
  a_stacksize :: u32
  a_suspendstate :: int
  a_stackaddr :: nat
  a_scope :: int

record aworld = scworld +
  attrs :: "nat \<Rightarrow> pth_attr_st"

definition upd_attr :: "nat \<Rightarrow> (pth_attr_st \<Rightarrow> pth_attr_st) \<Rightarrow> ('a aworld_scheme) \<Rightarrow> ('a aworld_scheme)" where
  "upd_attr a f w = w\<lparr>attrs := (attrs w)(a := f (attrs w a))\<rparr>"

definition zero_attr :: pth_attr_st where
  "zero_attr = \<lparr>a_tid = 0, a_prio = 0, a_schedpolicy = 0, a_inheritsched = 0, a_name = [], a_joinable = 0, a_cancelstate = 0,
     a_stacksize = 0, a_suspendstate = 0, a_stackaddr = 0, a_scope = 0\<rparr>"

definition PTH_TCB_NAMELEN :: nat where "PTH_TCB_NAMELEN = 16"

definition PTH_SCOPE_SYSTEM :: int where "PTH_SCOPE_SYSTEM = 0"
definition PTH_SCOPE_PROCESS :: int where "PTH_SCOPE_PROCESS = 1"

definition PTH_CANCEL_DEFAULT :: u32 where "PTH_CANCEL_DEFAULT = set_flag PTH_CANCEL_ENABLE PTH_CANCEL_DEFERRED"

text \<open>\<open>pth_util_cpystrn\<close> into a name.\<close>

definition name_of :: "string \<Rightarrow> string" where
  "name_of s = take (PTH_TCB_NAMELEN - 1) s"

definition pth_attr_of :: "(nat \<Rightarrow> calworld \<Rightarrow> nat option) \<Rightarrow> u32 \<Rightarrow> nat \<Rightarrow> ('a aworld_scheme) \<Rightarrow> (nat \<times> ('a aworld_scheme)) option" where
  "pth_attr_of mm sz t w =
     (if t = 0 then Some (0, w)
      else do { (a, m1) \<leftarrow> pth_malloc mm sz (mem w);
                let w1 = w\<lparr>mem := m1\<rparr>;
                Some (a, if a = 0 then w1 else upd_attr a (\<lambda>_. zero_attr\<lparr>a_tid := t\<rparr>) w1) })"

definition pth_attr_init :: "nat \<Rightarrow> ('a aworld_scheme) \<Rightarrow> bool \<times> ('a aworld_scheme)" where
  "pth_attr_init a w =
     (if a = 0 then (False, w)
      else if a_tid (attrs w a) \<noteq> 0 then (False, w)
      else (True, upd_attr a (\<lambda>x. x\<lparr>a_prio := fst (xprio_get_default SCHED_OTHER 0), a_schedpolicy := SCHED_OTHER, a_name := name_of ''unknown'',
              a_joinable := 1, a_cancelstate := PTH_CANCEL_DEFAULT, a_stacksize := word_of_int (pth_default_stacksize w * 1024),
              a_stackaddr := 0, a_scope := PTH_SCOPE_PROCESS\<rparr>) w))"

definition pth_attr_new :: "(nat \<Rightarrow> calworld \<Rightarrow> nat option) \<Rightarrow> u32 \<Rightarrow> ('a aworld_scheme) \<Rightarrow> (nat \<times> ('a aworld_scheme)) option" where
  "pth_attr_new mm sz w =
     do { (a, m1) \<leftarrow> pth_malloc mm sz (mem w);
          let w1 = w\<lparr>mem := m1\<rparr>;
          Some (a, if a = 0 then w1 else snd (pth_attr_init a (upd_attr a (\<lambda>_. zero_attr\<lparr>a_tid := 0\<rparr>) w1))) }"

definition pth_attr_destroy :: "u32 \<Rightarrow> nat \<Rightarrow> ('a aworld_scheme) \<Rightarrow> (bool \<times> ('a aworld_scheme)) option" where
  "pth_attr_destroy sz a w =
     (if a = 0 then Some (False, w) else do { m1 \<leftarrow> pth_free_mem a sz (mem w); Some (True, w\<lparr>mem := m1\<rparr>) })"

text \<open>
  \<open>pth_attr_ctrl\<close> with PTH_ATTR_SET.  The priority of a thread is set with the lock of the thread
  taken for the native NULL, whose \<open>tid\<close> is read.
\<close>

definition attr_ctrl_set :: "nat \<Rightarrow> attr_op \<Rightarrow> attr_val \<Rightarrow> ('a aworld_scheme) \<Rightarrow> (bool \<times> ('a aworld_scheme)) option" where
  "attr_ctrl_set a op v w =
     (let t = a_tid (attrs w a) in
      case op of
        PTH_ATTR_PRIO \<Rightarrow> (case v of AInt i \<Rightarrow> if t \<noteq> 0 then None else Some (True, upd_attr a (\<lambda>x. x\<lparr>a_prio := i\<rparr>) w) | _ \<Rightarrow> None)
      | PTH_ATTR_SCHEDPOLICY \<Rightarrow> (case v of AInt i \<Rightarrow>
          Some (True, if t \<noteq> 0 then upd_thread t (\<lambda>x. x\<lparr>schedpolicy := i\<rparr>) w else upd_attr a (\<lambda>x. x\<lparr>a_schedpolicy := i\<rparr>) w) | _ \<Rightarrow> None)
      | PTH_ATTR_INHERITSCHED \<Rightarrow> (case v of AInt i \<Rightarrow>
          Some (True, if t \<noteq> 0 then upd_thread t (\<lambda>x. x\<lparr>inheritsched := i\<rparr>) w else upd_attr a (\<lambda>x. x\<lparr>a_inheritsched := i\<rparr>) w) | _ \<Rightarrow> None)
      | PTH_ATTR_NAME \<Rightarrow> (case v of AStr s \<Rightarrow>
          Some (True, if t \<noteq> 0 then upd_thread t (\<lambda>x. x\<lparr>t_name := name_of s\<rparr>) w else upd_attr a (\<lambda>x. x\<lparr>a_name := name_of s\<rparr>) w) | _ \<Rightarrow> None)
      | PTH_ATTR_JOINABLE \<Rightarrow> (case v of AInt i \<Rightarrow>
          Some (True, if t \<noteq> 0 then upd_thread t (\<lambda>x. x\<lparr>joinable := i\<rparr>) w else upd_attr a (\<lambda>x. x\<lparr>a_joinable := i\<rparr>) w) | _ \<Rightarrow> None)
      | PTH_ATTR_CANCEL_STATE \<Rightarrow> (case v of AUint u \<Rightarrow>
          Some (True, if t \<noteq> 0 then upd_thread t (\<lambda>x. x\<lparr>cancelstate := u\<rparr>) w else upd_attr a (\<lambda>x. x\<lparr>a_cancelstate := u\<rparr>) w) | _ \<Rightarrow> None)
      | PTH_ATTR_STACK_SIZE \<Rightarrow> if t \<noteq> 0 then Some (False, w)
          else (case v of AUint u \<Rightarrow> Some (True, upd_attr a (\<lambda>x. x\<lparr>a_stacksize := u\<rparr>) w) | _ \<Rightarrow> None)
      | PTH_ATTR_STACK_ADDR \<Rightarrow> if t \<noteq> 0 then Some (False, w)
          else (case v of APtr p \<Rightarrow> Some (True, upd_attr a (\<lambda>x. x\<lparr>a_stackaddr := p\<rparr>) w) | _ \<Rightarrow> None)
      | PTH_ATTR_CREATE_SUSPENDED \<Rightarrow> (case v of AInt i \<Rightarrow> Some (True, upd_attr a (\<lambda>x. x\<lparr>a_suspendstate := i\<rparr>) w) | _ \<Rightarrow> None)
      | PTH_ATTR_SCOPE \<Rightarrow> (case v of AInt i \<Rightarrow> Some (True, upd_attr a (\<lambda>x. x\<lparr>a_scope := i\<rparr>) w) | _ \<Rightarrow> None)
      | _ \<Rightarrow> Some (False, w))"

text \<open>\<open>pth_attr_ctrl\<close> with PTH_ATTR_GET: what is stored, \<open>Some None\<close> if nothing is and FALSE is returned.\<close>

definition attr_ctrl_get :: "nat \<Rightarrow> attr_op \<Rightarrow> ('a aworld_scheme) \<Rightarrow> attr_val option option" where
  "attr_ctrl_get a op w =
     (let y = attrs w a; t = a_tid y; x = threads w t in
      case op of
        PTH_ATTR_PRIO \<Rightarrow> if t \<noteq> 0 then None else Some (Some (AInt (a_prio y)))
      | PTH_ATTR_SCHEDPOLICY \<Rightarrow> Some (Some (AInt (if t \<noteq> 0 then schedpolicy x else a_schedpolicy y)))
      | PTH_ATTR_INHERITSCHED \<Rightarrow> Some (Some (AInt (if t \<noteq> 0 then inheritsched x else a_inheritsched y)))
      | PTH_ATTR_NAME \<Rightarrow> Some (Some (AStr (if t \<noteq> 0 then t_name x else a_name y)))
      | PTH_ATTR_JOINABLE \<Rightarrow> Some (Some (AInt (if t \<noteq> 0 then joinable x else a_joinable y)))
      | PTH_ATTR_CANCEL_STATE \<Rightarrow> Some (Some (AUint (if t \<noteq> 0 then cancelstate x else a_cancelstate y)))
      | PTH_ATTR_STACK_SIZE \<Rightarrow> Some (Some (AUint (if t \<noteq> 0 then stacksize x else a_stacksize y)))
      | PTH_ATTR_STACK_ADDR \<Rightarrow> Some (Some (APtr (if t \<noteq> 0 then t_stack x else a_stackaddr y)))
      | PTH_ATTR_CREATE_SUSPENDED \<Rightarrow> Some (Some (AInt (a_suspendstate y)))
      | PTH_ATTR_TIME_SPAWN \<Rightarrow> Some (Some (ATime (if t \<noteq> 0 then t_lastran x else pth_time_zero)))
      | PTH_ATTR_TIME_LAST \<Rightarrow> Some (Some (ATime (if t \<noteq> 0 then t_lastran x else pth_time_zero)))
      | PTH_ATTR_TIME_RAN \<Rightarrow> Some (Some (ATime (if t \<noteq> 0 then t_lastran x else pth_time_zero)))
      | PTH_ATTR_START_FUNC \<Rightarrow> Some (if t = 0 then None else Some (APtr (start_func x)))
      | PTH_ATTR_START_ARG \<Rightarrow> Some (if t = 0 then None else Some (APtr (start_arg x)))
      | PTH_ATTR_STATE \<Rightarrow> Some (if t = 0 then None else Some (AState (tstate x)))
      | PTH_ATTR_EVENTS \<Rightarrow> Some (if t = 0 then None else Some (APtr (t_events x)))
      | PTH_ATTR_BOUND \<Rightarrow> Some (Some (ATruth (t \<noteq> 0)))
      | PTH_ATTR_SCOPE \<Rightarrow> Some (Some (AInt (a_scope y))))"

definition pth_attr_set :: "nat \<Rightarrow> attr_op \<Rightarrow> attr_val \<Rightarrow> ('a aworld_scheme) \<Rightarrow> (bool \<times> ('a aworld_scheme)) option" where
  "pth_attr_set a op v w = (if a = 0 then Some (False, w) else attr_ctrl_set a op v w)"

definition pth_attr_get :: "nat \<Rightarrow> attr_op \<Rightarrow> ('a aworld_scheme) \<Rightarrow> attr_val option option" where
  "pth_attr_get a op w = (if a = 0 then Some None else attr_ctrl_get a op w)"

subsection \<open>Properties\<close>

text \<open>
  C39.  What is stored in an attribute of an object that does not stand for a thread is read back,
  a name up to 15 characters of it (the manual promises 40); the other attributes and objects and all threads stay as they are.
\<close>

theorem attr_set_get:
  assumes "a_tid (attrs w a) = 0" and "pth_attr_set a op v w = Some (True, w')"
  shows "pth_attr_get a op w' = Some (Some (case v of AStr s \<Rightarrow> AStr (take 15 s) | _ \<Rightarrow> v))
     \<and> (\<forall>op'. op' \<noteq> op \<longrightarrow> pth_attr_get a op' w' = pth_attr_get a op' w) \<and> (\<forall>b. b \<noteq> a \<longrightarrow> attrs w' b = attrs w b) \<and> threads w' = threads w"
proof -
  have a: "a \<noteq> 0" and s: "attr_ctrl_set a op v w = Some (True, w')" using assms(2) by (auto simp: pth_attr_set_def split: if_splits)
  have "attr_ctrl_get a op w' = Some (Some (case v of AStr s \<Rightarrow> AStr (take 15 s) | _ \<Rightarrow> v))"
    using s assms(1) by (cases op; cases v) (auto simp: attr_ctrl_set_def attr_ctrl_get_def upd_attr_def name_of_def PTH_TCB_NAMELEN_def)
  moreover have "attr_ctrl_get a op' w' = attr_ctrl_get a op' w" if "op' \<noteq> op" for op'
    using s assms(1) that by (cases op; cases v; cases op') (auto simp: attr_ctrl_set_def attr_ctrl_get_def upd_attr_def)
  moreover have "(\<forall>b. b \<noteq> a \<longrightarrow> attrs w' b = attrs w b) \<and> threads w' = threads w"
    using s assms(1) by (cases op; cases v) (auto simp: attr_ctrl_set_def upd_attr_def)
  ultimately show ?thesis using a by (simp add: pth_attr_get_def)
qed

definition aw0 :: aworld where
  "aw0 = scworld.extend sc0 (aworld.fields (\<lambda>_. zero_attr))"

lemma aw0_sel [simp]: "attrs aw0 = (\<lambda>_. zero_attr)" "threads aw0 = (\<lambda>_. a_thread)" "qw aw0 = idle_queues"
  "natives aw0 = (\<lambda>d. (a_native d)\<lparr>is_used := d \<le> 2\<rparr>)" "pth_default_stacksize aw0 = 65536"
  by (simp_all add: aw0_def scworld.extend_def aworld.fields_def sc0_def tworld.extend_def scworld.fields_def tw0_def sworld.extend_def eworld.extend_def
      tworld.fields_def sworld.fields_def sw0_def ew0_def mw0_def mworld.extend_def eworld.fields_def)

theorem attr_set_get_witness:
  "\<exists>w'. pth_attr_set 7 PTH_ATTR_NAME (AStr ''a name that is too long'') aw0 = Some (True, w') \<and> a_tid (attrs aw0 7) = 0
     \<and> pth_attr_get 7 PTH_ATTR_NAME w' = Some (Some (AStr ''a name that is ''))"
proof -
  have e: "pth_attr_set 7 PTH_ATTR_NAME (AStr ''a name that is too long'') aw0 =
      Some (True, upd_attr 7 (\<lambda>x. x\<lparr>a_name := name_of ''a name that is too long''\<rparr>) aw0)" and t: "a_tid (attrs aw0 7) = 0"
    by (simp_all add: pth_attr_set_def attr_ctrl_set_def zero_attr_def)
  from attr_set_get [OF t e] e t show ?thesis by simp
qed

text \<open>
  The times of a thread: the time it was spawned and the time it was running are both answered with
  the time it ran last.
\<close>

theorem attr_times_wrong:
  assumes "a \<noteq> 0" and "a_tid (attrs w a) = t" and "t \<noteq> 0"
  shows "pth_attr_get a PTH_ATTR_TIME_SPAWN w = Some (Some (ATime (t_lastran (threads w t))))
     \<and> pth_attr_get a PTH_ATTR_TIME_RAN w = Some (Some (ATime (t_lastran (threads w t))))"
  using assms by (simp add: pth_attr_get_def attr_ctrl_get_def)

text \<open>The priority of an object that stands for a thread can neither be set nor read: the native that locks the thread is NULL.\<close>

theorem attr_prio_crashes:
  assumes "a \<noteq> 0" and "a_tid (attrs w a) \<noteq> 0"
  shows "pth_attr_set a PTH_ATTR_PRIO (AInt i) w = None \<and> pth_attr_get a PTH_ATTR_PRIO w = None"
  using assms by (simp add: pth_attr_get_def pth_attr_set_def attr_ctrl_get_def attr_ctrl_set_def)

end
