(* ===== verification/Natives.thy ===== *)
theory Natives
  imports Attr Printf
begin

text \<open>
  Native threads (pth_native.c): making one, the watchdog that wakes idle natives, and their end.
  A new native runs in parallel with the one that makes it, so what \<open>clone\<close> and the native it
  starts have done when the call returns is the parameter \<open>e_clone\<close>, and what other natives do
  during \<open>k_nanosleep\<close> is \<open>e_nanosleep\<close>.  The descriptor of the watchdog, an object of its
  own, is native \<open>pth_watchdog_descr\<close>, behind the table.  The configuration is the one without the
  debugger interface (\<open>THREAD_DB\<close>), without a separate register stack, with contexts that are
  made by \<open>makecontext\<close> (no trampoline buffers) and with spin locks that do not know their owner.
\<close>

record nworld = aworld +
  pth_watchdog_enabled :: bool
  pth_usr1_lock :: pth_qlock_st
  pth_initialized :: bool
  pth_initialized_minimal :: bool
  pth_initializing :: bool
  pth_shutdown_inprogress :: bool
  pth_fork_thread :: nat
  pth_fork_initialized :: bool

text \<open>
  \<open>e_mctx_set\<close> is the result of \<open>pth_mctx_set\<close> for a thread, \<open>e_sigmask\<close> the signal mask of the
  caller, \<open>e_time\<close> is \<open>time\<close>, and \<open>e_sigpipe\<close> tells whether \<open>pipe\<close> succeeds.
\<close>

record ('w, 'k) nenv = "('w, 'k) schedenv" +
  e_clone :: "nat \<Rightarrow> 'w \<times> 'k \<Rightarrow> int \<times> 'w \<times> 'k"
  e_nanosleep :: "'w \<times> 'k \<Rightarrow> 'w \<times> 'k"
  e_gettid :: "'k \<Rightarrow> nat"
  e_getpid :: int
  e_pagesize :: u32
  e_sizeof_attr :: u32
  e_sigpipe :: "'k \<Rightarrow> bool"
  e_mctx_set :: "nat \<Rightarrow> 'k \<Rightarrow> bool"
  e_sigmask :: "'k \<Rightarrow> 64 word"
  e_time :: "'k \<Rightarrow> u32"

type_synonym ('a, 'k) nstate = "('a nworld_scheme) \<times> 'k"

definition pth_watchdog_descr :: nat where "pth_watchdog_descr = PTH_MAX_NATIVE_THREADS + 1"

definition SIGKILL :: int where "SIGKILL = 9"

text \<open>A descriptor filled with zeros.\<close>

definition zero_native :: pth_descr_st where
  "zero_native = \<lparr>is_used = False, native_errno = 0, pid = 0, tid = 0, d_stacksize = 0, d_true_stack = 0, d_stack = 0, stack_top = 0,
     sched = 0, current = 0, nexttimer_thread = 0, sched_index = 0, is_bound = False, d_sigpending = 0, sigraised = 0,
     sched_lock = zero_lock, is_running = False, is_bounded = False, do_yield = False, bounded_thread = 0\<rparr>"

text \<open>
  The queues inside a descriptor, and a queue filled with zeros, which \<open>pqueue_init\<close> relies on:
  it does not touch the bitmap.
\<close>

definition native_queues :: "nat \<Rightarrow> nat list" where
  "native_queues d = [wait_queue d, new_queue d, ready_queue d]"

definition zero_pqueue :: "nat \<Rightarrow> qworld \<Rightarrow> qworld" where
  "zero_pqueue q c =
     upd_lnodes (\<lambda>h p. case p of PqHead q' i \<Rightarrow> if q' = q then \<lparr>lnext = LNull, lprev = LNull\<rparr> else h p | _ \<Rightarrow> h p)
       (upd_pqueue q (\<lambda>p. p\<lparr>pq_total := 0, pq_bitmap := map (\<lambda>_. 0) (pq_bitmap p), pq_lock := 0\<rparr>) c)"

subsection \<open>Making a native\<close>

text \<open>The stack of a native that has one; the result is 0 if there is no memory.\<close>

definition native_stack :: "('w, 'k) nenv \<Rightarrow> bool \<Rightarrow> nat \<Rightarrow> ('a nworld_scheme) \<Rightarrow> (nat \<times> ('a nworld_scheme)) option" where
  "native_stack E is_watchdog d w =
     do { let w1 = upd_native d (\<lambda>x. x\<lparr>d_stacksize := e_pagesize E + 8\<rparr>) w;
          (stack, m1) \<leftarrow> pth_malloc (e_mmap E) (d_stacksize (natives w1 d)) (mem w1);
          let w2 = w1\<lparr>mem := m1\<rparr>;
          if stack = 0
          then Some (0, if is_watchdog then w2 else w2\<lparr>pth_number_of_natives := pth_number_of_natives w2 - 1\<rparr>)
          else do { let st = (if stack mod 16 \<noteq> 0 then stack + 8 else stack);
                    Some (d, upd_native d (\<lambda>x. x\<lparr>d_true_stack := stack, d_stack := st, stack_top := st + unat (d_stacksize x)\<rparr>) w2) } }"

definition pth_alloc_native :: "('w, 'k) nenv \<Rightarrow> bool \<Rightarrow> bool \<Rightarrow> ('a nworld_scheme) \<Rightarrow> (nat \<times> ('a nworld_scheme)) option" where
  "pth_alloc_native E create_stack is_watchdog w =
     (let d = (if is_watchdog then pth_watchdog_descr else Suc (pth_number_of_natives w));
          w1 = (if is_watchdog then w else w\<lparr>pth_number_of_natives := Suc (pth_number_of_natives w)\<rparr>)
      in if pth_number_of_natives w1 \<ge> PTH_MAX_NATIVE_THREADS - 1
         then Some (0, w1\<lparr>pth_number_of_natives := pth_number_of_natives w1 - 1\<rparr>)
         else let w2 = upd_native d (\<lambda>_. zero_native\<lparr>sched_index := pth_number_of_natives w1 - 1, sched_lock := pth_qlock_init zero_lock\<rparr>) w1;
                  w3 = w2\<lparr>qw := fold pqueue_init (native_queues d) (fold zero_pqueue (native_queues d) (qw w2))\<rparr>
              in if \<not> create_stack then Some (d, w3) else native_stack E is_watchdog d w3)"

text \<open>
  A used native for a thread of system scope whose thread has ended; 0 if there is none.  The loop
  ends at the first entry that is not used.
\<close>

fun reuse_loop :: "nat list \<Rightarrow> ('a world_scheme) \<Rightarrow> nat option" where
  "reuse_loop [] w = None"
| "reuse_loop (d # ds) w =
     (if \<not> is_used (natives w d) then Some 0
      else if is_bounded (natives w d) \<and> bounded_thread (natives w d) = 0 then Some d
      else reuse_loop ds w)"

definition native_slots :: "nat list" where
  "native_slots = [2..<Suc PTH_MAX_NATIVE_THREADS]"

text \<open>What is done under the lock: the native, and whether it has to be started.\<close>

definition get_native :: "('w, 'k) nenv \<Rightarrow> nat \<Rightarrow> int \<Rightarrow> nat \<Rightarrow> ('a nworld_scheme) \<Rightarrow> (nat \<times> bool \<times> ('a nworld_scheme)) option" where
  "get_native E lk scp t w =
     do { w1 \<leftarrow> lock_native lk w;
          if \<not> is_running (natives w1 pth_first_native) then Some (0, False, unlock_native lk w1)
          else do { r \<leftarrow> (if scp = PTH_SCOPE_SYSTEM then reuse_loop native_slots w1 else Some 0);
                    if r \<noteq> 0 then Some (r, False, unlock_native lk w1)
                    else do { (d, w2) \<leftarrow> pth_alloc_native E True False w1;
                              if d = 0 then Some (0, False, unlock_native lk w2)
                              else let w3 = (if t \<noteq> 0 then upd_native d (\<lambda>x. x\<lparr>bounded_thread := t\<rparr>) w2 else w2)
                                   in Some (d, True, unlock_native lk w3) } } }"

definition pth_new_native :: "('a nworld_scheme, 'k) nenv \<Rightarrow> (('a, 'k) nstate \<Rightarrow> nat) \<Rightarrow> int \<Rightarrow> nat \<Rightarrow> ('a, 'k) nstate \<Rightarrow> (nat \<times> ('a, 'k) nstate) option" where
  "pth_new_native E self scp t s =
     do { let (w, k) = s;
          (d, start, w1) \<leftarrow> get_native E (tid (natives w (self s))) scp t w;
          if \<not> start then Some (d, w1, k)
          else do { let w2 = (if scp = PTH_SCOPE_SYSTEM then upd_native d (\<lambda>x. x\<lparr>is_bounded := True\<rparr>) w1 else w1);
                    let (native_pid, w3, k3) = e_clone E d (w2, k);
                    if native_pid = -1
                    then do { m4 \<leftarrow> pth_free_mem (d_true_stack (natives w3 d)) (d_stacksize (natives w3 d)) (mem w3);
                              let w4 = w3\<lparr>pth_number_of_natives := pth_number_of_natives w3 - 1, mem := m4\<rparr>;
                              Some (0, upd_native d (\<lambda>x. x\<lparr>is_used := False\<rparr>) w4, k3) }
                    else Some (d, w3, k3) } }"

subsection \<open>The watchdog\<close>

definition pth_new_watchdog :: "('a nworld_scheme, 'k) nenv \<Rightarrow> ('a, 'k) nstate \<Rightarrow> (int \<times> ('a, 'k) nstate) option" where
  "pth_new_watchdog E s =
     do { let (w, k) = s;
          let lk = e_gettid E k;
          w1 \<leftarrow> lock_native lk w;
          if pth_watchdog_enabled w1 then Some (-1, unlock_native lk w1, k)
          else do { let w2 = unlock_native lk (w1\<lparr>pth_watchdog_enabled := True\<rparr>);
                    (d, w3) \<leftarrow> pth_alloc_native E True True w2;
                    if d = 0 then Some (-1, w3, k)
                    else do { let (native_pid, w4, k4) = e_clone E d (w3, k);
                              if native_pid = -1
                              then do { m5 \<leftarrow> pth_free_mem (d_true_stack (natives w4 d)) (d_stacksize (natives w4 d)) (mem w4);
                                        Some (native_pid, upd_native d (\<lambda>x. x\<lparr>is_used := False\<rparr>) (w4\<lparr>mem := m5\<rparr>), k4) }
                              else Some (native_pid, w4, k4) } } }"

fun wake_idle :: "nat list \<Rightarrow> ('a world_scheme) \<Rightarrow> ('a world_scheme) option" where
  "wake_idle [] w = None"
| "wake_idle (d # ds) w =
     (if \<not> is_used (natives w d) then Some w
      else wake_idle ds (if \<not> is_bounded (natives w d) \<and> \<not> is_bound (natives w d) then write_sigpipe d w else w))"

text \<open>One turn after the sleep.\<close>

definition watchdog_turn :: "('a world_scheme) \<Rightarrow> ('a world_scheme) option" where
  "watchdog_turn w =
     (if pqueue_total_nolock pth_RQ (qw w) + pqueue_total pth_NQ (qw w) > 0 then wake_idle native_slots w else Some w)"

partial_function (option) watchdog_loop :: "('a nworld_scheme, 'k) nenv \<Rightarrow> ('a, 'k) nstate \<Rightarrow> ('a, 'k) nstate option" where
  [code]: "watchdog_loop E s =
     (if \<not> pth_watchdog_enabled (fst s) then Some s
      else let s1 = e_nanosleep E s
           in do { w2 \<leftarrow> watchdog_turn (fst s1); watchdog_loop E (w2, snd s1) })"

definition pth_watchdog :: "('a nworld_scheme, 'k) nenv \<Rightarrow> nat \<Rightarrow> ('a, 'k) nstate \<Rightarrow> ('a, 'k) nstate option" where
  "pth_watchdog E d s =
     do { let (w, k) = s;
          let w1 = upd_native d (\<lambda>x. x\<lparr>pid := e_getpid E, tid := e_gettid E k, is_bound := True, is_used := True\<rparr>) w;
          s2 \<leftarrow> watchdog_loop E (w1, k);
          Some (upd_native d (\<lambda>x. x\<lparr>is_used := False\<rparr>) (fst s2), snd s2) }"

subsection \<open>The end of the natives\<close>

text \<open>The first native waits until it is the only one.\<close>

partial_function (option) last_native_loop :: "('a nworld_scheme, 'k) nenv \<Rightarrow> nat \<Rightarrow> ('a, 'k) nstate \<Rightarrow> ('a, 'k) nstate option" where
  [code]: "last_native_loop E lk s =
     (if pth_number_of_natives (fst s) > 1
      then let s1 = e_nanosleep E (unlock_native lk (fst s), snd s)
           in do { w2 \<leftarrow> lock_native lk (fst s1); last_native_loop E lk (w2, snd s1) }
      else Some s)"

text \<open>Another one is waited for until its scheduler runs; \<open>False\<close> if it has gone meanwhile.\<close>

partial_function (option) back_loop :: "('a nworld_scheme, 'k) nenv \<Rightarrow> nat \<Rightarrow> nat \<Rightarrow> ('a, 'k) nstate \<Rightarrow> (bool \<times> ('a, 'k) nstate) option" where
  [code]: "back_loop E lk d s =
     (if current (natives (fst s) d) = sched (natives (fst s) d) then Some (True, s)
      else let s1 = e_nanosleep E (unlock_sched d lk (fst s), snd s)
           in do { w2 \<leftarrow> lock_sched d lk (fst s1);
                   if \<not> is_used (natives w2 d) then Some (False, w2, snd s1)
                   else back_loop E lk d (w2, snd s1) })"

text \<open>The global locks that a dead native holds.\<close>

definition drop_locks :: "nat \<Rightarrow> ('a nworld_scheme) \<Rightarrow> ('a nworld_scheme)" where
  "drop_locks d w =
     (let n = tid (natives w d);
          w1 = (if owner (key_lock (keys w)) = n then w\<lparr>keys := unlock_keys n (keys w)\<rparr> else w)
      in if owner (pth_usr1_lock w1) = n then w1\<lparr>pth_usr1_lock := snd (pth_release_lock n (pth_usr1_lock w1))\<rparr> else w1)"

text \<open>What is left to do when the native runs no thread; \<open>me\<close> is the native of the caller.\<close>

definition native_end :: "('a nworld_scheme, 'k) nenv \<Rightarrow> nat \<Rightarrow> nat \<Rightarrow> nat \<Rightarrow> ('a nworld_scheme) \<Rightarrow> ('a nworld_scheme) option" where
  "native_end E scheduler me d w =
     do { let w1 = (if sched_index (natives w d) \<noteq> 0 then upd_native d (\<lambda>x. x\<lparr>current := 0\<rparr>) w else w);
          w2 \<leftarrow> pth_tcb_free (threnv.truncate E) scheduler me (sched (natives w1 d)) w1;
          if d = pth_first_native then Some w2
          else do { m3 \<leftarrow> pth_free_mem (d_true_stack (natives w2 d)) (d_stacksize (natives w2 d)) (mem w2);
                    let w4 = (upd_native d (\<lambda>x. x\<lparr>is_used := False\<rparr>) (w2\<lparr>mem := m3\<rparr>))
                               \<lparr>pth_number_of_natives := pth_number_of_natives w2 - 1\<rparr>;
                    let x = natives w4 d;
                    let w5 = (if tid x \<noteq> 0 \<and> pid x = e_getpid E then w4\<lparr>sent := sent w4 @ [ToThread (tid x) SIGKILL]\<rparr> else w4);
                    Some (drop_locks d w5) } }"

definition pth_cleanup_native :: "('a nworld_scheme, 'k) nenv \<Rightarrow> nat \<Rightarrow> (('a, 'k) nstate \<Rightarrow> nat) \<Rightarrow> nat \<Rightarrow> ('a, 'k) nstate \<Rightarrow> ('a, 'k) nstate option" where
  "pth_cleanup_native E scheduler self d s =
     (if \<not> is_used (natives (fst s) d) then Some s
      else do { let lk = tid (natives (fst s) pth_first_native);
                s1 \<leftarrow> (if d = pth_first_native then last_native_loop E lk s else Some s);
                (go, s2) \<leftarrow> (if d \<noteq> pth_first_native \<and> \<not> is_bounded (natives (fst s1) d) then back_loop E lk d s1 else Some (True, s1));
                if \<not> go then Some s2
                else do { w3 \<leftarrow> native_end E scheduler (self s2) d (fst s2); Some (w3, snd s2) } })"

text \<open>A native that runs is told to stop, and is cleaned up.\<close>

definition stop_native :: "('a nworld_scheme, 'k) nenv \<Rightarrow> nat \<Rightarrow> (('a, 'k) nstate \<Rightarrow> nat) \<Rightarrow> nat \<Rightarrow> ('a, 'k) nstate \<Rightarrow> ('a, 'k) nstate option" where
  "stop_native E scheduler self d s =
     do { let w1 = upd_native d (\<lambda>x. x\<lparr>is_running := False\<rparr>) (fst s);
          let x = natives w1 d;
          w2 \<leftarrow> (if is_bounded x \<and> current x \<noteq> sched x
                 then do { let v1 = w1\<lparr>sent := sent w1 @ [ToThread (tid x) SIGKILL]\<rparr>;
                           let v2 = (if owner (key_lock (keys v1)) = tid x then v1\<lparr>keys := unlock_keys (tid x) (keys v1)\<rparr> else v1);
                           pth_tcb_free (threnv.truncate E) scheduler (self (v2, snd s)) (current x) v2 }
                 else Some w1);
          pth_cleanup_native E scheduler self d (w2, snd s) }"

fun stop_loop :: "('a nworld_scheme, 'k) nenv \<Rightarrow> nat \<Rightarrow> (('a, 'k) nstate \<Rightarrow> nat) \<Rightarrow> nat \<Rightarrow> nat list \<Rightarrow> ('a, 'k) nstate \<Rightarrow> ('a, 'k) nstate option" where
  "stop_loop E scheduler self lk [] s = Some s"
| "stop_loop E scheduler self lk (d # ds) s =
     do { w1 \<leftarrow> lock_sched d lk (fst s);
          s2 \<leftarrow> (if is_running (natives w1 d) then stop_native E scheduler self d (w1, snd s) else Some (w1, snd s));
          stop_loop E scheduler self lk ds (unlock_sched d lk (fst s2), snd s2) }"

definition drop_watchdog :: "('w, 'k) nenv \<Rightarrow> ('a nworld_scheme) \<Rightarrow> ('a nworld_scheme) option" where
  "drop_watchdog E w =
     (let w1 = w\<lparr>pth_watchdog_enabled := False\<rparr>; x = natives w1 pth_watchdog_descr
      in if is_used x
         then do { let w2 = upd_native pth_watchdog_descr (\<lambda>y. y\<lparr>is_used := False\<rparr>) w1;
                   m3 \<leftarrow> pth_free_mem (d_true_stack x) (d_stacksize x) (mem w2);
                   let w3 = w2\<lparr>mem := m3\<rparr>;
                   Some (if pid x = e_getpid E then w3\<lparr>sent := sent w3 @ [ToThread (tid x) SIGKILL]\<rparr> else w3) }
         else Some w1)"

definition pth_drop_natives :: "('a nworld_scheme, 'k) nenv \<Rightarrow> nat \<Rightarrow> (('a, 'k) nstate \<Rightarrow> nat) \<Rightarrow> ('a, 'k) nstate \<Rightarrow> ('a, 'k) nstate option" where
  "pth_drop_natives E scheduler self s =
     do { let lk = tid (natives (fst s) pth_first_native);
          w1 \<leftarrow> drop_watchdog E (fst s);
          w2 \<leftarrow> lock_native lk w1;
          let w3 = upd_native pth_first_native (\<lambda>x. x\<lparr>is_running := False\<rparr>) w2;
          let n = pth_number_of_natives w3;
          s4 \<leftarrow> stop_loop E scheduler self lk [2..<Suc n] (unlock_native lk w3, snd s);
          w5 \<leftarrow> lock_native lk (fst s4);
          s6 \<leftarrow> pth_cleanup_native E scheduler self pth_first_native (w5, snd s4);
          Some (unlock_native lk (fst s6), snd s6) }"

end
