(* ===== verification/Spawn.thy ===== *)
theory Spawn
  imports Natives
begin

text \<open>
  Creating threads (\<open>pth_spawn\<close> in pth_lib.c), the start of a native thread
  (\<open>pth_new_scheduler\<close> in pth_native.c), and the start and the end of the library
  (\<open>pth_initialize_minimal\<close>, \<open>pth_init\<close>, \<open>pth_kill\<close>).  \<open>scheduler\<close> is the address of
  \<open>pth_scheduler\<close>.
\<close>

text \<open>A name that is printed into the control block.\<close>

definition print_name :: "string \<Rightarrow> fmtarg list \<Rightarrow> string option" where
  "print_name fmt args =
     do { (_, buf, _) \<leftarrow> pth_snprintf (Some (replicate PTH_TCB_NAMELEN NUL)) PTH_TCB_NAMELEN fmt args;
          map_option (takeWhile (\<lambda>c. c \<noteq> NUL)) buf }"

text \<open>The scheduling attributes; \<open>cur\<close> is the calling thread, or 0.\<close>

definition spawn_sched :: "nat \<Rightarrow> nat \<Rightarrow> nat \<Rightarrow> nat \<Rightarrow> ('a nworld_scheme) \<Rightarrow> ('a nworld_scheme) option" where
  "spawn_sched lk cur t a w =
     (let x = attrs w a in
      if a_inheritsched x \<noteq> 0 \<and> cur \<noteq> 0 then
        do { let w1 = upd_thread t (\<lambda>y. y\<lparr>scope := scope (threads w cur), schedpolicy := schedpolicy (threads w cur)\<rparr>) w;
             (p, w2) \<leftarrow> thread_prio_get cur lk w1;
             Some (thread_prio_set_nolock t p w2) }
      else Some (thread_prio_set_nolock t (fst (xprio_to_iprio (a_schedpolicy x) (a_prio x) 0))
                   (upd_thread t (\<lambda>y. y\<lparr>scope := a_scope x, schedpolicy := a_schedpolicy x\<rparr>) w)))"

text \<open>
  The members that come from the attributes, the calling thread or the defaults; the result is
  \<open>create_suspended\<close>.
\<close>

definition spawn_config :: "('w, 'k) nenv \<Rightarrow> nat \<Rightarrow> nat \<Rightarrow> nat \<Rightarrow> nat \<Rightarrow> 'k \<Rightarrow> ('a nworld_scheme) \<Rightarrow> (int \<times> ('a nworld_scheme)) option" where
  "spawn_config E lk cur t a k w =
     (if a \<noteq> 0 then
        do { w1 \<leftarrow> spawn_sched lk cur t a w;
             let x = attrs w1 a;
             Some (a_suspendstate x, upd_thread t (\<lambda>y. y\<lparr>joinable := a_joinable x, cancelstate := a_cancelstate x, t_name := name_of (a_name x)\<rparr>) w1) }
      else if cur \<noteq> 0 then
        do { let w1 = thread_prio_set_nolock t (thread_prio_get_nolock cur w)
                        (upd_thread t (\<lambda>y. y\<lparr>scope := PTH_SCOPE_PROCESS, schedpolicy := SCHED_OTHER\<rparr>) w);
             let x = threads w1 cur;
             n \<leftarrow> print_name ''%s.child@%d=0x%lx'' [fmtarg.AStr (Some (t_name x)), fmtarg.AInt (e_time E k), fmtarg.ALong (of_nat cur)];
             Some (0, upd_thread t (\<lambda>y. y\<lparr>joinable := joinable x, cancelstate := cancelstate x, t_name := n\<rparr>) w1) }
      else
        do { let w1 = thread_prio_set_nolock t (fst (iprio_get_default SCHED_OTHER 0))
                        (upd_thread t (\<lambda>y. y\<lparr>scope := PTH_SCOPE_PROCESS, schedpolicy := SCHED_OTHER\<rparr>) w);
             n \<leftarrow> print_name ''user/%x'' [fmtarg.AInt (e_time E k)];
             Some (0, upd_thread t (\<lambda>y. y\<lparr>joinable := 1, cancelstate := PTH_CANCEL_DEFAULT, t_name := n\<rparr>) w1) })"

definition spawn_init :: "('w, 'k) nenv \<Rightarrow> nat \<Rightarrow> nat \<Rightarrow> nat \<Rightarrow> nat \<Rightarrow> 'k \<Rightarrow> ('a nworld_scheme) \<Rightarrow> ('a nworld_scheme)" where
  "spawn_init E cur t fn ar k w =
     (upd_thread t (\<lambda>x. x\<lparr>t_spawned := e_now E k, t_lastran := e_now E k, t_running := 0, t_events := 0,
                         sigactionmask := (if cur \<noteq> 0 then sigactionmask (threads w cur) else 0), t_sigpending := 0, sigpendcnt := 0, sigthread := 0,
                         start_func := fn, start_arg := ar, join_arg := 0, cancelreq := False, mutexring := pth_ring_init\<rparr>) w)
     \<lparr>keys := (keys w)\<lparr>data_value := (data_value (keys w))(t := None), data_count := (data_count (keys w))(t := 0)\<rparr>,
      cleans := (cleans w)\<lparr>cleanups := (cleanups (cleans w))(t := None)\<rparr>\<rparr>"

text \<open>The memory of a thread whose context cannot be made.\<close>

definition spawn_undo :: "('w, 'k) nenv \<Rightarrow> nat \<Rightarrow> ('a nworld_scheme) \<Rightarrow> ('a nworld_scheme) option" where
  "spawn_undo E t w =
     do { let x = threads w t;
          m1 \<leftarrow> pth_free_mem (true_stack x) (stacksize x + 8) (mem w);
          m2 \<leftarrow> pth_free_mem (if ptrfixed x then t - 8 else t) (e_sizeof_tcb E + 8) m1;
          Some (w\<lparr>mem := m2\<rparr>) }"

text \<open>The list of all threads.\<close>

definition spawn_register :: "nat \<Rightarrow> nat \<Rightarrow> ('a nworld_scheme) \<Rightarrow> ('a nworld_scheme) option" where
  "spawn_register lk t w =
     do { w1 \<leftarrow> lock_native lk w;
          let w2 = thread_queue_add t w1;
          Some (unlock_native lk (w2\<lparr>pth_threads_count := pth_threads_count w2 + 1\<rparr>)) }"

datatype spawn_step = SpawnGo | SpawnFail | SpawnAbort

text \<open>\<open>active % per_native\<close> with \<open>per_native = 0\<close> is a division by zero.\<close>

definition wants_native :: "('a tworld_scheme) \<Rightarrow> bool option" where
  "wants_native w =
     (let act = pth_active_threads w in
      if pth_max_native_threads w > 1 \<and> act > 1
      then if pth_threads_per_native w = 0 then None
           else Some ((act mod pth_threads_per_native w = 0 \<or> act - 1 = 1)
                  \<and> int (pth_number_of_natives w) < pth_max_native_threads w \<and> int (pth_number_of_natives w) < act)
      else Some False)"

text \<open>The main thread is moved to another native, and the first native becomes bounded.\<close>

definition move_main :: "('a nworld_scheme, 'k) nenv \<Rightarrow> (('a, 'k) nstate \<Rightarrow> nat) \<Rightarrow> nat \<Rightarrow> ('a, 'k) nstate \<Rightarrow> (spawn_step \<times> nat \<times> ('a, 'k) nstate) option" where
  "move_main E self d s =
     (if native_is_group_leader d \<and> current (natives (fst s) (self s)) = pth_main (fst s) then
        do { let m = pth_main (fst s);
             let w1 = upd_thread m (\<lambda>x. x\<lparr>tstate := PTH_STATE_WAITING, boundnative := 0\<rparr>) (upd_native d (\<lambda>x. x\<lparr>is_bounded := True\<rparr>) (fst s));
             s2 \<leftarrow> pth_yield (threnv.truncate E) self 0 (w1, snd s);
             let d2 = self s2;
             if native_is_group_leader d2 then Some (SpawnAbort, d2, s2)
             else Some (SpawnGo, d2, upd_thread (pth_main (fst s2)) (\<lambda>x. x\<lparr>tstate := PTH_STATE_READY\<rparr>) (fst s2), snd s2) }
      else Some (SpawnGo, d, s))"

definition wants_watchdog :: "('a nworld_scheme) \<Rightarrow> bool" where
  "wants_watchdog w \<longleftrightarrow> pth_fork_thread w \<noteq> 0 \<and> \<not> pth_watchdog_enabled w
     \<and> (pth_max_native_threads w = int (pth_number_of_natives w) \<or> pth_threads_per_native w > 1 \<and> pth_number_of_natives w > 2)"

text \<open>A native for a thread of process scope, if there should be another one.\<close>

definition spawn_native :: "('a nworld_scheme, 'k) nenv \<Rightarrow> nat \<Rightarrow> (('a, 'k) nstate \<Rightarrow> nat) \<Rightarrow> nat \<Rightarrow> nat \<Rightarrow> ('a, 'k) nstate
    \<Rightarrow> (spawn_step \<times> nat \<times> ('a, 'k) nstate) option" where
  "spawn_native E scheduler self d t s =
     do { wanted \<leftarrow> wants_native (fst s);
          if \<not> wanted then Some (SpawnGo, d, s)
          else do { (nd, s1) \<leftarrow> pth_new_native E self PTH_SCOPE_PROCESS 0 s;
                    if nd = 0
                    then do { w2 \<leftarrow> pth_tcb_free (threnv.truncate E) scheduler (self s1) t (fst s1); Some (SpawnFail, d, w2, snd s1) }
                    else do { (r, d2, s2) \<leftarrow> move_main E self d s1;
                              if r \<noteq> SpawnGo then Some (r, d2, s2)
                              else if wants_watchdog (fst s2)
                              then do { (_, s3) \<leftarrow> pth_new_watchdog E s2; Some (SpawnGo, d2, s3) }
                              else Some (SpawnGo, d2, s2) } } }"

text \<open>A native of its own for a thread of system scope.\<close>

definition spawn_bound :: "('a nworld_scheme, 'k) nenv \<Rightarrow> nat \<Rightarrow> (('a, 'k) nstate \<Rightarrow> nat) \<Rightarrow> int \<Rightarrow> nat \<Rightarrow> ('a, 'k) nstate
    \<Rightarrow> (spawn_step \<times> ('a, 'k) nstate) option" where
  "spawn_bound E scheduler self scp t s =
     do { (nd, s1) \<leftarrow> pth_new_native E self scp t s;
          let w2 = upd_thread t (\<lambda>x. x\<lparr>boundnative := nd\<rparr>) (fst s1);
          if nd = 0
          then do { w3 \<leftarrow> pth_tcb_free (threnv.truncate E) scheduler (self (w2, snd s1)) t w2; Some (SpawnFail, w3, snd s1) }
          else Some (SpawnGo, w2\<lparr>pth_max_native_threads := pth_max_native_threads w2 + 1\<rparr>, snd s1) }"

definition spawn_enqueue :: "nat \<Rightarrow> nat \<Rightarrow> nat \<Rightarrow> ('a nworld_scheme) \<Rightarrow> ('a nworld_scheme) option" where
  "spawn_enqueue lk q t w =
     do { let w1 = upd_thread t (\<lambda>x. x\<lparr>tstate := PTH_STATE_NEW\<rparr>) w;
          w2 \<leftarrow> upd_qw (pqueue_append_node q t) w1;
          let bn = boundnative (threads w2 t);
          if bn = 0 then Some w2
          else do { let w3 = upd_thread t (\<lambda>x. x\<lparr>tstate := PTH_STATE_READY\<rparr>) w2;
                    if is_running (natives w3 bn) \<and> \<not> is_bound (natives w3 bn)
                    then do { w4 \<leftarrow> lock_sched bn lk w3; Some (unlock_sched bn lk (write_sigpipe bn w4)) }
                    else Some w3 } }"

datatype spawned = Spawned nat | SpawnAborts

text \<open>From the list of all threads to the queue; \<open>q\<close> is \<open>pth_CQ\<close>.\<close>

definition spawn_start :: "('a nworld_scheme, 'k) nenv \<Rightarrow> nat \<Rightarrow> (('a, 'k) nstate \<Rightarrow> nat) \<Rightarrow> nat \<Rightarrow> nat \<Rightarrow> int \<Rightarrow> nat \<Rightarrow> ('a, 'k) nstate
    \<Rightarrow> (spawned \<times> ('a, 'k) nstate) option" where
  "spawn_start E scheduler self d q susp t s =
     do { w1 \<leftarrow> spawn_register (tid (natives (fst s) d)) t (fst s);
          let q1 = (if susp = 1 then pth_SQ else q);
          let scp = scope (threads w1 t);
          (r, d2, q2, s2) \<leftarrow>
            (if scp = PTH_SCOPE_PROCESS
             then do { (r, d2, s2) \<leftarrow> spawn_native E scheduler self d t (w1, snd s); Some (r, d2, q1, s2) }
             else do { (r, s2) \<leftarrow> spawn_bound E scheduler self scp t (w1, snd s); Some (r, d, ready_queue (boundnative (threads (fst s2) t)), s2) });
          case r of
            SpawnFail \<Rightarrow> Some (Spawned 0, s2)
          | SpawnAbort \<Rightarrow> Some (SpawnAborts, s2)
          | SpawnGo \<Rightarrow> do { w3 \<leftarrow> spawn_enqueue (tid (natives (fst s2) d2)) q2 t (fst s2); Some (Spawned t, w3, snd s2) } }"

definition pth_spawn_cb :: "('a nworld_scheme, 'k) nenv \<Rightarrow> nat \<Rightarrow> (('a, 'k) nstate \<Rightarrow> nat) \<Rightarrow> nat \<Rightarrow> nat \<Rightarrow> nat \<Rightarrow> ('a, 'k) nstate
    \<Rightarrow> (spawned \<times> ('a, 'k) nstate) option" where
  "pth_spawn_cb E scheduler self a fn ar s =
     do { let (w, k) = s;
          (t, w1) \<leftarrow> pth_tcb_alloc (threnv.truncate E) (if a = 0 then word_of_int (pth_default_stacksize w * 1024) else a_stacksize (attrs w a))
                      (if a = 0 then 0 else a_stackaddr (attrs w a)) w;
          if t = 0 then Some (Spawned 0, w1, k)
          else do { let d = self (w1, k);
                    let cur = current (natives w1 d);
                    (susp, w2) \<leftarrow> spawn_config E (tid (natives w1 d)) cur t a k w1;
                    let w3 = spawn_init E cur t fn ar k w2;
                    let big = stacksize (threads w3 t) > 0;
                    let q = (if big \<and> pth_max_native_threads w3 \<noteq> 1 then pth_NQ else new_queue d);
                    if big \<and> \<not> e_mctx_set E t k
                    then do { w4 \<leftarrow> spawn_undo E t w3; Some (Spawned 0, w4, k) }
                    else do { let w4 = upd_thread t (\<lambda>x. x\<lparr>mctx_sigs := e_sigmask E k\<rparr>) w3;
                              if fn = scheduler then Some (Spawned t, w4, k)
                              else spawn_start E scheduler self d q susp t (w4, k) } } }"

definition pth_spawn :: "('a nworld_scheme, 'k) nenv \<Rightarrow> nat \<Rightarrow> (('a, 'k) nstate \<Rightarrow> nat) \<Rightarrow> nat \<Rightarrow> nat \<Rightarrow> nat \<Rightarrow> ('a, 'k) nstate
    \<Rightarrow> (spawned \<times> ('a, 'k) nstate) option" where
  "pth_spawn = pth_spawn_cb"

end
