(* ===== verification/Init.thy ===== *)
theory Init
  imports Spawn Time
begin

text \<open>
  The start of a native thread (\<open>pth_new_scheduler\<close> in pth_native.c) and the start and the end of
  the library: \<open>pth_initialize_minimal\<close>, \<open>pth_init\<close> and \<open>pth_kill\<close>.  The state gets the
  descriptor of the shared area and the handlers for \<open>fork\<close>.  The environment variables, the number
  of processors, the scheduling parameters of the process and the file of the shared area are
  parameters; a version of the file other than \<open>e_version\<close> is refused.
\<close>

record pth_atfork_st =
  af_prepare :: nat
  af_parent :: nat
  af_child :: nat
  af_arg :: nat

record iworld = nworld +
  pth_shared_fd :: int
  pth_atfork_list :: "pth_atfork_st list"
  pth_atfork_idx :: int
  pth_init_lock :: pth_qlock_st

record ('w, 'k) initenv = "('w, 'k) nenv" +
  e_has_futex :: bool
  e_getenv :: "string \<Rightarrow> string option"
  e_errno :: int
  e_ncpu :: int
  e_main_sched :: "int \<times> int"
  e_freq :: "64 word"
  e_tod :: "'k \<Rightarrow> timeval"
  e_area_open :: int
  e_area_read :: "(u32 \<times> nat) option"
  e_area_map :: bool
  e_version :: u32
  e_fork :: "'k \<Rightarrow> int \<times> 'k"
  e_atfork :: "nat \<Rightarrow> nat \<Rightarrow> 'w \<times> 'k \<Rightarrow> 'w \<times> 'k"
  e_stdlocks :: "nat list"

type_synonym ('a, 'k) istate = "('a iworld_scheme) \<times> 'k"

subsection \<open>Attributes of the threads of the library\<close>

fun set_attrs :: "nat \<Rightarrow> (attr_op \<times> attr_val) list \<Rightarrow> ('a aworld_scheme) \<Rightarrow> ('a aworld_scheme) option" where
  "set_attrs a [] w = Some w"
| "set_attrs a ((op, v) # xs) w = do { (_, w1) \<leftarrow> pth_attr_set a op v w; set_attrs a xs w1 }"

definition scheduler_attrs :: "u32 \<Rightarrow> (attr_op \<times> attr_val) list" where
  "scheduler_attrs ssz =
     [(PTH_ATTR_SCHEDPOLICY, attr_val.AInt SCHED_FIFO), (PTH_ATTR_PRIO, attr_val.AInt (fst (xprio_get_max SCHED_FIFO 0))),
      (PTH_ATTR_NAME, attr_val.AStr ''**SCHEDULER**''), (PTH_ATTR_JOINABLE, attr_val.AInt 0), (PTH_ATTR_CANCEL_STATE, AUint PTH_CANCEL_DISABLE),
      (PTH_ATTR_STACK_SIZE, AUint ssz), (PTH_ATTR_STACK_ADDR, attr_val.APtr 0)]"

definition main_attrs :: "int \<Rightarrow> int \<Rightarrow> (attr_op \<times> attr_val) list" where
  "main_attrs policy pri =
     [(PTH_ATTR_SCHEDPOLICY, attr_val.AInt policy), (PTH_ATTR_PRIO, attr_val.AInt pri), (PTH_ATTR_NAME, attr_val.AStr ''main''),
      (PTH_ATTR_JOINABLE, attr_val.AInt 1), (PTH_ATTR_CANCEL_STATE, AUint (set_flag PTH_CANCEL_ENABLE PTH_CANCEL_DEFERRED)),
      (PTH_ATTR_STACK_SIZE, AUint 0), (PTH_ATTR_STACK_ADDR, attr_val.APtr 0)]"

subsection \<open>The start of a native\<close>

text \<open>The threads of a native that does not start.\<close>

partial_function (option) discard_loop :: "('w, 'k) nenv \<Rightarrow> nat \<Rightarrow> ('a nworld_scheme) \<Rightarrow> ('a nworld_scheme) option" where
  [code]: "discard_loop E d w =
     (if pqueue_total_nolock (ready_queue d) (qw w) = 0 then Some w
      else let t = thread_by_node (pqueue_first_node_nolock (ready_queue d) (qw w))
           in if t = 0 then None
              else do { w1 \<leftarrow> upd_qw (pqueue_delete_node_nolock t) w;
                        w2 \<leftarrow> spawn_undo E t (w1\<lparr>pth_threads_count := pth_threads_count w1 - 1\<rparr>);
                        discard_loop E d w2 })"

text \<open>\<open>None\<close> as the first result: control passes to the new scheduler.\<close>

definition native_scheduler :: "('a nworld_scheme, 'k) nenv \<Rightarrow> nat \<Rightarrow> (('a, 'k) nstate \<Rightarrow> nat) \<Rightarrow> nat \<Rightarrow> nat \<Rightarrow> ('a, 'k) nstate
    \<Rightarrow> (sched_end option \<times> ('a, 'k) nstate) option" where
  "native_scheduler E scheduler self d a s =
     do { w1 \<leftarrow> set_attrs a (scheduler_attrs (32 * 1024)) (fst s);
          (r, s2) \<leftarrow> pth_spawn E scheduler self a scheduler 0 (w1, snd s);
          let t = (case r of Spawned t \<Rightarrow> t | SpawnAborts \<Rightarrow> 0);
          let w3 = upd_native d (\<lambda>x. x\<lparr>sched := t\<rparr>) (fst s2);
          (_, w4) \<leftarrow> pth_attr_destroy (e_sizeof_attr E) a w3;
          if t = 0
          then do { (e, w5) \<leftarrow> pth_exit_scheduler (threnv.truncate E) scheduler d False w4; Some (Some e, w5, snd s2) }
          else let w5 = upd_thread t (\<lambda>x. x\<lparr>lastrannative := tid (natives w4 d)\<rparr>) w4
               in Some (None, upd_native d (\<lambda>x. x\<lparr>current := t, is_running := True\<rparr>) w5, snd s2) }"

definition pth_new_scheduler :: "('a nworld_scheme, 'k) nenv \<Rightarrow> nat \<Rightarrow> (('a, 'k) nstate \<Rightarrow> nat) \<Rightarrow> nat \<Rightarrow> ('a, 'k) nstate
    \<Rightarrow> (sched_end option \<times> ('a, 'k) nstate) option" where
  "pth_new_scheduler E scheduler self d s =
     do { let (w, k) = s;
          let lk = e_gettid E k;
          w1 \<leftarrow> lock_sched d lk w;
          let w2 = upd_native d (\<lambda>x. x\<lparr>pid := e_getpid E, tid := lk, is_bound := True, is_used := True\<rparr>) w1;
          if pth_exit_count w2 > 0 \<or> \<not> e_sigpipe E k then
            do { w3 \<leftarrow> upd_qw (spin_lock_pq (ready_queue d)) w2;
                 w4 \<leftarrow> discard_loop E d w3;
                 let w5 = w4\<lparr>qw := spin_unlock_pq (ready_queue d) (qw w4)\<rparr>;
                 let w6 = (upd_native d (\<lambda>x. x\<lparr>is_used := False\<rparr>) w5)\<lparr>pth_number_of_natives := pth_number_of_natives w5 - 1\<rparr>;
                 Some (Some NativeExits, unlock_sched d lk w6, k) }
          else if pth_active_threads w2 \<le> 1 then
            do { (e, w3) \<leftarrow> pth_exit_scheduler (threnv.truncate E) scheduler d True w2; Some (Some e, w3, k) }
          else do { (a, w3) \<leftarrow> pth_attr_new (e_mmap E) (e_sizeof_attr E) w2;
                    if a = 0
                    then do { (e, w4) \<leftarrow> pth_exit_scheduler (threnv.truncate E) scheduler d True w3; Some (Some e, w4, k) }
                    else native_scheduler E scheduler self d a (w3, k) } }"

subsection \<open>The start of the library\<close>

text \<open>\<open>False\<close>: the process is aborted, because the kernel has no futexes.\<close>

definition pth_initialize_minimal :: "('w, 'k) initenv \<Rightarrow> 'k \<Rightarrow> ('a nworld_scheme) \<Rightarrow> (bool \<times> ('a nworld_scheme)) option" where
  "pth_initialize_minimal E k w =
     (if pth_initialized_minimal w then Some (True, w)
      else do { (d, w1) \<leftarrow> pth_alloc_native (nenv.truncate E) False False (w\<lparr>pth_number_of_natives := 0\<rparr>);
                if d = 0 then None
                else let w2 = upd_native d (\<lambda>x. x\<lparr>pid := int (e_gettid E k), tid := e_gettid E k\<rparr>) w1
                     in Some (e_has_futex E, w2\<lparr>pth_initialized_minimal := True\<rparr>) })"

text \<open>All descriptors but the first are filled with zeros.\<close>

definition zero_natives :: "('a world_scheme) \<Rightarrow> ('a world_scheme)" where
  "zero_natives w =
     w\<lparr>natives := (\<lambda>d. if d \<in> set native_slots then zero_native else natives w d),
       qw := fold (\<lambda>d. fold zero_pqueue (native_queues d)) native_slots (qw w)\<rparr>"

text \<open>\<open>strtol\<close> with base 10: the number and \<open>errno\<close>.\<close>

definition ERANGE :: int where "ERANGE = 34"

fun read_digits :: "int \<Rightarrow> string \<Rightarrow> int" where
  "read_digits n [] = n"
| "read_digits n (c # cs) = (if isdigit c then read_digits (n * 10 + int (digit_val c)) cs else n)"

definition strtol :: "string \<Rightarrow> int \<Rightarrow> int \<times> int" where
  "strtol s errno =
     (let s1 = dropWhile (\<lambda>c. of_char c \<in> {32 :: nat, 9, 10, 11, 12, 13}) s;
          neg = (s1 \<noteq> [] \<and> hd s1 = CHR ''-'');
          s2 = (if s1 \<noteq> [] \<and> (hd s1 = CHR ''-'' \<or> hd s1 = CHR ''+'') then tl s1 else s1);
          v = (if neg then - read_digits 0 s2 else read_digits 0 s2)
      in if v > 2 ^ 31 - 1 then (2 ^ 31 - 1, ERANGE) else if v < - (2 ^ 31) then (- (2 ^ 31), ERANGE) else (v, errno))"

text \<open>A number from the environment, with \<open>errno\<close>; it counts only if \<open>errno\<close> is not ERANGE.\<close>

definition env_number :: "('w, 'k) initenv \<Rightarrow> string \<Rightarrow> int \<Rightarrow> int option \<times> int" where
  "env_number E name errno =
     (case e_getenv E name of
        None \<Rightarrow> (None, errno)
      | Some s \<Rightarrow> let (v, e) = strtol s errno in (if e \<noteq> ERANGE then Some v else None, e))"

text \<open>In kilobytes; \<open>PTHREAD_STACK_MIN\<close> is 16384 and \<open>PTH_MAX_STACK_SIZE\<close> is 8388608.\<close>

definition init_stacksize :: "('w, 'k) initenv \<Rightarrow> int \<times> int" where
  "init_stacksize E =
     (let (n, e) = env_number E ''DEFAULTTHREADSTACKSIZE'' (e_errno E)
      in (case n of Some v \<Rightarrow> if v \<ge> 16 \<and> v \<le> 8 * 1024 * 1024 then v else 64 | None \<Rightarrow> 64, e))"

text \<open>The limits for the natives, from the environment or the number of processors.\<close>

definition init_limits :: "('w, 'k) initenv \<Rightarrow> int \<Rightarrow> ('a iworld_scheme) \<Rightarrow> ('a iworld_scheme)" where
  "init_limits E errno w =
     (let (ratio, e1) = env_number E ''MAXTHREADPERCPU'' errno;
          (num, e2) = env_number E ''MAXNATIVETHREADS'' e1;
          per = (case ratio of Some v \<Rightarrow> v | None \<Rightarrow> 1);
          mx = (case num of Some v \<Rightarrow> v | None \<Rightarrow> 0);
          (mx1, per1) = (if mx = 0 then (e_ncpu E, 1) else (mx, per));
          w1 = w\<lparr>pth_number_of_natives := 1, pth_max_native_threads := mx1, pth_threads_per_native := per1\<rparr>
      in if mx1 > 1
         then (upd_thread (pth_main w1) (\<lambda>x. x\<lparr>boundnative := pth_first_native\<rparr>) w1)\<lparr>pth_max_native_threads := mx1 + 1\<rparr>
         else w1)"

text \<open>The shared area (pth_sync.c): the file has the version and the number of its objects.\<close>

definition pth_initialize_shared :: "('w, 'k) initenv \<Rightarrow> ('a iworld_scheme) \<Rightarrow> bool \<times> ('a iworld_scheme)" where
  "pth_initialize_shared E w =
     (if pth_shared_fd w \<noteq> 0 then (True, w)
      else let w1 = w\<lparr>pth_shared_fd := e_area_open E\<rparr>
           in if e_area_open E = -1 then (False, w1)
              else case e_area_read E of
                None \<Rightarrow> (False, w1)
              | Some (verid, num) \<Rightarrow>
                  if verid \<noteq> e_version E then (False, w1)
                  else let w2 = w1\<lparr>shared_objects := num\<rparr>
                       in if \<not> e_area_map E then (False, w2)
                          else (True, w2\<lparr>shared_lock := pth_qlock_init (shared_lock w2)\<rparr>))"

definition forget_atfork :: "('a iworld_scheme) \<Rightarrow> ('a iworld_scheme)" where
  "forget_atfork w = w\<lparr>pth_atfork_list := map (\<lambda>_. \<lparr>af_prepare = 0, af_parent = 0, af_child = 0, af_arg = 0\<rparr>) (pth_atfork_list w)\<rparr>"

datatype init_end = InitReturns bool | InitAborts

text \<open>The scheduler thread and the main thread; \<open>None\<close> as the first result: both exist.\<close>

definition init_main :: "('a iworld_scheme, 'k) initenv \<Rightarrow> nat \<Rightarrow> (('a, 'k) istate \<Rightarrow> nat) \<Rightarrow> nat \<Rightarrow> nat \<Rightarrow> ('a, 'k) istate
    \<Rightarrow> (init_end option \<times> ('a, 'k) istate) option" where
  "init_main E scheduler self d a s =
     do { let (policy, pri) = e_main_sched E;
          w1 \<leftarrow> set_attrs a (main_attrs policy pri) (fst s);
          (r, w2, k2) \<leftarrow> pth_spawn_cb (nenv.truncate E) scheduler self a (2 ^ 32 - 1) 0 (w1, snd s);
          case r of
            SpawnAborts \<Rightarrow> Some (Some InitAborts, w2, k2)
          | Spawned m \<Rightarrow>
              do { let w3 = w2\<lparr>pth_main := m\<rparr>;
                   (_, w4) \<leftarrow> pth_attr_destroy (e_sizeof_attr E) a w3;
                   if m = 0
                   then do { w5 \<leftarrow> pth_tcb_free (threnv.truncate E) scheduler (self (w4, k2)) (sched (natives w4 d)) w4;
                             Some (Some (InitReturns False), w5, k2) }
                   else Some (None, upd_thread m (\<lambda>x. x\<lparr>lastrannative := tid (natives w4 d)\<rparr>) w4, k2) } }"

definition init_threads :: "('a iworld_scheme, 'k) initenv \<Rightarrow> nat \<Rightarrow> (('a, 'k) istate \<Rightarrow> nat) \<Rightarrow> nat \<Rightarrow> ('a, 'k) istate
    \<Rightarrow> (init_end option \<times> ('a, 'k) istate) option" where
  "init_threads E scheduler self d s =
     do { (a, w1) \<leftarrow> pth_attr_new (e_mmap E) (e_sizeof_attr E) (fst s);
          if a = 0 then Some (Some InitAborts, w1, snd s)
          else do { w2 \<leftarrow> set_attrs a (scheduler_attrs (32 * 1024)) w1;
                    (r, w3, k3) \<leftarrow> pth_spawn (nenv.truncate E) scheduler self a scheduler 0 (w2, snd s);
                    case r of
                      SpawnAborts \<Rightarrow> Some (Some InitAborts, w3, k3)
                    | Spawned t \<Rightarrow>
                        do { let w4 = upd_native d (\<lambda>x. x\<lparr>sched := t\<rparr>) w3;
                             if t = 0
                             then do { (_, w5) \<leftarrow> pth_attr_destroy (e_sizeof_attr E) a w4; Some (Some (InitReturns False), w5, k3) }
                             else init_main E scheduler self d a (upd_thread t (\<lambda>x. x\<lparr>lastrannative := tid (natives w4 d)\<rparr>) w4, k3) } } }"

text \<open>The native of the caller, the allocator, the time and the table of natives.\<close>

definition init_base :: "('w, 'k) initenv \<Rightarrow> 'k \<Rightarrow> ('a iworld_scheme) \<Rightarrow> (bool \<times> ('a iworld_scheme)) option" where
  "init_base E k w =
     do { (ok, w1) \<leftarrow> pth_initialize_minimal E k w;
          if \<not> ok then Some (False, w1)
          else do { let w2 = w1\<lparr>pth_initialized := True\<rparr>;
                    m3 \<leftarrow> (if \<not> pth_fork_initialized w2 then map_option cal_init (cal_initialize (mem w2)) else Some (mem w2));
                    let w3 = w2\<lparr>mem := m3, pth_loadtickgap := snd (pth_time_init (e_freq E) (e_tod E k) (e_now E k)),
                                pth_initializing := True, pth_shutdown_inprogress := False\<rparr>;
                    Some (True, zero_natives w3) } }"

text \<open>After the threads have been made: the first switch, the watchdog and the shared area.\<close>

definition init_finish :: "('a iworld_scheme, 'k) initenv \<Rightarrow> int \<Rightarrow> nat \<Rightarrow> ('a, 'k) istate \<Rightarrow> (init_end \<times> ('a, 'k) istate) option" where
  "init_finish E errno d s =
     do { let w1 = init_limits E errno (fst s);
          let w2 = upd_native d (\<lambda>x. x\<lparr>current := sched x\<rparr>) w1;
          let s3 = e_switch E (w2, snd s);
          s4 \<leftarrow> (if pth_max_native_threads (fst s3) > 1 then map_option snd (pth_new_watchdog (nenv.truncate E) s3) else Some s3);
          let (ok, w5) = pth_initialize_shared E (fst s4);
          if \<not> ok then Some (InitAborts, w5, snd s4)
          else Some (InitReturns True, (forget_atfork w5)\<lparr>pth_initializing := False\<rparr>, snd s4) }"

definition pth_init :: "('a iworld_scheme, 'k) initenv \<Rightarrow> nat \<Rightarrow> (('a, 'k) istate \<Rightarrow> nat) \<Rightarrow> ('a, 'k) istate \<Rightarrow> (init_end \<times> ('a, 'k) istate) option" where
  "pth_init E scheduler self s =
     (let (w, k) = s in
      if pth_initialized w \<or> pth_shutdown_inprogress w then Some (InitReturns False, s)
      else do { (ok, w1) \<leftarrow> init_base E k w;
                if \<not> ok then Some (InitAborts, w1, k)
                else do { w2 \<leftarrow> pth_scheduler_init (schedenv.truncate E) k (self (w1, k)) w1;
                          let d = self (w2, k);
                          if d = 0 then Some (InitAborts, w2, k)
                          else do { let (ssz, errno) = init_stacksize E;
                                    (r, s3) \<leftarrow> init_threads E scheduler self d (w2\<lparr>pth_default_stacksize := ssz\<rparr>, k);
                                    case r of Some e \<Rightarrow> Some (e, s3) | None \<Rightarrow> init_finish E errno d s3 } } })"

subsection \<open>The end of the library\<close>

text \<open>The caller is moved to the first native, on which it ends.\<close>

partial_function (option) to_first_loop :: "('a nworld_scheme, 'k) nenv \<Rightarrow> (('a, 'k) nstate \<Rightarrow> nat) \<Rightarrow> nat \<Rightarrow> ('a, 'k) nstate \<Rightarrow> ('a, 'k) nstate option" where
  [code]: "to_first_loop E self cur s =
     (if tid (natives (fst s) pth_first_native) = tid (natives (fst s) (self s)) then Some s
      else do { s1 \<leftarrow> pth_yield (threnv.truncate E) self 0 (upd_thread cur (\<lambda>x. x\<lparr>tstate := PTH_STATE_WAITING\<rparr>) (fst s), snd s);
                to_first_loop E self cur s1 })"

datatype kill_end = KillReturns | KillExits | KillAborts

definition kill_rest :: "('a nworld_scheme, 'k) nenv \<Rightarrow> nat \<Rightarrow> (('a, 'k) nstate \<Rightarrow> nat) \<Rightarrow> nat \<Rightarrow> ('a, 'k) nstate \<Rightarrow> (kill_end \<times> ('a, 'k) nstate) option" where
  "kill_rest E scheduler self cur s =
     do { s1 \<leftarrow> pth_drop_natives E scheduler self s;
          w2 \<leftarrow> pth_scheduler_drop (threnv.truncate E) scheduler (self s1) (fst s1);
          w3 \<leftarrow> pth_tcb_free (threnv.truncate E) scheduler (self (w2, snd s1)) cur w2;
          let w4 = upd_native pth_first_native (\<lambda>x. x\<lparr>is_used := False\<rparr>)
                     (w3\<lparr>pth_initialized := False, pth_shutdown_inprogress := True, pth_number_of_natives := 0\<rparr>);
          Some (if pth_exit_count w4 > 1 then KillExits else KillReturns, w4, snd s1) }"

definition pth_kill :: "('a nworld_scheme, 'k) nenv \<Rightarrow> nat \<Rightarrow> (('a, 'k) nstate \<Rightarrow> nat) \<Rightarrow> ('a, 'k) nstate \<Rightarrow> (kill_end \<times> ('a, 'k) nstate) option" where
  "pth_kill E scheduler self s =
     (let (w, k) = s in
      if \<not> pth_initialized w then Some (KillReturns, s)
      else do { let d = self s;
                let lk = tid (natives w d);
                l1 \<leftarrow> pth_acquire_lock lk (pth_exit_lock w);
                let w1 = w\<lparr>pth_exit_lock := snd (pth_release_lock lk l1), pth_exit_count := pth_exit_count w + 1\<rparr>;
                let cur = current (natives w1 d);
                if pth_exit_count w > 0 then Some (KillReturns, w1, k)
                else if cur = 0 then Some (KillAborts, w1, k)
                else do { let w2 = upd_native pth_first_native (\<lambda>x. x\<lparr>bounded_thread := cur\<rparr>)
                                     (upd_thread cur (\<lambda>x. x\<lparr>boundnative := pth_first_native\<rparr>) w1);
                          s3 \<leftarrow> to_first_loop E self cur (w2, k);
                          kill_rest E scheduler self cur s3 } })"

end
