(* ===== verification/Fork.thy ===== *)
theory Fork
  imports Init
begin

text \<open>
  Handlers for \<open>fork\<close>, and \<open>pth_fork\<close> (pth_fork.c).  In the child there is one thread, the caller:
  the control blocks and natives of the others are freed, all queues are initialised again and a new
  scheduler is made.  \<open>e_fork\<close> is the system call, and \<open>e_atfork\<close> the call of a handler.
\<close>

definition PTH_ATFORK_MAX :: int where "PTH_ATFORK_MAX = 128"

definition pth_atfork_push :: "nat \<Rightarrow> nat \<Rightarrow> nat \<Rightarrow> nat \<Rightarrow> ('a iworld_scheme) \<Rightarrow> bool \<times> ('a iworld_scheme)" where
  "pth_atfork_push prep par chld ar w =
     (if pth_atfork_idx w > PTH_ATFORK_MAX - 1 then (False, w)
      else (True, w\<lparr>pth_atfork_list := (pth_atfork_list w)[nat (pth_atfork_idx w) := \<lparr>af_prepare = prep, af_parent = par, af_child = chld, af_arg = ar\<rparr>],
                    pth_atfork_idx := pth_atfork_idx w + 1\<rparr>))"

definition pth_atfork_pop :: "('a iworld_scheme) \<Rightarrow> bool \<times> ('a iworld_scheme)" where
  "pth_atfork_pop w = (if pth_atfork_idx w \<le> 0 then (False, w) else (True, w\<lparr>pth_atfork_idx := pth_atfork_idx w - 1\<rparr>))"

text \<open>Handler \<open>i\<close> of one kind; \<open>None\<close> outside the table.\<close>

definition call_atfork :: "('a iworld_scheme, 'k) initenv \<Rightarrow> (pth_atfork_st \<Rightarrow> nat) \<Rightarrow> nat \<Rightarrow> ('a, 'k) istate \<Rightarrow> ('a, 'k) istate option" where
  "call_atfork E sel i s =
     (if i < length (pth_atfork_list (fst s))
      then let x = pth_atfork_list (fst s) ! i in Some (if sel x \<noteq> 0 then e_atfork E (sel x) (af_arg x) s else s)
      else None)"

fun prepare_loop :: "('a iworld_scheme, 'k) initenv \<Rightarrow> nat \<Rightarrow> ('a, 'k) istate \<Rightarrow> ('a, 'k) istate option" where
  "prepare_loop E 0 s = Some s"
| "prepare_loop E (Suc i) s = do { s1 \<leftarrow> call_atfork E af_prepare i s; prepare_loop E i s1 }"

partial_function (option) atfork_loop :: "('a iworld_scheme, 'k) initenv \<Rightarrow> (pth_atfork_st \<Rightarrow> nat) \<Rightarrow> nat \<Rightarrow> ('a, 'k) istate \<Rightarrow> ('a, 'k) istate option" where
  [code]: "atfork_loop E sel i s =
     (if int i \<le> pth_atfork_idx (fst s) - 1
      then do { s1 \<leftarrow> call_atfork E sel i s; atfork_loop E sel (Suc i) s1 }
      else Some s)"

subsection \<open>What the child throws away\<close>

definition pth_fork_key_destroydata :: "nat \<Rightarrow> ('a tworld_scheme) \<Rightarrow> ('a tworld_scheme)" where
  "pth_fork_key_destroydata t w = w\<lparr>keys := (keys w)\<lparr>data_value := (data_value (keys w))(t := None)\<rparr>\<rparr>"

definition pth_fork_event_key_destroy :: "nat \<Rightarrow> ('a world_scheme) \<Rightarrow> ('a world_scheme)" where
  "pth_fork_event_key_destroy t w = upd_thread t (\<lambda>x. x\<lparr>event_data := None\<rparr>) w"

definition pth_fork_tcb_free :: "('w, 'k) initenv \<Rightarrow> nat \<Rightarrow> ('a tworld_scheme) \<Rightarrow> ('a tworld_scheme) option" where
  "pth_fork_tcb_free E t w =
     (if t = 0 then Some w
      else do { let x = threads w t;
                m1 \<leftarrow> (if true_stack x \<noteq> 0 \<and> \<not> stackloan x then pth_free_mem (true_stack x) (stacksize x + 8) (mem w) else Some (mem w));
                let w1 = w\<lparr>mem := m1\<rparr>;
                let w2 = (if data_value (keys w1) t \<noteq> None then pth_fork_key_destroydata t w1 else w1);
                let w3 = (if event_data (threads w2 t) \<noteq> None then pth_fork_event_key_destroy t w2 else w2);
                m4 \<leftarrow> pth_free_mem (if ptrfixed x then t - 8 else t) (e_sizeof_tcb E + 8) (mem w3);
                Some (w3\<lparr>mem := m4\<rparr>) })"

partial_function (option) fork_thread_loop :: "('w, 'k) initenv \<Rightarrow> nat \<Rightarrow> tqptr \<Rightarrow> ('a tworld_scheme) \<Rightarrow> ('a tworld_scheme) option" where
  [code]: "fork_thread_loop E cur l w =
     (if list_node_is_tail l TqHead (thread_queue w) then Some w
      else case l of
        TqHead \<Rightarrow> None
      | TqNode t \<Rightarrow>
          do { let l1 = list_next l (thread_queue w);
               w1 \<leftarrow> (if t \<noteq> cur then pth_fork_tcb_free E t w else Some w);
               fork_thread_loop E cur l1 w1 })"

fun init_queues_loop :: "nat list \<Rightarrow> ('a world_scheme) \<Rightarrow> ('a world_scheme) option" where
  "init_queues_loop [] w = None"
| "init_queues_loop (d # ds) w =
     (if \<not> is_used (natives w d) then Some w
      else init_queues_loop ds (w\<lparr>qw := fold pqueue_init (native_queues d) (qw w)\<rparr>))"

definition pth_fork_drop_threads :: "('w, 'k) initenv \<Rightarrow> nat \<Rightarrow> ('a tworld_scheme) \<Rightarrow> ('a tworld_scheme) option" where
  "pth_fork_drop_threads E cur w =
     do { w1 \<leftarrow> fork_thread_loop E cur (list_next TqHead (thread_queue w)) w;
          init_queues_loop all_natives (w1\<lparr>qw := fold pqueue_init [pth_NQ, pth_RQ, pth_WQ, pth_DQ, pth_SQ] (qw w1)\<rparr>) }"

text \<open>One native of the parent; the one that called has the thread id \<open>me\<close>.\<close>

definition fork_drop_native :: "('w, 'k) initenv \<Rightarrow> nat \<Rightarrow> nat \<Rightarrow> ('a tworld_scheme) \<Rightarrow> ('a tworld_scheme) option" where
  "fork_drop_native E me d w =
     (let x = natives w d in
      if is_used x \<and> me \<noteq> tid x
      then do { w1 \<leftarrow> pth_fork_tcb_free E (sched x) w;
                m2 \<leftarrow> (if d \<noteq> pth_first_native then pth_free_mem (d_true_stack (natives w1 d)) (d_stacksize (natives w1 d)) (mem w1) else Some (mem w1));
                Some (upd_native d (\<lambda>y. y\<lparr>is_used := False\<rparr>) (w1\<lparr>mem := m2\<rparr>)) }
      else Some w)"

fun fork_native_loop :: "('w, 'k) initenv \<Rightarrow> nat \<Rightarrow> nat list \<Rightarrow> ('a tworld_scheme) \<Rightarrow> ('a tworld_scheme) option" where
  "fork_native_loop E me [] w = None"
| "fork_native_loop E me (d # ds) w =
     do { w1 \<leftarrow> fork_drop_native E me d w;
          case ds of
            [] \<Rightarrow> None
          | e # es \<Rightarrow> if is_used (natives w1 e) then fork_native_loop E me ds w1 else Some w1 }"

definition pth_fork_drop_natives :: "('w, 'k) initenv \<Rightarrow> 'k \<Rightarrow> ('a nworld_scheme) \<Rightarrow> ('a nworld_scheme) option" where
  "pth_fork_drop_natives E k w =
     do { let w1 = w\<lparr>pth_watchdog_enabled := False\<rparr>;
          let x = natives w1 pth_watchdog_descr;
          w2 \<leftarrow> (if is_used x
                 then do { m2 \<leftarrow> pth_free_mem (d_true_stack x) (d_stacksize x) (mem w1);
                           Some (upd_native pth_watchdog_descr (\<lambda>y. y\<lparr>is_used := False\<rparr>) (w1\<lparr>mem := m2\<rparr>)) }
                 else Some w1);
          fork_native_loop E (e_gettid E k) all_natives w2 }"

subsection \<open>Starting again in the child\<close>

definition fork_attrs :: "u32 \<Rightarrow> (attr_op \<times> attr_val) list" where
  "fork_attrs ssz =
     [(PTH_ATTR_PRIO, attr_val.AInt (fst (xprio_get_max SCHED_FIFO 0))), (PTH_ATTR_SCHEDPOLICY, attr_val.AInt SCHED_FIFO),
      (PTH_ATTR_NAME, attr_val.AStr ''**SCHEDULER**''), (PTH_ATTR_JOINABLE, attr_val.AInt 0), (PTH_ATTR_CANCEL_STATE, AUint PTH_CANCEL_DISABLE),
      (PTH_ATTR_STACK_SIZE, AUint ssz), (PTH_ATTR_STACK_ADDR, attr_val.APtr 0)]"

text \<open>The result is \<open>False\<close> if the process is aborted.\<close>

definition pth_fork_init :: "('a iworld_scheme, 'k) initenv \<Rightarrow> nat \<Rightarrow> (('a, 'k) istate \<Rightarrow> nat) \<Rightarrow> ('a, 'k) istate \<Rightarrow> (bool \<times> ('a, 'k) istate) option" where
  "pth_fork_init E scheduler self s =
     do { let d = self s;
          let w1 = zero_natives (fst s);
          w2 \<leftarrow> pth_scheduler_init (schedenv.truncate E) (snd s) (self (w1, snd s)) w1;
          (a, w3) \<leftarrow> pth_attr_new (e_mmap E) (e_sizeof_attr E) w2;
          if a = 0 then Some (False, w3, snd s)
          else do { w4 \<leftarrow> set_attrs a (fork_attrs (word_of_int (pth_default_stacksize w3 * 1024))) w3;
                    (r, w5, k5) \<leftarrow> pth_spawn (nenv.truncate E) scheduler self a scheduler 0 (w4, snd s);
                    let t = (case r of Spawned t \<Rightarrow> t | SpawnAborts \<Rightarrow> 0);
                    let w6 = upd_native d (\<lambda>x. x\<lparr>sched := t\<rparr>) w5;
                    let w7 = (if t = 0 then w6 else upd_thread t (\<lambda>x. x\<lparr>lastrannative := tid (natives w6 d)\<rparr>) w6);
                    (_, w8) \<leftarrow> pth_attr_destroy (e_sizeof_attr E) a w7;
                    if t = 0 then Some (False, w8, k5)
                    else Some (True, forget_atfork (upd_native d (\<lambda>x. x\<lparr>current := t\<rparr>) w8), k5) } }"

text \<open>The child until its library is started again: handlers, locks, threads and natives.\<close>

definition child_reset :: "('a iworld_scheme, 'k) initenv \<Rightarrow> (('a, 'k) istate \<Rightarrow> nat) \<Rightarrow> nat \<Rightarrow> nat \<Rightarrow> ('a, 'k) istate \<Rightarrow> ('a, 'k) istate option" where
  "child_reset E self d cur s =
     do { let (w, k) = s;
          let w1 = (upd_native d (\<lambda>x. x\<lparr>pid := e_getpid E, tid := e_gettid E k, current := cur\<rparr>) w)
                     \<lparr>pth_fork_thread := cur, pth_fork_initialized := True, keys := (keys w)\<lparr>key_lock := pth_qlock_init (key_lock (keys w))\<rparr>,
                      pth_usr1_lock := pth_qlock_init (pth_usr1_lock w), pth_native_lock := pth_qlock_init (pth_native_lock w),
                      pth_init_lock := pth_qlock_init (pth_init_lock w), mem := cal_fork_init (mem w)\<rparr>;
          w2 \<leftarrow> pth_fork_drop_threads E cur w1;
          s3 \<leftarrow> atfork_loop E af_child 0 (w2, k);
          let w4 = fold (\<lambda>m v. snd (pth_mutex_init (current (natives v (self (v, snd s3)))) m None v)) (e_stdlocks E) (fst s3);
          w5 \<leftarrow> pth_fork_drop_natives E (snd s3) w4;
          let w6 = upd_thread cur (\<lambda>x. x\<lparr>sigactionmask := 0\<rparr>) w5;
          let w7 = (if sigpendcnt (threads w6 cur) > 0 then upd_thread cur (\<lambda>x. x\<lparr>sigpendcnt := 0, t_sigpending := 0\<rparr>) w6 else w6);
          Some (w7, snd s3) }"

text \<open>The caller enters the new queue of the first native, and the scheduler is started.\<close>

definition child_enter :: "('a iworld_scheme, 'k) initenv \<Rightarrow> nat \<Rightarrow> ('a, 'k) istate \<Rightarrow> ('a, 'k) istate option" where
  "child_enter E cur s =
     do { let w1 = upd_thread cur (\<lambda>x. x\<lparr>mctx_sigs := 0\<rparr>) (fst s);
          w2 \<leftarrow> spawn_register (tid (natives w1 pth_first_native)) cur w1;
          let w3 = upd_thread cur (\<lambda>x. x\<lparr>tstate := PTH_STATE_NEW\<rparr>) w2;
          w4 \<leftarrow> upd_qw (pqueue_append_node (new_queue pth_first_native) cur) w3;
          let w5 = (if pth_max_native_threads w4 > 1 then upd_thread cur (\<lambda>x. x\<lparr>boundnative := pth_first_native\<rparr>) w4 else w4);
          let s6 = e_switch E (w5, snd s);
          Some ((fst s6)\<lparr>pth_main := cur, pth_fork_initialized := False\<rparr>, snd s6) }"

partial_function (option) fork_first_loop :: "('a nworld_scheme, 'k) nenv \<Rightarrow> (('a, 'k) nstate \<Rightarrow> nat) \<Rightarrow> nat \<Rightarrow> ('a, 'k) nstate \<Rightarrow> ('a, 'k) nstate option" where
  [code]: "fork_first_loop E self cur s =
     (if tid (natives (fst s) pth_first_native) = tid (natives (fst s) (self s)) then Some s
      else do { s1 \<leftarrow> pth_yield (threnv.truncate E) self 0 (upd_thread cur (\<lambda>x. x\<lparr>boundnative := pth_first_native\<rparr>) (fst s), snd s);
                fork_first_loop E self cur s1 })"

definition fork_child :: "('a iworld_scheme, 'k) initenv \<Rightarrow> nat \<Rightarrow> (('a, 'k) istate \<Rightarrow> nat) \<Rightarrow> nat \<Rightarrow> nat \<Rightarrow> ('a, 'k) istate
    \<Rightarrow> (int option \<times> ('a, 'k) istate) option" where
  "fork_child E scheduler self d cur s =
     do { s1 \<leftarrow> child_reset E self d cur s;
          (ok, w2) \<leftarrow> pth_initialize_minimal E (snd s1) ((fst s1)\<lparr>pth_initialized_minimal := False\<rparr>);
          if \<not> ok then Some (None, w2, snd s1)
          else do { (ok3, s3) \<leftarrow> pth_fork_init E scheduler self (w2, snd s1);
                    if \<not> ok3 then Some (None, s3)
                    else do { s4 \<leftarrow> child_enter E cur s3; Some (Some 0, s4) } } }"

text \<open>The result is \<open>None\<close> if the process is aborted.\<close>

definition pth_fork :: "('a iworld_scheme, 'k) initenv \<Rightarrow> nat \<Rightarrow> (('a, 'k) istate \<Rightarrow> nat) \<Rightarrow> ('a, 'k) istate \<Rightarrow> (int option \<times> ('a, 'k) istate) option" where
  "pth_fork E scheduler self s =
     (if self s = 0 then Some (Some (-1), s)
      else do { let cur = current (natives (fst s) (self s));
                s1 \<leftarrow> (if \<not> is_bounded (natives (fst s) (self s)) then fork_first_loop (nenv.truncate E) self cur s else Some s);
                let d = (if \<not> is_bounded (natives (fst s) (self s)) then self s1 else self s);
                s2 \<leftarrow> prepare_loop E (nat (pth_atfork_idx (fst s1))) s1;
                let (p, k3) = e_fork E (snd s2);
                let s3 = (fst s2, k3);
                if p = -1 then Some (Some p, s3)
                else if p \<noteq> 0 then do { s4 \<leftarrow> atfork_loop E af_parent 0 s3; Some (Some p, s4) }
                else fork_child E scheduler self d cur s3 })"

end
