(* ===== verification/SpawnProps.thy ===== *)
theory SpawnProps
  imports Fork
begin

text \<open>
  Properties of the creation of threads and natives, and of \<open>fork\<close>.
\<close>

subsection \<open>Creating a thread\<close>

text \<open>A control block that has just been made is in no queue and has the effective priority 0.\<close>

definition fresh_node :: "nat \<Rightarrow> qworld \<Rightarrow> qworld" where
  "fresh_node t c = node_init t (upd_node t (\<lambda>_. \<lparr>bp = NoQ, priority = 0, node_lt = node_lt_nowhere\<rparr>) c)"


lemma fresh_node_sel [simp]: "priority (nodes (fresh_node t c) t) = 0" "node_lt (nodes (fresh_node t c) t) = node_lt_nowhere"
  by (simp_all add: fresh_node_def node_init_def upd_node_def upd_lnodes_def)

text \<open>What making the control block \<open>t\<close> leaves alone.\<close>

definition same_around :: "nat \<Rightarrow> ('a nworld_scheme) \<Rightarrow> ('a nworld_scheme) \<Rightarrow> bool" where
  "same_around t w w' \<longleftrightarrow> natives w' = natives w \<and> attrs w' = attrs w \<and> pth_threads_count w' = pth_threads_count w
     \<and> pth_native_lock w' = pth_native_lock w \<and> pth_max_native_threads w' = pth_max_native_threads w
     \<and> pth_threads_per_native w' = pth_threads_per_native w \<and> pth_number_of_natives w' = pth_number_of_natives w
     \<and> (\<forall>u. u \<noteq> t \<longrightarrow> threads w' u = threads w u)"

lemma same_around_refl: "same_around t w w"
  by (simp add: same_around_def)












text \<open>An environment and a state for examples: two natives, the most that are allowed.\<close>

definition nenv0 :: "('w, unit) nenv" where
  "nenv0 = \<lparr>e_wait = \<lambda>w k. (False, 1, w, k), e_select = \<lambda>w k. (w, k), e_futex = \<lambda>op v s. (-38, s), e_kill = \<lambda>_ _. False,
     e_now = \<lambda>_. 0, e_select_t = \<lambda>_ (w, k). (0, w, k), e_mem = \<lambda>_ _. 0, e_yield = id, e_cpoint = id,
     e_mmap = \<lambda>_ _. Some 65536, e_sizeof_tcb = 1000, e_sp = \<lambda>_. 0, e_destr = \<lambda>_ _. id, e_handler = \<lambda>_ _. id, e_switch = id,
     e_run = \<lambda>t s. s, e_nsig = 64, e_sigpend = \<lambda>_. 0, e_sigdelete = \<lambda>_. id, e_segv = Some True, e_evfunc = \<lambda>_ _. False,
     e_poll = \<lambda>_ _ _ (r, x, e) _ s. ((0, r, x, e), s), e_pipe = id, e_clone = \<lambda>d (w, k). (7, w, k), e_nanosleep = id, e_gettid = \<lambda>_. 100,
     e_getpid = 100, e_pagesize = 4096, e_sizeof_attr = 64, e_sigpipe = \<lambda>_. True, e_mctx_set = \<lambda>_ _. True, e_sigmask = \<lambda>_. 0, e_time = \<lambda>_. 0\<rparr>"

definition nw0 :: nworld where
  "nw0 = aworld.extend aw0 (nworld.fields False free_lock True True False False 0 False)"

lemma nw0_sel [simp]: "attrs nw0 = (\<lambda>_. zero_attr)" "threads nw0 = (\<lambda>_. a_thread)" "qw nw0 = idle_queues"
  "natives nw0 = (\<lambda>d. (a_native d)\<lparr>is_used := d \<le> 2\<rparr>)" "pth_native_lock nw0 = free_lock" "pth_max_native_threads nw0 = 2"
  "pth_number_of_natives nw0 = 2" "pth_threads_count nw0 = 6" "sigpipe nw0 = []" "pth_watchdog_enabled nw0 = False"
  "thread_queue nw0 = (\<lambda>p. \<lparr>lnext = p, lprev = p\<rparr>)"
  by (simp_all add: nw0_def aworld.extend_def nworld.fields_def aw0_def scworld.extend_def aworld.fields_def sc0_def tworld.extend_def scworld.fields_def
      tw0_def sworld.extend_def eworld.extend_def tworld.fields_def sworld.fields_def sw0_def ew0_def mw0_def mworld.extend_def eworld.fields_def)


subsection \<open>Natives\<close>

lemma native_stack_count:
  assumes "native_stack E wd d w = Some (d', w')"
  shows "d' = 0 \<and> pth_number_of_natives w' = (if wd then pth_number_of_natives w else pth_number_of_natives w - 1)
     \<or> d' = d \<and> pth_number_of_natives w' = pth_number_of_natives w"
  using assms by (auto simp: native_stack_def upd_native_def Let_def split: bind_splits if_splits)

lemma alloc_native_count:
  assumes "pth_alloc_native E cs False w = Some (d, w')" "pth_number_of_natives w < PTH_MAX_NATIVE_THREADS - 1"
  shows "d = 0 \<and> pth_number_of_natives w' = pth_number_of_natives w
     \<or> d = Suc (pth_number_of_natives w) \<and> pth_number_of_natives w' = Suc (pth_number_of_natives w) \<and> d < PTH_MAX_NATIVE_THREADS - 1"
proof (cases "Suc (pth_number_of_natives w) \<ge> PTH_MAX_NATIVE_THREADS - 1")
  case True
  then show ?thesis using assms by (simp add: pth_alloc_native_def Let_def)
next
  case False
  let ?n = "Suc (pth_number_of_natives w)"
  define v where "v = (upd_native ?n (\<lambda>_. zero_native\<lparr>sched_index := pth_number_of_natives w, sched_lock := pth_qlock_init zero_lock\<rparr>)
      (w\<lparr>pth_number_of_natives := ?n\<rparr>))\<lparr>qw := fold pqueue_init (native_queues ?n) (fold zero_pqueue (native_queues ?n) (qw w))\<rparr>"
  have v: "pth_number_of_natives v = ?n" by (simp add: v_def)
  have "pth_alloc_native E cs False w = (if \<not> cs then Some (?n, v) else native_stack E False ?n v)"
    using False by (simp add: pth_alloc_native_def Let_def v_def)
  then have "d = ?n \<and> w' = v \<or> native_stack E False ?n v = Some (d, w')" using assms(1) by (auto split: if_splits)
  then show ?thesis using native_stack_count [of E False ?n v d w'] v False by auto
qed

lemma reuse_in_table: "reuse_loop ds w = Some d \<Longrightarrow> d \<noteq> 0 \<Longrightarrow> d \<in> set ds"
  by (induction ds w rule: reuse_loop.induct) (auto split: if_splits)

lemma get_native_count:
  fixes w :: "'a nworld_scheme"
  assumes "get_native E lk scp t w = Some (d, go, w')" "pth_number_of_natives w < PTH_MAX_NATIVE_THREADS - 1"
  shows "d \<le> PTH_MAX_NATIVE_THREADS \<and> (go \<longrightarrow> d \<noteq> 0) \<and> pth_number_of_natives w' < PTH_MAX_NATIVE_THREADS - 1
     \<and> pth_number_of_natives w' = pth_number_of_natives w + (if go then 1 else 0)"
proof -
  obtain l where l: "lock_native lk w = Some (w\<lparr>pth_native_lock := l\<rparr>)"
    using assms(1) by (cases "pth_acquire_lock lk (pth_native_lock w)") (auto simp: get_native_def lock_native_def)
  let ?w1 = "w\<lparr>pth_native_lock := l\<rparr>"
  have r: "d \<le> PTH_MAX_NATIVE_THREADS" if "reuse_loop native_slots ?w1 = Some d" "d \<noteq> 0" for d
    using reuse_in_table [OF that] by (auto simp: native_slots_def)
  have a: "\<And>d w2. pth_alloc_native E True False ?w1 = Some (d, w2) \<Longrightarrow> d = 0 \<and> pth_number_of_natives w2 = pth_number_of_natives w
     \<or> d = Suc (pth_number_of_natives w) \<and> pth_number_of_natives w2 = Suc (pth_number_of_natives w) \<and> d < PTH_MAX_NATIVE_THREADS - 1"
    using alloc_native_count [of E True ?w1] assms(2) by simp
  show ?thesis
    using assms unfolding get_native_def l
    by (auto simp: unlock_native_def upd_native_def Let_def split: if_splits bind_splits dest!: a dest: r)
qed

text \<open>
  C12.  The table of natives is not overrun: if the number of natives is below the limit and the
  new native has not ended when \<open>clone\<close> returns, \<open>pth_new_native\<close> gives NULL or an entry of
  the table, the number of natives stays below the limit, and it is unchanged if the result is NULL.
\<close>

theorem native_table_bound:
  fixes w :: "'a nworld_scheme" and k :: 'k
  assumes "pth_new_native E self scp t (w, k) = Some (d, w', k')" "pth_number_of_natives w < PTH_MAX_NATIVE_THREADS - 1"
    and "\<forall>d s. pth_number_of_natives (fst (snd (e_clone E d s))) = pth_number_of_natives (fst s)"
  shows "d \<le> PTH_MAX_NATIVE_THREADS \<and> pth_number_of_natives w' < PTH_MAX_NATIVE_THREADS - 1
     \<and> (d = 0 \<longrightarrow> pth_number_of_natives w' = pth_number_of_natives w)"
proof -
  obtain e go w1 where g: "get_native E (tid (natives w (self (w, k)))) scp t w = Some (e, go, w1)"
    using assms(1) by (cases "get_native E (tid (natives w (self (w, k)))) scp t w") (auto simp: pth_new_native_def)
  note c = get_native_count [OF g assms(2)]
  show ?thesis
  proof (cases go)
    case False
    then show ?thesis using assms(1) c by (simp add: pth_new_native_def g)
  next
    case True
    define w2 where "w2 = (if scp = PTH_SCOPE_SYSTEM then upd_native e (\<lambda>x. x\<lparr>is_bounded := True\<rparr>) w1 else w1)"
    obtain p w3 k3 where p: "e_clone E e (w2, k) = (p, w3, k3)" by (rule prod_cases3)
    then have "pth_number_of_natives w3 = pth_number_of_natives w1"
      using assms(3) [rule_format, of e "(w2, k)"] by (simp add: w2_def)
    then show ?thesis
      using assms(1) c True unfolding pth_new_native_def
      by (auto simp: g w2_def [symmetric] p upd_native_def Let_def split: if_splits bind_splits)
  qed
qed

lemma native_made: "\<exists>w'. pth_new_native nenv0 (\<lambda>_. 1) PTH_SCOPE_PROCESS 0 (nw0, ()) = Some (3, w', ())"
proof -
  let ?E = "nenv0 :: (nworld, unit) nenv"
  obtain l where l: "pth_acquire_lock 1 free_lock = Some l" using acquire_free [of free_lock 1] by (auto simp: free_lock_def qfree_def)
  have "\<exists>w'. native_stack ?E False 3 w = Some (3, w')" for w :: nworld
    by (simp add: native_stack_def nenv0_def pth_malloc_def cal_get_def cal_consts mmap_allocate_def Let_def)
  then have "\<exists>w'. pth_alloc_native ?E True False (nw0\<lparr>pth_native_lock := l\<rparr>) = Some (3, w')"
    by (simp add: pth_alloc_native_def Let_def PTH_MAX_NATIVE_THREADS_def)
  then obtain w' where "pth_alloc_native ?E True False (nw0\<lparr>pth_native_lock := l\<rparr>) = Some (3, w')" by blast
  with l have "get_native ?E 1 PTH_SCOPE_PROCESS 0 nw0 = Some (3, True, unlock_native 1 w')"
    by (simp add: get_native_def lock_native_def pth_first_native_def PTH_SCOPE_PROCESS_def PTH_SCOPE_SYSTEM_def a_native_def)
  then show ?thesis by (simp add: pth_new_native_def PTH_SCOPE_PROCESS_def PTH_SCOPE_SYSTEM_def nenv0_def a_native_def)
qed

theorem native_table_bound_witness:
  "\<exists>(w :: nworld) w'. pth_new_native nenv0 (\<lambda>_. 1) PTH_SCOPE_PROCESS 0 (w, ()) = Some (3, w', ()) \<and> pth_number_of_natives w' < PTH_MAX_NATIVE_THREADS - 1"
proof -
  obtain w' where "pth_new_native nenv0 (\<lambda>_. 1) PTH_SCOPE_PROCESS 0 (nw0, ()) = Some (3, w', ())"
    using native_made by blast
  with native_table_bound [OF this] show ?thesis
    by (auto simp: PTH_MAX_NATIVE_THREADS_def nenv0_def split: prod.splits)
qed

text \<open>
  Entry \<open>n\<close> is the first one behind that of the first native that is not in use; idle natives
  wait in \<open>select\<close>.
\<close>

definition used_below :: "nat \<Rightarrow> ('a world_scheme) \<Rightarrow> bool" where
  "used_below n w \<longleftrightarrow> 2 \<le> n \<and> n \<le> PTH_MAX_NATIVE_THREADS \<and> (\<forall>d. 2 \<le> d \<and> d < n \<longrightarrow> is_used (natives w d)) \<and> \<not> is_used (natives w n)"

definition idle_native :: "('a world_scheme) \<Rightarrow> nat \<Rightarrow> bool" where
  "idle_native w d \<longleftrightarrow> \<not> is_bounded (natives w d) \<and> \<not> is_bound (natives w d)"

lemma wake_idle_loop:
  assumes "\<forall>d. m \<le> d \<and> d < n \<longrightarrow> is_used (natives w d)" "\<not> is_used (natives w n)" "m \<le> n" "n < b"
  shows "wake_idle [m..<b] w = Some (w\<lparr>sigpipe := sigpipe w @ filter (idle_native w) [m..<n]\<rparr>)"
  using assms
proof (induction "n - m" arbitrary: m w)
  case 0
  then have "m = n" by simp
  with 0 show ?case by (simp add: upt_conv_Cons)
next
  case (Suc j)
  let ?v = "if \<not> is_bounded (natives w m) \<and> \<not> is_bound (natives w m) then write_sigpipe m w else w"
  have v: "natives ?v = natives w" "sigpipe ?v = sigpipe w @ (if idle_native w m then [m] else [])" "idle_native ?v = idle_native w"
    by (auto simp: idle_native_def fun_eq_iff)
  have "wake_idle [Suc m..<b] ?v = Some (?v\<lparr>sigpipe := sigpipe ?v @ filter (idle_native ?v) [Suc m..<n]\<rparr>)"
    by (rule Suc.hyps(1)) (use Suc.hyps(2) Suc.prems v(1) in auto)
  moreover have "?v\<lparr>sigpipe := x\<rparr> = w\<lparr>sigpipe := x\<rparr>" for x by (simp add: write_sigpipe_def)
  moreover have "m < n" using Suc.hyps(2) by simp
  ultimately show ?case using Suc.prems v by (simp add: upt_conv_Cons)
qed

text \<open>
  C14.  When there is a thread in the new or the ready queue of the process, the watchdog writes one
  byte to the pipe of each idle native among the entries of the table from the second one up to
  the first one that is not in use, in their order, and to no other: not to the first native, and
  not to a native behind an entry that is not in use.  Otherwise it does nothing.
\<close>

theorem watchdog_wakes_idle:
  assumes "used_below n w"
  shows "watchdog_turn w = Some (w\<lparr>sigpipe := sigpipe w
     @ (if pqueue_total_nolock pth_RQ (qw w) + pqueue_total pth_NQ (qw w) = 0 then [] else filter (idle_native w) [2..<n])\<rparr>)"
  using assms wake_idle_loop [of 2 n w "Suc PTH_MAX_NATIVE_THREADS"]
  by (simp add: watchdog_turn_def used_below_def native_slots_def word_gt_0)

theorem watchdog_wakes_idle_witness:
  "\<exists>w :: nworld. used_below 3 w \<and> idle_native w 2 \<and> watchdog_turn w = Some (w\<lparr>sigpipe := [2]\<rparr>)"
proof -
  obtain c where c: "qs_ok c UNIV ((\<lambda>_ _. [])(pth_RQ := (\<lambda>_. [])(15 mod 10 := [15])))" using one_queued [of pth_RQ UNIV 15] by blast
  then have "qs_held {} c UNIV ((\<lambda>_ _. [])(pth_RQ := (\<lambda>_. [])(5 := [15])))" by (simp add: qs_held_none)
  from held_total [OF this, of pth_RQ] held_total [OF this, of pth_NQ] have "unat (pqueue_total pth_RQ c) = 1" "unat (pqueue_total pth_NQ c) = 0"
    by (simp_all add: pq_order_one pq_order_Nil queue_numbers)
  then have t: "pqueue_total_nolock pth_RQ c + pqueue_total pth_NQ c \<noteq> 0"
    by (metis add.right_neutral pqueue_total_def unat_0 unat_eq_zero zero_neq_one)
  let ?w = "nw0\<lparr>qw := c, natives := (\<lambda>d. (a_native d)\<lparr>is_used := d \<le> 2, is_bound := False\<rparr>)\<rparr>"
  have "used_below 3 ?w" by (auto simp: used_below_def PTH_MAX_NATIVE_THREADS_def)
  moreover have "idle_native ?w 2" by (simp add: idle_native_def a_native_def)
  ultimately show ?thesis using watchdog_wakes_idle [of 3 ?w] t by - (rule exI [of _ ?w], simp add: upt_rec [of 2])
qed

end
