(* ===== verification/ForkProps.thy ===== *)
theory ForkProps
  imports SpawnProps
begin

text \<open>
  Properties of \<open>pth_fork\<close> and of the start of the library.
\<close>

subsection \<open>Handlers\<close>

definition atfork_call :: "('a iworld_scheme, 'k) initenv \<Rightarrow> (pth_atfork_st \<Rightarrow> nat) \<Rightarrow> pth_atfork_st \<Rightarrow> ('a, 'k) istate \<Rightarrow> ('a, 'k) istate" where
  "atfork_call E sel x s = (if sel x \<noteq> 0 then e_atfork E (sel x) (af_arg x) s else s)"

text \<open>Handlers that do not change the table of handlers.\<close>

definition keeps_table :: "('a iworld_scheme, 'k) initenv \<Rightarrow> bool" where
  "keeps_table E \<longleftrightarrow> (\<forall>h x s. pth_atfork_list (fst (e_atfork E h x s)) = pth_atfork_list (fst s)
     \<and> pth_atfork_idx (fst (e_atfork E h x s)) = pth_atfork_idx (fst s))"

lemma atfork_call_table:
  "keeps_table E \<Longrightarrow> pth_atfork_list (fst (atfork_call E sel x s)) = pth_atfork_list (fst s)"
  "keeps_table E \<Longrightarrow> pth_atfork_idx (fst (atfork_call E sel x s)) = pth_atfork_idx (fst s)"
  by (cases s, simp add: atfork_call_def keeps_table_def)+

lemma atfork_calls_table:
  "keeps_table E \<Longrightarrow> pth_atfork_list (fst (fold (atfork_call E sel) xs s)) = pth_atfork_list (fst s)"
  "keeps_table E \<Longrightarrow> pth_atfork_idx (fst (fold (atfork_call E sel) xs s)) = pth_atfork_idx (fst s)"
  by (induction xs arbitrary: s) (simp_all add: atfork_call_table)

lemma call_atfork_at: "i < length (pth_atfork_list (fst s)) \<Longrightarrow> call_atfork E sel i s = Some (atfork_call E sel (pth_atfork_list (fst s) ! i) s)"
  by (simp add: call_atfork_def atfork_call_def Let_def)

lemma prepare_loop_calls:
  assumes "keeps_table E" "n \<le> length (pth_atfork_list (fst s))"
  shows "prepare_loop E n s = Some (fold (atfork_call E af_prepare) (rev (take n (pth_atfork_list (fst s)))) s)"
  using assms(2)
proof (induction n arbitrary: s)
  case (Suc n)
  then show ?case by (simp add: call_atfork_at atfork_call_table [OF assms(1)] take_Suc_conv_app_nth)
qed simp

lemma atfork_loop_calls:
  assumes "keeps_table E" "pth_atfork_idx (fst s) = int n" "n \<le> length (pth_atfork_list (fst s))" "i \<le> n"
  shows "atfork_loop E sel i s = Some (fold (atfork_call E sel) (drop i (take n (pth_atfork_list (fst s)))) s)"
  using assms(2-4)
proof (induction "n - i" arbitrary: i s)
  case 0
  then show ?case by (simp add: atfork_loop.simps)
next
  case (Suc j)
  let ?x = "pth_atfork_list (fst s) ! i"
  have i: "i < n" using Suc.hyps(2) by simp
  have "atfork_loop E sel (Suc i) (atfork_call E sel ?x s)
     = Some (fold (atfork_call E sel) (drop (Suc i) (take n (pth_atfork_list (fst (atfork_call E sel ?x s))))) (atfork_call E sel ?x s))"
    by (rule Suc.hyps(1)) (use Suc.hyps(2) Suc.prems i in \<open>auto simp: atfork_call_table [OF assms(1)]\<close>)
  moreover have "drop i (take n (pth_atfork_list (fst s))) = ?x # drop (Suc i) (take n (pth_atfork_list (fst s)))"
    using i Suc.prems(2) by (simp add: Cons_nth_drop_Suc [symmetric])
  ultimately show ?case
    using i Suc.prems by (subst atfork_loop.simps) (simp add: call_atfork_at atfork_call_table [OF assms(1)])
qed

text \<open>
  C13.  In the parent, \<open>pth_fork\<close> on the first native calls the prepare handlers in the reverse
  order of their registration, then the system call, then the parent handlers in the order of
  registration, and returns the process id of the child.
\<close>

theorem fork_handlers_order:
  fixes w :: "'a iworld_scheme" and k :: 'k
  assumes "keeps_table E" "pth_atfork_idx w = int n" "n \<le> length (pth_atfork_list w)"
    and "self (w, k) = pth_first_native" "\<forall>k. fst (e_fork E k) > 0"
  shows "\<exists>w1 k1 p k2. fold (atfork_call E af_prepare) (rev (take n (pth_atfork_list w))) (w, k) = (w1, k1) \<and> e_fork E k1 = (p, k2)
     \<and> pth_fork E scheduler self (w, k) = Some (Some p, fold (atfork_call E af_parent) (take n (pth_atfork_list w)) (w1, k2))"
proof -
  define hs where "hs = take n (pth_atfork_list w)"
  obtain w1 k1 where p: "fold (atfork_call E af_prepare) (rev hs) (w, k) = (w1, k1)" by fastforce
  then have t: "pth_atfork_list w1 = pth_atfork_list w" "pth_atfork_idx w1 = int n"
    using atfork_calls_table [OF assms(1), of af_prepare "rev hs" "(w, k)"] assms(2) by simp_all
  obtain q k2 where q: "e_fork E k1 = (q, k2)" by fastforce
  with assms(5) have "q > 0" by (metis fst_conv)
  have "fork_first_loop (nenv.truncate E) self c (w, k) = Some (w, k)" for c
    using assms(4) by (subst fork_first_loop.simps) simp
  moreover have "prepare_loop E n (w, k) = Some (w1, k1)"
    using prepare_loop_calls [OF assms(1), of n "(w, k)"] assms(3) p by (simp add: hs_def)
  moreover have "atfork_loop E af_parent 0 (w1, k2) = Some (fold (atfork_call E af_parent) hs (w1, k2))"
    using atfork_loop_calls [OF assms(1), of "(w1, k2)" n 0] assms(3) t by (simp add: hs_def)
  ultimately have "pth_fork E scheduler self (w, k) = Some (Some q, fold (atfork_call E af_parent) hs (w1, k2))"
    using assms(2,4) q \<open>q > 0\<close> by (simp add: pth_fork_def pth_first_native_def Let_def)
  with p q show ?thesis unfolding hs_def by blast
qed

text \<open>Every call of a handler is noted, and the child has the process id 500.\<close>

definition fenv :: "(iworld, nat list) initenv" where
  "fenv = \<lparr>e_wait = \<lambda>w k. (False, 1, w, k), e_select = \<lambda>w k. (w, k), e_futex = \<lambda>op v s. (-38, s), e_kill = \<lambda>_ _. False,
     e_now = \<lambda>_. 0, e_select_t = \<lambda>_ (w, k). (0, w, k), e_mem = \<lambda>_ _. 0, e_yield = id, e_cpoint = id,
     e_mmap = \<lambda>_ _. Some 65536, e_sizeof_tcb = 1000, e_sp = \<lambda>_. 0, e_destr = \<lambda>_ _. id, e_handler = \<lambda>_ _. id, e_switch = id,
     e_run = \<lambda>t s. s, e_nsig = 64, e_sigpend = \<lambda>_. 0, e_sigdelete = \<lambda>_. id, e_segv = Some True, e_evfunc = \<lambda>_ _. False,
     e_poll = \<lambda>_ _ _ (r, x, e) _ s. ((0, r, x, e), s), e_pipe = id, e_clone = \<lambda>d (w, k). (7, w, k), e_nanosleep = id, e_gettid = \<lambda>_. 100,
     e_getpid = 100, e_pagesize = 4096, e_sizeof_attr = 64, e_sigpipe = \<lambda>_. True, e_mctx_set = \<lambda>_ _. True, e_sigmask = \<lambda>_. 0, e_time = \<lambda>_. 0,
     e_has_futex = True, e_getenv = (\<lambda>_. None)(''DEFAULTTHREADSTACKSIZE'' := Some ''99999999999'', ''MAXNATIVETHREADS'' := Some ''4''), e_errno = 0,
     e_ncpu = 1, e_main_sched = (0, 0), e_freq = 1000000, e_tod = \<lambda>_. \<lparr>tv_sec = 0, tv_usec = 0\<rparr>, e_area_open = 5, e_area_read = Some (1, 10),
     e_area_map = True, e_version = 0x202201, e_fork = \<lambda>k. (500, k), e_atfork = \<lambda>h _ (w, k). (w, k @ [h]), e_stdlocks = []\<rparr>"

definition iw0 :: iworld where
  "iw0 = nworld.extend nw0 (iworld.fields 0 [\<lparr>af_prepare = 11, af_parent = 12, af_child = 13, af_arg = 0\<rparr>, \<lparr>af_prepare = 21, af_parent = 22, af_child = 23, af_arg = 0\<rparr>]
     2 free_lock)"

lemma iw0_sel [simp]: "pth_shared_fd iw0 = 0" "pth_atfork_idx iw0 = 2" "threads iw0 = (\<lambda>_. a_thread)" "qw iw0 = idle_queues"
  "natives iw0 = (\<lambda>d. (a_native d)\<lparr>is_used := d \<le> 2\<rparr>)"
  "pth_atfork_list iw0 = [\<lparr>af_prepare = 11, af_parent = 12, af_child = 13, af_arg = 0\<rparr>, \<lparr>af_prepare = 21, af_parent = 22, af_child = 23, af_arg = 0\<rparr>]"
  by (simp_all add: iw0_def nworld.extend_def iworld.fields_def nw0_def aworld.extend_def nworld.fields_def aw0_def scworld.extend_def aworld.fields_def
      sc0_def tworld.extend_def scworld.fields_def tw0_def sworld.extend_def eworld.extend_def tworld.fields_def sworld.fields_def sw0_def ew0_def mw0_def
      mworld.extend_def eworld.fields_def)

theorem fork_handlers_order_witness:
  "\<exists>w' :: iworld. pth_fork fenv 99 (\<lambda>_. 1) (iw0, []) = Some (Some 500, w', [21, 11, 12, 22])"
proof -
  have "keeps_table fenv" by (auto simp: keeps_table_def fenv_def)
  then show ?thesis
    using fork_handlers_order [of fenv iw0 2 "\<lambda>_. 1" "[]" 99]
    by (auto simp: pth_first_native_def atfork_call_def fenv_def)
qed

subsection \<open>The queues of the child\<close>

lemma pqueue_init_sel:
  "pqueues (pqueue_init q c) = (pqueues c)(q := (pqueues c q)\<lparr>pq_total := 0, pq_lock := 0\<rparr>)" "nodes (pqueue_init q c) = nodes c"
  "lnodes (pqueue_init q c) x = (if \<exists>i<140. x = PqHead q i then \<lparr>lnext = x, lprev = x\<rparr> else lnodes c x)"
  by (simp_all add: pqueue_init_def fold_lnode_init fold_lnode_init_at bitmap_init_def upd_pqueue_def upd_lnodes_def const_defs)

text \<open>A queue that was initialised again: empty, but with the bitmap of \<open>c\<close>.\<close>

definition hollow :: "nat \<Rightarrow> qworld \<Rightarrow> qworld \<Rightarrow> bool" where
  "hollow q c c' \<longleftrightarrow> pqueues c' q = (pqueues c q)\<lparr>pq_total := 0, pq_lock := 0\<rparr> \<and> (\<forall>i<140. lnodes c' (PqHead q i) = \<lparr>lnext = PqHead q i, lprev = PqHead q i\<rparr>)"

lemma init_hollow: "hollow q c (pqueue_init q c)"
  by (auto simp: hollow_def pqueue_init_sel)

lemma init_stays_hollow: "hollow q c c' \<Longrightarrow> hollow q c (pqueue_init r c')"
  by (auto simp: hollow_def pqueue_init_sel)

lemma inits_stay_hollow: "hollow q c c' \<Longrightarrow> hollow q c (fold pqueue_init qs c')"
  by (induction qs arbitrary: c') (simp_all add: init_stays_hollow)

lemma hollow_other: "q \<noteq> r \<Longrightarrow> hollow q (pqueue_init r c) c' \<longleftrightarrow> hollow q c c'"
  by (simp add: hollow_def pqueue_init_sel)

lemma init_queues_hollow: "init_queues_loop ds w = Some w' \<Longrightarrow> hollow q c (qw w) \<Longrightarrow> hollow q c (qw w')"
  by (induction ds w rule: init_queues_loop.induct) (auto simp: inits_stay_hollow split: if_splits)

lemma fork_tcb_free_qw: "pth_fork_tcb_free E t w = Some w' \<Longrightarrow> qw w' = qw w"
  by (auto simp: pth_fork_tcb_free_def pth_fork_key_destroydata_def pth_fork_event_key_destroy_def Let_def split: if_splits bind_splits)

lemma fork_thread_loop_qw:
  assumes "fork_thread_loop E cur l w = Some w'"
  shows "qw w' = qw w"
proof (rule fork_thread_loop.raw_induct [where P = "\<lambda>E cur l w w'. qw w' = qw w", OF _ assms], goal_cases)
  case (1 f E cur l w w')
  show ?case
  proof (cases l)
    case TqHead
    with 1(2) show ?thesis by (auto split: if_splits)
  next
    case (TqNode t)
    show ?thesis
    proof (cases "list_node_is_tail l TqHead (thread_queue w)")
      case False
      then obtain w1 where w1: "(if t \<noteq> cur then pth_fork_tcb_free E t w else Some w) = Some w1" "f E cur (list_next l (thread_queue w)) w1 = Some w'"
        using 1(2) TqNode by (auto simp: Let_def split: bind_splits)
      then have "qw w1 = qw w" using fork_tcb_free_qw [of E t w w1] by (auto split: if_splits)
      with 1(1) [OF w1(2)] show ?thesis by simp
    qed (use 1(2) in simp)
  qed
qed

lemma drop_threads_hollow:
  assumes "pth_fork_drop_threads E cur w = Some w'"
  shows "hollow pth_RQ (qw w) (qw w')"
proof -
  obtain w1 where w1: "fork_thread_loop E cur (list_next TqHead (thread_queue w)) w = Some w1"
    and w': "init_queues_loop all_natives (w1\<lparr>qw := fold pqueue_init [pth_NQ, pth_RQ, pth_WQ, pth_DQ, pth_SQ] (qw w1)\<rparr>) = Some w'"
    using assms by (auto simp: pth_fork_drop_threads_def split: bind_splits)
  have n: "pth_RQ \<noteq> pth_NQ" by (simp add: queue_numbers)
  have "hollow pth_RQ (qw w) (fold pqueue_init [pth_NQ, pth_RQ, pth_WQ, pth_DQ, pth_SQ] (qw w1))"
    using init_hollow [of pth_RQ "pqueue_init pth_NQ (qw w)"] fork_thread_loop_qw [OF w1]
    by (simp add: init_stays_hollow hollow_other [OF n])
  then show ?thesis using init_queues_hollow [OF w'] by simp
qed

lemma hollow_append:
  assumes h: "hollow q c c1" and q: "qs_ok c S Q" "q \<in> S" and j: "j < 140" "Q q j \<noteq> []"
    and t: "priority (nodes c1 t) = int i" "i < j" "node_lt (nodes c1 t) = node_lt_nowhere"
  shows "\<exists>c2. pqueue_append_node q t c1 = Some c2 \<and> pqueue_total_nolock q c2 = 1 \<and> pqueue_first_node_nolock q c2 = None"
proof -
  let ?bm = "pq_bitmap (pqueues c q)" and ?l = "upd_pqueue q (\<lambda>p. p\<lparr>pq_lock := 1\<rparr>) c1"
  let ?c2 = "spin_unlock_pq q (node_pqueue_set t (Some q) (upd_lnodes (list_insert_tail (NodeLn t) (PqHead q i)) (pqueue_count_in q t ?l)))"
  have rep: "pq_rep c q (Q q)" using q by (simp add: qs_ok_def pqs_rep_def)
  then have b: "length ?bm = 6" "\<forall>k<160. bitmap_test ?bm k \<longleftrightarrow> k < 140 \<and> Q q k \<noteq> []" by (simp_all add: pq_rep_def)
  have p: "pqueues c1 q = (pqueues c q)\<lparr>pq_total := 0, pq_lock := 0\<rparr>"
    and hd: "\<And>k. k < 140 \<Longrightarrow> lnodes c1 (PqHead q k) = \<lparr>lnext = PqHead q k, lprev = PqHead q k\<rparr>" using h by (simp_all add: hollow_def)
  have a: "pqueue_append_node q t c1 = Some ?c2"
    using t j(1) p by (simp add: pqueue_append_node_def spin_lock_pq_def pqueue_append_node_nolock_def node_lt_check_def
        pqueue_insert_tail_def pqueue_count_in_def head_of_priority)
  have s: "pq_total (pqueues ?c2 q) = 1" "pq_bitmap (pqueues ?c2 q) = bitmap_set_bit ?bm i"
    using p t by (simp_all add: spin_unlock_pq_def pqueue_count_in_def node_pqueue_set_def)
  have bt: "bitmap_test (bitmap_set_bit ?bm i) k \<longleftrightarrow> k = i \<or> k < 140 \<and> Q q k \<noteq> []" if "k < 160" for k
    using bitmap_test_set_bit [of i ?bm k] b that t(2) j(1) by auto
  then obtain m where m: "bitmap_ffms_bit_set (bitmap_set_bit ?bm i) = Some m" "m < 160" "bitmap_test (bitmap_set_bit ?bm i) m" "j \<le> m"
    using bitmap_ffms_highest [of j "bitmap_set_bit ?bm i"] j by auto
  with bt [of m] t(2) have "m \<noteq> i" "m < 140" by auto
  then have "lnext (lnodes ?c2 (PqHead q m)) = PqHead q m"
    using hd [of m] hd [of i] t(2) j(1)
    by (simp add: spin_unlock_pq_def node_pqueue_set_def pqueue_count_in_def list_insert_tail_def list_insert_between_def set_lnext_def set_lprev_def)
  then have "pqueue_first_node_nolock q ?c2 = None" using s m(1) by (simp add: pqueue_first_node_nolock_def Let_def)
  with a s(1) show ?thesis by (simp add: pqueue_total_nolock_def)
qed

text \<open>
  C40.  If a thread with a priority above \<open>i\<close> is in the ready queue when the process forks, then a
  thread of priority \<open>i\<close> that enters the ready queue of the child is counted but never found:
  initialising the queue again empties its lists and keeps the bitmap.
\<close>

theorem fork_hides_thread:
  assumes "qs_ok (qw w) S Q" "pth_RQ \<in> S" "j < 140" "Q pth_RQ j \<noteq> []"
    and "pth_fork_drop_threads E cur w = Some w1"
    and "priority (nodes (qw w1) t) = int i" "i < j" "node_lt (nodes (qw w1) t) = node_lt_nowhere"
  shows "\<exists>c. pqueue_append_node pth_RQ t (qw w1) = Some c \<and> pqueue_total_nolock pth_RQ c = 1 \<and> pqueue_first_node_nolock pth_RQ c = None"
  by (rule hollow_append [OF drop_threads_hollow [OF assms(5)] assms(1-4) assms(6-8)])

lemma inits_nodes: "nodes (fold pqueue_init qs c) = nodes c"
  by (induction qs arbitrary: c) (simp_all add: pqueue_init_sel)

theorem fork_hides_thread_witness:
  "\<exists>(w :: iworld) w1 c. qs_ok (qw w) UNIV ((\<lambda>_ _. [])(pth_RQ := (\<lambda>_. [])(5 := [15]))) \<and> pth_fork_drop_threads fenv 1 w = Some w1
     \<and> pqueue_append_node pth_RQ 2 (qw w1) = Some c \<and> pqueue_total_nolock pth_RQ c = 1 \<and> pqueue_first_node_nolock pth_RQ c = None"
proof -
  obtain c where "qs_ok c UNIV ((\<lambda>_ _. [])(pth_RQ := (\<lambda>_. [])(15 mod 10 := [15])))"
    and n: "\<And>m. m \<noteq> 15 \<Longrightarrow> nodes c m = nodes idle_queues m" using one_queued [of pth_RQ UNIV 15] by blast
  then have c: "qs_ok c UNIV ((\<lambda>_ _. [])(pth_RQ := (\<lambda>_. [])(5 := [15])))" by simp
  let ?w = "iw0\<lparr>qw := c, thread_queue := lnode_init TqHead (thread_queue iw0)\<rparr>"
  have l: "list_next TqHead (lnode_init TqHead (thread_queue iw0)) = TqHead" by (simp add: list_next_def lnode_init_def set_lnext_def set_lprev_def)
  have "fork_thread_loop fenv 1 TqHead ?w = Some ?w" by (subst fork_thread_loop.simps) (simp add: list_node_is_tail_def lnode_init_def set_lnext_def set_lprev_def)
  moreover obtain ns where ns: "all_natives = 1 # 2 # 3 # ns"
    unfolding all_natives_def by (simp add: PTH_MAX_NATIVE_THREADS_def upt_conv_Cons del: upt_Suc)
  have i: "\<exists>w1. init_queues_loop all_natives w = Some w1 \<and> nodes (qw w1) = nodes (qw w)" if "natives w = natives ?w" for w :: iworld
    using that unfolding ns by (simp add: inits_nodes)
  let ?v = "?w\<lparr>qw := fold pqueue_init [pth_NQ, pth_RQ, pth_WQ, pth_DQ, pth_SQ] (qw ?w)\<rparr>"
  have "nodes (qw ?v) = nodes c" by (simp add: pqueue_init_sel(2))
  with i [of ?v] have "\<exists>w1. init_queues_loop all_natives ?v = Some w1 \<and> nodes (qw w1) = nodes c" by simp
  ultimately have "\<exists>w1. pth_fork_drop_threads fenv 1 ?w = Some w1 \<and> nodes (qw w1) = nodes c"
    by (simp add: pth_fork_drop_threads_def l)
  then obtain w1 where w1: "pth_fork_drop_threads fenv 1 ?w = Some w1" "nodes (qw w1) = nodes c" by blast
  have q: "qs_ok (qw ?w) UNIV ((\<lambda>_ _. [])(pth_RQ := (\<lambda>_. [])(5 := [15])))" using c by simp
  have "\<exists>c. pqueue_append_node pth_RQ 2 (qw w1) = Some c \<and> pqueue_total_nolock pth_RQ c = 1 \<and> pqueue_first_node_nolock pth_RQ c = None"
    by (rule fork_hides_thread [OF q, where j = 5 and i = 2 and E = fenv and cur = 1]) (use w1 n in \<open>simp_all add: idle_queues_def zero_qworld_def\<close>)
  with q w1(1) show ?thesis by blast
qed

subsection \<open>The start of the library\<close>

text \<open>
  A second attempt to map the shared area reports success although the first one has failed: the
  descriptor, or the value -1, is stored before the file is read.
\<close>

theorem shared_second_attempt:
  assumes "pth_shared_fd w = 0" "e_area_open E \<noteq> 0" "pth_initialize_shared E w = (False, w')"
  shows "pth_initialize_shared E w' = (True, w')"
proof -
  have "pth_shared_fd (snd (pth_initialize_shared E w)) = e_area_open E"
    by (simp add: pth_initialize_shared_def assms(1) Let_def split: option.split)
  with assms(2,3) have "pth_shared_fd w' \<noteq> 0" by simp
  then show ?thesis by (simp add: pth_initialize_shared_def)
qed

theorem shared_second_attempt_witness:
  "\<exists>w'. pth_initialize_shared fenv iw0 = (False, w') \<and> pth_initialize_shared fenv w' = (True, w')"
proof -
  have "\<exists>w'. pth_initialize_shared fenv iw0 = (False, w')" by (simp add: pth_initialize_shared_def fenv_def)
  with shared_second_attempt [of iw0 fenv] show ?thesis by (auto simp: fenv_def)
qed

text \<open>
  A default stack size out of the range of a long makes the library ignore the other variables of
  its environment as well, because \<open>errno\<close> is not cleared before it is tested.
\<close>

theorem overflow_hides_limits:
  assumes "e_getenv E ''DEFAULTTHREADSTACKSIZE'' = Some s" "snd (strtol s (e_errno E)) = ERANGE"
  shows "init_limits E (snd (init_stacksize E)) w = init_limits (E\<lparr>e_getenv := \<lambda>_. None\<rparr>) 0 w"
proof -
  have "env_number E ''DEFAULTTHREADSTACKSIZE'' (e_errno E) = (None, ERANGE)"
    using assms by (cases "strtol s (e_errno E)") (simp add: env_number_def)
  then have "snd (init_stacksize E) = ERANGE" by (simp add: init_stacksize_def)
  moreover have "env_number E n ERANGE = (None, ERANGE)" for n
    by (simp add: env_number_def strtol_def Let_def split: option.splits)
  moreover have "env_number (E\<lparr>e_getenv := \<lambda>_. None\<rparr>) n e = (None, e)" for n e by (simp add: env_number_def)
  ultimately show ?thesis by (simp add: init_limits_def)
qed

theorem overflow_hides_limits_witness:
  "e_getenv fenv ''MAXNATIVETHREADS'' = Some ''4'' \<and> init_limits fenv (snd (init_stacksize fenv)) iw0 = init_limits (fenv\<lparr>e_getenv := \<lambda>_. None\<rparr>) 0 iw0"
proof -
  have "snd (strtol ''99999999999'' 0) = ERANGE"
    by (simp add: strtol_def isdigit_def digit_val_def)
  moreover have "e_errno fenv = 0" "e_getenv fenv = (\<lambda>_. None)(''DEFAULTTHREADSTACKSIZE'' := Some ''99999999999'', ''MAXNATIVETHREADS'' := Some ''4'')"
    by (simp_all add: fenv_def)
  ultimately show ?thesis using overflow_hides_limits [of fenv "''99999999999''" iw0] by simp
qed

end
