(* ===== verification/Spec2Isabelle.thy ===== *)
theory Spec2Isabelle
  imports Pqueue Fifo Msgport Tqueue Locks Time Keys Cleanup SyncProps Printf EventProps ForkProps
begin

text \<open>
  NGPT is an M:N POSIX threads library: user threads (\<open>pth_t\<close>, control blocks of pth_tcb.c) are run
  by native threads (\<open>pth_descr_t\<close>, pth_native.c), each of which executes the scheduler loop of
  pth_sched.c.  Threads that are new, ready, waiting, suspended or dead are in priority queues
  (pqueue.h), of the process or of one native thread; a thread that waits for something has a ring of
  events (pth_event.c) that the event manager of the scheduler tests.  Mutexes, condition variables
  and read-write locks (pth_sync.c) keep lists of the threads that wait for them, and move a thread
  that is woken from the waiting queue of its native to a ready queue.

  \<^bold>\<open>Conventions.\<close>  A function of the C code is a function of the same name; the C functions whose
  names start with two underscores (the lock is held by the caller) have the suffix \<open>_nolock\<close>.
  State is passed explicitly.  A pointer is a natural number, 0 is NULL, and a heap is a function
  from pointers to records that have the fields of the C structure.  The result \<open>None\<close> stands for an
  access out of range, a dereferenced NULL pointer, a spin lock that is never free, or a loop that
  does not end; theorems that an operation returns are stated as \<open>= Some\<close>.  Loops are
  \<open>partial_function (option)\<close>, so there is no fuel; the scheduler loop, which never ends, takes the
  number of its rounds.  Machine integers whose wrap-around matters are words, or integers
  that are reduced to 32 bits with a sign by \<open>wrap_int\<close>.  What is not part of the sources is a parameter: the kernel's futex, \<open>select\<close>, \<open>mmap\<close>, signals and clock, and the
  functions of the application (handlers, destructors, the code of a thread) are fields of the records
  \<open>sysenv\<close>, \<open>condenv\<close>, \<open>threnv\<close>, \<open>schedenv\<close>, \<open>nenv\<close> and \<open>initenv\<close>.

  \<^bold>\<open>Foundations.\<close>
  \<^item> \<open>Prelude\<close>: collections, error numbers, counters; \<open>Flags\<close>: flag words; \<open>Interfaces\<close>: the locales
    for data types that refine lists and for walks over linked structures, which the containers below
    interpret; \<open>Cycles\<close>: doubly linked cycles over pointers.
  \<^item> \<open>ListNode\<close>: list.h and node.h; \<open>Bitmap\<close>: bitmap.h and the bit operations of sysdeps/i386;
    \<open>Priorities\<close>: priorities.h, with the inverse conversions between user and internal priorities.
  \<^item> \<open>Pqueue\<close>: pqueue.h, the queues of the scheduler: any sequence of operations refines the operations
    on one list per priority, the bitmap and the counters agree with the lists, the first node is the
    head of the highest list, and iterations visit every node once.
  \<^item> \<open>Fifo\<close>: queue.h; \<open>Ring\<close>: pth_ring.c; \<open>Tqueue\<close>: pth_pqueue.c with its relative priorities;
    \<open>Msgport\<close>: pth_msg.c.  Each refines lists, and the loops end; in \<open>Tqueue\<close> for
    priorities within 2^30 of zero, because the differences are C integers.
  \<^item> \<open>Alloc\<close>: allocation.c, the caching allocator: chunk lists per order and page sets refine lists of
    free chunks, whatever is stored in the chunks short of a header of their order; the areas at the
    addresses that were returned overlap neither each other nor a free chunk.
  \<^item> \<open>Time\<close>: pth_time.c; \<open>Keys\<close>: pth_data.c; \<open>Cleanup\<close>: pth_clean.c; \<open>Printf\<close>: pth_string.c;
    \<open>Util\<close>: pth_util.c.

  \<^bold>\<open>Locks and synchronisation.\<close>
  \<^item> \<open>Locks\<close>: spin locks and queue locks (spinlock.h, pth_p.h.in), as functions and as an interleaving of
    the atomic steps of native threads, with mutual exclusion; a thread that runs alone has the effect
    of the function.  \<open>Futex\<close>: futex.h, in the same two ways.
  \<^item> \<open>World\<close>: thread control blocks, natives, the queues and waiting lists; \<open>Event\<close>: pth_event.c;
    \<open>Mutex\<close>, \<open>MutexProps\<close>: mutexes, with the critical sections of acquire, wait and release as steps,
    mutual exclusion, hand-over to the thread that waits longest, and recursive locking;
    \<open>Sync\<close>, \<open>SyncProps\<close>: condition variables, read-write locks, barriers and the shared area.

  \<^bold>\<open>Threads and the scheduler.\<close>
  \<^item> \<open>SchedQueues\<close>: the queues with the set of locks that are held, and the effect of locking, unlocking,
    appending, deleting and favouring on them.
  \<^item> \<open>Thread\<close>: pth_tcb.c and pth_cancel.c; \<open>Lib\<close>: operations of pth_lib.c on threads; \<open>ThreadProps\<close>:
    suspension and resumption, once control, control blocks given back, cancellation and joining.
  \<^item> \<open>Sched\<close>: the steps of the scheduler in pth_sched.c, one definition for each part of its loop, with the
    load average rounded to single precision as the C code does;
    \<open>EventMgr\<close>: the event manager; \<open>Scheduler\<close>: the loop; \<open>SchedProps\<close>: which thread runs next, that
    ready threads run in turn, that new threads become ready and that the end of a thread wakes the one
    that joins it; \<open>EventProps\<close>: the pass over the waiting threads ends and loses none, and the union
    of the arguments of an event is never misread.

  \<^bold>\<open>Creation, start and end.\<close>
  \<^item> \<open>Attr\<close>: attribute objects (pth_attr.c), with what is set read back.
  \<^item> \<open>Natives\<close>: making natives, the watchdog and the end of natives (pth_native.c); \<open>Spawn\<close>: creating a
    thread (\<open>pth_spawn\<close> in pth_lib.c); \<open>Init\<close>: the start of a native, \<open>pth_init\<close> and \<open>pth_kill\<close>, and
    the mapping of the shared area (pth_sync.c); \<open>Fork\<close>: pth_fork.c.  Natives run in parallel: what
    another native has done when \<open>clone\<close> or a sleep returns is a parameter.  The theorems leave it
    arbitrary unless they say otherwise: the bound of the table of natives assumes that the
    number of natives is the same before and after \<open>clone\<close>.
  \<^item> \<open>SpawnProps\<close>: where a new thread is and with which attributes, the bound of the table of natives and
    which natives the watchdog wakes; \<open>ForkProps\<close>: the order of the fork handlers, and the queues of the
    child, in which the bitmap of the parent hides threads.

  \<^bold>\<open>Configuration.\<close>  The code without the debugger interface (\<open>THREAD_DB\<close>), without a separate register
  stack, with contexts made by \<open>makecontext\<close> and with 32-bit words, as on i386.  The numbers of the
  macros in pth.h.in are constants of the theories that use them.

  \<^bold>\<open>Not modelled.\<close>  pth_high.c, pth_ext.c and pth_syscall.c (blocking calls around system calls), pthread.c
  (the POSIX names of the functions modelled here with their argument checks, left out for its size),
  semaphore.c (a counter with a POSIX mutex and condition, on top of pthread.c), sysconf.c
  (answers of the system), td_manager.c (debugger interface), pth_debug.c, debug.c and dump functions
  (output only), shared_area_file.c and ngptc.c (the file of the shared area), the context switches of
  pth_mctx.c and sysdeps (a switch is the parameter \<open>e_switch\<close> or \<open>e_run\<close>), compatibility functions, and
  the tests.
\<close>

end
